(* ===== verification/Py_Prelude.thy ===== *)
theory Py_Prelude
  imports Main "HOL-Library.Char_ord" "HOL-Library.List_Lexorder"
begin

text \<open>
  Shared vocabulary of the development.

  The program is written in Python, so this theory fixes how the Python values it
  computes with are read in HOL:
  \<^item> a \<open>str\<close> is a \<^typ>\<open>string\<close>; a \<^typ>\<open>char\<close> is a code point below 256 (the code
    treats the code points above that range like the letters of the upper half of it);
  \<^item> a \<open>dict\<close> is an association list in insertion order (\<open>dget\<close>, \<open>dset\<close>, \<open>dpop\<close>);
  \<^item> a JSON-like value is a \<open>pyval\<close>;
  \<^item> a raised exception is the left summand of \<open>py_exc + 'a\<close>; the exception class is
    kept, the message text is not.

  Then come the string operations the sources call (\<open>startswith\<close>, \<open>split\<close>, \<open>join\<close>,
  \<open>strip\<close>, \<open>find\<close>) with the lemmas the components share, and the two interfaces every
  component uses: \<open>keyed_dict\<close>, the contract of a dictionary, and \<open>step_system\<close>, the
  contract of a transition system with an invariant.
\<close>

named_theorems py_str \<open>equations and facts of the Python string operations\<close>
named_theorems py_dict \<open>lookup equations of the insertion-ordered dictionary\<close>

section \<open>Exceptions and values\<close>

datatype py_exc =
    ValueError
  | NamespaceShapeError
  | InvalidURIError
  | InvalidArgumentError
  | PermissionDeniedError
  | PermissionError
  | NotFoundError
  | FailedPreconditionError
  | RuntimeError
  | TypeError
  | KeyError
  | CircuitBreakerOpen
  | TaskWorkRejected
  | CancelledError
  | IOError
  | OtherError string

text \<open>The subclass relation the \<open>except\<close> clauses rely on: \<open>NamespaceShapeError\<close> derives
  from \<open>ValueError\<close>, \<open>InvalidURIError\<close> from \<open>InvalidArgumentError\<close>.\<close>

definition is_ValueError :: "py_exc \<Rightarrow> bool" where
  "is_ValueError e \<longleftrightarrow> e = ValueError \<or> e = NamespaceShapeError"

definition is_InvalidArgumentError :: "py_exc \<Rightarrow> bool" where
  "is_InvalidArgumentError e \<longleftrightarrow> e = InvalidArgumentError \<or> e = InvalidURIError"

datatype pyval =
    PNone
  | PBool bool
  | PInt int
  | PStr string
  | PList "pyval list"
  | PDict "(string \<times> pyval) list"

type_synonym pydict = "(string \<times> pyval) list"

text \<open>Python truthiness, as used by \<open>x or y\<close>, \<open>if x\<close> and \<open>bool(x)\<close>.\<close>

fun truthy :: "pyval \<Rightarrow> bool" where
  "truthy PNone = False"
| "truthy (PBool b) = b"
| "truthy (PInt i) = (i \<noteq> 0)"
| "truthy (PStr s) = (s \<noteq> [])"
| "truthy (PList xs) = (xs \<noteq> [])"
| "truthy (PDict kvs) = (kvs \<noteq> [])"

lemma map_sum_id_Inr [simp]: "map_sum id f x = Inr y \<longleftrightarrow> (\<exists>z. x = Inr z \<and> y = f z)"
  by (cases x) auto

lemma map_sum_id_Inl [simp]: "map_sum id f x = Inl e \<longleftrightarrow> x = Inl e"
  by (cases x) auto

text \<open>Sequencing of calls that may raise, and of calls that may also not return (\<open>None\<close>).\<close>

type_synonym 'a aio = "(py_exc + 'a) option"

definition ebind :: "'e + 'a \<Rightarrow> ('a \<Rightarrow> 'e + 'b) \<Rightarrow> 'e + 'b" where
  "ebind m f = (case m of Inl e \<Rightarrow> Inl e | Inr x \<Rightarrow> f x)"

definition rbind :: "'a aio \<Rightarrow> ('a \<Rightarrow> 'b aio) \<Rightarrow> 'b aio" where
  "rbind m f = (case m of None \<Rightarrow> None | Some r \<Rightarrow> (case r of Inl e \<Rightarrow> Some (Inl e) | Inr x \<Rightarrow> f x))"

lemma ebind_simps [simp]: "ebind (Inl e) f = Inl e" "ebind (Inr x) f = f x"
  by (simp_all add: ebind_def)

lemma ebind_Inr: "ebind m f = Inr y \<longleftrightarrow> (\<exists>x. m = Inr x \<and> f x = Inr y)"
  by (cases m) simp_all

lemma rbind_simps [simp]:
  "rbind None f = None" "rbind (Some (Inl e)) f = Some (Inl e)" "rbind (Some (Inr x)) f = f x"
  by (simp_all add: rbind_def)

text \<open>A comprehension whose body may raise: the first exception wins.\<close>

fun emap :: "('a \<Rightarrow> 'e + 'b) \<Rightarrow> 'a list \<Rightarrow> 'e + 'b list" where
  "emap f [] = Inr []"
| "emap f (x # xs) = ebind (f x) (\<lambda>y. ebind (emap f xs) (\<lambda>ys. Inr (y # ys)))"

lemma emap_Inr: "emap f xs = Inr ys \<longleftrightarrow> list_all2 (\<lambda>x y. f x = Inr y) xs ys"
proof (induction xs arbitrary: ys)
  case (Cons x xs)
  then show ?case by (cases ys) (auto simp: ebind_Inr)
qed auto

lemma emap_total: "(\<And>x. x \<in> set xs \<Longrightarrow> f x = Inr (g x)) \<Longrightarrow> emap f xs = Inr (map g xs)"
  by (induction xs) simp_all

lemma emap_Inl: "emap f xs = Inl e \<Longrightarrow> \<exists>x \<in> set xs. f x = Inl e"
proof (induction xs)
  case (Cons x xs)
  then show ?case by (cases "f x"; cases "emap f xs") auto
qed simp

text \<open>\<open>list(dict.fromkeys(xs))\<close>: the distinct elements in the order of first occurrence.\<close>

fun uniq :: "'a list \<Rightarrow> 'a list" where
  "uniq [] = []"
| "uniq (x # xs) = x # filter (\<lambda>y. y \<noteq> x) (uniq xs)"

lemma set_uniq [simp]: "set (uniq xs) = set xs"
  by (induction xs) auto

lemma distinct_uniq [simp]: "distinct (uniq xs)"
  by (induction xs) auto

lemma uniq_id: "distinct xs \<Longrightarrow> uniq xs = xs"
  by (induction xs) (auto simp: filter_id_conv)

text \<open>Slices \<open>xs[0:n], xs[n:2n], ...\<close> of a list, for \<open>n > 0\<close>.\<close>

function chunks :: "nat \<Rightarrow> 'a list \<Rightarrow> 'a list list" where
  "chunks n xs = (if xs = [] \<or> n = 0 then [] else take n xs # chunks n (drop n xs))"
  by auto
termination by (relation "measure (\<lambda>(n, xs). length xs)") auto

declare chunks.simps [simp del]

lemma concat_chunks: "0 < n \<Longrightarrow> concat (chunks n xs) = xs"
  by (induction n xs rule: chunks.induct) (subst chunks.simps, auto)

lemma chunks_bounded: "c \<in> set (chunks n xs) \<Longrightarrow> c \<noteq> [] \<and> length c \<le> n"
  by (induction n xs rule: chunks.induct) (subst (asm) (2) chunks.simps, auto split: if_splits)

section \<open>Dictionaries in insertion order\<close>

fun dget :: "('k \<times> 'v) list \<Rightarrow> 'k \<Rightarrow> 'v option" where
  "dget [] k = None"
| "dget ((k', v) # d) k = (if k = k' then Some v else dget d k)"

fun dset :: "('k \<times> 'v) list \<Rightarrow> 'k \<Rightarrow> 'v \<Rightarrow> ('k \<times> 'v) list" where
  "dset [] k v = [(k, v)]"
| "dset ((k', v') # d) k v = (if k = k' then (k', v) # d else (k', v') # dset d k v)"

definition dpop :: "('k \<times> 'v) list \<Rightarrow> 'k \<Rightarrow> ('k \<times> 'v) list" where
  "dpop d k = filter (\<lambda>e. fst e \<noteq> k) d"

definition dsetdefault :: "('k \<times> 'v) list \<Rightarrow> 'k \<Rightarrow> 'v \<Rightarrow> ('k \<times> 'v) list" where
  "dsetdefault d k v = (if dget d k = None then dset d k v else d)"

fun dupdate :: "('k \<times> 'v) list \<Rightarrow> ('k \<times> 'v) list \<Rightarrow> ('k \<times> 'v) list" where
  "dupdate d [] = d"
| "dupdate d ((k, v) # e) = dupdate (dset d k v) e"

definition dkeys :: "('k \<times> 'v) list \<Rightarrow> 'k list" where
  "dkeys d = map fst d"

lemma dget_dset [simp, py_dict]: "dget (dset d k v) k' = (if k' = k then Some v else dget d k')"
  by (induction d k v rule: dset.induct) auto

lemma dget_dpop [simp, py_dict]: "dget (dpop d k) k' = (if k' = k then None else dget d k')"
  by (induction d) (auto simp: dpop_def)

lemma dkeys_dset: "dkeys (dset d k v) = (if k \<in> set (dkeys d) then dkeys d else dkeys d @ [k])"
  by (induction d k v rule: dset.induct) (auto simp: dkeys_def)

lemma dkeys_dpop: "dkeys (dpop d k) = filter (\<lambda>k'. k' \<noteq> k) (dkeys d)"
  by (induction d) (auto simp: dkeys_def dpop_def)

lemma distinct_dset [simp]: "distinct (dkeys d) \<Longrightarrow> distinct (dkeys (dset d k v))"
  by (simp add: dkeys_dset)

lemma distinct_dpop [simp]: "distinct (dkeys d) \<Longrightarrow> distinct (dkeys (dpop d k))"
  by (simp add: dkeys_dpop)

lemma dset_new: "k \<notin> set (dkeys d) \<Longrightarrow> dset d k v = d @ [(k, v)]"
  by (induction d k v rule: dset.induct) (auto simp: dkeys_def)

lemma dget_None_iff [py_dict]: "dget d k = None \<longleftrightarrow> k \<notin> set (dkeys d)"
  by (induction d k rule: dget.induct) (auto simp: dkeys_def)

lemma dget_in_set: "dget d k = Some v \<Longrightarrow> (k, v) \<in> set d"
  by (induction d k rule: dget.induct) (auto split: if_splits)

lemma in_set_dget: "distinct (dkeys d) \<Longrightarrow> (k, v) \<in> set d \<Longrightarrow> dget d k = Some v"
  by (induction d k rule: dget.induct) (auto simp: dkeys_def image_iff)

lemma dget_eq_map_of: "dget d = map_of d"
proof
  fix k show "dget d k = map_of d k" by (induction d k rule: dget.induct) auto
qed

lemma set_dset_subset: "set (dset d k v) \<subseteq> insert (k, v) (set d)"
  by (induction d k v rule: dset.induct) auto

lemma set_dpop_subset: "set (dpop d k) \<subseteq> set d"
  by (auto simp: dpop_def)

text \<open>The contract of a dictionary: what a lookup returns after each update, and that
  no update breaks the representation.\<close>

locale keyed_dict =
  fixes empty :: 'd
    and get :: "'d \<Rightarrow> 'k \<Rightarrow> 'v option"
    and put :: "'d \<Rightarrow> 'k \<Rightarrow> 'v \<Rightarrow> 'd"
    and del :: "'d \<Rightarrow> 'k \<Rightarrow> 'd"
    and ok :: "'d \<Rightarrow> bool"
  assumes get_empty: "get empty k = None"
    and get_put: "ok d \<Longrightarrow> get (put d k v) k' = (if k' = k then Some v else get d k')"
    and get_del: "ok d \<Longrightarrow> get (del d k) k' = (if k' = k then None else get d k')"
    and ok_empty: "ok empty"
    and ok_put: "ok d \<Longrightarrow> ok (put d k v)"
    and ok_del: "ok d \<Longrightarrow> ok (del d k)"
begin

lemma put_put_same: "ok d \<Longrightarrow> get (put (put d k v) k w) = get (put d k w)"
  by (rule ext) (simp add: get_put ok_put)

lemma put_commute: "ok d \<Longrightarrow> k \<noteq> l \<Longrightarrow> get (put (put d k v) l w) = get (put (put d l w) k v)"
  by (rule ext) (simp add: get_put ok_put)

lemma del_put_absent: "ok d \<Longrightarrow> get d k = None \<Longrightarrow> get (del (put d k v) k) = get d"
  by (rule ext) (simp add: get_put get_del ok_put)

lemma fold_put:
  assumes "ok d"
  shows "ok (fold (\<lambda>(k, v) e. put e k v) kvs d)
    \<and> (\<forall>k. k \<notin> fst ` set kvs \<longrightarrow> get (fold (\<lambda>(k, v) e. put e k v) kvs d) k = get d k)"
  using assms
proof (induction kvs arbitrary: d)
  case Nil
  then show ?case by simp
next
  case (Cons kv kvs)
  obtain k v where kv: "kv = (k, v)" by (cases kv)
  from Cons.prems have "ok (put d k v)" by (rule ok_put)
  from Cons.IH [OF this] Cons.prems show ?case by (auto simp: kv get_put)
qed

end

interpretation pd: keyed_dict "[]" dget dset dpop "\<lambda>d. distinct (dkeys d)"
  by unfold_locales (simp_all add: dkeys_def [of "[]"])

section \<open>Strings\<close>

definition startswith :: "string \<Rightarrow> string \<Rightarrow> bool" where
  "startswith s p \<longleftrightarrow> take (length p) s = p"

definition endswith :: "string \<Rightarrow> string \<Rightarrow> bool" where
  "endswith s p \<longleftrightarrow> startswith (rev s) (rev p)"

text \<open>\<open>s.split(c)\<close> for a one-character separator.\<close>

fun split_on :: "char \<Rightarrow> string \<Rightarrow> string list" where
  "split_on c [] = [[]]"
| "split_on c (x # xs) =
     (if x = c then [] # split_on c xs
      else (case split_on c xs of [] \<Rightarrow> [[x]] | w # ws \<Rightarrow> (x # w) # ws))"

text \<open>\<open>s.split(c, 1)[0]\<close>, the part before the first separator.\<close>

definition before :: "char \<Rightarrow> string \<Rightarrow> string" where
  "before c s = takeWhile (\<lambda>x. x \<noteq> c) s"

text \<open>\<open>s.partition(c)\<close>: the part before, whether the separator occurs, the part after.\<close>

definition partition_on :: "char \<Rightarrow> string \<Rightarrow> string \<times> bool \<times> string" where
  "partition_on c s =
     (if c \<in> set s then (before c s, True, tl (dropWhile (\<lambda>x. x \<noteq> c) s)) else (s, False, []))"

fun join :: "string \<Rightarrow> string list \<Rightarrow> string" where
  "join sep [] = []"
| "join sep [w] = w"
| "join sep (w # v # ws) = w @ sep @ join sep (v # ws)"

definition lstrip :: "(char \<Rightarrow> bool) \<Rightarrow> string \<Rightarrow> string" where
  "lstrip P s = dropWhile P s"

definition rstrip :: "(char \<Rightarrow> bool) \<Rightarrow> string \<Rightarrow> string" where
  "rstrip P s = rev (dropWhile P (rev s))"

definition strip :: "(char \<Rightarrow> bool) \<Rightarrow> string \<Rightarrow> string" where
  "strip P s = rstrip P (lstrip P s)"

abbreviation is_slash :: "char \<Rightarrow> bool" where
  "is_slash c \<equiv> c = CHR ''/''"

text \<open>The white space \<open>str.strip()\<close> removes (code points below 256).\<close>

definition is_space :: "char \<Rightarrow> bool" where
  "is_space c \<longleftrightarrow> c \<in> {CHR 0x09, CHR 0x0A, CHR 0x0B, CHR 0x0C, CHR 0x0D,
     CHR 0x1C, CHR 0x1D, CHR 0x1E, CHR 0x1F, CHR '' '', CHR 0x85, CHR 0xA0}"

fun find_sub :: "string \<Rightarrow> string \<Rightarrow> nat option" where
  "find_sub p [] = (if p = [] then Some 0 else None)"
| "find_sub p (x # xs) =
     (if startswith (x # xs) p then Some 0 else map_option Suc (find_sub p xs))"

definition contains :: "string \<Rightarrow> string \<Rightarrow> bool" where
  "contains p s \<longleftrightarrow> find_sub p s \<noteq> None"

text \<open>\<open>s.rfind(c)\<close>, \<open>None\<close> for -1.\<close>

definition rfind_char :: "char \<Rightarrow> string \<Rightarrow> nat option" where
  "rfind_char c s =
     (if c \<in> set s then Some (length s - 1 - length (takeWhile (\<lambda>x. x \<noteq> c) (rev s))) else None)"

definition is_ascii_lower :: "char \<Rightarrow> bool" where
  "is_ascii_lower c \<longleftrightarrow> CHR ''a'' \<le> c \<and> c \<le> CHR ''z''"

definition is_ascii_upper :: "char \<Rightarrow> bool" where
  "is_ascii_upper c \<longleftrightarrow> CHR ''A'' \<le> c \<and> c \<le> CHR ''Z''"

definition is_ascii_digit :: "char \<Rightarrow> bool" where
  "is_ascii_digit c \<longleftrightarrow> CHR ''0'' \<le> c \<and> c \<le> CHR ''9''"

definition is_ascii_alnum :: "char \<Rightarrow> bool" where
  "is_ascii_alnum c \<longleftrightarrow> is_ascii_lower c \<or> is_ascii_upper c \<or> is_ascii_digit c"

definition upper_char :: "char \<Rightarrow> char" where
  "upper_char c = (if is_ascii_lower c then char_of (of_char c - 32 :: nat) else c)"

text \<open>\<open>str.lower\<close> on code points below 256.\<close>

definition lower_char :: "char \<Rightarrow> char" where
  "lower_char c =
     (let n = of_char c :: nat in
      if is_ascii_upper c \<or> (192 \<le> n \<and> n \<le> 222 \<and> n \<noteq> 215) then char_of (n + 32) else c)"

text \<open>\<open>str(v)\<close>: decimal numbers, and \<open>repr\<close> inside containers. \<open>repr\<close> of a string uses
  single quotes unless it holds one and no double quote, and escapes what is not printable.\<close>

definition dec_digit :: "nat \<Rightarrow> char" where
  "dec_digit n = char_of (48 + n)"

fun nat_dec :: "nat \<Rightarrow> string" where
  "nat_dec n = (if n < 10 then [dec_digit n] else nat_dec (n div 10) @ [dec_digit (n mod 10)])"

declare nat_dec.simps [simp del]

definition int_dec :: "int \<Rightarrow> string" where
  "int_dec i = (if i < 0 then CHR ''-'' # nat_dec (nat (- i)) else nat_dec (nat i))"

definition hex_digit :: "nat \<Rightarrow> char" where
  "hex_digit n = (if n < 10 then char_of (48 + n) else char_of (87 + n))"

definition repr_char :: "char \<Rightarrow> char \<Rightarrow> string" where
  "repr_char q c =
     (let n = of_char c :: nat in
      if c = q \<or> c = CHR 0x5C then [CHR 0x5C, c]
      else if n = 9 then [CHR 0x5C, CHR ''t'']
      else if n = 10 then [CHR 0x5C, CHR ''n'']
      else if n = 13 then [CHR 0x5C, CHR ''r'']
      else if n < 32 \<or> (127 \<le> n \<and> n \<le> 160) \<or> n = 173
        then [CHR 0x5C, CHR ''x'', hex_digit (n div 16), hex_digit (n mod 16)]
      else [c])"

definition repr_str :: "string \<Rightarrow> string" where
  "repr_str s =
     (let q = (if CHR 0x27 \<in> set s \<and> CHR 0x22 \<notin> set s then CHR 0x22 else CHR 0x27)
      in q # concat (map (repr_char q) s) @ [q])"

fun py_repr :: "pyval \<Rightarrow> string" where
  "py_repr PNone = ''None''"
| "py_repr (PBool b) = (if b then ''True'' else ''False'')"
| "py_repr (PInt i) = int_dec i"
| "py_repr (PStr s) = repr_str s"
| "py_repr (PList xs) = ''['' @ join '', '' (map py_repr xs) @ '']''"
| "py_repr (PDict kvs) =
     ''{'' @ join '', '' (map (\<lambda>kv. repr_str (fst kv) @ '': '' @ py_repr (snd kv)) kvs) @ ''}''"

definition py_str :: "pyval \<Rightarrow> string" where
  "py_str v = (case v of PStr s \<Rightarrow> s | _ \<Rightarrow> py_repr v)"

lemma py_str_PStr [simp]: "py_str (PStr s) = s"
  by (simp add: py_str_def)

text \<open>The non-empty segments between slashes: \<open>[p for p in s.split("/") if p]\<close>.\<close>

definition segs :: "string \<Rightarrow> string list" where
  "segs s = filter (\<lambda>p. p \<noteq> []) (split_on CHR ''/'' s)"

text \<open>A path segment: non-empty and without a slash.\<close>

definition segment :: "string \<Rightarrow> bool" where
  "segment w \<longleftrightarrow> w \<noteq> [] \<and> CHR ''/'' \<notin> set w"

lemma startswith_Nil [simp, py_str]: "startswith s []"
  by (simp add: startswith_def)

lemma startswith_append [simp, py_str]: "startswith (p @ s) p"
  by (simp add: startswith_def)

lemma startswith_iff: "startswith s p \<longleftrightarrow> (\<exists>r. s = p @ r)"
  by (metis append_eq_conv_conj append_take_drop_id startswith_def)

lemma startswith_Cons [simp, py_str]:
  "startswith (x # xs) (y # ys) \<longleftrightarrow> x = y \<and> startswith xs ys"
  by (auto simp: startswith_def)

lemma startswith_empty [simp, py_str]: "startswith [] (y # ys) \<longleftrightarrow> False"
  by (simp add: startswith_def)

lemma split_on_not_Nil [simp]: "split_on c s \<noteq> []"
  by (cases s) (auto split: list.splits)

lemma split_on_Cons:
  "split_on c (x # xs) = (if x = c then [] # split_on c xs
     else (x # hd (split_on c xs)) # tl (split_on c xs))"
  by (cases "split_on c xs") auto

text \<open>Proofs use \<open>split_on_Cons\<close>; evaluation uses the defining equation, which computes the
  recursive call once.\<close>

declare split_on.simps(2) [simp del] split_on_Cons [simp]

lemma split_on_hd_tl:
  "hd (split_on c s) \<in> set (split_on c s)" "set (tl (split_on c s)) \<subseteq> set (split_on c s)"
  using split_on_not_Nil [of c s] by (cases "split_on c s"; auto)+

lemma split_on_no_sep: "w \<in> set (split_on c s) \<Longrightarrow> c \<notin> set w"
proof (induction c s arbitrary: w rule: split_on.induct)
  case (2 c x xs)
  with split_on_hd_tl [of c xs] show ?case by (auto split: if_splits)
qed simp

lemma split_on_absent: "c \<notin> set s \<Longrightarrow> split_on c s = [s]"
  by (induction c s rule: split_on.induct) auto

lemma split_on_append: "c \<notin> set w \<Longrightarrow> split_on c (w @ c # s) = w # split_on c s"
  by (induction w) auto

lemma hd_split_on: "hd (split_on c s) = before c s"
  by (induction c s rule: split_on.induct) (auto simp: before_def)

lemma before_absent: "c \<notin> set s \<Longrightarrow> before c s = s"
  by (induction s) (auto simp: before_def)

lemma before_append: "c \<notin> set w \<Longrightarrow> before c (w @ c # s) = w"
  by (induction w) (auto simp: before_def)

lemma before_decomp:
  obtains (absent) "c \<notin> set s" "before c s = s"
  | (present) r where "s = before c s @ c # r" "c \<notin> set (before c s)"
proof (cases "c \<in> set s")
  case True
  then obtain u v where "s = u @ c # v" "c \<notin> set u" by (meson split_list_first)
  with present show thesis by (simp add: before_append)
qed (simp add: absent before_absent)

lemma split_on_join:
  "ws \<noteq> [] \<Longrightarrow> \<forall>w \<in> set ws. c \<notin> set w \<Longrightarrow> split_on c (join [c] ws) = ws"
  by (induction "[c]" ws rule: join.induct) (auto simp: split_on_absent split_on_append)

lemma join_Cons [py_str]: "ws \<noteq> [] \<Longrightarrow> join sep (w # ws) = w @ sep @ join sep ws"
  by (cases ws) auto

lemma join_split_on: "join [c] (split_on c s) = s"
proof (induction c s rule: split_on.induct)
  case (2 c x xs)
  then show ?case
    by (cases "split_on c xs"; cases "tl (split_on c xs)") (auto simp: join_Cons)
qed simp

lemma segs_segment: "w \<in> set (segs s) \<Longrightarrow> segment w"
  by (auto simp: segs_def segment_def dest: split_on_no_sep)

lemma segs_Nil [simp]: "segs [] = []"
  by (simp add: segs_def)

lemma segs_slash [simp]: "segs (CHR ''/'' # s) = segs s"
  by (simp add: segs_def)

lemma segs_word_slash: "segment w \<Longrightarrow> segs (w @ CHR ''/'' # s) = w # segs s"
  by (simp add: segs_def segment_def split_on_append)

lemma segs_word: "segment w \<Longrightarrow> segs w = [w]"
  by (simp add: segs_def segment_def split_on_absent)

lemma segs_join: "list_all segment ws \<Longrightarrow> segs (join ''/'' ws) = ws"
  by (induction "''/''" ws rule: join.induct) (auto simp: segs_word segs_word_slash)

lemma segs_slashes: "list_all is_slash s \<Longrightarrow> segs s = []"
  by (induction s) auto

lemma segs_append_slash: "segs (s @ CHR ''/'' # t) = segs s @ segs t"
proof (induction "length s" arbitrary: s rule: less_induct)
  case less
  show ?case
  proof (cases "CHR ''/'' \<in> set s")
    case False
    then show ?thesis
      by (cases "s = []") (auto simp: segs_word segs_word_slash segment_def)
  next
    case True
    then obtain u v where s: "s = u @ CHR ''/'' # v" and u: "CHR ''/'' \<notin> set u"
      by (meson split_list_first)
    then have IH: "segs (v @ CHR ''/'' # t) = segs v @ segs t" by (intro less) simp
    show ?thesis
      using u IH by (cases "u = []") (auto simp: s segs_word_slash segment_def)
  qed
qed

lemma segs_append_slashes: "list_all is_slash t \<Longrightarrow> segs (s @ t) = segs s"
  by (cases t) (auto simp: segs_append_slash segs_slashes)

lemma rstrip_decomp: "\<exists>t. s = rstrip P s @ t \<and> list_all P t"
  by (rule exI [of _ "rev (takeWhile P (rev s))"])
     (simp add: rstrip_def list_all_iff flip: rev_append, metis set_takeWhileD)

lemma rstrip_last: "rstrip P s \<noteq> [] \<Longrightarrow> \<not> P (last (rstrip P s))"
  by (metis hd_dropWhile last_rev rev_is_Nil_conv rstrip_def)

lemma rstrip_id: "s = [] \<or> \<not> P (last s) \<Longrightarrow> rstrip P s = s"
  by (cases s rule: rev_cases) (auto simp: rstrip_def)

lemma rstrip_idem [simp]: "rstrip P (rstrip P s) = rstrip P s"
  by (rule rstrip_id) (meson rstrip_last)

lemma rstrip_Nil_iff: "rstrip P s = [] \<longleftrightarrow> list_all P s"
  by (auto simp: rstrip_def dropWhile_eq_Nil_conv list_all_iff)

lemma rstrip_append: "rstrip P (s @ t) = (if list_all P t then rstrip P s else s @ rstrip P t)"
  by (auto simp: rstrip_def dropWhile_append list_all_iff)

lemma rstrip_Cons:
  "rstrip P (x # s) = (if list_all P s then (if P x then [] else [x]) else x # rstrip P s)"
  using rstrip_append [of P "[x]" s] by (simp add: rstrip_def)

lemma strip_Nil_iff: "strip P s = [] \<longleftrightarrow> list_all P s"
proof -
  have "list_all P (dropWhile P s) \<longleftrightarrow> list_all P s"
    by (induction s) auto
  then show ?thesis by (simp add: strip_def lstrip_def rstrip_Nil_iff)
qed

lemma set_rstrip: "set (rstrip P s) \<subseteq> set s"
  by (auto simp: rstrip_def dest: set_dropWhileD)

lemma set_strip: "set (strip P s) \<subseteq> set s"
  using set_rstrip by (fastforce simp: strip_def lstrip_def dest: set_dropWhileD)

lemma segs_rstrip: "segs (rstrip is_slash s) = segs s"
  by (metis rstrip_decomp segs_append_slashes)

lemma segs_Nil_iff: "segs s = [] \<longleftrightarrow> list_all is_slash s"
proof (induction s)
  case (Cons x s)
  show ?case
  proof (cases "is_slash x")
    case False
    then show ?thesis by (simp add: segs_def)
  qed (use Cons in simp)
qed simp

lemma set_segs: "w \<in> set (segs s) \<Longrightarrow> set w \<subseteq> set s"
proof -
  have "w \<in> set (split_on c s) \<Longrightarrow> set w \<subseteq> set s" for c
  proof (induction c s arbitrary: w rule: split_on.induct)
    case (2 c x xs)
    with split_on_hd_tl [of c xs] show ?case by (force split: if_splits)
  qed simp
  then show "w \<in> set (segs s) \<Longrightarrow> set w \<subseteq> set s" by (auto simp: segs_def)
qed

lemma segs_no_slash_append:
  assumes "CHR ''/'' \<notin> set w" "w \<noteq> []"
  shows "\<exists>ys. segs (w @ t) = (w @ before CHR ''/'' t) # ys"
proof (cases rule: before_decomp [of "CHR ''/''" t])
  case absent
  with assms show ?thesis by (simp add: segs_word segment_def)
next
  case (present r)
  then have "w @ t = (w @ before CHR ''/'' t) @ CHR ''/'' # r" by simp
  with present assms show ?thesis using segs_word_slash [of "w @ before CHR ''/'' t" r]
    by (simp add: segment_def)
qed

text \<open>Appending text either adds segments or extends the last one.\<close>

lemma segs_append_cases:
  obtains (separate) "segs (u @ t) = segs u @ segs t"
  | (extended) v w ys where "segs u = v @ [w]" "segs (u @ t) = v @ (w @ before CHR ''/'' t) # ys"
proof (cases "u = [] \<or> is_slash (last u)")
  case True
  then consider "u = []" | u' where "u = u' @ ''/''" by (metis append_butlast_last_id)
  then show thesis
    by cases (auto intro: separate simp: segs_append_slash segs_append_slashes)
next
  case False
  then obtain p w where u: "u = p @ w" "CHR ''/'' \<notin> set w" "w \<noteq> []" "p = [] \<or> (\<exists>p'. p = p' @ ''/'')"
  proof (cases "CHR ''/'' \<in> set u")
    case True
    then obtain a b where ab: "u = a @ CHR ''/'' # b" "CHR ''/'' \<notin> set b" by (meson split_list_last)
    with False have "b \<noteq> []" by auto
    with ab that [of "a @ ''/''" b] show ?thesis by simp
  qed auto
  obtain ys where ys: "segs (w @ t) = (w @ before CHR ''/'' t) # ys"
    using segs_no_slash_append [OF u(2,3)] by blast
  have "segs (p @ x) = segs p @ segs x" for x
    using u(4) by (auto simp: segs_append_slash segs_append_slashes)
  with ys u show thesis by (intro extended [of "segs p" w ys]) (auto simp: segs_word segment_def)
qed

text \<open>Segments that lie before a query mark survive cutting the query.\<close>

lemma segs_before_query:
  assumes "segs r = a # b # rest" "CHR ''?'' \<notin> set a" "CHR ''?'' \<notin> set b"
  shows "\<exists>rest'. segs (before CHR ''?'' r) = a # b # rest'"
proof (cases rule: before_decomp [of "CHR ''?''" r])
  case (present t)
  let ?u = "before CHR ''?'' r" and ?t = "CHR ''?'' # t"
  have b: "before CHR ''/'' ?t = CHR ''?'' # before CHR ''/'' t" by (simp add: before_def)
  obtain ys where t: "segs ?t = (CHR ''?'' # before CHR ''/'' t) # ys"
    using segs_no_slash_append [of "''?''" t] by auto
  have r: "segs (?u @ ?t) = a # b # rest" using present assms(1) by simp
  show ?thesis
  proof (cases rule: segs_append_cases [of ?u ?t])
    case separate
    then have "segs ?u @ (CHR ''?'' # before CHR ''/'' t) # ys = a # b # rest" using r t by simp
    with assms(2,3) show ?thesis
      by (cases "segs ?u" rule: list.exhaust; cases "tl (segs ?u)") auto
  next
    case (extended v w zs)
    then have "v @ (w @ CHR ''?'' # before CHR ''/'' t) # zs = a # b # rest" using r b by simp
    with assms(2,3) extended(1) show ?thesis by (cases v; cases "tl v") auto
  qed
qed (use assms in simp)

lemma segs_query_prefix:
  assumes "segs (before CHR ''?'' r) = a # b # rest"
  shows "\<exists>b' rest'. segs r = a # b' # rest'"
proof (cases rule: before_decomp [of "CHR ''?''" r])
  case (present t)
  show ?thesis
  proof (cases rule: segs_append_cases [of "before CHR ''?'' r" "CHR ''?'' # t"])
    case separate
    with present assms show ?thesis by simp
  next
    case (extended v w zs)
    with present assms show ?thesis by (cases v; cases "tl v") auto
  qed
qed (use assms in simp)

declare split_on_Cons [simp del] split_on.simps(2) [simp]

section \<open>Transition systems with an invariant\<close>

inductive reach :: "('s \<Rightarrow> bool) \<Rightarrow> ('s \<Rightarrow> 's \<Rightarrow> bool) \<Rightarrow> 's \<Rightarrow> bool"
  for init :: "'s \<Rightarrow> bool" and step :: "'s \<Rightarrow> 's \<Rightarrow> bool" where
  reach_init: "init s \<Longrightarrow> reach init step s"
| reach_step: "reach init step s \<Longrightarrow> step s t \<Longrightarrow> reach init step t"

text \<open>A component that starts in \<open>init\<close> and moves by \<open>step\<close> keeps \<open>inv\<close>; a predicate
  \<open>final\<close> that no step leaves holds for ever once it holds.\<close>

locale step_system =
  fixes init :: "'s \<Rightarrow> bool"
    and step :: "'s \<Rightarrow> 's \<Rightarrow> bool"
    and inv :: "'s \<Rightarrow> bool"
  assumes inv_init: "init s \<Longrightarrow> inv s"
    and inv_step: "inv s \<Longrightarrow> step s t \<Longrightarrow> inv t"
begin

lemma reach_inv: "reach init step s \<Longrightarrow> inv s"
  by (induction rule: reach.induct) (auto intro: inv_init inv_step)

lemma steps_inv: "step\<^sup>*\<^sup>* s t \<Longrightarrow> inv s \<Longrightarrow> inv t"
  by (induction rule: rtranclp_induct) (auto intro: inv_step)

lemma reach_steps: "reach init step s \<Longrightarrow> step\<^sup>*\<^sup>* s t \<Longrightarrow> reach init step t"
  by (rotate_tac 1, induction rule: rtranclp_induct) (auto intro: reach_step)

end

end
