(* ===== verification/Viking_Uri.thy ===== *)
theory Viking_Uri
  imports Py_Prelude
begin

text \<open>
  The URI value type, \<open>VikingURI\<close> of \<open>openviking_cli/utils/uri.py\<close>: parsing against the
  fixed scopes, navigation (\<open>parent\<close>, \<open>join\<close>), construction (\<open>build\<close>,
  \<open>build_semantic_uri\<close>, \<open>create_temp_uri\<close>) and the sanitiser that turns arbitrary text
  into one path segment.

  The lemmas show that navigation never leaves the valid URIs: \<open>parent\<close> and \<open>join\<close> act on
  the list of path segments as \<open>butlast\<close> and append do, \<open>build\<close> produces URIs that parse
  back to the scope they were built from, and a sanitised segment is always one non-empty
  portable path component.
\<close>

section \<open>The type and its parser\<close>

definition SCHEME :: string where
  "SCHEME = ''viking''"

text \<open>The prefix \<open>f"{SCHEME}://"\<close>, kept as one constant.\<close>

definition VIKING :: string where
  "VIKING = SCHEME @ ''://''"

definition LISTABLE_SCOPES :: "string list" where
  "LISTABLE_SCOPES = [''resources'', ''user'', ''agent'']"

definition PUBLIC_SCOPES :: "string list" where
  "PUBLIC_SCOPES = LISTABLE_SCOPES"

definition LEGACY_SCOPES :: "string list" where
  "LEGACY_SCOPES = [''session'']"

definition INTERNAL_SCOPES :: "string list" where
  "INTERNAL_SCOPES = [''temp'', ''queue'', ''upload'']"

definition ALIAS_SCOPES :: "string list" where
  "ALIAS_SCOPES = [''~'']"

definition VISITABLE_SCOPES :: "string list" where
  "VISITABLE_SCOPES = PUBLIC_SCOPES @ LEGACY_SCOPES @ INTERNAL_SCOPES @ ALIAS_SCOPES"

record viking_uri =
  vu_uri :: string
  vu_scope :: string
  vu_full_path :: string

definition VikingURI_parse :: "string \<Rightarrow> py_exc + viking_uri" where
  "VikingURI_parse uri =
     (if \<not> startswith uri VIKING then Inl ValueError
      else let path = drop (length VIKING) uri in
        if strip is_slash path = [] then Inr \<lparr>vu_uri = uri, vu_scope = [], vu_full_path = []\<rparr>
        else let scope = hd (split_on CHR ''/'' path) in
          if scope \<notin> set VISITABLE_SCOPES then Inl ValueError
          else Inr \<lparr>vu_uri = uri, vu_scope = scope, vu_full_path = path\<rparr>)"

definition VikingURI_is_valid :: "string \<Rightarrow> bool" where
  "VikingURI_is_valid uri = (case VikingURI_parse uri of Inl _ \<Rightarrow> False | Inr _ \<Rightarrow> True)"

definition VikingURI_resource_name :: "viking_uri \<Rightarrow> string option" where
  "VikingURI_resource_name v =
     (if vu_scope v \<noteq> ''resources'' then None
      else let parts = split_on CHR ''/'' (vu_full_path v) in
        if length parts > 1 then Some (parts ! 1) else None)"

definition VikingURI_matches_prefix :: "viking_uri \<Rightarrow> string \<Rightarrow> bool" where
  "VikingURI_matches_prefix v p = startswith (vu_uri v) p"

section \<open>Navigation and construction\<close>

definition VikingURI_parent :: "viking_uri \<Rightarrow> py_exc + viking_uri option" where
  "VikingURI_parent v =
     (let uri = rstrip is_slash (vu_uri v) in
      case find_sub ''://'' uri of
        None \<Rightarrow> Inr None
      | Some scheme_end \<Rightarrow>
          let after_scheme = drop (scheme_end + length ''://'') uri in
          if CHR ''/'' \<notin> set after_scheme then
            (if after_scheme \<noteq> [] then map_sum id Some (VikingURI_parse VIKING)
             else Inr None)
          else (case rfind_char CHR ''/'' uri of
              None \<Rightarrow> Inr None
            | Some last_slash \<Rightarrow> map_sum id Some (VikingURI_parse (take last_slash uri))))"

definition VikingURI_join :: "viking_uri \<Rightarrow> string \<Rightarrow> py_exc + viking_uri" where
  "VikingURI_join v part0 =
     (let part = strip is_slash part0 in
      if part = [] then Inr v
      else let full = rstrip is_slash (vu_full_path v) in
        if full \<noteq> [] then VikingURI_parse (VIKING @ full @ ''/'' @ part)
        else VikingURI_parse (VIKING @ part))"

definition VikingURI_build :: "string \<Rightarrow> string list \<Rightarrow> py_exc + string" where
  "VikingURI_build scope path_parts =
     (if scope \<notin> set VISITABLE_SCOPES \<or> scope \<in> set ALIAS_SCOPES then Inl ValueError
      else let parts = filter (\<lambda>p. p \<noteq> []) (scope # path_parts) in
        Inr (VIKING @ join ''/'' parts))"

definition VikingURI_eq :: "viking_uri \<Rightarrow> viking_uri \<Rightarrow> bool" where
  "VikingURI_eq v w \<longleftrightarrow> vu_uri v = vu_uri w"

text \<open>\<open>now_str\<close> is \<open>strftime('%m%d%H%M')\<close>, \<open>uuid_hex\<close> the hexadecimal digits of a fresh
  \<open>uuid4\<close>.\<close>

definition create_temp_uri :: "string \<Rightarrow> string \<Rightarrow> string option \<Rightarrow> string" where
  "create_temp_uri now_str uuid_hex space =
     (let temp_leaf = now_str @ ''_'' @ take 6 uuid_hex in
      case space of
        Some sp \<Rightarrow> if sp \<noteq> [] then ''viking://temp/'' @ sp @ ''/'' @ temp_leaf
                   else ''viking://temp/'' @ temp_leaf
      | None \<Rightarrow> ''viking://temp/'' @ temp_leaf)"

section \<open>Sanitising text into one segment\<close>

definition WINDOWS_RESERVED_STEMS :: "string list" where
  "WINDOWS_RESERVED_STEMS =
     [''CON'', ''PRN'', ''AUX'', ''NUL'']
     @ map (\<lambda>d. ''COM'' @ [d]) ''123456789''
     @ map (\<lambda>d. ''LPT'' @ [d]) ''123456789''"

definition windows_reserved_stem :: "string \<Rightarrow> string" where
  "windows_reserved_stem seg =
     map upper_char (rstrip (\<lambda>c. c = CHR '' '' \<or> c = CHR ''.'') (before CHR ''.'' seg))"

text \<open>The characters the pattern of \<open>sanitize_segment\<close> keeps: \<open>\w\<close>, the Latin blocks from
  U+0080 on, the hyphen and the dot.\<close>

definition kept_char :: "char \<Rightarrow> bool" where
  "kept_char c \<longleftrightarrow> is_ascii_alnum c \<or> c = CHR ''_'' \<or> CHR 0x80 \<le> c
     \<or> c = CHR ''-'' \<or> c = CHR ''.''"

text \<open>\<open>re.sub(r"_+", "_", s)\<close>\<close>

fun merge_underscores :: "string \<Rightarrow> string" where
  "merge_underscores [] = []"
| "merge_underscores [x] = [x]"
| "merge_underscores (x # y # s) =
     (if x = CHR ''_'' \<and> y = CHR ''_'' then merge_underscores (y # s)
      else x # merge_underscores (y # s))"

definition sanitize_segment :: "string \<Rightarrow> string" where
  "sanitize_segment text =
     (let safe1 = map (\<lambda>c. if kept_char c then c else CHR ''_'') text;
          safe2 = merge_underscores safe1;
          safe3 = take 50 (strip (\<lambda>c. c = CHR ''_'' \<or> c = CHR ''.'') safe2);
          safe4 = (if windows_reserved_stem safe3 \<in> set WINDOWS_RESERVED_STEMS
                   then ''_'' @ safe3 else safe3)
      in if safe4 \<noteq> [] then safe4 else ''unnamed'')"

definition build_semantic_uri :: "string \<Rightarrow> string \<Rightarrow> string option \<Rightarrow> bool \<Rightarrow> py_exc + string" where
  "build_semantic_uri parent_uri semantic_name node_id is_leaf =
     (let safe_name = sanitize_segment semantic_name in
      if \<not> is_leaf then Inr (parent_uri @ ''/'' @ safe_name)
      else (case node_id of
          None \<Rightarrow> Inl ValueError
        | Some nid \<Rightarrow> if nid = [] then Inl ValueError
                      else Inr (parent_uri @ ''/'' @ safe_name @ ''/'' @ nid)))"

lemmas scope_defs = LISTABLE_SCOPES_def PUBLIC_SCOPES_def LEGACY_SCOPES_def INTERNAL_SCOPES_def
  ALIAS_SCOPES_def VISITABLE_SCOPES_def

section \<open>Shape of parsed URIs\<close>

lemma VIKING_lit: "VIKING = ''viking://''"
  by (simp add: VIKING_def SCHEME_def)

lemma length_VIKING [simp]: "length VIKING = 9"
  by (simp add: VIKING_lit)

lemma VIKING_not_Nil [simp]: "VIKING \<noteq> []"
  by (simp add: VIKING_lit)

lemma visitable_segment: "s \<in> set VISITABLE_SCOPES \<Longrightarrow> segment s"
  by (auto simp: scope_defs segment_def)

lemma visitable_no_query: "s \<in> set VISITABLE_SCOPES \<Longrightarrow> CHR ''?'' \<notin> set s"
  by (auto simp: scope_defs)

text \<open>A parsed URI is the scheme followed by its path; the path is empty of segments or
  starts with the scope.\<close>

lemma parse_Inr_iff:
  "VikingURI_parse uri = Inr v \<longleftrightarrow>
     (\<exists>path. uri = VIKING @ path \<and>
       (if segs path = [] then v = \<lparr>vu_uri = uri, vu_scope = [], vu_full_path = []\<rparr>
        else before CHR ''/'' path \<in> set VISITABLE_SCOPES
          \<and> v = \<lparr>vu_uri = uri, vu_scope = before CHR ''/'' path, vu_full_path = path\<rparr>))"
proof (cases "startswith uri VIKING")
  case True
  then obtain path where uri: "uri = VIKING @ path" by (auto simp: startswith_iff)
  then show ?thesis
    by (auto simp: VikingURI_parse_def Let_def strip_Nil_iff segs_Nil_iff hd_split_on)
next
  case False
  then show ?thesis by (auto simp: VikingURI_parse_def)
qed

lemma parse_cases:
  assumes "VikingURI_parse uri = Inr v"
  obtains (root) t where "uri = VIKING @ t" "list_all is_slash t"
      "v = \<lparr>vu_uri = uri, vu_scope = [], vu_full_path = []\<rparr>"
  | (scoped) sc rest where "uri = VIKING @ sc @ rest" "sc \<in> set VISITABLE_SCOPES"
      "rest = [] \<or> (\<exists>r. rest = CHR ''/'' # r)"
      "v = \<lparr>vu_uri = uri, vu_scope = sc, vu_full_path = sc @ rest\<rparr>"
proof -
  from assms obtain path where uri: "uri = VIKING @ path"
    and c: "if segs path = [] then v = \<lparr>vu_uri = uri, vu_scope = [], vu_full_path = []\<rparr>
        else before CHR ''/'' path \<in> set VISITABLE_SCOPES
          \<and> v = \<lparr>vu_uri = uri, vu_scope = before CHR ''/'' path, vu_full_path = path\<rparr>"
    by (auto simp: parse_Inr_iff)
  show thesis
  proof (cases "segs path = []")
    case True
    with c uri root [of path] show thesis by (simp add: segs_Nil_iff)
  next
    case False
    show thesis
    proof (cases rule: before_decomp [of "CHR ''/''" path])
      case absent
      with False c uri scoped [of path "[]"] show thesis by simp
    next
      case (present r)
      with False c uri scoped [of "before CHR ''/'' path" "CHR ''/'' # r"] show thesis by simp
    qed
  qed
qed

lemma parse_uri [simp]: "VikingURI_parse uri = Inr v \<Longrightarrow> vu_uri v = uri"
  by (auto simp: parse_Inr_iff split: if_splits)

lemma parse_scoped:
  assumes "sc \<in> set VISITABLE_SCOPES" "rest = [] \<or> (\<exists>r. rest = CHR ''/'' # r)"
  shows "VikingURI_parse (VIKING @ sc @ rest)
    = Inr \<lparr>vu_uri = VIKING @ sc @ rest, vu_scope = sc, vu_full_path = sc @ rest\<rparr>"
proof -
  from visitable_segment [OF assms(1)] have sc: "sc \<noteq> []" "CHR ''/'' \<notin> set sc"
    by (auto simp: segment_def)
  then have b: "before CHR ''/'' (sc @ rest) = sc"
    using assms(2) by (auto simp: before_append before_absent)
  have "segs (sc @ rest) \<noteq> []"
    using sc assms(2) by (auto simp: segs_word segs_word_slash segment_def)
  with b assms(1) show ?thesis by (simp add: parse_Inr_iff)
qed

lemma parse_root: "list_all is_slash t \<Longrightarrow>
  VikingURI_parse (VIKING @ t) = Inr \<lparr>vu_uri = VIKING @ t, vu_scope = [], vu_full_path = []\<rparr>"
  by (simp add: parse_Inr_iff flip: segs_Nil_iff)

lemma parse_Nil [simp]: "VikingURI_parse [] = Inl ValueError"
  by (simp add: VikingURI_parse_def VIKING_lit)

lemma parse_only_ValueError: "VikingURI_parse uri = Inl e \<Longrightarrow> e = ValueError"
  by (auto simp: VikingURI_parse_def Let_def split: if_splits)

lemma rstrip_VIKING:
  "rstrip is_slash (VIKING @ p) = (if list_all is_slash p then ''viking:'' else VIKING @ rstrip is_slash p)"
proof -
  have "rstrip is_slash VIKING = ''viking:''" by (simp add: rstrip_def VIKING_lit)
  then show ?thesis by (simp only: rstrip_append)
qed

lemma find_scheme [simp]:
  "find_sub ''://'' (VIKING @ p) = Some 6" "find_sub ''://'' ''viking:'' = None"
  by (simp_all add: VIKING_lit)

text \<open>Cutting a path at its last slash.\<close>

lemma last_slash_split:
  assumes "CHR ''/'' \<in> set p" "p \<noteq> []" "last p \<noteq> CHR ''/''"
  obtains a b where "p = a @ CHR ''/'' # b" "segment b"
    "rfind_char CHR ''/'' (u @ p) = Some (length u + length a)"
proof -
  from assms(1) obtain a b where p: "p = a @ CHR ''/'' # b" and b: "CHR ''/'' \<notin> set b"
    by (meson split_list_last)
  have "takeWhile (\<lambda>x. x \<noteq> CHR ''/'') (rev b @ CHR ''/'' # rev a @ rev u) = rev b"
    using b before_append [of "CHR ''/''" "rev b"] by (simp add: before_def)
  then have "rfind_char CHR ''/'' (u @ p) = Some (length u + length a)"
    by (simp add: rfind_char_def p)
  moreover have "segment b" using assms(3) b by (cases b) (auto simp: p segment_def)
  ultimately show thesis using that p by blast
qed

lemma scoped_rstrip:
  assumes "sc \<in> set VISITABLE_SCOPES" "rest = [] \<or> (\<exists>r. rest = CHR ''/'' # r)"
  obtains rest' where "rstrip is_slash (sc @ rest) = sc @ rest'"
    "rest' = [] \<or> (\<exists>r. rest' = CHR ''/'' # r)" "segs (sc @ rest') = segs (sc @ rest)"
proof -
  from visitable_segment [OF assms(1)] have sc: "sc \<noteq> []" "CHR ''/'' \<notin> set sc"
    by (auto simp: segment_def)
  then have sc_id: "rstrip is_slash sc = sc" by (intro rstrip_id) (metis last_in_set)
  show thesis
  proof (cases "list_all is_slash rest")
    case True
    with that [of "[]"] sc_id show thesis by (simp add: rstrip_append segs_append_slashes)
  next
    case False
    then have "rstrip is_slash (sc @ rest) = sc @ rstrip is_slash rest" by (simp add: rstrip_append)
    moreover have "rstrip is_slash rest = [] \<or> (\<exists>r. rstrip is_slash rest = CHR ''/'' # r)"
      using assms(2) by (metis append_Cons append_self_conv2 list.sel(1) neq_Nil_conv rstrip_decomp)
    moreover have "segs (sc @ rstrip is_slash rest) = segs (sc @ rest)"
      by (metis calculation(1) segs_rstrip)
    ultimately show thesis using that by blast
  qed
qed

section \<open>Navigation is correct\<close>

lemma parent_of_root:
  assumes "list_all is_slash t"
  shows "VikingURI_parent \<lparr>vu_uri = VIKING @ t, vu_scope = [], vu_full_path = []\<rparr> = Inr None"
  using assms by (simp add: VikingURI_parent_def rstrip_VIKING)

lemma parent_of_scoped:
  assumes sc: "sc \<in> set VISITABLE_SCOPES" and rest: "rest = [] \<or> (\<exists>r. rest = CHR ''/'' # r)"
  shows "\<exists>p. VikingURI_parent \<lparr>vu_uri = VIKING @ sc @ rest, vu_scope = sc, vu_full_path = sc @ rest\<rparr>
        = Inr (Some p) \<and> VikingURI_parse (vu_uri p) = Inr p
      \<and> segs (vu_full_path p) = butlast (segs (sc @ rest))
      \<and> length (vu_uri p) < length (VIKING @ sc @ rest)"
proof -
  from visitable_segment [OF sc] have s: "sc \<noteq> []" "CHR ''/'' \<notin> set sc" by (auto simp: segment_def)
  from scoped_rstrip [OF sc rest] obtain rest' where
    r: "rstrip is_slash (sc @ rest) = sc @ rest'" and r': "rest' = [] \<or> (\<exists>r. rest' = CHR ''/'' # r)"
    and segs: "segs (sc @ rest') = segs (sc @ rest)" .
  have len: "length (sc @ rest') \<le> length (sc @ rest)"
    by (metis r rstrip_decomp length_append le_add1)
  have "\<not> list_all is_slash (sc @ rest)" using s by (cases sc) auto
  then have uri: "rstrip is_slash (VIKING @ sc @ rest) = VIKING @ sc @ rest'"
    using r by (simp only: rstrip_VIKING if_False)
  show ?thesis
  proof (cases "rest' = []")
    case True
    have "VikingURI_parse VIKING = Inr \<lparr>vu_uri = VIKING, vu_scope = [], vu_full_path = []\<rparr>"
      using parse_root [of "[]"] by simp
    with True uri s segs len show ?thesis
      by (simp add: VikingURI_parent_def segs_word segment_def)
         (metis butlast.simps(2) segment_def segs_word)
  next
    case False
    with r' have slash: "CHR ''/'' \<in> set (sc @ rest')" by auto
    have "last (sc @ rest') \<noteq> CHR ''/''" using rstrip_last [of is_slash "sc @ rest"] r s by auto
    from last_slash_split [OF slash _ this, of VIKING] s obtain a b where
      ab: "sc @ rest' = a @ CHR ''/'' # b" and b: "segment b"
      and rf: "rfind_char CHR ''/'' (VIKING @ sc @ rest') = Some (9 + length a)"
      by auto
    have par: "VikingURI_parent \<lparr>vu_uri = VIKING @ sc @ rest, vu_scope = sc, vu_full_path = sc @ rest\<rparr>
        = map_sum id Some (VikingURI_parse (VIKING @ a))"
      using slash ab uri rf by (simp add: VikingURI_parent_def)
    from ab s(2) obtain a' where a: "a = sc @ a'"
      by (auto simp: append_eq_append_conv2 append_eq_Cons_conv)
    have "a' = [] \<or> (\<exists>r. a' = CHR ''/'' # r)"
      using ab a r' by (cases a') auto
    with parse_scoped [OF sc this] par a have "VikingURI_parent \<lparr>vu_uri = VIKING @ sc @ rest, vu_scope = sc, vu_full_path = sc @ rest\<rparr>
        = Inr (Some \<lparr>vu_uri = VIKING @ a, vu_scope = sc, vu_full_path = a\<rparr>)" by simp
    moreover have "segs (sc @ rest) = segs a @ [b]"
      using segs ab b by (simp add: segs_append_slash segs_word)
    moreover have "length (VIKING @ a) < length (VIKING @ sc @ rest)" using ab len
      by (metis (no_types, lifting) add_less_cancel_left length_append length_Cons less_add_Suc1 order_less_le_trans add_Suc_right)
    ultimately show ?thesis
      using parse_scoped [OF sc \<open>a' = [] \<or> (\<exists>r. a' = CHR ''/'' # r)\<close>] a by (intro exI conjI) auto
  qed
qed

text \<open>Property. \<open>parent\<close> never raises on a valid URI. At the root it is \<open>None\<close>; elsewhere
  it is a valid URI, strictly shorter, whose path segments are those of the URI without the
  last one, so that following parents always ends at the root.\<close>

theorem parent_correct:
  assumes "VikingURI_parse uri = Inr v"
  shows "if segs (vu_full_path v) = [] then VikingURI_parent v = Inr None
    else \<exists>p. VikingURI_parent v = Inr (Some p) \<and> VikingURI_parse (vu_uri p) = Inr p
      \<and> segs (vu_full_path p) = butlast (segs (vu_full_path v))
      \<and> length (vu_uri p) < length (vu_uri v)"
  using assms
proof (cases rule: parse_cases)
  case (root t)
  then show ?thesis by (simp add: parent_of_root)
next
  case (scoped sc rest)
  then have "segs (sc @ rest) \<noteq> []"
    using visitable_segment by (auto simp: segs_word segs_word_slash)
  with scoped parent_of_scoped [OF scoped(2,3)] show ?thesis by simp
qed

theorem parent_correct_witness:
  "\<exists>p. VikingURI_parent \<lparr>vu_uri = ''viking://user/alice'', vu_scope = ''user'',
      vu_full_path = ''user/alice''\<rparr> = Inr (Some p) \<and> segs (vu_full_path p) = [''user'']"
proof -
  have "VikingURI_parse ''viking://user/alice'' = Inr \<lparr>vu_uri = ''viking://user/alice'',
      vu_scope = ''user'', vu_full_path = ''user/alice''\<rparr>"
    using parse_scoped [of "''user''" "''/alice''"] by (simp add: VIKING_lit scope_defs)
  from parent_correct [OF this] show ?thesis by (auto simp: segs_def)
qed

lemma strip_segs: "segs (strip is_slash s) = segs s"
proof -
  have "segs (dropWhile is_slash s) = segs s" by (induction s) auto
  then show ?thesis by (simp add: strip_def lstrip_def segs_rstrip)
qed

text \<open>Property. Joining a part below a scoped URI never raises, stays in the scope and
  appends the segments of the part to the segments of the URI, whatever slashes either of
  them carries.\<close>

theorem join_appends_segments:
  assumes "VikingURI_parse uri = Inr v" "vu_scope v \<noteq> []"
  shows "\<exists>w. VikingURI_join v part = Inr w \<and> vu_scope w = vu_scope v
    \<and> segs (vu_full_path w) = segs (vu_full_path v) @ segs part"
  using assms(1)
proof (cases rule: parse_cases)
  case (root t)
  with assms(2) show ?thesis by simp
next
  case (scoped sc rest)
  from scoped_rstrip [OF scoped(2,3)] obtain rest' where
    r: "rstrip is_slash (sc @ rest) = sc @ rest'" and r': "rest' = [] \<or> (\<exists>r. rest' = CHR ''/'' # r)"
    and segs: "segs (sc @ rest') = segs (sc @ rest)" .
  show ?thesis
  proof (cases "strip is_slash part = []")
    case True
    then have "segs part = []" by (metis segs_Nil strip_segs)
    with True scoped show ?thesis by (simp add: VikingURI_join_def)
  next
    case False
    let ?rest = "rest' @ ''/'' @ strip is_slash part"
    have "?rest = [] \<or> (\<exists>r. ?rest = CHR ''/'' # r)" using r' by auto
    from parse_scoped [OF scoped(2) this]
    have "VikingURI_join v part = Inr \<lparr>vu_uri = VIKING @ sc @ ?rest, vu_scope = sc, vu_full_path = sc @ ?rest\<rparr>"
      using False scoped r visitable_segment [OF scoped(2)] by (simp add: VikingURI_join_def segment_def Let_def)
    moreover have "segs (sc @ ?rest) = segs (sc @ rest) @ segs part"
      using segs_append_slash [of "sc @ rest'" "strip is_slash part"] segs by (simp add: strip_segs)
    ultimately show ?thesis using scoped by simp
  qed
qed

theorem join_appends_segments_witness:
  "\<exists>w. VikingURI_join \<lparr>vu_uri = ''viking://user/a/'', vu_scope = ''user'', vu_full_path = ''user/a/''\<rparr>
      ''/b//c'' = Inr w \<and> segs (vu_full_path w) = [''user'', ''a'', ''b'', ''c'']"
proof -
  have "VikingURI_parse ''viking://user/a/'' = Inr \<lparr>vu_uri = ''viking://user/a/'',
      vu_scope = ''user'', vu_full_path = ''user/a/''\<rparr>"
    using parse_scoped [of "''user''" "''/a/''"] by (simp add: VIKING_lit scope_defs)
  from join_appends_segments [OF this, of "''/b//c''"] show ?thesis by (auto simp: segs_def)
qed

lemma segs_join_any: "segs (join ''/'' ps) = concat (map segs ps)"
  by (induction "''/''" ps rule: join.induct) (auto simp: segs_append_slash)

text \<open>Property. A URI that \<open>build\<close> returns is valid: it parses to the scope it was built
  from, its segments are that scope and then the segments of the parts; the alias scope is
  never minted.\<close>

theorem build_parses:
  assumes "VikingURI_build scope parts = Inr uri"
  shows "\<exists>v. VikingURI_parse uri = Inr v \<and> vu_scope v = scope \<and> scope \<notin> set ALIAS_SCOPES
    \<and> segs (vu_full_path v) = scope # concat (map segs parts)"
proof -
  let ?ps = "filter (\<lambda>p. p \<noteq> []) parts"
  from assms have sc: "scope \<in> set VISITABLE_SCOPES" "scope \<notin> set ALIAS_SCOPES"
    and uri: "uri = VIKING @ join ''/'' (filter (\<lambda>p. p \<noteq> []) (scope # parts))"
    by (auto simp: VikingURI_build_def Let_def split: if_splits)
  from visitable_segment [OF sc(1)] have ne: "scope \<noteq> []" by (simp add: segment_def)
  let ?rest = "if ?ps = [] then [] else ''/'' @ join ''/'' ?ps"
  from ne uri have uri': "uri = VIKING @ scope @ ?rest" by (auto simp: join_Cons)
  have cm: "concat (map segs ?ps) = concat (map segs parts)" by (induction parts) auto
  have "segs (scope @ ?rest) = scope # concat (map segs ?ps)"
    using segs_word_slash [OF visitable_segment [OF sc(1)], of "join ''/'' ?ps"]
      segs_word [OF visitable_segment [OF sc(1)]]
    by (simp add: segs_join_any)
  with parse_scoped [OF sc(1), of ?rest] sc(2) cm uri' show ?thesis by auto
qed

theorem build_parses_witness:
  "\<exists>v. VikingURI_parse ''viking://resources/p/q'' = Inr v \<and> vu_scope v = ''resources''"
proof -
  have "VikingURI_build ''resources'' [''p'', [], ''q''] = Inr ''viking://resources/p/q''"
    by (simp add: VikingURI_build_def scope_defs VIKING_lit)
  from build_parses [OF this] show ?thesis by auto
qed

section \<open>Sanitised segments\<close>

lemma merge_underscores_set: "set (merge_underscores s) \<subseteq> set s"
  by (induction s rule: merge_underscores.induct) auto

lemma kept_not_slash: "kept_char c \<Longrightarrow> c \<noteq> CHR ''/'' \<and> c \<noteq> CHR ''?''"
  by (auto simp: kept_char_def is_ascii_alnum_def is_ascii_lower_def is_ascii_upper_def
      is_ascii_digit_def less_eq_char_def)

lemma strip_hd: "strip P s \<noteq> [] \<Longrightarrow> \<not> P (hd (strip P s))"
proof -
  assume a: "strip P s \<noteq> []"
  obtain t where t: "lstrip P s = strip P s @ t" using rstrip_decomp by (metis strip_def)
  with a have "hd (strip P s) = hd (lstrip P s)" "lstrip P s \<noteq> []" by auto
  then show ?thesis by (metis hd_dropWhile lstrip_def)
qed

lemma reserved_no_underscore: "CHR ''_'' # s \<notin> set WINDOWS_RESERVED_STEMS"
  by (auto simp: WINDOWS_RESERVED_STEMS_def)

lemma stem_underscore: "windows_reserved_stem (CHR ''_'' # s) \<notin> set WINDOWS_RESERVED_STEMS"
proof -
  let ?P = "\<lambda>c. c = CHR '' '' \<or> c = CHR ''.''"
  obtain t where b: "before CHR ''.'' (CHR ''_'' # s) = CHR ''_'' # t" by (simp add: before_def)
  obtain r where r: "rstrip ?P (CHR ''_'' # t) = CHR ''_'' # r"
    by (cases "list_all ?P t") (auto simp: rstrip_Cons)
  have "upper_char CHR ''_'' = CHR ''_''"
    by (simp add: upper_char_def is_ascii_lower_def less_eq_char_def)
  with b r have "\<exists>q. windows_reserved_stem (CHR ''_'' # s) = CHR ''_'' # q"
    by (simp add: windows_reserved_stem_def)
  with reserved_no_underscore show ?thesis by metis
qed

text \<open>Property. Whatever text is sanitised, the result is a single usable path component:
  not empty, free of slashes and question marks, at most 51 characters, neither \<open>.\<close> nor
  \<open>..\<close>, and not a reserved device name of Windows.\<close>

theorem sanitize_segment_safe:
  "segment (sanitize_segment text) \<and> CHR ''?'' \<notin> set (sanitize_segment text)
    \<and> length (sanitize_segment text) \<le> 51
    \<and> sanitize_segment text \<noteq> ''.'' \<and> sanitize_segment text \<noteq> ''..''
    \<and> windows_reserved_stem (sanitize_segment text) \<notin> set WINDOWS_RESERVED_STEMS"
proof -
  let ?P = "\<lambda>c. c = CHR ''_'' \<or> c = CHR ''.''"
  let ?s2 = "merge_underscores (map (\<lambda>c. if kept_char c then c else CHR ''_'') text)"
  let ?s3 = "take 50 (strip ?P ?s2)"
  have kept: "kept_char c" if "c \<in> set ?s3" for c
  proof -
    from that have "c \<in> set ?s2" by (meson in_set_takeD set_strip subsetD)
    then have "c \<in> set (map (\<lambda>c. if kept_char c then c else CHR ''_'') text)"
      using merge_underscores_set by blast
    then show ?thesis by (auto simp: kept_char_def)
  qed
  have hd: "?s3 \<noteq> ''.''" "?s3 \<noteq> ''..''"
    using strip_hd [of ?P ?s2] by (cases "strip ?P ?s2"; auto)+
  have len: "length ?s3 \<le> 50" by simp
  have clean: "CHR ''/'' \<notin> set ?s3" "CHR ''?'' \<notin> set ?s3" using kept kept_not_slash by blast+
  have unn: "windows_reserved_stem ''unnamed'' \<notin> set WINDOWS_RESERVED_STEMS" by code_simp
  have out: "sanitize_segment text =
      (if windows_reserved_stem ?s3 \<in> set WINDOWS_RESERVED_STEMS then CHR ''_'' # ?s3
       else if ?s3 \<noteq> [] then ?s3 else ''unnamed'')"
    by (simp add: sanitize_segment_def Let_def)
  show ?thesis
  proof (cases "windows_reserved_stem ?s3 \<in> set WINDOWS_RESERVED_STEMS")
    case True
    with out clean len stem_underscore [of ?s3] show ?thesis by (simp add: segment_def)
  next
    case False
    with out clean len hd unn show ?thesis by (cases "?s3 = []") (auto simp: segment_def)
  qed
qed

end
