(* ===== verification/Identity.thy ===== *)
theory Identity
  imports Viking_Uri
begin

text \<open>
  Identities: the shared identifier rules (\<open>openviking/core/identifiers.py\<close>), peer ids
  (\<open>openviking/core/peer_id.py\<close>), \<open>UserIdentifier\<close> (\<open>openviking_cli/session/user_id.py\<close>)
  and the role and request-context types of \<open>openviking/server/identity.py\<close>.

  The lemmas show what a validated identifier is worth to the path layer: it is one path
  segment, carries no query mark and is not a traversal segment. One statement records
  where the pattern is weaker than its intent (a trailing line feed is accepted).
\<close>

section \<open>Identifier rules\<close>

definition ident_char :: "char \<Rightarrow> bool" where
  "ident_char c \<longleftrightarrow> is_ascii_alnum c \<or> c = CHR ''_'' \<or> c = CHR ''.'' \<or> c = CHR ''@'' \<or> c = CHR ''-''"

text \<open>\<open>re.compile(r"^[a-zA-Z0-9_.@-]+$").match(part)\<close>: the dollar sign also matches before a
  final line feed.\<close>

definition VALIDATION_PATTERN_match :: "string \<Rightarrow> bool" where
  "VALIDATION_PATTERN_match part =
     (let w = (if part \<noteq> [] \<and> last part = CHR 0x0A then butlast part else part)
      in w \<noteq> [] \<and> list_all ident_char w)"

text \<open>\<open>None\<close> for a valid part, otherwise the message.\<close>

definition validate_identifier_part :: "string \<Rightarrow> string \<Rightarrow> string option" where
  "validate_identifier_part part part_name =
     (if part = [] then Some (part_name @ '' is empty'')
      else if part \<in> {''.'', ''..''} then Some (part_name @ '' must not be '.' or '..'' @ [CHR 0x27])
      else if \<not> VALIDATION_PATTERN_match part then Some (part_name @ '' must be alpha_numeric string.'')
      else if count_list part CHR ''@'' > 1 then Some (part_name @ '' must have at most one @.'')
      else None)"

definition normalize_identifier_part :: "string option \<Rightarrow> string \<Rightarrow> py_exc + string option" where
  "normalize_identifier_part part part_name =
     (case part of
        None \<Rightarrow> Inr None
      | Some p \<Rightarrow>
          let normalized = strip is_space p in
          if normalized = [] then Inr None
          else (case validate_identifier_part normalized part_name of
              Some _ \<Rightarrow> Inl ValueError
            | None \<Rightarrow> Inr (Some normalized)))"

definition validate_account_id :: "string \<Rightarrow> string option" where
  "validate_account_id account_id =
     (case validate_identifier_part account_id ''account_id'' of
        Some err \<Rightarrow> Some err
      | None \<Rightarrow> if startswith account_id ''_'' then Some ''account_id cannot start with underscore _.''
                else None)"

definition validate_user_id :: "string \<Rightarrow> string option" where
  "validate_user_id user_id = validate_identifier_part user_id ''user_id''"

section \<open>Peer ids\<close>

definition normalize_peer_id :: "string option \<Rightarrow> py_exc + string option" where
  "normalize_peer_id peer_id =
     (case normalize_identifier_part peer_id ''peer_id'' of
        Inl e \<Rightarrow> if is_ValueError e then Inl ValueError else Inl e
      | Inr r \<Rightarrow> Inr r)"

definition safe_peer_id :: "string option \<Rightarrow> string option" where
  "safe_peer_id peer_id = (case normalize_peer_id peer_id of Inl _ \<Rightarrow> None | Inr r \<Rightarrow> r)"

section \<open>User identifiers, roles, request contexts\<close>

record user_identifier =
  ui_account_id :: string
  ui_user_id :: string

definition UserIdentifier :: "string \<Rightarrow> string \<Rightarrow> py_exc + user_identifier" where
  "UserIdentifier account_id user_id =
     (case validate_account_id account_id of
        Some _ \<Rightarrow> Inl ValueError
      | None \<Rightarrow> (case validate_user_id user_id of
          Some _ \<Rightarrow> Inl ValueError
        | None \<Rightarrow> Inr \<lparr>ui_account_id = account_id, ui_user_id = user_id\<rparr>))"

definition UserIdentifier_to_dict :: "user_identifier \<Rightarrow> (string \<times> string) list" where
  "UserIdentifier_to_dict u = [(''account_id'', ui_account_id u), (''user_id'', ui_user_id u)]"

definition UserIdentifier_from_dict :: "(string \<times> string) list \<Rightarrow> py_exc + user_identifier" where
  "UserIdentifier_from_dict data =
     (case dget data ''account_id'' of
        None \<Rightarrow> Inl KeyError
      | Some a \<Rightarrow> (case dget data ''user_id'' of
          None \<Rightarrow> Inl KeyError
        | Some u \<Rightarrow> UserIdentifier a u))"

definition Role_ROOT :: string where "Role_ROOT = ''root''"
definition Role_ADMIN :: string where "Role_ADMIN = ''admin''"
definition Role_USER :: string where "Role_USER = ''user''"

definition BUILTIN_RANK :: "(string \<times> int) list" where
  "BUILTIN_RANK = [(Role_USER, 0), (Role_ADMIN, 1), (Role_ROOT, 2)]"

definition Role_register :: "(string \<times> int) list \<Rightarrow> string \<Rightarrow> int \<Rightarrow> (string \<times> int) list" where
  "Role_register custom_rank name rank = dset custom_rank name rank"

definition Role_rank :: "(string \<times> int) list \<Rightarrow> string \<Rightarrow> int" where
  "Role_rank custom_rank role =
     (case dget BUILTIN_RANK role of
        Some r \<Rightarrow> r
      | None \<Rightarrow> (case dget custom_rank role of Some r \<Rightarrow> r | None \<Rightarrow> 0))"

record request_context =
  rc_user :: user_identifier
  rc_role :: string
  rc_group_ids :: "string list"
  rc_actor_peer_id :: "string option"
  rc_from_oauth :: bool
  rc_api_key :: "string option"
  rc_bypass_acl :: bool

abbreviation rc_account_id :: "request_context \<Rightarrow> string" where
  "rc_account_id ctx \<equiv> ui_account_id (rc_user ctx)"

abbreviation rc_user_id :: "request_context \<Rightarrow> string" where
  "rc_user_id ctx \<equiv> ui_user_id (rc_user ctx)"

lemmas role_defs = Role_ROOT_def Role_ADMIN_def Role_USER_def

text \<open>\<open>if ctx.actor_peer_id\<close>: neither absent nor empty.\<close>

definition active_peer :: "request_context \<Rightarrow> bool" where
  "active_peer ctx \<longleftrightarrow> rc_actor_peer_id ctx \<noteq> None \<and> rc_actor_peer_id ctx \<noteq> Some []"

section \<open>What validation guarantees\<close>

lemma ident_char_safe: "ident_char c \<Longrightarrow> c \<noteq> CHR ''/'' \<and> c \<noteq> CHR ''?''"
  by (auto simp: ident_char_def is_ascii_alnum_def is_ascii_lower_def is_ascii_upper_def
      is_ascii_digit_def less_eq_char_def)

lemma pattern_chars:
  "VALIDATION_PATTERN_match part \<Longrightarrow> c \<in> set part \<Longrightarrow> ident_char c \<or> c = CHR 0x0A"
  by (cases part rule: rev_cases) (auto simp: VALIDATION_PATTERN_match_def Let_def list_all_iff split: if_splits)

lemma valid_part_safe:
  assumes "validate_identifier_part part name = None"
  shows "segment part \<and> CHR ''?'' \<notin> set part \<and> part \<noteq> ''.'' \<and> part \<noteq> ''..''"
proof -
  from assms have m: "VALIDATION_PATTERN_match part" "part \<noteq> []" "part \<noteq> ''.''" "part \<noteq> ''..''"
    by (auto simp: validate_identifier_part_def split: if_splits)
  have "c \<noteq> CHR ''/'' \<and> c \<noteq> CHR ''?''" if "c \<in> set part" for c
    using pattern_chars [OF m(1) that] ident_char_safe by auto
  with m show ?thesis by (auto simp: segment_def)
qed

lemmas valid_user_id_safe = valid_part_safe [of _ "''user_id''", folded validate_user_id_def]

lemma UserIdentifier_Inr:
  "UserIdentifier a u = Inr x \<longleftrightarrow> validate_account_id a = None \<and> validate_user_id u = None
     \<and> x = \<lparr>ui_account_id = a, ui_user_id = u\<rparr>"
  by (auto simp: UserIdentifier_def split: option.splits)

lemma valid_account_id_iff:
  "validate_account_id a = None \<longleftrightarrow>
     validate_identifier_part a ''account_id'' = None \<and> \<not> startswith a ''_''"
  by (auto simp: validate_account_id_def split: option.splits)

text \<open>Property. Every \<open>UserIdentifier\<close> that can be constructed is safe to use in paths:
  account and user are single non-empty segments without a question mark, neither \<open>.\<close> nor
  \<open>..\<close>; the account never starts with an underscore, so it cannot collide with the
  server's own \<open>_system\<close> tree; and the dictionary form reads back to the same identifier.\<close>

theorem UserIdentifier_safe:
  assumes "UserIdentifier a u = Inr x"
  shows "segment a \<and> CHR ''?'' \<notin> set a \<and> a \<notin> {''.'', ''..'', ''_system''}
    \<and> segment u \<and> CHR ''?'' \<notin> set u \<and> u \<notin> {''.'', ''..''}
    \<and> UserIdentifier_from_dict (UserIdentifier_to_dict x) = Inr x"
proof -
  from assms have v: "validate_account_id a = None" "validate_user_id u = None"
    and x: "x = \<lparr>ui_account_id = a, ui_user_id = u\<rparr>" by (auto simp: UserIdentifier_Inr)
  have "UserIdentifier_from_dict (UserIdentifier_to_dict x) = Inr x"
    using assms by (simp add: UserIdentifier_from_dict_def UserIdentifier_to_dict_def x)
  moreover have "a \<noteq> ''_system''" using v(1) by (auto simp: valid_account_id_iff)
  moreover note valid_user_id_safe [OF v(2)]
  moreover have "validate_identifier_part a ''account_id'' = None"
    using v(1) by (simp add: valid_account_id_iff)
  ultimately show ?thesis using valid_part_safe by blast
qed

theorem UserIdentifier_safe_witness:
  "UserIdentifier ''acme'' ''alice@corp'' = Inr \<lparr>ui_account_id = ''acme'', ui_user_id = ''alice@corp''\<rparr>
     \<and> segment ''alice@corp''"
proof -
  have "UserIdentifier ''acme'' ''alice@corp''
      = Inr \<lparr>ui_account_id = ''acme'', ui_user_id = ''alice@corp''\<rparr>" by code_simp
  with UserIdentifier_safe [OF this] show ?thesis by simp
qed

text \<open>Property. The pattern is anchored with a dollar sign, which in Python also matches
  before a final line feed: an identifier that ends in a line feed is accepted, although the
  rule is meant to allow only letters, digits and \<open>_.@-\<close>.\<close>

theorem identifier_accepts_trailing_newline:
  assumes "w \<noteq> []" "list_all ident_char w" "count_list w CHR ''@'' \<le> 1"
  shows "validate_identifier_part (w @ [CHR 0x0A]) name = None \<and> \<not> ident_char CHR 0x0A"
proof -
  have "\<not> ident_char CHR 0x0A" by code_simp
  moreover have "w @ [CHR 0x0A] \<noteq> ''.''" "w @ [CHR 0x0A] \<noteq> ''..''"
    by (auto simp: append_eq_Cons_conv)
  ultimately show ?thesis using assms
    by (simp add: validate_identifier_part_def VALIDATION_PATTERN_match_def)
qed

theorem identifier_accepts_trailing_newline_witness:
  "validate_identifier_part (''alice'' @ [CHR 0x0A]) ''user_id'' = None"
proof -
  have "list_all ident_char ''alice''" "count_list ''alice'' CHR ''@'' \<le> 1" by code_simp+
  with identifier_accepts_trailing_newline [of "''alice''" "''user_id''"] show ?thesis by simp
qed

end
