(* ===== verification/Namespace.thy ===== *)
theory Namespace
  imports Identity
begin

text \<open>
  The namespace rules of \<open>openviking/core/namespace.py\<close>: splitting a URI into segments,
  classifying it (memory, resource, skill), resolving it to its canonical form and owner,
  expanding the request aliases, and the visibility rules for tenants and peers.

  The lemmas show that resolution is idempotent and total up to the exceptions it names,
  that the aliases always expand below the caller's own root and never survive, that the
  reserved shorthand fails closed, and that a caller other than root is never given another
  user's namespace.
\<close>

section \<open>Segments\<close>

definition uri_parts :: "string \<Rightarrow> py_exc + string list" where
  "uri_parts uri =
     (let normalized = before CHR ''?'' uri in
      if \<not> startswith normalized VIKING then Inl ValueError
      else if normalized = VIKING then Inr []
      else let normalized' = rstrip is_slash normalized in
        Inr (filter (\<lambda>part. part \<noteq> []) (split_on CHR ''/'' (drop (length VIKING) normalized'))))"

definition uri_depth :: "string \<Rightarrow> py_exc + nat" where
  "uri_depth uri = map_sum id length (uri_parts uri)"

definition uri_leaf_name :: "string \<Rightarrow> py_exc + string" where
  "uri_leaf_name uri = map_sum id (\<lambda>parts. if parts \<noteq> [] then last parts else []) (uri_parts uri)"

definition relative_uri_path :: "string \<Rightarrow> string \<Rightarrow> py_exc + string" where
  "relative_uri_path root_uri uri =
     (case uri_parts root_uri of
        Inl e \<Rightarrow> Inl e
      | Inr root_parts \<Rightarrow> (case uri_parts uri of
          Inl e \<Rightarrow> Inl e
        | Inr parts \<Rightarrow>
            if parts = root_parts \<or> take (length root_parts) parts \<noteq> root_parts then Inr []
            else Inr (join ''/'' (drop (length root_parts) parts))))"

section \<open>Classification\<close>

definition CONTENT_TYPES_BY_SCOPE :: "(string \<times> (string \<times> string) list) list" where
  "CONTENT_TYPES_BY_SCOPE =
     [(''user'', [(''memories'', ''memory''), (''resources'', ''resource''), (''skills'', ''skill'')]),
      (''agent'', [(''memories'', ''memory''), (''resources'', ''resource''), (''skills'', ''skill'')])]"

definition content_types :: "string \<Rightarrow> (string \<times> string) list" where
  "content_types scope = (case dget CONTENT_TYPES_BY_SCOPE scope of None \<Rightarrow> [] | Some d \<Rightarrow> d)"

definition PEER_CONTENT_SEGMENTS :: "string list" where
  "PEER_CONTENT_SEGMENTS = [''memories'', ''resources'']"

definition USER_RELATIVE_ROOT_SEGMENTS :: "string list" where
  "USER_RELATIVE_ROOT_SEGMENTS = [''peers'', ''privacy'', ''sessions'']"

record uri_classification =
  uc_parts :: "string list"
  uc_scope :: string
  uc_content_index :: "nat option"
  uc_context_type :: string

definition content_segment_index :: "string list \<Rightarrow> nat option" where
  "content_segment_index parts =
     (if length parts \<ge> 2 \<and> take 2 parts = [''agent'', ''skills''] then Some 1
      else if length parts \<ge> 3 \<and> parts ! 0 = ''agent''
        \<and> parts ! 2 \<in> set (dkeys (content_types ''agent'')) then Some 2
      else if length parts < 2 \<or> parts ! 0 \<noteq> ''user'' then None
      else if length parts \<ge> 5 \<and> parts ! 2 = ''peers'' \<and> parts ! 4 \<in> set PEER_CONTENT_SEGMENTS then Some 4
      else if length parts \<ge> 3 \<and> parts ! 2 \<in> set (dkeys (content_types ''user'')) then Some 2
      else None)"

definition is_namespace_root_parts :: "string list \<Rightarrow> string \<Rightarrow> bool" where
  "is_namespace_root_parts parts scope \<longleftrightarrow>
     scope = ''user'' \<and> take 1 parts = [''user''] \<and> length parts = 2"

definition classify_uri :: "string \<Rightarrow> py_exc + uri_classification" where
  "classify_uri uri =
     (case uri_parts uri of
        Inl e \<Rightarrow> Inl e
      | Inr parts \<Rightarrow>
          let content_index = content_segment_index parts;
              context_type = (case content_index of
                  None \<Rightarrow> ''resource''
                | Some i \<Rightarrow> (case dget (content_types (parts ! 0)) (parts ! i) of
                    None \<Rightarrow> ''resource'' | Some t \<Rightarrow> t))
          in Inr \<lparr>uc_parts = parts, uc_scope = (if parts \<noteq> [] then parts ! 0 else []),
                  uc_content_index = content_index, uc_context_type = context_type\<rparr>)"

definition uc_is_memory :: "uri_classification \<Rightarrow> bool" where
  "uc_is_memory c \<longleftrightarrow> uc_context_type c = ''memory''"

definition uc_is_skill :: "uri_classification \<Rightarrow> bool" where
  "uc_is_skill c \<longleftrightarrow> uc_context_type c = ''skill''"

definition uc_is_user_namespace_root :: "uri_classification \<Rightarrow> bool" where
  "uc_is_user_namespace_root c \<longleftrightarrow> is_namespace_root_parts (uc_parts c) ''user''"

definition uc_is_agent_namespace_root :: "uri_classification \<Rightarrow> bool" where
  "uc_is_agent_namespace_root c \<longleftrightarrow> uc_scope c = ''agent'' \<and> length (uc_parts c) = 2"

definition uc_is_memory_root :: "uri_classification \<Rightarrow> bool" where
  "uc_is_memory_root c \<longleftrightarrow> uc_is_memory c
     \<and> (case uc_content_index c of None \<Rightarrow> False | Some i \<Rightarrow> length (uc_parts c) = i + 1)"

definition uc_is_skill_namespace :: "uri_classification \<Rightarrow> bool" where
  "uc_is_skill_namespace c \<longleftrightarrow> uc_is_skill c
     \<and> (case uc_content_index c of None \<Rightarrow> False | Some i \<Rightarrow> length (uc_parts c) = i + 1)"

definition uc_is_skill_root :: "uri_classification \<Rightarrow> bool" where
  "uc_is_skill_root c \<longleftrightarrow> uc_is_skill c
     \<and> (case uc_content_index c of None \<Rightarrow> False | Some i \<Rightarrow> length (uc_parts c) = i + 2)"

definition context_type_for_uri :: "string \<Rightarrow> py_exc + string" where
  "context_type_for_uri uri = map_sum id uc_context_type (classify_uri uri)"

definition is_reserved_user_root_segment :: "string \<Rightarrow> bool" where
  "is_reserved_user_root_segment seg \<longleftrightarrow>
     seg \<in> set (dkeys (content_types ''user'')) \<or> seg \<in> set USER_RELATIVE_ROOT_SEGMENTS"

section \<open>Roots of the caller\<close>

definition user_space_fragment :: "request_context \<Rightarrow> string" where
  "user_space_fragment ctx = rc_user_id ctx"

definition canonical_user_root :: "request_context \<Rightarrow> string" where
  "canonical_user_root ctx = VIKING @ ''user/'' @ user_space_fragment ctx"

definition canonical_session_root :: "request_context \<Rightarrow> string" where
  "canonical_session_root ctx = canonical_user_root ctx @ ''/sessions''"

definition canonical_session_uri :: "request_context \<Rightarrow> string option \<Rightarrow> string" where
  "canonical_session_uri ctx session_id =
     (let root = canonical_session_root ctx in
      case session_id of
        None \<Rightarrow> root
      | Some sid \<Rightarrow> if sid = [] then root else root @ ''/'' @ sid)"

definition is_session_uri :: "string \<Rightarrow> py_exc + bool" where
  "is_session_uri uri =
     (case uri_parts uri of
        Inl e \<Rightarrow> Inl e
      | Inr parts \<Rightarrow> if take 1 parts = [''session''] then Inr True
          else Inr (length parts \<ge> 3 \<and> parts ! 0 = ''user'' \<and> parts ! 2 = ''sessions''))"

definition AGENT_SHARED_ROOTS :: "string list" where
  "AGENT_SHARED_ROOTS = [VIKING @ ''agent/skills'']"

definition visible_roots :: "request_context \<Rightarrow> string list" where
  "visible_roots ctx = [VIKING @ ''resources''] @ AGENT_SHARED_ROOTS @ [canonical_user_root ctx]"

section \<open>Canonical resolution\<close>

record resolved_namespace =
  rn_uri :: string
  rn_scope :: string
  rn_owner_user_id :: "string option"
  rn_is_container :: bool

definition require_peer_id_segment :: "string \<Rightarrow> py_exc + unit" where
  "require_peer_id_segment peer_id =
     (case normalize_peer_id (Some peer_id) of
        Inl e \<Rightarrow> if is_ValueError e then Inl NamespaceShapeError else Inl e
      | Inr None \<Rightarrow> Inl NamespaceShapeError
      | Inr (Some _) \<Rightarrow> Inr ())"

definition validate_peer_id_segments :: "string list \<Rightarrow> py_exc + unit" where
  "validate_peer_id_segments parts =
     (if length parts \<ge> 4 \<and> parts ! 0 = ''user'' \<and> parts ! 2 = ''peers''
      then require_peer_id_segment (parts ! 3) else Inr ())"

definition resolve_user_uri :: "string list \<Rightarrow> py_exc + resolved_namespace" where
  "resolve_user_uri parts =
     (if length parts = 1 then
        Inr \<lparr>rn_uri = VIKING @ ''user'', rn_scope = ''user'', rn_owner_user_id = None, rn_is_container = True\<rparr>
      else let user_id = parts ! 1 in
        case validate_user_id user_id of
          Some _ \<Rightarrow> Inl NamespaceShapeError
        | None \<Rightarrow>
            if length parts = 2 then
              Inr \<lparr>rn_uri = VIKING @ ''user/'' @ user_id, rn_scope = ''user'',
                   rn_owner_user_id = Some user_id, rn_is_container = False\<rparr>
            else let suffix = drop 2 parts;
                     canonical0 = VIKING @ ''user/'' @ user_id;
                     canonical = (if suffix \<noteq> [] then canonical0 @ ''/'' @ join ''/'' suffix else canonical0)
              in case validate_peer_id_segments parts of
                   Inl e \<Rightarrow> Inl e
                 | Inr _ \<Rightarrow> Inr \<lparr>rn_uri = canonical, rn_scope = ''user'',
                                rn_owner_user_id = Some user_id, rn_is_container = False\<rparr>)"

definition resolve_uri :: "string \<Rightarrow> py_exc + resolved_namespace" where
  "resolve_uri uri =
     (case VikingURI_parse uri of
        Inl e \<Rightarrow> Inl e
      | Inr parsed \<Rightarrow>
          let stripped = rstrip is_slash (vu_uri parsed);
              canonical_uri = (if stripped \<noteq> [] then stripped else VIKING)
          in case uri_parts uri of
            Inl e \<Rightarrow> Inl e
          | Inr parts \<Rightarrow>
              if parts = [] then
                Inr \<lparr>rn_uri = VIKING, rn_scope = [], rn_owner_user_id = None, rn_is_container = True\<rparr>
              else let scope = parts ! 0;
                       plain = \<lparr>rn_uri = canonical_uri, rn_scope = scope,
                                rn_owner_user_id = None, rn_is_container = False\<rparr>
                in if scope = ''user'' then resolve_user_uri parts
                   else if scope = ''agent'' then Inr plain
                   else if scope = ''~'' then Inl NamespaceShapeError
                   else if scope = ''session'' then Inl NamespaceShapeError
                   else if scope \<in> {''resources'', ''temp'', ''queue'', ''upload''} then Inr plain
                   else Inr plain)"

section \<open>Aliases at the request boundary\<close>

definition resolve_current_user_uri :: "string \<Rightarrow> request_context \<Rightarrow> py_exc + string" where
  "resolve_current_user_uri uri ctx =
     (case uri_parts uri of
        Inl e \<Rightarrow> Inl e
      | Inr parts \<Rightarrow>
          if parts = [] then Inr VIKING
          else if parts ! 0 = ''~'' then
            (if length parts = 1 then Inr (canonical_user_root ctx)
             else Inr (canonical_user_root ctx @ ''/'' @ join ''/'' (drop 1 parts)))
          else if parts ! 0 = ''session'' then
            (if length parts = 1 then Inr (canonical_session_root ctx)
             else let canonical = canonical_session_uri ctx (Some (parts ! 1))
               in if length parts > 2 then Inr (canonical @ ''/'' @ join ''/'' (drop 2 parts))
                  else Inr canonical)
          else if parts ! 0 = ''user'' \<and> length parts \<ge> 2 \<and> parts ! 1 \<noteq> rc_user_id ctx
              \<and> is_reserved_user_root_segment (parts ! 1) then Inl NamespaceShapeError
          else map_sum id rn_uri (resolve_uri uri))"

definition resolve_request_uri :: "string \<Rightarrow> request_context \<Rightarrow> py_exc + string" where
  "resolve_request_uri uri ctx =
     (case uri_parts uri of
        Inl e \<Rightarrow> Inl e
      | Inr parts \<Rightarrow>
          if parts \<noteq> [] \<and> parts ! 0 = ''~'' then resolve_current_user_uri uri ctx
          else if rc_role ctx \<in> {Role_USER, Role_ADMIN} then resolve_current_user_uri uri ctx
          else map_sum id rn_uri (resolve_uri uri))"

section \<open>Visibility\<close>

definition actor_peer_view_user_suffix :: "string \<Rightarrow> request_context \<Rightarrow> py_exc + string list option" where
  "actor_peer_view_user_suffix uri ctx =
     (if \<not> active_peer ctx then Inr None
      else case resolve_uri uri of
          Inl e \<Rightarrow> if e = NamespaceShapeError then Inr None else Inl e
        | Inr _ \<Rightarrow> (case uri_parts uri of
            Inl e \<Rightarrow> Inl e
          | Inr parts \<Rightarrow>
              let user_root_parts = [''user'', rc_user_id ctx]
              in if take (length user_root_parts) parts \<noteq> user_root_parts then Inr None
                 else Inr (Some (drop (length user_root_parts) parts))))"

definition is_hidden_by_actor_peer_view :: "string \<Rightarrow> request_context \<Rightarrow> py_exc + bool" where
  "is_hidden_by_actor_peer_view uri ctx =
     map_sum id (\<lambda>suffix. case suffix of
         None \<Rightarrow> False
       | Some sfx \<Rightarrow> length sfx \<ge> 2 \<and> sfx ! 0 = ''peers'' \<and> Some (sfx ! 1) \<noteq> rc_actor_peer_id ctx)
       (actor_peer_view_user_suffix uri ctx)"

definition may_include_hidden_actor_peers :: "string \<Rightarrow> request_context \<Rightarrow> py_exc + bool" where
  "may_include_hidden_actor_peers uri ctx =
     map_sum id (\<lambda>suffix. case suffix of None \<Rightarrow> False | Some sfx \<Rightarrow> sfx = [] \<or> sfx = [''peers''])
       (actor_peer_view_user_suffix uri ctx)"

definition is_accessible :: "string \<Rightarrow> request_context \<Rightarrow> py_exc + bool" where
  "is_accessible uri ctx =
     (if rc_role ctx = ''root'' then Inr True
      else case resolve_uri uri of
          Inl e \<Rightarrow> if e = NamespaceShapeError then Inr False else Inl e
        | Inr target \<Rightarrow>
            if rn_scope target \<in> {[], ''resources'', ''temp'', ''queue''} then Inr True
            else if rn_scope target = ''upload'' then Inr False
            else if rn_scope target = ''user'' then
              Inr (case rn_owner_user_id target of
                  None \<Rightarrow> True
                | Some owner \<Rightarrow> \<not> (owner \<noteq> [] \<and> owner \<noteq> rc_user_id ctx))
            else if rn_scope target = ''agent'' then
              (case uri_parts (rn_uri target) of
                 Inl e \<Rightarrow> Inl e
               | Inr parts \<Rightarrow>
                   Inr (\<not> (active_peer ctx \<and> length parts \<ge> 2 \<and> Some (parts ! 1) \<noteq> rc_actor_peer_id ctx)))
            else Inr True)"

definition is_content_root_uri :: "string \<Rightarrow> string \<Rightarrow> py_exc + bool" where
  "is_content_root_uri uri kind =
     (case resolve_uri uri of
        Inl e \<Rightarrow> if is_ValueError e then Inr False else Inl e
      | Inr _ \<Rightarrow> (case uri_parts uri of
          Inl e \<Rightarrow> Inl e
        | Inr parts \<Rightarrow>
            if kind = ''resource'' \<and> parts = [''resources''] then Inr True
            else (case classify_uri uri of
                Inl e \<Rightarrow> Inl e
              | Inr c \<Rightarrow> Inr (uc_context_type c = kind
                  \<and> (case uc_content_index c of None \<Rightarrow> False | Some i \<Rightarrow> length parts = i + 1)))))"

section \<open>Owners\<close>

definition owner_fields_for_uri :: "string \<Rightarrow> py_exc + (string \<times> string option)" where
  "owner_fields_for_uri uri =
     (case resolve_uri uri of
        Inl e \<Rightarrow> if is_ValueError e then Inr (rstrip is_slash uri, None) else Inl e
      | Inr r \<Rightarrow> Inr (rn_uri r, rn_owner_user_id r))"

definition content_owner_context_for_uri :: "string \<Rightarrow> request_context \<Rightarrow> py_exc + request_context" where
  "content_owner_context_for_uri uri ctx =
     (case owner_fields_for_uri uri of
        Inl e \<Rightarrow> Inl e
      | Inr (_, owner) \<Rightarrow>
          if owner = None \<or> owner = Some [] \<or> owner = Some (rc_user_id ctx) then Inr ctx
          else map_sum id (\<lambda>u. ctx\<lparr>rc_user := u\<rparr>)
                 (UserIdentifier (rc_account_id ctx) (the owner)))"

definition owner_space_for_uri :: "string \<Rightarrow> py_exc + string" where
  "owner_space_for_uri uri =
     map_sum id (\<lambda>r. if rn_scope r = ''user'' \<and> rn_owner_user_id r \<noteq> None
                     then the (rn_owner_user_id r) else [])
       (resolve_uri uri)"

section \<open>Segments of parsed and canonical URIs\<close>

text \<open>A segment as \<open>uri_parts\<close> produces it.\<close>

definition clean :: "string \<Rightarrow> bool" where
  "clean w \<longleftrightarrow> segment w \<and> CHR ''?'' \<notin> set w"

lemma before_VIKING: "before CHR ''?'' (VIKING @ p) = VIKING @ before CHR ''?'' p"
  by (simp add: before_def VIKING_lit)

lemma uri_parts_VIKING [simp]: "uri_parts (VIKING @ p) = Inr (segs (before CHR ''?'' p))"
proof (cases "list_all is_slash (before CHR ''?'' p)")
  case True
  then have "segs (before CHR ''?'' p) = []" by (rule segs_slashes)
  with True show ?thesis
    by (auto simp: uri_parts_def before_VIKING rstrip_VIKING Let_def)
next
  case False
  then show ?thesis
    by (auto simp: uri_parts_def before_VIKING rstrip_VIKING Let_def
        simp flip: segs_def simp: segs_rstrip)
qed

lemma uri_parts_Inr_iff:
  "uri_parts uri = Inr ps \<longleftrightarrow> (\<exists>p. uri = VIKING @ p \<and> ps = segs (before CHR ''?'' p))"
proof (cases "startswith uri VIKING")
  case True
  then show ?thesis by (auto simp: startswith_iff)
next
  case False
  have "\<not> startswith (before CHR ''?'' uri) VIKING"
  proof
    assume "startswith (before CHR ''?'' uri) VIKING"
    then obtain r where "before CHR ''?'' uri = VIKING @ r" by (auto simp: startswith_iff)
    moreover obtain t where "uri = before CHR ''?'' uri @ t"
      by (metis before_def takeWhile_dropWhile_id)
    ultimately show False using False by (metis append.assoc startswith_append)
  qed
  with False show ?thesis by (auto simp: uri_parts_def)
qed

lemma uri_parts_error: "uri_parts uri = Inl e \<Longrightarrow> e = ValueError"
  by (auto simp: uri_parts_def Let_def split: if_splits)

lemma uri_parts_clean: "uri_parts uri = Inr ps \<Longrightarrow> list_all clean ps"
proof -
  assume "uri_parts uri = Inr ps"
  then obtain p where ps: "ps = segs (before CHR ''?'' p)" by (auto simp: uri_parts_Inr_iff)
  have "CHR ''?'' \<notin> set (before CHR ''?'' p)" by (auto simp: before_def dest: set_takeWhileD)
  then show ?thesis
    unfolding ps list_all_iff clean_def by (meson segs_segment set_segs subsetD)
qed

lemma join_no_query: "list_all clean ps \<Longrightarrow> CHR ''?'' \<notin> set (join ''/'' ps)"
  by (induction "''/''" ps rule: join.induct) (auto simp: clean_def)

lemma uri_parts_canonical: "list_all clean ps \<Longrightarrow> uri_parts (VIKING @ join ''/'' ps) = Inr ps"
  by (simp add: join_no_query before_absent segs_join list_all_iff clean_def)

lemma parse_canonical:
  assumes "list_all clean (sc # ps)" "sc \<in> set VISITABLE_SCOPES"
  shows "\<exists>v. VikingURI_parse (VIKING @ join ''/'' (sc # ps)) = Inr v \<and> vu_scope v = sc"
proof -
  let ?rest = "if ps = [] then [] else ''/'' @ join ''/'' ps"
  have "join ''/'' (sc # ps) = sc @ ?rest" by (auto simp: join_Cons)
  with parse_scoped [OF assms(2), of ?rest] show ?thesis by auto
qed

lemma parse_parts:
  assumes "VikingURI_parse uri = Inr v"
  shows "\<exists>ps. uri_parts uri = Inr ps \<and> (if ps = [] then vu_scope v = []
      else ps ! 0 = vu_scope v \<and> vu_scope v \<in> set VISITABLE_SCOPES)"
  using assms
proof (cases rule: parse_cases)
  case (root t)
  then have "before CHR ''?'' t = t" by (intro before_absent) (auto simp: list_all_iff)
  with root show ?thesis by (simp add: segs_slashes)
next
  case (scoped sc rest)
  from visitable_no_query [OF scoped(2)]
  have "before CHR ''?'' (sc @ rest) = sc @ before CHR ''?'' rest"
    by (simp add: before_def takeWhile_append)
  moreover have "before CHR ''?'' rest = [] \<or> (\<exists>r. before CHR ''?'' rest = CHR ''/'' # r)"
    using scoped(3) by (auto simp: before_def)
  ultimately show ?thesis
    using scoped visitable_segment [OF scoped(2)] by (auto simp: segs_word segs_word_slash)
qed

lemma segs_before_rstrip:
  "segs (before CHR ''?'' (rstrip is_slash s)) = segs (before CHR ''?'' s)"
proof -
  obtain t where s: "s = rstrip is_slash s @ t" and t: "list_all is_slash t"
    using rstrip_decomp by blast
  let ?r = "rstrip is_slash s"
  show ?thesis
  proof (cases rule: before_decomp [of "CHR ''?''" ?r])
    case absent
    moreover have "CHR ''?'' \<notin> set t" using t by (auto simp: list_all_iff)
    ultimately have "before CHR ''?'' (?r @ t) = ?r @ t" by (intro before_absent) auto
    with absent s t show ?thesis by (metis segs_append_slashes)
  next
    case (present q)
    then have "before CHR ''?'' (?r @ t) = before CHR ''?'' ?r"
      by (metis append.assoc append_Cons before_append)
    with s show ?thesis by simp
  qed
qed

section \<open>Resolution\<close>

lemma resolve_uri_errors:
  "resolve_uri uri = Inl e \<Longrightarrow> e = ValueError \<or> e = NamespaceShapeError"
  by (auto simp: resolve_uri_def resolve_user_uri_def validate_peer_id_segments_def
      require_peer_id_segment_def normalize_peer_id_def normalize_identifier_part_def
      Let_def is_ValueError_def
      dest!: parse_only_ValueError uri_parts_error
      split: sum.splits if_splits option.splits)

definition root_namespace :: resolved_namespace where
  "root_namespace = \<lparr>rn_uri = VIKING, rn_scope = [], rn_owner_user_id = None, rn_is_container = True\<rparr>"

definition plain_namespace :: "string \<Rightarrow> string \<Rightarrow> resolved_namespace" where
  "plain_namespace uri sc =
     \<lparr>rn_uri = rstrip is_slash uri, rn_scope = sc, rn_owner_user_id = None, rn_is_container = False\<rparr>"

abbreviation PLAIN_SCOPES :: "string set" where
  "PLAIN_SCOPES \<equiv> {''agent'', ''resources'', ''temp'', ''queue'', ''upload''}"

text \<open>The three outcomes of a resolution: the account root, a user namespace, another scope.\<close>

lemma resolve_uri_cases:
  assumes "resolve_uri uri = Inr r"
  obtains (root) "uri_parts uri = Inr []" "r = root_namespace"
  | (user) ps where "uri_parts uri = Inr ps" "list_all clean ps" "ps \<noteq> []" "ps ! 0 = ''user''"
      "resolve_user_uri ps = Inr r"
  | (plain) ps where "uri_parts uri = Inr ps" "ps \<noteq> []" "ps ! 0 \<in> PLAIN_SCOPES"
      "r = plain_namespace uri (ps ! 0)"
proof -
  from assms obtain v where v: "VikingURI_parse uri = Inr v"
    by (auto simp: resolve_uri_def split: sum.splits)
  from parse_parts [OF v] obtain ps where ps: "uri_parts uri = Inr ps"
    and sc: "ps \<noteq> [] \<Longrightarrow> ps ! 0 \<in> set VISITABLE_SCOPES" by (auto split: if_splits)
  from ps have "\<exists>p. uri = VIKING @ p" by (auto simp: uri_parts_Inr_iff)
  then have ne: "rstrip is_slash uri \<noteq> []" by (auto simp: rstrip_VIKING split: if_splits)
  from assms v ps sc ne root user [OF ps uri_parts_clean [OF ps]] plain [OF ps] show thesis
    by (auto simp: resolve_uri_def Let_def scope_defs root_namespace_def plain_namespace_def
        split: if_splits)
qed

lemma resolve_user_uri_fields:
  "resolve_user_uri ps = Inr r \<Longrightarrow> ps \<noteq> [] \<Longrightarrow> rn_scope r = ''user''
     \<and> rn_owner_user_id r = (if length ps = 1 then None else Some (ps ! 1))
     \<and> (length ps \<noteq> 1 \<longrightarrow> validate_user_id (ps ! 1) = None)"
  by (auto simp: resolve_user_uri_def Let_def split: if_splits option.splits sum.splits)

lemma join_user:
  "2 \<le> length ps \<Longrightarrow> ps ! 0 = ''user'' \<Longrightarrow>
     VIKING @ ''user/'' @ (ps ! 1) @ (if drop 2 ps = [] then [] else ''/'' @ join ''/'' (drop 2 ps))
       = VIKING @ join ''/'' ps"
  by (cases ps; cases "tl ps"; cases "tl (tl ps)") auto

lemma resolve_user_uri_uri:
  "ps \<noteq> [] \<Longrightarrow> ps ! 0 = ''user'' \<Longrightarrow> resolve_user_uri ps = Inr r \<Longrightarrow> rn_uri r = VIKING @ join ''/'' ps"
  using join_user [of ps]
  by (cases ps; cases "tl ps"; cases "tl (tl ps)")
     (auto simp: resolve_user_uri_def Let_def split: option.splits sum.splits)

lemma resolve_canonical_user:
  assumes "list_all clean ps" "ps \<noteq> []" "ps ! 0 = ''user''"
  shows "resolve_uri (VIKING @ join ''/'' ps) = resolve_user_uri ps"
proof -
  from assms obtain qs where ps: "ps = ''user'' # qs" by (cases ps) auto
  from parse_canonical [of "''user''" qs] assms(1) obtain v
    where v: "VikingURI_parse (VIKING @ join ''/'' ps) = Inr v" by (auto simp: ps scope_defs)
  with uri_parts_canonical [OF assms(1)] assms(2,3) show ?thesis
    by (simp add: resolve_uri_def Let_def)
qed

lemma parse_rstrip:
  assumes "VikingURI_parse uri = Inr v" "vu_scope v \<noteq> []"
  shows "\<exists>w. VikingURI_parse (rstrip is_slash uri) = Inr w
    \<and> uri_parts (rstrip is_slash uri) = uri_parts uri"
  using assms(1)
proof (cases rule: parse_cases)
  case (root t)
  with assms(2) show ?thesis by simp
next
  case (scoped sc rest)
  from scoped_rstrip [OF scoped(2,3)] obtain rest' where
    r': "rstrip is_slash (sc @ rest) = sc @ rest'" "rest' = [] \<or> (\<exists>q. rest' = CHR ''/'' # q)" .
  have "\<not> list_all is_slash (sc @ rest)"
    using visitable_segment [OF scoped(2)] by (cases sc) (auto simp: segment_def)
  then have u: "rstrip is_slash uri = VIKING @ sc @ rest'"
    using r'(1) scoped(1) by (simp only: rstrip_VIKING if_False)
  with parse_scoped [OF scoped(2) r'(2)] segs_before_rstrip [of "sc @ rest"] r'(1) scoped(1)
  show ?thesis by simp
qed

lemma resolve_uri_canonical:
  assumes "resolve_uri uri = Inr r"
  shows "resolve_uri (rn_uri r) = Inr r"
  using assms
proof (cases rule: resolve_uri_cases)
  case root
  then show ?thesis
    using parse_root [of "[]"] uri_parts_VIKING [of "[]"]
    by (simp add: resolve_uri_def root_namespace_def before_def)
next
  case (user ps)
  with resolve_canonical_user [of ps] resolve_user_uri_uri show ?thesis by simp
next
  case (plain ps)
  from assms obtain v where v: "VikingURI_parse uri = Inr v"
    by (auto simp: resolve_uri_def split: sum.splits)
  with parse_parts [OF v] plain(1,2) have "vu_scope v = ps ! 0" by (auto split: if_splits)
  with plain(3) have "vu_scope v \<noteq> []" by auto
  from parse_rstrip [OF v this] plain show ?thesis
    by (auto simp: resolve_uri_def Let_def plain_namespace_def)
qed

lemma resolve_uri_keeps_parts:
  assumes "resolve_uri uri = Inr r"
  shows "uri_parts (rn_uri r) = uri_parts uri"
  using assms
proof (cases rule: resolve_uri_cases)
  case root
  with uri_parts_VIKING [of "[]"] show ?thesis by (simp add: root_namespace_def before_def)
next
  case (user ps)
  with resolve_user_uri_uri uri_parts_canonical show ?thesis by simp
next
  case (plain ps)
  from assms obtain v where v: "VikingURI_parse uri = Inr v"
    by (auto simp: resolve_uri_def split: sum.splits)
  with parse_parts [OF v] plain(1-3) have "vu_scope v \<noteq> []" by (auto split: if_splits)
  from parse_rstrip [OF v this] plain show ?thesis by (auto simp: plain_namespace_def)
qed

lemma resolve_uri_no_alias:
  "resolve_uri uri = Inr r \<Longrightarrow> uri_parts uri = Inr ps \<Longrightarrow> ps \<noteq> [] \<Longrightarrow> ps ! 0 \<notin> {''~'', ''session''}"
  by (erule resolve_uri_cases) auto

text \<open>Property. Canonical resolution is idempotent and keeps the path: the canonical URI of a
  resolved namespace resolves to exactly the same namespace, owner included, and has the
  same segments as the URI it came from.\<close>

theorem resolve_uri_idempotent:
  assumes "resolve_uri uri = Inr r"
  shows "resolve_uri (rn_uri r) = Inr r \<and> uri_parts (rn_uri r) = uri_parts uri"
  using assms by (simp add: resolve_uri_canonical resolve_uri_keeps_parts)

theorem resolve_uri_idempotent_witness:
  "resolve_uri ''viking://user/alice/memories'' = Inr \<lparr>rn_uri = ''viking://user/alice/memories'',
     rn_scope = ''user'', rn_owner_user_id = Some ''alice'', rn_is_container = False\<rparr>"
proof -
  have "resolve_uri ''viking://user//alice/memories//?v=1'' = Inr \<lparr>rn_uri = ''viking://user/alice/memories'',
     rn_scope = ''user'', rn_owner_user_id = Some ''alice'', rn_is_container = False\<rparr>" by code_simp
  from resolve_uri_idempotent [OF this] show ?thesis by simp
qed

section \<open>Tenant isolation\<close>

text \<open>The user a URI belongs to, read off its segments.\<close>

definition uri_owner :: "string \<Rightarrow> string option" where
  "uri_owner uri = (case uri_parts uri of
      Inr (a # o' # _) \<Rightarrow> if a = ''user'' then Some o' else None
    | _ \<Rightarrow> None)"

text \<open>The contract of an access gate over user namespaces: below the role root it opens an
  owned URI to its owner only. \<open>root_role\<close> names the exempt role.\<close>

locale tenant_gate =
  fixes gate :: "string \<Rightarrow> request_context \<Rightarrow> py_exc + bool"
  assumes gate_owner:
    "rc_role ctx \<noteq> Role_ROOT \<Longrightarrow> gate uri ctx = Inr True \<Longrightarrow> uri_owner uri = Some owner
      \<Longrightarrow> owner = rc_user_id ctx"
begin

lemma no_shared_access:
  assumes "rc_role c1 \<noteq> Role_ROOT" "rc_role c2 \<noteq> Role_ROOT" "rc_user_id c1 \<noteq> rc_user_id c2"
    and "gate uri c1 = Inr True" "uri_owner uri \<noteq> None"
  shows "gate uri c2 \<noteq> Inr True"
  using assms gate_owner by blast

lemma visible_filter:
  assumes "rc_role ctx \<noteq> Role_ROOT" "uri \<in> set (filter (\<lambda>u. gate u ctx = Inr True) uris)"
  shows "uri_owner uri \<in> {None, Some (rc_user_id ctx)}"
  using assms gate_owner [of ctx uri] by (cases "uri_owner uri") auto

end

lemma uri_owner_Some:
  "uri_owner uri = Some owner \<longleftrightarrow> (\<exists>rest. uri_parts uri = Inr (''user'' # owner # rest))"
  by (auto simp: uri_owner_def split: sum.splits list.splits if_splits)

lemma is_accessible_owner:
  assumes "rc_role ctx \<noteq> Role_ROOT" "is_accessible uri ctx = Inr True" "uri_owner uri = Some owner"
  shows "owner = rc_user_id ctx"
proof -
  from assms(3) obtain rest where parts: "uri_parts uri = Inr (''user'' # owner # rest)"
    by (auto simp: uri_owner_Some)
  from assms(1,2) obtain r where r: "resolve_uri uri = Inr r"
    by (auto simp: is_accessible_def Role_ROOT_def split: sum.splits if_splits)
  have ne: "owner \<noteq> []" using uri_parts_clean [OF parts] by (auto simp: clean_def segment_def)
  from r show ?thesis
  proof (cases rule: resolve_uri_cases)
    case (user ps)
    with parts have "rn_scope r = ''user''" "rn_owner_user_id r = Some owner"
      using resolve_user_uri_fields by auto
    with assms r ne show ?thesis by (auto simp: is_accessible_def Role_ROOT_def split: if_splits)
  qed (use parts in auto)
qed

interpretation ns_gate: tenant_gate is_accessible
  by unfold_locales (rule is_accessible_owner)

text \<open>Property C13. Tenant isolation of the namespace layer: for a caller without the root role,
  a URI below \<open>viking://user/<owner>\<close> is accessible only when the owner is the caller.\<close>

theorem is_accessible_isolates_users:
  assumes "rc_role ctx \<noteq> Role_ROOT" "uri_parts uri = Inr (''user'' # owner # rest)"
    and "owner \<noteq> rc_user_id ctx"
  shows "is_accessible uri ctx \<noteq> Inr True"
  using assms ns_gate.gate_owner [of ctx uri owner] by (auto simp: uri_owner_Some)

definition ctx_alice :: request_context where
  "ctx_alice = \<lparr>rc_user = \<lparr>ui_account_id = ''acme'', ui_user_id = ''alice''\<rparr>, rc_role = ''user'',
     rc_group_ids = [''dev''], rc_actor_peer_id = None, rc_from_oauth = False, rc_api_key = None,
     rc_bypass_acl = False\<rparr>"

theorem is_accessible_isolates_users_witness:
  "is_accessible ''viking://user/bob/memories'' ctx_alice \<noteq> Inr True
     \<and> is_accessible ''viking://user/alice/memories'' ctx_alice = Inr True"
proof
  have "uri_parts ''viking://user/bob/memories'' = Inr [''user'', ''bob'', ''memories'']" by code_simp
  then show "is_accessible ''viking://user/bob/memories'' ctx_alice \<noteq> Inr True"
    by (intro is_accessible_isolates_users [of _ _ "''bob''" "[''memories'']"])
       (simp_all add: ctx_alice_def role_defs)
  show "is_accessible ''viking://user/alice/memories'' ctx_alice = Inr True" by code_simp
qed

section \<open>Aliases\<close>

lemma valid_uid_clean: "validate_user_id u = None \<Longrightarrow> clean u"
  using valid_user_id_safe by (auto simp: clean_def)

lemma user_root_join: "canonical_user_root ctx = VIKING @ join ''/'' [''user'', rc_user_id ctx]"
  by (simp add: canonical_user_root_def user_space_fragment_def)

lemma canonical_user_root_parts:
  assumes "validate_user_id (rc_user_id ctx) = None" "list_all clean rest"
  shows "uri_parts (canonical_user_root ctx @ (if rest = [] then [] else ''/'' @ join ''/'' rest))
    = Inr (''user'' # rc_user_id ctx # rest)"
proof -
  have eq: "canonical_user_root ctx @ (if rest = [] then [] else ''/'' @ join ''/'' rest)
      = VIKING @ join ''/'' (''user'' # rc_user_id ctx # rest)"
    by (simp add: user_root_join join_Cons)
  have "clean ''user''" by (simp add: clean_def segment_def)
  with uri_parts_canonical [of "''user'' # rc_user_id ctx # rest"] assms valid_uid_clean eq
  show ?thesis by simp
qed

text \<open>Where an aliased or plain request URI ends up: the segments of the resolved URI.\<close>

lemma resolve_current_user_uri_parts:
  assumes uid: "validate_user_id (rc_user_id ctx) = None"
    and res: "resolve_current_user_uri uri ctx = Inr c" and parts: "uri_parts uri = Inr ps"
  shows "uri_parts c = Inr (
      if ps \<noteq> [] \<and> ps ! 0 = ''~'' then ''user'' # rc_user_id ctx # drop 1 ps
      else if ps \<noteq> [] \<and> ps ! 0 = ''session'' then ''user'' # rc_user_id ctx # ''sessions'' # drop 1 ps
      else ps)"
proof -
  note cl = uri_parts_clean [OF parts]
  consider (root) "ps = []" | (home) ps' where "ps = ''~'' # ps'" | (sess) ps' where "ps = ''session'' # ps'"
    | (other) "ps \<noteq> []" "ps ! 0 \<noteq> ''~''" "ps ! 0 \<noteq> ''session''"
    by (cases ps) auto
  then show ?thesis
  proof cases
    case root
    with res parts uri_parts_VIKING [of "[]"] show ?thesis
      by (auto simp: resolve_current_user_uri_def before_def)
  next
    case home
    with cl canonical_user_root_parts [OF uid, of ps'] res parts show ?thesis
      by (auto simp: resolve_current_user_uri_def split: if_splits)
  next
    case sess
    have "clean ''sessions''" by (simp add: clean_def segment_def)
    with sess cl canonical_user_root_parts [OF uid, of "''sessions'' # ps'"] res parts show ?thesis
      by (cases ps'; cases "tl ps'")
         (auto simp: resolve_current_user_uri_def canonical_session_uri_def canonical_session_root_def
            clean_def segment_def Let_def)
  next
    case other
    with res parts obtain r where "resolve_uri uri = Inr r" "c = rn_uri r"
      by (auto simp: resolve_current_user_uri_def split: if_splits)
    with resolve_uri_keeps_parts other parts show ?thesis by simp
  qed
qed

lemma resolve_request_uri_parts:
  assumes "validate_user_id (rc_user_id ctx) = None" "resolve_request_uri uri ctx = Inr c"
  shows "\<exists>ps. uri_parts uri = Inr ps \<and> uri_parts c = Inr (
      if ps \<noteq> [] \<and> ps ! 0 = ''~'' then ''user'' # rc_user_id ctx # drop 1 ps
      else if ps \<noteq> [] \<and> ps ! 0 = ''session'' then ''user'' # rc_user_id ctx # ''sessions'' # drop 1 ps
      else ps)"
proof -
  from assms(2) obtain ps where ps: "uri_parts uri = Inr ps"
    by (auto simp: resolve_request_uri_def split: sum.splits)
  show ?thesis
  proof (cases "ps \<noteq> [] \<and> ps ! 0 = ''~'' \<or> rc_role ctx \<in> {Role_USER, Role_ADMIN}")
    case True
    with assms(2) ps have "resolve_current_user_uri uri ctx = Inr c"
      by (auto simp: resolve_request_uri_def split: if_splits)
    from resolve_current_user_uri_parts [OF assms(1) this ps] ps show ?thesis by blast
  next
    case False
    with assms(2) ps obtain r where "resolve_uri uri = Inr r" "c = rn_uri r"
      by (auto simp: resolve_request_uri_def)
    with resolve_uri_keeps_parts [of uri r] resolve_uri_no_alias [of uri r ps] ps show ?thesis
      by auto
  qed
qed

lemma resolve_request_alias:
  assumes uid: "validate_user_id (rc_user_id ctx) = None" and res: "resolve_request_uri uri ctx = Inr c"
    and ps: "uri_parts uri = Inr ps" and al: "ps \<noteq> [] \<and> ps ! 0 \<in> {''~'', ''session''}"
  shows "\<exists>rest. c = VIKING @ join ''/'' (''user'' # rc_user_id ctx # rest)
    \<and> list_all clean (''user'' # rc_user_id ctx # rest)"
proof -
  from al obtain a qs where a: "ps = a # qs" "a \<in> {''~'', ''session''}" by (cases ps) auto
  have cl: "clean ''user''" "clean ''sessions''" "clean (rc_user_id ctx)" "list_all clean qs"
    using uri_parts_clean [OF ps] valid_uid_clean [OF uid] a by (auto simp: clean_def segment_def)
  have cur: "resolve_current_user_uri uri ctx = Inr c"
    using res ps a resolve_uri_no_alias [of uri _ ps]
    by (auto simp: resolve_request_uri_def split: if_splits)
  show ?thesis
  proof (cases "a = ''~''")
    case True
    with cur ps a have "c = VIKING @ join ''/'' (''user'' # rc_user_id ctx # qs)"
      by (auto simp: resolve_current_user_uri_def user_root_join join_Cons split: if_splits)
    with cl show ?thesis by auto
  next
    case False
    with cur ps a cl have "c = VIKING @ join ''/'' (''user'' # rc_user_id ctx # ''sessions'' # qs)"
      by (cases qs; cases "tl qs")
         (auto simp: resolve_current_user_uri_def canonical_session_uri_def canonical_session_root_def
            user_root_join clean_def segment_def Let_def)
    with cl show ?thesis by (intro exI [of _ "''sessions'' # qs"]) auto
  qed
qed

lemma resolve_user_uri_own:
  assumes "validate_user_id u = None"
  shows "resolve_user_uri (''user'' # u # rest) \<in> range Inr \<union> {Inl NamespaceShapeError}"
  using assms
  by (auto simp: resolve_user_uri_def validate_peer_id_segments_def require_peer_id_segment_def
      normalize_peer_id_def normalize_identifier_part_def is_ValueError_def Let_def
      split: sum.splits option.splits if_splits)

text \<open>Property. At the request boundary the aliases always expand below the caller's own
  root, whatever the role: \<open>viking://~/...\<close> to the user root, \<open>viking://session/...\<close> to
  the caller's sessions; every other URI keeps its segments. In particular no alias scope
  survives resolution.\<close>

theorem resolve_request_uri_segments:
  assumes "validate_user_id (rc_user_id ctx) = None" "resolve_request_uri uri ctx = Inr c"
  shows "\<exists>ps qs. uri_parts uri = Inr ps \<and> uri_parts c = Inr qs
    \<and> qs = (if ps \<noteq> [] \<and> ps ! 0 = ''~'' then ''user'' # rc_user_id ctx # drop 1 ps
            else if ps \<noteq> [] \<and> ps ! 0 = ''session'' then ''user'' # rc_user_id ctx # ''sessions'' # drop 1 ps
            else ps)
    \<and> (qs \<noteq> [] \<longrightarrow> qs ! 0 \<notin> set ALIAS_SCOPES \<union> set LEGACY_SCOPES)"
proof -
  from resolve_request_uri_parts [OF assms] obtain ps where ps: "uri_parts uri = Inr ps"
    and qs: "uri_parts c = Inr (
      if ps \<noteq> [] \<and> ps ! 0 = ''~'' then ''user'' # rc_user_id ctx # drop 1 ps
      else if ps \<noteq> [] \<and> ps ! 0 = ''session'' then ''user'' # rc_user_id ctx # ''sessions'' # drop 1 ps
      else ps)" by blast
  show ?thesis
    by (rule exI [of _ ps], rule exI, intro conjI, rule ps, rule qs, rule refl)
       (auto simp: ALIAS_SCOPES_def LEGACY_SCOPES_def)
qed

theorem resolve_request_uri_segments_witness:
  "resolve_request_uri ''viking://~/memories'' ctx_alice = Inr ''viking://user/alice/memories''
     \<and> uri_parts ''viking://user/alice/memories'' = Inr [''user'', ''alice'', ''memories'']"
proof -
  have u: "validate_user_id (rc_user_id ctx_alice) = None" by code_simp
  have r: "resolve_request_uri ''viking://~/memories'' ctx_alice = Inr ''viking://user/alice/memories''"
    by code_simp
  have p: "uri_parts ''viking://~/memories'' = Inr [''~'', ''memories'']" by code_simp
  from resolve_request_uri_segments [OF u r] r p show ?thesis by (auto simp: ctx_alice_def)
qed

lemma resolve_root: "resolve_uri VIKING = Inr root_namespace"
  using parse_root [of "[]"] uri_parts_VIKING [of "[]"]
  by (simp add: resolve_uri_def root_namespace_def before_def)

lemma resolve_uri_root_uri:
  "resolve_uri uri = Inr r \<Longrightarrow> uri_parts uri = Inr [] \<Longrightarrow> rn_uri r = VIKING"
  by (erule resolve_uri_cases) (auto simp: root_namespace_def)

text \<open>A resolved request URI is canonical, or has a malformed peer segment.\<close>

lemma resolve_request_canonical:
  assumes uid: "validate_user_id (rc_user_id ctx) = None" and c: "resolve_request_uri uri ctx = Inr c"
  shows "(\<exists>r. resolve_uri c = Inr r \<and> rn_uri r = c) \<or> resolve_uri c = Inl NamespaceShapeError"
proof -
  from c obtain ps where ps: "uri_parts uri = Inr ps"
    by (auto simp: resolve_request_uri_def split: sum.splits)
  show ?thesis
  proof (cases "ps \<noteq> [] \<and> ps ! 0 \<in> {''~'', ''session''}")
    case True
    obtain rest where c': "c = VIKING @ join ''/'' (''user'' # rc_user_id ctx # rest)"
      and cl: "list_all clean (''user'' # rc_user_id ctx # rest)"
      using resolve_request_alias [OF uid c ps True] by blast
    with resolve_canonical_user [OF cl] resolve_user_uri_own [OF uid] resolve_user_uri_uri
    show ?thesis by (fastforce simp: c')
  next
    case False
    with c ps have "c = VIKING \<or> (\<exists>r. resolve_uri uri = Inr r \<and> c = rn_uri r)"
      by (auto simp: resolve_request_uri_def resolve_current_user_uri_def split: if_splits)
    with resolve_root resolve_uri_canonical show ?thesis by (auto simp: root_namespace_def)
  qed
qed

text \<open>Property. Request resolution is stable: resolving the result again either gives the
  same URI or is rejected because a peer segment below the caller's root is malformed.\<close>

theorem resolve_request_uri_stable:
  assumes uid: "validate_user_id (rc_user_id ctx) = None" and c: "resolve_request_uri uri ctx = Inr c"
  shows "resolve_request_uri c ctx \<in> {Inr c, Inl NamespaceShapeError}"
proof -
  obtain ps where qs: "uri_parts c = Inr ps" and na: "ps = [] \<or> ps ! 0 \<notin> {''~'', ''session''}"
  proof -
    from resolve_request_uri_parts [OF assms] obtain as where "uri_parts c = Inr (
      if as \<noteq> [] \<and> as ! 0 = ''~'' then ''user'' # rc_user_id ctx # drop 1 as
      else if as \<noteq> [] \<and> as ! 0 = ''session'' then ''user'' # rc_user_id ctx # ''sessions'' # drop 1 as
      else as)" by blast
    from that [OF this] show thesis by simp
  qed
  have "ps = [] \<Longrightarrow> resolve_uri c \<noteq> Inl NamespaceShapeError"
    using qs by (auto simp: resolve_uri_def Let_def dest!: parse_only_ValueError split: sum.splits)
  then have "ps = [] \<Longrightarrow> c = VIKING"
    using resolve_request_canonical [OF assms] resolve_uri_root_uri qs by auto
  with resolve_request_canonical [OF assms] qs na show ?thesis
    by (cases "ps = []") (auto simp: resolve_request_uri_def resolve_current_user_uri_def)
qed

theorem resolve_request_uri_stable_witness:
  "resolve_request_uri ''viking://user/alice/sessions/s1'' ctx_alice
     \<in> {Inr ''viking://user/alice/sessions/s1'', Inl NamespaceShapeError}"
proof -
  have "validate_user_id (rc_user_id ctx_alice) = None" by code_simp
  moreover have "resolve_request_uri ''viking://session/s1/'' ctx_alice
      = Inr ''viking://user/alice/sessions/s1''" by code_simp
  ultimately show ?thesis by (rule resolve_request_uri_stable)
qed

text \<open>Property. A resolved request never reaches another user's namespace by accident: if
  the result lies below a user other than the caller, the request named that user
  explicitly with the same path, and for the roles user and admin the name is not one of
  the reserved space names.\<close>

theorem resolve_request_uri_explicit_owner:
  assumes "validate_user_id (rc_user_id ctx) = None" "resolve_request_uri uri ctx = Inr c"
    and "uri_parts c = Inr (''user'' # owner # rest)" "owner \<noteq> rc_user_id ctx"
  shows "uri_parts uri = Inr (''user'' # owner # rest)
    \<and> (rc_role ctx \<in> {Role_USER, Role_ADMIN} \<longrightarrow> \<not> is_reserved_user_root_segment owner)"
proof -
  from resolve_request_uri_parts [OF assms(1,2)] assms(3,4)
  have parts: "uri_parts uri = Inr (''user'' # owner # rest)" by (auto split: if_splits)
  with assms(2,4) show ?thesis
    by (auto simp: resolve_request_uri_def resolve_current_user_uri_def split: if_splits)
qed

theorem resolve_request_uri_explicit_owner_witness:
  "uri_parts ''viking://user/bob/skills/'' = Inr [''user'', ''bob'', ''skills'']
     \<and> \<not> is_reserved_user_root_segment ''bob''"
proof -
  have u: "validate_user_id (rc_user_id ctx_alice) = None" by code_simp
  have r: "resolve_request_uri ''viking://user/bob/skills/'' ctx_alice = Inr ''viking://user/bob/skills''"
    by code_simp
  have p: "uri_parts ''viking://user/bob/skills'' = Inr [''user'', ''bob'', ''skills'']" by code_simp
  from resolve_request_uri_explicit_owner [OF u r p] show ?thesis
    by (simp add: ctx_alice_def role_defs)
qed

section \<open>Classification\<close>

lemma content_types_both:
  "content_types ''user'' = [(''memories'', ''memory''), (''resources'', ''resource''), (''skills'', ''skill'')]"
  "content_types ''agent'' = content_types ''user''"
  by (simp_all add: content_types_def CONTENT_TYPES_BY_SCOPE_def)

lemma content_segment_index_Some:
  assumes "content_segment_index parts = Some i"
  shows "i < length parts \<and> parts ! 0 \<in> {''user'', ''agent''}
    \<and> parts ! i \<in> {''memories'', ''resources'', ''skills''}"
proof -
  have "take 2 parts = [''agent'', ''skills''] \<Longrightarrow> parts ! 0 = ''agent'' \<and> parts ! 1 = ''skills'' \<and> 2 \<le> length parts"
    by (cases parts; cases "tl parts") auto
  with assms show ?thesis
    by (auto simp: content_segment_index_def content_types_both dkeys_def PEER_CONTENT_SEGMENTS_def
        split: if_splits)
qed

text \<open>Property. The context type of a URI is decided by its content segment alone: a URI
  with no content segment is a resource; otherwise the segment lies inside the path and is
  \<open>memories\<close>, \<open>resources\<close> or \<open>skills\<close> for memory, resource and skill.\<close>

theorem classify_uri_by_content_segment:
  assumes "classify_uri uri = Inr c"
  shows "case uc_content_index c of
      None \<Rightarrow> uc_context_type c = ''resource''
    | Some i \<Rightarrow> i < length (uc_parts c)
        \<and> (uc_parts c ! i, uc_context_type c) \<in> set (content_types ''user'')"
proof (cases "uc_content_index c")
  case None
  with assms show ?thesis by (auto simp: classify_uri_def Let_def split: sum.splits)
next
  case (Some i)
  with assms have i: "content_segment_index (uc_parts c) = Some i"
    and t: "uc_context_type c = (case dget (content_types (uc_parts c ! 0)) (uc_parts c ! i) of
        None \<Rightarrow> ''resource'' | Some t \<Rightarrow> t)"
    by (auto simp: classify_uri_def Let_def split: sum.splits)
  from content_segment_index_Some [OF i] t Some show ?thesis by (auto simp: content_types_both)
qed

theorem classify_uri_by_content_segment_witness:
  "context_type_for_uri ''viking://user/alice/peers/bot/memories/x'' = Inr ''memory''
     \<and> (''memories'', ''memory'') \<in> set (content_types ''user'')"
proof -
  let ?c = "\<lparr>uc_parts = [''user'', ''alice'', ''peers'', ''bot'', ''memories'', ''x''], uc_scope = ''user'',
      uc_content_index = Some 4, uc_context_type = ''memory''\<rparr>"
  have c: "classify_uri ''viking://user/alice/peers/bot/memories/x'' = Inr ?c" by code_simp
  from classify_uri_by_content_segment [OF c] c show ?thesis by (simp add: context_type_for_uri_def)
qed

text \<open>Property. The shared agent root that \<open>visible_roots\<close> advertises is refused by
  \<open>is_accessible\<close> as soon as the request carries an actor peer other than the literal name
  \<open>skills\<close>.\<close>

theorem visible_root_refused_for_peer:
  assumes "rc_role ctx \<noteq> Role_ROOT" "active_peer ctx" "rc_actor_peer_id ctx \<noteq> Some ''skills''"
  shows "\<exists>r \<in> set (visible_roots ctx). is_accessible r ctx = Inr False"
proof -
  have "resolve_uri ''viking://agent/skills'' = Inr \<lparr>rn_uri = ''viking://agent/skills'',
      rn_scope = ''agent'', rn_owner_user_id = None, rn_is_container = False\<rparr>" by code_simp
  moreover have "uri_parts ''viking://agent/skills'' = Inr [''agent'', ''skills'']" by code_simp
  ultimately have "is_accessible ''viking://agent/skills'' ctx = Inr False"
    using assms by (auto simp: is_accessible_def Role_ROOT_def)
  moreover have "''viking://agent/skills'' \<in> set (visible_roots ctx)"
    by (simp add: visible_roots_def AGENT_SHARED_ROOTS_def VIKING_lit)
  ultimately show ?thesis by blast
qed

theorem visible_root_refused_for_peer_witness:
  "\<exists>r \<in> set (visible_roots (ctx_alice\<lparr>rc_actor_peer_id := Some ''bot''\<rparr>)).
     is_accessible r (ctx_alice\<lparr>rc_actor_peer_id := Some ''bot''\<rparr>) = Inr False"
  by (rule visible_root_refused_for_peer)
     (simp_all add: ctx_alice_def role_defs active_peer_def)

end
