(* ===== verification/Uri_Validation.thy ===== *)
theory Uri_Validation
  imports Namespace
begin

text \<open>
  The validators of externally supplied URIs, \<open>openviking/core/uri_validation.py\<close>, and the
  test for internal watch-task files of \<open>openviking/resource/watch_storage.py\<close>.

  The lemmas show what an accepted URI is worth to the layers behind the API: it is canonical,
  lies in a public scope, never carries an alias, and a content target belongs to the caller;
  and that rejection is always one of the two API errors, never a raw \<open>ValueError\<close>.
\<close>

definition PUBLIC_API_SCOPES :: "string list" where
  "PUBLIC_API_SCOPES = [] # PUBLIC_SCOPES @ LEGACY_SCOPES @ ALIAS_SCOPES"

definition ALL_API_SCOPES :: "string list" where
  "ALL_API_SCOPES = [] # VISITABLE_SCOPES"

text \<open>A single scope name counts as the collection of that one name.\<close>

definition allowed_api_scopes :: "bool \<Rightarrow> string list option \<Rightarrow> string list" where
  "allowed_api_scopes allow_internal allowed_scopes =
     (case allowed_scopes of
        Some scopes \<Rightarrow> scopes
      | None \<Rightarrow> if allow_internal then ALL_API_SCOPES else PUBLIC_API_SCOPES)"

definition validate_viking_uri :: "string \<Rightarrow> bool \<Rightarrow> string list option \<Rightarrow> py_exc + string" where
  "validate_viking_uri uri allow_internal allowed_scopes =
     (let raw_uri = strip is_space uri in
      if raw_uri = [] then Inl InvalidURIError
      else (case VikingURI_parse raw_uri of
          Inl _ \<Rightarrow> Inl InvalidURIError
        | Inr parsed \<Rightarrow>
            if vu_scope parsed \<notin> set (allowed_api_scopes allow_internal allowed_scopes)
            then Inl InvalidURIError else Inr raw_uri))"

definition validate_request_viking_uri ::
  "string \<Rightarrow> request_context \<Rightarrow> bool \<Rightarrow> string list option \<Rightarrow> py_exc + string" where
  "validate_request_viking_uri uri ctx allow_internal allowed_scopes =
     (case validate_viking_uri uri allow_internal allowed_scopes of
        Inl e \<Rightarrow> Inl e
      | Inr raw_uri \<Rightarrow> (case resolve_request_uri raw_uri ctx of
          Inl e \<Rightarrow> if is_ValueError e then Inl InvalidURIError else Inl e
        | Inr c \<Rightarrow> Inr c))"

definition matches_content_kind :: "string \<Rightarrow> string \<Rightarrow> py_exc + bool" where
  "matches_content_kind uri kind =
     (if kind \<notin> {''resource'', ''skill''} then Inl ValueError
      else (case uri_parts uri of
          Inl e \<Rightarrow> Inl e
        | Inr parts \<Rightarrow>
            if kind = ''resource'' \<and> take 1 parts = [''resources''] then Inr True
            else (case classify_uri uri of
                Inl e \<Rightarrow> Inl e
              | Inr c \<Rightarrow> Inr (uc_context_type c = kind \<and> uc_content_index c \<noteq> None))))"

definition validate_content_target_uri :: "string \<Rightarrow> request_context \<Rightarrow> string \<Rightarrow> py_exc + string" where
  "validate_content_target_uri uri ctx kind =
     (let raw_uri = strip is_space uri in
      if raw_uri = [] then Inl InvalidURIError
      else (case validate_request_viking_uri raw_uri ctx False None of
          Inl e \<Rightarrow> Inl e
        | Inr canonical_uri \<Rightarrow> (case matches_content_kind canonical_uri kind of
            Inl e \<Rightarrow> Inl e
          | Inr True \<Rightarrow> (case is_accessible canonical_uri ctx of
              Inl e \<Rightarrow> Inl e
            | Inr True \<Rightarrow> Inr canonical_uri
            | Inr False \<Rightarrow> Inl PermissionDeniedError)
          | Inr False \<Rightarrow> Inl InvalidURIError)))"

definition WATCH_TASK_CONTROL_NAMES :: "string list" where
  "WATCH_TASK_CONTROL_NAMES = [''.watch_tasks.json'', ''.watch_tasks.json.bak'', ''.watch_tasks.json.tmp'']"

definition is_watch_task_control_uri :: "string \<Rightarrow> py_exc + bool" where
  "is_watch_task_control_uri uri =
     map_sum id (\<lambda>parts. length parts = 2 \<and> parts ! 0 = ''resources''
         \<and> parts ! 1 \<in> set WATCH_TASK_CONTROL_NAMES)
       (uri_parts uri)"

lemma validate_viking_uri_Inr:
  "validate_viking_uri uri ai sc = Inr raw \<Longrightarrow> raw = strip is_space uri \<and> raw \<noteq> []
     \<and> (\<exists>v. VikingURI_parse raw = Inr v \<and> vu_scope v \<in> set (allowed_api_scopes ai sc))"
  by (auto simp: validate_viking_uri_def Let_def split: if_splits sum.splits)

lemma resolve_request_errors:
  assumes "validate_user_id (rc_user_id ctx) = None" "resolve_request_uri uri ctx = Inl e"
  shows "is_ValueError e"
  using assms(2)
  by (auto simp: resolve_request_uri_def resolve_current_user_uri_def is_ValueError_def Let_def
      dest!: uri_parts_error resolve_uri_errors split: sum.splits if_splits)

lemma validate_request_Inl:
  assumes "validate_user_id (rc_user_id ctx) = None"
    "validate_request_viking_uri uri ctx ai sc = Inl e"
  shows "e = InvalidURIError"
  using assms(2) resolve_request_errors [OF assms(1)]
  by (auto simp: validate_request_viking_uri_def validate_viking_uri_def Let_def
      split: sum.splits if_splits)

text \<open>Property. A URI the API accepts with the default settings is fit for the storage
  layers: it resolves to itself (or has a malformed peer segment, which storage rejects),
  and its first segment is a public scope, so neither an alias, nor the legacy scope, nor an
  internal scope can pass.\<close>

theorem accepted_uri_is_public:
  assumes uid: "validate_user_id (rc_user_id ctx) = None"
    and ok: "validate_request_viking_uri uri ctx False None = Inr c"
  shows "(\<exists>ps. uri_parts c = Inr ps \<and> (ps = [] \<or> ps ! 0 \<in> set PUBLIC_SCOPES))
    \<and> resolve_uri c \<in> {Inr r | r. rn_uri r = c} \<union> {Inl NamespaceShapeError}"
proof -
  from ok obtain raw where raw: "validate_viking_uri uri False None = Inr raw"
    and res: "resolve_request_uri raw ctx = Inr c"
    by (auto simp: validate_request_viking_uri_def split: sum.splits if_splits)
  from validate_viking_uri_Inr [OF raw] obtain v where v: "VikingURI_parse raw = Inr v"
    and sc: "vu_scope v \<in> set PUBLIC_API_SCOPES" by (auto simp: allowed_api_scopes_def)
  from resolve_request_uri_parts [OF uid res] obtain ps where ps: "uri_parts raw = Inr ps"
    and c: "uri_parts c = Inr (
      if ps \<noteq> [] \<and> ps ! 0 = ''~'' then ''user'' # rc_user_id ctx # drop 1 ps
      else if ps \<noteq> [] \<and> ps ! 0 = ''session'' then ''user'' # rc_user_id ctx # ''sessions'' # drop 1 ps
      else ps)" by blast
  from parse_parts [OF v] ps have "ps = [] \<or> ps ! 0 = vu_scope v \<and> vu_scope v \<in> set VISITABLE_SCOPES"
    by (auto split: if_splits)
  with sc c have "\<exists>ps. uri_parts c = Inr ps \<and> (ps = [] \<or> ps ! 0 \<in> set PUBLIC_SCOPES)"
    by (auto simp: PUBLIC_API_SCOPES_def scope_defs)
  with resolve_request_canonical [OF uid res] show ?thesis by blast
qed

theorem accepted_uri_is_public_witness:
  "\<exists>ps. uri_parts ''viking://user/alice/sessions/s1'' = Inr ps \<and> (ps = [] \<or> ps ! 0 \<in> set PUBLIC_SCOPES)"
proof -
  have u: "validate_user_id (rc_user_id ctx_alice) = None" by code_simp
  have "validate_request_viking_uri '' viking://session/s1'' ctx_alice False None
      = Inr ''viking://user/alice/sessions/s1''" by code_simp
  from accepted_uri_is_public [OF u this] show ?thesis by blast
qed

lemma matches_content_kind_total:
  assumes "kind \<in> {''resource'', ''skill''}" "uri_parts c = Inr ps"
  shows "\<exists>b. matches_content_kind c kind = Inr b"
  using assms by (auto simp: matches_content_kind_def classify_uri_def Let_def)

lemma is_accessible_total:
  assumes "(\<exists>r. resolve_uri c = Inr r) \<or> resolve_uri c = Inl NamespaceShapeError"
  shows "\<exists>b. is_accessible c ctx = Inr b"
proof (cases "resolve_uri c")
  case (Inr r)
  from resolve_uri_keeps_parts [OF Inr] have "\<exists>ps. uri_parts (rn_uri r) = Inr ps"
    using Inr by (auto elim: resolve_uri_cases)
  with Inr show ?thesis by (auto simp: is_accessible_def)
qed (use assms in \<open>auto simp: is_accessible_def\<close>)

text \<open>Property. Adding content below a URI: an accepted target is in the requested kind of
  space and, unless the caller is root, belongs to nobody or to the caller; a refusal is
  always the API error \<open>InvalidURIError\<close> or \<open>PermissionDeniedError\<close>.\<close>

theorem content_target_outcome:
  assumes uid: "validate_user_id (rc_user_id ctx) = None" and kind: "kind \<in> {''resource'', ''skill''}"
  shows "case validate_content_target_uri uri ctx kind of
      Inl e \<Rightarrow> e \<in> {InvalidURIError, PermissionDeniedError}
    | Inr c \<Rightarrow> matches_content_kind c kind = Inr True
        \<and> (rc_role ctx \<noteq> Role_ROOT \<longrightarrow> uri_owner c \<in> {None, Some (rc_user_id ctx)})"
proof (cases "validate_request_viking_uri (strip is_space uri) ctx False None")
  case (Inl e)
  with validate_request_Inl [OF uid Inl] show ?thesis
    by (auto simp: validate_content_target_uri_def Let_def)
next
  case (Inr c)
  then obtain raw where res: "resolve_request_uri raw ctx = Inr c"
    by (auto simp: validate_request_viking_uri_def split: sum.splits if_splits)
  from resolve_request_uri_parts [OF uid res] obtain ps where "uri_parts c = Inr ps" by blast
  from matches_content_kind_total [OF kind this] obtain m where m: "matches_content_kind c kind = Inr m" ..
  from resolve_request_canonical [OF uid res] is_accessible_total
  obtain a where a: "is_accessible c ctx = Inr a" by blast
  have "rc_role ctx \<noteq> Role_ROOT \<Longrightarrow> a \<Longrightarrow> uri_owner c \<in> {None, Some (rc_user_id ctx)}"
    using ns_gate.visible_filter [of ctx c "[c]"] a by simp
  with Inr m a show ?thesis
    by (cases m; cases a) (auto simp: validate_content_target_uri_def Let_def)
qed

theorem content_target_outcome_witness:
  "validate_content_target_uri ''viking://~/skills/pdf'' ctx_alice ''skill''
      = Inr ''viking://user/alice/skills/pdf''
   \<and> uri_owner ''viking://user/alice/skills/pdf'' \<in> {None, Some ''alice''}"
proof -
  have u: "validate_user_id (rc_user_id ctx_alice) = None" by code_simp
  have v: "validate_content_target_uri ''viking://~/skills/pdf'' ctx_alice ''skill''
      = Inr ''viking://user/alice/skills/pdf''" by code_simp
  from content_target_outcome [OF u, of "''skill''" "''viking://~/skills/pdf''"] v show ?thesis
    by (simp add: ctx_alice_def role_defs)
qed

end
