(* ===== verification/Acl.thy ===== *)
theory Acl
  imports Uri_Validation
begin

unbundle bit_operations_syntax

text \<open>
  Access-control lists, the value part of \<open>openviking/storage/acl.py\<close>: levels and their
  permission masks, entries, the normalised \<open>DirectAcl\<close>, its union, the grant tokens stored
  in context records, and the decision \<open>acl_allows\<close>. The manager that stores and inherits
  them is in the theory \<open>Acl_Manager\<close>.

  A \<open>DirectAcl\<close> is the list of its entries. The interface \<open>grant_lattice\<close> says what the
  rest of the code relies on: lists with a valid representation are determined by the mask
  they give each principal, and a union takes the larger mask of the two.
\<close>

section \<open>Levels, entries, raw input\<close>

datatype acl_level = READ | WRITE | MANAGE

text \<open>\<open>AclAction\<close> has the same three values; \<open>AclLevel(action.value)\<close> is the identity.\<close>

type_synonym acl_action = acl_level

datatype creator_acl_grant = GRANT_DIRECT | GRANT_INHERITED

primrec level_value :: "acl_level \<Rightarrow> string" where
  "level_value READ = ''read''"
| "level_value WRITE = ''write''"
| "level_value MANAGE = ''manage''"

primrec LEVEL_MASK :: "acl_level \<Rightarrow> nat" where
  "LEVEL_MASK READ = 1"
| "LEVEL_MASK WRITE = 3"
| "LEVEL_MASK MANAGE = 7"

instantiation acl_level :: linorder
begin

definition less_eq_acl_level :: "acl_level \<Rightarrow> acl_level \<Rightarrow> bool" where
  "less_eq_acl_level a b \<longleftrightarrow> LEVEL_MASK a \<le> LEVEL_MASK b"

definition less_acl_level :: "acl_level \<Rightarrow> acl_level \<Rightarrow> bool" where
  "less_acl_level a b \<longleftrightarrow> LEVEL_MASK a < LEVEL_MASK b"

instance
proof
  fix a b c :: acl_level
  show "a < b \<longleftrightarrow> a \<le> b \<and> \<not> b \<le> a"
    by (auto simp: less_eq_acl_level_def less_acl_level_def)
  show "a \<le> a" by (simp add: less_eq_acl_level_def)
  show "a \<le> b \<Longrightarrow> b \<le> c \<Longrightarrow> a \<le> c" by (simp add: less_eq_acl_level_def)
  show "a \<le> b \<Longrightarrow> b \<le> a \<Longrightarrow> a = b"
    by (cases a; cases b) (simp_all add: less_eq_acl_level_def)
  show "a \<le> b \<or> b \<le> a" by (auto simp: less_eq_acl_level_def)
qed

end

definition ALL_LEVELS :: "acl_level list" where
  "ALL_LEVELS = [READ, WRITE, MANAGE]"

definition mask_allows :: "nat \<Rightarrow> acl_action \<Rightarrow> bool" where
  "mask_allows m action \<longleftrightarrow> m AND LEVEL_MASK action = LEVEL_MASK action"

record acl_entry =
  ae_principal :: string
  ae_level :: acl_level

type_synonym direct_acl = "acl_entry list"

text \<open>The argument of \<open>_normalize_entries\<close>: entries, or mappings with arbitrary values.\<close>

datatype raw_entry = EntryObj acl_entry | EntryMap pydict

datatype raw_level = LevelObj acl_level | LevelVal pyval

section \<open>Normalisation\<close>

definition normalize_acl_principal :: "pyval \<Rightarrow> py_exc + string" where
  "normalize_acl_principal prin =
     (case prin of
        PStr s \<Rightarrow>
          let normalized = strip is_space s;
              (kind, separator, identifier) = partition_on CHR '':'' normalized
          in if \<not> separator \<or> kind \<notin> {''user'', ''group''} then Inl InvalidArgumentError
             else if kind = ''user'' then
               (if identifier \<noteq> ''*'' \<and> validate_user_id identifier \<noteq> None
                then Inl InvalidArgumentError else Inr normalized)
             else if identifier = ''*'' then Inl InvalidArgumentError
             else if validate_identifier_part identifier ''group_id'' \<noteq> None
                then Inl InvalidArgumentError else Inr normalized
      | _ \<Rightarrow> Inl InvalidArgumentError)"

text \<open>No value other than a string prints as one of the three level names.\<close>

definition normalize_acl_level :: "raw_level \<Rightarrow> py_exc + acl_level" where
  "normalize_acl_level value =
     (case value of
        LevelObj l \<Rightarrow> Inr l
      | LevelVal v \<Rightarrow> (case v of
          PStr s \<Rightarrow>
            let t = strip is_space s in
            if t = ''read'' then Inr READ
            else if t = ''write'' then Inr WRITE
            else if t = ''manage'' then Inr MANAGE
            else Inl InvalidArgumentError
        | _ \<Rightarrow> Inl InvalidArgumentError))"

definition raw_parts :: "raw_entry \<Rightarrow> pyval \<times> raw_level" where
  "raw_parts raw = (case raw of
      EntryObj e \<Rightarrow> (PStr (ae_principal e), LevelObj (ae_level e))
    | EntryMap m \<Rightarrow>
        ((case dget m ''principal'' of None \<Rightarrow> PNone | Some v \<Rightarrow> v),
         LevelVal (case dget m ''level'' of None \<Rightarrow> PStr [] | Some v \<Rightarrow> v)))"

fun highest_levels ::
  "(string \<times> acl_level) list \<Rightarrow> raw_entry list \<Rightarrow> py_exc + (string \<times> acl_level) list" where
  "highest_levels highest [] = Inr highest"
| "highest_levels highest (raw # raws) =
     (case raw_parts raw of (p, l) \<Rightarrow>
       (case normalize_acl_principal p of
          Inl e \<Rightarrow> Inl e
        | Inr prin \<Rightarrow> (case normalize_acl_level l of
            Inl e \<Rightarrow> Inl e
          | Inr level \<Rightarrow>
              highest_levels
                (case dget highest prin of
                   None \<Rightarrow> dset highest prin level
                 | Some current \<Rightarrow>
                     if LEVEL_MASK level > LEVEL_MASK current
                     then dset highest prin level else highest)
                raws)))"

definition entries_of :: "(string \<times> acl_level) list \<Rightarrow> direct_acl" where
  "entries_of highest =
     map (\<lambda>prin. \<lparr>ae_principal = prin, ae_level = the (dget highest prin)\<rparr>)
       (sort (dkeys highest))"

definition normalize_entries :: "raw_entry list \<Rightarrow> py_exc + direct_acl" where
  "normalize_entries entries = map_sum id entries_of (highest_levels [] entries)"

definition DirectAcl_from_entries :: "raw_entry list \<Rightarrow> py_exc + direct_acl" where
  "DirectAcl_from_entries entries = normalize_entries entries"

definition DirectAcl_union :: "direct_acl \<Rightarrow> direct_acl \<Rightarrow> py_exc + direct_acl" where
  "DirectAcl_union a b = DirectAcl_from_entries (map EntryObj (a @ b))"

definition principals_for :: "direct_acl \<Rightarrow> acl_action \<Rightarrow> string set" where
  "principals_for acl action =
     ae_principal ` set (filter (\<lambda>e. mask_allows (LEVEL_MASK (ae_level e)) action) acl)"

section \<open>Grant tokens\<close>

primrec mask_digits :: "acl_level \<Rightarrow> string" where
  "mask_digits READ = ''1''"
| "mask_digits WRITE = ''3''"
| "mask_digits MANAGE = ''7''"

definition encode_grant :: "acl_entry \<Rightarrow> string" where
  "encode_grant e = mask_digits (ae_level e) @ '':'' @ ae_principal e"

text \<open>\<open>_MASK_LEVEL[int(raw_mask)]\<close>; any other spelling of these numbers that \<open>int\<close> accepts
  is refused by the comparison with the encoded token, with the same exception.\<close>

definition MASK_LEVEL :: "string \<Rightarrow> acl_level option" where
  "MASK_LEVEL m = (if m = ''1'' then Some READ else if m = ''3'' then Some WRITE
     else if m = ''7'' then Some MANAGE else None)"

definition decode_grant :: "pyval \<Rightarrow> py_exc + acl_entry" where
  "decode_grant raw =
     (case raw of
        PStr s \<Rightarrow>
          let (raw_mask, separator, raw_principal) = partition_on CHR '':'' s
          in (case (if separator then MASK_LEVEL raw_mask else None) of
                None \<Rightarrow> Inl RuntimeError
              | Some level \<Rightarrow> (case normalize_acl_principal (PStr raw_principal) of
                  Inl _ \<Rightarrow> Inl RuntimeError
                | Inr prin \<Rightarrow>
                    if s \<noteq> encode_grant \<lparr>ae_principal = prin, ae_level = level\<rparr> then Inl RuntimeError
                    else Inr \<lparr>ae_principal = prin, ae_level = level\<rparr>))
      | _ \<Rightarrow> Inl RuntimeError)"

definition DirectAcl_context_fields :: "direct_acl \<Rightarrow> string \<Rightarrow> pydict" where
  "DirectAcl_context_fields acl pre =
     [(pre @ ''_grants'', PList (map (\<lambda>e. PStr (encode_grant e)) acl))]"

definition DirectAcl_from_context_fields :: "pydict \<Rightarrow> string \<Rightarrow> py_exc + direct_acl" where
  "DirectAcl_from_context_fields record pre =
     (let raw_grants = (case dget record (pre @ ''_grants'') of
            None \<Rightarrow> PList [] | Some v \<Rightarrow> if truthy v then v else PList [])
      in case raw_grants of
           PList gs \<Rightarrow> (case emap decode_grant gs of
               Inl e \<Rightarrow> Inl e
             | Inr es \<Rightarrow> DirectAcl_from_entries (map EntryObj es))
         | _ \<Rightarrow> Inl RuntimeError)"

definition acl_grant_tokens :: "string list \<Rightarrow> acl_action \<Rightarrow> string list" where
  "acl_grant_tokens principals action =
     concat (map (\<lambda>prin.
         map (\<lambda>level. encode_grant \<lparr>ae_principal = prin, ae_level = level\<rparr>)
           (filter (\<lambda>level. mask_allows (LEVEL_MASK level) action) ALL_LEVELS))
       (sort (remdups principals)))"

section \<open>Effective lists and the decision\<close>

record effective_acl =
  ea_enabled :: bool
  ea_direct :: direct_acl
  ea_inherited :: direct_acl

definition ea_permissions :: "effective_acl \<Rightarrow> py_exc + direct_acl" where
  "ea_permissions acl = DirectAcl_union (ea_inherited acl) (ea_direct acl)"

definition EffectiveAcl_context_fields :: "effective_acl \<Rightarrow> pydict" where
  "EffectiveAcl_context_fields acl =
     [(''acl_enabled'', PBool (ea_enabled acl))]
     @ DirectAcl_context_fields (ea_direct acl) ''acl_direct''
     @ DirectAcl_context_fields (ea_inherited acl) ''acl_inherited''"

definition acl_principals :: "request_context \<Rightarrow> string list" where
  "acl_principals ctx =
     [''user:'' @ rc_user_id ctx, ''user:*''] @ map (\<lambda>v. ''group:'' @ v) (rc_group_ids ctx)"

definition acl_allows :: "effective_acl \<Rightarrow> request_context \<Rightarrow> acl_action \<Rightarrow> py_exc + bool" where
  "acl_allows acl ctx action =
     map_sum id (\<lambda>perms. principals_for perms action \<inter> set (acl_principals ctx) \<noteq> {})
       (ea_permissions acl)"

definition is_acl_uri :: "string \<Rightarrow> py_exc + bool" where
  "is_acl_uri uri = map_sum id (\<lambda>parts. take 1 parts = [''resources'']) (uri_parts uri)"

definition acl_ancestors :: "string \<Rightarrow> py_exc + string list" where
  "acl_ancestors uri =
     (case uri_parts uri of
        Inl e \<Rightarrow> Inl e
      | Inr parts \<Rightarrow>
          if take 1 parts \<noteq> [''resources''] then Inl InvalidArgumentError
          else Inr (map (\<lambda>depth. VIKING @ join ''/'' (take depth parts)) [1..<length parts + 1]))"

definition has_implicit_manage :: "request_context \<Rightarrow> string \<Rightarrow> py_exc + bool" where
  "has_implicit_manage ctx uri = map_sum id (\<lambda>b. b \<and> rc_role ctx = Role_ADMIN) (is_acl_uri uri)"

section \<open>Masks\<close>

lemma LEVEL_MASK_inject [simp]: "LEVEL_MASK a = LEVEL_MASK b \<longleftrightarrow> a = b"
  by (cases a; cases b) simp_all

lemma LEVEL_MASK_pos [simp]: "0 < LEVEL_MASK l"
  by (cases l) simp_all

text \<open>The bit test of the code is the order of the levels.\<close>

lemma mask_allows_level: "mask_allows (LEVEL_MASK l) action \<longleftrightarrow> action \<le> l"
  by (cases l; cases action; simp add: mask_allows_def less_eq_acl_level_def; code_simp)

definition level_mask :: "acl_level option \<Rightarrow> nat" where
  "level_mask l = (case l of None \<Rightarrow> 0 | Some l \<Rightarrow> LEVEL_MASK l)"

lemma level_mask_simps [simp]: "level_mask None = 0" "level_mask (Some l) = LEVEL_MASK l"
  by (simp_all add: level_mask_def)

lemma level_mask_inject [simp]: "level_mask a = level_mask b \<longleftrightarrow> a = b"
  by (cases a; cases b) (auto simp: less_imp_neq less_imp_neq [symmetric])

definition acl_level_of :: "direct_acl \<Rightarrow> string \<Rightarrow> acl_level option" where
  "acl_level_of acl prin = dget (map (\<lambda>e. (ae_principal e, ae_level e)) acl) prin"

definition grant_mask :: "direct_acl \<Rightarrow> string \<Rightarrow> nat" where
  "grant_mask acl prin = level_mask (acl_level_of acl prin)"

definition valid_principal :: "string \<Rightarrow> bool" where
  "valid_principal p \<longleftrightarrow> normalize_acl_principal (PStr p) = Inr p"

text \<open>The representation invariant of \<open>DirectAcl\<close>: normalised principals, strictly sorted.\<close>

definition wf_acl :: "direct_acl \<Rightarrow> bool" where
  "wf_acl acl \<longleftrightarrow> sorted (map ae_principal acl) \<and> distinct (map ae_principal acl)
     \<and> list_all (\<lambda>e. valid_principal (ae_principal e)) acl"

lemma strip_idem [simp]: "strip P (strip P s) = strip P s"
proof (cases "strip P s = []")
  case False
  then have "\<not> P (hd (strip P s))" by (rule strip_hd)
  with False have "lstrip P (strip P s) = strip P s"
    by (cases "strip P s") (auto simp: lstrip_def)
  then show ?thesis by (simp add: strip_def)
next
  case True
  moreover have "strip P [] = []" by (simp add: strip_def lstrip_def rstrip_def)
  ultimately show ?thesis by simp
qed

lemma normalize_principal_valid:
  "normalize_acl_principal v = Inr p \<Longrightarrow> valid_principal p"
  by (auto simp: normalize_acl_principal_def valid_principal_def Let_def
      split: pyval.splits prod.splits if_splits)

lemma normalize_principal_strip:
  "normalize_acl_principal (PStr s) = Inr p \<Longrightarrow> p = strip is_space s"
  by (auto simp: normalize_acl_principal_def Let_def split: prod.splits if_splits)

lemma normalize_principal_errors:
  "normalize_acl_principal v = Inl e \<Longrightarrow> e = InvalidArgumentError"
  by (auto simp: normalize_acl_principal_def Let_def split: pyval.splits prod.splits if_splits)

lemma normalize_level_errors:
  "normalize_acl_level v = Inl e \<Longrightarrow> e = InvalidArgumentError"
  by (auto simp: normalize_acl_level_def Let_def split: raw_level.splits pyval.splits if_splits)

section \<open>Normalisation takes the highest level of each principal\<close>

text \<open>What one input entry grants: the principal and level it names, if both are valid.\<close>

definition raw_grant :: "raw_entry \<Rightarrow> (string \<times> acl_level) option" where
  "raw_grant raw = (case raw_parts raw of (p, l) \<Rightarrow>
     (case (normalize_acl_principal p, normalize_acl_level l) of
        (Inr q, Inr k) \<Rightarrow> Some (q, k) | _ \<Rightarrow> None))"

fun raws_mask :: "raw_entry list \<Rightarrow> string \<Rightarrow> nat" where
  "raws_mask [] p = 0"
| "raws_mask (r # rs) p =
     max (case raw_grant r of Some (q, l) \<Rightarrow> if q = p then LEVEL_MASK l else 0 | None \<Rightarrow> 0)
       (raws_mask rs p)"

definition keep_higher ::
  "(string \<times> acl_level) list \<Rightarrow> string \<Rightarrow> acl_level \<Rightarrow> (string \<times> acl_level) list" where
  "keep_higher h p l = (case dget h p of
     None \<Rightarrow> dset h p l
   | Some k \<Rightarrow> if LEVEL_MASK l > LEVEL_MASK k then dset h p l else h)"

lemma keep_higher_mask:
  "level_mask (dget (keep_higher h p l) q)
     = (if q = p then max (level_mask (dget h p)) (LEVEL_MASK l) else level_mask (dget h q))"
  by (auto simp: keep_higher_def split: option.splits)

lemma keep_higher_keys:
  "distinct (dkeys h) \<Longrightarrow> distinct (dkeys (keep_higher h p l))"
  "set (dkeys (keep_higher h p l)) \<subseteq> insert p (set (dkeys h))"
  by (auto simp: keep_higher_def dkeys_dset split: option.splits)

lemma highest_levels_Cons:
  "highest_levels h (r # rs) = (case raw_grant r of
     None \<Rightarrow> Inl InvalidArgumentError | Some (p, l) \<Rightarrow> highest_levels (keep_higher h p l) rs)"
  by (auto simp: raw_grant_def keep_higher_def dest: normalize_principal_errors normalize_level_errors
      split: prod.splits sum.splits)

declare highest_levels.simps(2) [simp del]

lemma raw_grant_valid: "raw_grant r = Some (p, l) \<Longrightarrow> valid_principal p"
  by (auto simp: raw_grant_def dest: normalize_principal_valid split: prod.splits sum.splits)

lemma highest_levels_ok:
  assumes "highest_levels h rs = Inr h'"
    and "distinct (dkeys h)" "list_all valid_principal (dkeys h)"
  shows "distinct (dkeys h') \<and> list_all valid_principal (dkeys h')
    \<and> level_mask (dget h' p) = max (level_mask (dget h p)) (raws_mask rs p)"
  using assms
proof (induction rs arbitrary: h)
  case (Cons r rs)
  from Cons.prems(1) obtain q l where g: "raw_grant r = Some (q, l)"
    and h': "highest_levels (keep_higher h q l) rs = Inr h'"
    by (auto simp: highest_levels_Cons split: option.splits)
  from Cons.prems(2,3) raw_grant_valid [OF g] keep_higher_keys [of h q l]
  have "distinct (dkeys (keep_higher h q l))" "list_all valid_principal (dkeys (keep_higher h q l))"
    by (auto simp: list_all_iff)
  from Cons.IH [OF h' this] show ?case by (simp add: g keep_higher_mask max.assoc)
qed simp

lemma highest_levels_total:
  "(\<exists>h'. highest_levels h rs = Inr h') \<longleftrightarrow> list_all (\<lambda>r. raw_grant r \<noteq> None) rs"
  by (induction rs arbitrary: h) (auto simp: highest_levels_Cons split: option.splits)

lemma highest_levels_error:
  "highest_levels h rs = Inl e \<Longrightarrow> e = InvalidArgumentError"
  by (induction rs arbitrary: h) (auto simp: highest_levels_Cons split: option.splits)

lemma dget_map_pair: "dget (map (\<lambda>k. (k, f k)) ks) k = (if k \<in> set ks then Some (f k) else None)"
  by (induction ks) auto

lemma entries_of_ok:
  assumes "distinct (dkeys h)" "list_all valid_principal (dkeys h)"
  shows "wf_acl (entries_of h)" "acl_level_of (entries_of h) p = dget h p"
proof -
  show "wf_acl (entries_of h)"
    using assms by (simp add: wf_acl_def entries_of_def o_def list_all_iff)
  show "acl_level_of (entries_of h) p = dget h p"
    using dget_None_iff [of h p]
    by (auto simp: acl_level_of_def entries_of_def o_def dget_map_pair)
qed

lemma normalize_entries_ok:
  assumes "normalize_entries rs = Inr acl"
  shows "wf_acl acl" "grant_mask acl p = raws_mask rs p"
proof -
  from assms obtain h where h: "highest_levels [] rs = Inr h" and acl: "acl = entries_of h"
    by (auto simp: normalize_entries_def)
  have "distinct (dkeys ([] :: (string \<times> acl_level) list))"
    "list_all valid_principal (dkeys ([] :: (string \<times> acl_level) list))" by (simp_all add: dkeys_def)
  note k = highest_levels_ok [OF h this]
  then show "wf_acl acl" by (simp add: acl entries_of_ok)
  from k entries_of_ok(2) [of h p] show "grant_mask acl p = raws_mask rs p"
    by (simp add: acl grant_mask_def)
qed

lemma normalize_entries_total:
  "(\<exists>acl. normalize_entries rs = Inr acl) \<longleftrightarrow> list_all (\<lambda>r. raw_grant r \<noteq> None) rs"
  using highest_levels_total [of "[]" rs] by (simp add: normalize_entries_def)

text \<open>A normalised list is determined by the level it gives each principal.\<close>

lemma acl_entry_eta [simp]: "\<lparr>ae_principal = ae_principal e, ae_level = ae_level e\<rparr> = e"
  by (cases e) simp

lemma acl_level_of_Some:
  "acl_level_of acl p = Some l \<Longrightarrow> \<lparr>ae_principal = p, ae_level = l\<rparr> \<in> set acl"
  by (auto simp: acl_level_of_def dest!: dget_in_set)

lemma acl_level_of_mem:
  "wf_acl acl \<Longrightarrow> e \<in> set acl \<Longrightarrow> acl_level_of acl (ae_principal e) = Some (ae_level e)"
  unfolding acl_level_of_def by (rule in_set_dget) (auto simp: wf_acl_def dkeys_def o_def)

lemma acl_mem_iff:
  "wf_acl acl \<Longrightarrow> e \<in> set acl \<longleftrightarrow> acl_level_of acl (ae_principal e) = Some (ae_level e)"
  using acl_level_of_Some [of acl "ae_principal e" "ae_level e"] acl_level_of_mem by auto

lemma sorted_key_unique:
  assumes "sorted (map f xs)" "distinct (map f xs)" "sorted (map f ys)" "distinct (map f ys)"
    "set xs = set ys"
  shows "xs = (ys :: 'a list)"
  using assms
proof (induction xs arbitrary: ys)
  case (Cons x xs)
  then obtain y zs where ys: "ys = y # zs" by (cases ys) auto
  have "x = y"
  proof (rule ccontr)
    assume "x \<noteq> y"
    with Cons.prems(5) have "x \<in> set zs" "y \<in> set xs" by (auto simp: ys)
    with Cons.prems(1,3) have "f x = f y" by (force simp: ys intro: antisym)
    with \<open>x \<in> set zs\<close> have "f y \<in> f ` set zs" by (metis imageI)
    with Cons.prems(4) show False by (simp add: ys)
  qed
  moreover from Cons.prems have "x \<notin> set xs" "y \<notin> set zs" by (auto simp: ys)
  ultimately have "set xs = set zs" using Cons.prems(5) by (auto simp: ys)
  with Cons.IH [of zs] Cons.prems \<open>x = y\<close> show ?case by (simp add: ys)
qed simp

lemma grant_mask_inject:
  assumes "wf_acl a" "wf_acl b" "grant_mask a = grant_mask b"
  shows "a = b"
proof (rule sorted_key_unique [where f = ae_principal])
  from assms(3) have "acl_level_of a p = acl_level_of b p" for p
    by (metis grant_mask_def level_mask_inject)
  with assms(1,2) show "set a = set b" by (auto simp: acl_mem_iff)
qed (use assms in \<open>auto simp: wf_acl_def\<close>)

section \<open>Unions form a semilattice\<close>

text \<open>The loops \<open>inherited = inherited.union(...)\<close> of the manager.\<close>

fun union_all :: "('a \<Rightarrow> 'a \<Rightarrow> 'e + 'a) \<Rightarrow> 'a \<Rightarrow> 'a list \<Rightarrow> 'e + 'a" where
  "union_all unite a [] = Inr a"
| "union_all unite a (b # bs) =
     (case unite a b of Inl e \<Rightarrow> Inl e | Inr c \<Rightarrow> union_all unite c bs)"

text \<open>The contract the resolution code relies on: a value is determined by the mask it gives
  each principal, and a union of valid values exists and takes the larger mask.\<close>

locale grant_lattice =
  fixes ok :: "'a \<Rightarrow> bool"
    and none :: 'a
    and unite :: "'a \<Rightarrow> 'a \<Rightarrow> 'e + 'a"
    and mask :: "'a \<Rightarrow> 'p \<Rightarrow> nat"
  assumes ok_none: "ok none"
    and mask_none: "mask none p = 0"
    and union_ok: "ok a \<Longrightarrow> ok b \<Longrightarrow>
      \<exists>c. unite a b = Inr c \<and> ok c \<and> (\<forall>p. mask c p = max (mask a p) (mask b p))"
    and mask_inject: "ok a \<Longrightarrow> ok b \<Longrightarrow> mask a = mask b \<Longrightarrow> a = b"
begin

lemma unionE:
  assumes "ok a" "ok b"
  obtains c where "unite a b = Inr c" "ok c" "\<And>p. mask c p = max (mask a p) (mask b p)"
  using union_ok [OF assms] by blast

lemma eqI: "ok a \<Longrightarrow> ok b \<Longrightarrow> (\<And>p. mask a p = mask b p) \<Longrightarrow> a = b"
  by (rule mask_inject) auto

lemma union_comm:
  assumes "ok a" "ok b"
  shows "unite a b = unite b a"
proof -
  from assms obtain c d where c: "unite a b = Inr c" "ok c" "\<And>p. mask c p = max (mask a p) (mask b p)"
    and d: "unite b a = Inr d" "ok d" "\<And>p. mask d p = max (mask b p) (mask a p)"
    by (metis unionE)
  from c(2) d(2) have "c = d" by (rule eqI) (simp add: c(3) d(3) max.commute)
  with c(1) d(1) show ?thesis by simp
qed

lemma union_idem:
  assumes "ok a"
  shows "unite a a = Inr a"
proof -
  from assms obtain c where c: "unite a a = Inr c" "ok c" "\<And>p. mask c p = max (mask a p) (mask a p)"
    by (metis unionE)
  from c(2) assms have "c = a" by (rule eqI) (simp add: c(3))
  with c(1) show ?thesis by simp
qed

lemma union_none:
  assumes "ok a"
  shows "unite none a = Inr a"
proof -
  from ok_none assms obtain c
    where c: "unite none a = Inr c" "ok c" "\<And>p. mask c p = max (mask none p) (mask a p)"
    by (metis unionE)
  from c(2) assms have "c = a" by (rule eqI) (simp add: c(3) mask_none)
  with c(1) show ?thesis by simp
qed

lemma union_none_right: "ok a \<Longrightarrow> unite a none = Inr a"
  by (metis ok_none union_comm union_none)

lemma union_all_ok:
  "ok a \<Longrightarrow> list_all ok bs \<Longrightarrow>
     \<exists>c. union_all unite a bs = Inr c \<and> ok c \<and> (\<forall>p. mask c p = Max (insert (mask a p) ((\<lambda>b. mask b p) ` set bs)))"
proof (induction bs arbitrary: a)
  case (Cons b bs)
  then obtain c where c: "unite a b = Inr c" "ok c" "\<And>p. mask c p = max (mask a p) (mask b p)"
    by (auto elim: unionE)
  from Cons.IH [OF c(2)] Cons.prems(2) show ?case
    by (auto simp: c(1,3) Max_insert insert_commute max.assoc)
       (metis (no_types, lifting) Max_insert Max_singleton finite_imageI finite_set image_is_empty max.assoc)
qed simp

text \<open>Only the set of the united values matters, not their order or number.\<close>

lemma union_all_set:
  assumes "ok a" "list_all ok bs" "list_all ok cs" "set bs = set cs"
  shows "union_all unite a bs = union_all unite a cs"
proof -
  from union_all_ok [OF assms(1,2)] obtain x where x: "union_all unite a bs = Inr x" "ok x"
    "\<And>p. mask x p = Max (insert (mask a p) ((\<lambda>b. mask b p) ` set bs))" by blast
  from union_all_ok [OF assms(1,3)] obtain y where y: "union_all unite a cs = Inr y" "ok y"
    "\<And>p. mask y p = Max (insert (mask a p) ((\<lambda>b. mask b p) ` set cs))" by blast
  from x(2) y(2) have "x = y" by (rule eqI) (simp add: x(3) y(3) assms(4))
  with x(1) y(1) show ?thesis by simp
qed

lemma union_assoc:
  assumes "ok a" "ok b" "ok c"
  shows "union_all unite a [b, c] = union_all unite b [c, a]"
proof -
  from union_all_ok [OF assms(1), of "[b, c]"] assms
  obtain x where x: "union_all unite a [b, c] = Inr x" "ok x"
    "\<And>p. mask x p = Max (insert (mask a p) ((\<lambda>b. mask b p) ` set [b, c]))"
    by (metis list.pred_inject)
  from union_all_ok [OF assms(2), of "[c, a]"] assms
  obtain y where y: "union_all unite b [c, a] = Inr y" "ok y"
    "\<And>p. mask y p = Max (insert (mask b p) ((\<lambda>b. mask b p) ` set [c, a]))"
    by (metis list.pred_inject)
  from x(2) y(2) have "x = y" by (rule eqI) (simp add: x(3) y(3) insert_commute)
  with x(1) y(1) show ?thesis by simp
qed

end

lemma raw_grant_obj: "valid_principal (ae_principal e) \<Longrightarrow> raw_grant (EntryObj e) = Some (ae_principal e, ae_level e)"
  by (simp add: raw_grant_def raw_parts_def normalize_acl_level_def valid_principal_def)

lemma raws_mask_append: "raws_mask (rs @ qs) p = max (raws_mask rs p) (raws_mask qs p)"
  by (induction rs) (simp_all add: max.assoc)

lemma wf_acl_Nil [simp]: "wf_acl []"
  by (simp add: wf_acl_def)

lemma wf_acl_Cons:
  "wf_acl (e # acl) \<longleftrightarrow> wf_acl acl \<and> valid_principal (ae_principal e)
     \<and> (\<forall>x \<in> set acl. ae_principal e < ae_principal x)"
  by (auto simp: wf_acl_def order_less_le)

lemma grant_mask_absent: "p \<notin> ae_principal ` set acl \<Longrightarrow> grant_mask acl p = 0"
  by (induction acl) (auto simp: grant_mask_def acl_level_of_def)

lemma raws_mask_objs: "wf_acl acl \<Longrightarrow> raws_mask (map EntryObj acl) p = grant_mask acl p"
proof (induction acl)
  case (Cons e acl)
  then have "ae_principal e \<notin> ae_principal ` set acl" by (auto simp: wf_acl_Cons)
  with Cons show ?case
    using grant_mask_absent [of "ae_principal e" acl]
    by (auto simp: wf_acl_Cons raw_grant_obj grant_mask_def acl_level_of_def)
qed (simp add: grant_mask_def acl_level_of_def)

lemma wf_acl_raws: "wf_acl acl \<Longrightarrow> list_all (\<lambda>r. raw_grant r \<noteq> None) (map EntryObj acl)"
  by (auto simp: wf_acl_def list_all_iff raw_grant_obj)

lemma from_entries_wf: "wf_acl acl \<Longrightarrow> DirectAcl_from_entries (map EntryObj acl) = Inr acl"
proof -
  assume wf: "wf_acl acl"
  then obtain b where b: "normalize_entries (map EntryObj acl) = Inr b"
    using normalize_entries_total wf_acl_raws by blast
  have "b = acl"
    using normalize_entries_ok [OF b] wf
    by (intro grant_mask_inject) (auto simp: raws_mask_objs)
  with b show ?thesis by (simp add: DirectAcl_from_entries_def)
qed

interpretation acl_lattice: grant_lattice wf_acl "[]" DirectAcl_union grant_mask
proof
  fix a b assume ab: "wf_acl a" "wf_acl b"
  then have "list_all (\<lambda>r. raw_grant r \<noteq> None) (map EntryObj (a @ b))"
    using wf_acl_raws [of a] wf_acl_raws [of b] by simp
  then obtain c where c: "normalize_entries (map EntryObj (a @ b)) = Inr c"
    using normalize_entries_total by blast
  with ab normalize_entries_ok [OF c]
  show "\<exists>c. DirectAcl_union a b = Inr c \<and> wf_acl c
      \<and> (\<forall>p. grant_mask c p = max (grant_mask a p) (grant_mask b p))"
    by (simp add: DirectAcl_union_def DirectAcl_from_entries_def raws_mask_append raws_mask_objs)
qed (auto simp: grant_mask_absent grant_mask_inject)

text \<open>Property. \<open>DirectAcl.from_entries\<close> fails with an invalid-argument error exactly when
  some entry has an invalid principal or level. Otherwise its result is sorted by principal,
  without duplicates, holds only valid principals, gives each principal the highest level any
  entry grants it, and normalising the result again changes nothing.\<close>

theorem from_entries_highest:
  "(case DirectAcl_from_entries rs of
      Inl e \<Rightarrow> e = InvalidArgumentError \<and> (\<exists>r \<in> set rs. raw_grant r = None)
    | Inr acl \<Rightarrow> (\<forall>r \<in> set rs. raw_grant r \<noteq> None) \<and> wf_acl acl
        \<and> (\<forall>p. grant_mask acl p = raws_mask rs p)
        \<and> DirectAcl_from_entries (map EntryObj acl) = Inr acl)"
proof (cases "DirectAcl_from_entries rs")
  case (Inl e)
  then have "highest_levels [] rs = Inl e"
    by (simp add: DirectAcl_from_entries_def normalize_entries_def)
  then have "e = InvalidArgumentError" by (rule highest_levels_error)
  moreover have "\<not> list_all (\<lambda>r. raw_grant r \<noteq> None) rs"
    using Inl normalize_entries_total [of rs] by (auto simp: DirectAcl_from_entries_def)
  ultimately show ?thesis using Inl by (simp add: list_all_iff Bex_def del: not_None_eq)
next
  case (Inr acl)
  then have n: "normalize_entries rs = Inr acl" by (simp add: DirectAcl_from_entries_def)
  have "list_all (\<lambda>r. raw_grant r \<noteq> None) rs" using n normalize_entries_total [of rs] by blast
  with Inr normalize_entries_ok [OF n] show ?thesis
    by (simp only: sum.case list_all_iff from_entries_wf simp_thms)
qed

definition sample_entries :: "raw_entry list" where
  "sample_entries =
     [EntryMap [(''principal'', PStr '' user:bob''), (''level'', PStr ''read'')],
      EntryObj \<lparr>ae_principal = ''group:ops'', ae_level = MANAGE\<rparr>,
      EntryMap [(''principal'', PStr ''user:bob''), (''level'', PStr ''write'')]]"

definition sample_acl :: direct_acl where
  "sample_acl = [\<lparr>ae_principal = ''group:ops'', ae_level = MANAGE\<rparr>,
     \<lparr>ae_principal = ''user:bob'', ae_level = WRITE\<rparr>]"

lemma sample_entries_acl: "DirectAcl_from_entries sample_entries = Inr sample_acl"
  by code_simp

theorem from_entries_highest_witness:
  "DirectAcl_from_entries sample_entries = Inr sample_acl \<and> wf_acl sample_acl
     \<and> grant_mask sample_acl ''user:bob'' = raws_mask sample_entries ''user:bob''"
  using from_entries_highest [of sample_entries] by (simp add: sample_entries_acl)

lemma principals_for_mask:
  assumes "wf_acl acl"
  shows "p \<in> principals_for acl action \<longleftrightarrow> LEVEL_MASK action \<le> grant_mask acl p"
proof
  assume "p \<in> principals_for acl action"
  then obtain e where e: "e \<in> set acl" "p = ae_principal e" "action \<le> ae_level e"
    by (auto simp: principals_for_def mask_allows_level)
  with acl_level_of_mem [OF assms e(1)] show "LEVEL_MASK action \<le> grant_mask acl p"
    by (simp add: grant_mask_def less_eq_acl_level_def)
next
  assume *: "LEVEL_MASK action \<le> grant_mask acl p"
  then obtain l where l: "acl_level_of acl p = Some l"
    using LEVEL_MASK_pos [of action]
    by (cases "acl_level_of acl p") (simp_all add: grant_mask_def del: LEVEL_MASK_pos)
  with * have "action \<le> l" by (simp add: grant_mask_def less_eq_acl_level_def)
  with acl_level_of_Some [OF l] show "p \<in> principals_for acl action"
    by (force simp: principals_for_def mask_allows_level)
qed

text \<open>Property. Uniting two access-control lists never fails, is commutative, associative
  and idempotent with the empty list as unit, and for each action allows exactly the
  principals that one of the two lists allows.\<close>

theorem union_semilattice:
  assumes "wf_acl a" "wf_acl b" "wf_acl c"
  shows "DirectAcl_union a b = DirectAcl_union b a
    \<and> DirectAcl_union a a = Inr a \<and> DirectAcl_union [] a = Inr a
    \<and> union_all DirectAcl_union a [b, c] = union_all DirectAcl_union b [c, a]
    \<and> (\<exists>d. DirectAcl_union a b = Inr d \<and> wf_acl d
          \<and> (\<forall>action. principals_for d action = principals_for a action \<union> principals_for b action))"
proof (intro conjI)
  from assms show "DirectAcl_union a b = DirectAcl_union b a" by (intro acl_lattice.union_comm)
  from assms show "DirectAcl_union a a = Inr a" by (intro acl_lattice.union_idem)
  from assms show "DirectAcl_union [] a = Inr a" by (intro acl_lattice.union_none)
  from assms show "union_all DirectAcl_union a [b, c] = union_all DirectAcl_union b [c, a]"
    by (rule acl_lattice.union_assoc)
  obtain d where d: "DirectAcl_union a b = Inr d" "wf_acl d"
      "\<And>p. grant_mask d p = max (grant_mask a p) (grant_mask b p)"
    using acl_lattice.unionE [OF assms(1,2)] by metis
  then have "principals_for d action = principals_for a action \<union> principals_for b action" for action
    using assms by (auto simp: principals_for_mask le_max_iff_disj)
  with d show "\<exists>d. DirectAcl_union a b = Inr d \<and> wf_acl d
      \<and> (\<forall>action. principals_for d action = principals_for a action \<union> principals_for b action)"
    by blast
qed

lemma wf_sample_acl: "wf_acl sample_acl"
  using sample_entries_acl normalize_entries_ok(1) by (simp add: DirectAcl_from_entries_def)

theorem union_semilattice_witness:
  "wf_acl sample_acl \<and> DirectAcl_union sample_acl sample_acl = Inr sample_acl"
  using union_semilattice [OF wf_sample_acl wf_sample_acl wf_sample_acl] wf_sample_acl by simp

section \<open>Grant tokens\<close>

lemma partition_token:
  "partition_on CHR '':'' (mask_digits l @ '':'' @ p) = (mask_digits l, True, p)"
  by (cases l) (simp_all add: partition_on_def before_def)

lemma MASK_LEVEL_digits [simp]: "MASK_LEVEL (mask_digits l) = Some l"
  by (cases l) (simp_all add: MASK_LEVEL_def)

lemma decode_encode:
  "valid_principal (ae_principal e) \<Longrightarrow> decode_grant (PStr (encode_grant e)) = Inr e"
  using partition_token [of "ae_level e" "ae_principal e"]
  by (simp add: decode_grant_def encode_grant_def valid_principal_def)

lemma decode_grant_Inr:
  "decode_grant raw = Inr e \<Longrightarrow> raw = PStr (encode_grant e) \<and> valid_principal (ae_principal e)"
  by (auto simp: decode_grant_def Let_def split: pyval.splits prod.splits option.splits sum.splits if_splits
      dest: normalize_principal_valid)

lemma decode_grant_error: "decode_grant raw = Inl e \<Longrightarrow> e = RuntimeError"
  by (auto simp: decode_grant_def Let_def split: pyval.splits prod.splits option.splits sum.splits if_splits)

lemma encode_grant_inject [simp]: "encode_grant d = encode_grant e \<longleftrightarrow> d = e"
  by (cases d; cases e; cases "ae_level d"; cases "ae_level e") (auto simp: encode_grant_def)

lemma inj_encode_grant: "inj encode_grant"
  by (rule injI) simp

text \<open>Property. Grant tokens are an exact encoding. A token decodes only if it is the
  encoding of the entry it decodes to, whose principal is valid; every entry with a valid
  principal decodes back from its token; anything else is a runtime error.\<close>

theorem grant_token_roundtrip:
  "(case decode_grant raw of
      Inl err \<Rightarrow> err = RuntimeError
        \<and> \<not> (\<exists>e. valid_principal (ae_principal e) \<and> raw = PStr (encode_grant e))
    | Inr e \<Rightarrow> raw = PStr (encode_grant e) \<and> valid_principal (ae_principal e))"
  using decode_encode by (cases "decode_grant raw") (auto dest: decode_grant_error decode_grant_Inr)

lemma decode_all_encoded:
  "list_all (\<lambda>e. valid_principal (ae_principal e)) acl \<Longrightarrow>
     emap decode_grant (map (\<lambda>e. PStr (encode_grant e)) acl) = Inr acl"
  by (induction acl) (simp_all add: decode_encode)

lemma context_fields_roundtrip:
  assumes "wf_acl acl" "dget record (pre @ ''_grants'') = Some (PList (map (\<lambda>e. PStr (encode_grant e)) acl))"
  shows "DirectAcl_from_context_fields record pre = Inr acl"
proof -
  have "list_all (\<lambda>e. valid_principal (ae_principal e)) acl" using assms(1) by (simp add: wf_acl_def)
  then have "emap decode_grant (map (\<lambda>e. PStr (encode_grant e)) acl) = Inr acl" by (rule decode_all_encoded)
  then show ?thesis using from_entries_wf [OF assms(1)] assms(2)
    by (auto simp: DirectAcl_from_context_fields_def)
qed

section \<open>The decision\<close>

lemma ea_permissions_ok:
  assumes "wf_acl (ea_direct acl)" "wf_acl (ea_inherited acl)"
  obtains c where "ea_permissions acl = Inr c" "wf_acl c"
    "\<And>p. grant_mask c p = max (grant_mask (ea_inherited acl) p) (grant_mask (ea_direct acl) p)"
  using acl_lattice.unionE [OF assms(2,1)] by (metis ea_permissions_def)

definition effective_mask :: "effective_acl \<Rightarrow> string \<Rightarrow> nat" where
  "effective_mask acl p = max (grant_mask (ea_inherited acl) p) (grant_mask (ea_direct acl) p)"

lemma acl_allows_mask:
  assumes "wf_acl (ea_direct acl)" "wf_acl (ea_inherited acl)"
  shows "acl_allows acl ctx action =
    Inr (\<exists>p \<in> set (acl_principals ctx). LEVEL_MASK action \<le> effective_mask acl p)"
proof -
  obtain c where c: "ea_permissions acl = Inr c" "wf_acl c"
    "\<And>p. grant_mask c p = effective_mask acl p"
    using ea_permissions_ok [OF assms] by (metis effective_mask_def)
  then show ?thesis
    by (auto simp: acl_allows_def principals_for_mask)
qed

text \<open>The tokens stored in a context record.\<close>

definition stored_tokens :: "effective_acl \<Rightarrow> string list" where
  "stored_tokens acl = map encode_grant (ea_direct acl @ ea_inherited acl)"

lemma set_acl_grant_tokens:
  "set (acl_grant_tokens ps action) =
     encode_grant ` {e. ae_principal e \<in> set ps \<and> action \<le> ae_level e}"
proof -
  have "l \<in> set ALL_LEVELS" for l by (cases l) (simp_all add: ALL_LEVELS_def)
  then have "set (acl_grant_tokens ps action) =
      (\<Union>p \<in> set ps. \<Union>l \<in> {l. action \<le> l}. {encode_grant \<lparr>ae_principal = p, ae_level = l\<rparr>})"
    by (auto simp: acl_grant_tokens_def mask_allows_level)
  also have "\<dots> = encode_grant ` {e. ae_principal e \<in> set ps \<and> action \<le> ae_level e}"
    by (auto simp: image_iff) (metis acl_entry_eta)
  finally show ?thesis .
qed

text \<open>Property C14. The scalar pre-filter used by search is exact: a record carries one of the
  tokens \<open>acl_grant_tokens\<close> computes for the caller's principals exactly when \<open>acl_allows\<close>
  allows the action.\<close>

theorem token_filter_exact:
  assumes "wf_acl (ea_direct acl)" "wf_acl (ea_inherited acl)"
  shows "acl_allows acl ctx action =
    Inr (\<exists>t \<in> set (stored_tokens acl). t \<in> set (acl_grant_tokens (acl_principals ctx) action))"
proof -
  have "(\<exists>e \<in> set a. ae_principal e = p \<and> action \<le> ae_level e) \<longleftrightarrow> LEVEL_MASK action \<le> grant_mask a p"
    if "wf_acl a" for a p
    using principals_for_mask [OF that, of p action] by (auto simp: principals_for_def mask_allows_level)
  note m = this [OF assms(1)] this [OF assms(2)]
  have "(\<exists>t \<in> set (stored_tokens acl). t \<in> set (acl_grant_tokens (acl_principals ctx) action))
    \<longleftrightarrow> (\<exists>p \<in> set (acl_principals ctx). \<exists>e \<in> set (ea_direct acl) \<union> set (ea_inherited acl).
          ae_principal e = p \<and> action \<le> ae_level e)"
    unfolding stored_tokens_def set_acl_grant_tokens set_map set_append bex_simps
    by (auto simp: inj_image_mem_iff [OF inj_encode_grant])
  also have "\<dots> \<longleftrightarrow> (\<exists>p \<in> set (acl_principals ctx). LEVEL_MASK action \<le> effective_mask acl p)"
    unfolding bex_Un m effective_mask_def le_max_iff_disj by blast
  finally show ?thesis using acl_allows_mask [OF assms] by simp
qed

definition sample_effective :: effective_acl where
  "sample_effective = \<lparr>ea_enabled = True, ea_direct = sample_acl, ea_inherited = []\<rparr>"

definition ctx_bob :: request_context where
  "ctx_bob = ctx_alice\<lparr>rc_user := \<lparr>ui_account_id = ''acme'', ui_user_id = ''bob''\<rparr>\<rparr>"

theorem token_filter_exact_witness:
  "acl_allows sample_effective ctx_bob WRITE = Inr True \<and> acl_allows sample_effective ctx_bob MANAGE = Inr False"
proof -
  have wf: "wf_acl (ea_direct sample_effective)" "wf_acl (ea_inherited sample_effective)"
    using wf_sample_acl by (simp_all add: sample_effective_def)
  have "acl_allows sample_effective ctx_bob WRITE = Inr True"
    unfolding token_filter_exact [OF wf] by code_simp
  moreover have "acl_allows sample_effective ctx_bob MANAGE = Inr False"
    unfolding token_filter_exact [OF wf] by code_simp
  ultimately show ?thesis ..
qed

text \<open>Property. Permissions are cumulative and monotone: whoever may manage may write,
  whoever may write may read, and adding grants to the direct or the inherited list never
  takes a permission away.\<close>

theorem acl_allows_monotone:
  assumes wf: "wf_acl (ea_direct acl)" "wf_acl (ea_inherited acl)" "wf_acl (ea_direct acl')"
      "wf_acl (ea_inherited acl')"
    and more: "\<And>p. grant_mask (ea_direct acl) p \<le> grant_mask (ea_direct acl') p"
      "\<And>p. grant_mask (ea_inherited acl) p \<le> grant_mask (ea_inherited acl') p"
    and weaker: "action' \<le> action"
    and allowed: "acl_allows acl ctx action = Inr True"
  shows "acl_allows acl' ctx action' = Inr True"
proof -
  obtain p where p: "p \<in> set (acl_principals ctx)" "LEVEL_MASK action \<le> effective_mask acl p"
    using allowed by (auto simp: acl_allows_mask [OF wf(1,2)])
  have "LEVEL_MASK action' \<le> LEVEL_MASK action" using weaker by (simp add: less_eq_acl_level_def)
  also note p(2)
  also have "effective_mask acl p \<le> effective_mask acl' p"
    unfolding effective_mask_def using more by (intro max.mono)
  finally show ?thesis using p(1) by (auto simp: acl_allows_mask [OF wf(3,4)])
qed

theorem acl_allows_monotone_witness:
  "acl_allows sample_effective ctx_bob WRITE = Inr True \<and> acl_allows sample_effective ctx_bob READ = Inr True"
proof -
  have wf: "wf_acl (ea_direct sample_effective)" "wf_acl (ea_inherited sample_effective)"
    using wf_sample_acl by (simp_all add: sample_effective_def)
  have w: "acl_allows sample_effective ctx_bob WRITE = Inr True" by code_simp
  have "READ \<le> WRITE" by code_simp
  from acl_allows_monotone [OF wf wf order_refl order_refl this w] w show ?thesis by simp
qed

end
