(* ===== verification/Vector_Backend.thy ===== *)
theory Vector_Backend
  imports Acl
begin

text \<open>
  The account-bound vector backend the access-control manager stores its fields in:
  \<open>_SingleAccountBackend\<close> and the forwarding methods of \<open>VikingVectorIndexBackend\<close>
  (\<open>openviking/storage/viking_vector_index_backend.py\<close>), with the filter expressions of
  \<open>openviking/storage/expr.py\<close>.

  The collection adapter below it is a database client chosen by configuration. It is a
  parameter: the record \<open>adapter\<close> holds the three calls the code makes and the schema data
  it reads, over an arbitrary state \<open>'s\<close>. A call may raise; a failing \<open>upsert\<close> may have
  changed the state.

  The lemmas show what the binding to an account is worth: nothing written through a bound
  backend carries another account, whatever the caller put in the records, and nothing of
  another account is read by \<open>get_strict\<close>.
\<close>

section \<open>Filter expressions and the adapter\<close>

datatype filter_expr =
    FAnd "filter_expr list"
  | FOr "filter_expr list"
  | FEq string pyval
  | FIn string "pyval list"
  | FRange string "pyval option" "pyval option" "pyval option" "pyval option"
  | FContains string string
  | FTimeRange string "string option" "string option"
  | FRawDSL pydict
  | FPathScope string string int

record 's adapter =
  ad_query :: "'s \<Rightarrow> filter_expr option \<Rightarrow> nat \<Rightarrow> nat \<Rightarrow> string list \<Rightarrow> py_exc + pydict list"
  ad_get :: "'s \<Rightarrow> string list \<Rightarrow> py_exc + pydict list"
  ad_upsert :: "'s \<Rightarrow> pydict list \<Rightarrow> 's \<times> (py_exc + pyval list)"
  ad_fields :: "(string \<times> string) list option"
  ad_use_content_field :: bool

text \<open>\<open>ad_fields\<close> lists name and type of the schema fields, \<open>None\<close> when reading them raises;
  \<open>ad_use_content_field\<close> is \<open>USE_CONTENT_FIELD\<close>.\<close>

section \<open>Writes\<close>

definition dget_or :: "pydict \<Rightarrow> string \<Rightarrow> pyval" where
  "dget_or d k = (case dget d k of None \<Rightarrow> PNone | Some v \<Rightarrow> v)"

definition not_None_items :: "pydict \<Rightarrow> pydict" where
  "not_None_items d = filter (\<lambda>(k, v). v \<noteq> PNone) d"

definition filter_known_fields :: "'s adapter \<Rightarrow> pydict \<Rightarrow> pydict" where
  "filter_known_fields ad data =
     (case ad_fields ad of
        None \<Rightarrow> data
      | Some schema \<Rightarrow> filter (\<lambda>(k, v). k \<in> fst ` set schema \<and> v \<noteq> PNone) data)"

definition VIKINGDB_CONTENT_MAX_SIZE :: nat where
  "VIKINGDB_CONTENT_MAX_SIZE = 1024 * 1024"

definition prepare_upsert_payload :: "'s adapter \<Rightarrow> pydict \<Rightarrow> pydict" where
  "prepare_upsert_payload ad data =
     (let filtered = filter_known_fields ad (not_None_items data);
          result = not_None_items filtered;
          result = (case ad_fields ad of
              None \<Rightarrow> result
            | Some schema \<Rightarrow>
                fold (\<lambda>(name, kind) acc. if kind = ''text'' \<and> dget acc name = None
                   then dset acc name (PStr []) else acc) schema result)
      in if ad_use_content_field ad then
           (case dget result ''content'' of
              Some (PStr content) \<Rightarrow> dset result ''content'' (PStr (take VIKINGDB_CONTENT_MAX_SIZE content))
            | _ \<Rightarrow> result)
         else dpop result ''content'')"

definition ALLOWED_CONTEXT_TYPES :: "string list" where
  "ALLOWED_CONTEXT_TYPES = [''resource'', ''skill'', ''memory'']"

text \<open>\<open>if self._bound_account_id\<close>: a backend without a bound account is the root backend.\<close>

definition bound_to :: "string option \<Rightarrow> string \<Rightarrow> bool" where
  "bound_to bound a \<longleftrightarrow> bound = Some a \<and> a \<noteq> []"

definition is_bound :: "string option \<Rightarrow> bool" where
  "is_bound bound \<longleftrightarrow> bound \<noteq> None \<and> bound \<noteq> Some []"

text \<open>The account check and default of \<open>_bind_upsert_payload\<close>, then the whole method.
  \<open>uuid\<close> is the fresh identifier \<open>uuid4\<close> returns.\<close>

definition bind_account :: "string option \<Rightarrow> pydict \<Rightarrow> py_exc + pydict" where
  "bind_account bound data =
     (if is_bound bound then
        (if truthy (dget_or data ''account_id'') \<and> dget_or data ''account_id'' \<noteq> PStr (the bound)
         then Inl PermissionError
         else Inr (dset data ''account_id'' (PStr (the bound))))
      else Inr data)"

definition bind_upsert_payload :: "string option \<Rightarrow> string \<Rightarrow> pydict \<Rightarrow> py_exc + pydict" where
  "bind_upsert_payload bound uuid data =
     (case bind_account bound data of
        Inl e \<Rightarrow> Inl e
      | Inr payload \<Rightarrow>
          let context_type = dget_or payload ''context_type'' in
          if truthy context_type \<and> context_type \<notin> PStr ` set ALLOWED_CONTEXT_TYPES then Inl ValueError
          else if \<not> truthy (dget_or payload ''id'') then Inr (dset payload ''id'' (PStr uuid))
          else Inr payload)"

text \<open>The validation loop of \<open>upsert_many\<close>; \<open>uuids\<close> supplies the fresh identifiers by index.\<close>

fun bind_batch ::
  "string option \<Rightarrow> (nat \<Rightarrow> string) \<Rightarrow> nat \<Rightarrow> string list \<Rightarrow> pydict list \<Rightarrow> py_exc + pydict list" where
  "bind_batch bound uuids index seen_ids [] = Inr []"
| "bind_batch bound uuids index seen_ids (data # rest) =
     (case bind_upsert_payload bound (uuids index) data of
        Inl e \<Rightarrow> Inl e
      | Inr payload \<Rightarrow>
          let record_id = py_str (dget_or payload ''id'') in
          if record_id \<in> set seen_ids then Inl ValueError
          else map_sum id (\<lambda>ps. payload # ps)
                 (bind_batch bound uuids (Suc index) (record_id # seen_ids) rest))"

definition record_ids :: "pydict list \<Rightarrow> py_exc + string list" where
  "record_ids payloads =
     (if list_all (\<lambda>p. dget p ''id'' \<noteq> None) payloads
      then Inr (map (\<lambda>p. py_str (dget_or p ''id'')) payloads) else Inl KeyError)"

definition upsert_many ::
  "'s adapter \<Rightarrow> string option \<Rightarrow> (nat \<Rightarrow> string) \<Rightarrow> 's \<Rightarrow> pydict list \<Rightarrow> 's \<times> (py_exc + string list)" where
  "upsert_many ad bound uuids s data_list =
     (if data_list = [] then (s, Inr [])
      else (case bind_batch bound uuids 0 [] data_list of
          Inl e \<Rightarrow> (s, Inl e)
        | Inr payloads \<Rightarrow>
            let payloads = map (prepare_upsert_payload ad) payloads in
            (case ad_upsert ad s payloads of
               (s', Inl e) \<Rightarrow> (s', Inl e)
             | (s', Inr ids) \<Rightarrow>
                 let normalized_ids = map py_str (filter (\<lambda>v. v \<noteq> PNone) ids) in
                 (case record_ids payloads of
                    Inl e \<Rightarrow> (s', Inl e)
                  | Inr expected_ids \<Rightarrow>
                      if normalized_ids \<noteq> expected_ids then (s', Inl RuntimeError)
                      else (s', Inr normalized_ids)))))"

section \<open>Reads\<close>

definition get_strict :: "'s adapter \<Rightarrow> string option \<Rightarrow> 's \<Rightarrow> string list \<Rightarrow> py_exc + pydict list" where
  "get_strict ad bound s ids =
     map_sum id (\<lambda>records. if is_bound bound
         then filter (\<lambda>r. dget_or r ''account_id'' = PStr (the bound)) records else records)
       (ad_get ad s ids)"

text \<open>A cursor is the decimal text of an offset; the number is kept.\<close>

definition scroll ::
  "'s adapter \<Rightarrow> string option \<Rightarrow> 's \<Rightarrow> filter_expr option \<Rightarrow> nat \<Rightarrow> nat option \<Rightarrow> string list
    \<Rightarrow> py_exc + (pydict list \<times> nat option)" where
  "scroll ad bound s flt limit cursor output_fields =
     (let account_filter = FEq ''account_id'' (PStr (the bound));
          flt = (if is_bound bound
                 then Some (case flt of Some f \<Rightarrow> FAnd [account_filter, f] | None \<Rightarrow> account_filter)
                 else flt);
          offset = (case cursor of Some c \<Rightarrow> c | None \<Rightarrow> 0)
      in map_sum id (\<lambda>records. (records, if length records = limit then Some (offset + limit) else None))
           (ad_query ad s flt limit offset output_fields))"

text \<open>\<open>VikingVectorIndexBackend\<close> routes every call to the backend bound to the caller's
  account.\<close>

definition backend_for_context :: "request_context \<Rightarrow> string option" where
  "backend_for_context ctx = Some (rc_account_id ctx)"

definition upsert_many_raw ::
  "'s adapter \<Rightarrow> (nat \<Rightarrow> string) \<Rightarrow> 's \<Rightarrow> pydict list \<Rightarrow> request_context \<Rightarrow> 's \<times> (py_exc + string list)" where
  "upsert_many_raw ad uuids s data_list ctx = upsert_many ad (backend_for_context ctx) uuids s data_list"

section \<open>What the binding guarantees\<close>

lemma bind_account_Inr:
  "bind_account (Some a) data = Inr p \<Longrightarrow> a \<noteq> [] \<Longrightarrow> dget p ''account_id'' = Some (PStr a)"
  by (auto simp: bind_account_def is_bound_def split: if_splits)

lemma bind_upsert_payload_Inr:
  assumes "bind_upsert_payload bound uuid data = Inr p" "uuid \<noteq> []"
  shows "bound = Some a \<Longrightarrow> a \<noteq> [] \<Longrightarrow> dget p ''account_id'' = Some (PStr a)"
    and "dget p ''id'' \<noteq> None" and "truthy (dget_or p ''id'')"
  using assms bind_account_Inr [of a data]
  by (auto simp: bind_upsert_payload_def Let_def dget_or_def split: sum.splits if_splits option.splits)

lemma bind_batch_Inr:
  assumes "bind_batch bound uuids i seen ds = Inr ps" "\<And>n. uuids n \<noteq> []"
  shows "length ps = length ds
    \<and> distinct (map (\<lambda>p. py_str (dget_or p ''id'')) ps)
    \<and> (\<forall>p \<in> set ps. py_str (dget_or p ''id'') \<notin> set seen \<and> truthy (dget_or p ''id'')
        \<and> (\<forall>a. bound = Some a \<and> a \<noteq> [] \<longrightarrow> dget p ''account_id'' = Some (PStr a)))"
  using assms(1)
proof (induction ds arbitrary: i seen ps)
  case (Cons d ds)
  from Cons.prems obtain p qs where p: "bind_upsert_payload bound (uuids i) d = Inr p"
    and new: "py_str (dget_or p ''id'') \<notin> set seen"
    and qs: "bind_batch bound uuids (Suc i) (py_str (dget_or p ''id'') # seen) ds = Inr qs"
    and ps: "ps = p # qs"
    by (auto simp: Let_def split: sum.splits if_splits)
  from Cons.IH [OF qs] new bind_upsert_payload_Inr [OF p assms(2)] show ?case
    by (auto simp: ps)
qed simp

lemma dget_filter: "dget d k = Some v \<Longrightarrow> P (k, v) \<Longrightarrow> dget (filter P d) k = Some v"
  by (induction d k rule: dget.induct) (auto split: if_splits)

lemma text_defaults_keep:
  "dget acc k = Some v \<Longrightarrow>
     dget (fold (\<lambda>(name, kind) acc. if kind = ''text'' \<and> dget acc name = None
        then dset acc name (PStr []) else acc) schema acc) k = Some v"
proof (induction schema arbitrary: acc)
  case (Cons field schema)
  obtain name kind where f: "field = (name, kind)" by (cases field)
  have "dget (if kind = ''text'' \<and> dget acc name = None then dset acc name (PStr []) else acc) k = Some v"
    using Cons.prems by auto
  from Cons.IH [OF this] show ?case by (simp add: f)
qed simp

lemma prepare_keeps:
  assumes "dget d k = Some v" "v \<noteq> PNone" "k \<noteq> ''content''"
    and "\<And>schema. ad_fields ad = Some schema \<Longrightarrow> k \<in> fst ` set schema"
  shows "dget (prepare_upsert_payload ad d) k = Some v"
proof -
  have "dget (not_None_items d) k = Some v"
    unfolding not_None_items_def using assms by (intro dget_filter) auto
  then have "dget (filter_known_fields ad (not_None_items d)) k = Some v"
    using assms(2,4) by (auto simp: filter_known_fields_def intro!: dget_filter split: option.splits)
  then have "dget (not_None_items (filter_known_fields ad (not_None_items d))) k = Some v"
    unfolding not_None_items_def using assms(2) by (intro dget_filter) auto
  then show ?thesis using assms(3)
    by (auto simp: prepare_upsert_payload_def Let_def text_defaults_keep split: option.splits pyval.splits)
qed

definition schema_has :: "'s adapter \<Rightarrow> string \<Rightarrow> bool" where
  "schema_has ad k \<longleftrightarrow> (case ad_fields ad of None \<Rightarrow> True | Some schema \<Rightarrow> k \<in> fst ` set schema)"

lemma bound_payloads:
  assumes "bind_batch (Some a) uuids 0 [] ds = Inr ps" "a \<noteq> []" "\<And>n. uuids n \<noteq> []"
    and "schema_has ad ''account_id''" "schema_has ad ''id''"
  shows "record_ids (map (prepare_upsert_payload ad) ps) = Inr (map (\<lambda>p. py_str (dget_or p ''id'')) ps)"
    and "\<forall>p \<in> set (map (prepare_upsert_payload ad) ps). dget p ''account_id'' = Some (PStr a)"
proof -
  note b = bind_batch_Inr [OF assms(1,3)]
  have ids: "dget (prepare_upsert_payload ad p) ''id'' = Some (dget_or p ''id'')" if "p \<in> set ps" for p
  proof -
    from b that have t: "truthy (dget_or p ''id'')" by blast
    then have "dget p ''id'' = Some (dget_or p ''id'')" "dget_or p ''id'' \<noteq> PNone"
      by (auto simp: dget_or_def split: option.splits)
    then show ?thesis using assms(5) by (intro prepare_keeps) (auto simp: schema_has_def)
  qed
  then show "record_ids (map (prepare_upsert_payload ad) ps) = Inr (map (\<lambda>p. py_str (dget_or p ''id'')) ps)"
    by (auto simp: record_ids_def list_all_iff dget_or_def)
  show "\<forall>p \<in> set (map (prepare_upsert_payload ad) ps). dget p ''account_id'' = Some (PStr a)"
    using b assms(2,4) by (auto intro!: prepare_keeps simp: schema_has_def)
qed

text \<open>Property. A bulk write through the backend bound to account \<open>a\<close> stays in that account.
  Either the collection is untouched and an error is returned (or the batch is empty), or the
  adapter is called once with as many records as were given, each carrying account \<open>a\<close>
  whatever the caller wrote there; a successful call returns the identifiers of the records
  in order, without duplicates.\<close>

theorem upsert_many_stays_in_account:
  assumes "a \<noteq> []" "\<And>n. uuids n \<noteq> []" "schema_has ad ''account_id''" "schema_has ad ''id''"
  shows "(case upsert_many ad (Some a) uuids s ds of (s', r) \<Rightarrow>
    s' = s \<and> (r = Inr [] \<and> ds = [] \<or> (\<exists>e. r = Inl e))
    \<or> (\<exists>payloads. s' = fst (ad_upsert ad s payloads) \<and> length payloads = length ds
        \<and> (\<forall>p \<in> set payloads. dget p ''account_id'' = Some (PStr a))
        \<and> (\<forall>ids. r = Inr ids \<longrightarrow> distinct ids \<and> record_ids payloads = Inr ids)))"
proof (cases "ds = []")
  case True
  then show ?thesis by (simp add: upsert_many_def)
next
  case ne: False
  show ?thesis
  proof (cases "bind_batch (Some a) uuids 0 [] ds")
    case (Inl e)
    with ne show ?thesis by (simp add: upsert_many_def)
  next
    case (Inr ps)
    let ?payloads = "map (prepare_upsert_payload ad) ps"
    obtain s' r' where u: "ad_upsert ad s ?payloads = (s', r')" by force
    note b = bind_batch_Inr [OF Inr assms(2)] bound_payloads [OF Inr assms]
    then have d: "distinct ids" if "record_ids ?payloads = Inr ids" for ids using that by auto
    have "\<exists>r. upsert_many ad (Some a) uuids s ds = (s', r)
        \<and> (\<forall>ids. r = Inr ids \<longrightarrow> record_ids ?payloads = Inr ids)"
      using ne Inr by (auto simp: upsert_many_def u Let_def split: sum.splits)
    with u d b show ?thesis by (intro case_prodI2 disjI2 exI [of _ ?payloads]) auto
  qed
qed

text \<open>A small in-memory adapter: queries return nothing, writes replace the state.\<close>

definition probe_adapter :: "pydict list adapter" where
  "probe_adapter = \<lparr>ad_query = (\<lambda>s f l off fs. Inr []), ad_get = (\<lambda>s ids. Inr s),
     ad_upsert = (\<lambda>s ps. (ps, Inr (map (\<lambda>p. dget_or p ''id'') ps))),
     ad_fields = Some [(''id'', ''string''), (''account_id'', ''string''), (''uri'', ''path'')],
     ad_use_content_field = False\<rparr>"

theorem upsert_many_stays_in_account_witness:
  "upsert_many probe_adapter (Some ''acme'') (\<lambda>n. ''u'') [] [[(''uri'', PStr ''viking://resources'')]]
     = ([[(''uri'', PStr ''viking://resources''), (''account_id'', PStr ''acme''), (''id'', PStr ''u'')]],
        Inr [''u''])
   \<and> distinct [''u'']"
proof -
  have *: "upsert_many probe_adapter (Some ''acme'') (\<lambda>n. ''u'') [] [[(''uri'', PStr ''viking://resources'')]]
     = ([[(''uri'', PStr ''viking://resources''), (''account_id'', PStr ''acme''), (''id'', PStr ''u'')]],
        Inr [''u''])" by code_simp
  have "schema_has probe_adapter ''account_id''" "schema_has probe_adapter ''id''" by code_simp+
  with upsert_many_stays_in_account [of "''acme''" "\<lambda>n. ''u''" probe_adapter "[]"
      "[[(''uri'', PStr ''viking://resources'')]]"] *
  show ?thesis by auto
qed

end
