(* ===== verification/Acl_Manager.thy ===== *)
theory Acl_Manager
  imports Vector_Backend
begin

text \<open>
  \<open>AclManager\<close> (\<open>openviking/storage/acl.py\<close>): direct and inherited access-control lists kept
  as fields of the context records, their resolution along the ancestors of a URI, and the
  rewriting of a subtree when a list changes.

  The manager's own state is the set of accounts with access control switched on. The
  records live in the vector backend: every operation takes the adapter, its state \<open>s\<close> and
  the request context, and an operation that writes returns the new state. The scroll loop
  may not end for an adapter that always returns full pages, so results are \<open>'a aio\<close>
  (\<open>None\<close> for no return); that it does end for an adapter that pages through a finite list is
  proved below.
\<close>

section \<open>Reading lists from records\<close>

type_synonym acl_manager = "string set"

definition set_enabled :: "acl_manager \<Rightarrow> string \<Rightarrow> bool \<Rightarrow> acl_manager" where
  "set_enabled accounts account_id enabled =
     (if enabled then insert account_id accounts else accounts - {account_id})"

definition is_enabled :: "acl_manager \<Rightarrow> string \<Rightarrow> bool" where
  "is_enabled accounts account_id \<longleftrightarrow> account_id \<in> accounts"

definition no_acl :: effective_acl where
  "no_acl = \<lparr>ea_enabled = False, ea_direct = [], ea_inherited = []\<rparr>"

definition effective_of :: "direct_acl \<Rightarrow> direct_acl \<Rightarrow> effective_acl" where
  "effective_of direct inherited =
     \<lparr>ea_enabled = (direct \<noteq> [] \<or> inherited \<noteq> []), ea_direct = direct, ea_inherited = inherited\<rparr>"

definition effective_from_record :: "pydict \<Rightarrow> py_exc + effective_acl" where
  "effective_from_record record =
     ebind (DirectAcl_from_context_fields record ''acl_direct'') (\<lambda>direct.
     ebind (DirectAcl_from_context_fields record ''acl_inherited'') (\<lambda>inherited.
       Inr \<lparr>ea_enabled = (truthy (dget_or record ''acl_enabled'') \<or> direct \<noteq> [] \<or> inherited \<noteq> []),
            ea_direct = direct, ea_inherited = inherited\<rparr>))"

definition effective_from_records :: "pydict list \<Rightarrow> py_exc + effective_acl" where
  "effective_from_records records =
     (if records = [] then Inr no_acl
      else ebind (emap effective_from_record records) (\<lambda>values.
        if length (uniq values) \<noteq> 1 then Inl RuntimeError else Inr (hd values)))"

text \<open>\<open>str(record.get("uri") or "")\<close>.\<close>

definition record_uri :: "pydict \<Rightarrow> string" where
  "record_uri record =
     (if truthy (dget_or record ''uri'') then py_str (dget_or record ''uri'') else [])"

fun group_from :: "(string \<times> pydict list) list \<Rightarrow> pydict list \<Rightarrow> (string \<times> pydict list) list" where
  "group_from grouped [] = grouped"
| "group_from grouped (record # records) =
     group_from
       (if truthy (dget_or record ''uri'') then
          let u = record_uri record in
          dset grouped u ((case dget grouped u of None \<Rightarrow> [] | Some rs \<Rightarrow> rs) @ [record])
        else grouped)
       records"

definition group_by_uri :: "pydict list \<Rightarrow> (string \<times> pydict list) list" where
  "group_by_uri records = group_from [] records"

section \<open>Store reads\<close>

definition ACL_OUTPUT_FIELDS :: "string list" where
  "ACL_OUTPUT_FIELDS = [''uri'', ''acl_direct_grants'', ''acl_enabled'', ''acl_inherited_grants'']"

definition ACL_CREATOR_GRANT_FIELD :: string where
  "ACL_CREATOR_GRANT_FIELD = ''_acl_creator_grant''"

partial_function (option) scroll_loop ::
  "'s adapter \<Rightarrow> 's \<Rightarrow> filter_expr \<Rightarrow> string list \<Rightarrow> request_context \<Rightarrow> pydict list \<Rightarrow> nat option
    \<Rightarrow> (py_exc + pydict list) option" where
  "scroll_loop ad s flt output_fields ctx records cursor =
     (case scroll ad (backend_for_context ctx) s (Some flt) 500 cursor output_fields of
        Inl e \<Rightarrow> Some (Inl e)
      | Inr (page, next) \<Rightarrow> (case next of
          None \<Rightarrow> Some (Inr (records @ page))
        | Some c \<Rightarrow> scroll_loop ad s flt output_fields ctx (records @ page) (Some c)))"

text \<open>Evaluation matches on the fetched page before it unfolds the next round.\<close>

definition scroll_next ::
  "'s adapter \<Rightarrow> 's \<Rightarrow> filter_expr \<Rightarrow> string list \<Rightarrow> request_context \<Rightarrow> pydict list
    \<Rightarrow> py_exc + (pydict list \<times> nat option) \<Rightarrow> (py_exc + pydict list) option" where
  "scroll_next ad s flt output_fields ctx records r =
     (case r of
        Inl e \<Rightarrow> Some (Inl e)
      | Inr (page, next) \<Rightarrow> (case next of
          None \<Rightarrow> Some (Inr (records @ page))
        | Some c \<Rightarrow> scroll_loop ad s flt output_fields ctx (records @ page) (Some c)))"

lemma scroll_next_code [code]:
  "scroll_next ad s flt out ctx records (Inl e) = Some (Inl e)"
  "scroll_next ad s flt out ctx records (Inr (page, None)) = Some (Inr (records @ page))"
  "scroll_next ad s flt out ctx records (Inr (page, Some c)) =
     scroll_loop ad s flt out ctx (records @ page) (Some c)"
  by (simp_all add: scroll_next_def)

lemma scroll_loop_code [code]:
  "scroll_loop ad s flt out ctx records cursor =
     scroll_next ad s flt out ctx records (scroll ad (backend_for_context ctx) s (Some flt) 500 cursor out)"
  by (subst scroll_loop.simps) (simp add: scroll_next_def)

definition scroll_all ::
  "'s adapter \<Rightarrow> 's \<Rightarrow> filter_expr \<Rightarrow> string list \<Rightarrow> request_context \<Rightarrow> pydict list aio" where
  "scroll_all ad s flt output_fields ctx = scroll_loop ad s flt output_fields ctx [] None"

fun scroll_chunks ::
  "'s adapter \<Rightarrow> 's \<Rightarrow> string list list \<Rightarrow> request_context \<Rightarrow> pydict list aio" where
  "scroll_chunks ad s [] ctx = Some (Inr [])"
| "scroll_chunks ad s (c # cs) ctx =
     rbind (scroll_all ad s (FOr (map (\<lambda>uri. FPathScope ''uri'' uri 0) c)) ACL_OUTPUT_FIELDS ctx) (\<lambda>rs.
     rbind (scroll_chunks ad s cs ctx) (\<lambda>rest. Some (Inr (rs @ rest))))"

definition records_for_uris ::
  "'s adapter \<Rightarrow> 's \<Rightarrow> string list \<Rightarrow> request_context \<Rightarrow> pydict list aio" where
  "records_for_uris ad s uris ctx = scroll_chunks ad s (chunks 100 (sort (remdups uris))) ctx"

fun get_chunks ::
  "'s adapter \<Rightarrow> 's \<Rightarrow> string list list \<Rightarrow> request_context \<Rightarrow> pydict list aio" where
  "get_chunks ad s [] ctx = Some (Inr [])"
| "get_chunks ad s (c # cs) ctx =
     rbind (Some (get_strict ad (backend_for_context ctx) s c)) (\<lambda>rs.
     rbind (get_chunks ad s cs ctx) (\<lambda>rest. Some (Inr (rs @ rest))))"

definition subtree_records ::
  "'s adapter \<Rightarrow> 's \<Rightarrow> string \<Rightarrow> request_context \<Rightarrow> pydict list aio" where
  "subtree_records ad s uri ctx =
     rbind (scroll_all ad s (FPathScope ''uri'' uri (- 1)) [''id''] ctx) (\<lambda>refs.
       let ids = map (\<lambda>r. py_str (dget_or r ''id'')) (filter (\<lambda>r. truthy (dget_or r ''id'')) refs)
       in get_chunks ad s (chunks 500 ids) ctx)"

section \<open>Resolution\<close>

definition get_direct :: "'s adapter \<Rightarrow> 's \<Rightarrow> string \<Rightarrow> request_context \<Rightarrow> direct_acl aio" where
  "get_direct ad s uri ctx =
     rbind (Some (acl_ancestors uri)) (\<lambda>_.
     rbind (records_for_uris ad s [uri] ctx) (\<lambda>records.
       Some (map_sum id ea_direct (effective_from_records records))))"

definition direct_or_none :: "(string \<times> direct_acl) list \<Rightarrow> string \<Rightarrow> direct_acl" where
  "direct_or_none direct_map uri = (case dget direct_map uri of None \<Rightarrow> [] | Some d \<Rightarrow> d)"

definition direct_map_of :: "(string \<times> pydict list) list \<Rightarrow> py_exc + (string \<times> direct_acl) list" where
  "direct_map_of groups =
     emap (\<lambda>(uri, records). map_sum id (\<lambda>e. (uri, ea_direct e)) (effective_from_records records)) groups"

definition inherit_from ::
  "(string \<times> direct_acl) list \<Rightarrow> string list \<Rightarrow> string \<Rightarrow> py_exc + (string \<times> effective_acl)" where
  "inherit_from direct_map path uri =
     ebind (union_all DirectAcl_union [] (map (direct_or_none direct_map) (butlast path))) (\<lambda>inherited.
       Inr (uri, effective_of (direct_or_none direct_map uri) inherited))"

definition path_of :: "(string \<times> string list) list \<Rightarrow> string \<Rightarrow> string list" where
  "path_of paths uri = (case dget paths uri of None \<Rightarrow> [] | Some p \<Rightarrow> p)"

definition resolve_exact ::
  "(string \<times> pydict list) list \<Rightarrow> string list \<Rightarrow> py_exc + (string \<times> effective_acl) list" where
  "resolve_exact groups uris =
     emap (\<lambda>uri. map_sum id (\<lambda>e. (uri, e))
         (effective_from_records (case dget groups uri of None \<Rightarrow> [] | Some rs \<Rightarrow> rs)))
       (filter (\<lambda>uri. dget groups uri \<noteq> None) uris)"

definition resolve_many ::
  "'s adapter \<Rightarrow> 's \<Rightarrow> string list \<Rightarrow> request_context \<Rightarrow> (string \<times> effective_acl) list aio" where
  "resolve_many ad s uris ctx =
     (let unique_uris = uniq uris in
      rbind (Some (emap (\<lambda>uri. map_sum id (\<lambda>p. (uri, p)) (acl_ancestors uri)) unique_uris)) (\<lambda>paths.
      rbind (records_for_uris ad s unique_uris ctx) (\<lambda>exact_records.
      rbind (Some (resolve_exact (group_by_uri exact_records) unique_uris)) (\<lambda>result.
        let missing = filter (\<lambda>uri. dget result uri = None) unique_uris in
        if missing = [] then Some (Inr result)
        else
          rbind (records_for_uris ad s (concat (map (path_of paths) missing)) ctx) (\<lambda>ancestor_records.
          rbind (Some (direct_map_of (group_by_uri ancestor_records))) (\<lambda>direct_map.
          rbind (Some (emap (\<lambda>uri. inherit_from direct_map (path_of paths uri) uri) missing)) (\<lambda>resolved.
            Some (Inr (dupdate result resolved)))))))))"

definition resolve :: "'s adapter \<Rightarrow> 's \<Rightarrow> string \<Rightarrow> request_context \<Rightarrow> effective_acl aio" where
  "resolve ad s uri ctx =
     rbind (resolve_many ad s [uri] ctx) (\<lambda>result.
       Some (case dget result uri of None \<Rightarrow> Inl KeyError | Some e \<Rightarrow> Inr e))"

text \<open>\<open>ancestors[-2] if len(ancestors) > 1 else None\<close>, and the permissions inherited from it.\<close>

definition acl_parent :: "string list \<Rightarrow> string option" where
  "acl_parent ancestors = (if length ancestors > 1 then Some (ancestors ! (length ancestors - 2)) else None)"

definition parent_permissions ::
  "'s adapter \<Rightarrow> 's \<Rightarrow> string option \<Rightarrow> request_context \<Rightarrow> direct_acl aio" where
  "parent_permissions ad s parent ctx =
     (case parent of
        None \<Rightarrow> Some (Inr [])
      | Some p \<Rightarrow> rbind (resolve ad s p ctx) (\<lambda>e. Some (ea_permissions e)))"

section \<open>Materialising fields into records\<close>

definition creator_grant_of :: "pydict \<Rightarrow> py_exc + creator_acl_grant option" where
  "creator_grant_of record =
     (case dget_or record ACL_CREATOR_GRANT_FIELD of
        PNone \<Rightarrow> Inr None
      | PStr g \<Rightarrow> (if g = ''direct'' then Inr (Some GRANT_DIRECT)
                   else if g = ''inherited'' then Inr (Some GRANT_INHERITED) else Inl ValueError)
      | _ \<Rightarrow> Inl ValueError)"

text \<open>\<open>(record.get("user") or {}).get("user_id")\<close>.\<close>

definition creator_of :: "pydict \<Rightarrow> py_exc + pyval" where
  "creator_of record =
     (let u = dget_or record ''user'' in
      if \<not> truthy u then Inr PNone
      else (case u of PDict d \<Rightarrow> Inr (dget_or d ''user_id'') | _ \<Rightarrow> Inl (OtherError ''AttributeError'')))"

text \<open>The list a new record starts with: what its parent passes on, plus the creator's grant.\<close>

definition new_record_acl ::
  "direct_acl \<Rightarrow> pyval \<Rightarrow> creator_acl_grant option \<Rightarrow> py_exc + effective_acl" where
  "new_record_acl inherited creator grant =
     (case (if truthy creator then grant else None) of
        None \<Rightarrow> Inr (effective_of [] inherited)
      | Some g \<Rightarrow>
          ebind (DirectAcl_from_entries
              [EntryObj \<lparr>ae_principal = ''user:'' @ py_str creator, ae_level = MANAGE\<rparr>]) (\<lambda>creator_acl.
            case g of
              GRANT_DIRECT \<Rightarrow> Inr (effective_of creator_acl inherited)
            | GRANT_INHERITED \<Rightarrow> map_sum id (effective_of []) (DirectAcl_union inherited creator_acl)))"

definition materialize_record ::
  "string list \<Rightarrow> (string \<times> effective_acl) list \<Rightarrow> (string \<times> effective_acl) list \<Rightarrow> pydict
    \<Rightarrow> py_exc + pydict" where
  "materialize_record resource_uris existing_acl parent_acl record0 =
     ebind (creator_grant_of record0) (\<lambda>creator_grant.
       let record = dpop record0 ACL_CREATOR_GRANT_FIELD;
           source_uri = record_uri record
       in if source_uri \<notin> set resource_uris then Inr record
          else (case dget existing_acl source_uri of
              Some effective \<Rightarrow> Inr (dupdate record (EffectiveAcl_context_fields effective))
            | None \<Rightarrow>
                ebind (acl_ancestors source_uri) (\<lambda>ancestors.
                ebind (case acl_parent ancestors of
                    None \<Rightarrow> Inr []
                  | Some p \<Rightarrow> (case dget parent_acl p of None \<Rightarrow> Inl KeyError | Some e \<Rightarrow> ea_permissions e))
                  (\<lambda>inherited.
                ebind (creator_of record) (\<lambda>creator.
                ebind (new_record_acl inherited creator creator_grant) (\<lambda>effective.
                  Inr (dupdate record (EffectiveAcl_context_fields effective))))))))"

text \<open>The resource URIs of a batch; a record without a URI is skipped.\<close>

fun acl_uris_of :: "pydict list \<Rightarrow> py_exc + string list" where
  "acl_uris_of [] = Inr []"
| "acl_uris_of (record # records) =
     (if \<not> truthy (dget_or record ''uri'') then acl_uris_of records
      else ebind (is_acl_uri (record_uri record)) (\<lambda>acl.
             map_sum id (\<lambda>us. if acl then record_uri record # us else us) (acl_uris_of records)))"

definition parents_of :: "string list \<Rightarrow> py_exc + string list" where
  "parents_of uris = map_sum id (\<lambda>ps. List.map_filter id ps) (emap (\<lambda>u. map_sum id acl_parent (acl_ancestors u)) uris)"

definition materialize_context_records ::
  "acl_manager \<Rightarrow> 's adapter \<Rightarrow> 's \<Rightarrow> pydict list \<Rightarrow> request_context \<Rightarrow> pydict list aio" where
  "materialize_context_records accounts ad s records ctx =
     (if \<not> is_enabled accounts (rc_account_id ctx)
      then Some (Inr (map (\<lambda>r. dpop r ACL_CREATOR_GRANT_FIELD) records))
      else
        rbind (Some (acl_uris_of records)) (\<lambda>uris.
          let resource_uris = uniq uris in
          if resource_uris = [] then Some (Inr records)
          else
            rbind (records_for_uris ad s resource_uris ctx) (\<lambda>existing.
            rbind (Some (emap (\<lambda>(uri, items). map_sum id (\<lambda>e. (uri, e)) (effective_from_records items))
                (group_by_uri existing))) (\<lambda>existing_acl.
            rbind (Some (parents_of (filter (\<lambda>u. dget existing_acl u = None) resource_uris))) (\<lambda>parents.
            rbind (resolve_many ad s parents ctx) (\<lambda>parent_acl.
              Some (emap (materialize_record resource_uris existing_acl parent_acl) records)))))))"

definition materialize_moved_record ::
  "'s adapter \<Rightarrow> 's \<Rightarrow> pydict \<Rightarrow> string \<Rightarrow> request_context \<Rightarrow> pydict aio" where
  "materialize_moved_record ad s record new_uri ctx =
     rbind (Some (is_acl_uri new_uri)) (\<lambda>acl.
       if \<not> acl then Some (Inr (EffectiveAcl_context_fields no_acl))
       else
         rbind (Some (acl_ancestors new_uri)) (\<lambda>ancestors.
         rbind (parent_permissions ad s (acl_parent ancestors) ctx) (\<lambda>inherited.
         rbind (Some (is_acl_uri (record_uri record))) (\<lambda>source_acl.
         rbind (Some (if source_acl then DirectAcl_from_context_fields record ''acl_direct'' else Inr []))
           (\<lambda>direct. Some (Inr (EffectiveAcl_context_fields (effective_of direct inherited))))))))"

section \<open>Changing a list\<close>

definition subtree_effective ::
  "(string \<times> direct_acl) list \<Rightarrow> direct_acl \<Rightarrow> nat \<Rightarrow> string \<Rightarrow> py_exc + (string \<times> effective_acl)" where
  "subtree_effective direct_map base root_depth uri =
     ebind (acl_ancestors uri) (\<lambda>ancestors.
     ebind (union_all DirectAcl_union base
         (map (direct_or_none direct_map) (drop (root_depth - 1) (butlast ancestors)))) (\<lambda>inherited.
       Inr (uri, effective_of (direct_or_none direct_map uri) inherited)))"

definition updated_records :: "(string \<times> effective_acl) list \<Rightarrow> pydict list \<Rightarrow> pydict list" where
  "updated_records effective_by_uri records =
     List.map_filter (\<lambda>r. map_option (\<lambda>e. dupdate r (EffectiveAcl_context_fields e))
       (dget effective_by_uri (record_uri r))) records"

text \<open>Everything \<open>_apply_subtree\<close> computes before it writes: the new records and the list of
  the root.\<close>

definition plan_subtree ::
  "'s adapter \<Rightarrow> 's \<Rightarrow> string \<Rightarrow> pydict list \<Rightarrow> request_context \<Rightarrow> direct_acl option
    \<Rightarrow> (pydict list \<times> effective_acl) aio" where
  "plan_subtree ad s root_uri records ctx root_direct =
     (let grouped = group_by_uri records in
      if dget grouped root_uri = None then Some (Inl InvalidArgumentError)
      else
        rbind (Some (direct_map_of grouped)) (\<lambda>direct_map0.
          let direct_map = (case root_direct of None \<Rightarrow> direct_map0 | Some d \<Rightarrow> dset direct_map0 root_uri d) in
          rbind (Some (acl_ancestors root_uri)) (\<lambda>root_ancestors.
          rbind (parent_permissions ad s (acl_parent root_ancestors) ctx) (\<lambda>base.
          rbind (Some (emap (subtree_effective direct_map base (length root_ancestors)) (dkeys grouped)))
            (\<lambda>effective_by_uri.
              Some (case dget effective_by_uri root_uri of
                  None \<Rightarrow> Inl KeyError
                | Some e \<Rightarrow> Inr (updated_records effective_by_uri records, e)))))))"

definition apply_subtree ::
  "'s adapter \<Rightarrow> (nat \<Rightarrow> string) \<Rightarrow> 's \<Rightarrow> string \<Rightarrow> pydict list \<Rightarrow> request_context \<Rightarrow> direct_acl option
    \<Rightarrow> ('s \<times> (py_exc + effective_acl)) option" where
  "apply_subtree ad uuids s root_uri records ctx root_direct =
     (case plan_subtree ad s root_uri records ctx root_direct of
        None \<Rightarrow> None
      | Some (Inl e) \<Rightarrow> Some (s, Inl e)
      | Some (Inr (updated, effective)) \<Rightarrow>
          (case upsert_many_raw ad uuids s updated ctx of
             (s', Inl e) \<Rightarrow> Some (s', Inl e)
           | (s', Inr ids) \<Rightarrow>
               if length ids \<noteq> length updated then Some (s', Inl RuntimeError)
               else Some (s', Inr effective)))"

definition refresh_context_subtree ::
  "'s adapter \<Rightarrow> (nat \<Rightarrow> string) \<Rightarrow> 's \<Rightarrow> string \<Rightarrow> request_context \<Rightarrow> ('s \<times> (py_exc + unit)) option" where
  "refresh_context_subtree ad uuids s uri ctx =
     (case subtree_records ad s uri ctx of
        None \<Rightarrow> None
      | Some (Inl e) \<Rightarrow> Some (s, Inl e)
      | Some (Inr records) \<Rightarrow>
          if records = [] then Some (s, Inr ())
          else map_option (\<lambda>(s', r). (s', map_sum id (\<lambda>_. ()) r))
                 (apply_subtree ad uuids s uri records ctx None))"

definition set_direct ::
  "'s adapter \<Rightarrow> (nat \<Rightarrow> string) \<Rightarrow> 's \<Rightarrow> string \<Rightarrow> raw_entry list \<Rightarrow> request_context
    \<Rightarrow> ('s \<times> (py_exc + effective_acl)) option" where
  "set_direct ad uuids s uri entries ctx =
     (case uri_parts uri of
        Inl e \<Rightarrow> Some (s, Inl e)
      | Inr parts \<Rightarrow>
          if parts = [''resources''] then Some (s, Inl InvalidArgumentError)
          else (case DirectAcl_from_entries entries of
              Inl e \<Rightarrow> Some (s, Inl e)
            | Inr proposed \<Rightarrow> (case subtree_records ad s uri ctx of
                None \<Rightarrow> None
              | Some (Inl e) \<Rightarrow> Some (s, Inl e)
              | Some (Inr old_records) \<Rightarrow>
                  (case apply_subtree ad uuids s uri old_records ctx (Some proposed) of
                     None \<Rightarrow> None
                   | Some (s', Inr effective) \<Rightarrow> Some (s', Inr effective)
                   | Some (s', Inl e) \<Rightarrow>
                       if old_records = [] then Some (s', Inl e)
                       else (case upsert_many_raw ad uuids s' old_records ctx of
                           (s'', Inl e') \<Rightarrow> Some (s'', Inl e')
                         | (s'', Inr _) \<Rightarrow> Some (s'', Inl e))))))"

section \<open>Reports\<close>

definition entry_to_dict :: "acl_entry \<Rightarrow> pyval" where
  "entry_to_dict e = PDict [(''principal'', PStr (ae_principal e)), (''level'', PStr (level_value (ae_level e)))]"

definition to_report :: "string \<Rightarrow> effective_acl \<Rightarrow> py_exc + pydict" where
  "to_report uri effective =
     map_sum id (\<lambda>permissions.
       [(''uri'', PStr uri), (''acl_enabled'', PBool (ea_enabled effective)),
        (''direct_entries'', PList (map entry_to_dict (ea_direct effective))),
        (''inherited_entries'', PList (map entry_to_dict (ea_inherited effective))),
        (''effective_entries'', PList (map entry_to_dict permissions))])
       (ea_permissions effective)"

section \<open>Fields read back what was written\<close>

lemma dget_dupdate: "dget (dupdate d e) k = (case dget (rev e) k of None \<Rightarrow> dget d k | Some v \<Rightarrow> Some v)"
proof (induction d e rule: dupdate.induct)
  case (2 d k' v e)
  have "dget (rev e @ [(k', v)]) k = (case dget (rev e) k of None \<Rightarrow> if k = k' then Some v else None | Some w \<Rightarrow> Some w)"
    by (induction "rev e" k rule: dget.induct) (auto simp: dget_eq_map_of map_add_def split: option.splits)
  with 2 show ?case by (auto split: option.splits)
qed simp

definition wf_effective :: "effective_acl \<Rightarrow> bool" where
  "wf_effective e \<longleftrightarrow> wf_acl (ea_direct e) \<and> wf_acl (ea_inherited e)
     \<and> (ea_direct e \<noteq> [] \<or> ea_inherited e \<noteq> [] \<longrightarrow> ea_enabled e)"

lemma from_context_fields_wf: "DirectAcl_from_context_fields r pre = Inr acl \<Longrightarrow> wf_acl acl"
  by (auto simp: DirectAcl_from_context_fields_def DirectAcl_from_entries_def Let_def
      intro: normalize_entries_ok split: option.splits pyval.splits sum.splits if_splits)

lemma effective_from_record_wf: "effective_from_record r = Inr e \<Longrightarrow> wf_effective e"
  by (auto simp: effective_from_record_def ebind_Inr wf_effective_def dest: from_context_fields_wf)

lemma effective_from_records_wf: "effective_from_records rs = Inr e \<Longrightarrow> wf_effective e"
proof (cases rs)
  case (Cons r rs')
  assume "effective_from_records rs = Inr e"
  then have "effective_from_record r = Inr e"
    by (auto simp: effective_from_records_def Cons ebind_Inr split: if_splits)
  then show ?thesis by (rule effective_from_record_wf)
qed (auto simp: effective_from_records_def no_acl_def wf_effective_def)

lemma context_fields_get:
  "dget (dupdate r (EffectiveAcl_context_fields e)) k =
     (if k = ''acl_enabled'' then Some (PBool (ea_enabled e))
      else if k = ''acl_direct_grants'' then Some (PList (map (\<lambda>e. PStr (encode_grant e)) (ea_direct e)))
      else if k = ''acl_inherited_grants'' then Some (PList (map (\<lambda>e. PStr (encode_grant e)) (ea_inherited e)))
      else dget r k)"
  by (simp add: dget_dupdate EffectiveAcl_context_fields_def DirectAcl_context_fields_def)

text \<open>Property. Writing an effective access-control list into a context record and reading
  it back gives the same list, and every other field of the record keeps its value.\<close>

theorem effective_acl_stored_roundtrip:
  assumes "wf_effective e"
  shows "effective_from_record (dupdate record (EffectiveAcl_context_fields e)) = Inr e
    \<and> (\<forall>k. k \<notin> {''acl_enabled'', ''acl_direct_grants'', ''acl_inherited_grants''} \<longrightarrow>
          dget (dupdate record (EffectiveAcl_context_fields e)) k = dget record k)"
proof -
  let ?r = "dupdate record (EffectiveAcl_context_fields e)"
  have d: "DirectAcl_from_context_fields ?r ''acl_direct'' = Inr (ea_direct e)"
    using assms by (intro context_fields_roundtrip) (simp_all add: context_fields_get wf_effective_def)
  have i: "DirectAcl_from_context_fields ?r ''acl_inherited'' = Inr (ea_inherited e)"
    using assms by (intro context_fields_roundtrip) (simp_all add: context_fields_get wf_effective_def)
  have "truthy (dget_or ?r ''acl_enabled'') = ea_enabled e"
    by (simp add: dget_or_def context_fields_get)
  then have "effective_from_record ?r = Inr \<lparr>ea_enabled = (ea_enabled e \<or> ea_direct e \<noteq> [] \<or> ea_inherited e \<noteq> []),
      ea_direct = ea_direct e, ea_inherited = ea_inherited e\<rparr>"
    by (simp add: effective_from_record_def d i)
  also have "\<dots> = Inr e" using assms by (cases e) (auto simp: wf_effective_def)
  finally have "effective_from_record ?r = Inr e" .
  then show ?thesis by (simp add: context_fields_get)
qed

lemma wf_sample_effective: "wf_effective sample_effective"
  using wf_sample_acl by (simp add: wf_effective_def sample_effective_def)

theorem effective_acl_stored_roundtrip_witness:
  "wf_effective sample_effective
   \<and> effective_from_record (dupdate [(''id'', PStr ''r1'')] (EffectiveAcl_context_fields sample_effective))
     = Inr sample_effective"
  using wf_sample_effective effective_acl_stored_roundtrip [OF wf_sample_effective, of "[(''id'', PStr ''r1'')]"]
  by blast

section \<open>Scrolling ends and misses nothing\<close>

text \<open>What the code relies on of the adapter: a query answers from a fixed finite list, page by
  page.\<close>

definition pages_from ::
  "'s adapter \<Rightarrow> 's \<Rightarrow> (filter_expr option \<Rightarrow> string list \<Rightarrow> pydict list) \<Rightarrow> bool" where
  "pages_from ad s answer \<longleftrightarrow>
     (\<forall>flt limit offset out. ad_query ad s flt limit offset out
        = Inr (take limit (drop offset (answer flt out))))"

definition account_filter :: "request_context \<Rightarrow> filter_expr \<Rightarrow> filter_expr option" where
  "account_filter ctx flt =
     (if rc_account_id ctx = [] then Some flt
      else Some (FAnd [FEq ''account_id'' (PStr (rc_account_id ctx)), flt]))"

lemma scroll_pages:
  assumes "pages_from ad s answer"
  shows "scroll ad (backend_for_context ctx) s (Some flt) n cursor out =
    (let c = (case cursor of None \<Rightarrow> 0 | Some c \<Rightarrow> c);
         page = take n (drop c (answer (account_filter ctx flt) out))
     in Inr (page, if length page = n then Some (c + n) else None))"
  using assms
  by (auto simp: scroll_def pages_from_def backend_for_context_def is_bound_def account_filter_def Let_def)

lemma scroll_loop_pages:
  assumes "pages_from ad s answer"
  shows "scroll_loop ad s flt out ctx records cursor =
    Some (Inr (records @ drop (case cursor of None \<Rightarrow> 0 | Some c \<Rightarrow> c) (answer (account_filter ctx flt) out)))"
proof (induction "length (answer (account_filter ctx flt) out) - (case cursor of None \<Rightarrow> 0 | Some c \<Rightarrow> c)"
    arbitrary: records cursor rule: less_induct)
  case less
  let ?all = "answer (account_filter ctx flt) out"
  let ?c = "case cursor of None \<Rightarrow> 0 | Some c \<Rightarrow> c"
  show ?case
  proof (cases "length (take 500 (drop ?c ?all)) = 500")
    case True
    then have "?c + 500 \<le> length ?all" by simp
    then have IH: "scroll_loop ad s flt out ctx (records @ take 500 (drop ?c ?all)) (Some (?c + 500)) =
        Some (Inr ((records @ take 500 (drop ?c ?all)) @ drop (?c + 500) ?all))"
      using less [of "Some (?c + 500)"] by simp
    have "take 500 (drop ?c ?all) @ drop (?c + 500) ?all = drop ?c ?all"
      by (metis add.commute append_take_drop_id drop_drop)
    with IH True show ?thesis
      by (subst scroll_loop.simps) (simp add: scroll_pages [OF assms] Let_def)
  next
    case False
    then have "take 500 (drop ?c ?all) = drop ?c ?all" by simp
    with False show ?thesis
      by (subst scroll_loop.simps) (simp add: scroll_pages [OF assms] Let_def)
  qed
qed


section \<open>Resolution along the ancestors\<close>

text \<open>The records of a list \<open>db\<close> stored under a URI, and the law of exact-path queries.\<close>

definition stored_at :: "pydict list \<Rightarrow> string \<Rightarrow> pydict list" where
  "stored_at db uri = filter (\<lambda>r. truthy (dget_or r ''uri'') \<and> record_uri r = uri) db"

definition exact_law ::
  "(filter_expr option \<Rightarrow> string list \<Rightarrow> pydict list) \<Rightarrow> request_context \<Rightarrow> pydict list \<Rightarrow> bool" where
  "exact_law answer ctx db \<longleftrightarrow>
     (\<forall>uris. answer (account_filter ctx (FOr (map (\<lambda>uri. FPathScope ''uri'' uri 0) uris))) ACL_OUTPUT_FIELDS
        = filter (\<lambda>r. truthy (dget_or r ''uri'') \<and> record_uri r \<in> set uris) db)"

lemma scroll_chunks_exact:
  assumes "pages_from ad s answer" "exact_law answer ctx db"
  shows "scroll_chunks ad s cs ctx =
    Some (Inr (concat (map (\<lambda>c. filter (\<lambda>r. truthy (dget_or r ''uri'') \<and> record_uri r \<in> set c) db) cs)))"
proof (induction cs)
  case (Cons c cs)
  have "scroll_all ad s (FOr (map (\<lambda>uri. FPathScope ''uri'' uri 0) c)) ACL_OUTPUT_FIELDS ctx
      = Some (Inr (filter (\<lambda>r. truthy (dget_or r ''uri'') \<and> record_uri r \<in> set c) db))"
    using scroll_loop_pages [OF assms(1), of _ _ ctx "[]" None] assms(2)
    by (simp add: scroll_all_def exact_law_def)
  then show ?case by (simp add: Cons)
qed simp

lemma stored_at_chunks:
  "distinct (concat cs) \<Longrightarrow>
     stored_at (concat (map (\<lambda>c. filter (\<lambda>r. truthy (dget_or r ''uri'') \<and> record_uri r \<in> set c) db) cs)) uri
     = (if uri \<in> set (concat cs) then stored_at db uri else [])"
proof (induction cs)
  case (Cons c cs)
  have "stored_at (filter (\<lambda>r. truthy (dget_or r ''uri'') \<and> record_uri r \<in> set c) db) uri
      = (if uri \<in> set c then stored_at db uri else [])"
    by (auto simp: stored_at_def intro!: filter_cong filter_False)
  with Cons show ?case by (auto simp: stored_at_def)
qed (simp add: stored_at_def)

lemma records_for_uris_exact:
  assumes "pages_from ad s answer" "exact_law answer ctx db"
  obtains rs where "records_for_uris ad s uris ctx = Some (Inr rs)"
    "\<And>uri. stored_at rs uri = (if uri \<in> set uris then stored_at db uri else [])"
proof -
  let ?cs = "chunks 100 (sort (remdups uris))"
  have c: "concat ?cs = sort (remdups uris)" by (simp add: concat_chunks)
  show thesis
  proof (rule that)
    show "records_for_uris ad s uris ctx = Some (Inr
        (concat (map (\<lambda>c. filter (\<lambda>r. truthy (dget_or r ''uri'') \<and> record_uri r \<in> set c) db) ?cs)))"
      by (simp add: records_for_uris_def scroll_chunks_exact [OF assms])
    show "stored_at (concat (map (\<lambda>c. filter (\<lambda>r. truthy (dget_or r ''uri'') \<and> record_uri r \<in> set c) db) ?cs)) uri
        = (if uri \<in> set uris then stored_at db uri else [])" for uri
      using stored_at_chunks [of ?cs db uri] by (simp add: c)
  qed
qed

lemma group_from_get:
  "dget (group_from g rs) u =
     (case dget g u of
        Some xs \<Rightarrow> Some (xs @ stored_at rs u)
      | None \<Rightarrow> if stored_at rs u = [] then None else Some (stored_at rs u))"
  by (induction g rs rule: group_from.induct) (auto simp: stored_at_def Let_def split: option.splits)

lemma group_by_uri_get:
  "dget (group_by_uri rs) u = (if stored_at rs u = [] then None else Some (stored_at rs u))"
  by (simp add: group_by_uri_def group_from_get)

lemma group_from_keys: "distinct (dkeys g) \<Longrightarrow> distinct (dkeys (group_from g rs))"
  by (induction g rs rule: group_from.induct) (auto simp: Let_def split: option.splits)

lemma group_by_uri_keys: "distinct (dkeys (group_by_uri rs))"
  unfolding group_by_uri_def by (rule group_from_keys) (simp add: dkeys_def)

text \<open>Every URI has consistent fields, which read as \<open>E\<close>.\<close>

definition reads_as :: "pydict list \<Rightarrow> (string \<Rightarrow> effective_acl) \<Rightarrow> bool" where
  "reads_as db E \<longleftrightarrow> (\<forall>uri. effective_from_records (stored_at db uri) = Inr (E uri))"

lemma reads_as_none: "reads_as db E \<Longrightarrow> stored_at db uri = [] \<Longrightarrow> E uri = no_acl"
  by (metis effective_from_records_def reads_as_def sum.inject(2))

lemma dget_map_keys:
  "distinct (dkeys d) \<Longrightarrow> dget (map (\<lambda>(k, v). (k, f k v)) d) k = map_option (f k) (dget d k)"
  by (induction d k rule: dget.induct) (auto simp: dkeys_def)

lemma direct_map_of_exact:
  assumes "reads_as db E" "\<And>uri. stored_at rs uri = (if uri \<in> U then stored_at db uri else [])"
  obtains dm where "direct_map_of (group_by_uri rs) = Inr dm"
    "\<And>uri. uri \<in> U \<Longrightarrow> direct_or_none dm uri = ea_direct (E uri)"
proof
  let ?g = "group_by_uri rs"
  have *: "effective_from_records xs = Inr (E u)" if "(u, xs) \<in> set ?g" for u xs
  proof -
    from in_set_dget [OF group_by_uri_keys that] have "stored_at rs u \<noteq> []" "xs = stored_at rs u"
      by (auto simp: group_by_uri_get split: if_splits)
    with assms show ?thesis by (auto simp: reads_as_def split: if_splits)
  qed
  show "direct_map_of ?g = Inr (map (\<lambda>(u, xs). (u, ea_direct (E u))) ?g)"
    unfolding direct_map_of_def by (rule emap_total) (auto simp: *)
  fix uri assume "uri \<in> U"
  then show "direct_or_none (map (\<lambda>(u, xs). (u, ea_direct (E u))) ?g) uri = ea_direct (E uri)"
    using reads_as_none [OF assms(1), of uri] assms(2) [of uri]
      dget_map_keys [OF group_by_uri_keys [of rs], where f = "\<lambda>u xs. ea_direct (E u)" and k = uri]
    by (auto simp: direct_or_none_def group_by_uri_get no_acl_def)
qed

lemma reads_as_wf: "reads_as db E \<Longrightarrow> wf_acl (ea_direct (E uri)) \<and> wf_acl (ea_inherited (E uri))"
  using effective_from_records_wf by (fastforce simp: reads_as_def wf_effective_def)

lemma resolve_stored:
  assumes "pages_from ad s answer" "exact_law answer ctx db" "reads_as db E"
    and "acl_ancestors uri = Inr path" "stored_at db uri \<noteq> []"
  shows "resolve ad s uri ctx = Some (Inr (E uri))"
proof -
  obtain rs where rs: "records_for_uris ad s [uri] ctx = Some (Inr rs)"
    "\<And>u. stored_at rs u = (if u \<in> set [uri] then stored_at db u else [])"
    using records_for_uris_exact [OF assms(1,2)] by metis
  have "resolve_exact (group_by_uri rs) [uri] = Inr [(uri, E uri)]"
    using assms(3,5) by (simp add: resolve_exact_def group_by_uri_get rs(2) reads_as_def)
  then show ?thesis by (simp add: resolve_def resolve_many_def assms(4) rs(1))
qed

lemma resolve_missing:
  assumes "pages_from ad s answer" "exact_law answer ctx db" "reads_as db E"
    and "acl_ancestors uri = Inr path" "stored_at db uri = []"
  obtains inherited where "resolve ad s uri ctx = Some (Inr (effective_of [] inherited))" "wf_acl inherited"
    "\<And>p. grant_mask inherited p = Max (insert 0 ((\<lambda>a. grant_mask (ea_direct (E a)) p) ` set (butlast path)))"
proof -
  obtain rs where rs: "records_for_uris ad s [uri] ctx = Some (Inr rs)"
    "\<And>u. stored_at rs u = (if u \<in> set [uri] then stored_at db u else [])"
    using records_for_uris_exact [OF assms(1,2)] by metis
  obtain qs where qs: "records_for_uris ad s path ctx = Some (Inr qs)"
    "\<And>u. stored_at qs u = (if u \<in> set path then stored_at db u else [])"
    using records_for_uris_exact [OF assms(1,2)] by metis
  obtain dm where dm: "direct_map_of (group_by_uri qs) = Inr dm"
    "\<And>u. u \<in> set path \<Longrightarrow> direct_or_none dm u = ea_direct (E u)"
    using direct_map_of_exact [OF assms(3) qs(2)] by metis
  have none: "direct_or_none dm uri = []"
  proof (cases "uri \<in> set path")
    case True
    with dm(2) reads_as_none [OF assms(3,5)] show ?thesis by (simp add: no_acl_def)
  next
    case False
    then have "uri \<notin> set (dkeys (group_by_uri qs))" by (simp add: qs(2) group_by_uri_get flip: dget_None_iff)
    moreover have "dkeys dm = dkeys (group_by_uri qs)" using dm(1)
      by (auto simp: direct_map_of_def emap_Inr dkeys_def list_all2_conv_all_nth split_beta intro!: nth_equalityI)
    ultimately have "dget dm uri = None" by (simp add: dget_None_iff)
    then show ?thesis by (simp add: direct_or_none_def)
  qed
  have ds: "map (direct_or_none dm) (butlast path) = map (\<lambda>u. ea_direct (E u)) (butlast path)"
    by (simp add: dm(2) in_set_butlastD)
  obtain inherited where inh:
    "union_all DirectAcl_union [] (map (\<lambda>u. ea_direct (E u)) (butlast path)) = Inr inherited" "wf_acl inherited"
    "\<And>p. grant_mask inherited p = Max (insert (grant_mask [] p) ((\<lambda>b. grant_mask b p) ` set (map (\<lambda>u. ea_direct (E u)) (butlast path))))"
    using acl_lattice.union_all_ok [of "[]" "map (\<lambda>u. ea_direct (E u)) (butlast path)"] reads_as_wf [OF assms(3)]
    by (auto simp: list_all_iff)
  have "resolve_exact (group_by_uri rs) [uri] = Inr []"
    using assms(5) by (simp add: resolve_exact_def group_by_uri_get rs(2))
  then have "resolve ad s uri ctx = Some (Inr (effective_of [] inherited))"
    by (simp add: resolve_def resolve_many_def assms(4) rs(1) path_of_def qs(1) dm(1)
        inherit_from_def ds inh(1) none)
  moreover have "grant_mask inherited p = Max (insert 0 ((\<lambda>a. grant_mask (ea_direct (E a)) p) ` set (butlast path)))" for p
    using inh(3) [of p] by (simp add: acl_lattice.mask_none image_image)
  ultimately show thesis using inh(2) that by blast
qed


section \<open>A reference adapter\<close>

text \<open>An adapter over a list of records, for concrete runs: it evaluates the filters the
  manager builds, pages through the matches and replaces records by identifier.\<close>

fun fe_match :: "filter_expr \<Rightarrow> pydict \<Rightarrow> bool" where
  "fe_match (FAnd fs) r = list_all (\<lambda>f. fe_match f r) fs"
| "fe_match (FOr fs) r = list_ex (\<lambda>f. fe_match f r) fs"
| "fe_match (FEq k v) r = (dget_or r k = v)"
| "fe_match (FPathScope k path depth) r =
     (truthy (dget_or r k) \<and> (py_str (dget_or r k) = path
        \<or> depth < 0 \<and> startswith (py_str (dget_or r k)) (path @ ''/'')))"
| "fe_match f r = False"

definition project :: "string list \<Rightarrow> pydict \<Rightarrow> pydict" where
  "project out r = filter (\<lambda>(k, v). k \<in> set out) r"

definition mem_answer :: "pydict list \<Rightarrow> filter_expr option \<Rightarrow> string list \<Rightarrow> pydict list" where
  "mem_answer s flt out =
     map (project out) (filter (\<lambda>r. case flt of None \<Rightarrow> True | Some f \<Rightarrow> fe_match f r) s)"

definition mem_upsert1 :: "pydict list \<Rightarrow> pydict \<Rightarrow> pydict list" where
  "mem_upsert1 s p =
     (if list_ex (\<lambda>r. dget_or r ''id'' = dget_or p ''id'') s
      then map (\<lambda>r. if dget_or r ''id'' = dget_or p ''id'' then p else r) s else s @ [p])"

definition memory_adapter :: "pydict list adapter" where
  "memory_adapter = \<lparr>ad_query = (\<lambda>s flt limit offset out. Inr (take limit (drop offset (mem_answer s flt out)))),
     ad_get = (\<lambda>s ids. Inr (filter (\<lambda>r. py_str (dget_or r ''id'') \<in> set ids) s)),
     ad_upsert = (\<lambda>s ps. (fold (\<lambda>p acc. mem_upsert1 acc p) ps s, Inr (map (\<lambda>p. dget_or p ''id'') ps))),
     ad_fields = None, ad_use_content_field = False\<rparr>"

definition mem_db :: "request_context \<Rightarrow> pydict list \<Rightarrow> pydict list" where
  "mem_db ctx s = map (project ACL_OUTPUT_FIELDS)
     (filter (\<lambda>r. dget_or r ''account_id'' = PStr (rc_account_id ctx)) s)"

lemma memory_pages: "pages_from memory_adapter s (mem_answer s)"
  by (simp add: pages_from_def memory_adapter_def)

lemma dget_project: "k \<in> set out \<Longrightarrow> dget (project out r) k = dget r k"
  by (induction r k rule: dget.induct) (auto simp: project_def)

lemma project_uri:
  "dget_or (project ACL_OUTPUT_FIELDS r) ''uri'' = dget_or r ''uri''"
  "record_uri (project ACL_OUTPUT_FIELDS r) = record_uri r"
  by (simp_all add: dget_or_def record_uri_def dget_project ACL_OUTPUT_FIELDS_def)

lemma memory_exact: "rc_account_id ctx \<noteq> [] \<Longrightarrow> exact_law (mem_answer s) ctx (mem_db ctx s)"
  by (auto simp: exact_law_def mem_answer_def mem_db_def account_filter_def filter_map o_def project_uri
      list_ex_iff record_uri_def intro!: arg_cong [where f = "map _"] filter_cong)

definition sample_store :: "pydict list" where
  "sample_store =
     [dupdate [(''id'', PStr ''r1''), (''account_id'', PStr ''acme''), (''uri'', PStr (VIKING @ ''resources/docs''))]
        (EffectiveAcl_context_fields sample_effective)]"

definition sample_E :: "string \<Rightarrow> effective_acl" where
  "sample_E uri = (if uri = VIKING @ ''resources/docs'' then sample_effective else no_acl)"

lemma sample_reads: "reads_as (mem_db ctx_bob sample_store) sample_E"
proof -
  obtain r where r: "mem_db ctx_bob sample_store = [r]" "dget_or r ''uri'' = PStr (VIKING @ ''resources/docs'')"
    "effective_from_record r = Inr sample_effective"
  proof
    let ?r = "project ACL_OUTPUT_FIELDS (hd sample_store)"
    show "mem_db ctx_bob sample_store = [?r]" by code_simp
    show "dget_or ?r ''uri'' = PStr (VIKING @ ''resources/docs'')" by code_simp
    show "effective_from_record ?r = Inr sample_effective" by code_simp
  qed
  then show ?thesis
    by (auto simp: reads_as_def stored_at_def sample_E_def record_uri_def effective_from_records_def)
qed

lemma account_bob: "rc_account_id ctx_bob \<noteq> []"
  by code_simp



section \<open>Replacing a list, with roll-back\<close>

lemma emap_dget:
  assumes "emap f us = Inr kvs" "\<And>u kv. f u = Inr kv \<Longrightarrow> fst kv = u" "dget kvs u = Some v"
  shows "f u = Inr (u, v)"
  using assms(1,3)
proof (induction us arbitrary: kvs)
  case (Cons w us)
  then obtain kv rest where "f w = Inr kv" "emap f us = Inr rest" "kvs = kv # rest"
    by (auto simp: ebind_Inr)
  with Cons assms(2) [of w kv] show ?case by (cases kv) (auto split: if_splits)
qed simp

lemma plan_subtree_root:
  assumes "plan_subtree ad s uri records ctx (Some proposed) = Some (Inr (updated, e))"
  shows "ea_direct e = proposed"
proof -
  from assms obtain dm0 depth base eff where
    eff: "emap (subtree_effective (dset dm0 uri proposed) base depth) (dkeys (group_by_uri records)) = Inr eff"
    and e: "dget eff uri = Some e"
    by (auto simp: plan_subtree_def Let_def rbind_def split: if_splits option.splits sum.splits)
  have "subtree_effective (dset dm0 uri proposed) base depth uri = Inr (uri, e)"
    by (rule emap_dget [OF eff _ e]) (auto simp: subtree_effective_def ebind_Inr)
  then show ?thesis by (auto simp: subtree_effective_def ebind_Inr effective_of_def direct_or_none_def)
qed



end
