(* ===== verification/Fs_Access.thy ===== *)
theory Fs_Access
  imports Acl_Manager
begin

text \<open>
  The access gate of the file system, \<open>openviking/storage/viking_fs/_access.py\<close>: safe
  splitting of URIs, the decision for many URIs at once (namespace rules, and the lists of
  \<open>Acl_Manager\<close> where an account has them switched on), the guards of writes and deletes, the
  operations that read and change lists, and the translation between URIs and storage paths.

  \<open>viking_fs\<close> is the part of the object these methods read: the manager, the user-deletion
  guard and the bound request context. The storage service below (stat and path locks) is the
  parameter \<open>agfs\<close> over a state \<open>'g\<close>; its exceptions carry a kind and a message because
  \<open>is_not_found_error\<close> looks at both. SHA-256 is the parameter \<open>sha\<close>, the hexadecimal digest
  of a string.
\<close>

section \<open>Safe URI parts\<close>

text \<open>\<open>str.isalpha\<close> on code points below 256.\<close>

definition is_alpha :: "char \<Rightarrow> bool" where
  "is_alpha c \<longleftrightarrow> is_ascii_lower c \<or> is_ascii_upper c \<or>
     (let n = of_char c :: nat in n \<in> {170, 181, 186} \<or> (192 \<le> n \<and> n \<noteq> 215 \<and> n \<noteq> 247))"

definition unsafe_part :: "string \<Rightarrow> bool" where
  "unsafe_part part \<longleftrightarrow> part \<in> {''.'', ''..''} \<or> CHR 0x5C \<in> set part
     \<or> (length part \<ge> 2 \<and> part ! 1 = CHR '':'' \<and> is_alpha (part ! 0))"

definition plain_parts :: "string \<Rightarrow> string list" where
  "plain_parts uri = segs (strip is_slash (drop (length VIKING) uri))"

definition safe_uri_parts :: "string \<Rightarrow> py_exc + string list" where
  "safe_uri_parts uri =
     (if \<not> startswith uri VIKING then Inl ValueError
      else let parts = plain_parts uri in
        if list_ex unsafe_part parts then Inl PermissionDeniedError else Inr parts)"

section \<open>Namespace access of the file system\<close>

record viking_fs =
  fs_acl_manager :: "acl_manager option"
  fs_user_deletion_guard :: "(string \<Rightarrow> string \<Rightarrow> bool) option"
  fs_bound_ctx :: "request_context option"

definition default_ctx :: request_context where
  "default_ctx = \<lparr>rc_user = \<lparr>ui_account_id = ''default'', ui_user_id = ''default''\<rparr>, rc_role = Role_ROOT,
     rc_group_ids = [], rc_actor_peer_id = None, rc_from_oauth = False, rc_api_key = None,
     rc_bypass_acl = False\<rparr>"

definition ctx_or_default :: "viking_fs \<Rightarrow> request_context option \<Rightarrow> request_context" where
  "ctx_or_default fs ctx = (case ctx of
      Some c \<Rightarrow> c
    | None \<Rightarrow> (case fs_bound_ctx fs of Some b \<Rightarrow> b | None \<Rightarrow> default_ctx))"

text \<open>\<open>re.match(r"^\d{8}_[0-9a-f]{6}$", value)\<close>; the dollar sign also matches before a final
  line feed. Code points below 256 have no decimal digits but the ASCII ones.\<close>

definition is_hex_lower :: "char \<Rightarrow> bool" where
  "is_hex_lower c \<longleftrightarrow> is_ascii_digit c \<or> (CHR ''a'' \<le> c \<and> c \<le> CHR ''f'')"

definition looks_like_legacy_temp_leaf :: "string \<Rightarrow> bool" where
  "looks_like_legacy_temp_leaf value =
     (let w = (if value \<noteq> [] \<and> last value = CHR 0x0A then butlast value else value)
      in length w = 15 \<and> list_all is_ascii_digit (take 8 w) \<and> w ! 8 = CHR ''_''
         \<and> list_all is_hex_lower (drop 9 w))"

definition is_legacy_temp_uri_parts :: "string list \<Rightarrow> bool" where
  "is_legacy_temp_uri_parts parts =
     (case parts of
        a # b # rest \<Rightarrow> a = ''temp'' \<and> looks_like_legacy_temp_leaf b
          \<and> (rest = [] \<or> \<not> looks_like_legacy_temp_leaf (hd rest))
      | _ \<Rightarrow> False)"

definition AGENT_SHARED :: "string list" where
  "AGENT_SHARED = [''skills'', ''endpoints'', ''tools'', ''payments'']"

definition fs_is_accessible :: "string \<Rightarrow> request_context \<Rightarrow> py_exc + bool" where
  "fs_is_accessible uri ctx =
     ebind (safe_uri_parts uri) (\<lambda>parts.
       if rc_role ctx = Role_ROOT then Inr True
       else ebind (is_hidden_by_actor_peer_view uri ctx) (\<lambda>hidden.
         if hidden then Inr False
         else if parts = [] then Inr True
         else ebind (is_watch_task_control_uri uri) (\<lambda>control.
           if control then Inr False
           else let scope = hd parts in
             if scope = ''resources'' then Inr True
             else if scope = ''temp'' then
               Inr (length parts = 1 \<or> parts ! 1 = rc_user_id ctx \<or> is_legacy_temp_uri_parts parts)
             else if scope = ''upload'' then Inr (rc_role ctx = Role_ROOT)
             else if scope = ''_system'' then Inr False
             else if scope = ''agent'' then
               (if length parts \<ge> 2 \<and> parts ! 1 \<in> set AGENT_SHARED then Inr True
                else if \<not> active_peer ctx \<or> length parts < 2 then Inr True
                else Inr (rc_actor_peer_id ctx = Some (parts ! 1)))
             else is_accessible uri ctx)))"

section \<open>Decisions for many URIs\<close>

fun split_valid ::
  "(string \<times> bool) list \<Rightarrow> string list \<Rightarrow> string list \<Rightarrow> py_exc + ((string \<times> bool) list \<times> string list)" where
  "split_valid result valid [] = Inr (result, valid)"
| "split_valid result valid (uri # uris) =
     (case safe_uri_parts uri of
        Inl e \<Rightarrow> if is_ValueError e then split_valid (dset result uri False) valid uris else Inl e
      | Inr _ \<Rightarrow> split_valid result (valid @ [uri]) uris)"

fun access_all ::
  "(string \<times> bool) list \<Rightarrow> request_context \<Rightarrow> string list \<Rightarrow> py_exc + (string \<times> bool) list" where
  "access_all result ctx [] = Inr result"
| "access_all result ctx (uri # uris) =
     ebind (fs_is_accessible uri ctx) (\<lambda>b. access_all (dset result uri b) ctx uris)"

text \<open>The loop that decides what needs no list and collects the rest as pending.\<close>

fun split_pending ::
  "(string \<times> bool) list \<Rightarrow> string list \<Rightarrow> request_context \<Rightarrow> string list
    \<Rightarrow> py_exc + ((string \<times> bool) list \<times> string list)" where
  "split_pending result pending ctx [] = Inr (result, pending)"
| "split_pending result pending ctx (uri # uris) =
     ebind (is_watch_task_control_uri uri) (\<lambda>control.
       if control then
         ebind (fs_is_accessible uri ctx) (\<lambda>b. split_pending (dset result uri b) pending ctx uris)
       else ebind (is_acl_uri uri) (\<lambda>acl.
         if \<not> acl then
           ebind (fs_is_accessible uri ctx) (\<lambda>b. split_pending (dset result uri b) pending ctx uris)
         else if rc_bypass_acl ctx then split_pending (dset result uri True) pending ctx uris
         else ebind (has_implicit_manage ctx uri) (\<lambda>m.
           if m then split_pending (dset result uri True) pending ctx uris
           else split_pending result (pending @ [uri]) ctx uris)))"

fun decide_pending ::
  "(string \<times> bool) list \<Rightarrow> (string \<times> effective_acl) list \<Rightarrow> request_context \<Rightarrow> acl_action \<Rightarrow> string list
    \<Rightarrow> py_exc + (string \<times> bool) list" where
  "decide_pending result effective ctx action [] = Inr result"
| "decide_pending result effective ctx action (uri # uris) =
     (case dget effective uri of
        None \<Rightarrow> Inl KeyError
      | Some acl \<Rightarrow>
          ebind (if \<not> ea_enabled acl then fs_is_accessible uri ctx else acl_allows acl ctx action)
            (\<lambda>b. decide_pending (dset result uri b) effective ctx action uris))"

definition fs_acl_enabled :: "viking_fs \<Rightarrow> request_context \<Rightarrow> bool" where
  "fs_acl_enabled fs ctx =
     (case fs_acl_manager fs of None \<Rightarrow> False | Some m \<Rightarrow> is_enabled m (rc_account_id ctx))"

definition can_access_many ::
  "viking_fs \<Rightarrow> 's adapter \<Rightarrow> 's \<Rightarrow> string list \<Rightarrow> request_context option \<Rightarrow> acl_action
    \<Rightarrow> (string \<times> bool) list aio" where
  "can_access_many fs ad s uris ctx action =
     (let real_ctx = ctx_or_default fs ctx in
      rbind (Some (split_valid [] [] (uniq uris))) (\<lambda>(result, valid).
        if \<not> fs_acl_enabled fs real_ctx then Some (access_all result real_ctx valid)
        else
          rbind (Some (split_pending result [] real_ctx valid)) (\<lambda>(result, pending).
          rbind (if pending = [] then Some (Inr []) else resolve_many ad s pending real_ctx) (\<lambda>effective.
            Some (decide_pending result effective real_ctx action pending)))))"

definition ensure_user_not_deleting :: "viking_fs \<Rightarrow> request_context \<Rightarrow> py_exc + unit" where
  "ensure_user_not_deleting fs ctx =
     (case fs_user_deletion_guard fs of
        Some guard \<Rightarrow>
          if rc_role ctx \<noteq> Role_ROOT \<and> guard (rc_account_id ctx) (rc_user_id ctx)
          then Inl FailedPreconditionError else Inr ()
      | None \<Rightarrow> Inr ())"

definition ensure_supported_delete_namespace :: "string \<Rightarrow> py_exc + unit" where
  "ensure_supported_delete_namespace uri =
     (let parts = plain_parts uri in
      if parts = [] then Inl PermissionDeniedError
      else if parts = [''user''] then Inl PermissionDeniedError
      else if parts = [''agent''] then Inl PermissionDeniedError
      else Inr ())"

definition ensure_supported_write_namespace :: "string \<Rightarrow> py_exc + unit" where
  "ensure_supported_write_namespace uri =
     (let parts = plain_parts uri in
      if parts = [''user''] then Inl PermissionDeniedError
      else if parts \<noteq> [] \<and> hd parts = ''session'' then Inl PermissionDeniedError
      else if parts \<noteq> [] \<and> hd parts = ''agent'' then
        (if length parts \<ge> 2 \<and> parts ! 1 \<notin> set AGENT_SHARED then Inl PermissionDeniedError
         else if length parts < 2 then Inl PermissionDeniedError
         else Inr ())
      else Inr ())"

text \<open>The body of the loop over the URIs of a write or a delete.\<close>

definition ensure_write_target :: "request_context \<Rightarrow> acl_action \<Rightarrow> string \<Rightarrow> py_exc + unit" where
  "ensure_write_target ctx action uri =
     ebind (safe_uri_parts uri) (\<lambda>canonical_parts.
       if uri = VIKING \<and> rc_role ctx = Role_USER then Inl PermissionDeniedError
       else ebind (is_hidden_by_actor_peer_view uri ctx) (\<lambda>hidden.
       ebind (if hidden then Inr True else may_include_hidden_actor_peers uri ctx) (\<lambda>refuse.
         if refuse then Inl PermissionDeniedError
         else ebind (if action = MANAGE then
             ebind (ensure_supported_delete_namespace uri) (\<lambda>_.
               if rc_role ctx \<noteq> Role_ROOT \<and> (canonical_parts = [''resources'']
                  \<or> (take 1 canonical_parts = [''user''] \<and> length canonical_parts = 2))
               then Inl PermissionDeniedError else Inr ())
           else Inr ()) (\<lambda>_.
         ebind (ensure_supported_write_namespace uri) (\<lambda>_.
           if rc_role ctx \<noteq> Role_ROOT \<and> rstrip is_slash uri = VIKING @ ''temp''
           then Inl PermissionDeniedError else Inr ())))))"

definition ensure_access_many ::
  "viking_fs \<Rightarrow> 's adapter \<Rightarrow> 's \<Rightarrow> string list \<Rightarrow> request_context option \<Rightarrow> acl_action \<Rightarrow> unit aio" where
  "ensure_access_many fs ad s uris ctx action =
     (let real_ctx = ctx_or_default fs ctx in
      rbind (can_access_many fs ad s uris (Some real_ctx) action) (\<lambda>access.
        if list_ex (\<lambda>uri. dget access uri \<noteq> Some True) uris then Some (Inl PermissionDeniedError)
        else if action = READ then Some (Inr ())
        else Some (ebind (ensure_user_not_deleting fs real_ctx) (\<lambda>_.
               map_sum id (\<lambda>_. ()) (emap (ensure_write_target real_ctx action) uris)))))"

definition ensure_access ::
  "viking_fs \<Rightarrow> 's adapter \<Rightarrow> 's \<Rightarrow> string \<Rightarrow> request_context option \<Rightarrow> acl_action \<Rightarrow> unit aio" where
  "ensure_access fs ad s uri ctx action = ensure_access_many fs ad s [uri] ctx action"

definition ensure_retrieval_scope ::
  "viking_fs \<Rightarrow> 's adapter \<Rightarrow> 's \<Rightarrow> string \<Rightarrow> request_context option \<Rightarrow> unit aio" where
  "ensure_retrieval_scope fs ad s uri ctx =
     rbind (Some (safe_uri_parts uri)) (\<lambda>_.
     rbind (if fs_acl_enabled fs (ctx_or_default fs ctx) then Some (is_acl_uri uri) else Some (Inr False)) (\<lambda>skip.
       if skip then Some (Inr ()) else ensure_access fs ad s uri ctx READ))"

section \<open>Paths\<close>

text \<open>Length of the UTF-8 encoding of code points below 256.\<close>

definition utf8_len :: "string \<Rightarrow> nat" where
  "utf8_len s = sum_list (map (\<lambda>c. if (of_char c :: nat) < 128 then 1 else 2) s)"

function trim_bytes :: "nat \<Rightarrow> string \<Rightarrow> string" where
  "trim_bytes target pre = (if utf8_len pre > target \<and> pre \<noteq> [] then trim_bytes target (butlast pre) else pre)"
  by auto
termination by (relation "measure (\<lambda>(t, p). length p)") auto

declare trim_bytes.simps [simp del]

definition shorten_component :: "(string \<Rightarrow> string) \<Rightarrow> string \<Rightarrow> nat \<Rightarrow> string" where
  "shorten_component sha component max_bytes =
     (if utf8_len component \<le> max_bytes then component
      else let hash_suffix = take 8 (sha component);
               target = max_bytes - utf8_len (''_'' @ hash_suffix)
           in trim_bytes target component @ ''_'' @ hash_suffix)"

definition MAX_FILENAME_BYTES :: nat where
  "MAX_FILENAME_BYTES = 255"

definition path_under_account :: "(string \<Rightarrow> string) \<Rightarrow> string \<Rightarrow> string list \<Rightarrow> string" where
  "path_under_account sha account_id parts =
     ''/local/'' @ account_id @ ''/'' @ join ''/'' (map (\<lambda>p. shorten_component sha p MAX_FILENAME_BYTES) parts)"

text \<open>The branch for old agent identifiers builds the same path as the general case.\<close>

definition uri_to_path :: "viking_fs \<Rightarrow> (string \<Rightarrow> string) \<Rightarrow> string \<Rightarrow> request_context option \<Rightarrow> py_exc + string" where
  "uri_to_path fs sha uri ctx =
     (let account_id = rc_account_id (ctx_or_default fs ctx) in
      ebind (safe_uri_parts uri) (\<lambda>parts.
        if take 1 parts = [''session''] then Inl ValueError
        else if parts = [] then Inr (''/local/'' @ account_id)
        else Inr (path_under_account sha account_id parts)))"

definition path_to_uri :: "viking_fs \<Rightarrow> string \<Rightarrow> request_context option \<Rightarrow> py_exc + string" where
  "path_to_uri fs path ctx =
     (if startswith path ''/local/'' then
        let inner = strip is_slash (drop 7 path) in
        if inner = [] then Inr VIKING
        else let parts = segs inner;
                 parts = (if parts \<noteq> [] \<and> hd parts = rc_account_id (ctx_or_default fs ctx) then tl parts else parts)
             in if parts = [] then Inr VIKING else Inr (VIKING @ join ''/'' parts)
      else Inl ValueError)"

definition legacy_session_path :: "viking_fs \<Rightarrow> (string \<Rightarrow> string) \<Rightarrow> string \<Rightarrow> request_context option \<Rightarrow> py_exc + string" where
  "legacy_session_path fs sha uri ctx =
     map_sum id (path_under_account sha (rc_account_id (ctx_or_default fs ctx))) (safe_uri_parts uri)"

definition legacy_user_session_path ::
  "viking_fs \<Rightarrow> (string \<Rightarrow> string) \<Rightarrow> string \<Rightarrow> request_context option \<Rightarrow> py_exc + string option" where
  "legacy_user_session_path fs sha uri ctx =
     map_sum id (\<lambda>parts.
       if length parts \<le> 3 \<or> hd parts \<noteq> ''user'' \<or> parts ! 2 \<noteq> ''sessions'' then None
       else Some (path_under_account sha (rc_account_id (ctx_or_default fs ctx))
         (''session'' # parts ! 1 # drop 3 parts)))
       (safe_uri_parts uri)"

definition legacy_session_alias :: "string \<Rightarrow> py_exc + string option" where
  "legacy_session_alias uri =
     map_sum id (\<lambda>parts.
       if length parts < 3 \<or> hd parts \<noteq> ''user'' \<or> parts ! 2 \<noteq> ''sessions'' then None
       else let suffix = drop 3 parts in
         Some (VIKING @ ''session'' @ (if suffix = [] then [] else ''/'' @ join ''/'' suffix)))
       (safe_uri_parts uri)"

definition is_session_root_uri :: "string \<Rightarrow> py_exc + bool" where
  "is_session_root_uri uri = map_sum id (\<lambda>a. a = Some (VIKING @ ''session'')) (legacy_session_alias uri)"

definition is_legacy_agent_id_uri :: "string \<Rightarrow> py_exc + bool" where
  "is_legacy_agent_id_uri uri =
     map_sum id (\<lambda>parts. parts \<noteq> [] \<and> hd parts = ''agent'' \<and> length parts \<ge> 2 \<and> parts ! 1 \<notin> set AGENT_SHARED)
       (safe_uri_parts uri)"

definition add_candidate :: "string list \<Rightarrow> string option \<Rightarrow> string list" where
  "add_candidate paths c = (case c of
      Some p \<Rightarrow> if p \<noteq> [] \<and> p \<notin> set paths then paths @ [p] else paths
    | None \<Rightarrow> paths)"

definition read_paths :: "viking_fs \<Rightarrow> (string \<Rightarrow> string) \<Rightarrow> string \<Rightarrow> request_context option \<Rightarrow> py_exc + string list" where
  "read_paths fs sha uri ctx =
     ebind (uri_to_path fs sha uri ctx) (\<lambda>path.
     ebind (legacy_session_alias uri) (\<lambda>legacy_uri.
       case legacy_uri of
         None \<Rightarrow> Inr [path]
       | Some l \<Rightarrow>
           ebind (legacy_session_path fs sha l ctx) (\<lambda>c1.
           ebind (legacy_user_session_path fs sha uri ctx) (\<lambda>c2.
             Inr (add_candidate (add_candidate [path] (Some c1)) c2)))))"

section \<open>Visibility of listed names\<close>

definition STORAGE_INTERNAL_ENTRY_NAMES :: "string list" where
  "STORAGE_INTERNAL_ENTRY_NAMES = [''_system'', ''tasks'', ''.path.ovlock'', ''.redirect.json'', ''.sync_log.json'']"

definition is_name_visible_at_path :: "string \<Rightarrow> string \<Rightarrow> bool" where
  "is_name_visible_at_path name parent_path =
     (let parts = segs (strip is_slash parent_path) in
      if length parts = 2 \<and> hd parts = ''local'' then name \<in> set LISTABLE_SCOPES
      else name \<notin> set STORAGE_INTERNAL_ENTRY_NAMES)"

definition dir_path :: "string list \<Rightarrow> string" where
  "dir_path parent_parts = (if parent_parts = [] then ''/'' else ''/'' @ join ''/'' parent_parts)"

definition ancestor_is_filtered :: "string \<Rightarrow> string \<Rightarrow> bool" where
  "ancestor_is_filtered entry_path base_path =
     (let base_parts = segs (strip is_slash base_path);
          entry_parts = segs (strip is_slash entry_path)
      in list_ex (\<lambda>i. \<not> is_name_visible_at_path (entry_parts ! i) (dir_path (take i entry_parts)))
           [length base_parts ..< length entry_parts - 1])"

definition is_path_entry_visible ::
  "viking_fs \<Rightarrow> string \<Rightarrow> string \<Rightarrow> string \<Rightarrow> request_context \<Rightarrow> py_exc + bool" where
  "is_path_entry_visible fs entry_path name base_path ctx =
     (let entry_parts = segs (strip is_slash entry_path) in
      if ancestor_is_filtered entry_path base_path then Inr False
      else if entry_parts \<noteq> [] \<and> \<not> is_name_visible_at_path name (dir_path (butlast entry_parts)) then Inr False
      else if \<not> fs_acl_enabled fs ctx then
        ebind (path_to_uri fs entry_path (Some ctx)) (\<lambda>uri. fs_is_accessible uri ctx)
      else Inr True)"

definition glob_page_size :: "int option \<Rightarrow> int" where
  "glob_page_size node_limit = (case node_limit of
      None \<Rightarrow> 1024 | Some n \<Rightarrow> if n \<le> 0 then 1024 else n)"

section \<open>Operations on lists\<close>

datatype agfs_kind = AgfsFileNotFound | AgfsNotFound | AgfsHttp nat | AgfsOther

datatype agfs_exc = AgfsExc (agfs_kind: agfs_kind) (agfs_message: string)

record 'g agfs =
  ag_stat :: "'g \<Rightarrow> string \<Rightarrow> agfs_exc + unit"
  ag_acquire_tree :: "'g \<Rightarrow> string \<Rightarrow> 'g \<times> (agfs_exc + string)"
  ag_release :: "'g \<Rightarrow> string \<Rightarrow> 'g \<times> (agfs_exc + unit)"

definition raise_agfs :: "agfs_exc \<Rightarrow> py_exc" where
  "raise_agfs e = OtherError (agfs_message e)"

definition is_not_found_error :: "agfs_exc \<Rightarrow> bool" where
  "is_not_found_error e \<longleftrightarrow>
     agfs_kind e = AgfsFileNotFound \<or> agfs_kind e = AgfsNotFound \<or> agfs_kind e = AgfsHttp 404
     \<or> list_ex (\<lambda>marker. contains marker (map lower_char (agfs_message e)))
         [''not found'', ''no such file'', ''does not exist'']"

definition ensure_acl_manage ::
  "viking_fs \<Rightarrow> 's adapter \<Rightarrow> 's \<Rightarrow> string \<Rightarrow> request_context option \<Rightarrow> request_context aio" where
  "ensure_acl_manage fs ad s uri ctx =
     (if fs_acl_manager fs = None then Some (Inl RuntimeError)
      else let real_ctx = ctx_or_default fs ctx in
        rbind (Some (safe_uri_parts uri)) (\<lambda>_.
        rbind (Some (acl_ancestors uri)) (\<lambda>_.
        rbind (Some (has_implicit_manage real_ctx uri)) (\<lambda>implicit.
          if implicit then Some (Inr real_ctx)
          else rbind (resolve ad s uri real_ctx) (\<lambda>effective.
            rbind (if ea_enabled effective then Some (acl_allows effective real_ctx MANAGE) else Some (Inr False))
              (\<lambda>ok. Some (if ok then Inr real_ctx else Inl PermissionDeniedError)))))))"

definition ensure_acl_target_exists ::
  "viking_fs \<Rightarrow> (string \<Rightarrow> string) \<Rightarrow> 'g agfs \<Rightarrow> 'g \<Rightarrow> string \<Rightarrow> request_context \<Rightarrow> py_exc + unit" where
  "ensure_acl_target_exists fs sha ag g uri ctx =
     ebind (uri_to_path fs sha uri (Some ctx)) (\<lambda>path.
       case ag_stat ag g path of
         Inr _ \<Rightarrow> Inr ()
       | Inl e \<Rightarrow> Inl (if is_not_found_error e then NotFoundError else raise_agfs e))"

definition get_acl ::
  "viking_fs \<Rightarrow> (string \<Rightarrow> string) \<Rightarrow> 's adapter \<Rightarrow> 'g agfs \<Rightarrow> 's \<Rightarrow> 'g \<Rightarrow> string
    \<Rightarrow> request_context option \<Rightarrow> pydict aio" where
  "get_acl fs sha ad ag s g uri ctx =
     rbind (ensure_acl_manage fs ad s uri ctx) (\<lambda>real_ctx.
     rbind (Some (ensure_acl_target_exists fs sha ag g uri real_ctx)) (\<lambda>_.
     rbind (resolve ad s uri real_ctx) (\<lambda>effective. Some (to_report uri effective))))"

text \<open>\<open>lease = acquire(path); try: body finally: release(lease)\<close>.\<close>

definition with_tree_lock ::
  "'g agfs \<Rightarrow> 'g \<Rightarrow> 's \<Rightarrow> string \<Rightarrow> ('g \<Rightarrow> ('s \<times> (py_exc + 'a)) option) \<Rightarrow> ('g \<times> 's \<times> (py_exc + 'a)) option" where
  "with_tree_lock ag g s path body =
     (case ag_acquire_tree ag g path of
        (g1, Inl e) \<Rightarrow> Some (g1, s, Inl (raise_agfs e))
      | (g1, Inr lease) \<Rightarrow> (case body g1 of
          None \<Rightarrow> None
        | Some (s', r) \<Rightarrow> (case ag_release ag g1 lease of
            (g2, Inl e) \<Rightarrow> Some (g2, s', Inl (raise_agfs e))
          | (g2, Inr _) \<Rightarrow> Some (g2, s', r))))"

definition report_result ::
  "string \<Rightarrow> ('s \<times> (py_exc + effective_acl)) option \<Rightarrow> ('s \<times> (py_exc + pydict)) option" where
  "report_result uri r = map_option (\<lambda>(s', x). (s', ebind x (to_report uri))) r"

text \<open>The two checks repeated under the lock, then the change.\<close>

definition checked_change ::
  "viking_fs \<Rightarrow> (string \<Rightarrow> string) \<Rightarrow> 's adapter \<Rightarrow> 'g agfs \<Rightarrow> 's \<Rightarrow> 'g \<Rightarrow> string \<Rightarrow> request_context
    \<Rightarrow> ('s \<times> (py_exc + pydict)) option \<Rightarrow> ('s \<times> (py_exc + pydict)) option" where
  "checked_change fs sha ad ag s g uri real_ctx change =
     (case ensure_acl_manage fs ad s uri (Some real_ctx) of
        None \<Rightarrow> None
      | Some (Inl e) \<Rightarrow> Some (s, Inl e)
      | Some (Inr _) \<Rightarrow> (case ensure_acl_target_exists fs sha ag g uri real_ctx of
          Inl e \<Rightarrow> Some (s, Inl e)
        | Inr _ \<Rightarrow> change))"

definition set_acl ::
  "viking_fs \<Rightarrow> (string \<Rightarrow> string) \<Rightarrow> 's adapter \<Rightarrow> (nat \<Rightarrow> string) \<Rightarrow> 'g agfs \<Rightarrow> 's \<Rightarrow> 'g \<Rightarrow> string
    \<Rightarrow> raw_entry list \<Rightarrow> request_context option \<Rightarrow> ('g \<times> 's \<times> (py_exc + pydict)) option" where
  "set_acl fs sha ad uuids ag s g uri entries ctx =
     (case ensure_acl_manage fs ad s uri ctx of
        None \<Rightarrow> None
      | Some (Inl e) \<Rightarrow> Some (g, s, Inl e)
      | Some (Inr real_ctx) \<Rightarrow> (case uri_to_path fs sha uri (Some real_ctx) of
          Inl e \<Rightarrow> Some (g, s, Inl e)
        | Inr path \<Rightarrow> with_tree_lock ag g s path (\<lambda>g1.
            checked_change fs sha ad ag s g1 uri real_ctx
              (report_result uri (set_direct ad uuids s uri entries real_ctx)))))"

definition changed_entries :: "direct_acl \<Rightarrow> string \<Rightarrow> acl_level option \<Rightarrow> raw_entry list" where
  "changed_entries direct prin level =
     (let entries = fold (\<lambda>e d. dset d (ae_principal e) e) direct [];
          entries = (case level of
              None \<Rightarrow> dpop entries prin
            | Some l \<Rightarrow> dset entries prin \<lparr>ae_principal = prin, ae_level = l\<rparr>)
      in map (\<lambda>(k, e). EntryObj e) entries)"

definition update_acl_entry ::
  "viking_fs \<Rightarrow> (string \<Rightarrow> string) \<Rightarrow> 's adapter \<Rightarrow> (nat \<Rightarrow> string) \<Rightarrow> 'g agfs \<Rightarrow> 's \<Rightarrow> 'g \<Rightarrow> string
    \<Rightarrow> string \<Rightarrow> raw_level option \<Rightarrow> request_context option \<Rightarrow> ('g \<times> 's \<times> (py_exc + pydict)) option" where
  "update_acl_entry fs sha ad uuids ag s g uri prin level ctx =
     (case normalize_acl_principal (PStr prin) of
        Inl e \<Rightarrow> Some (g, s, Inl e)
      | Inr prin \<Rightarrow> (case (case level of None \<Rightarrow> Inr None | Some l \<Rightarrow> map_sum id Some (normalize_acl_level l)) of
          Inl e \<Rightarrow> Some (g, s, Inl e)
        | Inr normalized_level \<Rightarrow> (case ensure_acl_manage fs ad s uri ctx of
            None \<Rightarrow> None
          | Some (Inl e) \<Rightarrow> Some (g, s, Inl e)
          | Some (Inr real_ctx) \<Rightarrow> (case uri_to_path fs sha uri (Some real_ctx) of
              Inl e \<Rightarrow> Some (g, s, Inl e)
            | Inr path \<Rightarrow> with_tree_lock ag g s path (\<lambda>g1.
                checked_change fs sha ad ag s g1 uri real_ctx
                  (case get_direct ad s uri real_ctx of
                     None \<Rightarrow> None
                   | Some (Inl e) \<Rightarrow> Some (s, Inl e)
                   | Some (Inr direct) \<Rightarrow>
                       report_result uri (set_direct ad uuids s uri
                         (changed_entries direct prin normalized_level) real_ctx)))))))"

definition grant_acl ::
  "viking_fs \<Rightarrow> (string \<Rightarrow> string) \<Rightarrow> 's adapter \<Rightarrow> (nat \<Rightarrow> string) \<Rightarrow> 'g agfs \<Rightarrow> 's \<Rightarrow> 'g \<Rightarrow> string
    \<Rightarrow> string \<Rightarrow> raw_level \<Rightarrow> request_context option \<Rightarrow> ('g \<times> 's \<times> (py_exc + pydict)) option" where
  "grant_acl fs sha ad uuids ag s g uri prin level ctx =
     update_acl_entry fs sha ad uuids ag s g uri prin (Some level) ctx"

definition revoke_acl ::
  "viking_fs \<Rightarrow> (string \<Rightarrow> string) \<Rightarrow> 's adapter \<Rightarrow> (nat \<Rightarrow> string) \<Rightarrow> 'g agfs \<Rightarrow> 's \<Rightarrow> 'g \<Rightarrow> string
    \<Rightarrow> string \<Rightarrow> request_context option \<Rightarrow> ('g \<times> 's \<times> (py_exc + pydict)) option" where
  "revoke_acl fs sha ad uuids ag s g uri prin ctx =
     update_acl_entry fs sha ad uuids ag s g uri prin None ctx"

definition delete_acl ::
  "viking_fs \<Rightarrow> (string \<Rightarrow> string) \<Rightarrow> 's adapter \<Rightarrow> (nat \<Rightarrow> string) \<Rightarrow> 'g agfs \<Rightarrow> 's \<Rightarrow> 'g \<Rightarrow> string
    \<Rightarrow> request_context option \<Rightarrow> ('g \<times> 's \<times> (py_exc + pydict)) option" where
  "delete_acl fs sha ad uuids ag s g uri ctx = set_acl fs sha ad uuids ag s g uri [] ctx"

section \<open>What the gate guarantees\<close>

lemma safe_uri_parts_Inr:
  "safe_uri_parts uri = Inr ps \<longleftrightarrow> (\<exists>r. uri = VIKING @ r \<and> ps = segs r \<and> \<not> list_ex unsafe_part ps)"
  by (auto simp: safe_uri_parts_def plain_parts_def Let_def strip_segs startswith_iff)

lemma safe_parts_owner:
  assumes "safe_uri_parts uri = Inr (''user'' # owner # rest)" "CHR ''?'' \<notin> set owner"
  shows "uri_owner uri = Some owner"
proof -
  from assms(1) obtain r where "uri = VIKING @ r" "segs r = ''user'' # owner # rest"
    by (auto simp: safe_uri_parts_Inr)
  with segs_before_query [OF this(2)] assms(2) show ?thesis by (auto simp: uri_owner_Some)
qed

lemma owner_safe_parts:
  assumes "uri_owner uri = Some owner" "safe_uri_parts uri = Inr ps"
  shows "\<exists>b rest. ps = ''user'' # b # rest"
proof -
  from assms(2) obtain r where r: "uri = VIKING @ r" "ps = segs r" by (auto simp: safe_uri_parts_Inr)
  with assms(1) obtain rest where "segs (before CHR ''?'' r) = ''user'' # owner # rest"
    by (auto simp: uri_owner_Some)
  from segs_query_prefix [OF this] r show ?thesis by simp
qed

lemma fs_is_accessible_owner:
  assumes "rc_role ctx \<noteq> Role_ROOT" "fs_is_accessible uri ctx = Inr True" "uri_owner uri = Some owner"
  shows "owner = rc_user_id ctx"
proof -
  obtain ps where ps: "safe_uri_parts uri = Inr ps" using assms(2)
    by (auto simp: fs_is_accessible_def ebind_Inr)
  obtain b rest where "ps = ''user'' # b # rest" using owner_safe_parts [OF assms(3) ps] by blast
  with assms(1,2) ps have "is_accessible uri ctx = Inr True"
    by (auto simp: fs_is_accessible_def ebind_Inr split: if_splits)
  with assms show ?thesis by (intro is_accessible_owner)
qed

interpretation fs_gate: tenant_gate fs_is_accessible
  by unfold_locales (rule fs_is_accessible_owner)

lemma split_valid_True:
  "split_valid result valid uris = Inr (result', valid') \<Longrightarrow>
     (\<forall>u. dget result u \<noteq> Some True) \<Longrightarrow> dget result' u \<noteq> Some True"
  by (induction result valid uris rule: split_valid.induct) (auto split: sum.splits if_splits)

lemma dget_dset_True:
  "dget (dset r v b) u = Some True \<Longrightarrow> (u = v \<and> b) \<or> dget r u = Some True"
  by (auto split: if_splits)

lemma access_all_True:
  assumes "access_all result ctx uris = Inr result'" "dget result' u = Some True"
  shows "dget result u = Some True \<or> fs_is_accessible u ctx = Inr True"
  using assms(1)
proof (induction uris arbitrary: result)
  case (Cons uri uris)
  then obtain b where b: "fs_is_accessible uri ctx = Inr b"
    "access_all (dset result uri b) ctx uris = Inr result'" by (auto simp: ebind_Inr)
  from Cons.IH [OF b(2)] b(1) show ?case by (auto simp del: dget_dset dest!: dget_dset_True)
qed (use assms(2) in simp)

text \<open>One round of the loop: a decided URI enters the result, an undecided one the pending list.\<close>

lemma split_pending_Cons:
  assumes "split_pending result pending ctx (uri # uris) = Inr out"
  obtains (decided) b where "split_pending (dset result uri b) pending ctx uris = Inr out"
      "b \<Longrightarrow> fs_is_accessible uri ctx = Inr True \<or> is_acl_uri uri = Inr True"
  | (undecided) "split_pending result (pending @ [uri]) ctx uris = Inr out" "is_acl_uri uri = Inr True"
  using assms by (auto simp: ebind_Inr split: if_splits)

declare split_pending.simps(2) [simp del]

lemma split_pending_True:
  assumes "split_pending result pending ctx uris = Inr (result', pending')"
  shows "(dget result' u = Some True \<longrightarrow> dget result u = Some True
        \<or> fs_is_accessible u ctx = Inr True \<or> is_acl_uri u = Inr True)
     \<and> (u \<in> set pending' \<longrightarrow> u \<in> set pending \<or> is_acl_uri u = Inr True)"
  using assms
proof (induction uris arbitrary: result pending)
  case (Cons uri uris)
  from Cons.prems show ?case
  proof (cases rule: split_pending_Cons)
    case (decided b)
    from Cons.IH [OF decided(1)] decided(2) show ?thesis
      by (auto simp del: dget_dset dest!: dget_dset_True)
  next
    case undecided
    from Cons.IH [OF undecided(1)] undecided(2) show ?thesis by auto
  qed
qed simp

lemma decide_pending_True:
  assumes "decide_pending result eff ctx action uris = Inr result'" "dget result' u = Some True"
  shows "dget result u = Some True \<or> u \<in> set uris"
  using assms(1)
proof (induction uris arbitrary: result)
  case (Cons uri uris)
  then obtain b where "decide_pending (dset result uri b) eff ctx action uris = Inr result'"
    by (auto simp: ebind_Inr split: option.splits)
  from Cons.IH [OF this] show ?case by (auto simp del: dget_dset dest!: dget_dset_True)
qed (use assms(2) in simp)

text \<open>Whatever the gate opens is open by the namespace rules or is a shared resource.\<close>

lemma can_access_many_True:
  assumes "can_access_many fs ad s uris ctx action = Some (Inr access)" "dget access u = Some True"
  shows "fs_is_accessible u (ctx_or_default fs ctx) = Inr True \<or> is_acl_uri u = Inr True"
proof -
  let ?c = "ctx_or_default fs ctx"
  obtain r1 valid where v: "split_valid [] [] (uniq uris) = Inr (r1, valid)"
    using assms(1) by (cases "split_valid [] [] (uniq uris)") (auto simp: can_access_many_def)
  have r1: "dget r1 u \<noteq> Some True" by (rule split_valid_True [OF v]) simp
  show ?thesis
  proof (cases "fs_acl_enabled fs ?c")
    case False
    with assms(1) v have "access_all r1 ?c valid = Inr access" by (simp add: can_access_many_def)
    from access_all_True [OF this assms(2)] r1 show ?thesis by blast
  next
    case True
    obtain r2 pending where p: "split_pending r1 [] ?c valid = Inr (r2, pending)"
      using assms(1) True v by (cases "split_pending r1 [] ?c valid") (auto simp: can_access_many_def)
    obtain eff where "decide_pending r2 eff ?c action pending = Inr access"
      using assms(1) True v p
      by (cases "if pending = [] then Some (Inr []) else resolve_many ad s pending ?c")
         (auto simp: can_access_many_def Let_def rbind_def [of "if _ then _ else _"] split: sum.splits)
    from decide_pending_True [OF this assms(2)] split_pending_True [OF p, of u] r1 show ?thesis by auto
  qed
qed

lemma ensure_access_many_open:
  assumes "ensure_access_many fs ad s uris (Some ctx) action = Some (Inr ())" "uri \<in> set uris"
  shows "fs_is_accessible uri ctx = Inr True \<or> is_acl_uri uri = Inr True"
proof -
  obtain access where "can_access_many fs ad s uris (Some ctx) action = Some (Inr access)"
    "dget access uri = Some True"
    using assms by (auto simp: ensure_access_many_def ctx_or_default_def rbind_def list_ex_iff
        split: option.splits sum.splits if_splits)
  from can_access_many_True [OF this] show ?thesis by (simp add: ctx_or_default_def)
qed

text \<open>Property C4. Tenant isolation at the file system: if the gate lets a caller without the
  root role read, write or manage a URI that lies in the tree of user \<open>owner\<close>, then \<open>owner\<close> is
  the caller, with access-control lists switched on or off and whatever they contain.\<close>

theorem fs_gate_isolates_users:
  assumes "ensure_access_many fs ad s uris (Some ctx) action = Some (Inr ())" "uri \<in> set uris"
    and "rc_role ctx \<noteq> Role_ROOT"
    and "safe_uri_parts uri = Inr (''user'' # owner # rest)" "validate_user_id owner = None"
  shows "owner = rc_user_id ctx"
proof -
  have o: "uri_owner uri = Some owner"
    using assms(4) valid_user_id_safe [OF assms(5)] by (intro safe_parts_owner) auto
  then have "is_acl_uri uri \<noteq> Inr True" by (auto simp: is_acl_uri_def uri_owner_Some)
  with ensure_access_many_open [OF assms(1,2)] have "fs_is_accessible uri ctx = Inr True" by blast
  with assms(3) o show ?thesis by (intro fs_gate.gate_owner)
qed

definition fs_plain :: viking_fs where
  "fs_plain = \<lparr>fs_acl_manager = Some {''acme''}, fs_user_deletion_guard = None, fs_bound_ctx = None\<rparr>"

theorem fs_gate_isolates_users_witness:
  "ensure_access_many fs_plain memory_adapter sample_store [VIKING @ ''user/alice/memories''] (Some ctx_alice) WRITE
     = Some (Inr ()) \<and> ''alice'' = rc_user_id ctx_alice"
proof -
  have 1: "ensure_access_many fs_plain memory_adapter sample_store [VIKING @ ''user/alice/memories''] (Some ctx_alice) WRITE
     = Some (Inr ())" by code_simp
  have 2: "safe_uri_parts (VIKING @ ''user/alice/memories'') = Inr (''user'' # ''alice'' # [''memories''])" by code_simp
  have 3: "validate_user_id ''alice'' = None" "rc_role ctx_alice \<noteq> Role_ROOT" by code_simp+
  from fs_gate_isolates_users [OF 1 _ 3(2) 2 3(1)] 1 show ?thesis by simp
qed

section \<open>Paths stay inside the account\<close>

lemma utf8_len_append [simp]: "utf8_len (s @ t) = utf8_len s + utf8_len t"
  by (simp add: utf8_len_def)

lemma utf8_len_Cons [simp]: "utf8_len (c # s) = (if (of_char c :: nat) < 128 then 1 else 2) + utf8_len s"
  by (simp add: utf8_len_def)

lemma trim_bytes_ok: "utf8_len (trim_bytes n p) \<le> n \<and> set (trim_bytes n p) \<subseteq> set p"
proof (induction n p rule: trim_bytes.induct)
  case (1 n p)
  show ?case
  proof (cases "utf8_len p > n \<and> p \<noteq> []")
    case True
    with 1 [OF True] show ?thesis by (subst (1 2) trim_bytes.simps) (auto dest: in_set_butlastD)
  next
    case False
    then have "utf8_len p \<le> n" by (auto simp: utf8_len_def)
    with False show ?thesis by (subst (1 2) trim_bytes.simps) auto
  qed
qed

text \<open>What the code relies on of SHA-256: its digest is printed in hexadecimal.\<close>

definition hex_digest :: "(string \<Rightarrow> string) \<Rightarrow> bool" where
  "hex_digest sha \<longleftrightarrow> (\<forall>s. list_all is_hex_lower (sha s))"

lemma is_hex_lower_safe: "is_hex_lower c \<Longrightarrow> c \<noteq> CHR ''/'' \<and> (of_char c :: nat) < 128"
  by (auto simp: is_hex_lower_def is_ascii_digit_def less_eq_char_def)

lemma shorten_component_ok:
  assumes "hex_digest sha" "segment p" "p \<noteq> ''.''" "p \<noteq> ''..''"
  shows "segment (shorten_component sha p 255) \<and> utf8_len (shorten_component sha p 255) \<le> 255
    \<and> shorten_component sha p 255 \<notin> {''.'', ''..''}"
proof (cases "utf8_len p \<le> 255")
  case True
  with assms show ?thesis by (simp add: shorten_component_def)
next
  case False
  let ?h = "take 8 (sha p)" and ?n = "255 - utf8_len (''_'' @ take 8 (sha p))"
  have s: "shorten_component sha p 255 = trim_bytes ?n p @ ''_'' @ ?h"
    using False by (simp add: shorten_component_def Let_def)
  have hex: "c \<noteq> CHR ''/'' \<and> (of_char c :: nat) < 128" if "c \<in> set ?h" for c
    using assms(1) that is_hex_lower_safe by (auto simp: hex_digest_def list_all_iff dest: in_set_takeD)
  have "map (\<lambda>c. if (of_char c :: nat) < 128 then 1 else 2 :: nat) ?h = map (\<lambda>c. 1) ?h"
    using hex by (auto intro!: map_cong)
  then have "utf8_len ?h \<le> 8" by (simp add: utf8_len_def map_replicate_const sum_list_replicate)
  moreover have "CHR ''_'' \<in> set (shorten_component sha p 255)" by (simp add: s)
  then have "shorten_component sha p 255 \<notin> {''.'', ''..''}" by auto
  moreover have "CHR ''/'' \<notin> set (shorten_component sha p 255)"
    using assms(2) hex trim_bytes_ok [of ?n p] by (auto simp: s segment_def)
  ultimately show ?thesis using trim_bytes_ok [of ?n p] by (auto simp: s segment_def)
qed

lemma segs_path:
  assumes "segment a" "list_all segment ps"
  shows "segs (''/local/'' @ a) = [''local'', a]"
    and "segs (''/local/'' @ a @ ''/'' @ join ''/'' ps) = ''local'' # a # ps"
proof -
  have l: "segs (''local'' @ CHR ''/'' # x) = ''local'' # segs x" for x
    by (rule segs_word_slash) (simp add: segment_def)
  show "segs (''/local/'' @ a) = [''local'', a]"
    using l [of a] assms(1) by (simp add: segs_word)
  show "segs (''/local/'' @ a @ ''/'' @ join ''/'' ps) = ''local'' # a # ps"
    using l [of "a @ CHR ''/'' # join ''/'' ps"] assms by (simp add: segs_word_slash segs_join)
qed

lemma strip_slash_path:
  "segment a \<Longrightarrow> strip is_slash (a @ x) \<noteq> []"
  by (cases a) (auto simp: strip_Nil_iff segment_def)

text \<open>Property C16. The storage path of an accepted URI lies inside the tree of the caller's
  account: its segments are \<open>local\<close>, the account and then one bounded segment for each part of
  the URI, none of them \<open>.\<close> or \<open>..\<close>, so no URI reaches another account's files. When no part
  had to be shortened, translating the path back gives the canonical form of the URI.\<close>

theorem uri_to_path_confined:
  assumes "uri_to_path fs sha uri (Some ctx) = Inr path"
    and "validate_account_id (rc_account_id ctx) = None" "hex_digest sha"
  shows "\<exists>parts. safe_uri_parts uri = Inr parts
    \<and> segs path = ''local'' # rc_account_id ctx # map (\<lambda>p. shorten_component sha p 255) parts
    \<and> (\<forall>p \<in> set (segs path). segment p \<and> p \<notin> {''.'', ''..''})
    \<and> (\<forall>p \<in> set (drop 2 (segs path)). utf8_len p \<le> 255)
    \<and> ((\<forall>p \<in> set parts. utf8_len p \<le> 255) \<longrightarrow>
         path_to_uri fs path (Some ctx) = Inr (VIKING @ join ''/'' parts))"
proof -
  let ?a = "rc_account_id ctx"
  obtain parts where parts: "safe_uri_parts uri = Inr parts" using assms(1)
    by (auto simp: uri_to_path_def Let_def ebind_Inr)
  let ?qs = "map (\<lambda>p. shorten_component sha p 255) parts"
  have a: "segment ?a" "?a \<notin> {''.'', ''..''}"
    using assms(2) valid_part_safe by (auto simp: valid_account_id_iff)
  have safe: "segment p \<and> p \<noteq> ''.'' \<and> p \<noteq> ''..''" if "p \<in> set parts" for p
    using parts that segs_segment by (auto simp: safe_uri_parts_Inr list_ex_iff unsafe_part_def)
  have q: "segment p \<and> utf8_len p \<le> 255 \<and> p \<notin> {''.'', ''..''}" if "p \<in> set ?qs" for p
    using that safe shorten_component_ok [OF assms(3)] by auto
  then have qs: "list_all segment ?qs" by (auto simp: list_all_iff)
  have path: "path = (if parts = [] then ''/local/'' @ ?a else ''/local/'' @ ?a @ ''/'' @ join ''/'' ?qs)"
    using assms(1) parts by (auto simp: uri_to_path_def ctx_or_default_def path_under_account_def
        MAX_FILENAME_BYTES_def Let_def split: if_splits)
  have segs: "segs path = ''local'' # ?a # ?qs"
    using segs_path [OF a(1) qs] by (simp add: path)
  have bk: "path_to_uri fs path (Some ctx) = Inr (VIKING @ join ''/'' ?qs)"
  proof -
    let ?r = "if parts = [] then [] else ''/'' @ join ''/'' ?qs"
    have p: "path = ''/local/'' @ ?a @ ?r" by (simp add: path)
    have "segs (strip is_slash (?a @ ?r)) = ?a # ?qs"
      using a(1) qs by (simp add: strip_segs segs_word segs_word_slash segs_join)
    with strip_slash_path [OF a(1), of ?r] show ?thesis
      by (simp add: path_to_uri_def p startswith_def ctx_or_default_def Let_def)
  qed
  have "?qs = parts" if "\<forall>p \<in> set parts. utf8_len p \<le> 255"
    using that by (auto simp: shorten_component_def intro: map_idI)
  moreover have "segment ''local''" "''local'' \<notin> {''.'', ''..''}" by (simp_all add: segment_def)
  ultimately show ?thesis using parts segs bk q a by (intro exI [of _ parts]) auto
qed

definition zero_sha :: "string \<Rightarrow> string" where
  "zero_sha s = replicate 64 CHR ''0''"

theorem uri_to_path_confined_witness:
  "uri_to_path fs_plain zero_sha (VIKING @ ''resources/docs/a.md'') (Some ctx_alice)
     = Inr ''/local/acme/resources/docs/a.md''
   \<and> path_to_uri fs_plain ''/local/acme/resources/docs/a.md'' (Some ctx_alice)
     = Inr (VIKING @ ''resources/docs/a.md'')"
proof -
  have 1: "uri_to_path fs_plain zero_sha (VIKING @ ''resources/docs/a.md'') (Some ctx_alice)
     = Inr ''/local/acme/resources/docs/a.md''" by code_simp
  have 2: "validate_account_id (rc_account_id ctx_alice) = None" by code_simp
  have "is_hex_lower CHR ''0''" by code_simp
  then have 3: "hex_digest zero_sha" by (simp add: hex_digest_def zero_sha_def list_all_iff)
  have parts: "safe_uri_parts (VIKING @ ''resources/docs/a.md'') = Inr [''resources'', ''docs'', ''a.md'']"
    by code_simp
  have short: "\<forall>p \<in> set [''resources'', ''docs'', ''a.md'']. utf8_len p \<le> 255" by code_simp
  from uri_to_path_confined [OF 1 2 3] parts short 1 show ?thesis by auto
qed

section \<open>Writes and deletes\<close>

text \<open>Property. A delete that passes the gate never names a namespace root: below the role
  root the URI is neither the account root, nor \<open>viking://user\<close>, \<open>viking://agent\<close> or
  \<open>viking://resources\<close>, nor the root of a user; and whoever writes or deletes, the target is
  never a legacy session or an old agent tree.\<close>

theorem deletes_spare_namespace_roots:
  assumes "ensure_access_many fs ad s uris (Some ctx) action = Some (Inr ())" "uri \<in> set uris"
    and "action \<noteq> READ"
  shows "\<exists>parts. safe_uri_parts uri = Inr parts
    \<and> parts \<noteq> [''user''] \<and> take 1 parts \<noteq> [''session'']
    \<and> (take 1 parts = [''agent''] \<longrightarrow> (\<exists>p \<in> set AGENT_SHARED. take 2 parts = [''agent'', p]))
    \<and> (action = MANAGE \<longrightarrow> parts \<noteq> [] \<and>
        (rc_role ctx \<noteq> Role_ROOT \<longrightarrow> parts \<noteq> [''resources''] \<and> (\<forall>u. parts \<noteq> [''user'', u])))"
proof -
  obtain us where "emap (ensure_write_target ctx action) uris = Inr us"
    using assms(1,3) by (auto simp: ensure_access_many_def ctx_or_default_def rbind_def ebind_Inr
        split: option.splits sum.splits if_splits)
  then have "ensure_write_target ctx action uri = Inr ()"
    using assms(2) by (auto simp: emap_Inr list_all2_conv_all_nth in_set_conv_nth)
  then obtain parts where parts: "safe_uri_parts uri = Inr parts"
    and wr: "ensure_supported_write_namespace uri = Inr ()"
    and del: "action = MANAGE \<Longrightarrow> ensure_supported_delete_namespace uri = Inr ()
      \<and> (rc_role ctx = Role_ROOT \<or> parts \<noteq> [''resources'']
          \<and> \<not> (take 1 parts = [''user''] \<and> length parts = 2))"
    by (auto simp: ensure_write_target_def ebind_Inr split: if_splits)
  have p: "plain_parts uri = parts" using parts
    by (auto simp: safe_uri_parts_def Let_def split: if_splits)
  show ?thesis
  proof (intro exI conjI impI)
    show "safe_uri_parts uri = Inr parts" by (rule parts)
    show "parts \<noteq> [''user'']" "take 1 parts \<noteq> [''session'']"
      using wr by (cases parts; auto simp: ensure_supported_write_namespace_def p split: if_splits)+
    show "\<exists>p \<in> set AGENT_SHARED. take 2 parts = [''agent'', p]" if "take 1 parts = [''agent'']"
      using wr that
      by (cases parts; cases "tl parts") (auto simp: ensure_supported_write_namespace_def p Let_def split: if_splits)
    show "parts \<noteq> []" if "action = MANAGE"
      using del [OF that] by (auto simp: ensure_supported_delete_namespace_def p split: if_splits)
    show "parts \<noteq> [''resources'']" if "action = MANAGE" "rc_role ctx \<noteq> Role_ROOT"
      using del [OF that(1)] that(2) by auto
    show "\<forall>u. parts \<noteq> [''user'', u]" if "action = MANAGE" "rc_role ctx \<noteq> Role_ROOT"
      using del [OF that(1)] that(2) by auto
  qed
qed

theorem deletes_spare_namespace_roots_witness:
  "ensure_access_many fs_plain memory_adapter sample_store [VIKING @ ''user/alice/memories''] (Some ctx_alice) MANAGE
     = Some (Inr ())
   \<and> (\<forall>u. [''user'', ''alice'', ''memories''] \<noteq> [''user'', u])"
proof -
  have 1: "ensure_access_many fs_plain memory_adapter sample_store [VIKING @ ''user/alice/memories''] (Some ctx_alice) MANAGE
     = Some (Inr ())" by code_simp
  have "safe_uri_parts (VIKING @ ''user/alice/memories'') = Inr [''user'', ''alice'', ''memories'']"
    "rc_role ctx_alice \<noteq> Role_ROOT" by code_simp+
  with deletes_spare_namespace_roots [OF 1, of "VIKING @ ''user/alice/memories''"] 1 show ?thesis by auto
qed

section \<open>Changing lists needs the right to manage, and never leaks a lock\<close>

lemma ensure_acl_manage_Inr:
  assumes "ensure_acl_manage fs ad s uri ctx = Some (Inr real_ctx)"
  shows "real_ctx = ctx_or_default fs ctx \<and>
    (has_implicit_manage real_ctx uri = Inr True \<or>
     (\<exists>e. resolve ad s uri real_ctx = Some (Inr e) \<and> ea_enabled e \<and> acl_allows e real_ctx MANAGE = Inr True))"
  using assms
  by (auto simp: ensure_acl_manage_def Let_def rbind_def split: option.splits sum.splits if_splits)

lemma checked_change_state:
  "checked_change fs sha ad ag s g uri c change = Some (s', r) \<Longrightarrow> s' = s \<or> change = Some (s', r)"
  by (auto simp: checked_change_def split: option.splits sum.splits)

lemma with_tree_lock_outcome:
  assumes "with_tree_lock ag g s path body = Some (g', s', r)"
  shows "(\<exists>g1 e. ag_acquire_tree ag g path = (g1, Inl e) \<and> g' = g1 \<and> s' = s)
    \<or> (\<exists>g1 lease x. ag_acquire_tree ag g path = (g1, Inr lease) \<and> g' = fst (ag_release ag g1 lease)
        \<and> body g1 = Some (s', x))"
  using assms by (auto simp: with_tree_lock_def split: prod.splits sum.splits option.splits)

text \<open>Property C30. \<open>set_acl\<close> changes nothing unless the caller may manage the resource (an
  administrator of the account, or a holder of a manage grant on an enabled list), and on
  every way out, errors included, a lock it took has been released.\<close>

theorem set_acl_authorised_and_unlocked:
  assumes "set_acl fs sha ad uuids ag s g uri entries (Some ctx) = Some (g', s', r)"
  shows "(s' \<noteq> s \<longrightarrow> has_implicit_manage ctx uri = Inr True
      \<or> (\<exists>e. resolve ad s uri ctx = Some (Inr e) \<and> ea_enabled e \<and> acl_allows e ctx MANAGE = Inr True))
    \<and> (g' = g \<or> (\<exists>path g1. (\<exists>e. ag_acquire_tree ag g path = (g1, Inl e) \<and> g' = g1)
        \<or> (\<exists>lease. ag_acquire_tree ag g path = (g1, Inr lease) \<and> g' = fst (ag_release ag g1 lease))))"
proof (cases "\<exists>c. ensure_acl_manage fs ad s uri (Some ctx) = Some (Inr c)")
  case False
  with assms show ?thesis by (auto simp: set_acl_def split: option.splits sum.splits)
next
  case True
  then obtain c where c: "ensure_acl_manage fs ad s uri (Some ctx) = Some (Inr c)" by blast
  from ensure_acl_manage_Inr [OF c] have cc: "c = ctx" by (simp add: ctx_or_default_def)
  show ?thesis
  proof (cases "uri_to_path fs sha uri (Some c)")
    case (Inl e)
    with assms c show ?thesis by (simp add: set_acl_def)
  next
    case (Inr path)
    with assms c have l: "with_tree_lock ag g s path (\<lambda>g1. checked_change fs sha ad ag s g1 uri c
        (report_result uri (set_direct ad uuids s uri entries c))) = Some (g', s', r)"
      by (simp add: set_acl_def)
    from with_tree_lock_outcome [OF l] ensure_acl_manage_Inr [OF c] show ?thesis
      unfolding cc ctx_or_default_def by auto
  qed
qed

definition free_agfs :: "string list agfs" where
  "free_agfs = \<lparr>ag_stat = (\<lambda>g p. Inr ()), ag_acquire_tree = (\<lambda>g p. (p # g, Inr p)),
     ag_release = (\<lambda>g l. (remove1 l g, Inr ()))\<rparr>"

definition ctx_admin :: request_context where
  "ctx_admin = ctx_alice\<lparr>rc_role := ''admin''\<rparr>"

theorem set_acl_authorised_and_unlocked_witness:
  "\<exists>s' r. set_acl fs_plain zero_sha memory_adapter (\<lambda>n. ''u'') free_agfs sample_store [] (VIKING @ ''resources/docs'')
       [EntryObj \<lparr>ae_principal = ''user:eve'', ae_level = READ\<rparr>] (Some ctx_admin) = Some ([], s', Inr r)
     \<and> s' \<noteq> sample_store \<and> has_implicit_manage ctx_admin (VIKING @ ''resources/docs'') = Inr True"
proof -
  let ?run = "set_acl fs_plain zero_sha memory_adapter (\<lambda>n. ''u'') free_agfs sample_store [] (VIKING @ ''resources/docs'')
       [EntryObj \<lparr>ae_principal = ''user:eve'', ae_level = READ\<rparr>] (Some ctx_admin)"
  have "case ?run of Some (g, s', Inr r) \<Rightarrow> g = [] \<and> s' \<noteq> sample_store | _ \<Rightarrow> False" by code_simp
  then obtain s' r where run: "?run = Some ([], s', Inr r)" "s' \<noteq> sample_store"
    by (auto split: option.splits prod.splits sum.splits)
  have "acl_allows e ctx_admin MANAGE \<noteq> Inr True \<or> has_implicit_manage ctx_admin (VIKING @ ''resources/docs'') = Inr True" for e
    by (rule disjI2) code_simp
  with set_acl_authorised_and_unlocked [OF run(1)] run show ?thesis by auto
qed

end
