(* ===== verification/Model_Retry.thy ===== *)
theory Model_Retry
  imports Py_Prelude Complex_Main
begin

text \<open>
  Error classification, rate-limit detection, back-off and retry loops of
  \<open>openviking/utils/model_retry.py\<close>.

  An exception is an \<open>api_error\<close>: what \<open>isinstance\<close> tells about it, its text, the attributes
  read with \<open>getattr\<close>, and the exceptions it chains to. The two moderation patterns written in
  Chinese are outside the code points below 256 and match no text of the model. A regular
  expression is the list of remainders it can leave. Delays are real numbers; a random number
  is an argument between 0 and 1. The retried function is a parameter, a transformer of an
  arbitrary state.
\<close>

section \<open>Exceptions\<close>

datatype err_kind =
    KAllCredentialsFailed "string list"
  | KPermanentIO
  | KTimeout
  | KConnection
  | KRateLimit
  | KOther

datatype api_error = ApiError
  (err_kind: err_kind) (err_message: string) (err_attrs: "(string \<times> pyval) list")
  (err_cause: "api_error option") (err_context: "api_error option")

definition err_attr :: "api_error \<Rightarrow> string \<Rightarrow> pyval" where
  "err_attr e k = (case dget (err_attrs e) k of None \<Rightarrow> PNone | Some v \<Rightarrow> v)"

fun iter_exception_chain :: "api_error \<Rightarrow> api_error list" where
  "iter_exception_chain (ApiError k m a c x) =
     ApiError k m a c x #
     (case c of
        Some d \<Rightarrow> iter_exception_chain d
      | None \<Rightarrow> (case x of Some d \<Rightarrow> iter_exception_chain d | None \<Rightarrow> []))"

datatype error_class =
    ERROR_CLASS_PERMANENT
  | ERROR_CLASS_AUTH
  | ERROR_CLASS_CONTENT_SAFETY
  | ERROR_CLASS_INPUT_TOO_LARGE
  | ERROR_CLASS_QUOTA_EXCEEDED
  | ERROR_CLASS_TRANSIENT
  | ERROR_CLASS_UNKNOWN

primrec error_class_value :: "error_class \<Rightarrow> string" where
  "error_class_value ERROR_CLASS_PERMANENT = ''permanent''"
| "error_class_value ERROR_CLASS_AUTH = ''auth''"
| "error_class_value ERROR_CLASS_CONTENT_SAFETY = ''content_safety''"
| "error_class_value ERROR_CLASS_INPUT_TOO_LARGE = ''input_too_large''"
| "error_class_value ERROR_CLASS_QUOTA_EXCEEDED = ''quota_exceeded''"
| "error_class_value ERROR_CLASS_TRANSIENT = ''transient''"
| "error_class_value ERROR_CLASS_UNKNOWN = ''unknown''"

section \<open>Metric labels\<close>

definition metric_char :: "char \<Rightarrow> bool" where
  "metric_char c \<longleftrightarrow> is_ascii_alnum c \<or> c = CHR ''_'' \<or> c = CHR ''.'' \<or> c = CHR ''-''"

definition normalize_metric_error_code :: "pyval \<Rightarrow> string option" where
  "normalize_metric_error_code v =
     (case v of
        PInt i \<Rightarrow> if 100 \<le> i \<and> i \<le> 599 then Some (int_dec i) else None
      | PStr s \<Rightarrow>
          let code = strip is_space s in
          if code = [] \<or> length code > 64 then None
          else if list_all metric_char code then Some code else None
      | _ \<Rightarrow> None)"

definition pget :: "pyval \<Rightarrow> string \<Rightarrow> pyval" where
  "pget v k = (case v of PDict d \<Rightarrow> (case dget d k of None \<Rightarrow> PNone | Some w \<Rightarrow> w) | _ \<Rightarrow> PNone)"

definition is_dict :: "pyval \<Rightarrow> bool" where
  "is_dict v \<longleftrightarrow> (case v of PDict _ \<Rightarrow> True | _ \<Rightarrow> False)"

definition metric_candidates :: "api_error \<Rightarrow> pyval list" where
  "metric_candidates e =
     map (err_attr e) [''status_code'', ''error_code'', ''code'']
     @ (let body = err_attr e ''body'' in
        if is_dict body then
          map (pget body) [''status_code'', ''error_code'', ''code'']
          @ (let nested = pget body ''error'' in
             if is_dict nested then map (pget nested) [''status_code'', ''error_code'', ''code''] else [])
        else [])"

definition extract_metric_error_code :: "api_error \<Rightarrow> string" where
  "extract_metric_error_code e =
     (let chain = iter_exception_chain e in
      case List.map_filter normalize_metric_error_code (concat (map metric_candidates chain)) of
        code # _ \<Rightarrow> code
      | [] \<Rightarrow>
          if list_ex (\<lambda>x. err_kind x = KTimeout) chain then ''timeout''
          else if list_ex (\<lambda>x. err_kind x = KConnection) chain then ''connection_error''
          else ''unknown'')"

section \<open>Patterns\<close>

definition INPUT_TOO_LARGE_PATTERNS :: "string list" where
  "INPUT_TOO_LARGE_PATTERNS =
     [''413'', ''payload too large'', ''request entity too large'', ''content too large'',
      ''contextwindowexceeded'', ''context window exceeded'', ''maximum context length'',
      ''max input tokens'', ''too many input tokens'', ''input length exceeds'',
      ''exceeds the context length'', ''exceeds the max input length'', ''is too large to process'',
      ''expected maxlength'']"

definition PERMANENT_API_ERROR_PATTERNS :: "string list" where
  "PERMANENT_API_ERROR_PATTERNS = [''400'']"

definition AUTH_API_ERROR_PATTERNS :: "string list" where
  "AUTH_API_ERROR_PATTERNS = [''401'', ''403'', ''forbidden'', ''unauthorized'', ''accountoverdue'']"

definition CONTENT_SAFETY_PATTERNS :: "string list" where
  "CONTENT_SAFETY_PATTERNS =
     [''content policy'', ''content_filter'', ''contentfilter'', ''moderation'', ''sensitive content'']"

definition QUOTA_EXCEEDED_PATTERNS :: "string list" where
  "QUOTA_EXCEEDED_PATTERNS = [''quotaexceeded'', ''quota limit'', ''quota exceed'', ''usage quota'']"

definition TRANSIENT_API_ERROR_PATTERNS :: "string list" where
  "TRANSIENT_API_ERROR_PATTERNS =
     [''429'', ''500'', ''502'', ''503'', ''504'', ''toomanyrequests'', ''ratelimit'',
      ''requestbursttoofast'', ''timeout'', ''connectionerror'', ''connection refused'', ''connection reset'']"

definition RETRYABLE_RATE_LIMIT_MARKERS :: "string list" where
  "RETRYABLE_RATE_LIMIT_MARKERS =
     [''TooManyRequests'', ''RateLimitExceeded'', ''ModelAccountTpmRateLimitExceeded'',
      ''TPM (Tokens Per Minute) limit'', ''RPM (Requests Per Minute) limit'', ''rate limit'', ''rate_limit'']"

text \<open>Regular expressions as functions to the possible remainders.\<close>

definition rx_lit :: "string \<Rightarrow> string \<Rightarrow> string list" where
  "rx_lit p s = (if startswith s p then [drop (length p) s] else [])"

fun rx_spaces :: "string \<Rightarrow> string list" where
  "rx_spaces [] = [[]]"
| "rx_spaces (c # cs) = (c # cs) # (if is_space c then rx_spaces cs else [])"

definition rx_seq :: "(string \<Rightarrow> string list) \<Rightarrow> (string \<Rightarrow> string list) \<Rightarrow> string \<Rightarrow> string list" where
  "rx_seq f g s = concat (map g (f s))"

definition rx_opt :: "(string \<Rightarrow> string list) \<Rightarrow> string \<Rightarrow> string list" where
  "rx_opt f s = f s @ [s]"

text \<open>\<open>\w\<close> on code points below 256.\<close>

definition is_word_char :: "char \<Rightarrow> bool" where
  "is_word_char c \<longleftrightarrow> is_ascii_alnum c \<or> c = CHR ''_'' \<or>
     (let n = of_char c :: nat in n \<in> {170, 178, 179, 181, 185, 186, 188, 189, 190}
        \<or> (192 \<le> n \<and> n \<noteq> 215 \<and> n \<noteq> 247))"

definition rx_keyword :: "string \<Rightarrow> string list" where
  "rx_keyword s =
     rx_seq (rx_seq (rx_lit ''error'') rx_spaces) (rx_lit ''code'') s
     @ rx_seq (rx_lit ''status'') (rx_opt (rx_seq rx_spaces (rx_lit ''code''))) s
     @ rx_seq (rx_lit ''http'') (rx_opt (rx_seq rx_spaces (rx_lit ''status''))) s
     @ rx_lit ''code'' s"

definition rx_separator :: "string \<Rightarrow> string list" where
  "rx_separator =
     rx_seq (rx_seq rx_spaces (rx_opt (\<lambda>s. rx_lit '':'' s @ rx_lit ''='' s))) rx_spaces"

definition not_next :: "(char \<Rightarrow> bool) \<Rightarrow> string \<Rightarrow> bool" where
  "not_next P s \<longleftrightarrow> (case s of [] \<Rightarrow> True | c # _ \<Rightarrow> \<not> P c)"

text \<open>The pattern of a status code at one position: after a key word at a word boundary, or as a
  token of its own. \<open>prev\<close> is the character before the position.\<close>

definition status_here :: "string \<Rightarrow> char option \<Rightarrow> string \<Rightarrow> bool" where
  "status_here code prev s \<longleftrightarrow>
     ((prev = None \<or> \<not> is_word_char (the prev))
        \<and> list_ex (not_next is_word_char) (rx_seq (rx_seq rx_keyword rx_separator) (rx_lit code) s))
     \<or> ((prev = None \<or> \<not> (is_word_char (the prev) \<or> the prev = CHR ''-''))
        \<and> list_ex (not_next (\<lambda>c. is_word_char c \<or> c = CHR ''-'')) (rx_lit code s))"

fun numeric_search :: "string \<Rightarrow> char option \<Rightarrow> string \<Rightarrow> bool" where
  "numeric_search code prev [] = status_here code prev []"
| "numeric_search code prev (c # s) = (status_here code prev (c # s) \<or> numeric_search code (Some c) s)"

definition py_isdigit :: "string \<Rightarrow> bool" where
  "py_isdigit s \<longleftrightarrow> s \<noteq> [] \<and> list_all is_ascii_digit s"

definition pattern_matches :: "string \<Rightarrow> string \<Rightarrow> string \<Rightarrow> bool" where
  "pattern_matches text_lower text_compact pat =
     (if py_isdigit pat then numeric_search pat None text_lower \<or> numeric_search pat None text_compact
      else contains pat text_lower \<or> contains pat text_compact)"

section \<open>Classification\<close>

definition lower_str :: "string \<Rightarrow> string" where
  "lower_str s = map lower_char s"

definition any_pattern :: "string list \<Rightarrow> string list \<Rightarrow> bool" where
  "any_pattern pats texts =
     list_ex (\<lambda>text.
       let text_lower = lower_str text;
           text_compact = filter (\<lambda>c. c \<noteq> CHR '' '') text_lower
       in list_ex (pattern_matches text_lower text_compact) pats) texts"

definition classify_credentials :: "string list \<Rightarrow> error_class" where
  "classify_credentials classes0 =
     (let classes = filter (\<lambda>c. c \<noteq> []) classes0 in
      if ''transient'' \<in> set classes then ERROR_CLASS_TRANSIENT
      else if ''quota_exceeded'' \<in> set classes then ERROR_CLASS_QUOTA_EXCEEDED
      else if classes \<noteq> [] \<and> list_all (\<lambda>c. c = ''auth'') classes then ERROR_CLASS_AUTH
      else ERROR_CLASS_UNKNOWN)"

definition classify_texts :: "string list \<Rightarrow> error_class" where
  "classify_texts texts =
     (if any_pattern INPUT_TOO_LARGE_PATTERNS texts then ERROR_CLASS_INPUT_TOO_LARGE
      else if any_pattern CONTENT_SAFETY_PATTERNS texts then ERROR_CLASS_CONTENT_SAFETY
      else if any_pattern PERMANENT_API_ERROR_PATTERNS texts then ERROR_CLASS_PERMANENT
      else if any_pattern AUTH_API_ERROR_PATTERNS texts then ERROR_CLASS_AUTH
      else if list_ex (\<lambda>text. list_ex (\<lambda>p. contains p (lower_str text)) QUOTA_EXCEEDED_PATTERNS) texts
        then ERROR_CLASS_QUOTA_EXCEEDED
      else if any_pattern TRANSIENT_API_ERROR_PATTERNS texts then ERROR_CLASS_TRANSIENT
      else ERROR_CLASS_UNKNOWN)"

definition classify_api_error :: "api_error \<Rightarrow> error_class" where
  "classify_api_error e =
     (case err_kind e of
        KAllCredentialsFailed classes \<Rightarrow> classify_credentials classes
      | _ \<Rightarrow>
          if err_kind e = KPermanentIO \<or> (case err_cause e of Some c \<Rightarrow> err_kind c = KPermanentIO | None \<Rightarrow> False)
          then ERROR_CLASS_PERMANENT
          else classify_texts (err_message e # (case err_cause e of Some c \<Rightarrow> [err_message c] | None \<Rightarrow> [])))"

definition is_retryable_api_error :: "api_error \<Rightarrow> bool" where
  "is_retryable_api_error e \<longleftrightarrow> classify_api_error e = ERROR_CLASS_TRANSIENT"

section \<open>Rate limits\<close>

definition has_marker :: "pyval \<Rightarrow> bool" where
  "has_marker v =
     (case v of
        PStr s \<Rightarrow> list_ex (\<lambda>marker. contains (lower_str marker) (lower_str s)) RETRYABLE_RATE_LIMIT_MARKERS
      | _ \<Rightarrow> False)"

definition rate_limited_item :: "api_error \<Rightarrow> bool" where
  "rate_limited_item e \<longleftrightarrow>
     err_kind e = KRateLimit
     \<or> err_attr e ''status_code'' = PInt 429 \<or> py_str (err_attr e ''status_code'') = ''429''
     \<or> has_marker (err_attr e ''code'') \<or> has_marker (err_attr e ''type'')
     \<or> (let body = err_attr e ''body'' in is_dict body \<and>
          list_ex has_marker (map (pget body) [''code'', ''type'', ''message'']
            @ (if is_dict (pget body ''error'')
               then map (pget (pget body ''error'')) [''code'', ''type'', ''message''] else [])))"

definition structured_rate_limit_match :: "api_error \<Rightarrow> bool" where
  "structured_rate_limit_match e = list_ex rate_limited_item (iter_exception_chain e)"

text \<open>The last test searches the text itself, ignoring case.\<close>

definition is_retryable_rate_limit_error :: "api_error \<Rightarrow> bool" where
  "is_retryable_rate_limit_error e =
     (if structured_rate_limit_match e then True
      else let text = err_message e in
        if text = [] then False
        else list_ex (\<lambda>marker. contains (lower_str marker) (lower_str text)) RETRYABLE_RATE_LIMIT_MARKERS
             \<or> numeric_search ''429'' None (lower_str text))"

text \<open>\<open>random.uniform(a, b)\<close> with the random number \<open>u\<close> between 0 and 1.\<close>

definition uniform :: "real \<Rightarrow> real \<Rightarrow> real \<Rightarrow> real" where
  "uniform a b u = a + (b - a) * u"

definition rate_limit_retry_delay :: "int \<Rightarrow> real \<Rightarrow> real" where
  "rate_limit_retry_delay attempt u = min 120 (5 * 2 ^ nat (max 0 (attempt - 1))) * uniform (8 / 10) (12 / 10) u"

section \<open>Retry loops\<close>

definition compute_delay :: "nat \<Rightarrow> real \<Rightarrow> real \<Rightarrow> bool \<Rightarrow> real \<Rightarrow> real" where
  "compute_delay attempt base_delay max_delay jitter u =
     (let delay = min (base_delay * 2 ^ attempt) max_delay
      in if jitter then delay + uniform 0 (min base_delay delay) u else delay)"

record retry_cfg =
  max_retries :: int
  base_delay :: real
  max_delay :: real
  jitter :: bool

text \<open>The loop returns the state after the last call, the delays it slept and the outcome.
  \<open>rnd\<close> supplies the random numbers by attempt.\<close>

function retry_loop ::
  "('s \<Rightarrow> 's \<times> (api_error + 'a)) \<Rightarrow> (api_error \<Rightarrow> bool) \<Rightarrow> retry_cfg \<Rightarrow> (nat \<Rightarrow> real) \<Rightarrow> nat \<Rightarrow> 's
    \<Rightarrow> 's \<times> real list \<times> (api_error + 'a)" where
  "retry_loop f is_retryable cfg rnd attempt s =
     (case f s of
        (s', Inr v) \<Rightarrow> (s', [], Inr v)
      | (s', Inl e) \<Rightarrow>
          if max_retries cfg \<le> 0 \<or> int attempt \<ge> max_retries cfg \<or> \<not> is_retryable e then (s', [], Inl e)
          else
            let delay = compute_delay attempt (base_delay cfg) (max_delay cfg) (jitter cfg) (rnd attempt);
                (s'', delays, r) = retry_loop f is_retryable cfg rnd (Suc attempt) s'
            in (s'', delay # delays, r))"
  by pat_completeness auto
termination
  by (relation "measure (\<lambda>(f, r, cfg, rnd, attempt, s). nat (max_retries cfg - int attempt))") auto

declare retry_loop.simps [simp del]

definition retry_sync ::
  "('s \<Rightarrow> 's \<times> (api_error + 'a)) \<Rightarrow> (api_error \<Rightarrow> bool) \<Rightarrow> retry_cfg \<Rightarrow> (nat \<Rightarrow> real) \<Rightarrow> 's
    \<Rightarrow> 's \<times> real list \<times> (api_error + 'a)" where
  "retry_sync f is_retryable cfg rnd s = retry_loop f is_retryable cfg rnd 0 s"

definition retry_async ::
  "('s \<Rightarrow> 's \<times> (api_error + 'a)) \<Rightarrow> (api_error \<Rightarrow> bool) \<Rightarrow> retry_cfg \<Rightarrow> (nat \<Rightarrow> real) \<Rightarrow> 's
    \<Rightarrow> 's \<times> real list \<times> (api_error + 'a)" where
  "retry_async f is_retryable cfg rnd s = retry_loop f is_retryable cfg rnd 0 s"

section \<open>Metric labels are bounded\<close>

lemma nat_dec_3: "100 \<le> n \<Longrightarrow> n < 1000 \<Longrightarrow>
    nat_dec n = [dec_digit (n div 100), dec_digit (n div 10 mod 10), dec_digit (n mod 10)]"
  by (subst nat_dec.simps, subst nat_dec.simps, subst nat_dec.simps) (auto simp: div_mult2_eq [symmetric])

lemma dec_digit_metric: "d < 10 \<Longrightarrow> metric_char (dec_digit d)"
proof -
  have "metric_char (dec_digit 0)" "metric_char (dec_digit 1)" "metric_char (dec_digit 2)"
    "metric_char (dec_digit 3)" "metric_char (dec_digit 4)" "metric_char (dec_digit 5)"
    "metric_char (dec_digit 6)" "metric_char (dec_digit 7)" "metric_char (dec_digit 8)"
    "metric_char (dec_digit 9)" by code_simp+
  moreover assume "d < 10"
  then have "d \<in> {0, 1, 2, 3, 4, 5, 6, 7, 8, 9}" by auto
  ultimately show ?thesis by auto
qed

lemma status_digits:
  assumes "100 \<le> i" "i \<le> 599"
  shows "int_dec i \<noteq> [] \<and> length (int_dec i) \<le> 64 \<and> list_all metric_char (int_dec i)"
proof -
  have n: "int_dec i = nat_dec (nat i)" using assms by (simp add: int_dec_def)
  have "nat_dec (nat i) = [dec_digit (nat i div 100), dec_digit (nat i div 10 mod 10), dec_digit (nat i mod 10)]"
    using assms by (intro nat_dec_3) auto
  then show ?thesis using assms by (simp add: n dec_digit_metric)
qed

lemma normalize_metric_ok:
  "normalize_metric_error_code v = Some code \<Longrightarrow> code \<noteq> [] \<and> length code \<le> 64 \<and> list_all metric_char code"
  by (auto simp: normalize_metric_error_code_def Let_def status_digits split: pyval.splits if_splits)

text \<open>Property. Whatever exception chain a provider raises, the metric label taken from it is
  non-empty, at most 64 characters long and made of letters, digits, underscores, dots and
  hyphens only.\<close>

theorem metric_label_bounded:
  "extract_metric_error_code e \<noteq> [] \<and> length (extract_metric_error_code e) \<le> 64
     \<and> list_all metric_char (extract_metric_error_code e)"
proof -
  let ?cs = "List.map_filter normalize_metric_error_code (concat (map metric_candidates (iter_exception_chain e)))"
  have fixed: "list_all metric_char ''timeout''" "list_all metric_char ''connection_error''"
    "list_all metric_char ''unknown''" by code_simp+
  show ?thesis
  proof (cases ?cs)
    case Nil
    then show ?thesis using fixed by (simp add: extract_metric_error_code_def Let_def)
  next
    case (Cons code cs)
    then have "code \<in> set ?cs" by simp
    then obtain v where "normalize_metric_error_code v = Some code"
      by (auto simp: List.map_filter_def split: option.splits)
    with Cons show ?thesis using normalize_metric_ok by (simp add: extract_metric_error_code_def)
  qed
qed

section \<open>Status codes are whole tokens\<close>

lemma rx_lit_set: "r \<in> set (rx_lit p s) \<Longrightarrow> s = p @ r"
  by (auto simp: rx_lit_def startswith_iff split: if_splits)

lemma rx_spaces_set: "r \<in> set (rx_spaces s) \<Longrightarrow> \<exists>u. s = u @ r"
proof (induction s)
  case (Cons c s)
  show ?case
  proof (cases "r = c # s")
    case False
    with Cons obtain u where "s = u @ r" by (auto split: if_splits)
    then have "c # s = (c # u) @ r" by simp
    then show ?thesis by blast
  qed auto
qed simp

lemma rx_suffix:
  "(\<And>x r. r \<in> set (f x) \<Longrightarrow> \<exists>u. x = u @ r) \<Longrightarrow> (\<And>x r. r \<in> set (g x) \<Longrightarrow> \<exists>u. x = u @ r)
     \<Longrightarrow> r \<in> set (rx_seq f g s) \<Longrightarrow> \<exists>u. s = u @ r"
  unfolding rx_seq_def by (auto, metis append.assoc)

lemma rx_opt_suffix:
  "(\<And>x r. r \<in> set (f x) \<Longrightarrow> \<exists>u. x = u @ r) \<Longrightarrow> r \<in> set (rx_opt f s) \<Longrightarrow> \<exists>u. s = u @ r"
  by (auto simp: rx_opt_def)

lemma rx_lit_suffix: "r \<in> set (rx_lit p s) \<Longrightarrow> \<exists>u. s = u @ r"
  using rx_lit_set by blast

lemma rx_sep_suffix: "r \<in> set (rx_lit '':'' s @ rx_lit ''='' s) \<Longrightarrow> \<exists>u. s = u @ r"
  by (auto dest: rx_lit_suffix)

lemma rx_separator_suffix: "r \<in> set (rx_separator s) \<Longrightarrow> \<exists>u. s = u @ r"
  unfolding rx_separator_def
  by (erule rx_suffix [OF rx_suffix [OF rx_spaces_set rx_opt_suffix [OF rx_sep_suffix]] rx_spaces_set, rotated -1])

lemma rx_word_suffix:
  assumes "r \<in> set (rx_seq (rx_seq (rx_lit p) rx_spaces) (rx_lit q) s)"
  shows "\<exists>u. s = u @ r"
proof (rule rx_suffix [OF _ _ assms])
  fix x w assume "w \<in> set (rx_seq (rx_lit p) rx_spaces x)"
  then show "\<exists>u. x = u @ w" by (rule rx_suffix [rotated 2]) (rule rx_lit_suffix rx_spaces_set, assumption)+
qed (rule rx_lit_suffix)

lemma rx_opt_word_suffix:
  assumes "r \<in> set (rx_seq (rx_lit p) (rx_opt (rx_seq rx_spaces (rx_lit q))) s)"
  shows "\<exists>u. s = u @ r"
proof (rule rx_suffix [OF _ _ assms])
  fix x w assume "w \<in> set (rx_opt (rx_seq rx_spaces (rx_lit q)) x)"
  then show "\<exists>u. x = u @ w"
  proof (rule rx_opt_suffix [rotated])
    fix y v assume "v \<in> set (rx_seq rx_spaces (rx_lit q) y)"
    then show "\<exists>u. y = u @ v" by (rule rx_suffix [rotated 2]) (rule rx_lit_suffix rx_spaces_set, assumption)+
  qed
qed (rule rx_lit_suffix)

lemma rx_keyword_suffix: "r \<in> set (rx_keyword s) \<Longrightarrow> \<exists>u. s = u @ r"
  unfolding rx_keyword_def set_append Un_iff
  by (elim disjE rx_word_suffix rx_opt_word_suffix rx_lit_suffix)

lemma status_here_token:
  assumes "status_here code prev s"
  shows "\<exists>u v. s = u @ code @ v \<and> not_next is_word_char v"
proof -
  from assms consider v where "v \<in> set (rx_seq (rx_seq rx_keyword rx_separator) (rx_lit code) s)"
      "not_next is_word_char v"
    | v where "v \<in> set (rx_lit code s)" "not_next (\<lambda>c. is_word_char c \<or> c = CHR ''-'') v"
    by (auto simp: status_here_def list_ex_iff)
  then show ?thesis
  proof cases
    case (1 v)
    then obtain w where w: "w \<in> set (rx_seq rx_keyword rx_separator s)" "v \<in> set (rx_lit code w)"
      by (auto simp: rx_seq_def [of "rx_seq rx_keyword rx_separator"])
    from rx_suffix [OF rx_keyword_suffix rx_separator_suffix w(1)] obtain u where "s = u @ w" by blast
    with rx_lit_set [OF w(2)] 1 show ?thesis by auto
  next
    case (2 v)
    with rx_lit_set [of v code s] show ?thesis
      by (intro exI [of _ "[]"] exI [of _ v]) (auto simp: not_next_def split: list.splits)
  qed
qed

text \<open>Property. A numeric status pattern is found only where the digits end a token: the text
  has an occurrence of the code that is not followed by a letter, digit or underscore, so the
  digits at the start or in the middle of a longer number or identifier do not classify an
  error.\<close>

theorem numeric_search_token:
  assumes "numeric_search code prev s"
  shows "\<exists>u v. s = u @ code @ v \<and> not_next is_word_char v"
  using assms
proof (induction code prev s rule: numeric_search.induct)
  case (2 code prev c s)
  then show ?case
  proof (cases "status_here code prev (c # s)")
    case False
    with 2 obtain u v where "s = u @ code @ v" "not_next is_word_char v" by auto
    then show ?thesis by (intro exI [of _ "c # u"] exI [of _ v]) simp
  qed (rule status_here_token)
next
  case (1 code prev)
  then show ?case using status_here_token [of code prev "[]"] by simp
qed

theorem numeric_search_token_witness:
  "numeric_search ''413'' None ''error code: 413'' \<and> \<not> numeric_search ''413'' None ''req-4130f344''
   \<and> (\<exists>u v. ''error code: 413'' = u @ ''413'' @ v \<and> not_next is_word_char v)"
proof -
  have 1: "numeric_search ''413'' None ''error code: 413''" by code_simp
  have 2: "\<not> numeric_search ''413'' None ''req-4130f344''" by code_simp
  from numeric_search_token [OF 1] 1 2 show ?thesis by blast
qed

section \<open>Retry loops end\<close>

text \<open>The state before call \<open>k\<close> and its outcome.\<close>

definition state_before :: "('s \<Rightarrow> 's \<times> 'r) \<Rightarrow> nat \<Rightarrow> 's \<Rightarrow> 's" where
  "state_before f k s = ((\<lambda>x. fst (f x)) ^^ k) s"

definition outcome_of :: "('s \<Rightarrow> 's \<times> 'r) \<Rightarrow> nat \<Rightarrow> 's \<Rightarrow> 'r" where
  "outcome_of f k s = snd (f (state_before f k s))"

lemma state_before_Suc: "state_before f (Suc k) s = state_before f k (fst (f s))"
  by (simp add: state_before_def funpow_Suc_right del: funpow.simps)

lemma outcome_of_Suc: "outcome_of f (Suc k) s = outcome_of f k (fst (f s))"
  by (simp add: outcome_of_def state_before_Suc)

lemma compute_delay_bounds:
  assumes "0 \<le> b" "0 \<le> m" "0 \<le> u" "u \<le> 1"
  shows "0 \<le> compute_delay n b m j u \<and> compute_delay n b m j u \<le> m + min b m"
proof -
  let ?d = "min (b * 2 ^ n) m"
  have d: "0 \<le> ?d" "?d \<le> m" using assms by auto
  have "0 \<le> min b ?d * u" using assms d by (intro mult_nonneg_nonneg) auto
  moreover have "min b ?d * u \<le> min b ?d" using assms d by (intro mult_left_le) auto
  moreover have "min b ?d \<le> min b m" using d by auto
  moreover have "0 \<le> min b m" using assms by simp
  ultimately have "0 \<le> ?d + min b ?d * u" "?d + min b ?d * u \<le> m + min b m" "?d \<le> m + min b m"
    using d by linarith+
  with d(1) show ?thesis by (simp add: compute_delay_def uniform_def Let_def)
qed

text \<open>A run of the loop from attempt \<open>n\<close> that retries \<open>k\<close> times.\<close>

definition retry_run where
  "retry_run f ok cfg rnd n s k delays \<longleftrightarrow>
     retry_loop f ok cfg rnd n s = (state_before f (Suc k) s, delays, outcome_of f k s)
     \<and> length delays = k \<and> (k = 0 \<or> int (n + k) \<le> max_retries cfg)
     \<and> (\<forall>j < k. \<exists>e. outcome_of f j s = Inl e \<and> ok e)
     \<and> (\<forall>e. outcome_of f k s = Inl e \<longrightarrow> int (n + k) \<ge> max_retries cfg \<or> \<not> ok e)
     \<and> (\<forall>i < k. delays ! i = compute_delay (n + i) (base_delay cfg) (max_delay cfg) (jitter cfg) (rnd (n + i)))"

lemma retry_run_last:
  assumes "f s = (s', r)" "\<And>e. r = Inl e \<Longrightarrow> max_retries cfg \<le> 0 \<or> int n \<ge> max_retries cfg \<or> \<not> ok e"
  shows "retry_run f ok cfg rnd n s 0 []"
proof -
  have "retry_loop f ok cfg rnd n s = (s', [], r)"
    using assms(2) by (subst retry_loop.simps) (cases r; auto simp: assms(1))
  with assms show ?thesis by (auto simp: retry_run_def state_before_def outcome_of_def)
qed

lemma retry_run_Suc:
  assumes "f s = (s', Inl e)" "int n < max_retries cfg" "ok e"
    and run: "retry_run f ok cfg rnd (Suc n) s' k delays"
  shows "retry_run f ok cfg rnd n s (Suc k)
    (compute_delay n (base_delay cfg) (max_delay cfg) (jitter cfg) (rnd n) # delays)"
proof -
  have "retry_loop f ok cfg rnd n s = (state_before f (Suc k) s',
      compute_delay n (base_delay cfg) (max_delay cfg) (jitter cfg) (rnd n) # delays, outcome_of f k s')"
    using assms(1-3) run by (subst retry_loop.simps) (simp add: retry_run_def)
  moreover have "\<exists>x. outcome_of f 0 s = Inl x \<and> ok x"
    using assms(1,3) by (simp add: outcome_of_def state_before_def)
  ultimately show ?thesis
    using assms(1,2) run
    by (auto simp: retry_run_def All_less_Suc2 outcome_of_Suc state_before_Suc [of f "Suc k"])
qed

lemma retry_run_exists: "\<exists>k delays. retry_run f ok cfg rnd n s k delays"
proof (induction f ok cfg rnd n s rule: retry_loop.induct)
  case (1 f ok cfg rnd n s)
  obtain s' r where fs: "f s = (s', r)" by (cases "f s")
  show ?case
  proof (cases "\<exists>e. r = Inl e \<and> \<not> (max_retries cfg \<le> 0 \<or> max_retries cfg \<le> int n \<or> \<not> ok e)")
    case False
    then have "retry_run f ok cfg rnd n s 0 []" by (intro retry_run_last [of f s s' r, OF fs]) auto
    then show ?thesis by blast
  next
    case True
    then obtain e where e: "r = Inl e" "\<not> (max_retries cfg \<le> 0 \<or> max_retries cfg \<le> int n \<or> \<not> ok e)" by blast
    from 1 [OF fs [symmetric] e refl] obtain k delays where "retry_run f ok cfg rnd (Suc n) s' k delays" by blast
    with e have "retry_run f ok cfg rnd n s (Suc k)
        (compute_delay n (base_delay cfg) (max_delay cfg) (jitter cfg) (rnd n) # delays)"
      by (intro retry_run_Suc [of f s s' e, OF fs [unfolded e(1)]]) auto
    then show ?thesis by blast
  qed
qed

text \<open>Property. The retry loop always ends, after at most \<open>max_retries + 1\<close> calls: it stops at
  the first call that succeeds, fails with an error that is not retryable, or exhausts the
  retries, returns exactly the outcome of that call, and between calls sleeps a delay between 0
  and \<open>max_delay\<close> plus at most the base delay.\<close>

theorem retry_sync_ends:
  assumes "0 \<le> base_delay cfg" "0 \<le> max_delay cfg" "\<And>n. 0 \<le> rnd n \<and> rnd n \<le> 1"
  shows "\<exists>k delays. retry_sync f is_retryable cfg rnd s = (state_before f (Suc k) s, delays, outcome_of f k s)
    \<and> length delays = k \<and> int k \<le> max 0 (max_retries cfg)
    \<and> (\<forall>j < k. \<exists>e. outcome_of f j s = Inl e \<and> is_retryable e)
    \<and> (\<forall>e. outcome_of f k s = Inl e \<longrightarrow> int k \<ge> max_retries cfg \<or> \<not> is_retryable e)
    \<and> (\<forall>d \<in> set delays. 0 \<le> d \<and> d \<le> max_delay cfg + min (base_delay cfg) (max_delay cfg))"
proof -
  obtain k delays where k: "retry_run f is_retryable cfg rnd 0 s k delays"
    using retry_run_exists [of f is_retryable cfg rnd 0 s] by blast
  have "0 \<le> d \<and> d \<le> max_delay cfg + min (base_delay cfg) (max_delay cfg)" if "d \<in> set delays" for d
    using that k assms compute_delay_bounds [of "base_delay cfg" "max_delay cfg"]
    by (auto simp: in_set_conv_nth retry_run_def)
  with k show ?thesis
    by (intro exI [of _ k] exI [of _ delays]) (auto simp: retry_sync_def retry_run_def)
qed

definition sample_cfg :: retry_cfg where
  "sample_cfg = \<lparr>max_retries = 3, base_delay = 1 / 2, max_delay = 8, jitter = True\<rparr>"

text \<open>A call that fails twice with a time-out and then succeeds.\<close>

definition flaky :: "nat \<Rightarrow> nat \<times> (api_error + nat)" where
  "flaky n = (Suc n, if n < 2 then Inl (ApiError KTimeout ''timeout'' [] None None) else Inr n)"

theorem retry_sync_ends_witness:
  "snd (snd (retry_sync flaky is_retryable_api_error sample_cfg (\<lambda>n. 0) 0)) = Inr 2
   \<and> length (fst (snd (retry_sync flaky is_retryable_api_error sample_cfg (\<lambda>n. 0) 0))) = 2"
proof -
  have t: "is_retryable_api_error (ApiError KTimeout ''timeout'' [] None None)" by code_simp
  have sb: "state_before flaky k 0 = k" for k by (induction k) (simp_all add: state_before_def flaky_def)
  have out: "outcome_of flaky k 0 = (if k < 2 then Inl (ApiError KTimeout ''timeout'' [] None None) else Inr k)" for k
    by (simp add: outcome_of_def sb flaky_def)
  from retry_sync_ends [of sample_cfg "\<lambda>n. 0" flaky is_retryable_api_error 0]
  obtain k delays where k: "retry_sync flaky is_retryable_api_error sample_cfg (\<lambda>n. 0) 0
      = (state_before flaky (Suc k) 0, delays, outcome_of flaky k 0)" "length delays = k"
    "\<forall>j < k. \<exists>e. outcome_of flaky j 0 = Inl e \<and> is_retryable_api_error e"
    "\<forall>e. outcome_of flaky k 0 = Inl e \<longrightarrow> int k \<ge> max_retries sample_cfg \<or> \<not> is_retryable_api_error e"
    by (auto simp: sample_cfg_def)
  have "\<not> k < 2" using k(4) t by (auto simp: out sample_cfg_def)
  moreover have "\<not> 2 < k" using k(3) by (force simp: out)
  ultimately have "k = 2" by simp
  with k show ?thesis by (simp add: out)
qed

end
