(* ===== verification/Circuit_Breaker.thy ===== *)
theory Circuit_Breaker
  imports Model_Retry
begin

text \<open>
  The circuit breaker (\<open>openviking/utils/circuit_breaker.py\<close>) and the two credential
  switchers of \<open>openviking/utils/model_retry.py\<close>.

  Every method runs under the object's lock, so a method is one atomic step on a record; the
  monotonic clock is read at one instant \<open>now\<close> per step, a real number. Calls in any order are
  the step relations \<open>cb_step\<close> and \<open>ocs_step\<close>, both interpretations of \<open>step_system\<close>.
\<close>

section \<open>The breaker\<close>

datatype cb_state = STATE_CLOSED | STATE_OPEN | STATE_HALF_OPEN

record circuit_breaker =
  cb_failure_threshold :: int
  cb_base_reset_timeout :: real
  cb_max_reset_timeout :: real
  cb_current_reset_timeout :: real
  cb_state :: cb_state
  cb_failure_count :: int
  cb_last_failure_time :: real

definition CircuitBreaker :: "int \<Rightarrow> real \<Rightarrow> real option \<Rightarrow> circuit_breaker" where
  "CircuitBreaker failure_threshold reset_timeout max_reset_timeout =
     \<lparr>cb_failure_threshold = failure_threshold, cb_base_reset_timeout = reset_timeout,
      cb_max_reset_timeout = (case max_reset_timeout of None \<Rightarrow> reset_timeout | Some m \<Rightarrow> m),
      cb_current_reset_timeout = reset_timeout, cb_state = STATE_CLOSED, cb_failure_count = 0,
      cb_last_failure_time = 0\<rparr>"

definition cb_check :: "circuit_breaker \<Rightarrow> real \<Rightarrow> circuit_breaker \<times> (py_exc + unit)" where
  "cb_check cb now =
     (if cb_state cb = STATE_CLOSED then (cb, Inr ())
      else if cb_state cb = STATE_HALF_OPEN then (cb, Inr ())
      else let elapsed = now - cb_last_failure_time cb in
        if elapsed \<ge> cb_current_reset_timeout cb then (cb\<lparr>cb_state := STATE_HALF_OPEN\<rparr>, Inr ())
        else (cb, Inl CircuitBreakerOpen))"

definition cb_retry_after :: "circuit_breaker \<Rightarrow> real \<Rightarrow> real" where
  "cb_retry_after cb now =
     (if cb_state cb \<noteq> STATE_OPEN then 0
      else let remaining = cb_current_reset_timeout cb - (now - cb_last_failure_time cb)
           in min (max remaining 0) 30)"

definition cb_record_success :: "circuit_breaker \<Rightarrow> circuit_breaker" where
  "cb_record_success cb =
     cb\<lparr>cb_failure_count := 0, cb_state := STATE_CLOSED, cb_current_reset_timeout := cb_base_reset_timeout cb\<rparr>"

definition trips_immediately :: "error_class \<Rightarrow> bool" where
  "trips_immediately c \<longleftrightarrow> c \<in> {ERROR_CLASS_PERMANENT, ERROR_CLASS_AUTH, ERROR_CLASS_QUOTA_EXCEEDED}"

definition cb_record_failure :: "circuit_breaker \<Rightarrow> api_error \<Rightarrow> real \<Rightarrow> circuit_breaker" where
  "cb_record_failure cb0 err now =
     (let error_class = classify_api_error err in
      if error_class = ERROR_CLASS_INPUT_TOO_LARGE then cb0
      else
        let cb = cb0\<lparr>cb_failure_count := cb_failure_count cb0 + 1, cb_last_failure_time := now\<rparr> in
        if cb_state cb = STATE_HALF_OPEN then
          cb\<lparr>cb_state := STATE_OPEN,
             cb_current_reset_timeout := min (cb_current_reset_timeout cb * 2) (cb_max_reset_timeout cb)\<rparr>
        else if trips_immediately error_class then
          cb\<lparr>cb_state := STATE_OPEN, cb_current_reset_timeout := cb_base_reset_timeout cb\<rparr>
        else if cb_failure_count cb \<ge> cb_failure_threshold cb then
          cb\<lparr>cb_state := STATE_OPEN, cb_current_reset_timeout := cb_base_reset_timeout cb\<rparr>
        else cb)"

section \<open>Breaker runs\<close>

inductive cb_step :: "circuit_breaker \<Rightarrow> circuit_breaker \<Rightarrow> bool" where
  step_check: "cb_step cb (fst (cb_check cb now))"
| step_success: "cb_step cb (cb_record_success cb)"
| step_failure: "cb_step cb (cb_record_failure cb err now)"

inductive_cases cb_stepE: "cb_step cb cb'"

definition cb_init :: "int \<Rightarrow> real \<Rightarrow> real \<Rightarrow> circuit_breaker \<Rightarrow> bool" where
  "cb_init n base mx cb \<longleftrightarrow> (cb = CircuitBreaker n base (Some mx) \<or> (mx = base \<and> cb = CircuitBreaker n base None))"

text \<open>The invariant: the configuration never changes, a closed breaker is below its threshold,
  the timeout lies between the smaller of base and maximum and the larger of the two.\<close>

definition cb_inv :: "int \<Rightarrow> real \<Rightarrow> real \<Rightarrow> circuit_breaker \<Rightarrow> bool" where
  "cb_inv n base mx cb \<longleftrightarrow>
     cb_failure_threshold cb = n \<and> cb_base_reset_timeout cb = base \<and> cb_max_reset_timeout cb = mx
     \<and> 0 \<le> cb_failure_count cb
     \<and> (cb_state cb = STATE_CLOSED \<longrightarrow> cb_failure_count cb < n)
     \<and> min base mx \<le> cb_current_reset_timeout cb \<and> cb_current_reset_timeout cb \<le> max base mx"

lemma cb_inv_check: "cb_inv n base mx cb \<Longrightarrow> cb_inv n base mx (fst (cb_check cb now))"
  by (auto simp: cb_inv_def cb_check_def Let_def)

lemma cb_inv_success: "1 \<le> n \<Longrightarrow> cb_inv n base mx cb \<Longrightarrow> cb_inv n base mx (cb_record_success cb)"
  by (auto simp: cb_inv_def cb_record_success_def)

lemma double_timeout:
  fixes base mx t :: real
  assumes "0 \<le> base" "0 \<le> mx" "min base mx \<le> t" "t \<le> max base mx"
  shows "min base mx \<le> min (t * 2) mx \<and> min (t * 2) mx \<le> max base mx"
  using assms by (auto simp: min_def max_def)

lemma cb_inv_failure:
  assumes "0 \<le> base" "0 \<le> mx" "cb_inv n base mx cb"
  shows "cb_inv n base mx (cb_record_failure cb err now)"
proof -
  note d = double_timeout [OF assms(1,2), of "cb_current_reset_timeout cb"]
  from assms(3) d show ?thesis
    by (cases "cb_state cb") (auto simp: cb_inv_def cb_record_failure_def Let_def)
qed

text \<open>The configurations the interpretation covers: a positive threshold and timeouts that are
  not negative.\<close>

definition cb_cfg_ok :: "int \<times> real \<times> real \<Rightarrow> bool" where
  "cb_cfg_ok c \<longleftrightarrow> (case c of (n, base, mx) \<Rightarrow> 1 \<le> n \<and> 0 \<le> base \<and> 0 \<le> mx)"

interpretation cb_sys: step_system
  "\<lambda>cb. \<exists>n base mx. cb_cfg_ok (n, base, mx) \<and> cb_init n base mx cb"
  cb_step
  "\<lambda>cb. \<exists>n base mx. cb_cfg_ok (n, base, mx) \<and> cb_inv n base mx cb"
proof
  fix cb assume "\<exists>n base mx. cb_cfg_ok (n, base, mx) \<and> cb_init n base mx cb"
  then show "\<exists>n base mx. cb_cfg_ok (n, base, mx) \<and> cb_inv n base mx cb"
    by (fastforce simp: cb_init_def cb_inv_def CircuitBreaker_def cb_cfg_ok_def)
next
  fix cb cb' assume "\<exists>n base mx. cb_cfg_ok (n, base, mx) \<and> cb_inv n base mx cb" "cb_step cb cb'"
  then show "\<exists>n base mx. cb_cfg_ok (n, base, mx) \<and> cb_inv n base mx cb'"
    by (elim exE conjE cb_stepE)
       (force simp: cb_cfg_ok_def intro: cb_inv_check cb_inv_success cb_inv_failure)+
qed

text \<open>Property. In every state a breaker can reach by checks, successes and failures in any
  order, the waiting time lies between the smaller and the larger of the configured base and
  maximum, a closed breaker has seen fewer consecutive failures than the threshold, and
  \<open>retry_after\<close> is between 0 and 30 seconds and 0 unless the breaker is open.\<close>

theorem breaker_reachable_bounds:
  assumes "reach (\<lambda>cb. \<exists>n base mx. cb_cfg_ok (n, base, mx) \<and> cb_init n base mx cb) cb_step cb"
  shows "min (cb_base_reset_timeout cb) (cb_max_reset_timeout cb) \<le> cb_current_reset_timeout cb
    \<and> cb_current_reset_timeout cb \<le> max (cb_base_reset_timeout cb) (cb_max_reset_timeout cb)
    \<and> (cb_state cb = STATE_CLOSED \<longrightarrow> cb_failure_count cb < cb_failure_threshold cb)
    \<and> 0 \<le> cb_retry_after cb now \<and> cb_retry_after cb now \<le> 30
    \<and> (cb_state cb \<noteq> STATE_OPEN \<longrightarrow> cb_retry_after cb now = 0)"
proof -
  from cb_sys.reach_inv [OF assms] obtain n base mx where "cb_inv n base mx cb" by blast
  then show ?thesis by (auto simp: cb_inv_def cb_retry_after_def Let_def)
qed

definition timeout_error :: api_error where
  "timeout_error = ApiError KTimeout ''timeout'' [] None None"

theorem breaker_reachable_bounds_witness:
  "cb_retry_after (cb_record_failure (CircuitBreaker 1 300 None) timeout_error 1000) 1010 \<le> 30
   \<and> cb_state (cb_record_failure (CircuitBreaker 1 300 None) timeout_error 1000) = STATE_OPEN"
proof -
  let ?init = "\<lambda>cb. \<exists>n base mx. cb_cfg_ok (n, base, mx) \<and> cb_init n base mx cb"
  have "?init (CircuitBreaker 1 300 None)"
    by (intro exI [of _ 1] exI [of _ 300]) (simp add: cb_cfg_ok_def cb_init_def)
  then have "reach ?init cb_step (CircuitBreaker 1 300 None)" by (rule reach_init)
  then have "reach ?init cb_step (cb_record_failure (CircuitBreaker 1 300 None) timeout_error 1000)"
    by (rule reach_step) (rule step_failure)
  note b = breaker_reachable_bounds [OF this]
  have "classify_api_error timeout_error = ERROR_CLASS_TRANSIENT" by code_simp
  then have "cb_state (cb_record_failure (CircuitBreaker 1 300 None) timeout_error 1000) = STATE_OPEN"
    by (simp add: cb_record_failure_def CircuitBreaker_def trips_immediately_def)
  with b show ?thesis by simp
qed

section \<open>Tripping and recovery\<close>

fun cb_failures :: "circuit_breaker \<Rightarrow> (api_error \<times> real) list \<Rightarrow> circuit_breaker" where
  "cb_failures cb [] = cb"
| "cb_failures cb ((err, now) # es) = cb_failures (cb_record_failure cb err now) es"

definition counted_error :: "api_error \<Rightarrow> bool" where
  "counted_error e \<longleftrightarrow> classify_api_error e \<noteq> ERROR_CLASS_INPUT_TOO_LARGE
     \<and> \<not> trips_immediately (classify_api_error e)"

lemma failures_below_threshold:
  assumes "cb_state cb = STATE_CLOSED" "list_all (\<lambda>(e, t). counted_error e) es"
    and "cb_failure_count cb + int (length es) < cb_failure_threshold cb"
  shows "cb_state (cb_failures cb es) = STATE_CLOSED
    \<and> cb_failure_count (cb_failures cb es) = cb_failure_count cb + int (length es)
    \<and> cb_failure_threshold (cb_failures cb es) = cb_failure_threshold cb
    \<and> cb_base_reset_timeout (cb_failures cb es) = cb_base_reset_timeout cb"
  using assms
proof (induction es arbitrary: cb)
  case (Cons et es)
  obtain e t where et: "et = (e, t)" by (cases et)
  let ?cb = "cb_record_failure cb e t"
  have c: "counted_error e" using Cons.prems(2) by (simp add: et)
  have "?cb = cb\<lparr>cb_failure_count := cb_failure_count cb + 1, cb_last_failure_time := t\<rparr>"
    using c Cons.prems(1,3) by (auto simp: cb_record_failure_def counted_error_def Let_def)
  with Cons.IH [of ?cb] Cons.prems show ?case by (simp add: et)
qed simp

text \<open>Property. From a fresh breaker, errors that are neither request-specific nor immediate
  keep it closed up to one less than the threshold; the next one opens it. While it is open
  every check before the timeout is refused without changing the state, and the first check
  after the timeout is let through.\<close>

theorem breaker_trips_at_threshold:
  assumes "list_all (\<lambda>(e, t). counted_error e) es" "counted_error err"
    and "int (length es) + 1 = n" "0 \<le> base"
  shows "cb_state (cb_failures (CircuitBreaker n base mx) es) = STATE_CLOSED
    \<and> (let cb = cb_record_failure (cb_failures (CircuitBreaker n base mx) es) err t0 in
        cb_state cb = STATE_OPEN
        \<and> (\<forall>t. t - t0 < base \<longrightarrow> cb_check cb t = (cb, Inl CircuitBreakerOpen))
        \<and> (\<forall>t. t - t0 \<ge> base \<longrightarrow> cb_check cb t = (cb\<lparr>cb_state := STATE_HALF_OPEN\<rparr>, Inr ())))"
proof -
  have init: "cb_state (CircuitBreaker n base mx) = STATE_CLOSED" "cb_failure_count (CircuitBreaker n base mx) = 0"
    "cb_failure_threshold (CircuitBreaker n base mx) = n" "cb_base_reset_timeout (CircuitBreaker n base mx) = base"
    by (simp_all add: CircuitBreaker_def)
  note f = failures_below_threshold [OF init(1) assms(1)]
  with init assms(3) have closed: "cb_state (cb_failures (CircuitBreaker n base mx) es) = STATE_CLOSED"
    "cb_failure_count (cb_failures (CircuitBreaker n base mx) es) = int (length es)"
    "cb_failure_threshold (cb_failures (CircuitBreaker n base mx) es) = n"
    "cb_base_reset_timeout (cb_failures (CircuitBreaker n base mx) es) = base" by simp_all
  with assms(2,3) show ?thesis
    by (auto simp: cb_record_failure_def counted_error_def cb_check_def Let_def)
qed

theorem breaker_trips_at_threshold_witness:
  "cb_state (cb_failures (CircuitBreaker 2 300 None) [(timeout_error, 5)]) = STATE_CLOSED
   \<and> cb_state (cb_record_failure (cb_failures (CircuitBreaker 2 300 None) [(timeout_error, 5)]) timeout_error 6) = STATE_OPEN"
proof -
  have "counted_error timeout_error" by code_simp
  with breaker_trips_at_threshold [of "[(timeout_error, 5)]" timeout_error 2 300 None 6] show ?thesis
    by (simp add: Let_def)
qed

fun cb_checks :: "circuit_breaker \<Rightarrow> real list \<Rightarrow> circuit_breaker \<times> (py_exc + unit) list" where
  "cb_checks cb [] = (cb, [])"
| "cb_checks cb (t # ts) =
     (case cb_check cb t of (cb', r) \<Rightarrow> (case cb_checks cb' ts of (cb'', rs) \<Rightarrow> (cb'', r # rs)))"

text \<open>Property. Once the timeout of an open breaker has passed, every following check is let
  through until a call reports its outcome: the half-open state does not limit the number of
  probe requests to one.\<close>

theorem half_open_admits_every_probe:
  assumes "cb_state cb = STATE_OPEN" "t - cb_last_failure_time cb \<ge> cb_current_reset_timeout cb"
  shows "snd (cb_checks cb (t # ts)) = replicate (Suc (length ts)) (Inr ())"
proof -
  have "cb_checks cb' ts = (cb', replicate (length ts) (Inr ()))" if "cb_state cb' = STATE_HALF_OPEN" for cb'
    using that by (induction ts) (simp_all add: cb_check_def)
  with assms show ?thesis by (simp add: cb_check_def)
qed

theorem half_open_admits_every_probe_witness:
  "snd (cb_checks (cb_record_failure (CircuitBreaker 1 300 None) timeout_error 0) [300, 301, 302])
     = [Inr (), Inr (), Inr ()]"
proof -
  let ?cb = "cb_record_failure (CircuitBreaker 1 300 None) timeout_error 0"
  have "classify_api_error timeout_error = ERROR_CLASS_TRANSIENT" by code_simp
  then have "cb_state ?cb = STATE_OPEN" "cb_last_failure_time ?cb = 0" "cb_current_reset_timeout ?cb = 300"
    by (simp_all add: cb_record_failure_def CircuitBreaker_def trips_immediately_def)
  with half_open_admits_every_probe [of ?cb 300 "[301, 302]"] show ?thesis by (simp add: numeral_eq_Suc)
qed

section \<open>Primary and backup\<close>

record primary_backup =
  pb_failback_timeout :: real
  pb_failback_request_count :: int
  pb_using_backup :: bool
  pb_switch_to_backup_time :: real
  pb_backup_request_count :: int

definition PrimaryBackupSwitcher :: "real \<Rightarrow> int \<Rightarrow> primary_backup" where
  "PrimaryBackupSwitcher timeout count =
     \<lparr>pb_failback_timeout = timeout, pb_failback_request_count = count, pb_using_backup = False,
      pb_switch_to_backup_time = 0, pb_backup_request_count = 0\<rparr>"

definition pb_should_try_primary :: "primary_backup \<Rightarrow> real \<Rightarrow> bool" where
  "pb_should_try_primary pb now =
     (if \<not> pb_using_backup pb then True
      else if now - pb_switch_to_backup_time pb \<ge> pb_failback_timeout pb then True
      else if pb_backup_request_count pb \<ge> pb_failback_request_count pb then True
      else False)"

definition pb_record_primary_success :: "primary_backup \<Rightarrow> primary_backup" where
  "pb_record_primary_success pb =
     (if pb_using_backup pb then pb\<lparr>pb_using_backup := False, pb_backup_request_count := 0\<rparr> else pb)"

definition pb_record_primary_failure :: "primary_backup \<Rightarrow> api_error \<Rightarrow> real \<Rightarrow> primary_backup \<times> bool" where
  "pb_record_primary_failure pb err now =
     (if trips_immediately (classify_api_error err)
      then (pb\<lparr>pb_using_backup := True, pb_switch_to_backup_time := now, pb_backup_request_count := 0\<rparr>, True)
      else (pb, False))"

definition pb_record_backup_request :: "primary_backup \<Rightarrow> primary_backup" where
  "pb_record_backup_request pb =
     (if pb_using_backup pb then pb\<lparr>pb_backup_request_count := pb_backup_request_count pb + 1\<rparr> else pb)"

lemma backup_requests:
  "pb_using_backup pb \<Longrightarrow>
     (pb_record_backup_request ^^ k) pb = pb\<lparr>pb_backup_request_count := pb_backup_request_count pb + int k\<rparr>"
  by (induction k) (auto simp: pb_record_backup_request_def)

text \<open>Property. A failure that switches to the backup starts a full failback period: the
  primary is tried again exactly when the timeout has passed since that failure or the
  configured number of requests went to the backup, and a success of the primary then ends the
  backup mode with the counter cleared.\<close>

theorem failback_after_timeout_or_requests:
  assumes "trips_immediately (classify_api_error err)"
  shows "let pb' = (pb_record_backup_request ^^ k) (fst (pb_record_primary_failure pb err t0)) in
    pb_using_backup pb'
    \<and> (pb_should_try_primary pb' now \<longleftrightarrow>
        now - t0 \<ge> pb_failback_timeout pb \<or> int k \<ge> pb_failback_request_count pb)
    \<and> \<not> pb_using_backup (pb_record_primary_success pb')
    \<and> pb_backup_request_count (pb_record_primary_success pb') = 0"
proof -
  let ?p = "fst (pb_record_primary_failure pb err t0)"
  have "?p = pb\<lparr>pb_using_backup := True, pb_switch_to_backup_time := t0, pb_backup_request_count := 0\<rparr>"
    using assms by (simp add: pb_record_primary_failure_def)
  then have "(pb_record_backup_request ^^ k) ?p
      = pb\<lparr>pb_using_backup := True, pb_switch_to_backup_time := t0, pb_backup_request_count := int k\<rparr>"
    by (simp add: backup_requests)
  then show ?thesis by (simp add: pb_should_try_primary_def pb_record_primary_success_def)
qed

definition auth_error :: api_error where
  "auth_error = ApiError KOther ''Error code: 401 - invalid key'' [] None None"

theorem failback_after_timeout_or_requests_witness:
  "pb_using_backup (fst (pb_record_primary_failure (PrimaryBackupSwitcher 600 200) auth_error 10))
   \<and> \<not> pb_should_try_primary (fst (pb_record_primary_failure (PrimaryBackupSwitcher 600 200) auth_error 10)) 609
   \<and> pb_should_try_primary (fst (pb_record_primary_failure (PrimaryBackupSwitcher 600 200) auth_error 10)) 610"
proof -
  have t: "trips_immediately (classify_api_error auth_error)" by code_simp
  from failback_after_timeout_or_requests [OF t, of 0 "PrimaryBackupSwitcher 600 200" 10 609]
    failback_after_timeout_or_requests [OF t, of 0 "PrimaryBackupSwitcher 600 200" 10 610]
  show ?thesis by (simp add: Let_def PrimaryBackupSwitcher_def)
qed

section \<open>Ordered credentials\<close>

record ordered_switcher =
  os_n :: int
  os_failback_timeout :: real
  os_failback_request_count :: int
  os_active_idx :: int
  os_last_switch_time :: real
  os_active_request_count :: int

definition OrderedCredentialSwitcher :: "int \<Rightarrow> real \<Rightarrow> int \<Rightarrow> py_exc + ordered_switcher" where
  "OrderedCredentialSwitcher n timeout count =
     (if n < 1 then Inl ValueError
      else Inr \<lparr>os_n = n, os_failback_timeout = timeout, os_failback_request_count = count,
             os_active_idx = 0, os_last_switch_time = 0, os_active_request_count = 0\<rparr>)"

definition os_maybe_failback :: "ordered_switcher \<Rightarrow> real \<Rightarrow> ordered_switcher \<times> int" where
  "os_maybe_failback s now =
     (let s' = (if os_active_idx s > 0 \<and>
           (now - os_last_switch_time s \<ge> os_failback_timeout s
            \<or> os_active_request_count s \<ge> os_failback_request_count s)
         then s\<lparr>os_active_idx := os_active_idx s - 1, os_last_switch_time := now, os_active_request_count := 0\<rparr>
         else s)
      in (s', os_active_idx s'))"

definition os_get_active_index :: "ordered_switcher \<Rightarrow> int" where
  "os_get_active_index s = os_active_idx s"

definition os_on_success :: "ordered_switcher \<Rightarrow> int \<Rightarrow> ordered_switcher" where
  "os_on_success s idx =
     (if idx = os_active_idx s \<and> os_active_idx s > 0
      then s\<lparr>os_active_request_count := os_active_request_count s + 1\<rparr> else s)"

definition is_fail_fast :: "error_class \<Rightarrow> bool" where
  "is_fail_fast c \<longleftrightarrow>
     c \<in> {ERROR_CLASS_PERMANENT, ERROR_CLASS_INPUT_TOO_LARGE, ERROR_CLASS_CONTENT_SAFETY}"

definition os_commit_success :: "ordered_switcher \<Rightarrow> int \<Rightarrow> real \<Rightarrow> ordered_switcher" where
  "os_commit_success s idx now =
     (if idx = os_active_idx s then
        (if os_active_idx s > 0 then s\<lparr>os_active_request_count := os_active_request_count s + 1\<rparr> else s)
      else s\<lparr>os_active_idx := idx, os_last_switch_time := now, os_active_request_count := 0\<rparr>)"

text \<open>Callers commit the index of a credential they tried, between 0 and \<open>n - 1\<close>.\<close>

inductive ocs_step :: "ordered_switcher \<Rightarrow> ordered_switcher \<Rightarrow> bool" where
  os_failback: "ocs_step s (fst (os_maybe_failback s now))"
| os_success: "ocs_step s (os_on_success s idx)"
| os_commit: "0 \<le> idx \<Longrightarrow> idx < os_n s \<Longrightarrow> ocs_step s (os_commit_success s idx now)"

inductive_cases ocs_stepE: "ocs_step s s'"

definition ocs_inv :: "ordered_switcher \<Rightarrow> bool" where
  "ocs_inv s \<longleftrightarrow> 0 \<le> os_active_idx s \<and> os_active_idx s < os_n s \<and> 0 \<le> os_active_request_count s
     \<and> (os_active_idx s = 0 \<longrightarrow> os_active_request_count s = 0)"

interpretation ocs_sys: step_system
  "\<lambda>s. \<exists>n timeout count. OrderedCredentialSwitcher n timeout count = Inr s" ocs_step ocs_inv
proof
  fix s assume "\<exists>n timeout count. OrderedCredentialSwitcher n timeout count = Inr s"
  then show "ocs_inv s" by (auto simp: OrderedCredentialSwitcher_def ocs_inv_def split: if_splits)
next
  fix s t assume "ocs_inv s" "ocs_step s t"
  then show "ocs_inv t"
    by (elim ocs_stepE) (auto simp: ocs_inv_def os_maybe_failback_def os_on_success_def os_commit_success_def Let_def)
qed

text \<open>Property. The active index of an ordered switcher always names a credential: in every
  reachable state it is between 0 and \<open>n - 1\<close>, so the documented exhausted value \<open>n\<close> never
  occurs. A failback moves it by at most one step towards index 0, only when the timeout or the
  request count is reached, and starts a new period.\<close>

theorem active_index_in_range:
  assumes "reach (\<lambda>s. \<exists>n timeout count. OrderedCredentialSwitcher n timeout count = Inr s) ocs_step s"
  shows "0 \<le> os_get_active_index s \<and> os_get_active_index s < os_n s
    \<and> (case os_maybe_failback s now of (s', i) \<Rightarrow>
        i = os_get_active_index s' \<and> 0 \<le> i
        \<and> (s' = s \<or> i = os_get_active_index s - 1 \<and> os_active_request_count s' = 0 \<and> os_last_switch_time s' = now
            \<and> (now - os_last_switch_time s \<ge> os_failback_timeout s
               \<or> os_active_request_count s \<ge> os_failback_request_count s)))"
proof -
  have "ocs_inv s" using ocs_sys.reach_inv [OF assms] .
  then show ?thesis by (auto simp: ocs_inv_def os_get_active_index_def os_maybe_failback_def Let_def)
qed

definition switcher3 :: ordered_switcher where
  "switcher3 = \<lparr>os_n = 3, os_failback_timeout = 600, os_failback_request_count = 50,
     os_active_idx = 0, os_last_switch_time = 0, os_active_request_count = 0\<rparr>"

theorem active_index_in_range_witness:
  "os_get_active_index (os_commit_success switcher3 2 10) = 2
   \<and> snd (os_maybe_failback (os_commit_success switcher3 2 10) 610) = 1
   \<and> os_get_active_index (os_commit_success switcher3 2 10) < os_n (os_commit_success switcher3 2 10)"
proof -
  have "OrderedCredentialSwitcher 3 600 50 = Inr switcher3"
    by (simp add: OrderedCredentialSwitcher_def switcher3_def)
  then have "reach (\<lambda>s. \<exists>n timeout count. OrderedCredentialSwitcher n timeout count = Inr s) ocs_step switcher3"
    by (intro reach_init) blast
  then have "reach (\<lambda>s. \<exists>n timeout count. OrderedCredentialSwitcher n timeout count = Inr s) ocs_step
      (os_commit_success switcher3 2 10)"
    by (rule reach_step) (rule os_commit, simp_all add: switcher3_def)
  from active_index_in_range [OF this] show ?thesis
    by (simp add: os_commit_success_def switcher3_def os_get_active_index_def os_maybe_failback_def)
qed

end
