(* ===== verification/Task_Store.thy ===== *)
theory Task_Store
  imports Py_Prelude
begin

text \<open>
  Task records and their persistence: \<open>TaskStatus\<close> and \<open>TaskRecord\<close> of
  \<open>openviking/service/task_tracker.py\<close>, and the stores of
  \<open>openviking/service/task_store.py\<close>.

  A time stamp is an integer number of ticks of \<open>2 ^ -22\<close> seconds. For seconds since the epoch
  between 2004 and 2038 this is exactly the spacing of Python's floats, so
  \<open>math.nextafter(t, inf)\<close> is one tick more. The protocol \<open>TaskStore\<close> is the record
  \<open>task_store\<close> of operations over a state \<open>'s\<close>; \<open>persistent_store\<close> implements it over a file
  client, the parameter \<open>file_client\<close>. A file holds a JSON document: \<open>json.dumps\<close> followed by
  \<open>json.loads\<close> gives the document back.
\<close>

section \<open>Records\<close>

datatype task_status = PENDING | RUNNING | CANCELLING | COMPLETED | FAILED | CANCELLED

primrec status_value :: "task_status \<Rightarrow> string" where
  "status_value PENDING = ''pending''"
| "status_value RUNNING = ''running''"
| "status_value CANCELLING = ''cancelling''"
| "status_value COMPLETED = ''completed''"
| "status_value FAILED = ''failed''"
| "status_value CANCELLED = ''cancelled''"

definition status_of_value :: "string \<Rightarrow> task_status option" where
  "status_of_value v =
     (if v = ''pending'' then Some PENDING else if v = ''running'' then Some RUNNING
      else if v = ''cancelling'' then Some CANCELLING else if v = ''completed'' then Some COMPLETED
      else if v = ''failed'' then Some FAILED else if v = ''cancelled'' then Some CANCELLED else None)"

definition terminal_status :: "task_status \<Rightarrow> bool" where
  "terminal_status s \<longleftrightarrow> s \<in> {COMPLETED, FAILED, CANCELLED}"

definition active_status :: "task_status \<Rightarrow> bool" where
  "active_status s \<longleftrightarrow> s \<in> {PENDING, RUNNING, CANCELLING}"

record task_record =
  t_task_id :: string
  t_task_type :: string
  t_status :: task_status
  t_created_at :: int
  t_updated_at :: int
  t_resource_id :: "string option"
  t_account_id :: "string option"
  t_user_id :: "string option"
  t_meta :: pydict
  t_stage :: "string option"
  t_result :: "pydict option"
  t_error :: "string option"
  t_auth :: pydict

section \<open>Payloads\<close>

definition opt_str :: "string option \<Rightarrow> pyval" where
  "opt_str s = (case s of None \<Rightarrow> PNone | Some x \<Rightarrow> PStr x)"

definition task_to_payload :: "task_record \<Rightarrow> pydict" where
  "task_to_payload t =
     [(''task_id'', PStr (t_task_id t)), (''task_type'', PStr (t_task_type t)),
      (''status'', PStr (status_value (t_status t))),
      (''created_at'', PInt (t_created_at t)), (''updated_at'', PInt (t_updated_at t)),
      (''resource_id'', opt_str (t_resource_id t)), (''account_id'', opt_str (t_account_id t)),
      (''user_id'', opt_str (t_user_id t)), (''meta'', PDict (t_meta t)),
      (''stage'', opt_str (t_stage t)),
      (''result'', case t_result t of None \<Rightarrow> PNone | Some r \<Rightarrow> PDict r),
      (''error'', opt_str (t_error t)), (''auth'', PDict (t_auth t))]"

definition TASK_FIELDS :: "string list" where
  "TASK_FIELDS = [''task_id'', ''task_type'', ''status'', ''created_at'', ''updated_at'', ''resource_id'',
     ''account_id'', ''user_id'', ''meta'', ''stage'', ''result'', ''error'', ''auth'']"

text \<open>Reading a field with its default; a value of another type than the one written is outside
  the model and reads as a type error.\<close>

definition field_str :: "pydict \<Rightarrow> string \<Rightarrow> py_exc + string" where
  "field_str d k = (case dget d k of Some (PStr s) \<Rightarrow> Inr s | _ \<Rightarrow> Inl TypeError)"

definition field_opt :: "pydict \<Rightarrow> string \<Rightarrow> py_exc + string option" where
  "field_opt d k = (case dget d k of None \<Rightarrow> Inr None | Some PNone \<Rightarrow> Inr None
     | Some (PStr s) \<Rightarrow> Inr (Some s) | _ \<Rightarrow> Inl TypeError)"

definition field_time :: "pydict \<Rightarrow> int \<Rightarrow> string \<Rightarrow> py_exc + int" where
  "field_time d now k = (case dget d k of None \<Rightarrow> Inr now | Some (PInt i) \<Rightarrow> Inr i | _ \<Rightarrow> Inl TypeError)"

definition field_dict :: "pydict \<Rightarrow> string \<Rightarrow> py_exc + pydict" where
  "field_dict d k = (case dget d k of None \<Rightarrow> Inr [] | Some (PDict x) \<Rightarrow> Inr x | _ \<Rightarrow> Inl TypeError)"

definition field_opt_dict :: "pydict \<Rightarrow> string \<Rightarrow> py_exc + pydict option" where
  "field_opt_dict d k = (case dget d k of None \<Rightarrow> Inr None | Some PNone \<Rightarrow> Inr None
     | Some (PDict x) \<Rightarrow> Inr (Some x) | _ \<Rightarrow> Inl TypeError)"

definition field_status :: "pydict \<Rightarrow> py_exc + task_status" where
  "field_status d = (case dget d ''status'' of
      None \<Rightarrow> Inl KeyError
    | Some (PStr v) \<Rightarrow> (case status_of_value v of None \<Rightarrow> Inl ValueError | Some s \<Rightarrow> Inr s)
    | Some _ \<Rightarrow> Inl ValueError)"

definition record_from_payload :: "int \<Rightarrow> pydict \<Rightarrow> py_exc + task_record" where
  "record_from_payload now payload =
     ebind (field_status payload) (\<lambda>status.
     if \<not> list_all (\<lambda>k. k \<in> set TASK_FIELDS) (dkeys payload) then Inl TypeError else
     ebind (field_str payload ''task_id'') (\<lambda>task_id.
     ebind (field_str payload ''task_type'') (\<lambda>task_type.
     ebind (field_time payload now ''created_at'') (\<lambda>created_at.
     ebind (field_time payload now ''updated_at'') (\<lambda>updated_at.
     ebind (field_opt payload ''resource_id'') (\<lambda>resource_id.
     ebind (field_opt payload ''account_id'') (\<lambda>account_id.
     ebind (field_opt payload ''user_id'') (\<lambda>user_id.
     ebind (field_dict payload ''meta'') (\<lambda>meta.
     ebind (field_opt payload ''stage'') (\<lambda>stage.
     ebind (field_opt_dict payload ''result'') (\<lambda>result.
     ebind (field_opt payload ''error'') (\<lambda>err.
     ebind (field_dict payload ''auth'') (\<lambda>auth.
       Inr \<lparr>t_task_id = task_id, t_task_type = task_type, t_status = status, t_created_at = created_at,
            t_updated_at = updated_at, t_resource_id = resource_id, t_account_id = account_id,
            t_user_id = user_id, t_meta = meta, t_stage = stage, t_result = result, t_error = err,
            t_auth = auth\<rparr>)))))))))))))"

lemma status_roundtrip [simp]: "status_of_value (status_value s) = Some s"
  by (cases s) (simp_all add: status_of_value_def)

lemma record_roundtrip: "record_from_payload now (task_to_payload t) = Inr t"
  by (cases t) (simp add: record_from_payload_def task_to_payload_def field_status_def field_str_def
      field_opt_def field_time_def field_dict_def field_opt_dict_def opt_str_def TASK_FIELDS_def
      dkeys_def split: option.splits)

section \<open>The store protocol\<close>

record 's task_store =
  ts_create :: "'s \<Rightarrow> task_record \<Rightarrow> 's \<times> (py_exc + unit)"
  ts_update :: "'s \<Rightarrow> task_record \<Rightarrow> 's \<times> (py_exc + unit)"
  ts_get :: "'s \<Rightarrow> string \<Rightarrow> string option \<Rightarrow> string option \<Rightarrow> py_exc + pydict option"
  ts_list :: "'s \<Rightarrow> string \<Rightarrow> string option \<Rightarrow> py_exc + pydict list"
  ts_delete :: "'s \<Rightarrow> string \<Rightarrow> string \<Rightarrow> string option \<Rightarrow> 's \<times> (py_exc + unit)"

section \<open>The persistent store\<close>

datatype file_exc = FileMissing | FileExists | FileError string

record 'f file_client =
  fc_read :: "'f \<Rightarrow> string \<Rightarrow> file_exc + pyval"
  fc_ls :: "'f \<Rightarrow> string \<Rightarrow> file_exc + pydict list"
  fc_rm_force :: "'f \<Rightarrow> string \<Rightarrow> 'f \<times> (file_exc + unit)"
  fc_write :: "'f \<Rightarrow> string \<Rightarrow> pyval \<Rightarrow> 'f \<times> (file_exc + unit)"
  fc_mkdir :: "'f \<Rightarrow> string \<Rightarrow> 'f \<times> (file_exc + unit)"

definition raise_file :: "file_exc \<Rightarrow> py_exc" where
  "raise_file e = (case e of FileMissing \<Rightarrow> NotFoundError | FileExists \<Rightarrow> IOError | FileError m \<Rightarrow> OtherError m)"

definition SYSTEM_TASK_ACCOUNT_ID :: string where
  "SYSTEM_TASK_ACCOUNT_ID = ''_system''"

definition account_dir :: "string \<Rightarrow> string" where
  "account_dir account_id = ''/local/'' @ account_id"

definition system_dir :: "string \<Rightarrow> string" where
  "system_dir account_id =
     (if account_id = SYSTEM_TASK_ACCOUNT_ID then account_dir account_id
      else account_dir account_id @ ''/_system'')"

definition task_root_dir :: "string \<Rightarrow> string" where
  "task_root_dir account_id = system_dir account_id @ ''/tasks''"

definition task_dir :: "string \<Rightarrow> string \<Rightarrow> string" where
  "task_dir account_id user_id = task_root_dir account_id @ ''/'' @ user_id"

definition task_path :: "string \<Rightarrow> string \<Rightarrow> string \<Rightarrow> string" where
  "task_path account_id user_id task_id = task_dir account_id user_id @ ''/'' @ task_id @ ''.json''"

definition nonempty :: "string option \<Rightarrow> bool" where
  "nonempty s \<longleftrightarrow> s \<noteq> None \<and> s \<noteq> Some []"

definition mkdir_if_missing :: "'f file_client \<Rightarrow> 'f \<Rightarrow> string \<Rightarrow> 'f \<times> (py_exc + unit)" where
  "mkdir_if_missing fc f path =
     (case fc_mkdir fc f path of
        (f', Inr _) \<Rightarrow> (f', Inr ())
      | (f', Inl FileExists) \<Rightarrow> (f', Inr ())
      | (f', Inl e) \<Rightarrow>
          (case e of FileError m \<Rightarrow>
             if contains ''already exists'' (map lower_char m) then (f', Inr ()) else (f', Inl (raise_file e))
           | _ \<Rightarrow> (f', Inl (raise_file e))))"

fun mkdirs :: "'f file_client \<Rightarrow> 'f \<Rightarrow> string list \<Rightarrow> 'f \<times> (py_exc + unit)" where
  "mkdirs fc f [] = (f, Inr ())"
| "mkdirs fc f (p # ps) =
     (case mkdir_if_missing fc f p of (f', Inl e) \<Rightarrow> (f', Inl e) | (f', Inr _) \<Rightarrow> mkdirs fc f' ps)"

definition ensure_task_dir :: "'f file_client \<Rightarrow> 'f \<Rightarrow> string \<Rightarrow> string \<Rightarrow> 'f \<times> (py_exc + unit)" where
  "ensure_task_dir fc f account_id user_id =
     mkdirs fc f [account_dir account_id, system_dir account_id, task_root_dir account_id,
       task_dir account_id user_id]"

definition write_task :: "'f file_client \<Rightarrow> 'f \<Rightarrow> task_record \<Rightarrow> 'f \<times> (py_exc + unit)" where
  "write_task fc f t =
     (if \<not> nonempty (t_account_id t) \<or> \<not> nonempty (t_user_id t) then (f, Inl ValueError)
      else case ensure_task_dir fc f (the (t_account_id t)) (the (t_user_id t)) of
          (f1, Inl e) \<Rightarrow> (f1, Inl e)
        | (f1, Inr _) \<Rightarrow>
            (case fc_write fc f1 (task_path (the (t_account_id t)) (the (t_user_id t)) (t_task_id t))
                (PDict (task_to_payload t)) of
               (f2, Inl e) \<Rightarrow> (f2, Inl (raise_file e))
             | (f2, Inr _) \<Rightarrow> (f2, Inr ())))"

text \<open>A document that is not a dictionary is passed on by the code and fails in
  \<open>_record_from_payload\<close>, with a type error.\<close>

definition document :: "pyval \<Rightarrow> py_exc + pydict" where
  "document v = (case v of PDict d \<Rightarrow> Inr d | _ \<Rightarrow> Inl TypeError)"

definition store_get ::
  "'f file_client \<Rightarrow> 'f \<Rightarrow> string \<Rightarrow> string option \<Rightarrow> string option \<Rightarrow> py_exc + pydict option" where
  "store_get fc f task_id account_id user_id =
     (if \<not> nonempty account_id \<or> \<not> nonempty user_id then Inr None
      else case fc_read fc f (task_path (the account_id) (the user_id) task_id) of
          Inl FileMissing \<Rightarrow> Inr None
        | Inl e \<Rightarrow> Inl (raise_file e)
        | Inr raw \<Rightarrow> map_sum id Some (document raw))"

definition item_path :: "string \<Rightarrow> pydict \<Rightarrow> string" where
  "item_path directory item =
     (case dget item ''path'' of
        Some v \<Rightarrow> if truthy v then py_str v
                 else directory @ ''/'' @ (case dget item ''name'' of None \<Rightarrow> [] | Some n \<Rightarrow> py_str n)
      | None \<Rightarrow> directory @ ''/'' @ (case dget item ''name'' of None \<Rightarrow> [] | Some n \<Rightarrow> py_str n))"

fun read_items :: "'f file_client \<Rightarrow> 'f \<Rightarrow> string \<Rightarrow> pydict list \<Rightarrow> py_exc + pydict list" where
  "read_items fc f directory [] = Inr []"
| "read_items fc f directory (item # items) =
     (let path = item_path directory item in
      if \<not> endswith path ''.json'' then read_items fc f directory items
      else case fc_read fc f path of
          Inl FileMissing \<Rightarrow> read_items fc f directory items
        | Inl e \<Rightarrow> Inl (raise_file e)
        | Inr raw \<Rightarrow> ebind (document raw) (\<lambda>d. map_sum id (\<lambda>ds. d # ds) (read_items fc f directory items)))"

definition store_list :: "'f file_client \<Rightarrow> 'f \<Rightarrow> string \<Rightarrow> string option \<Rightarrow> py_exc + pydict list" where
  "store_list fc f account_id user_id =
     (if \<not> nonempty user_id then Inr []
      else let directory = task_dir account_id (the user_id) in
        case fc_ls fc f directory of
          Inl FileMissing \<Rightarrow> Inr []
        | Inl e \<Rightarrow> Inl (raise_file e)
        | Inr items \<Rightarrow> read_items fc f directory items)"

definition store_delete ::
  "'f file_client \<Rightarrow> 'f \<Rightarrow> string \<Rightarrow> string \<Rightarrow> string option \<Rightarrow> 'f \<times> (py_exc + unit)" where
  "store_delete fc f task_id account_id user_id =
     (if \<not> nonempty user_id then (f, Inr ())
      else case fc_rm_force fc f (task_path account_id (the user_id) task_id) of
          (f', Inl e) \<Rightarrow> (f', Inl (raise_file e))
        | (f', Inr _) \<Rightarrow> (f', Inr ()))"

definition persistent_store :: "'f file_client \<Rightarrow> 'f task_store" where
  "persistent_store fc =
     \<lparr>ts_create = write_task fc, ts_update = write_task fc, ts_get = store_get fc,
      ts_list = store_list fc, ts_delete = store_delete fc\<rparr>"

section \<open>What the persistent store keeps\<close>

text \<open>What the code relies on of the file client: a successful write is read back and changes no
  other file, creating a directory changes no file, a removed file is gone, and a file that
  was never written is missing.\<close>

definition files_lawful :: "'f file_client \<Rightarrow> ('f \<Rightarrow> string \<Rightarrow> pyval option) \<Rightarrow> bool" where
  "files_lawful fc files \<longleftrightarrow>
     (\<forall>f p. fc_read fc f p = (case files f p of None \<Rightarrow> Inl FileMissing | Some v \<Rightarrow> Inr v))
     \<and> (\<forall>f p v f'. fc_write fc f p v = (f', Inr ()) \<longrightarrow> files f' = (files f)(p \<mapsto> v))
     \<and> (\<forall>f p v f' e. fc_write fc f p v = (f', Inl e) \<longrightarrow> files f' = files f)
     \<and> (\<forall>f p. files (fst (fc_mkdir fc f p)) = files f)
     \<and> (\<forall>f p f'. fc_rm_force fc f p = (f', Inr ()) \<longrightarrow> files f' = (files f)(p := None))"

lemma mkdirs_files: "files_lawful fc files \<Longrightarrow> files (fst (mkdirs fc f ps)) = files f"
proof (induction ps arbitrary: f)
  case (Cons p ps)
  have "files (fst (mkdir_if_missing fc f p)) = files f"
    using Cons.prems by (auto simp: mkdir_if_missing_def files_lawful_def split: prod.splits sum.splits file_exc.splits)
      (metis fst_conv)+
  with Cons show ?case by (auto split: prod.splits sum.splits)
qed simp

lemma ensure_task_dir_files:
  "files_lawful fc files \<Longrightarrow> files (fst (ensure_task_dir fc f a u)) = files f"
  unfolding ensure_task_dir_def by (rule mkdirs_files)

lemma write_task_files:
  assumes "files_lawful fc files" "write_task fc f t = (f', r)" "t_account_id t = Some a" "t_user_id t = Some u" "a \<noteq> []" "u \<noteq> []"
  shows "files f' = (case r of Inl e \<Rightarrow> files f
    | Inr _ \<Rightarrow> (files f)(task_path a u (t_task_id t) \<mapsto> PDict (task_to_payload t)))"
proof -
  obtain f1 x where d: "ensure_task_dir fc f a u = (f1, x)" by force
  then have f1: "files f1 = files f" using ensure_task_dir_files [OF assms(1), of f a u] by simp
  obtain f2 y where w: "fc_write fc f1 (task_path a u (t_task_id t)) (PDict (task_to_payload t)) = (f2, y)" by force
  then have "files f2 = (case y of Inl e \<Rightarrow> files f1 | Inr _ \<Rightarrow> (files f1)(task_path a u (t_task_id t) \<mapsto> PDict (task_to_payload t)))"
    using assms(1) unfolding files_lawful_def by (cases y) (simp_all, metis)
  with assms(2-6) d w f1 show ?thesis
    by (auto simp: write_task_def nonempty_def split: sum.splits)
qed

text \<open>Different tasks have different files.\<close>

lemma task_path_inject:
  assumes "segment a" "segment u" "segment a'" "segment u'" "CHR ''/'' \<notin> set i" "CHR ''/'' \<notin> set i'"
    and "a \<noteq> ''_system''" "a' \<noteq> ''_system''"
    and "task_path a u i = task_path a' u' i'"
  shows "a = a' \<and> u = u' \<and> i = i'"
proof -
  have s: "segs (task_path a u i) = [''local'', a, ''_system'', ''tasks'', u, i @ ''.json'']"
    if "segment a" "segment u" "CHR ''/'' \<notin> set i" "a \<noteq> ''_system''" for a u i
  proof -
    have "task_path a u i = CHR ''/'' # join ''/'' [''local'', a, ''_system'', ''tasks'', u, i @ ''.json'']"
      using that by (simp add: task_path_def task_dir_def task_root_dir_def system_dir_def account_dir_def
          SYSTEM_TASK_ACCOUNT_ID_def)
    moreover have "list_all segment [''local'', a, ''_system'', ''tasks'', u, i @ ''.json'']"
      using that by (simp add: segment_def)
    ultimately show ?thesis by (simp only: segs_slash segs_join)
  qed
  have "[''local'', a, ''_system'', ''tasks'', u, i @ ''.json''] = [''local'', a', ''_system'', ''tasks'', u', i' @ ''.json'']"
    using s [OF assms(1,2,5,7)] s [OF assms(3,4,6,8)] unfolding assms(9) by (rule trans [OF sym])
  then show ?thesis by simp
qed

text \<open>A key whose parts are single path segments, of an account other than the system account.\<close>

definition plain_key :: "string \<Rightarrow> string \<Rightarrow> string \<Rightarrow> bool" where
  "plain_key a u i \<longleftrightarrow> segment a \<and> a \<noteq> ''_system'' \<and> segment u \<and> CHR ''/'' \<notin> set i"

text \<open>Property. A task written to the persistent store is read back unchanged, field by field,
  under its owner's account and user, and the write leaves every task of another owner or
  with another identifier as it was.\<close>

theorem persisted_task_reads_back:
  assumes "files_lawful fc files" "write_task fc f t = (f', Inr ())"
    and "t_account_id t = Some a" "t_user_id t = Some u" "plain_key a u (t_task_id t)"
  shows "ebind (store_get fc f' (t_task_id t) (Some a) (Some u))
      (\<lambda>p. case p of None \<Rightarrow> Inl KeyError | Some d \<Rightarrow> record_from_payload now d) = Inr t
    \<and> (\<forall>b v j. plain_key b v j \<and> (b, v, j) \<noteq> (a, u, t_task_id t) \<longrightarrow>
        store_get fc f' j (Some b) (Some v) = store_get fc f j (Some b) (Some v))"
proof -
  let ?p = "task_path a u (t_task_id t)"
  have ne: "a \<noteq> []" "u \<noteq> []" using assms(2-4)
    by (auto simp: write_task_def nonempty_def split: if_splits)
  have files: "files f' = (files f)(?p \<mapsto> PDict (task_to_payload t))"
    using write_task_files [OF assms(1-4) ne] by simp
  have get: "store_get fc g j (Some b) (Some v) = (if b = [] \<or> v = [] then Inr None else
      case files g (task_path b v j) of None \<Rightarrow> Inr None | Some x \<Rightarrow> map_sum id Some (document x))" for g j b v
    using assms(1) by (auto simp: store_get_def files_lawful_def nonempty_def split: option.splits)
  have "task_path b v j \<noteq> ?p" if "plain_key b v j" "(b, v, j) \<noteq> (a, u, t_task_id t)" for b v j
    using task_path_inject [of b v a u j "t_task_id t"] that assms(5) by (auto simp: plain_key_def)
  then show ?thesis using ne by (auto simp: get files document_def record_roundtrip)
qed

definition memory_files :: "(string \<times> pyval) list file_client" where
  "memory_files = \<lparr>fc_read = (\<lambda>f p. case dget f p of None \<Rightarrow> Inl FileMissing | Some v \<Rightarrow> Inr v),
     fc_ls = (\<lambda>f d. Inr (map (\<lambda>(p, v). [(''path'', PStr p)])
       (filter (\<lambda>(p, v). startswith p (d @ ''/'') \<and> CHR ''/'' \<notin> set (drop (Suc (length d)) p)) f))),
     fc_rm_force = (\<lambda>f p. (dpop f p, Inr ())),
     fc_write = (\<lambda>f p v. (dset f p v, Inr ())),
     fc_mkdir = (\<lambda>f p. (f, Inr ()))\<rparr>"

lemma memory_files_lawful: "files_lawful memory_files dget"
  by (auto simp: files_lawful_def memory_files_def split: option.splits)

definition sample_task :: task_record where
  "sample_task = \<lparr>t_task_id = ''t1'', t_task_type = ''session_commit'', t_status = PENDING, t_created_at = 100,
     t_updated_at = 100, t_resource_id = Some ''s1'', t_account_id = Some ''acme'', t_user_id = Some ''alice'',
     t_meta = [(''k'', PInt 1)], t_stage = None, t_result = None, t_error = None,
     t_auth = [(''token'', PStr ''x'')]\<rparr>"

theorem persisted_task_reads_back_witness:
  "\<exists>f'. write_task memory_files [] sample_task = (f', Inr ())
     \<and> ebind (store_get memory_files f' ''t1'' (Some ''acme'') (Some ''alice''))
        (\<lambda>p. case p of None \<Rightarrow> Inl KeyError | Some d \<Rightarrow> record_from_payload 0 d) = Inr sample_task"
proof -
  obtain f' where f': "write_task memory_files [] sample_task = (f', Inr ())"
    by (simp add: write_task_def ensure_task_dir_def mkdir_if_missing_def memory_files_def sample_task_def nonempty_def)
  have "t_account_id sample_task = Some ''acme''" "t_user_id sample_task = Some ''alice''" "t_task_id sample_task = ''t1''"
    "plain_key ''acme'' ''alice'' (t_task_id sample_task)"
    by (simp_all add: sample_task_def plain_key_def segment_def)
  with persisted_task_reads_back [OF memory_files_lawful f', of "''acme''" "''alice''" 0] f' show ?thesis by auto
qed

end
