(* ===== verification/Task_Work_Index.thy ===== *)
theory Task_Work_Index
  imports Py_Prelude
begin

text \<open>
  \<open>openviking/service/task_work_index.py\<close>: task metadata carried by queue messages and the
  runtime index of work owned by a task.

  The index is a record of three dictionaries: durable work items (queue name and work
  identifier) by task, running asyncio tasks by task (an asyncio task is a natural number), and
  the first failure of a task. Every method runs under the index lock and is one atomic
  function. The two callbacks are arguments: the cancellation test of the tracker, and the
  finaliser run before the last acknowledgement, which works on the whole state \<open>'w\<close> the index
  is part of. \<open>json_loads\<close> is the argument that stands for \<open>json.loads\<close> (\<open>None\<close> when it
  raises).
\<close>

section \<open>Metadata of messages\<close>

definition TASK_WORK_ID_FIELD :: string where
  "TASK_WORK_ID_FIELD = ''_task_work_id''"

record task_execution_context =
  tc_task_id :: string
  tc_account_id :: string
  tc_user_id :: string

record queue_task_metadata =
  qm_task_id :: string
  qm_work_id :: string
  qm_account_id :: string
  qm_user_id :: string

definition dval :: "pydict \<Rightarrow> string \<Rightarrow> pyval" where
  "dval d k = (case dget d k of None \<Rightarrow> PNone | Some v \<Rightarrow> v)"

text \<open>\<open>x or y\<close> on values.\<close>

definition por :: "pyval \<Rightarrow> pyval \<Rightarrow> pyval" where
  "por x y = (if truthy x then x else y)"

definition payload_dict :: "(string \<Rightarrow> pyval option) \<Rightarrow> pyval \<Rightarrow> pydict option" where
  "payload_dict json_loads message =
     (case message of
        PDict m \<Rightarrow>
          (case (case dget m ''data'' of None \<Rightarrow> PDict m | Some v \<Rightarrow> v) of
             PStr s \<Rightarrow> (case json_loads s of Some (PDict p) \<Rightarrow> Some p | _ \<Rightarrow> None)
           | PDict p \<Rightarrow> Some p
           | _ \<Rightarrow> None)
      | _ \<Rightarrow> None)"

definition owner_from_payload :: "pydict \<Rightarrow> string \<times> string" where
  "owner_from_payload payload =
     (let account_id = dval payload ''account_id'';
          user_id = dval payload ''user_id'';
          (account_id, user_id) = (case dval payload ''user'' of
              PDict user \<Rightarrow> (por account_id (dval user ''account_id''), por user_id (dval user ''user_id''))
            | _ \<Rightarrow> (account_id, user_id));
          (account_id, user_id) = (case dval payload ''context_data'' of
              PDict cd \<Rightarrow> (por account_id (dval cd ''account_id''), por user_id (dval cd ''owner_user_id''))
            | _ \<Rightarrow> (account_id, user_id))
      in (py_str (por account_id (PStr [])), py_str (por user_id (PStr []))))"

definition or_str :: "string \<Rightarrow> string \<Rightarrow> string" where
  "or_str a b = (if a \<noteq> [] then a else b)"

definition prepare_task_payload ::
  "task_execution_context option \<Rightarrow> string \<Rightarrow> pydict \<Rightarrow> pydict \<times> queue_task_metadata option" where
  "prepare_task_payload current uuid data =
     (let task_id = por (dval data ''task_id'') (PStr (case current of Some c \<Rightarrow> tc_task_id c | None \<Rightarrow> [])) in
      if \<not> truthy task_id then (data, None)
      else
        let task_id = py_str task_id;
            (account_id, user_id) = owner_from_payload data;
            (account_id, user_id) = (case current of
                Some c \<Rightarrow> if tc_task_id c = task_id
                          then (or_str account_id (tc_account_id c), or_str user_id (tc_user_id c))
                          else (account_id, user_id)
              | None \<Rightarrow> (account_id, user_id));
            work_id = py_str (por (dval data TASK_WORK_ID_FIELD) (PStr uuid));
            payload = dset (dset data ''task_id'' (PStr task_id)) TASK_WORK_ID_FIELD (PStr work_id);
            payload = (if account_id \<noteq> [] \<and> user_id \<noteq> []
                       then dsetdefault (dsetdefault payload ''account_id'' (PStr account_id)) ''user_id'' (PStr user_id)
                       else payload)
        in (payload, Some \<lparr>qm_task_id = task_id, qm_work_id = work_id, qm_account_id = account_id,
              qm_user_id = user_id\<rparr>))"

definition extract_task_metadata :: "(string \<Rightarrow> pyval option) \<Rightarrow> pyval \<Rightarrow> queue_task_metadata option" where
  "extract_task_metadata json_loads message =
     (case payload_dict json_loads message of
        None \<Rightarrow> None
      | Some payload \<Rightarrow>
          let task_id = dval payload ''task_id'';
              work_id = dval payload TASK_WORK_ID_FIELD;
              work_id = (case message of
                  PDict m \<Rightarrow> if \<not> truthy work_id \<and> dget m ''data'' \<noteq> None \<and> truthy (dval m ''id'')
                             then PStr (''queuefs:'' @ py_str (dval m ''id'')) else work_id
                | _ \<Rightarrow> work_id)
          in if \<not> truthy task_id \<or> \<not> truthy work_id then None
             else (case owner_from_payload payload of (account_id, user_id) \<Rightarrow>
                Some \<lparr>qm_task_id = py_str task_id, qm_work_id = py_str work_id, qm_account_id = account_id,
                      qm_user_id = user_id\<rparr>))"

section \<open>The index\<close>

record work_index =
  wi_work :: "(string \<times> (string \<times> string) set) list"
  wi_active :: "(string \<times> nat set) list"
  wi_failures :: "(string \<times> string) list"

definition empty_index :: work_index where
  "empty_index = \<lparr>wi_work = [], wi_active = [], wi_failures = []\<rparr>"

definition set_of :: "(string \<times> 'a set) list \<Rightarrow> string \<Rightarrow> 'a set" where
  "set_of d k = (case dget d k of None \<Rightarrow> {} | Some x \<Rightarrow> x)"

definition add_work ::
  "(string \<times> (string \<times> string) set) list \<Rightarrow> string \<Rightarrow> queue_task_metadata \<Rightarrow> (string \<times> (string \<times> string) set) list" where
  "add_work work queue_name md =
     dset work (qm_task_id md) (insert (queue_name, qm_work_id md) (set_of work (qm_task_id md)))"

definition rebuild_message ::
  "(string \<Rightarrow> pyval option) \<Rightarrow> string \<Rightarrow> pyval
    \<Rightarrow> (string \<times> (string \<times> string) set) list \<times> (string \<times> string \<times> string) list
    \<Rightarrow> (string \<times> (string \<times> string) set) list \<times> (string \<times> string \<times> string) list" where
  "rebuild_message json_loads queue_name message acc =
     (case extract_task_metadata json_loads message of
        None \<Rightarrow> acc
      | Some md \<Rightarrow> (case acc of (work, owners) \<Rightarrow>
          (add_work work queue_name md,
           if qm_account_id md \<noteq> [] \<and> qm_user_id md \<noteq> []
           then dset owners (qm_task_id md) (qm_account_id md, qm_user_id md) else owners)))"

definition rebuild ::
  "(string \<Rightarrow> pyval option) \<Rightarrow> work_index \<Rightarrow> (string \<times> pyval list) list
    \<Rightarrow> work_index \<times> (string \<times> string \<times> string) list" where
  "rebuild json_loads wi snapshots =
     (case fold (\<lambda>(queue_name, messages). fold (rebuild_message json_loads queue_name) messages) snapshots ([], []) of
        (work, owners) \<Rightarrow> (wi\<lparr>wi_work := work, wi_failures := []\<rparr>, owners))"

definition register ::
  "(string \<Rightarrow> bool) \<Rightarrow> work_index \<Rightarrow> string \<Rightarrow> queue_task_metadata option \<Rightarrow> work_index \<times> bool" where
  "register cancelled wi queue_name md =
     (case md of
        None \<Rightarrow> (wi, True)
      | Some m \<Rightarrow> if cancelled (qm_task_id m) then (wi, False)
                  else (wi\<lparr>wi_work := add_work (wi_work wi) queue_name m\<rparr>, True))"

definition remove_work :: "work_index \<Rightarrow> string \<Rightarrow> queue_task_metadata \<Rightarrow> work_index \<times> bool \<times> bool" where
  "remove_work wi queue_name md =
     (let tid = qm_task_id md;
          entry = (queue_name, qm_work_id md);
          removed = (entry \<in> set_of (wi_work wi) tid);
          work = (case dget (wi_work wi) tid of
              None \<Rightarrow> wi_work wi
            | Some entries \<Rightarrow> if entries - {entry} = {} then dpop (wi_work wi) tid
                              else dset (wi_work wi) tid (entries - {entry}));
          became_idle = (removed \<and> set_of work tid = {} \<and> set_of (wi_active wi) tid = {})
      in (wi\<lparr>wi_work := work\<rparr>, removed, became_idle))"

definition rollback_ack :: "work_index \<Rightarrow> string \<Rightarrow> queue_task_metadata \<Rightarrow> work_index" where
  "rollback_ack wi queue_name md = wi\<lparr>wi_work := add_work (wi_work wi) queue_name md\<rparr>"

definition has_work :: "work_index \<Rightarrow> string \<Rightarrow> bool" where
  "has_work wi task_id \<longleftrightarrow> set_of (wi_work wi) task_id \<noteq> {} \<or> set_of (wi_active wi) task_id \<noteq> {}"

definition has_other_work :: "work_index \<Rightarrow> string \<Rightarrow> string \<Rightarrow> bool" where
  "has_other_work wi task_id exclude_work_id \<longleftrightarrow>
     (\<exists>e \<in> set_of (wi_work wi) task_id. snd e \<noteq> exclude_work_id)"

definition record_failure :: "work_index \<Rightarrow> string \<Rightarrow> string \<Rightarrow> work_index" where
  "record_failure wi task_id err = wi\<lparr>wi_failures := dsetdefault (wi_failures wi) task_id err\<rparr>"

definition failure :: "work_index \<Rightarrow> string \<Rightarrow> string option" where
  "failure wi task_id = dget (wi_failures wi) task_id"

definition clear_failure :: "work_index \<Rightarrow> string \<Rightarrow> work_index" where
  "clear_failure wi task_id = wi\<lparr>wi_failures := dpop (wi_failures wi) task_id\<rparr>"

text \<open>The flag tells that the asyncio task is cancelled instead of registered.\<close>

definition register_active :: "(string \<Rightarrow> bool) \<Rightarrow> work_index \<Rightarrow> string \<Rightarrow> nat \<Rightarrow> work_index \<times> bool" where
  "register_active cancelled wi task_id active_task =
     (if cancelled task_id then (wi, True)
      else (wi\<lparr>wi_active := dset (wi_active wi) task_id (insert active_task (set_of (wi_active wi) task_id))\<rparr>, False))"

definition unregister_active :: "work_index \<Rightarrow> string \<Rightarrow> nat \<Rightarrow> work_index" where
  "unregister_active wi task_id active_task =
     (case dget (wi_active wi) task_id of
        None \<Rightarrow> wi
      | Some entries \<Rightarrow>
          if entries - {active_task} = {} then wi\<lparr>wi_active := dpop (wi_active wi) task_id\<rparr>
          else wi\<lparr>wi_active := dset (wi_active wi) task_id (entries - {active_task})\<rparr>)"

text \<open>The asyncio tasks that are told to cancel.\<close>

definition cancel_active :: "work_index \<Rightarrow> string \<Rightarrow> nat set" where
  "cancel_active wi task_id = set_of (wi_active wi) task_id"

section \<open>Acknowledgement\<close>

text \<open>A message is a metadata object or a raw message.\<close>

datatype work_message = MetaMsg queue_task_metadata | RawMsg pyval

definition metadata_of :: "(string \<Rightarrow> pyval option) \<Rightarrow> work_message \<Rightarrow> queue_task_metadata option" where
  "metadata_of json_loads msg =
     (case msg of MetaMsg m \<Rightarrow> Some m | RawMsg v \<Rightarrow> extract_task_metadata json_loads v)"

text \<open>The owner of the index: how to read and replace it, and the finaliser if one is set.\<close>

record 'w index_host =
  ih_get :: "'w \<Rightarrow> work_index"
  ih_put :: "work_index \<Rightarrow> 'w \<Rightarrow> 'w"
  ih_finalize :: "('w \<Rightarrow> queue_task_metadata \<Rightarrow> 'w \<times> (py_exc + unit)) option"

definition discard ::
  "(string \<Rightarrow> pyval option) \<Rightarrow> 'w index_host \<Rightarrow> 'w \<Rightarrow> string \<Rightarrow> work_message \<Rightarrow> 'w \<times> (py_exc + unit)" where
  "discard json_loads h w queue_name msg =
     (case metadata_of json_loads msg of
        None \<Rightarrow> (w, Inr ())
      | Some md \<Rightarrow> (case remove_work (ih_get h w) queue_name md of (wi, removed, became_idle) \<Rightarrow>
          let w1 = ih_put h wi w in
          (case ih_finalize h of
             Some callback \<Rightarrow> if became_idle then callback w1 md else (w1, Inr ())
           | None \<Rightarrow> (w1, Inr ()))))"

definition prepare_ack ::
  "(string \<Rightarrow> pyval option) \<Rightarrow> 'w index_host \<Rightarrow> 'w \<Rightarrow> string \<Rightarrow> work_message
    \<Rightarrow> 'w \<times> (py_exc + queue_task_metadata option)" where
  "prepare_ack json_loads h w queue_name msg =
     (case metadata_of json_loads msg of
        None \<Rightarrow> (w, Inr None)
      | Some md \<Rightarrow> (case remove_work (ih_get h w) queue_name md of (wi, removed, became_idle) \<Rightarrow>
          let w1 = ih_put h wi w in
          if \<not> removed then (w1, Inr None)
          else if \<not> became_idle then (w1, Inr (Some md))
          else (case ih_finalize h of
              None \<Rightarrow> (w1, Inr (Some md))
            | Some callback \<Rightarrow> (case callback w1 md of
                (w2, Inl e) \<Rightarrow> (ih_put h (rollback_ack (ih_get h w2) queue_name md) w2, Inl e)
              | (w2, Inr _) \<Rightarrow> (w2, Inr (Some md))))))"

section \<open>What the index guarantees\<close>

lemma set_of_add_work:
  "set_of (add_work work q md) tid =
     (if tid = qm_task_id md then insert (q, qm_work_id md) (set_of work tid) else set_of work tid)"
  by (simp add: add_work_def set_of_def)

lemma set_of_dpop [simp]: "set_of (dpop d k) k' = (if k' = k then {} else set_of d k')"
  by (simp add: set_of_def)

lemma set_of_dset [simp]: "set_of (dset d k v) k' = (if k' = k then v else set_of d k')"
  by (simp add: set_of_def)

lemma set_of_cases: "dget d k = None \<Longrightarrow> set_of d k = {}" "dget d k = Some x \<Longrightarrow> set_of d k = x"
  by (simp_all add: set_of_def)

lemma remove_work_set:
  assumes "remove_work wi q md = (wi', removed, idle)"
  shows "set_of (wi_work wi') tid =
      (if tid = qm_task_id md then set_of (wi_work wi) tid - {(q, qm_work_id md)} else set_of (wi_work wi) tid)"
    and "wi_active wi' = wi_active wi" "wi_failures wi' = wi_failures wi"
    and "removed \<longleftrightarrow> (q, qm_work_id md) \<in> set_of (wi_work wi) (qm_task_id md)"
    and "idle \<longleftrightarrow> removed \<and> \<not> has_work wi' (qm_task_id md)"
  using assms by (auto simp: remove_work_def Let_def has_work_def set_of_cases
      split: option.splits if_splits)

lemma rollback_restores:
  assumes "remove_work wi q md = (wi', True, idle)"
  shows "set_of (wi_work (rollback_ack wi' q md)) tid = set_of (wi_work wi) tid"
  using remove_work_set [OF assms] by (auto simp: rollback_ack_def set_of_add_work)

text \<open>The host reads back what it stores.\<close>

definition host_ok :: "'w index_host \<Rightarrow> bool" where
  "host_ok h \<longleftrightarrow> (\<forall>w wi. ih_get h (ih_put h wi w) = wi)"

text \<open>Property. The last acknowledgement waits for the finaliser. If removing a work item makes
  its task idle, the finaliser runs first, and when it fails the item is in the index again, so
  the message is not acknowledged and the task still counts as having work. If the task has
  other work the finaliser is not run at all.\<close>

theorem ack_only_after_finalize:
  assumes "host_ok h" "ih_finalize h = Some fin" "metadata_of json_loads msg = Some md"
    and "(q, qm_work_id md) \<in> set_of (wi_work (ih_get h w)) (qm_task_id md)"
  shows "case prepare_ack json_loads h w q msg of (w', r) \<Rightarrow>
    (let w1 = ih_put h (fst (remove_work (ih_get h w) q md)) w in
     if has_work (ih_get h w1) (qm_task_id md) then w' = w1 \<and> r = Inr (Some md)
     else (case fin w1 md of
        (w2, Inr _) \<Rightarrow> w' = w2 \<and> r = Inr (Some md)
      | (w2, Inl e) \<Rightarrow> r = Inl e \<and> has_work (ih_get h w') (qm_task_id md)
          \<and> (q, qm_work_id md) \<in> set_of (wi_work (ih_get h w')) (qm_task_id md)))"
proof -
  obtain wi removed idle where rm: "remove_work (ih_get h w) q md = (wi, removed, idle)" by (metis prod_cases3)
  note s = remove_work_set [OF rm]
  have removed: "removed" using s(4) assms(4) by simp
  have g: "ih_get h (ih_put h wi w) = wi" for wi w using assms(1) by (simp add: host_ok_def)
  show ?thesis
  proof (cases idle)
    case False
    with removed s(5) rm assms(3) show ?thesis by (simp add: prepare_ack_def Let_def g)
  next
    case True
    obtain w2 r2 where f: "fin (ih_put h wi w) md = (w2, r2)" by force
    with True removed s(5) rm assms(2,3) show ?thesis
      by (cases r2) (simp_all add: prepare_ack_def Let_def g rollback_ack_def has_work_def set_of_add_work)
  qed
qed

definition plain_host :: "work_index index_host" where
  "plain_host = \<lparr>ih_get = (\<lambda>w. w), ih_put = (\<lambda>wi w. wi), ih_finalize = Some (\<lambda>w m. (w, Inl IOError))\<rparr>"

definition sample_md :: queue_task_metadata where
  "sample_md = \<lparr>qm_task_id = ''t1'', qm_work_id = ''w1'', qm_account_id = ''acme'', qm_user_id = ''alice''\<rparr>"

theorem ack_only_after_finalize_witness:
  "has_work (fst (prepare_ack (\<lambda>s. None) plain_host (rollback_ack empty_index ''q'' sample_md) ''q'' (MetaMsg sample_md))) ''t1''"
proof -
  let ?w = "rollback_ack empty_index ''q'' sample_md"
  have 1: "host_ok plain_host" "ih_finalize plain_host = Some (\<lambda>w m. (w, Inl IOError))"
    by (simp_all add: host_ok_def plain_host_def)
  have 2: "metadata_of (\<lambda>s. None) (MetaMsg sample_md) = Some sample_md" by (simp add: metadata_of_def)
  have 3: "(''q'', qm_work_id sample_md) \<in> set_of (wi_work (ih_get plain_host ?w)) (qm_task_id sample_md)"
    by (simp add: plain_host_def rollback_ack_def set_of_add_work)
  have idle: "\<not> has_work (ih_get plain_host (ih_put plain_host (fst (remove_work (ih_get plain_host ?w) ''q'' sample_md)) ?w))
      (qm_task_id sample_md)" by code_simp
  from ack_only_after_finalize [OF 1 2 3] idle show ?thesis
    by (auto simp: Let_def sample_md_def plain_host_def split: prod.splits)
qed

text \<open>Property. A cancelled task gets no new work: while the tracker reports a cancellation,
  \<open>register\<close> refuses the item and leaves the index unchanged, and \<open>register_active\<close> hands the
  running task back for cancellation; otherwise the item is in the index and nothing else of
  it changed.\<close>

theorem register_respects_cancellation:
  "(case register cancelled wi q (Some md) of (wi', ok) \<Rightarrow>
     (ok \<longleftrightarrow> \<not> cancelled (qm_task_id md))
     \<and> (if ok then has_work wi' (qm_task_id md)
          \<and> (\<forall>tid. set_of (wi_work wi') tid = set_of (wi_work wi) tid
               \<union> (if tid = qm_task_id md then {(q, qm_work_id md)} else {}))
          \<and> wi_active wi' = wi_active wi \<and> wi_failures wi' = wi_failures wi
        else wi' = wi))
   \<and> (case register_active cancelled wi tid n of (wi', c) \<Rightarrow>
     c = cancelled tid \<and> (if c then wi' = wi else n \<in> set_of (wi_active wi') tid))"
  by (auto simp: register_def register_active_def has_work_def set_of_add_work split: prod.splits)

end
