(* ===== verification/Task_Tracker.thy ===== *)
theory Task_Tracker
  imports Task_Store Task_Work_Index
begin

text \<open>
  \<open>TaskTracker\<close> (\<open>openviking/service/task_tracker.py\<close>): a cache of task records in front of a
  \<open>TaskStore\<close>, together with the index of work the tasks own.

  The state is the record \<open>tracker\<close>: the store's state, the cache and the work index. Each
  method that runs inside one critical section of the owner loop (\<open>async with
  self._task_locks.acquire(task_id)\<close>) is one function; the current time and fresh identifiers
  are arguments. A method that leaves the critical section and enters it again is a composition
  of such functions, and the step relation \<open>tt_step\<close> at the end lets the sections of all
  methods interleave. Cancellation of the awaiting caller, the thread hand-over and the
  input/output limiter are not modelled: they delay a section but do not split it.
\<close>

section \<open>Removing secrets\<close>

definition token_char :: "char \<Rightarrow> bool" where
  "token_char c \<longleftrightarrow> is_ascii_alnum c \<or> c = CHR ''.'' \<or> c = CHR ''_'' \<or> c = CHR ''-''"

text \<open>The prefix group of \<open>_SENSITIVE_PATTERNS\<close> at the start of a text; the rest after it.\<close>

definition secret_prefix :: "string \<Rightarrow> string option" where
  "secret_prefix s =
     (let l = map lower_char s in
      if startswith l ''sk-'' \<or> startswith l ''cr_'' then Some (drop 3 s)
      else if startswith l ''ghp_'' \<or> startswith l ''ntn_'' then Some (drop 4 s)
      else if startswith l ''xox'' \<and> length l \<ge> 5 \<and> l ! 3 \<in> set ''baprs'' \<and> l ! 4 = CHR ''-'' then Some (drop 5 s)
      else if startswith l ''bearer'' \<and> length l \<ge> 7 \<and> is_space (s ! 6) then Some (dropWhile is_space (drop 6 s))
      else None)"

definition match_secret :: "string \<Rightarrow> string option" where
  "match_secret s =
     (case secret_prefix s of
        Some (c # r) \<Rightarrow> if token_char c then Some (dropWhile token_char r) else None
      | _ \<Rightarrow> None)"

lemma secret_prefix_shorter: "secret_prefix s = Some r \<Longrightarrow> length r \<le> length s"
proof -
  have "length (dropWhile is_space (drop 6 s)) \<le> length s"
    by (metis diff_le_self le_trans length_drop length_dropWhile_le)
  then show "secret_prefix s = Some r \<Longrightarrow> length r \<le> length s"
    by (auto simp: secret_prefix_def Let_def split: if_splits)
qed

lemma match_secret_shorter:
  assumes "match_secret s = Some r"
  shows "length r < length s"
proof -
  from assms obtain c x where "secret_prefix s = Some (c # x)" "r = dropWhile token_char x"
    by (auto simp: match_secret_def split: option.splits list.splits if_splits)
  with secret_prefix_shorter [of s "c # x"] length_dropWhile_le [of token_char x] show ?thesis by simp
qed

function redact :: "string \<Rightarrow> string" where
  "redact s =
     (case match_secret s of
        Some r \<Rightarrow> ''[REDACTED]'' @ redact r
      | None \<Rightarrow> (case s of [] \<Rightarrow> [] | c # cs \<Rightarrow> c # redact cs))"
  by auto
termination by (relation "measure length") (auto simp: match_secret_shorter)

declare redact.simps [simp del]

definition MAX_ERROR_LEN :: nat where
  "MAX_ERROR_LEN = 500"

definition sanitize_error :: "string \<Rightarrow> string" where
  "sanitize_error err =
     (let sanitized = redact err in
      if length sanitized > MAX_ERROR_LEN then take MAX_ERROR_LEN sanitized @ ''...[truncated]'' else sanitized)"

fun sanitize_task_result :: "pyval \<Rightarrow> pyval" where
  "sanitize_task_result (PDict kvs) =
     PDict (filter (\<lambda>kv. fst kv \<noteq> ''user_key'') (map (\<lambda>kv. (fst kv, sanitize_task_result (snd kv))) kvs))"
| "sanitize_task_result (PList vs) = PList (map sanitize_task_result vs)"
| "sanitize_task_result v = v"

definition sanitize_dict :: "pydict \<Rightarrow> pydict" where
  "sanitize_dict d = (case sanitize_task_result (PDict d) of PDict e \<Rightarrow> e | _ \<Rightarrow> [])"

definition copy_task :: "task_record \<Rightarrow> task_record" where
  "copy_task t = t\<lparr>t_meta := sanitize_dict (t_meta t), t_result := map_option sanitize_dict (t_result t), t_auth := []\<rparr>"

text \<open>\<open>iso_of\<close> stands for the ISO form of a time stamp.\<close>

definition task_to_dict :: "(int \<Rightarrow> string) \<Rightarrow> task_record \<Rightarrow> pydict" where
  "task_to_dict iso_of t =
     [(''task_id'', PStr (t_task_id t)), (''task_type'', PStr (t_task_type t)),
      (''status'', PStr (status_value (t_status t))),
      (''created_at'', PInt (t_created_at t)), (''updated_at'', PInt (t_updated_at t)),
      (''resource_id'', opt_str (t_resource_id t)),
      (''meta'', PDict (sanitize_dict (t_meta t))), (''stage'', opt_str (t_stage t)),
      (''result'', case t_result t of None \<Rightarrow> PNone | Some r \<Rightarrow> PDict (sanitize_dict r)),
      (''error'', opt_str (t_error t)),
      (''created_at_iso'', PStr (iso_of (t_created_at t))), (''updated_at_iso'', PStr (iso_of (t_updated_at t)))]"

section \<open>State, cache and store access\<close>

record 's tracker =
  tt_store :: 's
  tt_tasks :: "(string \<times> task_record) list"
  tt_index :: work_index

definition MAX_TASKS :: nat where "MAX_TASKS = 10000"
definition TICKS :: int where "TICKS = 2 ^ 22"
definition TTL_COMPLETED :: int where "TTL_COMPLETED = 86400 * TICKS"
definition TTL_FAILED :: int where "TTL_FAILED = 604800 * TICKS"

definition CANCELLABLE_TASK_TYPES :: "string list" where
  "CANCELLABLE_TASK_TYPES = [''add_resource'', ''session_commit'', ''admin_reindex'', ''snapshot_restore_reindex'']"

definition cached_task :: "'s tracker \<Rightarrow> string \<Rightarrow> task_record option" where
  "cached_task w task_id = dget (tt_tasks w) task_id"

definition cache_snapshot :: "'s tracker \<Rightarrow> task_record list" where
  "cache_snapshot w = map snd (tt_tasks w)"

definition publish_task :: "'s tracker \<Rightarrow> task_record \<Rightarrow> 's tracker" where
  "publish_task w t = w\<lparr>tt_tasks := dset (tt_tasks w) (t_task_id t) t\<rparr>"

fun merge_loaded_tasks :: "'s tracker \<Rightarrow> task_record list \<Rightarrow> 's tracker" where
  "merge_loaded_tasks w [] = w"
| "merge_loaded_tasks w (t # ts) =
     merge_loaded_tasks
       (case cached_task w (t_task_id t) of
          None \<Rightarrow> publish_task w t
        | Some c \<Rightarrow> if t_updated_at t > t_updated_at c then publish_task w t else w)
       ts"

definition matches_owner :: "task_record \<Rightarrow> string option \<Rightarrow> string option \<Rightarrow> bool" where
  "matches_owner t account_id user_id \<longleftrightarrow>
     (account_id = None \<or> t_account_id t = account_id) \<and> (user_id = None \<or> t_user_id t = user_id)"

definition validate_owner :: "string \<Rightarrow> string \<Rightarrow> py_exc + unit" where
  "validate_owner account_id user_id = (if account_id = [] \<or> user_id = [] then Inl ValueError else Inr ())"

definition load_from_store ::
  "'s task_store \<Rightarrow> 's tracker \<Rightarrow> int \<Rightarrow> string \<Rightarrow> string \<Rightarrow> string option \<Rightarrow> py_exc + task_record option" where
  "load_from_store st w now task_id account_id user_id =
     ebind (ts_get st (tt_store w) task_id (Some account_id) user_id) (\<lambda>p.
       case p of None \<Rightarrow> Inr None | Some d \<Rightarrow> map_sum id Some (record_from_payload now d))"

definition load_all_from_store ::
  "'s task_store \<Rightarrow> 's tracker \<Rightarrow> int \<Rightarrow> string \<Rightarrow> string option \<Rightarrow> py_exc + task_record list" where
  "load_all_from_store st w now account_id user_id =
     ebind (ts_list st (tt_store w) account_id user_id) (emap (record_from_payload now))"

definition load_for_update ::
  "'s task_store \<Rightarrow> 's tracker \<Rightarrow> int \<Rightarrow> string \<Rightarrow> string option \<Rightarrow> string option \<Rightarrow> py_exc + task_record option" where
  "load_for_update st w now task_id account_id user_id =
     (case cached_task w task_id of
        Some t \<Rightarrow> Inr (if matches_owner t account_id user_id then Some t else None)
      | None \<Rightarrow> (case account_id of
          None \<Rightarrow> Inr None
        | Some a \<Rightarrow> if user_id = None then Inr None else load_from_store st w now task_id a user_id))"

definition persist_and_publish ::
  "'s task_store \<Rightarrow> 's tracker \<Rightarrow> bool \<Rightarrow> task_record \<Rightarrow> 's tracker \<times> (py_exc + unit)" where
  "persist_and_publish st w creating t =
     (case (if creating then ts_create st (tt_store w) t else ts_update st (tt_store w) t) of
        (s', Inl e) \<Rightarrow> (w\<lparr>tt_store := s'\<rparr>, Inl e)
      | (s', Inr _) \<Rightarrow> (publish_task (w\<lparr>tt_store := s'\<rparr>) t, Inr ()))"

definition next_updated_at :: "task_record \<Rightarrow> int \<Rightarrow> int" where
  "next_updated_at t now = max now (t_updated_at t + 1)"

section \<open>Creation\<close>

definition new_task ::
  "string \<Rightarrow> string \<Rightarrow> string option \<Rightarrow> string \<Rightarrow> string \<Rightarrow> pydict \<Rightarrow> pydict \<Rightarrow> int \<Rightarrow> int \<Rightarrow> task_record" where
  "new_task task_id task_type resource_id account_id user_id meta auth created updated =
     \<lparr>t_task_id = task_id, t_task_type = task_type, t_status = PENDING, t_created_at = created,
      t_updated_at = updated, t_resource_id = resource_id, t_account_id = Some account_id,
      t_user_id = Some user_id, t_meta = meta, t_stage = None, t_result = None, t_error = None, t_auth = auth\<rparr>"

definition create_on_owner ::
  "'s task_store \<Rightarrow> 's tracker \<Rightarrow> int \<Rightarrow> task_record \<Rightarrow> bool \<Rightarrow> 's tracker \<times> (py_exc + task_record)" where
  "create_on_owner st w now task check_existing =
     (let fresh = (case persist_and_publish st w True task of
            (w', Inl e) \<Rightarrow> (w', Inl e) | (w', Inr _) \<Rightarrow> (w', Inr (copy_task task)))
      in if \<not> check_existing then fresh
         else case cached_task w (t_task_id task) of
            Some existing \<Rightarrow>
              if \<not> matches_owner existing (t_account_id task) (t_user_id task) then (w, Inl ValueError)
              else (w, Inr (copy_task existing))
          | None \<Rightarrow>
              (case load_from_store st w now (t_task_id task)
                  (case t_account_id task of None \<Rightarrow> [] | Some a \<Rightarrow> a) (t_user_id task) of
                 Inl e \<Rightarrow> (w, Inl e)
               | Inr (Some existing) \<Rightarrow> (publish_task w existing, Inr (copy_task existing))
               | Inr None \<Rightarrow> fresh))"

text \<open>\<open>task_id\<close> is the identifier given by the caller, \<open>uuid\<close> the fresh one used otherwise.\<close>

definition create ::
  "'s task_store \<Rightarrow> 's tracker \<Rightarrow> int \<Rightarrow> int \<Rightarrow> string \<Rightarrow> string \<Rightarrow> string option \<Rightarrow> string \<Rightarrow> string
    \<Rightarrow> string option \<Rightarrow> pydict \<Rightarrow> pydict \<Rightarrow> 's tracker \<times> (py_exc + task_record)" where
  "create st w created updated uuid task_type resource_id account_id user_id task_id meta auth =
     (case validate_owner account_id user_id of
        Inl e \<Rightarrow> (w, Inl e)
      | Inr _ \<Rightarrow> create_on_owner st w updated
          (new_task (case task_id of Some i \<Rightarrow> if i = [] then uuid else i | None \<Rightarrow> uuid)
            task_type resource_id account_id user_id meta auth created updated)
          (task_id \<noteq> None))"

definition has_active :: "'s tracker \<Rightarrow> string \<Rightarrow> string option \<Rightarrow> string option \<Rightarrow> string option \<Rightarrow> bool" where
  "has_active w task_type resource_id account_id user_id =
     list_ex (\<lambda>t. t_task_type t = task_type \<and> t_resource_id t = resource_id
       \<and> matches_owner t account_id user_id \<and> active_status (t_status t)) (cache_snapshot w)"

definition create_if_no_running ::
  "'s task_store \<Rightarrow> 's tracker \<Rightarrow> int \<Rightarrow> int \<Rightarrow> string \<Rightarrow> string \<Rightarrow> string \<Rightarrow> string \<Rightarrow> string
    \<Rightarrow> 's tracker \<times> (py_exc + task_record option)" where
  "create_if_no_running st w created updated uuid task_type resource_id account_id user_id =
     (case validate_owner account_id user_id of
        Inl e \<Rightarrow> (w, Inl e)
      | Inr _ \<Rightarrow> (case load_all_from_store st w created account_id (Some user_id) of
          Inl e \<Rightarrow> (w, Inl e)
        | Inr loaded \<Rightarrow>
            let w1 = merge_loaded_tasks w loaded in
            if has_active w1 task_type (Some resource_id) (Some account_id) (Some user_id) then (w1, Inr None)
            else
              let task = new_task uuid task_type (Some resource_id) account_id user_id [] [] created updated in
              (case persist_and_publish st w1 True task of
                 (w2, Inl e) \<Rightarrow> (w2, Inl e)
               | (w2, Inr _) \<Rightarrow> (w2, Inr (Some (copy_task task))))))"

section \<open>Life cycle\<close>

definition idle_running :: "task_status \<Rightarrow> bool" where
  "idle_running s \<longleftrightarrow> s \<in> {PENDING, RUNNING}"

definition start ::
  "'s task_store \<Rightarrow> 's tracker \<Rightarrow> int \<Rightarrow> string \<Rightarrow> string option \<Rightarrow> string option \<Rightarrow> string option
    \<Rightarrow> 's tracker \<times> (py_exc + unit)" where
  "start st w now task_id account_id user_id stage =
     (case load_for_update st w now task_id account_id user_id of
        Inl e \<Rightarrow> (w, Inl e)
      | Inr None \<Rightarrow> (w, Inr ())
      | Inr (Some t) \<Rightarrow>
          if idle_running (t_status t) then
            persist_and_publish st w False (t\<lparr>t_status := RUNNING,
              t_stage := (case stage of None \<Rightarrow> t_stage t | Some s \<Rightarrow> Some s),
              t_updated_at := next_updated_at t now\<rparr>)
          else (w, Inr ()))"

definition update_stage ::
  "'s task_store \<Rightarrow> 's tracker \<Rightarrow> int \<Rightarrow> string \<Rightarrow> string \<Rightarrow> string option \<Rightarrow> string option
    \<Rightarrow> 's tracker \<times> (py_exc + unit)" where
  "update_stage st w now task_id stage account_id user_id =
     (case load_for_update st w now task_id account_id user_id of
        Inl e \<Rightarrow> (w, Inl e)
      | Inr None \<Rightarrow> (w, Inr ())
      | Inr (Some t) \<Rightarrow>
          if idle_running (t_status t) then
            persist_and_publish st w False (t\<lparr>t_stage := Some stage, t_updated_at := next_updated_at t now\<rparr>)
          else (w, Inr ()))"

text \<open>\<open>if work_error and updated.error is None: updated.error = _sanitize_error(work_error)\<close>.\<close>

definition with_work_error :: "string option \<Rightarrow> task_record \<Rightarrow> task_record" where
  "with_work_error work_error t =
     (case work_error of
        Some e \<Rightarrow> if e \<noteq> [] \<and> t_error t = None then t\<lparr>t_error := Some (sanitize_error e)\<rparr> else t
      | None \<Rightarrow> t)"

definition with_result :: "pydict option \<Rightarrow> string option \<Rightarrow> task_record \<Rightarrow> task_record" where
  "with_result result resource_id t =
     (case result of
        None \<Rightarrow> t
      | Some r \<Rightarrow> t\<lparr>t_result := Some r,
          t_resource_id := (case resource_id of None \<Rightarrow> t_resource_id t | Some i \<Rightarrow> Some i)\<rparr>)"

definition with_error :: "string option \<Rightarrow> task_record \<Rightarrow> task_record" where
  "with_error err t =
     (case err of
        Some e \<Rightarrow> if t_error t = None then t\<lparr>t_error := Some (sanitize_error e)\<rparr> else t
      | None \<Rightarrow> t)"

definition outcome_record ::
  "'s tracker \<Rightarrow> int \<Rightarrow> task_record \<Rightarrow> pydict option \<Rightarrow> string option \<Rightarrow> string option \<Rightarrow> task_record" where
  "outcome_record w now t result err resource_id =
     (with_work_error (failure (tt_index w) (t_task_id t)) (with_error err (with_result result resource_id t)))
       \<lparr>t_updated_at := next_updated_at t now, t_auth := []\<rparr>"

text \<open>The critical section of \<open>_record_outcome_on_owner\<close>.\<close>

definition record_outcome_section ::
  "'s task_store \<Rightarrow> 's tracker \<Rightarrow> int \<Rightarrow> string \<Rightarrow> string option \<Rightarrow> string option \<Rightarrow> pydict option
    \<Rightarrow> string option \<Rightarrow> string option \<Rightarrow> 's tracker \<times> (py_exc + unit)" where
  "record_outcome_section st w now task_id account_id user_id result err resource_id =
     (case load_for_update st w now task_id account_id user_id of
        Inl e \<Rightarrow> (w, Inl e)
      | Inr None \<Rightarrow> (w, Inr ())
      | Inr (Some t) \<Rightarrow>
          if idle_running (t_status t)
          then persist_and_publish st w False (outcome_record w now t result err resource_id)
          else (w, Inr ()))"

text \<open>The terminal record of a task whose work is done; \<open>None\<close> when it has no outcome yet.\<close>

definition finalized_record :: "'s tracker \<Rightarrow> int \<Rightarrow> task_record \<Rightarrow> task_record option" where
  "finalized_record w now t =
     (let u = (if t_status t \<noteq> CANCELLING
               then with_work_error (failure (tt_index w) (t_task_id t)) t else t);
          fin = (\<lambda>s. Some (u\<lparr>t_status := s, t_stage := Some (status_value s),
                   t_updated_at := next_updated_at t now, t_auth := []\<rparr>))
      in if t_status t = CANCELLING then fin CANCELLED
         else if t_error u \<noteq> None then fin FAILED
         else if t_result u \<noteq> None then fin COMPLETED
         else None)"

definition finalize_task ::
  "'s task_store \<Rightarrow> 's tracker \<Rightarrow> int \<Rightarrow> string \<Rightarrow> string option \<Rightarrow> string option \<Rightarrow> 's tracker \<times> (py_exc + unit)" where
  "finalize_task st w now task_id account_id user_id =
     (if has_work (tt_index w) task_id then (w, Inr ())
      else case load_for_update st w now task_id account_id user_id of
          Inl e \<Rightarrow> (w, Inl e)
        | Inr None \<Rightarrow> (w, Inr ())
        | Inr (Some t) \<Rightarrow>
            if \<not> active_status (t_status t) then (w, Inr ())
            else (case finalized_record w now t of
                None \<Rightarrow> (w, Inr ())
              | Some u \<Rightarrow> (case persist_and_publish st w False u of
                  (w', Inl e) \<Rightarrow> (w', Inl e)
                | (w', Inr _) \<Rightarrow> (w'\<lparr>tt_index := clear_failure (tt_index w') task_id\<rparr>, Inr ()))))"

definition record_outcome ::
  "'s task_store \<Rightarrow> 's tracker \<Rightarrow> int \<Rightarrow> int \<Rightarrow> string \<Rightarrow> string option \<Rightarrow> string option \<Rightarrow> pydict option
    \<Rightarrow> string option \<Rightarrow> string option \<Rightarrow> 's tracker \<times> (py_exc + unit)" where
  "record_outcome st w now now2 task_id account_id user_id result err resource_id =
     (case record_outcome_section st w now task_id account_id user_id result err resource_id of
        (w', Inl e) \<Rightarrow> (w', Inl e)
      | (w', Inr _) \<Rightarrow> finalize_task st w' now2 task_id account_id user_id)"

definition complete ::
  "'s task_store \<Rightarrow> 's tracker \<Rightarrow> int \<Rightarrow> int \<Rightarrow> string \<Rightarrow> pydict \<Rightarrow> string option \<Rightarrow> string option
    \<Rightarrow> string option \<Rightarrow> 's tracker \<times> (py_exc + unit)" where
  "complete st w now now2 task_id result account_id user_id resource_id =
     record_outcome st w now now2 task_id account_id user_id (Some result) None resource_id"

definition fail ::
  "'s task_store \<Rightarrow> 's tracker \<Rightarrow> int \<Rightarrow> int \<Rightarrow> string \<Rightarrow> string \<Rightarrow> string option \<Rightarrow> string option
    \<Rightarrow> 's tracker \<times> (py_exc + unit)" where
  "fail st w now now2 task_id err account_id user_id =
     record_outcome st w now now2 task_id account_id user_id None (Some err) None"

text \<open>The critical section of \<open>_cancel_on_owner\<close>: \<open>Inr None\<close> when there is no such task,
  \<open>Inr (Some (Some t))\<close> when it was cancelled already, \<open>Inr (Some None)\<close> to go on.\<close>

definition cancel_section ::
  "'s task_store \<Rightarrow> 's tracker \<Rightarrow> int \<Rightarrow> string \<Rightarrow> string option \<Rightarrow> string option
    \<Rightarrow> 's tracker \<times> (py_exc + task_record option option)" where
  "cancel_section st w now task_id account_id user_id =
     (case load_for_update st w now task_id account_id user_id of
        Inl e \<Rightarrow> (w, Inl e)
      | Inr None \<Rightarrow> (w, Inr None)
      | Inr (Some t) \<Rightarrow>
          if t_status t = CANCELLED then (w, Inr (Some (Some (copy_task t))))
          else if t_status t = CANCELLING then (w, Inr (Some None))
          else if t_task_type t \<notin> set CANCELLABLE_TASK_TYPES then (w, Inl ValueError)
          else if terminal_status (t_status t) then (w, Inl ValueError)
          else (case persist_and_publish st w False
                  (t\<lparr>t_status := CANCELLING, t_updated_at := next_updated_at t now\<rparr>) of
              (w', Inl e) \<Rightarrow> (w', Inl e)
            | (w', Inr _) \<Rightarrow> (w', Inr (Some None))))"

text \<open>The asyncio tasks told to cancel are the second component.\<close>

definition cancel ::
  "'s task_store \<Rightarrow> 's tracker \<Rightarrow> int \<Rightarrow> int \<Rightarrow> string \<Rightarrow> string option \<Rightarrow> string option
    \<Rightarrow> 's tracker \<times> nat set \<times> (py_exc + task_record option)" where
  "cancel st w now now2 task_id account_id user_id =
     (case cancel_section st w now task_id account_id user_id of
        (w1, Inl e) \<Rightarrow> (w1, {}, Inl e)
      | (w1, Inr None) \<Rightarrow> (w1, {}, Inr None)
      | (w1, Inr (Some (Some t))) \<Rightarrow> (w1, {}, Inr (Some t))
      | (w1, Inr (Some None)) \<Rightarrow>
          let stopped = cancel_active (tt_index w1) task_id in
          (case finalize_task st w1 now2 task_id account_id user_id of
             (w2, Inl e) \<Rightarrow> (w2, stopped, Inl e)
           | (w2, Inr _) \<Rightarrow> (w2, stopped, Inr (case cached_task w2 task_id of
                 None \<Rightarrow> None
               | Some t \<Rightarrow> if matches_owner t account_id user_id then Some (copy_task t) else None))))"

section \<open>Queries\<close>

definition get_task ::
  "'s task_store \<Rightarrow> 's tracker \<Rightarrow> int \<Rightarrow> string \<Rightarrow> string option \<Rightarrow> string option
    \<Rightarrow> 's tracker \<times> (py_exc + task_record option)" where
  "get_task st w now task_id account_id user_id =
     (case cached_task w task_id of
        Some t \<Rightarrow> (w, Inr (if matches_owner t account_id user_id then Some (copy_task t) else None))
      | None \<Rightarrow> (case account_id of
          None \<Rightarrow> (w, Inr None)
        | Some a \<Rightarrow> (case load_from_store st w now task_id a user_id of
            Inl e \<Rightarrow> (w, Inl e)
          | Inr None \<Rightarrow> (w, Inr None)
          | Inr (Some t) \<Rightarrow>
              let w' = merge_loaded_tasks w [t] in
              (w', Inr (case cached_task w' task_id of
                  None \<Rightarrow> None
                | Some c \<Rightarrow> if matches_owner c account_id user_id then Some (copy_task c) else None)))))"

definition refresh_cache ::
  "'s task_store \<Rightarrow> 's tracker \<Rightarrow> int \<Rightarrow> string option \<Rightarrow> string option \<Rightarrow> 's tracker \<times> (py_exc + unit)" where
  "refresh_cache st w now account_id user_id =
     (case account_id of
        None \<Rightarrow> (w, Inr ())
      | Some a \<Rightarrow> (case load_all_from_store st w now a user_id of
          Inl e \<Rightarrow> (w, Inl e)
        | Inr loaded \<Rightarrow> (merge_loaded_tasks w loaded, Inr ())))"

text \<open>\<open>tasks[:limit]\<close>; a negative limit counts from the end.\<close>

definition py_take :: "int \<Rightarrow> 'a list \<Rightarrow> 'a list" where
  "py_take n xs = (if n \<ge> 0 then take (nat n) xs else take (length xs - nat (- n)) xs)"

definition filter_tasks ::
  "string option \<Rightarrow> string option \<Rightarrow> string option \<Rightarrow> bool \<Rightarrow> task_record list \<Rightarrow> task_record list" where
  "filter_tasks task_type status resource_id include_internal tasks =
     filter (\<lambda>t. (include_internal \<or> dget (t_meta t) ''internal'' \<noteq> Some (PBool True))
       \<and> (\<not> nonempty task_type \<or> task_type = Some (t_task_type t))
       \<and> (\<not> nonempty status \<or> status = Some (status_value (t_status t)))
       \<and> (\<not> nonempty resource_id \<or> t_resource_id t = resource_id)) tasks"

definition list_tasks ::
  "'s task_store \<Rightarrow> 's tracker \<Rightarrow> int \<Rightarrow> string option \<Rightarrow> string option \<Rightarrow> string option \<Rightarrow> int
    \<Rightarrow> string option \<Rightarrow> string option \<Rightarrow> bool \<Rightarrow> 's tracker \<times> (py_exc + task_record list)" where
  "list_tasks st w now task_type status resource_id limit account_id user_id include_internal =
     (case refresh_cache st w now account_id user_id of
        (w', Inl e) \<Rightarrow> (w', Inl e)
      | (w', Inr _) \<Rightarrow>
          (w', Inr (py_take limit (sort_key (\<lambda>t. - t_created_at t)
            (filter_tasks task_type status resource_id include_internal
              (map copy_task (filter (\<lambda>t. matches_owner t account_id user_id) (cache_snapshot w'))))))))"

definition has_running ::
  "'s task_store \<Rightarrow> 's tracker \<Rightarrow> int \<Rightarrow> string \<Rightarrow> string \<Rightarrow> string option \<Rightarrow> string option
    \<Rightarrow> 's tracker \<times> (py_exc + bool)" where
  "has_running st w now task_type resource_id account_id user_id =
     (case refresh_cache st w now account_id user_id of
        (w', Inl e) \<Rightarrow> (w', Inl e)
      | (w', Inr _) \<Rightarrow> (w', Inr (has_active w' task_type (Some resource_id) account_id user_id)))"

definition get_task_auth ::
  "'s task_store \<Rightarrow> 's tracker \<Rightarrow> int \<Rightarrow> string \<Rightarrow> string \<Rightarrow> string \<Rightarrow> 's tracker \<times> (py_exc + pydict)" where
  "get_task_auth st w now task_id account_id user_id =
     (case validate_owner account_id user_id of
        Inl e \<Rightarrow> (w, Inl e)
      | Inr _ \<Rightarrow>
          (let answer = (\<lambda>t. if matches_owner t (Some account_id) (Some user_id) then t_auth t else []) in
           case cached_task w task_id of
             Some t \<Rightarrow> (w, Inr (answer t))
           | None \<Rightarrow> (case load_from_store st w now task_id account_id (Some user_id) of
               Inl e \<Rightarrow> (w, Inl e)
             | Inr None \<Rightarrow> (w, Inr [])
             | Inr (Some t) \<Rightarrow> (publish_task w t, Inr (answer t)))))"

definition is_cancellation_requested :: "'s tracker \<Rightarrow> string \<Rightarrow> bool" where
  "is_cancellation_requested w task_id =
     (case cached_task w task_id of
        None \<Rightarrow> False
      | Some t \<Rightarrow> t_status t \<in> {CANCELLING, CANCELLED})"

definition task_count :: "'s tracker \<Rightarrow> nat" where
  "task_count w = length (tt_tasks w)"

definition bump :: "(string \<times> nat) list \<Rightarrow> string \<Rightarrow> (string \<times> nat) list" where
  "bump d k = dset d k ((case dget d k of None \<Rightarrow> 0 | Some n \<Rightarrow> n) + 1)"

definition snapshot_counts_by_type :: "'s tracker \<Rightarrow> (string \<times> (string \<times> nat) list) list" where
  "snapshot_counts_by_type w =
     fold (\<lambda>t g. dset g (t_task_type t)
         (bump (case dget g (t_task_type t) of None \<Rightarrow> [] | Some d \<Rightarrow> d) (status_value (t_status t))))
       (cache_snapshot w) []"

section \<open>Deletion and eviction\<close>

definition is_expired :: "task_record \<Rightarrow> int \<Rightarrow> bool" where
  "is_expired t now =
     (let age = now - t_updated_at t in
      if t_status t \<in> {COMPLETED, CANCELLED} then age > TTL_COMPLETED
      else t_status t = FAILED \<and> age > TTL_FAILED)"

definition delete_expired_task :: "'s task_store \<Rightarrow> 's tracker \<Rightarrow> int \<Rightarrow> string \<Rightarrow> 's tracker \<times> bool" where
  "delete_expired_task st w now task_id =
     (case cached_task w task_id of
        None \<Rightarrow> (w, False)
      | Some t \<Rightarrow>
          if \<not> is_expired t now then (w, False)
          else if \<not> nonempty (t_account_id t) \<or> \<not> nonempty (t_user_id t) then (w, False)
          else (case ts_delete st (tt_store w) task_id (the (t_account_id t)) (t_user_id t) of
              (s', Inl e) \<Rightarrow> (w\<lparr>tt_store := s'\<rparr>, False)
            | (s', Inr _) \<Rightarrow> (w\<lparr>tt_store := s', tt_tasks := dpop (tt_tasks w) task_id\<rparr>, True)))"

fun delete_expired_all :: "'s task_store \<Rightarrow> 's tracker \<Rightarrow> int \<Rightarrow> string list \<Rightarrow> 's tracker \<times> nat" where
  "delete_expired_all st w now [] = (w, 0)"
| "delete_expired_all st w now (i # is) =
     (case delete_expired_task st w now i of (w', b) \<Rightarrow>
       (case delete_expired_all st w' now is of (w'', n) \<Rightarrow> (w'', (if b then 1 else 0) + n)))"

definition trim_cache :: "'s tracker \<Rightarrow> 's tracker" where
  "trim_cache w =
     (if length (tt_tasks w) > MAX_TASKS then
        let sorted_tasks = sort_key (\<lambda>e. t_created_at (snd e)) (tt_tasks w);
            excess = length (tt_tasks w) - MAX_TASKS
        in w\<lparr>tt_tasks := fold (\<lambda>e d. dpop d (fst e)) (take excess sorted_tasks) (tt_tasks w)\<rparr>
      else w)"

definition evict_expired :: "'s task_store \<Rightarrow> 's tracker \<Rightarrow> int \<Rightarrow> 's tracker" where
  "evict_expired st w now =
     (let expired_ids = map fst (filter (\<lambda>e. is_expired (snd e) now) (tt_tasks w))
      in trim_cache (fst (delete_expired_all st w now expired_ids)))"

text \<open>One round of the loop of \<open>_delete_user_tasks_on_owner\<close>; the flag tells that a record was
  deleted.\<close>

definition delete_user_task ::
  "'s task_store \<Rightarrow> 's tracker \<Rightarrow> string \<Rightarrow> string \<Rightarrow> string \<Rightarrow> 's tracker \<times> (py_exc + bool)" where
  "delete_user_task st w account_id user_id task_id =
     (case cached_task w task_id of
        None \<Rightarrow> (w, Inr False)
      | Some t \<Rightarrow>
          if \<not> matches_owner t (Some account_id) (Some user_id) then (w, Inr False)
          else if active_status (t_status t) \<or> has_work (tt_index w) task_id then (w, Inl RuntimeError)
          else (case ts_delete st (tt_store w) task_id account_id (Some user_id) of
              (s', Inl e) \<Rightarrow> (w\<lparr>tt_store := s'\<rparr>, Inl e)
            | (s', Inr _) \<Rightarrow>
                (w\<lparr>tt_store := s', tt_tasks := dpop (tt_tasks w) task_id,
                   tt_index := clear_failure (tt_index w) task_id\<rparr>, Inr True)))"

fun delete_user_all ::
  "'s task_store \<Rightarrow> 's tracker \<Rightarrow> string \<Rightarrow> string \<Rightarrow> task_record list \<Rightarrow> nat \<Rightarrow> 's tracker \<times> (py_exc + nat)" where
  "delete_user_all st w account_id user_id [] deleted = (w, Inr deleted)"
| "delete_user_all st w account_id user_id (t # ts) deleted =
     (case delete_user_task st w account_id user_id (t_task_id t) of
        (w', Inl e) \<Rightarrow> (w', Inl e)
      | (w', Inr b) \<Rightarrow> delete_user_all st w' account_id user_id ts (deleted + (if b then 1 else 0)))"

definition delete_user_tasks ::
  "'s task_store \<Rightarrow> 's tracker \<Rightarrow> int \<Rightarrow> string \<Rightarrow> string \<Rightarrow> 's tracker \<times> (py_exc + nat)" where
  "delete_user_tasks st w now account_id user_id =
     (case validate_owner account_id user_id of
        Inl e \<Rightarrow> (w, Inl e)
      | Inr _ \<Rightarrow> (case load_all_from_store st w now account_id (Some user_id) of
          Inl e \<Rightarrow> (w, Inl e)
        | Inr loaded \<Rightarrow>
            let w1 = merge_loaded_tasks w loaded;
                tasks = filter (\<lambda>t. matches_owner t (Some account_id) (Some user_id)) (cache_snapshot w1)
            in if list_ex (\<lambda>t. active_status (t_status t)) tasks then (w1, Inl RuntimeError)
               else delete_user_all st w1 account_id user_id tasks 0))"

section \<open>Work of tasks\<close>

definition register_running_task :: "'s tracker \<Rightarrow> string \<Rightarrow> nat \<Rightarrow> 's tracker \<times> bool" where
  "register_running_task w task_id active_task =
     (case register_active (is_cancellation_requested w) (tt_index w) task_id active_task of
        (wi, c) \<Rightarrow> (w\<lparr>tt_index := wi\<rparr>, c))"

definition unregister_running_task ::
  "'s task_store \<Rightarrow> 's tracker \<Rightarrow> int \<Rightarrow> string \<Rightarrow> nat \<Rightarrow> 's tracker \<times> (py_exc + unit)" where
  "unregister_running_task st w now task_id active_task =
     finalize_task st (w\<lparr>tt_index := unregister_active (tt_index w) task_id active_task\<rparr>) now task_id None None"

definition register_work :: "'s tracker \<Rightarrow> string \<Rightarrow> queue_task_metadata option \<Rightarrow> 's tracker \<times> bool" where
  "register_work w queue_name md =
     (case register (is_cancellation_requested w) (tt_index w) queue_name md of
        (wi, ok) \<Rightarrow> (w\<lparr>tt_index := wi\<rparr>, ok))"

definition finalize_before_ack ::
  "'s task_store \<Rightarrow> int \<Rightarrow> 's tracker \<Rightarrow> queue_task_metadata \<Rightarrow> 's tracker \<times> (py_exc + unit)" where
  "finalize_before_ack st now w md =
     finalize_task st w now (qm_task_id md)
       (if qm_account_id md = [] then None else Some (qm_account_id md))
       (if qm_user_id md = [] then None else Some (qm_user_id md))"

definition tracker_host :: "'s task_store \<Rightarrow> int \<Rightarrow> 's tracker index_host" where
  "tracker_host st now =
     \<lparr>ih_get = tt_index, ih_put = (\<lambda>wi w. w\<lparr>tt_index := wi\<rparr>),
      ih_finalize = Some (finalize_before_ack st now)\<rparr>"

text \<open>\<open>restore_work_tasks\<close>: load the records of rebuilt work.\<close>

fun restore_work_tasks ::
  "'s task_store \<Rightarrow> 's tracker \<Rightarrow> int \<Rightarrow> (string \<times> string \<times> string) list \<Rightarrow> 's tracker \<times> (py_exc + unit)" where
  "restore_work_tasks st w now [] = (w, Inr ())"
| "restore_work_tasks st w now ((task_id, account_id, user_id) # owners) =
     (case get_task st w now task_id (Some account_id) (Some user_id) of
        (w', Inl e) \<Rightarrow> (w', Inl e)
      | (w', Inr _) \<Rightarrow> restore_work_tasks st w' now owners)"

section \<open>What leaves the tracker\<close>

lemma lower_bracket [simp]: "lower_char (CHR ''['') = CHR ''[''"
  by (simp add: lower_char_def is_ascii_upper_def)

lemma bracket_fresh: "CHR ''['' \<notin> set (map lower_char q) \<Longrightarrow> CHR ''['' \<notin> set q"
  by (metis image_eqI lower_bracket set_map)

lemma token_not_space: "token_char c \<Longrightarrow> \<not> is_space c"
  by (auto simp: token_char_def is_space_def is_ascii_alnum_def is_ascii_lower_def is_ascii_upper_def is_ascii_digit_def)

lemma startswith_map_split:
  assumes "startswith (map f s) p"
  obtains q r where "s = q @ r" "map f q = p" "r = drop (length p) s" "length q = length p"
proof
  show "s = take (length p) s @ drop (length p) s" by simp
  show "map f (take (length p) s) = p" using assms by (simp add: startswith_def take_map)
  then show "length (take (length p) s) = length p" by (metis length_map)
qed simp

lemma secret_prefix_split:
  assumes "secret_prefix s = Some r"
  shows "\<exists>q. s = q @ r \<and> CHR ''['' \<notin> set q \<and> (\<forall>c y. token_char c \<longrightarrow> secret_prefix (q @ c # y) = Some (c # y))"
proof -
  let ?l = "map lower_char s"
  have slack: "\<exists>c \<in> set ''baprs''. startswith ?l (''xox'' @ [c, CHR ''-''])"
    if "startswith ?l ''xox''" "length ?l \<ge> 5" "?l ! 3 \<in> set ''baprs''" "?l ! 4 = CHR ''-''"
  proof -
    have "take 5 ?l = take 3 ?l @ [?l ! 3, ?l ! 4]"
      using that(2) by (simp add: take_Suc_conv_app_nth eval_nat_numeral)
    with that show ?thesis by (intro bexI [of _ "?l ! 3"]) (simp_all add: startswith_def eval_nat_numeral)
  qed
  have "(\<exists>p \<in> {''sk-'', ''cr_'', ''ghp_'', ''ntn_''}. startswith ?l p \<and> r = drop (length p) s)
      \<or> (\<exists>c \<in> set ''baprs''. startswith ?l (''xox'' @ [c, CHR ''-''])) \<and> r = drop 5 s
      \<or> startswith ?l ''bearer'' \<and> length s \<ge> 7 \<and> is_space (s ! 6) \<and> r = dropWhile is_space (drop 6 s)"
    using assms slack unfolding secret_prefix_def Let_def
    by (simp only: split: if_splits) (simp_all add: eval_nat_numeral, blast+)
  then show ?thesis
  proof (elim disjE bexE conjE)
    fix p
    assume short: "p \<in> {''sk-'', ''cr_'', ''ghp_'', ''ntn_''}" "startswith ?l p" "r = drop (length p) s"
    then obtain q where q: "s = q @ r" "map lower_char q = p" using startswith_map_split [OF short(2)] by metis
    have "CHR ''['' \<notin> set q" by (rule bracket_fresh, unfold q(2)) (use short(1) in \<open>elim insertE emptyE; simp\<close>)
    moreover have "secret_prefix (q @ z) = Some z" for z
    proof -
      have l: "map lower_char (q @ z) = p @ map lower_char z" using q(2) by simp
      have "length q = length p" using q(2) by (metis length_map)
      with short(1) show ?thesis by (elim insertE emptyE) (simp_all add: secret_prefix_def Let_def l del: map_append)
    qed
    ultimately show ?thesis using q(1) by blast
  next
    fix c
    assume slack: "c \<in> set ''baprs''" "startswith ?l (''xox'' @ [c, CHR ''-''])" "r = drop 5 s"
    obtain q u where q: "s = q @ u" "map lower_char q = ''xox'' @ [c, CHR ''-'']" "u = drop (length (''xox'' @ [c, CHR ''-''])) s"
      using startswith_map_split [OF slack(2)] by metis
    have u: "u = r" using q(3) slack(3) by (simp add: eval_nat_numeral)
    have "CHR ''['' \<notin> set q" by (rule bracket_fresh, unfold q(2)) (use slack(1) in \<open>cases "c = CHR ''[''"; simp\<close>)
    moreover have "secret_prefix (q @ z) = Some z" for z
    proof -
      have l: "map lower_char (q @ z) = (''xox'' @ [c, CHR ''-'']) @ map lower_char z" using q(2) by simp
      have "length q = 5" using arg_cong [OF q(2), of length] by simp
      with slack(1) show ?thesis by (simp add: secret_prefix_def Let_def l del: map_append)
    qed
    ultimately show ?thesis using q(1) unfolding u by blast
  next
    assume bearer: "startswith ?l ''bearer''" "length s \<ge> 7" "is_space (s ! 6)" "r = dropWhile is_space (drop 6 s)"
    obtain q t where q': "s = q @ t" "map lower_char q = ''bearer''" "length q = length ''bearer''" "t = drop (length ''bearer'') s"
      using startswith_map_split [OF bearer(1)] by metis
    then have q: "s = q @ t" "map lower_char q = ''bearer''" "length q = 6" "t = drop 6 s" by (simp_all add: eval_nat_numeral)
    let ?sp = "takeWhile is_space t"
    have t: "t = ?sp @ r" using bearer(4) q(4) by simp
    have ne: "?sp \<noteq> []" using bearer(2,3) q(1,3) by (cases t) (auto simp: nth_append)
    have "CHR ''['' \<notin> set ?sp" by (auto dest: set_takeWhileD simp: is_space_def)
    moreover have "CHR ''['' \<notin> set q" by (rule bracket_fresh, unfold q(2)) simp
    moreover have "secret_prefix ((q @ ?sp) @ c # y) = Some (c # y)" if "token_char c" for c y
    proof -
      have "is_space (((q @ ?sp) @ c # y) ! 6)" using ne q(3)
        by (simp add: nth_append) (metis nth_mem length_greater_0_conv set_takeWhileD)
      moreover have "dropWhile is_space (drop 6 ((q @ ?sp) @ c # y)) = c # y"
        using q(3) token_not_space [OF that] by (simp add: dropWhile_append) (meson set_takeWhileD)
      moreover have "length (((q @ ?sp) @ c # y)) \<ge> 7" using q(3) by simp
      moreover have "map lower_char ((q @ ?sp) @ c # y) = ''bearer'' @ map lower_char (?sp @ c # y)" using q(2) by simp
      ultimately show ?thesis unfolding secret_prefix_def Let_def by simp
    qed
    moreover have "s = (q @ ?sp) @ r" using q(1) t by (metis append_assoc)
    ultimately show ?thesis by (intro exI [of _ "q @ ?sp"] conjI allI impI) (simp_all only: set_append Un_iff simp_thms)
  qed
qed

lemma match_secret_split:
  assumes "match_secret s = Some r"
  shows "\<exists>q x. s = q @ x \<and> q \<noteq> [] \<and> CHR ''['' \<notin> set q \<and> (\<forall>y. match_secret (q @ y) \<noteq> None)"
proof -
  from assms obtain c z where "secret_prefix s = Some (c # z)" and c: "token_char c"
    by (auto simp: match_secret_def split: option.splits list.splits if_splits)
  from secret_prefix_split [OF this(1)] obtain q where q: "s = q @ c # z" "CHR ''['' \<notin> set q"
    "\<forall>c y. token_char c \<longrightarrow> secret_prefix (q @ c # y) = Some (c # y)" by blast
  have "c \<noteq> CHR ''[''" using c by (auto simp: token_char_def is_ascii_alnum_def is_ascii_lower_def is_ascii_upper_def is_ascii_digit_def)
  then show ?thesis using q c by (intro exI [of _ "q @ [c]"] exI [of _ z]) (auto simp: match_secret_def)
qed

text \<open>Redacting keeps a text up to the first secret, which starts with a bracket afterwards.\<close>

lemma redact_common:
  "\<exists>p x y. s = p @ x \<and> redact s = p @ y \<and> (x = [] \<and> y = [] \<or> (\<exists>z. y = CHR ''['' # z))"
proof (induction s rule: redact.induct)
  case (1 s)
  show ?case
  proof (cases "match_secret s")
    case (Some r)
    then show ?thesis by (intro exI [of _ "[]"] exI [of _ s] exI [of _ "redact s"]) (simp add: redact.simps [of s])
  next
    case None
    show ?thesis
    proof (cases s)
      case Nil
      with None show ?thesis by (intro exI [of _ "[]"]) (simp add: redact.simps [of "[]"])
    next
      case (Cons c cs)
      with 1 None obtain p x y where "cs = p @ x" "redact cs = p @ y" "x = [] \<and> y = [] \<or> (\<exists>z. y = CHR ''['' # z)" by blast
      with None Cons have "s = (c # p) @ x \<and> redact s = (c # p) @ y \<and> (x = [] \<and> y = [] \<or> (\<exists>z. y = CHR ''['' # z))"
        by (simp add: redact.simps [of "c # p @ x"])
      then show ?thesis by (intro exI)
    qed
  qed
qed

lemma no_match_bracket:
  assumes "match_secret (p @ x) = None" "x = [] \<and> y = [] \<or> (\<exists>z. y = CHR ''['' # z)"
  shows "match_secret (p @ y) = None"
proof (rule ccontr)
  assume "match_secret (p @ y) \<noteq> None"
  then obtain q u where q: "p @ y = q @ u" "CHR ''['' \<notin> set q" "\<forall>v. match_secret (q @ v) \<noteq> None"
    using match_secret_split by blast
  from q(1) consider v where "p = q @ v" | v where "q = p @ v" "y = v @ u"
    by (metis append_eq_append_conv2)
  then show False
  proof cases
    case 1 with q(3) assms(1) show False by (metis append_assoc)
  next
    case 2
    with assms(2) q(2) have "v = [] \<or> x = [] \<and> y = []" by (cases v) auto
    with 2 q(3) assms(1) show False by (metis append_Nil2 append_is_Nil_conv)
  qed
qed

lemma no_prefix_start: "lower_char c \<notin> set ''scgnxb'' \<Longrightarrow> match_secret (c # cs) = None"
  by (auto simp: match_secret_def secret_prefix_def Let_def split: list.splits)

lemma lower_marker:
  "map lower_char ''[REDACTED]'' = ''[redacted]''"
  by code_simp

lemma no_match_marker:
  assumes "k < 10"
  shows "match_secret (drop k ''[REDACTED]'' @ y) = None"
proof -
  have "match_secret (CHR ''C'' # CHR ''T'' # cs) = None" for cs
    using lower_marker by (simp add: match_secret_def secret_prefix_def Let_def)
  moreover from assms have "k \<in> {0, 1, 2, 3, 4, 5, 6, 7, 8, 9}" by auto
  ultimately show ?thesis using lower_marker by (elim insertE) (simp_all add: no_prefix_start)
qed

lemma redacted_no_match: "match_secret (drop k (redact s)) = None"
proof (induction s arbitrary: k rule: redact.induct)
  case (1 s)
  show ?case
  proof (cases "match_secret s")
    case (Some r)
    have e: "redact s = ''[REDACTED]'' @ redact r" using Some by (simp add: redact.simps [of s])
    show ?thesis
    proof (cases "k < 10")
      case True
      then have "drop k (redact s) = drop k ''[REDACTED]'' @ redact r" unfolding e drop_append by simp
      with no_match_marker [OF True, of "redact r"] show ?thesis by simp
    next
      case False
      then have "drop k (redact s) = drop (k - 10) (redact r)" unfolding e drop_append by (simp add: eval_nat_numeral)
      with "1.IH"(2) [OF Some, of "k - 10"] show ?thesis by simp
    qed
  next
    case None
    show ?thesis
    proof (cases s)
      case Nil
      with None show ?thesis by (simp add: redact.simps [of "[]"])
    next
      case (Cons c cs)
      obtain p x y where p: "cs = p @ x" "redact cs = p @ y" "x = [] \<and> y = [] \<or> (\<exists>z. y = CHR ''['' # z)"
        using redact_common by blast
      have "match_secret (c # redact cs) = None"
        using no_match_bracket [of "c # p" x y] None Cons p by simp
      with None Cons "1.IH"(1) [OF None Cons] show ?thesis by (cases k) (simp_all add: redact.simps [of "c # cs"])
    qed
  qed
qed


text \<open>Property. An error message that leaves the tracker holds no token of the kinds the
  tracker knows: no position of the redacted text starts one, and what is stored is the redacted
  text itself or, when it is longer than the limit, its first 500 characters with a marker.\<close>

theorem sanitized_error_hides_secrets:
  "match_secret (drop k (redact err)) = None
   \<and> sanitize_error err = (if length (redact err) \<le> 500 then redact err
        else take 500 (redact err) @ ''...[truncated]'')
   \<and> length (sanitize_error err) \<le> 514"
  by (simp add: redacted_no_match sanitize_error_def Let_def MAX_ERROR_LEN_def)

text \<open>No dictionary at any depth has the key.\<close>

fun lacks_key :: "string \<Rightarrow> pyval \<Rightarrow> bool" where
  "lacks_key k (PDict kvs) \<longleftrightarrow> list_all (\<lambda>kv. fst kv \<noteq> k \<and> lacks_key k (snd kv)) kvs"
| "lacks_key k (PList vs) \<longleftrightarrow> list_all (lacks_key k) vs"
| "lacks_key k v \<longleftrightarrow> True"

lemma sanitize_lacks_key: "lacks_key ''user_key'' (sanitize_task_result v)"
  by (induction v rule: sanitize_task_result.induct) (auto simp: list_all_iff)

lemma sanitize_fixes: "lacks_key ''user_key'' v \<Longrightarrow> sanitize_task_result v = v"
proof (induction v rule: sanitize_task_result.induct)
  case (1 kvs)
  have "map (\<lambda>kv. (fst kv, sanitize_task_result (snd kv))) kvs = kvs"
    using 1 by (intro map_idI) (auto simp: list_all_iff)
  with 1 show ?case by (auto simp: list_all_iff intro!: filter_True)
qed (auto simp: list_all_iff intro!: map_idI)

lemma sanitize_dict_PDict: "PDict (sanitize_dict d) = sanitize_task_result (PDict d)"
  by (simp add: sanitize_dict_def)

lemma sanitize_dict_lacks: "lacks_key ''user_key'' (PDict (sanitize_dict d))"
  unfolding sanitize_dict_PDict by (rule sanitize_lacks_key)

lemma sanitize_dict_fixes: "lacks_key ''user_key'' (PDict d) \<Longrightarrow> sanitize_dict d = d"
  using sanitize_fixes [of "PDict d"] by (simp add: sanitize_dict_def)

lemma copy_task_idem [simp]: "copy_task (copy_task t) = copy_task t"
proof -
  have "sanitize_dict (sanitize_dict d) = sanitize_dict d" for d
    by (rule sanitize_dict_fixes) (rule sanitize_dict_lacks)
  then show ?thesis by (cases t) (simp add: copy_task_def option.map_comp comp_def)
qed

lemma copy_task_sel [simp]:
  "t_task_id (copy_task t) = t_task_id t" "t_task_type (copy_task t) = t_task_type t"
  "t_status (copy_task t) = t_status t" "t_created_at (copy_task t) = t_created_at t"
  "t_updated_at (copy_task t) = t_updated_at t" "t_resource_id (copy_task t) = t_resource_id t"
  "t_account_id (copy_task t) = t_account_id t" "t_user_id (copy_task t) = t_user_id t"
  "t_stage (copy_task t) = t_stage t" "t_error (copy_task t) = t_error t" "t_auth (copy_task t) = []"
  by (simp_all add: copy_task_def)

text \<open>A record that shows no secret.\<close>

definition exposable :: "task_record \<Rightarrow> bool" where
  "exposable t \<longleftrightarrow> t_auth t = [] \<and> lacks_key ''user_key'' (PDict (t_meta t))
     \<and> (case t_result t of None \<Rightarrow> True | Some r \<Rightarrow> lacks_key ''user_key'' (PDict r))"

lemma copy_task_exposable [simp]: "exposable (copy_task t)"
  using sanitize_dict_lacks by (auto simp: exposable_def copy_task_def split: option.splits simp del: lacks_key.simps)

lemma in_filter_tasks: "t \<in> set (filter_tasks ty s r i ts) \<Longrightarrow> t \<in> set ts"
  by (simp add: filter_tasks_def)

lemma set_py_take: "set (py_take n xs) \<subseteq> set xs"
  by (simp add: py_take_def set_take_subset)

lemma matches_owner_copy [simp]: "matches_owner (copy_task t) a u = matches_owner t a u"
  by (simp add: matches_owner_def)

lemma load_from_store_Some:
  "load_from_store st w now i a u = Inr (Some t) \<Longrightarrow>
    \<exists>d. ts_get st (tt_store w) i (Some a) u = Inr (Some d) \<and> record_from_payload now d = Inr t"
  by (auto simp: load_from_store_def ebind_Inr split: option.splits)

lemma cancel_section_done:
  "cancel_section st w now i a u = (w', Inr (Some (Some t))) \<Longrightarrow> exposable t"
  by (auto simp: cancel_section_def split: sum.splits option.splits if_splits prod.splits)

text \<open>Property. Queries and cancellation return only records that show no secret and that
  belong to the owner asked for: the credentials are empty and no dictionary of the
  metadata or the result, at any depth, has the key \<open>user_key\<close>.\<close>

theorem returned_tasks_expose_nothing:
  "(\<forall>t. snd (get_task st w now i a u) = Inr (Some t) \<longrightarrow> exposable t \<and> matches_owner t a u)
   \<and> (\<forall>ts. snd (list_tasks st w now ty s r n a u incl) = Inr ts \<longrightarrow>
        list_all (\<lambda>t. exposable t \<and> matches_owner t a u) ts)
   \<and> (\<forall>t. snd (snd (cancel st w now now2 i a u)) = Inr (Some t) \<longrightarrow> exposable t)"
proof (intro conjI allI impI)
  show "list_all (\<lambda>t. exposable t \<and> matches_owner t a u) ts"
    if listed: "snd (list_tasks st w now ty s r n a u incl) = Inr ts" for ts
  proof -
    obtain w' where "refresh_cache st w now a u = (w', Inr ())"
      using listed by (cases "refresh_cache st w now a u"; cases "snd (refresh_cache st w now a u)")
        (auto simp: list_tasks_def)
    with listed have "ts = py_take n (sort_key (\<lambda>t. - t_created_at t)
        (filter_tasks ty s r incl (map copy_task (filter (\<lambda>t. matches_owner t a u) (cache_snapshot w')))))"
      by (simp add: list_tasks_def)
    then have "set ts \<subseteq> copy_task ` {t \<in> set (cache_snapshot w'). matches_owner t a u}"
      using set_py_take in_filter_tasks by fastforce
    then show ?thesis by (auto simp: list_all_iff)
  qed
qed (auto simp: get_task_def cancel_def Let_def split: option.splits if_splits sum.splits prod.splits
    dest!: cancel_section_done)

definition sample_tracker :: "(string \<times> pyval) list tracker" where
  "sample_tracker = \<lparr>tt_store = [], tt_tasks = [(''t1'', sample_task)], tt_index = empty_index\<rparr>"

theorem returned_tasks_expose_nothing_witness:
  "snd (get_task (persistent_store memory_files) sample_tracker 0 ''t1'' (Some ''acme'') None) = Inr (Some (copy_task sample_task))
   \<and> t_auth sample_task \<noteq> [] \<and> exposable (copy_task sample_task)"
proof -
  have "snd (get_task (persistent_store memory_files) sample_tracker 0 ''t1'' (Some ''acme'') None) = Inr (Some (copy_task sample_task))"
    by (simp add: get_task_def cached_task_def sample_tracker_def matches_owner_def sample_task_def)
  with returned_tasks_expose_nothing [of "persistent_store memory_files" sample_tracker 0 "''t1''" "Some ''acme''" None]
  show ?thesis by (simp add: sample_task_def)
qed

section \<open>Cancellation and eviction\<close>

lemma persist_ok:
  assumes "snd (ts_update st (tt_store w) t) = Inr ()"
  shows "persist_and_publish st w False t = (publish_task (w\<lparr>tt_store := fst (ts_update st (tt_store w) t)\<rparr>) t, Inr ())"
  using assms by (cases "ts_update st (tt_store w) t") (simp add: persist_and_publish_def)

lemma cached_publish [simp]:
  "cached_task (publish_task w t) i = (if i = t_task_id t then Some t else cached_task w i)"
  by (simp add: cached_task_def publish_task_def)

lemma cached_store [simp]: "cached_task (w\<lparr>tt_store := s\<rparr>) i = cached_task w i"
  "cached_task (w\<lparr>tt_index := x\<rparr>) i = cached_task w i"
  by (simp_all add: cached_task_def)

lemma publish_sel [simp]:
  "tt_store (publish_task w t) = tt_store w" "tt_index (publish_task w t) = tt_index w"
  by (simp_all add: publish_task_def)

lemma next_updated_at_gt: "t_updated_at t < next_updated_at t now"
  by (simp add: next_updated_at_def)

text \<open>Property C32. Cancelling a running task of a cancellable type tells its running work to stop,
  makes the task \<open>cancelling\<close> while work is left and \<open>cancelled\<close> otherwise, and from then on no
  work can be registered for it.\<close>

theorem cancel_stops_and_blocks_work:
  assumes "cached_task w i = Some t" "t_task_id t = i" "matches_owner t a u"
    and "t_task_type t \<in> set CANCELLABLE_TASK_TYPES" "idle_running (t_status t)"
    and "\<forall>s x. snd (ts_update st s x) = Inr ()"
  shows "case cancel st w now now2 i a u of (w', stopped, r) \<Rightarrow>
    stopped = cancel_active (tt_index w) i
    \<and> (\<exists>t'. cached_task w' i = Some t' \<and> r = Inr (Some (copy_task t'))
        \<and> t_status t' = (if has_work (tt_index w) i then CANCELLING else CANCELLED)
        \<and> t_updated_at t < t_updated_at t')
    \<and> (\<forall>q m. qm_task_id m = i \<longrightarrow> register_work w' q (Some m) = (w', False))"
proof -
  let ?t1 = "t\<lparr>t_status := CANCELLING, t_updated_at := next_updated_at t now\<rparr>"
  let ?w1 = "publish_task (w\<lparr>tt_store := fst (ts_update st (tt_store w) ?t1)\<rparr>) ?t1"
  let ?t2 = "?t1\<lparr>t_status := CANCELLED, t_stage := Some ''cancelled'', t_updated_at := next_updated_at ?t1 now2, t_auth := []\<rparr>"
  have p: "persist_and_publish st w False x = (publish_task (w\<lparr>tt_store := fst (ts_update st (tt_store w) x)\<rparr>) x, Inr ())" for w x
    using assms(6) by (simp add: persist_ok)
  have not: "t_status t \<noteq> CANCELLED" "t_status t \<noteq> CANCELLING" "\<not> terminal_status (t_status t)"
    using assms(5) by (auto simp: idle_running_def terminal_status_def)
  have c: "cancel_section st w now i a u = (?w1, Inr (Some None))"
    using assms(1,3,4) not by (simp add: cancel_section_def load_for_update_def p)
  have m: "matches_owner ?t1 a u" "matches_owner ?t2 a u" using assms(3) by (simp_all add: matches_owner_def)
  have l: "load_for_update st ?w1 now2 i a u = Inr (Some ?t1)" using m(1) assms(2) by (simp add: load_for_update_def)
  have blocked: "register_work w' q (Some md) = (w', False)" if "is_cancellation_requested w' (qm_task_id md)" for w' :: "'a tracker" and q md
    using that by (simp add: register_work_def register_def)
  show ?thesis
  proof (cases "has_work (tt_index w) i")
    case True
    then have f: "finalize_task st ?w1 now2 i a u = (?w1, Inr ())" by (simp add: finalize_task_def)
    have "is_cancellation_requested ?w1 i" using assms(2) by (simp add: is_cancellation_requested_def)
    then show ?thesis using True assms(2) m blocked next_updated_at_gt [of t now]
      by (simp add: cancel_def c f Let_def)
  next
    case False
    have "finalized_record ?w1 now2 ?t1 = Some ?t2" by (simp add: finalized_record_def Let_def)
    then have "\<exists>w2. finalize_task st ?w1 now2 i a u = (w2, Inr ()) \<and> cached_task w2 i = Some ?t2"
      using False l assms(2) by (simp add: finalize_task_def p active_status_def)
    then obtain w2 where f: "finalize_task st ?w1 now2 i a u = (w2, Inr ())" and w2: "cached_task w2 i = Some ?t2" by blast
    have "is_cancellation_requested w2 i" using w2 by (simp add: is_cancellation_requested_def)
    then show ?thesis using False assms(2) m blocked w2 less_trans [OF next_updated_at_gt [of t now] next_updated_at_gt [of ?t1 now2, simplified]]
      by (simp add: cancel_def c f Let_def)
  qed
qed

definition always_ok :: "nat task_store" where
  "always_ok = \<lparr>ts_create = (\<lambda>s t. (s, Inr ())), ts_update = (\<lambda>s t. (s, Inr ())), ts_get = (\<lambda>s i a u. Inr None),
     ts_list = (\<lambda>s a u. Inr []), ts_delete = (\<lambda>s i a u. (s, Inr ()))\<rparr>"

definition busy_tracker :: "nat tracker" where
  "busy_tracker = \<lparr>tt_store = 0, tt_tasks = [(''t1'', sample_task)], tt_index = rollback_ack empty_index ''q'' sample_md\<rparr>"

theorem cancel_stops_and_blocks_work_witness:
  "has_work (tt_index busy_tracker) ''t1''
   \<and> register_work (fst (cancel always_ok busy_tracker 200 300 ''t1'' None None)) ''q'' (Some sample_md)
     = (fst (cancel always_ok busy_tracker 200 300 ''t1'' None None), False)"
proof -
  have 1: "cached_task busy_tracker ''t1'' = Some sample_task" "t_task_id sample_task = ''t1''"
    "matches_owner sample_task None None" "t_task_type sample_task \<in> set CANCELLABLE_TASK_TYPES"
    "idle_running (t_status sample_task)" "\<forall>s x. snd (ts_update always_ok s x) = Inr ()"
    by (simp_all add: cached_task_def busy_tracker_def sample_task_def matches_owner_def CANCELLABLE_TASK_TYPES_def
        idle_running_def always_ok_def)
  have 2: "qm_task_id sample_md = ''t1''" "has_work (tt_index busy_tracker) ''t1''"
    by (simp_all add: sample_md_def busy_tracker_def has_work_def rollback_ack_def set_of_add_work)
  from cancel_stops_and_blocks_work [OF 1, of 200 300] 2 show ?thesis by (auto split: prod.splits)
qed

lemma delete_expired_task_subset:
  "set (tt_tasks (fst (delete_expired_task st w now i))) \<subseteq> set (tt_tasks w)"
  "distinct (dkeys (tt_tasks w)) \<Longrightarrow> distinct (dkeys (tt_tasks (fst (delete_expired_task st w now i))))"
  "cached_task w j = Some t \<Longrightarrow> \<not> is_expired t now \<Longrightarrow> cached_task (fst (delete_expired_task st w now i)) j = Some t"
  using set_dpop_subset [of "tt_tasks w" i]
  by (auto simp: delete_expired_task_def cached_task_def split: option.splits prod.splits sum.splits)

lemma delete_expired_all_subset:
  "set (tt_tasks (fst (delete_expired_all st w now ids))) \<subseteq> set (tt_tasks w)
   \<and> (distinct (dkeys (tt_tasks w)) \<longrightarrow> distinct (dkeys (tt_tasks (fst (delete_expired_all st w now ids)))))
   \<and> (cached_task w j = Some t \<and> \<not> is_expired t now \<longrightarrow> cached_task (fst (delete_expired_all st w now ids)) j = Some t)"
proof (induction ids arbitrary: w)
  case (Cons i ids)
  obtain w' b where w': "delete_expired_task st w now i = (w', b)" by force
  note d = delete_expired_task_subset [where st = st and w = w and now = now and i = i, unfolded w' fst_conv]
  from Cons [of w'] show ?case using d by (auto simp: w' split: prod.splits)
qed simp

lemma fold_dpop: "fold (\<lambda>e d. dpop d (fst e)) es d = filter (\<lambda>e. fst e \<notin> fst ` set es) d"
  by (induction es arbitrary: d) (auto simp: dpop_def intro!: filter_cong)

lemma trim_cache_bound:
  assumes "distinct (dkeys (tt_tasks w))"
  shows "length (tt_tasks (trim_cache w)) \<le> MAX_TASKS" "set (tt_tasks (trim_cache w)) \<subseteq> set (tt_tasks w)"
    "length (tt_tasks w) \<le> MAX_TASKS \<Longrightarrow> trim_cache w = w"
proof -
  let ?d = "tt_tasks w"
  let ?ex = "take (length ?d - MAX_TASKS) (sort_key (\<lambda>e. t_created_at (snd e)) ?d)"
  have "length (filter (\<lambda>e. fst e \<notin> fst ` set ?ex) ?d) \<le> MAX_TASKS"
  proof -
    have dist: "distinct (sort_key (\<lambda>e. t_created_at (snd e)) ?d)" "distinct ?d"
      using assms by (auto simp: dkeys_def distinct_map)
    have "set (filter (\<lambda>e. fst e \<notin> fst ` set ?ex) ?d) \<subseteq> set ?d - set ?ex" by auto
    moreover have "card (set ?d - set ?ex) = length ?d - length ?ex"
      using dist set_take_subset [of _ "sort_key (\<lambda>e. t_created_at (snd e)) ?d"]
      by (subst card_Diff_subset) (auto simp: distinct_card)
    ultimately have "card (set (filter (\<lambda>e. fst e \<notin> fst ` set ?ex) ?d)) \<le> length ?d - length ?ex"
      by (metis card_mono finite_Diff finite_set)
    moreover have "length ?d - length ?ex \<le> MAX_TASKS" by simp
    ultimately show ?thesis unfolding distinct_card [OF distinct_filter [OF dist(2)]] by (rule order_trans)
  qed
  then show "length (tt_tasks (trim_cache w)) \<le> MAX_TASKS" by (simp add: trim_cache_def Let_def fold_dpop)
qed (auto simp: trim_cache_def Let_def fold_dpop)

text \<open>Property. Eviction bounds the cache: it holds at most \<open>MAX_TASKS\<close> records afterwards, all of
  them records it held before, and as long as the limit is not reached only records whose
  lifetime is over are dropped.\<close>

theorem eviction_bounds_cache:
  assumes "distinct (dkeys (tt_tasks w))"
  shows "task_count (evict_expired st w now) \<le> MAX_TASKS
    \<and> set (tt_tasks (evict_expired st w now)) \<subseteq> set (tt_tasks w)
    \<and> (task_count w \<le> MAX_TASKS \<and> cached_task w i = Some t \<and> \<not> is_expired t now \<longrightarrow>
        cached_task (evict_expired st w now) i = Some t)"
proof -
  define w' where "w' = fst (delete_expired_all st w now (map fst (filter (\<lambda>e. is_expired (snd e) now) (tt_tasks w))))"
  note d = delete_expired_all_subset [where st = st and w = w and now = now and j = i and t = t
      and ids = "map fst (filter (\<lambda>e. is_expired (snd e) now) (tt_tasks w))", folded w'_def]
  have e: "evict_expired st w now = trim_cache w'" by (simp add: evict_expired_def w'_def Let_def)
  have dist: "distinct (dkeys (tt_tasks w'))" using d assms by blast
  have "distinct (tt_tasks w')" "distinct (tt_tasks w)" using dist assms by (auto simp: dkeys_def distinct_map)
  then have "length (tt_tasks w') \<le> length (tt_tasks w)" using d by (metis List.finite_set card_mono distinct_card)
  with d trim_cache_bound [OF dist] show ?thesis by (auto simp: e task_count_def)
qed

theorem eviction_bounds_cache_witness:
  "cached_task (evict_expired always_ok busy_tracker 1000) ''t1'' = Some sample_task"
  using eviction_bounds_cache [of busy_tracker always_ok 1000 "''t1''" sample_task]
  by (simp add: busy_tracker_def dkeys_def task_count_def MAX_TASKS_def cached_task_def is_expired_def sample_task_def)

end
