(* ===== verification/Task_Lifecycle.thy ===== *)
theory Task_Lifecycle
  imports Task_Tracker
begin

text \<open>
  The life cycle of tasks: the critical sections of \<open>TaskTracker\<close>
  (\<open>openviking/service/task_tracker.py\<close>) as the steps of a transition system.

  Mutations of one task are serialised by its lock, so each section is one step; loads from the
  store that happen outside a lock are two steps, the read and the merge of what it
  returned, with any number of other steps in between. The abstract specification is the
  relation \<open>legal_update\<close> on task records. The main results are that the durable record of
  a task only changes by legal updates, that a terminal record never changes, and that
  the cache agrees with the store, for every task that was not dropped from the cache.
\<close>

section \<open>The abstract life cycle\<close>

type_synonym task_key = "string \<times> string \<times> string"

definition owner_key :: "task_record \<Rightarrow> task_key option" where
  "owner_key t = (case (t_account_id t, t_user_id t) of
      (Some a, Some u) \<Rightarrow> Some (a, u, t_task_id t) | _ \<Rightarrow> None)"

definition plain_task :: "task_record \<Rightarrow> bool" where
  "plain_task t \<longleftrightarrow> (\<exists>a u. t_account_id t = Some a \<and> t_user_id t = Some u \<and> plain_key a u (t_task_id t))"

fun status_next :: "task_status \<Rightarrow> task_status \<Rightarrow> bool" where
  "status_next PENDING s \<longleftrightarrow> s \<noteq> CANCELLED"
| "status_next RUNNING s \<longleftrightarrow> s \<in> {RUNNING, CANCELLING, COMPLETED, FAILED}"
| "status_next CANCELLING s \<longleftrightarrow> s = CANCELLED"
| "status_next _ s \<longleftrightarrow> False"

definition legal_update :: "task_record \<Rightarrow> task_record \<Rightarrow> bool" where
  "legal_update t t' \<longleftrightarrow> owner_key t' = owner_key t \<and> t_task_id t' = t_task_id t
     \<and> t_account_id t' = t_account_id t \<and> t_user_id t' = t_user_id t
     \<and> t_task_type t' = t_task_type t \<and> t_created_at t' = t_created_at t
     \<and> t_updated_at t < t_updated_at t' \<and> status_next (t_status t) (t_status t')"

lemma legal_updateI:
  assumes "t_task_id t' = t_task_id t" "t_account_id t' = t_account_id t" "t_user_id t' = t_user_id t"
    "t_task_type t' = t_task_type t" "t_created_at t' = t_created_at t"
    "t_updated_at t < t_updated_at t'" "status_next (t_status t) (t_status t')"
  shows "legal_update t t'"
  using assms by (simp add: legal_update_def owner_key_def split: option.split)

lemma terminal_no_update: "terminal_status (t_status t) \<Longrightarrow> \<not> legal_update t t'"
  by (auto simp: terminal_status_def legal_update_def)

lemma legal_path_terminal:
  "legal_update\<^sup>*\<^sup>* t t' \<Longrightarrow> terminal_status (t_status t) \<Longrightarrow> t' = t"
  by (induction rule: rtranclp_induct) (auto simp: terminal_no_update)

lemma legal_path_key: "legal_update\<^sup>*\<^sup>* t t' \<Longrightarrow> owner_key t' = owner_key t"
  by (induction rule: rtranclp_induct) (auto simp: legal_update_def)

lemma legal_path_time: "legal_update\<^sup>*\<^sup>* t t' \<Longrightarrow> t' = t \<or> t_updated_at t < t_updated_at t'"
  by (induction rule: rtranclp_induct) (auto simp: legal_update_def)

lemma plain_legal: "plain_task t \<Longrightarrow> legal_update t t' \<Longrightarrow> plain_task t'"
  by (auto simp: plain_task_def legal_update_def)

lemma plain_owner_key: "plain_task t \<Longrightarrow> \<exists>a u. owner_key t = Some (a, u, t_task_id t) \<and> plain_key a u (t_task_id t)"
  by (auto simp: plain_task_def owner_key_def)

lemma owner_key_id: "owner_key t = Some (a, u, i) \<Longrightarrow> i = t_task_id t \<and> t_account_id t = Some a \<and> t_user_id t = Some u"
  by (auto simp: owner_key_def split: option.splits)

lemma payload_inject [simp]: "task_to_payload t = task_to_payload t' \<longleftrightarrow> t = t'"
  by (metis record_roundtrip Inr_inject)

section \<open>Lawful stores\<close>

text \<open>What the tracker relies on of its store, \<open>contents\<close> being the payload kept for each key.\<close>

definition store_lawful :: "'s task_store \<Rightarrow> ('s \<Rightarrow> task_key \<Rightarrow> pydict option) \<Rightarrow> bool" where
  "store_lawful st contents \<longleftrightarrow>
     (\<forall>s t s' k. plain_task t \<and> owner_key t = Some k \<and> (ts_create st s t = (s', Inr ()) \<or> ts_update st s t = (s', Inr ()))
        \<longrightarrow> contents s' = (contents s)(k \<mapsto> task_to_payload t))
     \<and> (\<forall>s t s' e. plain_task t \<and> (ts_create st s t = (s', Inl e) \<or> ts_update st s t = (s', Inl e))
        \<longrightarrow> contents s' = contents s)
     \<and> (\<forall>s i a u p. plain_key a u i \<and> ts_get st s i (Some a) (Some u) = Inr p \<longrightarrow> p = contents s (a, u, i))
     \<and> (\<forall>s i a. ts_get st s i (Some a) None = Inr None)
     \<and> (\<forall>s a u ds. plain_key a u [] \<and> ts_list st s a (Some u) = Inr ds \<longrightarrow> set ds = {d. \<exists>i. contents s (a, u, i) = Some d})
     \<and> (\<forall>s a. ts_list st s a None = Inr [])
     \<and> (\<forall>s i a u s'. plain_key a u i \<and> ts_delete st s i a (Some u) = (s', Inr ()) \<longrightarrow> contents s' = (contents s)((a, u, i) := None))
     \<and> (\<forall>s i a u s' e. plain_key a u i \<and> ts_delete st s i a (Some u) = (s', Inl e) \<longrightarrow> contents s' = contents s)"

lemma store_lawfulD:
  assumes "store_lawful st contents"
  shows "plain_task t \<Longrightarrow> owner_key t = Some k \<Longrightarrow> ts_create st s t = (s', Inr ()) \<Longrightarrow> contents s' = (contents s)(k \<mapsto> task_to_payload t)"
    and "plain_task t \<Longrightarrow> owner_key t = Some k \<Longrightarrow> ts_update st s t = (s', Inr ()) \<Longrightarrow> contents s' = (contents s)(k \<mapsto> task_to_payload t)"
    and "plain_task t \<Longrightarrow> ts_create st s t = (s', Inl e) \<Longrightarrow> contents s' = contents s"
    and "plain_task t \<Longrightarrow> ts_update st s t = (s', Inl e) \<Longrightarrow> contents s' = contents s"
    and "plain_key a u i \<Longrightarrow> ts_get st s i (Some a) (Some u) = Inr p \<Longrightarrow> p = contents s (a, u, i)"
    and "ts_get st s i (Some a) None = Inr None"
    and "plain_key a u [] \<Longrightarrow> ts_list st s a (Some u) = Inr ds \<Longrightarrow> set ds = {d. \<exists>i. contents s (a, u, i) = Some d}"
    and "ts_list st s a None = Inr []"
    and "plain_key a u i \<Longrightarrow> ts_delete st s i a (Some u) = (s', Inr ()) \<Longrightarrow> contents s' = (contents s)((a, u, i) := None)"
    and "plain_key a u i \<Longrightarrow> ts_delete st s i a (Some u) = (s', Inl e) \<Longrightarrow> contents s' = contents s"
  using assms unfolding store_lawful_def by meson+

section \<open>Agreement of cache and store\<close>

text \<open>\<open>C\<close> is what the store keeps, \<open>c\<close> the cache, \<open>F\<close> the records loads have returned, \<open>L\<close> the
  identifiers that were dropped from the cache.\<close>

definition synced ::
  "(task_key \<Rightarrow> pydict option) \<Rightarrow> (string \<Rightarrow> task_record option) \<Rightarrow> task_record set \<Rightarrow> string set \<Rightarrow> bool" where
  "synced C c F L \<longleftrightarrow>
     (\<forall>k d. C k = Some d \<longrightarrow> (\<exists>t. d = task_to_payload t \<and> plain_task t \<and> owner_key t = Some k))
     \<and> (\<forall>i t. c i = Some t \<longrightarrow> t_task_id t = i \<and> plain_task t)
     \<and> (\<forall>t \<in> F. plain_task t)
     \<and> (\<forall>a u a' u' i. i \<notin> L \<and> C (a, u, i) \<noteq> None \<and> C (a', u', i) \<noteq> None \<longrightarrow> (a, u) = (a', u'))
     \<and> (\<forall>i t k. i \<notin> L \<and> c i = Some t \<and> owner_key t = Some k \<longrightarrow> C k = Some (task_to_payload t))
     \<and> (\<forall>t k. t \<in> F \<and> t_task_id t \<notin> L \<and> owner_key t = Some k \<longrightarrow>
          (\<exists>r. C k = Some (task_to_payload r) \<and> (t = r \<or> t_updated_at t < t_updated_at r \<and> c (t_task_id t) \<noteq> None)))"

lemma syncedD:
  assumes "synced C c F L"
  shows "C k = Some d \<Longrightarrow> \<exists>t. d = task_to_payload t \<and> plain_task t \<and> owner_key t = Some k"
    and "c i = Some t \<Longrightarrow> t_task_id t = i \<and> plain_task t"
    and "t \<in> F \<Longrightarrow> plain_task t"
    and "i \<notin> L \<Longrightarrow> C (a, u, i) \<noteq> None \<Longrightarrow> C (a', u', i) \<noteq> None \<Longrightarrow> (a, u) = (a', u')"
    and "i \<notin> L \<Longrightarrow> c i = Some t \<Longrightarrow> owner_key t = Some k \<Longrightarrow> C k = Some (task_to_payload t)"
    and "t \<in> F \<Longrightarrow> t_task_id t \<notin> L \<Longrightarrow> owner_key t = Some k \<Longrightarrow>
          \<exists>r. C k = Some (task_to_payload r) \<and> (t = r \<or> t_updated_at t < t_updated_at r \<and> c (t_task_id t) \<noteq> None)"
  using assms unfolding synced_def by blast+

lemma synced_stored:
  assumes "synced C c F L" "C k = Some (task_to_payload t)"
  shows "plain_task t" "owner_key t = Some k"
  using syncedD(1) [OF assms] by auto

text \<open>The record a section works on: the cached one, or else the stored one.\<close>

definition current ::
  "(task_key \<Rightarrow> pydict option) \<Rightarrow> (string \<Rightarrow> task_record option) \<Rightarrow> task_record \<Rightarrow> bool" where
  "current C c t \<longleftrightarrow> c (t_task_id t) = Some t
     \<or> c (t_task_id t) = None \<and> (\<exists>k. owner_key t = Some k \<and> C k = Some (task_to_payload t))"

lemma current_plain:
  assumes "synced C c F L" "current C c t"
  shows "plain_task t"
  using assms syncedD(2) [OF assms(1)] synced_stored [OF assms(1)] by (auto simp: current_def)

lemma current_stored:
  assumes "synced C c F L" "current C c t" "t_task_id t \<notin> L" "owner_key t = Some k"
  shows "C k = Some (task_to_payload t)"
  using assms syncedD(5) [OF assms(1,3) _ assms(4)] by (auto simp: current_def)

lemma synced_same_owner:
  assumes "synced C c F L" "i \<notin> L" "C k = Some d" "C k' = Some d'" "snd (snd k) = i" "snd (snd k') = i"
  shows "k = k'"
  using syncedD(4) [OF assms(1,2), of "fst k" "fst (snd k)" "fst k'" "fst (snd k')"] assms(3-6)
  by (cases k, cases k') auto

lemma synced_update:
  assumes S: "synced C c F L" and cur: "current C c t" and leg: "legal_update t t'" and k: "owner_key t = Some k"
  shows "synced (C(k \<mapsto> task_to_payload t')) (c(t_task_id t \<mapsto> t')) F L"
proof -
  have p: "plain_task t" "plain_task t'" using current_plain [OF S cur] plain_legal leg by blast+
  have k': "owner_key t' = Some k" "t_task_id t' = t_task_id t" "t_updated_at t < t_updated_at t'"
    using leg k by (auto simp: legal_update_def)
  have kid: "snd (snd k) = t_task_id t" using owner_key_id k by (metis prod.collapse)
  have stored: "t_task_id t \<notin> L \<Longrightarrow> C k = Some (task_to_payload t)" using current_stored [OF S cur _ k] .
  have flight: "\<exists>r'. (C(k \<mapsto> task_to_payload t')) kf = Some (task_to_payload r')
      \<and> (f = r' \<or> t_updated_at f < t_updated_at r' \<and> (c(t_task_id t \<mapsto> t')) (t_task_id f) \<noteq> None)"
    if f: "f \<in> F" "t_task_id f \<notin> L" "owner_key f = Some kf" for f kf
  proof -
    obtain r where r: "C kf = Some (task_to_payload r)" "f = r \<or> t_updated_at f < t_updated_at r \<and> c (t_task_id f) \<noteq> None"
      using syncedD(6) [OF S f] by blast
    have kfid: "snd (snd kf) = t_task_id f" using owner_key_id f(3) by (metis prod.collapse)
    show ?thesis
    proof (cases "t_task_id f = t_task_id t")
      case True
      with f(2) stored have st: "C k = Some (task_to_payload t)" by simp
      have "kf = k" using synced_same_owner [OF S f(2) r(1) st] kfid kid True by simp
      with r st k'(3) True show ?thesis by auto
    next
      case False
      then have "kf \<noteq> k" using kfid kid by auto
      with r False show ?thesis by auto
    qed
  qed
  show ?thesis unfolding synced_def
  proof (intro conjI allI impI ballI)
    fix a u a' u' i
    assume "i \<notin> L \<and> (C(k \<mapsto> task_to_payload t')) (a, u, i) \<noteq> None \<and> (C(k \<mapsto> task_to_payload t')) (a', u', i) \<noteq> None"
    then show "(a, u) = (a', u')" using stored kid syncedD(4) [OF S, of i a u a' u'] by (auto split: if_splits)
  next
    fix i r kr
    assume r: "i \<notin> L \<and> (c(t_task_id t \<mapsto> t')) i = Some r \<and> owner_key r = Some kr"
    show "(C(k \<mapsto> task_to_payload t')) kr = Some (task_to_payload r)"
    proof (cases "i = t_task_id t")
      case True with r k'(1) show ?thesis by auto
    next
      case False
      with r have ci: "c i = Some r" by simp
      then have "t_task_id r = i" using syncedD(2) [OF S] by blast
      then have "kr \<noteq> k" using r False kid owner_key_id by (metis prod.collapse)
      with syncedD(5) [OF S _ ci] r show ?thesis by simp
    qed
  qed (use syncedD(1,2,3) [OF S] p k' flight in \<open>auto split: if_splits\<close>)
qed

lemma synced_create:
  assumes S: "synced C c F L" and p: "plain_task t" and k: "owner_key t = Some k"
    and fresh: "t_task_id t \<notin> L \<Longrightarrow> \<forall>a u. C (a, u, t_task_id t) = None"
  shows "synced (C(k \<mapsto> task_to_payload t)) (c(t_task_id t \<mapsto> t)) F L"
proof -
  have kid: "snd (snd k) = t_task_id t" using owner_key_id k by (metis prod.collapse)
  have other: "kf \<noteq> k" if "i \<notin> L" "C kf \<noteq> None" "snd (snd kf) = i" for i kf
    using that fresh kid by (cases kf) auto
  show ?thesis unfolding synced_def
  proof (intro conjI allI impI ballI)
    fix a u a' u' i
    assume "i \<notin> L \<and> (C(k \<mapsto> task_to_payload t)) (a, u, i) \<noteq> None \<and> (C(k \<mapsto> task_to_payload t)) (a', u', i) \<noteq> None"
    then show "(a, u) = (a', u')" using fresh kid syncedD(4) [OF S, of i a u a' u'] by (auto split: if_splits)
  next
    fix i r kr
    assume r: "i \<notin> L \<and> (c(t_task_id t \<mapsto> t)) i = Some r \<and> owner_key r = Some kr"
    show "(C(k \<mapsto> task_to_payload t)) kr = Some (task_to_payload r)"
    proof (cases "i = t_task_id t")
      case True with r k show ?thesis by auto
    next
      case False
      with r have ci: "c i = Some r" by simp
      then have "t_task_id r = i" using syncedD(2) [OF S] by blast
      then have "kr \<noteq> k" using r False kid owner_key_id by (metis prod.collapse)
      with syncedD(5) [OF S _ ci] r show ?thesis by simp
    qed
  next
    fix f kf
    assume f: "f \<in> F \<and> t_task_id f \<notin> L \<and> owner_key f = Some kf"
    then obtain r where r: "C kf = Some (task_to_payload r)" "f = r \<or> t_updated_at f < t_updated_at r \<and> c (t_task_id f) \<noteq> None"
      using syncedD(6) [OF S] by blast
    have "snd (snd kf) = t_task_id f" using owner_key_id f by (metis prod.collapse)
    with other f r(1) have "kf \<noteq> k" by blast
    with r show "\<exists>r. (C(k \<mapsto> task_to_payload t)) kf = Some (task_to_payload r)
        \<and> (f = r \<or> t_updated_at f < t_updated_at r \<and> (c(t_task_id t \<mapsto> t)) (t_task_id f) \<noteq> None)" by auto
  qed (use syncedD(1,2,3) [OF S] p k in \<open>auto split: if_splits\<close>)
qed

lemma synced_publish:
  assumes S: "synced C c F L" and p: "plain_task t"
    and st: "\<And>k. t_task_id t \<notin> L \<Longrightarrow> owner_key t = Some k \<Longrightarrow> C k = Some (task_to_payload t)"
  shows "synced C (c(t_task_id t \<mapsto> t)) F L"
  unfolding synced_def
proof (intro conjI allI impI ballI)
  fix i r kr
  assume "i \<notin> L \<and> (c(t_task_id t \<mapsto> t)) i = Some r \<and> owner_key r = Some kr"
  then show "C kr = Some (task_to_payload r)" using st [of kr] syncedD(5) [OF S, of i r kr] by (auto split: if_splits)
next
  fix f kf
  assume "f \<in> F \<and> t_task_id f \<notin> L \<and> owner_key f = Some kf"
  then show "\<exists>r. C kf = Some (task_to_payload r)
      \<and> (f = r \<or> t_updated_at f < t_updated_at r \<and> (c(t_task_id t \<mapsto> t)) (t_task_id f) \<noteq> None)"
    using syncedD(6) [OF S, of f kf] by auto
next
  fix a u a' u' i
  assume "i \<notin> L \<and> C (a, u, i) \<noteq> None \<and> C (a', u', i) \<noteq> None"
  then show "(a, u) = (a', u')" using syncedD(4) [OF S, of i a u a' u'] by simp
qed (use syncedD(1,2,3) [OF S] p in \<open>auto split: if_splits\<close>)

lemma synced_load:
  assumes "synced C c F L" "C k = Some (task_to_payload t)"
  shows "synced C c (insert t F) L"
  using assms(1) synced_stored [OF assms] assms(2) unfolding synced_def by auto

lemma synced_delete:
  assumes S: "synced C c F L" and k: "snd (snd k) = i"
  shows "synced (C(k := None)) (c(i := None)) F (insert i L)"
  unfolding synced_def
proof (intro conjI allI impI ballI)
  fix j r kr
  assume r: "j \<notin> insert i L \<and> (c(i := None)) j = Some r \<and> owner_key r = Some kr"
  then have "snd (snd kr) = j" using syncedD(2) [OF S] owner_key_id by (metis fun_upd_apply insertCI prod.collapse)
  with r k have "kr \<noteq> k" by auto
  with r syncedD(5) [OF S, of j r kr] show "(C(k := None)) kr = Some (task_to_payload r)" by auto
next
  fix f kf
  assume f: "f \<in> F \<and> t_task_id f \<notin> insert i L \<and> owner_key f = Some kf"
  then have "snd (snd kf) = t_task_id f" using owner_key_id by (metis prod.collapse)
  with f k have "kf \<noteq> k" by auto
  with f syncedD(6) [OF S, of f kf]
  show "\<exists>r. (C(k := None)) kf = Some (task_to_payload r)
      \<and> (f = r \<or> t_updated_at f < t_updated_at r \<and> (c(i := None)) (t_task_id f) \<noteq> None)" by auto
next
  fix a u a' u' j
  assume "j \<notin> insert i L \<and> (C(k := None)) (a, u, j) \<noteq> None \<and> (C(k := None)) (a', u', j) \<noteq> None"
  then show "(a, u) = (a', u')" using syncedD(4) [OF S, of j a u a' u'] by (auto split: if_splits)
qed (use syncedD(1,2,3) [OF S] in \<open>auto split: if_splits\<close>)

lemma synced_forget:
  assumes S: "synced C c F L" and sub: "\<And>i. c' i \<noteq> None \<Longrightarrow> c' i = c i"
  shows "synced C c' F (L \<union> {i. c' i \<noteq> c i})"
  unfolding synced_def
proof (intro conjI allI impI ballI)
  fix j r kr
  assume "j \<notin> L \<union> {i. c' i \<noteq> c i} \<and> c' j = Some r \<and> owner_key r = Some kr"
  then show "C kr = Some (task_to_payload r)" using syncedD(5) [OF S, of j r kr] by auto
next
  fix f kf
  assume "f \<in> F \<and> t_task_id f \<notin> L \<union> {i. c' i \<noteq> c i} \<and> owner_key f = Some kf"
  then show "\<exists>r. C kf = Some (task_to_payload r) \<and> (f = r \<or> t_updated_at f < t_updated_at r \<and> c' (t_task_id f) \<noteq> None)"
    using syncedD(6) [OF S, of f kf] by simp
next
  fix a u a' u' j
  assume "j \<notin> L \<union> {i. c' i \<noteq> c i} \<and> C (a, u, j) \<noteq> None \<and> C (a', u', j) \<noteq> None"
  then show "(a, u) = (a', u')" using syncedD(4) [OF S, of j a u a' u'] by simp
next
  fix i t assume "c' i = Some t"
  then show "t_task_id t = i" "plain_task t" using sub [of i] syncedD(2) [OF S, of i t] by simp_all
qed (use syncedD(1,3) [OF S] in auto)

lemma synced_merge:
  assumes "synced C (cached_task w) F L" "set ts \<subseteq> F"
  shows "synced C (cached_task (merge_loaded_tasks w ts)) F L"
  using assms
proof (induction ts arbitrary: w)
  case (Cons t ts)
  have tF: "t \<in> F" and p: "plain_task t" using Cons.prems syncedD(3) by auto
  obtain a u where k: "owner_key t = Some (a, u, t_task_id t)" using plain_owner_key [OF p] by blast
  have pub: "synced C (cached_task (publish_task w t)) F L"
    if "t_task_id t \<notin> L \<Longrightarrow> C (a, u, t_task_id t) = Some (task_to_payload t)"
  proof -
    have "cached_task (publish_task w t) = (cached_task w)(t_task_id t \<mapsto> t)" by auto
    then show ?thesis using synced_publish [OF Cons.prems(1) p] that unfolding k by auto
  qed
  let ?w = "case cached_task w (t_task_id t) of None \<Rightarrow> publish_task w t
      | Some c \<Rightarrow> if t_updated_at t > t_updated_at c then publish_task w t else w"
  have "synced C (cached_task ?w) F L"
  proof (cases "cached_task w (t_task_id t)")
    case None
    with syncedD(6) [OF Cons.prems(1) tF _ k] have "synced C (cached_task (publish_task w t)) F L" by (intro pub) auto
    with None show ?thesis by simp
  next
    case (Some c)
    have c: "t_task_id c = t_task_id t" "plain_task c" using syncedD(2) [OF Cons.prems(1) Some] by auto
    obtain a' u' where kc: "owner_key c = Some (a', u', t_task_id t)" using plain_owner_key [OF c(2)] c(1) by auto
    have "t_task_id t \<in> L" if less: "t_updated_at c < t_updated_at t"
    proof (rule ccontr)
      assume n: "t_task_id t \<notin> L"
      obtain r where r: "C (a, u, t_task_id t) = Some (task_to_payload r)" "t = r \<or> t_updated_at t < t_updated_at r"
        using syncedD(6) [OF Cons.prems(1) tF n k] by blast
      have sc: "C (a', u', t_task_id t) = Some (task_to_payload c)" using syncedD(5) [OF Cons.prems(1) n Some kc] .
      have "r = c" using synced_same_owner [OF Cons.prems(1) n r(1) sc] r(1) sc by auto
      with r(2) less show False by auto
    qed
    with Some Cons.prems(1) pub show ?thesis by auto
  qed
  with Cons.IH Cons.prems(2) show ?case by simp
qed simp

section \<open>Effect of the critical sections\<close>

definition args_plain :: "string option \<Rightarrow> string option \<Rightarrow> string \<Rightarrow> bool" where
  "args_plain a u i \<longleftrightarrow> (\<forall>x y. a = Some x \<and> u = Some y \<longrightarrow> plain_key x y i)"

abbreviation kept :: "('s \<Rightarrow> task_key \<Rightarrow> pydict option) \<Rightarrow> 's tracker \<Rightarrow> task_key \<Rightarrow> pydict option" where
  "kept contents w \<equiv> contents (tt_store w)"

text \<open>A section on task \<open>i\<close> changes neither store nor cache, or replaces the current record by a
  legal update in both.\<close>

definition section_effect ::
  "('s \<Rightarrow> task_key \<Rightarrow> pydict option) \<Rightarrow> 's tracker \<Rightarrow> 's tracker \<Rightarrow> bool" where
  "section_effect contents w w' \<longleftrightarrow>
     kept contents w' = kept contents w \<and> cached_task w' = cached_task w
     \<or> (\<exists>t t' k. current (kept contents w) (cached_task w) t \<and> legal_update t t' \<and> owner_key t = Some k
          \<and> kept contents w' = (kept contents w)(k \<mapsto> task_to_payload t')
          \<and> cached_task w' = (cached_task w)(t_task_id t \<mapsto> t'))"

lemma section_effect_refl: "kept contents w' = kept contents w \<Longrightarrow> cached_task w' = cached_task w \<Longrightarrow> section_effect contents w w'"
  by (simp add: section_effect_def)

lemma section_effect_refl' [simp]: "section_effect contents w w"
  by (simp add: section_effect_def)

lemma load_from_store_stored:
  assumes "store_lawful st contents" "synced (kept contents w) c F L" "args_plain (Some a) u i"
    and "load_from_store st w now i a u = Inr (Some t)"
  shows "\<exists>x. u = Some x \<and> owner_key t = Some (a, x, i) \<and> kept contents w (a, x, i) = Some (task_to_payload t)"
proof -
  obtain d where d: "ts_get st (tt_store w) i (Some a) u = Inr (Some d)" "record_from_payload now d = Inr t"
    using load_from_store_Some [OF assms(4)] by blast
  then obtain x where u: "u = Some x" using store_lawfulD(6) [OF assms(1)] by (cases u) auto
  have "plain_key a x i" using assms(3) u by (simp add: args_plain_def)
  then have C: "kept contents w (a, x, i) = Some d" using store_lawfulD(5) [OF assms(1), of a x i "tt_store w"] d(1) u by fastforce
  obtain t' where t': "d = task_to_payload t'" "owner_key t' = Some (a, x, i)" using syncedD(1) [OF assms(2) C] by blast
  then have "t' = t" using d(2) by (simp add: record_roundtrip)
  with C t' u show ?thesis by simp
qed

lemma load_for_update_current:
  assumes "store_lawful st contents" "synced (kept contents w) (cached_task w) F L" "args_plain a u i"
    and "load_for_update st w now i a u = Inr (Some t)"
  shows "current (kept contents w) (cached_task w) t \<and> t_task_id t = i"
proof (cases "cached_task w i")
  case None
  then obtain x where a: "a = Some x" and l: "load_from_store st w now i x u = Inr (Some t)"
    using assms(4) by (auto simp: load_for_update_def split: option.splits if_splits)
  from load_from_store_stored [OF assms(1,2) _ l] assms(3) a None owner_key_id show ?thesis
    by (fastforce simp: current_def)
next
  case (Some c)
  with assms(4) syncedD(2) [OF assms(2) Some] show ?thesis
    by (auto simp: load_for_update_def current_def split: if_splits)
qed

lemma persist_effect:
  assumes "store_lawful st contents" "plain_task t" "owner_key t = Some k" "persist_and_publish st w b t = (w', r)"
  shows "kept contents w' = kept contents w \<and> cached_task w' = cached_task w
    \<or> kept contents w' = (kept contents w)(k \<mapsto> task_to_payload t) \<and> cached_task w' = (cached_task w)(t_task_id t \<mapsto> t)"
proof -
  obtain s' x where s': "(if b then ts_create st (tt_store w) t else ts_update st (tt_store w) t) = (s', x)" by force
  show ?thesis
  proof (cases x)
    case (Inl e)
    then have "contents s' = kept contents w" using s' store_lawfulD(3,4) [OF assms(1,2)] by (cases b) auto
    with Inl s' assms(4) show ?thesis by (auto simp: persist_and_publish_def fun_eq_iff)
  next
    case (Inr y)
    then have "contents s' = (kept contents w)(k \<mapsto> task_to_payload t)"
      using s' store_lawfulD(1,2) [OF assms(1,2,3)] by (cases b) auto
    with Inr s' assms(4) show ?thesis by (auto simp: persist_and_publish_def fun_eq_iff)
  qed
qed

lemma update_effect:
  assumes "store_lawful st contents" "synced (kept contents w) (cached_task w) F L" "args_plain a u i"
    and "load_for_update st w now i a u = Inr (Some t)" "legal_update t t'" "persist_and_publish st w False t' = (w', r)"
  shows "section_effect contents w w'"
proof -
  have cur: "current (kept contents w) (cached_task w) t" using load_for_update_current [OF assms(1-4)] by simp
  have p: "plain_task t" using current_plain [OF assms(2) cur] .
  obtain k where k: "owner_key t = Some k" using plain_owner_key [OF p] by blast
  have "plain_task t'" "owner_key t' = Some k" "t_task_id t' = t_task_id t"
    using plain_legal [OF p assms(5)] assms(5) k by (auto simp: legal_update_def)
  from persist_effect [OF assms(1) this(1,2) assms(6)] this(3) show ?thesis
    unfolding section_effect_def using cur assms(5) k by (elim disjE) (simp, metis)
qed

lemma update_effect_fst:
  assumes "store_lawful st contents" "synced (kept contents w) (cached_task w) F L" "args_plain a u i"
    and "load_for_update st w now i a u = Inr (Some t)" "legal_update t t'"
  shows "section_effect contents w (fst (persist_and_publish st w False t'))"
  using update_effect [OF assms] by (metis prod.collapse)

lemma legal_start:
  "idle_running (t_status t) \<Longrightarrow> legal_update t (t\<lparr>t_status := RUNNING, t_stage := g, t_updated_at := next_updated_at t now\<rparr>)"
  by (intro legal_updateI) (auto simp: idle_running_def next_updated_at_gt)

lemma legal_running:
  "idle_running (t_status t) \<Longrightarrow> legal_update t (t\<lparr>t_status := RUNNING, t_updated_at := next_updated_at t now\<rparr>)"
  by (intro legal_updateI) (auto simp: idle_running_def next_updated_at_gt)

lemma legal_stage:
  "idle_running (t_status t) \<Longrightarrow> legal_update t (t\<lparr>t_stage := g, t_updated_at := next_updated_at t now\<rparr>)"
  by (intro legal_updateI) (auto simp: idle_running_def next_updated_at_gt)

lemma legal_cancelling:
  "idle_running (t_status t) \<Longrightarrow> legal_update t (t\<lparr>t_status := CANCELLING, t_updated_at := next_updated_at t now\<rparr>)"
  by (intro legal_updateI) (auto simp: idle_running_def next_updated_at_gt)

lemma legal_outcome:
  "idle_running (t_status t) \<Longrightarrow> legal_update t (outcome_record w now t result err rid)"
  by (intro legal_updateI)
    (auto simp: outcome_record_def with_work_error_def with_error_def with_result_def idle_running_def
      next_updated_at_gt split: option.splits)

lemma legal_finalized:
  "active_status (t_status t) \<Longrightarrow> finalized_record w now t = Some t' \<Longrightarrow> legal_update t t'"
  by (intro legal_updateI)
    (auto simp: finalized_record_def with_work_error_def Let_def active_status_def next_updated_at_gt
      split: option.splits if_splits)

lemma start_effect:
  assumes "store_lawful st contents" "synced (kept contents w) (cached_task w) F L" "args_plain a u i"
  shows "section_effect contents w (fst (start st w now i a u g))"
  by (auto simp: start_def split: sum.splits option.splits intro: update_effect_fst [OF assms] legal_start legal_running)

lemma update_stage_effect:
  assumes "store_lawful st contents" "synced (kept contents w) (cached_task w) F L" "args_plain a u i"
  shows "section_effect contents w (fst (update_stage st w now i g a u))"
  by (auto simp: update_stage_def split: sum.splits option.splits intro: update_effect_fst [OF assms] legal_stage)

lemma record_outcome_effect:
  assumes "store_lawful st contents" "synced (kept contents w) (cached_task w) F L" "args_plain a u i"
  shows "section_effect contents w (fst (record_outcome_section st w now i a u result err rid))"
  by (auto simp: record_outcome_section_def split: sum.splits option.splits intro: update_effect_fst [OF assms] legal_outcome)

lemma cancel_section_effect:
  assumes "store_lawful st contents" "synced (kept contents w) (cached_task w) F L" "args_plain a u i"
  shows "section_effect contents w (fst (cancel_section st w now i a u))"
proof -
  have idle: "idle_running s" if "s \<noteq> CANCELLED" "s \<noteq> CANCELLING" "\<not> terminal_status s" for s
    using that by (cases s) (auto simp: idle_running_def terminal_status_def)
  have "fst (cancel_section st w now i a u) = w \<or> (\<exists>t. load_for_update st w now i a u = Inr (Some t) \<and> idle_running (t_status t)
      \<and> fst (cancel_section st w now i a u) =
          fst (persist_and_publish st w False (t\<lparr>t_status := CANCELLING, t_updated_at := next_updated_at t now\<rparr>)))"
    using idle by (auto simp: cancel_section_def split: sum.splits option.splits prod.splits)
  then show ?thesis using update_effect_fst [OF assms] legal_cancelling by (elim disjE exE conjE) simp_all
qed

lemma section_effect_index [simp]: "section_effect contents w (w'\<lparr>tt_index := x\<rparr>) = section_effect contents w w'"
proof -
  have "cached_task (w'\<lparr>tt_index := x\<rparr>) = cached_task w'" by auto
  then show ?thesis by (simp add: section_effect_def)
qed

lemma finalize_effect:
  assumes "store_lawful st contents" "synced (kept contents w) (cached_task w) F L" "args_plain a u i"
  shows "section_effect contents w (fst (finalize_task st w now i a u))"
proof -
  have "fst (finalize_task st w now i a u) = w \<or> (\<exists>t t' x. load_for_update st w now i a u = Inr (Some t) \<and> active_status (t_status t)
      \<and> finalized_record w now t = Some t'
      \<and> fst (finalize_task st w now i a u) = (fst (persist_and_publish st w False t'))\<lparr>tt_index := x\<rparr>)"
    by (auto simp: finalize_task_def split: sum.splits option.splits prod.splits) (metis tracker.surjective tracker.update_convs(3))+
  then show ?thesis using update_effect_fst [OF assms] legal_finalized by (elim disjE exE conjE) (simp, simp, blast)
qed

lemma section_effect_synced:
  assumes "synced (kept contents w) (cached_task w) F L" "section_effect contents w w'"
  shows "synced (kept contents w') (cached_task w') F L"
  using assms synced_update [OF assms(1)] by (auto simp: section_effect_def)

lemma section_effect_legal:
  assumes "synced (kept contents w) (cached_task w) F L" "section_effect contents w w'"
    and "kept contents w (a, u, i) = Some (task_to_payload t)" "i \<notin> L"
  shows "\<exists>t'. kept contents w' (a, u, i) = Some (task_to_payload t') \<and> (t' = t \<or> legal_update t t')"
proof (cases "kept contents w' (a, u, i) = kept contents w (a, u, i)")
  case False
  with assms(2) obtain r r' k where r: "current (kept contents w) (cached_task w) r" "legal_update r r'" "owner_key r = Some k"
    "kept contents w' = (kept contents w)(k \<mapsto> task_to_payload r')" by (auto simp: section_effect_def)
  with False have k: "k = (a, u, i)" by (auto split: if_splits)
  with r(3) assms(4) have "t_task_id r \<notin> L" using owner_key_id by metis
  from current_stored [OF assms(1) r(1) this r(3)] assms(3) k have "r = t" by simp
  with r k show ?thesis by simp
qed (use assms(3) in simp)

section \<open>The transition system\<close>

record 's tt_sys =
  sy_w :: "'s tracker"
  sy_flight :: "task_record set"
  sy_lost :: "string set"

text \<open>An identifier is not shared between owners: no other owner has a record with it.\<close>

definition unshared :: "('s \<Rightarrow> task_key \<Rightarrow> pydict option) \<Rightarrow> 's tracker \<Rightarrow> task_record \<Rightarrow> bool" where
  "unshared contents w t \<longleftrightarrow>
     (\<forall>a u. kept contents w (a, u, t_task_id t) \<noteq> None \<longrightarrow> owner_key t = Some (a, u, t_task_id t))"

definition unused :: "('s \<Rightarrow> task_key \<Rightarrow> pydict option) \<Rightarrow> 's tracker \<Rightarrow> string \<Rightarrow> bool" where
  "unused contents w i \<longleftrightarrow> (\<forall>a u. kept contents w (a, u, i) = None)"

inductive tt_step ::
  "'s task_store \<Rightarrow> ('s \<Rightarrow> task_key \<Rightarrow> pydict option) \<Rightarrow> 's tt_sys \<Rightarrow> 's tt_sys \<Rightarrow> bool"
  for st :: "'s task_store" and contents :: "'s \<Rightarrow> task_key \<Rightarrow> pydict option" where
  step_load: "args_plain (Some a) u i \<Longrightarrow> load_from_store st (sy_w x) now i a u = Inr (Some t) \<Longrightarrow>
    tt_step st contents x (x\<lparr>sy_flight := insert t (sy_flight x)\<rparr>)"
| step_load_all: "args_plain (Some a) u [] \<Longrightarrow> load_all_from_store st (sy_w x) now a u = Inr ts \<Longrightarrow>
    tt_step st contents x (x\<lparr>sy_flight := set ts \<union> sy_flight x\<rparr>)"
| step_merge: "set ts \<subseteq> sy_flight x \<Longrightarrow>
    tt_step st contents x (x\<lparr>sy_w := merge_loaded_tasks (sy_w x) ts\<rparr>)"
| step_create: "plain_task t \<Longrightarrow> unshared contents (sy_w x) t \<Longrightarrow>
    check \<or> unused contents (sy_w x) (t_task_id t) \<Longrightarrow>
    tt_step st contents x (x\<lparr>sy_w := fst (create_on_owner st (sy_w x) now t check)\<rparr>)"
| step_start: "args_plain a u i \<Longrightarrow>
    tt_step st contents x (x\<lparr>sy_w := fst (start st (sy_w x) now i a u g)\<rparr>)"
| step_stage: "args_plain a u i \<Longrightarrow>
    tt_step st contents x (x\<lparr>sy_w := fst (update_stage st (sy_w x) now i s a u)\<rparr>)"
| step_outcome: "args_plain a u i \<Longrightarrow>
    tt_step st contents x (x\<lparr>sy_w := fst (record_outcome_section st (sy_w x) now i a u result err rid)\<rparr>)"
| step_cancel: "args_plain a u i \<Longrightarrow>
    tt_step st contents x (x\<lparr>sy_w := fst (cancel_section st (sy_w x) now i a u)\<rparr>)"
| step_finalize: "args_plain a u i \<Longrightarrow>
    tt_step st contents x (x\<lparr>sy_w := fst (finalize_task st (sy_w x) now i a u)\<rparr>)"
| step_expire: "delete_expired_task st (sy_w x) now i = (w', b) \<Longrightarrow>
    tt_step st contents x (x\<lparr>sy_w := w', sy_lost := (if b then insert i (sy_lost x) else sy_lost x)\<rparr>)"
| step_delete: "delete_user_task st (sy_w x) a u i = (w', r) \<Longrightarrow>
    tt_step st contents x (x\<lparr>sy_w := w', sy_lost := (if r = Inr True then insert i (sy_lost x) else sy_lost x)\<rparr>)"
| step_trim:
    "tt_step st contents x (x\<lparr>sy_w := trim_cache (sy_w x),
       sy_lost := sy_lost x \<union> {i. cached_task (trim_cache (sy_w x)) i \<noteq> cached_task (sy_w x) i}\<rparr>)"
| step_index: "tt_step st contents x (x\<lparr>sy_w := (sy_w x)\<lparr>tt_index := wi\<rparr>\<rparr>)"

definition tt_inv :: "'s task_store \<Rightarrow> ('s \<Rightarrow> task_key \<Rightarrow> pydict option) \<Rightarrow> 's tt_sys \<Rightarrow> bool" where
  "tt_inv st contents x \<longleftrightarrow> store_lawful st contents
     \<and> synced (kept contents (sy_w x)) (cached_task (sy_w x)) (sy_flight x) (sy_lost x)"

text \<open>A tracker starts with an empty cache over a store whose records lie under their own keys.\<close>

definition tt_init :: "'s task_store \<Rightarrow> ('s \<Rightarrow> task_key \<Rightarrow> pydict option) \<Rightarrow> 's tt_sys \<Rightarrow> bool" where
  "tt_init st contents x \<longleftrightarrow> store_lawful st contents \<and> tt_tasks (sy_w x) = [] \<and> sy_flight x = {} \<and> sy_lost x = {}
     \<and> (\<forall>k d. kept contents (sy_w x) k = Some d \<longrightarrow> (\<exists>t. d = task_to_payload t \<and> plain_task t \<and> owner_key t = Some k))
     \<and> (\<forall>a u a' u' i. kept contents (sy_w x) (a, u, i) \<noteq> None \<and> kept contents (sy_w x) (a', u', i) \<noteq> None \<longrightarrow> (a, u) = (a', u'))"

lemma tt_init_inv: "tt_init st contents x \<Longrightarrow> tt_inv st contents x"
  by (simp add: tt_init_def tt_inv_def synced_def cached_task_def)

lemma create_on_owner_cases:
  assumes "store_lawful st contents" "synced (kept contents w) (cached_task w) F L"
    and p: "plain_task t" and k: "owner_key t = Some k"
    and un: "unshared contents w t" "check \<or> unused contents w (t_task_id t)"
    and w': "w' = fst (create_on_owner st w now t check)"
  shows "kept contents w' = kept contents w \<and> cached_task w' = cached_task w
    \<or> kept contents w' = (kept contents w)(k \<mapsto> task_to_payload t) \<and> cached_task w' = (cached_task w)(t_task_id t \<mapsto> t)
        \<and> unused contents w (t_task_id t)
    \<or> kept contents w' = kept contents w
        \<and> (\<exists>r. kept contents w k = Some (task_to_payload r) \<and> cached_task w' = (cached_task w)(t_task_id t \<mapsto> r) \<and> t_task_id r = t_task_id t)"
proof -
  obtain a u where ku: "t_account_id t = Some a" "t_user_id t = Some u" "plain_key a u (t_task_id t)" using p by (auto simp: plain_task_def)
  then have ka: "k = (a, u, t_task_id t)" using k by (simp add: owner_key_def)
  let ?f = "fst (persist_and_publish st w True t)"
  have f: "kept contents ?f = kept contents w \<and> cached_task ?f = cached_task w
      \<or> kept contents ?f = (kept contents w)(k \<mapsto> task_to_payload t) \<and> cached_task ?f = (cached_task w)(t_task_id t \<mapsto> t)"
    using persist_effect [OF assms(1) p k] by (metis prod.collapse)
  consider "w' = w" | "w' = ?f" "unused contents w (t_task_id t)"
    | r where "load_from_store st w now (t_task_id t) a (Some u) = Inr (Some r)" "w' = publish_task w r"
  proof (cases "check \<and> cached_task w (t_task_id t) = None")
    case False
    with w' ku un(2) show thesis
      by (auto simp: create_on_owner_def Let_def intro: that(1,2) split: prod.splits sum.splits option.splits if_splits)
  next
    case True
    show thesis
    proof (cases "load_from_store st w now (t_task_id t) a (Some u)")
      case (Inl e)
      with True w' ku show thesis by (auto simp: create_on_owner_def Let_def intro: that(1))
    next
      case (Inr l)
      show thesis
      proof (cases l)
        case None
        with Inr have "ts_get st (tt_store w) (t_task_id t) (Some a) (Some u) = Inr None"
          by (auto simp: load_from_store_def ebind_Inr split: option.splits)
        then have "kept contents w k = None" using store_lawfulD(5) [OF assms(1) ku(3)] ka by metis
        then have "unused contents w (t_task_id t)" using un(1) k ka unfolding unshared_def unused_def
          by (metis option.inject)
        moreover have "w' = ?f" using None Inr True w' ku by (auto simp: create_on_owner_def Let_def split: prod.splits sum.splits)
        ultimately show thesis by (rule that(2) [rotated])
      next
        case (Some r)
        with Inr True w' ku show thesis by (auto simp: create_on_owner_def Let_def intro: that(3))
      qed
    qed
  qed
  then show ?thesis
  proof cases
    case 3
    from load_from_store_stored [OF assms(1,2) _ 3(1)] ku(3)
    have r: "owner_key r = Some k" "kept contents w k = Some (task_to_payload r)" by (auto simp: args_plain_def ka)
    have "t_task_id r = t_task_id t" using owner_key_id r(1) ka by metis
    moreover have "cached_task w' = (cached_task w)(t_task_id r \<mapsto> r)" using 3(2) by auto
    moreover have "kept contents w' = kept contents w" using 3(2) by simp
    ultimately show ?thesis using r(2) by auto
  qed (use f in auto)
qed

lemma create_synced:
  assumes "store_lawful st contents" "synced (kept contents w) (cached_task w) F L" "plain_task t"
    and "unshared contents w t" "check \<or> unused contents w (t_task_id t)"
  shows "synced (kept contents (fst (create_on_owner st w now t check))) (cached_task (fst (create_on_owner st w now t check))) F L"
proof -
  obtain k where k: "owner_key t = Some k" using plain_owner_key [OF assms(3)] by blast
  from create_on_owner_cases [where check = check and now = now, OF assms(1-3) k assms(4,5) refl] show ?thesis
  proof (elim disjE exE conjE)
    fix r
    assume r: "kept contents (fst (create_on_owner st w now t check)) = kept contents w"
      "kept contents w k = Some (task_to_payload r)" "t_task_id r = t_task_id t"
      "cached_task (fst (create_on_owner st w now t check)) = (cached_task w)(t_task_id t \<mapsto> r)"
    have "synced (kept contents w) ((cached_task w)(t_task_id r \<mapsto> r)) F L"
      using synced_stored [OF assms(2) r(2)] r(2) by (intro synced_publish [OF assms(2)]) auto
    with r show ?thesis by simp
  next
    assume r: "kept contents (fst (create_on_owner st w now t check)) = (kept contents w)(k \<mapsto> task_to_payload t)"
      "cached_task (fst (create_on_owner st w now t check)) = (cached_task w)(t_task_id t \<mapsto> t)" "unused contents w (t_task_id t)"
    show ?thesis unfolding r(1,2) using r(3) by (intro synced_create [OF assms(2,3) k]) (simp add: unused_def)
  qed (use assms(2) in simp)
qed

lemma load_all_stored:
  assumes "store_lawful st contents" "synced (kept contents w) c F L" "args_plain (Some a) u []"
    and "load_all_from_store st w now a u = Inr ts" "t \<in> set ts"
  shows "\<exists>k. kept contents w k = Some (task_to_payload t)"
proof -
  obtain ds where ds: "ts_list st (tt_store w) a u = Inr ds" "emap (record_from_payload now) ds = Inr ts"
    using assms(4) by (auto simp: load_all_from_store_def ebind_Inr)
  then have la: "list_all2 (\<lambda>d t. record_from_payload now d = Inr t) ds ts" by (simp add: emap_Inr)
  obtain j where "j < length ts" "ts ! j = t" using assms(5) by (auto simp: in_set_conv_nth)
  with list_all2_nthD2 [OF la] list_all2_lengthD [OF la] obtain d where d: "d \<in> set ds" "record_from_payload now d = Inr t"
    by (metis nth_mem)
  then obtain x where u: "u = Some x" using ds(1) store_lawfulD(8) [OF assms(1)] by (cases u) auto
  then have "plain_key a x []" using assms(3) by (simp add: args_plain_def)
  with store_lawfulD(7) [OF assms(1)] ds(1) u d(1) obtain i where i: "kept contents w (a, x, i) = Some d" by blast
  then obtain t' where "d = task_to_payload t'" using syncedD(1) [OF assms(2)] by blast
  with d(2) i show ?thesis by (auto simp: record_roundtrip)
qed

lemma synced_loads:
  "synced C c F L \<Longrightarrow> \<forall>t \<in> set ts. \<exists>k. C k = Some (task_to_payload t) \<Longrightarrow> synced C c (set ts \<union> F) L"
  by (induction ts) (auto intro: synced_load)

lemma cached_fun:
  "cached_task (w\<lparr>tt_store := s\<rparr>) = cached_task w" "cached_task (w\<lparr>tt_index := x\<rparr>) = cached_task w"
  "cached_task (w\<lparr>tt_tasks := dpop (tt_tasks w) i\<rparr>) = (cached_task w)(i := None)"
  "cached_task (w\<lparr>tt_store := s, tt_tasks := dpop (tt_tasks w) i\<rparr>) = (cached_task w)(i := None)"
  "cached_task (w\<lparr>tt_store := s, tt_tasks := dpop (tt_tasks w) i, tt_index := x\<rparr>) = (cached_task w)(i := None)"
  by (auto simp: cached_task_def)

lemma delete_expired_effect:
  assumes "store_lawful st contents" "synced (kept contents w) (cached_task w) F L"
    and "delete_expired_task st w now i = (w', b)"
  shows "if b then (\<exists>k. snd (snd k) = i \<and> kept contents w' = (kept contents w)(k := None) \<and> cached_task w' = (cached_task w)(i := None))
    else kept contents w' = kept contents w \<and> cached_task w' = cached_task w"
proof (cases "cached_task w i")
  case (Some t)
  obtain a u where t: "t_task_id t = i" "t_account_id t = Some a" "t_user_id t = Some u" "plain_key a u i"
    using syncedD(2) [OF assms(2) Some] by (auto simp: plain_task_def)
  obtain s' r where d: "ts_delete st (tt_store w) i a (Some u) = (s', r)" by force
  with store_lawfulD(9,10) [OF assms(1) t(4)]
  have "(case r of Inl e \<Rightarrow> contents s' = kept contents w | Inr _ \<Rightarrow> contents s' = (kept contents w)((a, u, i) := None))"
    by (cases r) auto
  with Some t d assms(3) show ?thesis
    by (auto simp: delete_expired_task_def cached_fun split: if_splits sum.splits) blast
qed (use assms(3) in \<open>simp add: delete_expired_task_def\<close>)

lemma delete_user_effect:
  assumes "store_lawful st contents" "synced (kept contents w) (cached_task w) F L" "delete_user_task st w a u i = (w', r)"
  shows "if r = Inr True then (\<exists>k. snd (snd k) = i \<and> kept contents w' = (kept contents w)(k := None) \<and> cached_task w' = (cached_task w)(i := None))
    else kept contents w' = kept contents w \<and> cached_task w' = cached_task w"
proof (cases "cached_task w i")
  case (Some t)
  show ?thesis
  proof (cases "matches_owner t (Some a) (Some u)")
    case True
    then have pk: "plain_key a u i" using syncedD(2) [OF assms(2) Some] by (auto simp: plain_task_def matches_owner_def)
    obtain s' x where d: "ts_delete st (tt_store w) i a (Some u) = (s', x)" by force
    with store_lawfulD(9,10) [OF assms(1) pk]
    have "(case x of Inl e \<Rightarrow> contents s' = kept contents w | Inr _ \<Rightarrow> contents s' = (kept contents w)((a, u, i) := None))"
      by (cases x) auto
    with Some True d assms(3) show ?thesis
      by (auto simp: delete_user_task_def cached_fun split: if_splits sum.splits) blast
  qed (use Some assms(3) in \<open>auto simp: delete_user_task_def\<close>)
qed (use assms(3) in \<open>auto simp: delete_user_task_def\<close>)

lemma trim_cache_frame:
  "tt_store (trim_cache w) = tt_store w"
  "cached_task (trim_cache w) i \<noteq> None \<Longrightarrow> cached_task (trim_cache w) i = cached_task w i"
proof -
  have "dget (filter (\<lambda>e. fst e \<notin> A) d) i = (if i \<in> A then None else dget d i)" for A and d :: "(string \<times> task_record) list"
    by (induction d) auto
  then show "cached_task (trim_cache w) i \<noteq> None \<Longrightarrow> cached_task (trim_cache w) i = cached_task w i"
    by (auto simp: cached_task_def trim_cache_def Let_def fold_dpop split: if_splits)
qed (simp add: trim_cache_def Let_def)

text \<open>Every step keeps cache and store in agreement.\<close>

lemma tt_step_inv:
  assumes "tt_step st contents x y" "tt_inv st contents x"
  shows "tt_inv st contents y"
proof -
  have L: "store_lawful st contents" and S: "synced (kept contents (sy_w x)) (cached_task (sy_w x)) (sy_flight x) (sy_lost x)"
    using assms(2) by (auto simp: tt_inv_def)
  note sec = section_effect_synced [of contents "sy_w x", OF S]
  have "synced (kept contents (sy_w y)) (cached_task (sy_w y)) (sy_flight y) (sy_lost y)"
    using assms(1)
  proof cases
    case (step_load a u i now t)
    with load_from_store_stored [OF L S] synced_load [OF S] show ?thesis by force
  next
    case (step_load_all a u now ts)
    with load_all_stored [OF L S] synced_loads [OF S] show ?thesis by simp
  next
    case (step_merge ts)
    have "tt_store (merge_loaded_tasks w ts) = tt_store w" for w :: "'a tracker"
      by (induction ts arbitrary: w) (auto split: option.splits)
    with step_merge synced_merge [OF S] show ?thesis by simp
  next
    case (step_create t check now)
    with create_synced [OF L S] show ?thesis by simp
  next
    case (step_start a u i now g)
    with sec [OF start_effect [OF L S]] show ?thesis by simp
  next
    case (step_stage a u i now g)
    with sec [OF update_stage_effect [OF L S]] show ?thesis by simp
  next
    case (step_outcome a u i now result err rid)
    with sec [OF record_outcome_effect [OF L S]] show ?thesis by simp
  next
    case (step_cancel a u i now)
    with sec [OF cancel_section_effect [OF L S]] show ?thesis by simp
  next
    case (step_finalize a u i now)
    with sec [OF finalize_effect [OF L S]] show ?thesis by simp
  next
    case (step_expire now i w' b)
    with delete_expired_effect [OF L S step_expire(2)] S synced_delete [OF S] show ?thesis by (auto split: if_splits)
  next
    case (step_delete a u i w' r)
    with delete_user_effect [OF L S step_delete(2)] S synced_delete [OF S] show ?thesis by (auto split: if_splits)
  next
    case step_trim
    with synced_forget [OF S trim_cache_frame(2)] show ?thesis by (simp add: trim_cache_frame)
  next
    case (step_index wi)
    have "cached_task ((sy_w x)\<lparr>tt_index := wi\<rparr>) = cached_task (sy_w x)" by auto
    with step_index S show ?thesis by simp
  qed
  with L show ?thesis by (simp add: tt_inv_def)
qed

interpretation tt: step_system "tt_init st contents" "tt_step st contents" "tt_inv st contents"
  for st :: "'s task_store" and contents :: "'s \<Rightarrow> task_key \<Rightarrow> pydict option"
  by unfold_locales (auto intro: tt_init_inv tt_step_inv)

lemma lost_grows: "tt_step st contents x y \<Longrightarrow> sy_lost x \<subseteq> sy_lost y"
  by (erule tt_step.cases) auto

lemma lost_grows_path: "(tt_step st contents)\<^sup>*\<^sup>* x y \<Longrightarrow> sy_lost x \<subseteq> sy_lost y"
  by (induction rule: rtranclp_induct) (use lost_grows in blast)+

lemma tt_step_legal:
  assumes "tt_step st contents x y" "tt_inv st contents x" "i \<notin> sy_lost y"
    and t: "kept contents (sy_w x) (a, u, i) = Some (task_to_payload t)"
  shows "\<exists>t'. kept contents (sy_w y) (a, u, i) = Some (task_to_payload t') \<and> (t' = t \<or> legal_update t t')"
proof -
  have L: "store_lawful st contents" and S: "synced (kept contents (sy_w x)) (cached_task (sy_w x)) (sy_flight x) (sy_lost x)"
    using assms(2) by (auto simp: tt_inv_def)
  have nl: "i \<notin> sy_lost x" using lost_grows [OF assms(1)] assms(3) by blast
  have sec: "section_effect contents (sy_w x) w' \<Longrightarrow> sy_w y = w' \<Longrightarrow> ?thesis" for w'
    using section_effect_legal [of contents "sy_w x", OF S _ t nl] by simp
  have same: "kept contents (sy_w y) = kept contents (sy_w x) \<Longrightarrow> ?thesis" using t by auto
  from assms(1) show ?thesis
  proof cases
    case (step_merge ts)
    have "tt_store (merge_loaded_tasks w ts) = tt_store w" for w :: "'a tracker"
      by (induction ts arbitrary: w) (auto split: option.splits)
    with step_merge same show ?thesis by simp
  next
    case (step_create r check now)
    obtain k where k: "owner_key r = Some k" using plain_owner_key [OF step_create(2)] by blast
    then have kid: "snd (snd k) = t_task_id r" using owner_key_id by (metis prod.collapse)
    from create_on_owner_cases [OF L S step_create(2) k step_create(3,4) refl, of now] step_create(1)
    have "kept contents (sy_w y) = kept contents (sy_w x)
        \<or> kept contents (sy_w y) = (kept contents (sy_w x))(k \<mapsto> task_to_payload r) \<and> unused contents (sy_w x) (t_task_id r)"
      by auto
    moreover have "(a, u, i) \<noteq> k" if "unused contents (sy_w x) (t_task_id r)" using that t kid by (auto simp: unused_def)
    ultimately show ?thesis using t by auto
  next
    case (step_start aa uu ii now g)
    then show ?thesis using sec start_effect [OF L S] by simp
  next
    case (step_stage aa uu ii now g)
    then show ?thesis using sec update_stage_effect [OF L S] by simp
  next
    case (step_outcome aa uu ii now result err rid)
    then show ?thesis using sec record_outcome_effect [OF L S] by simp
  next
    case (step_cancel aa uu ii now)
    then show ?thesis using sec cancel_section_effect [OF L S] by simp
  next
    case (step_finalize aa uu ii now)
    then show ?thesis using sec finalize_effect [OF L S] by simp
  next
    case (step_expire now ii w' b)
    with delete_expired_effect [OF L S step_expire(2)] t assms(3) show ?thesis by (auto split: if_splits)
  next
    case (step_delete aa uu ii w' r)
    with delete_user_effect [OF L S step_delete(2)] t assms(3) show ?thesis by (auto split: if_splits)
  qed (use same in \<open>auto simp: trim_cache_frame\<close>)
qed

lemma tt_path_legal:
  assumes "(tt_step st contents)\<^sup>*\<^sup>* x y" "tt_inv st contents x" "i \<notin> sy_lost y"
    and "kept contents (sy_w x) (a, u, i) = Some (task_to_payload t)"
  shows "\<exists>t'. kept contents (sy_w y) (a, u, i) = Some (task_to_payload t') \<and> legal_update\<^sup>*\<^sup>* t t'"
  using assms
proof (induction rule: rtranclp_induct)
  case (step y z)
  have "i \<notin> sy_lost y" using lost_grows [OF step.hyps(2)] step.prems(2) by blast
  with step obtain t' where t': "kept contents (sy_w y) (a, u, i) = Some (task_to_payload t')" "legal_update\<^sup>*\<^sup>* t t'" by blast
  from tt_step_legal [OF step.hyps(2) tt.steps_inv [OF step.hyps(1) step.prems(1)] step.prems(2) t'(1)] t'(2)
  show ?case by (meson rtranclp.rtrancl_into_rtrancl)
qed auto

end
