(* ===== verification/Task_Runs.thy ===== *)
theory Task_Runs
  imports Task_Lifecycle
begin

text \<open>
  What the life cycle of \<open>Task_Lifecycle\<close> gives for the tracker of
  \<open>openviking/service/task_tracker.py\<close> over the store of \<open>openviking/service/task_store.py\<close>:
  the persistent store satisfies the laws the tracker relies on, every public method is a
  run of the transition system, the stored record of a task follows the life cycle, and one owner
  has at most one active task per type and resource. The last section shows the one
  method that is not such a run, \<open>get_task_auth\<close>, and what it can do.
\<close>

section \<open>The persistent store is lawful\<close>

text \<open>What the store relies on of directory listings: they name the files of the directory, and a
  missing directory has none; a removal that fails removes nothing.\<close>

definition dirs_lawful :: "'f file_client \<Rightarrow> ('f \<Rightarrow> string \<Rightarrow> pyval option) \<Rightarrow> bool" where
  "dirs_lawful fc files \<longleftrightarrow>
     (\<forall>f d items. fc_ls fc f d = Inr items \<longrightarrow>
        (\<forall>p \<in> set (map (item_path d) items). files f p \<noteq> None \<longrightarrow> (\<exists>n. CHR ''/'' \<notin> set n \<and> p = d @ ''/'' @ n))
        \<and> (\<forall>n. CHR ''/'' \<notin> set n \<and> files f (d @ ''/'' @ n) \<noteq> None \<longrightarrow> d @ ''/'' @ n \<in> set (map (item_path d) items)))
     \<and> (\<forall>f d n. fc_ls fc f d = Inl FileMissing \<and> CHR ''/'' \<notin> set n \<longrightarrow> files f (d @ ''/'' @ n) = None)
     \<and> (\<forall>f p f' e. fc_rm_force fc f p = (f', Inl e) \<longrightarrow> files f' = files f)"

definition contents_of :: "('f \<Rightarrow> string \<Rightarrow> pyval option) \<Rightarrow> 'f \<Rightarrow> task_key \<Rightarrow> pydict option" where
  "contents_of files f k = (case k of (a, u, i) \<Rightarrow>
     if plain_key a u i then (case files f (task_path a u i) of Some (PDict d) \<Rightarrow> Some d | _ \<Rightarrow> None) else None)"

lemma contents_of_upd:
  assumes "plain_key a u i" "files f' = (files f)(task_path a u i := v)"
  shows "contents_of files f' = (contents_of files f)((a, u, i) := (case v of Some (PDict d) \<Rightarrow> Some d | _ \<Rightarrow> None))"
proof
  fix k :: task_key
  obtain b x j where k: "k = (b, x, j)" by (cases k)
  have "task_path b x j = task_path a u i \<Longrightarrow> plain_key b x j \<Longrightarrow> (b, x, j) = (a, u, i)"
    using task_path_inject [of b x a u j i] assms(1) by (auto simp: plain_key_def)
  then show "contents_of files f' k = ((contents_of files f)((a, u, i) := (case v of Some (PDict d) \<Rightarrow> Some d | _ \<Rightarrow> None))) k"
    using assms by (auto simp: contents_of_def k)
qed

lemma contents_of_same: "files f' = files f \<Longrightarrow> contents_of files f' = contents_of files f"
  by (auto simp: contents_of_def fun_eq_iff)

lemma plain_key_nonempty: "plain_key a u i \<Longrightarrow> a \<noteq> [] \<and> u \<noteq> []"
  by (simp add: plain_key_def segment_def)

lemma read_items_set:
  assumes "files_lawful fc files" "read_items fc f d items = Inr ds"
  shows "set ds = {x. \<exists>p \<in> set (map (item_path d) items). endswith p ''.json'' \<and> files f p = Some (PDict x)}"
  using assms(2)
proof (induction items arbitrary: ds)
  case (Cons item items)
  have rd: "fc_read fc f p = (case files f p of None \<Rightarrow> Inl FileMissing | Some v \<Rightarrow> Inr v)" for p
    using assms(1) by (simp add: files_lawful_def)
  show ?case
  proof (cases "endswith (item_path d item) ''.json'' \<and> files f (item_path d item) \<noteq> None")
    case False
    with Cons.prems have "read_items fc f d items = Inr ds" by (auto simp: Let_def rd split: if_splits)
    from Cons.IH [OF this] False show ?thesis by auto
  next
    case True
    then obtain v where v: "files f (item_path d item) = Some v" by blast
    with True Cons.prems obtain x ds' where "v = PDict x" "read_items fc f d items = Inr ds'" "ds = x # ds'"
      by (cases v; cases "read_items fc f d items") (auto simp: Let_def rd document_def)
    with Cons.IH [OF this(2)] True v show ?thesis by auto
  qed
qed simp

lemma endswith_iff: "endswith s p \<longleftrightarrow> (\<exists>r. s = r @ p)"
  unfolding endswith_def startswith_iff by (metis rev_append rev_rev_ident rev_swap)

lemma suffix_of_name:
  assumes "c \<notin> set s" "d @ c # n = r @ s"
  shows "\<exists>i. n = i @ s"
  using assms(2) unfolding append_eq_append_conv2
proof (elim exE disjE conjE)
  fix us assume "d = r @ us" "us @ c # n = s"
  with assms(1) show ?thesis by auto
next
  fix us assume us: "d @ us = r" "c # n = us @ s"
  with assms(1) show ?thesis by (cases us) auto
qed

lemma json_name: "d @ ''/'' @ n = r @ ''.json'' \<Longrightarrow> \<exists>i. n = i @ ''.json''"
  using suffix_of_name [of "CHR ''/''" "''.json''" d n r] by simp

lemma store_list_set:
  assumes "files_lawful fc files" "dirs_lawful fc files" "plain_key a u []" "store_list fc f a (Some u) = Inr ds"
  shows "set ds = {x. \<exists>i. contents_of files f (a, u, i) = Some x}"
proof -
  let ?d = "task_dir a u"
  have ne: "u \<noteq> []" and pk: "CHR ''/'' \<notin> set i \<Longrightarrow> plain_key a u i" for i
    using assms(3) by (auto simp: plain_key_def segment_def)
  have cont: "contents_of files f (a, u, i) = Some x \<longleftrightarrow> CHR ''/'' \<notin> set i \<and> files f (?d @ ''/'' @ i @ ''.json'') = Some (PDict x)" for i x
    using pk by (auto simp: contents_of_def task_path_def plain_key_def split: option.splits pyval.splits)
  from assms(4) ne consider (missing) "fc_ls fc f ?d = Inl FileMissing" "ds = []"
    | (items) items where "fc_ls fc f ?d = Inr items" "read_items fc f ?d items = Inr ds"
    by (auto simp: store_list_def nonempty_def Let_def split: sum.splits file_exc.splits)
  then show ?thesis
  proof cases
    case missing
    then have "files f (?d @ ''/'' @ i @ ''.json'') = None" if "CHR ''/'' \<notin> set i" for i
    proof -
      have "CHR ''/'' \<notin> set (i @ ''.json'')" using that by simp
      with assms(2) missing(1) show ?thesis unfolding dirs_lawful_def by blast
    qed
    then show ?thesis using missing cont by auto
  next
    case items
    have 1: "\<exists>n. CHR ''/'' \<notin> set n \<and> p = ?d @ ''/'' @ n" if "p \<in> set (map (item_path ?d) items)" "files f p \<noteq> None" for p
      using assms(2) items(1) that unfolding dirs_lawful_def by blast
    have 2: "?d @ ''/'' @ n \<in> set (map (item_path ?d) items)" if "CHR ''/'' \<notin> set n" "files f (?d @ ''/'' @ n) \<noteq> None" for n
      using assms(2) items(1) that unfolding dirs_lawful_def by blast
    show ?thesis unfolding read_items_set [OF assms(1) items(2)] cont
    proof (intro set_eqI iffI; clarify)
      fix x p assume p: "p \<in> set (map (item_path ?d) items)" "endswith p ''.json''" "files f p = Some (PDict x)"
      then obtain n where n: "CHR ''/'' \<notin> set n" "p = ?d @ ''/'' @ n" using 1 by blast
      obtain r where r: "p = r @ ''.json''" using p(2) endswith_iff by blast
      have "\<exists>i. n = i @ ''.json''" using json_name [of ?d n r] n(2) r by simp
      with n p(3) show "\<exists>i. CHR ''/'' \<notin> set i \<and> files f (?d @ ''/'' @ i @ ''.json'') = Some (PDict x)" by auto
    next
      fix x i assume i: "CHR ''/'' \<notin> set i" "files f (?d @ ''/'' @ i @ ''.json'') = Some (PDict x)"
      with 2 [of "i @ ''.json''"] show "\<exists>p \<in> set (map (item_path ?d) items). endswith p ''.json'' \<and> files f p = Some (PDict x)"
        by (intro bexI [of _ "?d @ ''/'' @ i @ ''.json''"]) (auto simp: endswith_iff intro: exI [of _ "?d @ ''/'' @ i"])
    qed
  qed
qed

lemma persistent_store_lawful:
  assumes F: "files_lawful fc files" and D: "dirs_lawful fc files"
  shows "store_lawful (persistent_store fc) (contents_of files)"
proof -
  have sel: "ts_create (persistent_store fc) = write_task fc" "ts_update (persistent_store fc) = write_task fc"
    "ts_get (persistent_store fc) = store_get fc" "ts_list (persistent_store fc) = store_list fc"
    "ts_delete (persistent_store fc) = store_delete fc" by (simp_all add: persistent_store_def)
  have wr: "contents_of files f' = (case r of Inl e \<Rightarrow> contents_of files f | Inr _ \<Rightarrow> (contents_of files f)(k \<mapsto> task_to_payload t))"
    if pt: "plain_task t" and ok: "owner_key t = Some k" and wt: "write_task fc f t = (f', r)" for t k f f' r
  proof -
    obtain a u where a: "t_account_id t = Some a" "t_user_id t = Some u" "plain_key a u (t_task_id t)" "k = (a, u, t_task_id t)"
      using pt ok by (auto simp: plain_task_def owner_key_def)
    have "files f' = (case r of Inl e \<Rightarrow> files f | Inr _ \<Rightarrow> (files f)(task_path a u (t_task_id t) \<mapsto> PDict (task_to_payload t)))"
      using write_task_files [OF F wt a(1,2)] plain_key_nonempty [OF a(3)] by blast
    then show ?thesis using contents_of_upd [OF a(3), of files f' f] contents_of_same [of files f' f] a(4) by (cases r) auto
  qed
  have get: "p = contents_of files f (a, u, i)" if "plain_key a u i" "store_get fc f i (Some a) (Some u) = Inr p" for f i a u p
    using that F plain_key_nonempty [OF that(1)]
    by (auto simp: store_get_def nonempty_def contents_of_def files_lawful_def document_def split: option.splits pyval.splits)
  have rm: "fc_rm_force fc f p = (f', Inr ()) \<Longrightarrow> files f' = (files f)(p := None)"
    "fc_rm_force fc f p = (f', Inl e) \<Longrightarrow> files f' = files f" for f p f' e
    using F D unfolding files_lawful_def dirs_lawful_def by metis+
  have del: "contents_of files f' = (case r of Inl e \<Rightarrow> contents_of files f | Inr _ \<Rightarrow> (contents_of files f)((a, u, i) := None))"
    if "plain_key a u i" "store_delete fc f i a (Some u) = (f', r)" for f i a u f' r
  proof -
    have "files f' = (case r of Inl e \<Rightarrow> files f | Inr _ \<Rightarrow> (files f)(task_path a u i := None))"
      using that plain_key_nonempty [OF that(1)]
      by (auto simp: store_delete_def nonempty_def split: prod.splits sum.splits dest: rm)
    then show ?thesis using contents_of_upd [OF that(1), of files f' f] contents_of_same [of files f' f] by (cases r) auto
  qed
  show ?thesis unfolding store_lawful_def sel
  proof (intro conjI allI impI)
    fix f t f' e assume "plain_task t \<and> (write_task fc f t = (f', Inl e) \<or> write_task fc f t = (f', Inl e))"
    then show "contents_of files f' = contents_of files f" using wr plain_owner_key by fastforce
  next
    fix f a u ds assume "plain_key a u [] \<and> store_list fc f a (Some u) = Inr ds"
    then show "set ds = {d. \<exists>i. contents_of files f (a, u, i) = Some d}" using store_list_set [OF F D] by blast
  next
    fix f i a show "store_get fc f i (Some a) None = Inr None" by (simp add: store_get_def nonempty_def)
  next
    fix f a show "store_list fc f a None = Inr []" by (simp add: store_list_def nonempty_def)
  qed (use wr get del in fastforce)+
qed

lemma memory_dirs_lawful: "dirs_lawful memory_files dget"
proof -
  have "item_path d [(''path'', PStr p)] = (if p = [] then d @ ''/'' else p)" for d p by (simp add: item_path_def)
  then show ?thesis unfolding dirs_lawful_def memory_files_def
    by (auto simp: startswith_iff image_iff dest!: dget_in_set split: if_splits)
qed

section \<open>Results\<close>



subsection \<open>A concrete run\<close>

definition memory_store :: "(string \<times> pyval) list task_store" where
  "memory_store = persistent_store memory_files"

lemma memory_store_lawful: "store_lawful memory_store (contents_of dget)"
  unfolding memory_store_def by (rule persistent_store_lawful [OF memory_files_lawful memory_dirs_lawful])

definition stored_sample :: "(string \<times> pyval) list" where
  "stored_sample = fst (write_task memory_files [] sample_task)"

definition sample_sys :: "(string \<times> pyval) list tt_sys" where
  "sample_sys = \<lparr>sy_w = \<lparr>tt_store = stored_sample, tt_tasks = [], tt_index = empty_index\<rparr>, sy_flight = {}, sy_lost = {}\<rparr>"

lemma sample_plain: "plain_task sample_task" "owner_key sample_task = Some (''acme'', ''alice'', ''t1'')"
  by (simp_all add: plain_task_def owner_key_def sample_task_def plain_key_def segment_def)

lemma stored_sample_contents:
  "contents_of dget stored_sample = (\<lambda>k. if k = (''acme'', ''alice'', ''t1'') then Some (task_to_payload sample_task) else None)"
proof -
  have "write_task memory_files [] sample_task = (stored_sample, Inr ())"
    by (simp add: stored_sample_def write_task_def ensure_task_dir_def mkdir_if_missing_def memory_files_def sample_task_def nonempty_def)
  then have "ts_create memory_store [] sample_task = (stored_sample, Inr ())"
    by (simp add: memory_store_def persistent_store_def)
  from store_lawfulD(1) [OF memory_store_lawful sample_plain this] show ?thesis by (auto simp: contents_of_def)
qed

lemma sample_init: "tt_init memory_store (contents_of dget) sample_sys"
  using memory_store_lawful sample_plain
  by (auto simp: tt_init_def sample_sys_def stored_sample_contents split: if_splits)

definition started_sys :: "(string \<times> pyval) list tt_sys" where
  "started_sys = sample_sys\<lparr>sy_w := fst (start memory_store (sy_w sample_sys) 500 ''t1'' (Some ''acme'') (Some ''alice'') None)\<rparr>"

lemma sample_run: "tt_step memory_store (contents_of dget) sample_sys started_sys"
  unfolding started_sys_def by (rule step_start) (simp add: args_plain_def plain_key_def segment_def)



subsection \<open>Whole methods are runs\<close>

definition runs ::
  "'s task_store \<Rightarrow> ('s \<Rightarrow> task_key \<Rightarrow> pydict option) \<Rightarrow> 's tracker \<Rightarrow> 's tracker \<Rightarrow> bool" where
  "runs st contents w w' \<longleftrightarrow> (\<forall>F L. \<exists>F' L'. F \<subseteq> F' \<and>
     (tt_step st contents)\<^sup>*\<^sup>* \<lparr>sy_w = w, sy_flight = F, sy_lost = L\<rparr> \<lparr>sy_w = w', sy_flight = F', sy_lost = L'\<rparr>)"

lemma runs_refl [simp]: "runs st contents w w"
  unfolding runs_def by blast

lemma runs_trans: "runs st contents w w' \<Longrightarrow> runs st contents w' w'' \<Longrightarrow> runs st contents w w''"
  unfolding runs_def by (meson order_trans rtranclp_trans)

lemma runs_step:
  assumes "\<And>F L. \<exists>F' L'. F \<subseteq> F' \<and> tt_step st contents \<lparr>sy_w = w, sy_flight = F, sy_lost = L\<rparr> \<lparr>sy_w = w', sy_flight = F', sy_lost = L'\<rparr>"
  shows "runs st contents w w'"
  using assms unfolding runs_def by (meson r_into_rtranclp)

lemma runs_section:
  assumes "\<And>x. tt_step st contents x (x\<lparr>sy_w := f (sy_w x)\<rparr>)"
  shows "runs st contents w (f w)"
  using assms [of "\<lparr>sy_w = w, sy_flight = F, sy_lost = L\<rparr>" for F L] by (intro runs_step) auto

lemma runs_sections:
  assumes "args_plain a u i"
  shows "runs st contents w (fst (start st w now i a u g))"
    and "runs st contents w (fst (update_stage st w now i s a u))"
    and "runs st contents w (fst (record_outcome_section st w now i a u result err rid))"
    and "runs st contents w (fst (cancel_section st w now i a u))"
    and "runs st contents w (fst (finalize_task st w now i a u))"
  using assms by (auto intro!: runs_section tt_step.intros)

lemma runs_load_merge:
  assumes "\<And>F L. tt_step st contents \<lparr>sy_w = w, sy_flight = F, sy_lost = L\<rparr> \<lparr>sy_w = w, sy_flight = set ts \<union> F, sy_lost = L\<rparr>"
  shows "runs st contents w (merge_loaded_tasks w ts)"
  unfolding runs_def
proof (intro allI exI conjI)
  fix F L
  let ?x = "\<lparr>sy_w = w, sy_flight = set ts \<union> F, sy_lost = L\<rparr>"
  have "tt_step st contents ?x (?x\<lparr>sy_w := merge_loaded_tasks (sy_w ?x) ts\<rparr>)" by (rule step_merge) simp
  then have "tt_step st contents ?x \<lparr>sy_w = merge_loaded_tasks w ts, sy_flight = set ts \<union> F, sy_lost = L\<rparr>" by simp
  with assms [of F L] show "(tt_step st contents)\<^sup>*\<^sup>* \<lparr>sy_w = w, sy_flight = F, sy_lost = L\<rparr>
      \<lparr>sy_w = merge_loaded_tasks w ts, sy_flight = set ts \<union> F, sy_lost = L\<rparr>"
    by (meson r_into_rtranclp rtranclp.rtrancl_into_rtrancl)
qed auto

lemma runs_load_one:
  assumes "args_plain (Some a) u i" "load_from_store st w now i a u = Inr (Some t)"
  shows "runs st contents w (merge_loaded_tasks w [t])"
  using step_load [of a u i st "\<lparr>sy_w = w, sy_flight = F, sy_lost = L\<rparr>" now t contents for F L] assms
  by (intro runs_load_merge) auto

lemma runs_load_all:
  assumes "args_plain (Some a) u []" "load_all_from_store st w now a u = Inr ts"
  shows "runs st contents w (merge_loaded_tasks w ts)"
  using step_load_all [of a u st "\<lparr>sy_w = w, sy_flight = F, sy_lost = L\<rparr>" now ts contents for F L] assms
  by (intro runs_load_merge) auto

lemma runs_record_outcome:
  assumes "args_plain a u i"
  shows "runs st contents w (fst (record_outcome st w now now2 i a u result err rid))"
proof -
  obtain w' r where w': "record_outcome_section st w now i a u result err rid = (w', r)" by force
  with runs_sections(3) [OF assms, of st contents w now result err rid] have "runs st contents w w'" by simp
  with w' runs_trans [OF this runs_sections(5) [OF assms]] show ?thesis by (cases r) (auto simp: record_outcome_def)
qed

lemma runs_cancel:
  assumes "args_plain a u i"
  shows "runs st contents w (fst (cancel st w now now2 i a u))"
proof -
  obtain w' r where w': "cancel_section st w now i a u = (w', r)" by force
  with runs_sections(4) [OF assms, of st contents w now] have "runs st contents w w'" by simp
  with w' runs_trans runs_sections(5) [OF assms, of st contents w' now2] show ?thesis
    by (fastforce simp: cancel_def Let_def split: sum.splits option.splits prod.splits)
qed

lemma runs_get_task:
  assumes "args_plain a u i"
  shows "runs st contents w (fst (get_task st w now i a u))"
  using assms runs_load_one [of _ u i st w now _ contents]
  by (auto simp: get_task_def Let_def simp del: merge_loaded_tasks.simps split: option.splits sum.splits)

lemma runs_refresh:
  assumes "args_plain a u []"
  shows "runs st contents w (fst (refresh_cache st w now a u))"
  using assms runs_load_all [of _ u st w now _ contents]
  by (auto simp: refresh_cache_def split: option.splits sum.splits)

lemma runs_delete_expired: "runs st contents w (fst (delete_expired_task st w now i))"
proof (rule runs_step)
  fix F L
  obtain w' b where "delete_expired_task st w now i = (w', b)" by force
  with step_expire [of st "\<lparr>sy_w = w, sy_flight = F, sy_lost = L\<rparr>" now i w' b contents]
  show "\<exists>F' L'. F \<subseteq> F' \<and> tt_step st contents \<lparr>sy_w = w, sy_flight = F, sy_lost = L\<rparr>
      \<lparr>sy_w = fst (delete_expired_task st w now i), sy_flight = F', sy_lost = L'\<rparr>" by auto
qed

lemma runs_delete_expired_all: "runs st contents w (fst (delete_expired_all st w now ids))"
proof (induction ids arbitrary: w)
  case (Cons i ids)
  obtain w' b where w': "delete_expired_task st w now i = (w', b)" by force
  with runs_delete_expired [of st contents w now i] have "runs st contents w w'" by simp
  with Cons [of w'] w' runs_trans show ?case by (auto split: prod.splits)
qed simp

lemma runs_trim: "runs st contents w (trim_cache w)"
  using step_trim [of st contents "\<lparr>sy_w = w, sy_flight = F, sy_lost = L\<rparr>" for F L] by (intro runs_step) auto

lemma runs_delete_user: "runs st contents w (fst (delete_user_task st w a u i))"
proof (rule runs_step)
  fix F L
  obtain w' r where "delete_user_task st w a u i = (w', r)" by force
  with step_delete [of st "\<lparr>sy_w = w, sy_flight = F, sy_lost = L\<rparr>" a u i w' r contents]
  show "\<exists>F' L'. F \<subseteq> F' \<and> tt_step st contents \<lparr>sy_w = w, sy_flight = F, sy_lost = L\<rparr>
      \<lparr>sy_w = fst (delete_user_task st w a u i), sy_flight = F', sy_lost = L'\<rparr>" by auto
qed

lemma runs_delete_user_all: "runs st contents w (fst (delete_user_all st w a u ts n))"
proof (induction ts arbitrary: w n)
  case (Cons t ts)
  obtain w' r where w': "delete_user_task st w a u (t_task_id t) = (w', r)" by force
  with runs_delete_user [of st contents w a u "t_task_id t"] have "runs st contents w w'" by simp
  with w' runs_trans [OF this Cons [of w']] show ?case by (cases r) auto
qed simp

lemma merge_store [simp]: "tt_store (merge_loaded_tasks w ts) = tt_store w"
  by (induction ts arbitrary: w) (auto split: option.splits)

lemma runs_create_if_no_running:
  assumes "args_plain (Some a) (Some u) []" "plain_key a u uuid" "unused contents w uuid"
  shows "runs st contents w (fst (create_if_no_running st w created updated uuid ty rid a u))"
proof -
  have create: "runs st contents w' (fst (persist_and_publish st w' True t))"
    if "t = new_task uuid ty (Some rid) a u [] [] created updated" "tt_store w' = tt_store w" for w' t
  proof -
    have p: "plain_task t" "t_task_id t = uuid" using that(1) assms(2) by (simp_all add: plain_task_def new_task_def)
    have un: "unused contents w' (t_task_id t)" "unshared contents w' t"
      using assms(3) p(2) that(2) by (auto simp: unused_def unshared_def)
    have "fst (create_on_owner st w' updated t False) = fst (persist_and_publish st w' True t)"
      by (auto simp: create_on_owner_def Let_def split: prod.splits sum.splits)
    with step_create [of t contents "\<lparr>sy_w = w', sy_flight = F, sy_lost = L\<rparr>" False st updated for F L] p un show ?thesis
      by (intro runs_step) auto
  qed
  show ?thesis
  proof (cases "validate_owner a u")
    case (Inr x)
    show ?thesis
    proof (cases "load_all_from_store st w created a (Some u)")
      case (Inr ts)
      have m: "runs st contents w (merge_loaded_tasks w ts)" using runs_load_all [OF assms(1) Inr] .
      show ?thesis using m runs_trans [OF m create [OF refl merge_store]] Inr \<open>validate_owner a u = Inr x\<close>
        by (auto simp: create_if_no_running_def Let_def split: prod.splits sum.splits)
    qed (simp add: create_if_no_running_def Inr)
  qed (simp add: create_if_no_running_def)
qed



lemma merge_keeps: "cached_task w i \<noteq> None \<Longrightarrow> cached_task (merge_loaded_tasks w ts) i \<noteq> None"
  by (induction ts arbitrary: w) (auto split: option.splits)

lemma merge_adds: "t \<in> set ts \<Longrightarrow> cached_task (merge_loaded_tasks w ts) (t_task_id t) \<noteq> None"
proof (induction ts arbitrary: w)
  case (Cons r ts)
  show ?case
  proof (cases "t = r")
    case True
    have "cached_task (case cached_task w (t_task_id r) of None \<Rightarrow> publish_task w r
        | Some c \<Rightarrow> if t_updated_at r > t_updated_at c then publish_task w r else w) (t_task_id t) \<noteq> None"
      using True by (auto split: option.splits)
    from merge_keeps [OF this, of ts] show ?thesis by simp
  qed (use Cons in auto)
qed simp

text \<open>Property C17. \<open>create_if_no_running\<close> never starts a second task: while the store keeps an active
  task of the same type, resource and owner, it reports that task as running (or an
  error), and changes nothing in the store.\<close>

theorem no_second_running_task:
  assumes "reach (tt_init st contents) (tt_step st contents) x"
    and "contents (tt_store (sy_w x)) (a, u, i) = Some (task_to_payload t)" "i \<notin> sy_lost x"
    and "active_status (t_status t)" "t_resource_id t = Some rid"
    and "create_if_no_running st (sy_w x) now now2 uuid (t_task_type t) rid a u = (w', r)"
  shows "(r = Inr None \<or> (\<exists>e. r = Inl e)) \<and> tt_store w' = tt_store (sy_w x)"
proof -
  let ?w = "sy_w x"
  have L: "store_lawful st contents" and S: "synced (kept contents ?w) (cached_task ?w) (sy_flight x) (sy_lost x)"
    using tt.reach_inv [OF assms(1)] by (auto simp: tt_inv_def)
  have t: "plain_task t" "owner_key t = Some (a, u, i)" using synced_stored [OF S assms(2)] by auto
  then have o: "t_task_id t = i" "t_account_id t = Some a" "t_user_id t = Some u" "plain_key a u i"
    using owner_key_id [OF t(2)] by (auto simp: plain_task_def)
  then have pl: "args_plain (Some a) (Some u) []" by (simp add: args_plain_def plain_key_def)
  show ?thesis
  proof (cases "load_all_from_store st ?w now a (Some u)")
    case (Inl e)
    with assms(6) show ?thesis by (auto simp: create_if_no_running_def split: sum.splits)
  next
    case (Inr ts)
    have tin: "t \<in> set ts"
    proof -
      obtain ds where ds: "ts_list st (tt_store ?w) a (Some u) = Inr ds" "emap (record_from_payload now) ds = Inr ts"
        using Inr by (auto simp: load_all_from_store_def ebind_Inr)
      have "task_to_payload t \<in> set ds" using store_lawfulD(7) [OF L _ ds(1)] pl assms(2) by (auto simp: args_plain_def)
      moreover have la: "list_all2 (\<lambda>d t. record_from_payload now d = Inr t) ds ts" using ds(2) by (simp add: emap_Inr)
      ultimately obtain j where j: "j < length ds" "ds ! j = task_to_payload t" by (auto simp: in_set_conv_nth)
      have "record_from_payload now (task_to_payload t) = Inr (ts ! j)" using list_all2_nthD [OF la j(1)] j(2) by simp
      with j(1) show ?thesis using list_all2_lengthD [OF la] by (auto simp: record_roundtrip)
    qed
    let ?m = "merge_loaded_tasks ?w ts"
    have S1: "synced (kept contents ?w) (cached_task ?w) (set ts \<union> sy_flight x) (sy_lost x)"
      using synced_loads [OF S] load_all_stored [OF L S pl Inr] by blast
    then have S2: "synced (kept contents ?w) (cached_task ?m) (set ts \<union> sy_flight x) (sy_lost x)" by (rule synced_merge) simp
    obtain c where c: "cached_task ?m i = Some c" using merge_adds [OF tin] o(1) by blast
    have "t_task_id c = i" "plain_task c" using syncedD(2) [OF S2 c] by auto
    then obtain b v where kc: "owner_key c = Some (b, v, i)" using plain_owner_key by blast
    have "kept contents ?w (b, v, i) = Some (task_to_payload c)" using syncedD(5) [OF S2 assms(3) c kc] .
    from synced_same_owner [OF S assms(3) this assms(2)] this assms(2) have "c = t" by auto
    then have "t \<in> set (cache_snapshot ?m)" using c dget_in_set unfolding cache_snapshot_def cached_task_def by force
    then have "has_active ?m (t_task_type t) (Some rid) (Some a) (Some u)"
      using assms(4,5) o by (auto simp: has_active_def list_ex_iff matches_owner_def)
    with Inr assms(6) show ?thesis by (auto simp: create_if_no_running_def Let_def split: sum.splits)
  qed
qed

theorem no_second_running_task_witness:
  "snd (create_if_no_running memory_store (sy_w sample_sys) 500 600 ''t2'' ''session_commit'' ''s1'' ''acme'' ''alice'') = Inr None
   \<or> (\<exists>e. snd (create_if_no_running memory_store (sy_w sample_sys) 500 600 ''t2'' ''session_commit'' ''s1'' ''acme'' ''alice'') = Inl e)"
proof -
  have 1: "reach (tt_init memory_store (contents_of dget)) (tt_step memory_store (contents_of dget)) sample_sys"
    using sample_init by (rule reach_init)
  have 2: "contents_of dget (tt_store (sy_w sample_sys)) (''acme'', ''alice'', ''t1'') = Some (task_to_payload sample_task)"
    by (simp add: sample_sys_def stored_sample_contents)
  have 3: "''t1'' \<notin> sy_lost sample_sys" "active_status (t_status sample_task)" "t_resource_id sample_task = Some ''s1''"
    "t_task_type sample_task = ''session_commit''"
    by (simp_all add: sample_sys_def sample_task_def active_status_def)
  from no_second_running_task [OF 1 2 3(1,2,3), of 500 600 "''t2''"] 3(4) show ?thesis by (metis prod.collapse)
qed

subsection \<open>A load that publishes unconditionally\<close>

text \<open>\<open>get_task_auth\<close> is not among the steps: it reads the store outside the task lock and publishes
  the record without comparing time stamps. Its two halves, with other sections in between.\<close>

definition auth_load ::
  "'s task_store \<Rightarrow> 's tracker \<Rightarrow> int \<Rightarrow> string \<Rightarrow> string \<Rightarrow> string \<Rightarrow> py_exc + task_record option" where
  "auth_load st w now i a u = load_from_store st w now i a (Some u)"

definition auth_publish :: "'s tracker \<Rightarrow> task_record \<Rightarrow> 's tracker" where
  "auth_publish w t = publish_task w t"

definition completed_meanwhile :: "(string \<times> pyval) list tracker" where
  "completed_meanwhile = fst (complete memory_store (sy_w sample_sys) 500 600 ''t1'' [] (Some ''acme'') (Some ''alice'') None)"

definition stale_published :: "(string \<times> pyval) list tracker" where
  "stale_published = auth_publish completed_meanwhile sample_task"

definition cancelled_after :: "(string \<times> pyval) list tracker" where
  "cancelled_after = fst (cancel memory_store stale_published 700 800 ''t1'' (Some ''acme'') (Some ''alice''))"

definition stored_status :: "(string \<times> pyval) list tracker \<Rightarrow> task_status option" where
  "stored_status w = (case load_from_store memory_store w 0 ''t1'' ''acme'' (Some ''alice'') of
      Inr (Some t) \<Rightarrow> Some (t_status t) | _ \<Rightarrow> None)"

text \<open>Property. A credential load that overlaps a completion reopens the task: the record read before
  the completion is published over the newer cached one, and a later cancellation then turns
  the stored status from completed into cancelled.\<close>

theorem stale_credential_load_reopens_task:
  "auth_load memory_store (sy_w sample_sys) 500 ''t1'' ''acme'' ''alice'' = Inr (Some sample_task)
   \<and> stored_status completed_meanwhile = Some COMPLETED
   \<and> is_cancellation_requested cancelled_after ''t1''
   \<and> stored_status cancelled_after = Some CANCELLED"
proof (intro conjI)
  show "auth_load memory_store (sy_w sample_sys) 500 ''t1'' ''acme'' ''alice'' = Inr (Some sample_task)" by code_simp
  show "stored_status completed_meanwhile = Some COMPLETED" by code_simp
  show "is_cancellation_requested cancelled_after ''t1''" by code_simp
  show "stored_status cancelled_after = Some CANCELLED" by code_simp
qed

end
