(* ===== verification/Named_Queue.thy ===== *)
theory Named_Queue
  imports Task_Work_Index
begin

text \<open>
  \<open>NamedQueue\<close> (\<open>openviking/storage/queuefs/named_queue.py\<close>): a persistent queue over the queue
  files of the storage backend, with status counters and the index of work of
  \<open>Task_Work_Index\<close>.

  The backend is the parameter \<open>queue_fs\<close>: reading and writing the control files
  (\<open>enqueue\<close>, \<open>dequeue\<close>, \<open>ack\<close>, ...) changes its state. The enqueue hook, the dequeue
  handler and the JSON codec are parameters too. Byte strings are represented by the
  text they decode to. A handler returns the reports it made through its callbacks, in order,
  and its outcome; \<open>CancelledError\<close> is the one exception that \<open>except Exception\<close> does not
  catch.
\<close>

section \<open>Parameters and state\<close>

datatype queue_content = CNone | CBytes string | CStr string | CResponse string | COther string

datatype qfs_exc = QExists | QMissing | QExc py_exc

record 'g queue_fs =
  qf_mkdir :: "'g \<Rightarrow> string \<Rightarrow> 'g \<times> (qfs_exc + unit)"
  qf_read :: "'g \<Rightarrow> string \<Rightarrow> 'g \<times> (qfs_exc + queue_content)"
  qf_write :: "'g \<Rightarrow> string \<Rightarrow> string \<Rightarrow> 'g \<times> (qfs_exc + pyval)"

definition raise_qfs :: "qfs_exc \<Rightarrow> py_exc" where
  "raise_qfs e = (case e of QExists \<Rightarrow> OtherError ''AlreadyExists'' | QMissing \<Rightarrow> NotFoundError | QExc x \<Rightarrow> x)"

record queue_error =
  qe_timestamp :: int
  qe_message :: string
  qe_data :: "pyval option"

datatype queue_report = RSuccess | RRequeue | RError string "pyval option"

record 'w queue_handler =
  hd_on_dequeue :: "'w \<Rightarrow> pyval \<Rightarrow> 'w \<times> queue_report list \<times> (py_exc + pyval)"
  hd_on_cancelled :: "'w \<Rightarrow> pyval \<Rightarrow> 'w \<times> queue_report list \<times> (py_exc + pyval)"

text \<open>The inherited \<open>on_cancelled\<close>: report success and drop the message.\<close>

definition default_on_cancelled :: "'w \<Rightarrow> pyval \<Rightarrow> 'w \<times> queue_report list \<times> (py_exc + pyval)" where
  "default_on_cancelled w data = (w, [RSuccess], Inr PNone)"

record ('w, 'g) queue_cfg =
  qc_name :: string
  qc_mount_point :: string
  qc_fs :: "'g queue_fs"
  qc_host :: "'w index_host option"
  qc_cancelled :: "'w \<Rightarrow> string \<Rightarrow> bool"
  qc_hook :: "('w \<Rightarrow> pyval \<Rightarrow> 'w \<times> (py_exc + pyval)) option"
  qc_handler :: "'w queue_handler option"
  qc_loads :: "string \<Rightarrow> pyval option"
  qc_dumps :: "pydict \<Rightarrow> string"

record ('w, 'g) named_queue =
  nq_world :: 'w
  nq_fs :: 'g
  nq_initialized :: bool
  nq_in_progress :: int
  nq_processed :: int
  nq_requeue_count :: int
  nq_error_count :: int
  nq_errors :: "queue_error list"

definition NamedQueue :: "'w \<Rightarrow> 'g \<Rightarrow> ('w, 'g) named_queue" where
  "NamedQueue w g = \<lparr>nq_world = w, nq_fs = g, nq_initialized = False, nq_in_progress = 0, nq_processed = 0,
     nq_requeue_count = 0, nq_error_count = 0, nq_errors = []\<rparr>"

definition qc_path :: "('w, 'g) queue_cfg \<Rightarrow> string" where
  "qc_path c = qc_mount_point c @ ''/'' @ qc_name c"

definition MAX_ERRORS :: nat where
  "MAX_ERRORS = 100"

section \<open>Status\<close>

definition on_dequeue_start :: "('w, 'g) named_queue \<Rightarrow> ('w, 'g) named_queue" where
  "on_dequeue_start q = q\<lparr>nq_in_progress := nq_in_progress q + 1\<rparr>"

definition on_process_success :: "('w, 'g) named_queue \<Rightarrow> ('w, 'g) named_queue" where
  "on_process_success q = q\<lparr>nq_in_progress := nq_in_progress q - 1, nq_processed := nq_processed q + 1\<rparr>"

definition on_process_requeue :: "('w, 'g) named_queue \<Rightarrow> ('w, 'g) named_queue" where
  "on_process_requeue q = q\<lparr>nq_requeue_count := nq_requeue_count q + 1\<rparr>"

definition note_failure ::
  "('w, 'g) queue_cfg \<Rightarrow> string \<Rightarrow> pyval option \<Rightarrow> 'w \<Rightarrow> 'w" where
  "note_failure c error_msg data w =
     (case (qc_host c, data) of
        (Some h, Some d) \<Rightarrow> (case extract_task_metadata (qc_loads c) d of
            Some md \<Rightarrow> ih_put h (record_failure (ih_get h w) (qm_task_id md) error_msg) w
          | None \<Rightarrow> w)
      | _ \<Rightarrow> w)"

text \<open>\<open>errors[-MAX_ERRORS:]\<close> when the list is longer than the limit.\<close>

definition on_process_error ::
  "('w, 'g) queue_cfg \<Rightarrow> int \<Rightarrow> string \<Rightarrow> pyval option \<Rightarrow> ('w, 'g) named_queue \<Rightarrow> ('w, 'g) named_queue" where
  "on_process_error c now error_msg data q =
     (let errors = nq_errors q @ [\<lparr>qe_timestamp = now, qe_message = error_msg, qe_data = data\<rparr>] in
      q\<lparr>nq_world := note_failure c error_msg data (nq_world q),
        nq_in_progress := nq_in_progress q - 1, nq_error_count := nq_error_count q + 1,
        nq_errors := (if length errors > MAX_ERRORS then drop (length errors - MAX_ERRORS) errors else errors)\<rparr>)"

definition apply_report ::
  "('w, 'g) queue_cfg \<Rightarrow> int \<Rightarrow> queue_report \<Rightarrow> ('w, 'g) named_queue \<Rightarrow> ('w, 'g) named_queue" where
  "apply_report c now r q =
     (case r of
        RSuccess \<Rightarrow> on_process_success q
      | RRequeue \<Rightarrow> on_process_requeue q
      | RError m d \<Rightarrow> on_process_error c now m d q)"

definition reset_status :: "('w, 'g) named_queue \<Rightarrow> ('w, 'g) named_queue" where
  "reset_status q = q\<lparr>nq_in_progress := 0, nq_processed := 0, nq_requeue_count := 0, nq_error_count := 0, nq_errors := []\<rparr>"

section \<open>Reading\<close>

definition ensure_initialized ::
  "('w, 'g) queue_cfg \<Rightarrow> ('w, 'g) named_queue \<Rightarrow> ('w, 'g) named_queue \<times> (py_exc + unit)" where
  "ensure_initialized c q =
     (if nq_initialized q then (q, Inr ())
      else case qf_mkdir (qc_fs c) (nq_fs q) (qc_path c) of
          (g, Inr _) \<Rightarrow> (q\<lparr>nq_fs := g, nq_initialized := True\<rparr>, Inr ())
        | (g, Inl QExists) \<Rightarrow> (q\<lparr>nq_fs := g, nq_initialized := True\<rparr>, Inr ())
        | (g, Inl e) \<Rightarrow> (q\<lparr>nq_fs := g\<rparr>, Inl (raise_qfs e)))"

definition content_empty :: "queue_content \<Rightarrow> bool" where
  "content_empty x \<longleftrightarrow> x \<in> {CNone, CBytes [], CStr [], CBytes ''{}''}"

definition content_text :: "queue_content \<Rightarrow> string" where
  "content_text x = (case x of CNone \<Rightarrow> [] | CBytes s \<Rightarrow> s | CStr s \<Rightarrow> s | CResponse s \<Rightarrow> s | COther s \<Rightarrow> s)"

definition parse_json :: "('w, 'g) queue_cfg \<Rightarrow> string \<Rightarrow> py_exc + pyval" where
  "parse_json c s = (case qc_loads c s of None \<Rightarrow> Inl ValueError | Some v \<Rightarrow> Inr v)"

definition read_queue_message ::
  "('w, 'g) queue_cfg \<Rightarrow> ('w, 'g) named_queue \<Rightarrow> ('w, 'g) named_queue \<times> (py_exc + pyval option)" where
  "read_queue_message c q =
     (case qf_read (qc_fs c) (nq_fs q) (qc_path c @ ''/dequeue'') of
        (g, Inl e) \<Rightarrow> (q\<lparr>nq_fs := g\<rparr>, Inl (raise_qfs e))
      | (g, Inr content) \<Rightarrow> (q\<lparr>nq_fs := g\<rparr>,
          if content_empty content then Inr None else map_sum id Some (parse_json c (content_text content))))"

text \<open>\<open>except Exception\<close> lets only a cancellation through.\<close>

definition swallow :: "'a \<Rightarrow> py_exc + 'a \<Rightarrow> py_exc + 'a" where
  "swallow dflt r = (case r of Inl e \<Rightarrow> if e = CancelledError then Inl e else Inr dflt | Inr x \<Rightarrow> Inr x)"

definition dequeue_raw ::
  "('w, 'g) queue_cfg \<Rightarrow> ('w, 'g) named_queue \<Rightarrow> ('w, 'g) named_queue \<times> (py_exc + pyval option)" where
  "dequeue_raw c q =
     (case ensure_initialized c q of
        (q1, Inl e) \<Rightarrow> (q1, Inl e)
      | (q1, Inr _) \<Rightarrow> (case read_queue_message c q1 of (q2, r) \<Rightarrow> (q2, swallow None r)))"

definition peek ::
  "('w, 'g) queue_cfg \<Rightarrow> ('w, 'g) named_queue \<Rightarrow> ('w, 'g) named_queue \<times> (py_exc + pyval option)" where
  "peek c q =
     (case ensure_initialized c q of
        (q1, Inl e) \<Rightarrow> (q1, Inl e)
      | (q1, Inr _) \<Rightarrow>
          (case qf_read (qc_fs c) (nq_fs q1) (qc_path c @ ''/peek'') of
             (g, Inl e) \<Rightarrow> (q1\<lparr>nq_fs := g\<rparr>, swallow None (Inl (raise_qfs e)))
           | (g, Inr content) \<Rightarrow> (q1\<lparr>nq_fs := g\<rparr>,
               if content_empty content then Inr None
               else (case content of
                   CBytes s \<Rightarrow> swallow None (map_sum id Some (parse_json c s))
                 | CStr s \<Rightarrow> swallow None (map_sum id Some (parse_json c s))
                 | _ \<Rightarrow> Inr None))))"

text \<open>\<open>int(text)\<close>: an optional sign and digits, single underscores between digits.\<close>

definition digits_value :: "string \<Rightarrow> nat" where
  "digits_value s = foldl (\<lambda>n c. 10 * n + (of_char c - 48)) 0 s"

definition py_int :: "string \<Rightarrow> py_exc + int" where
  "py_int s =
     (let (neg, body) = (case s of
            c # cs \<Rightarrow> if c = CHR ''-'' then (True, cs) else if c = CHR ''+'' then (False, cs) else (False, s)
          | [] \<Rightarrow> (False, []));
          groups = split_on CHR ''_'' body
      in if list_all (\<lambda>g. g \<noteq> [] \<and> list_all is_ascii_digit g) groups
         then Inr (let v = int (digits_value (concat groups)) in if neg then - v else v)
         else Inl ValueError)"

definition size_text :: "string \<Rightarrow> py_exc + int" where
  "size_text s = (let text = strip is_space s in if text = [] then Inr 0 else py_int text)"

definition queue_size ::
  "('w, 'g) queue_cfg \<Rightarrow> ('w, 'g) named_queue \<Rightarrow> ('w, 'g) named_queue \<times> (py_exc + int)" where
  "queue_size c q =
     (case ensure_initialized c q of
        (q1, Inl e) \<Rightarrow> (q1, Inl e)
      | (q1, Inr _) \<Rightarrow>
          (case qf_read (qc_fs c) (nq_fs q1) (qc_path c @ ''/size'') of
             (g, Inl QMissing) \<Rightarrow> (q1\<lparr>nq_fs := g\<rparr>, Inr 0)
           | (g, Inl e) \<Rightarrow> (q1\<lparr>nq_fs := g\<rparr>, Inl (raise_qfs e))
           | (g, Inr content) \<Rightarrow> (q1\<lparr>nq_fs := g\<rparr>,
               case content of
                 CNone \<Rightarrow> Inr 0
               | CBytes s \<Rightarrow> size_text s
               | CStr s \<Rightarrow> size_text s
               | _ \<Rightarrow> Inl TypeError)))"

record queue_status =
  st_pending :: int
  st_in_progress :: int
  st_processed :: int
  st_requeue_count :: int
  st_error_count :: int
  st_errors :: "queue_error list"

definition has_errors :: "queue_status \<Rightarrow> bool" where
  "has_errors s \<longleftrightarrow> st_error_count s > 0"

definition is_complete :: "queue_status \<Rightarrow> bool" where
  "is_complete s \<longleftrightarrow> st_pending s = 0 \<and> st_in_progress s = 0"

definition get_status ::
  "('w, 'g) queue_cfg \<Rightarrow> ('w, 'g) named_queue \<Rightarrow> ('w, 'g) named_queue \<times> (py_exc + queue_status)" where
  "get_status c q =
     (case queue_size c q of
        (q1, Inl e) \<Rightarrow> (q1, Inl e)
      | (q1, Inr pending) \<Rightarrow> (q1, Inr \<lparr>st_pending = pending, st_in_progress = nq_in_progress q1,
          st_processed = nq_processed q1, st_requeue_count = nq_requeue_count q1,
          st_error_count = nq_error_count q1, st_errors = nq_errors q1\<rparr>))"

text \<open>A message that is not an object fails in the index, so the list holds any value.\<close>

definition snapshot_content :: "('w, 'g) queue_cfg \<Rightarrow> queue_content \<Rightarrow> py_exc + pyval list" where
  "snapshot_content c content =
     (if content \<in> {CNone, CBytes [], CStr []} then Inr []
      else map_sum id (\<lambda>v. case v of PList xs \<Rightarrow> xs | _ \<Rightarrow> [])
        (case content of COther s \<Rightarrow> Inl TypeError | _ \<Rightarrow> parse_json c (content_text content)))"

definition snapshot ::
  "('w, 'g) queue_cfg \<Rightarrow> ('w, 'g) named_queue \<Rightarrow> ('w, 'g) named_queue \<times> (py_exc + pyval list)" where
  "snapshot c q =
     (case ensure_initialized c q of
        (q1, Inl e) \<Rightarrow> (q1, Inl e)
      | (q1, Inr _) \<Rightarrow>
          (case qf_read (qc_fs c) (nq_fs q1) (qc_path c @ ''/messages'') of
             (g, Inl QMissing) \<Rightarrow> (q1\<lparr>nq_fs := g\<rparr>, Inr [])
           | (g, Inl e) \<Rightarrow> (q1\<lparr>nq_fs := g\<rparr>, Inl (raise_qfs e))
           | (g, Inr content) \<Rightarrow> (q1\<lparr>nq_fs := g\<rparr>, snapshot_content c content)))"

section \<open>Enqueue\<close>

text \<open>\<open>ctx\<close> is the task context of the caller and \<open>uuid\<close> a fresh identifier.\<close>

definition register_enqueued ::
  "('w, 'g) queue_cfg \<Rightarrow> queue_task_metadata option \<Rightarrow> 'w \<Rightarrow> 'w \<times> bool" where
  "register_enqueued c md w =
     (case qc_host c of
        None \<Rightarrow> (w, True)
      | Some h \<Rightarrow> (case register (qc_cancelled c w) (ih_get h w) (qc_name c) md of
          (wi, ok) \<Rightarrow> (ih_put h wi w, ok)))"

definition message_id :: "pyval \<Rightarrow> string" where
  "message_id v = py_str v"

definition write_message ::
  "('w, 'g) queue_cfg \<Rightarrow> queue_task_metadata option \<Rightarrow> pyval \<Rightarrow> ('w, 'g) named_queue
    \<Rightarrow> ('w, 'g) named_queue \<times> (py_exc + string)" where
  "write_message c md data q =
     (let write_text = (\<lambda>s. case qf_write (qc_fs c) (nq_fs q) (qc_path c @ ''/enqueue'') s of
            (g, Inl e) \<Rightarrow> (q\<lparr>nq_fs := g\<rparr>, Inl (raise_qfs e))
          | (g, Inr v) \<Rightarrow> (q\<lparr>nq_fs := g\<rparr>, Inr (message_id v)));
          attempt = (case data of
              PDict d \<Rightarrow> write_text (qc_dumps c d)
            | PStr s \<Rightarrow> write_text s
            | _ \<Rightarrow> (q, Inl (OtherError ''AttributeError'')))
      in case attempt of
           (q1, Inr i) \<Rightarrow> (q1, Inr i)
         | (q1, Inl e) \<Rightarrow>
             (case (qc_host c, md) of
                (Some h, Some m) \<Rightarrow>
                  (case discard (qc_loads c) h (nq_world q1) (qc_name c) (MetaMsg m) of
                     (w, Inl e2) \<Rightarrow> (q1\<lparr>nq_world := w\<rparr>, Inl e2)
                   | (w, Inr _) \<Rightarrow> (q1\<lparr>nq_world := w\<rparr>, Inl e))
              | _ \<Rightarrow> (q1, Inl e)))"

definition enqueue ::
  "('w, 'g) queue_cfg \<Rightarrow> task_execution_context option \<Rightarrow> string \<Rightarrow> ('w, 'g) named_queue \<Rightarrow> pyval
    \<Rightarrow> ('w, 'g) named_queue \<times> (py_exc + string)" where
  "enqueue c ctx uuid q data0 =
     (case ensure_initialized c q of
        (q1, Inl e) \<Rightarrow> (q1, Inl e)
      | (q1, Inr _) \<Rightarrow>
          (case (case qc_hook c of None \<Rightarrow> (nq_world q1, Inr data0) | Some hook \<Rightarrow> hook (nq_world q1) data0) of
             (w, Inl e) \<Rightarrow> (q1\<lparr>nq_world := w\<rparr>, Inl e)
           | (w, Inr data) \<Rightarrow>
               (case (case data of
                    PDict d \<Rightarrow> (case prepare_task_payload ctx uuid d of (p, md) \<Rightarrow> (PDict p, md))
                  | _ \<Rightarrow> (data, None)) of (payload, md) \<Rightarrow>
                (case register_enqueued c md w of
                   (w2, False) \<Rightarrow> (q1\<lparr>nq_world := w2\<rparr>, Inl TaskWorkRejected)
                 | (w2, True) \<Rightarrow> write_message c md payload (q1\<lparr>nq_world := w2\<rparr>)))))"

section \<open>Acknowledgement and dequeue\<close>

definition rollback_prepared ::
  "('w, 'g) queue_cfg \<Rightarrow> queue_task_metadata option \<Rightarrow> 'w \<Rightarrow> 'w" where
  "rollback_prepared c prepared w =
     (case (qc_host c, prepared) of
        (Some h, Some md) \<Rightarrow> ih_put h (rollback_ack (ih_get h w) (qc_name c) md) w
      | _ \<Rightarrow> w)"

definition ack ::
  "('w, 'g) queue_cfg \<Rightarrow> pyval \<Rightarrow> pyval option \<Rightarrow> ('w, 'g) named_queue \<Rightarrow> ('w, 'g) named_queue \<times> (py_exc + unit)" where
  "ack c msg_id message q =
     (if \<not> truthy msg_id then (q, Inr ())
      else
        case (case (qc_host c, message) of
            (Some h, Some m) \<Rightarrow> prepare_ack (qc_loads c) h (nq_world q) (qc_name c) (RawMsg m)
          | _ \<Rightarrow> (nq_world q, Inr None)) of
          (w, Inl e) \<Rightarrow> (q\<lparr>nq_world := w\<rparr>, swallow () (Inl e))
        | (w, Inr prepared) \<Rightarrow>
            (case (case msg_id of
                PStr s \<Rightarrow> qf_write (qc_fs c) (nq_fs q) (qc_path c @ ''/ack'') s
              | _ \<Rightarrow> (nq_fs q, Inl (QExc (OtherError ''AttributeError'')))) of
               (g, Inr _) \<Rightarrow> (q\<lparr>nq_world := w, nq_fs := g\<rparr>, Inr ())
             | (g, Inl e) \<Rightarrow> (q\<lparr>nq_world := rollback_prepared c prepared w, nq_fs := g\<rparr>,
                   swallow () (Inl (raise_qfs e)))))"

text \<open>\<open>me\<close> is the asyncio task that runs the handler, if any.\<close>

definition run_handler ::
  "('w, 'g) queue_cfg \<Rightarrow> int \<Rightarrow> ('w \<Rightarrow> pyval \<Rightarrow> 'w \<times> queue_report list \<times> (py_exc + pyval)) \<Rightarrow> pyval
    \<Rightarrow> ('w, 'g) named_queue \<Rightarrow> ('w, 'g) named_queue \<times> (py_exc + pyval)" where
  "run_handler c now h data q =
     (case h (nq_world q) data of
        (w, reports, r) \<Rightarrow> (fold (apply_report c now) reports (q\<lparr>nq_world := w\<rparr>), r))"

definition set_active ::
  "('w, 'g) queue_cfg \<Rightarrow> (work_index \<Rightarrow> work_index) \<Rightarrow> ('w, 'g) named_queue \<Rightarrow> ('w, 'g) named_queue" where
  "set_active c f q =
     (case qc_host c of None \<Rightarrow> q | Some h \<Rightarrow> q\<lparr>nq_world := ih_put h (f (ih_get h (nq_world q))) (nq_world q)\<rparr>)"

definition process_dequeued ::
  "('w, 'g) queue_cfg \<Rightarrow> int \<Rightarrow> nat option \<Rightarrow> pyval \<Rightarrow> ('w, 'g) named_queue
    \<Rightarrow> ('w, 'g) named_queue \<times> (py_exc + pyval)" where
  "process_dequeued c now me data q =
     (case qc_handler c of
        None \<Rightarrow> (q, Inr data)
      | Some h \<Rightarrow>
          (case (extract_task_metadata (qc_loads c) data, qc_host c) of
             (Some md, Some host) \<Rightarrow>
               if qc_cancelled c (nq_world q) (qm_task_id md) then run_handler c now (hd_on_cancelled h) data q
               else
                 let q1 = (case me of None \<Rightarrow> q
                     | Some t \<Rightarrow> set_active c (\<lambda>wi. fst (register_active (qc_cancelled c (nq_world q)) wi (qm_task_id md) t)) q);
                     (q2, r) = run_handler c now (hd_on_dequeue h) data q1;
                     (q3, r3) = (if r = Inl CancelledError \<and> qc_cancelled c (nq_world q2) (qm_task_id md)
                                 then (on_process_success q2, Inr PNone) else (q2, r))
                 in (case me of None \<Rightarrow> q3
                     | Some t \<Rightarrow> set_active c (\<lambda>wi. unregister_active wi (qm_task_id md) t) q3, r3)
           | _ \<Rightarrow> run_handler c now (hd_on_dequeue h) data q))"

definition dequeue ::
  "('w, 'g) queue_cfg \<Rightarrow> int \<Rightarrow> nat option \<Rightarrow> ('w, 'g) named_queue \<Rightarrow> ('w, 'g) named_queue \<times> (py_exc + pyval)" where
  "dequeue c now me q =
     (case ensure_initialized c q of
        (q1, Inl e) \<Rightarrow> (q1, Inl e)
      | (q1, Inr _) \<Rightarrow>
          (case read_queue_message c q1 of
             (q2, Inl e) \<Rightarrow> (q2, swallow PNone (Inl e))
           | (q2, Inr None) \<Rightarrow> (q2, Inr PNone)
           | (q2, Inr (Some data)) \<Rightarrow>
               let msg_id = (case data of PDict d \<Rightarrow> (case dget d ''id'' of None \<Rightarrow> PStr [] | Some v \<Rightarrow> v) | _ \<Rightarrow> PStr []) in
               (case (case qc_handler c of
                   None \<Rightarrow> (q2, Inr data)
                 | Some _ \<Rightarrow> process_dequeued c now me data (on_dequeue_start q2)) of
                  (q3, Inl e) \<Rightarrow> (q3, swallow PNone (Inl e))
                | (q3, Inr result) \<Rightarrow>
                    (case ack c msg_id (Some data) q3 of
                       (q4, Inl e) \<Rightarrow> (q4, swallow PNone (Inl e))
                     | (q4, Inr _) \<Rightarrow> (q4, Inr result)))))"

section \<open>Clear\<close>

fun prepare_all ::
  "('w, 'g) queue_cfg \<Rightarrow> 'w index_host \<Rightarrow> 'w \<Rightarrow> pyval list \<Rightarrow> queue_task_metadata list
    \<Rightarrow> 'w \<times> queue_task_metadata list \<times> (py_exc + unit)" where
  "prepare_all c h w [] prepared = (w, prepared, Inr ())"
| "prepare_all c h w (m # ms) prepared =
     (case prepare_ack (qc_loads c) h w (qc_name c) (RawMsg m) of
        (w1, Inl e) \<Rightarrow> (w1, prepared, Inl e)
      | (w1, Inr None) \<Rightarrow> prepare_all c h w1 ms prepared
      | (w1, Inr (Some md)) \<Rightarrow> prepare_all c h w1 ms (prepared @ [md]))"

definition rollback_all :: "('w, 'g) queue_cfg \<Rightarrow> queue_task_metadata list \<Rightarrow> 'w \<Rightarrow> 'w" where
  "rollback_all c mds w = fold (\<lambda>md. rollback_prepared c (Some md)) mds w"

definition queue_clear ::
  "('w, 'g) queue_cfg \<Rightarrow> ('w, 'g) named_queue \<Rightarrow> ('w, 'g) named_queue \<times> (py_exc + bool)" where
  "queue_clear c q =
     (case ensure_initialized c q of
        (q1, Inl e) \<Rightarrow> (q1, Inl e)
      | (q1, Inr _) \<Rightarrow>
          (case (case qc_host c of None \<Rightarrow> (q1, Inr []) | Some _ \<Rightarrow> snapshot c q1) of
             (q2, Inl e) \<Rightarrow> (q2, Inl e)
           | (q2, Inr messages) \<Rightarrow>
               (case (case qc_host c of
                   None \<Rightarrow> (nq_world q2, [], Inr ())
                 | Some h \<Rightarrow> prepare_all c h (nq_world q2) messages []) of
                  (w, prepared, Inl e) \<Rightarrow> (q2\<lparr>nq_world := rollback_all c prepared w\<rparr>, swallow False (Inl e))
                | (w, prepared, Inr _) \<Rightarrow>
                    (case qf_write (qc_fs c) (nq_fs q2) (qc_path c @ ''/clear'') [] of
                       (g, Inr _) \<Rightarrow> (q2\<lparr>nq_world := w, nq_fs := g\<rparr>, Inr True)
                     | (g, Inl e) \<Rightarrow> (q2\<lparr>nq_world := rollback_all c prepared w, nq_fs := g\<rparr>,
                           swallow False (Inl (raise_qfs e)))))))"

section \<open>Status of a queue\<close>

definition new_errors :: "int \<Rightarrow> queue_report list \<Rightarrow> queue_error list" where
  "new_errors now rs = List.map_filter (\<lambda>r. case r of
      RError m d \<Rightarrow> Some \<lparr>qe_timestamp = now, qe_message = m, qe_data = d\<rparr> | _ \<Rightarrow> None) rs"

definition last_n :: "nat \<Rightarrow> 'a list \<Rightarrow> 'a list" where
  "last_n n xs = drop (length xs - n) xs"

lemma last_n_append: "last_n n (last_n n xs @ ys) = last_n n (xs @ ys)"
proof (cases "length xs \<le> n")
  case False
  then have "length xs + length ys - (length xs - n + n) + (length xs - n) = length xs + length ys - n" by simp
  then show ?thesis by (simp add: last_n_def)
qed (simp add: last_n_def)

lemma last_n_length: "length (last_n n xs) \<le> n"
  by (simp add: last_n_def)

lemma new_errors_Cons: "new_errors now (r # rs) = new_errors now [r] @ new_errors now rs"
  by (simp add: new_errors_def List.map_filter_simps split: option.splits)

lemma apply_report_errors:
  "length (nq_errors q) \<le> MAX_ERRORS \<Longrightarrow> nq_errors (apply_report c now r q) = last_n MAX_ERRORS (nq_errors q @ new_errors now [r])"
  by (cases r) (auto simp: apply_report_def on_process_success_def on_process_requeue_def on_process_error_def
      new_errors_def List.map_filter_simps last_n_def Let_def)

definition settled :: "queue_report list \<Rightarrow> nat" where
  "settled rs = length (filter (\<lambda>r. r \<noteq> RRequeue) rs)"

lemma apply_report_counts:
  "nq_in_progress (apply_report c now r q) = nq_in_progress q - int (settled [r])"
  "nq_processed (apply_report c now r q) + nq_error_count (apply_report c now r q)
     = nq_processed q + nq_error_count q + int (settled [r])"
  by (cases r; simp add: apply_report_def on_process_success_def on_process_requeue_def on_process_error_def
      settled_def Let_def)+

text \<open>Property. The status of a queue after any sequence of reports: the kept errors are exactly the
  last hundred reported, each success or error settles one message in progress, and settled
  messages are counted as processed or failed.\<close>

theorem queue_status_after_reports:
  assumes "length (nq_errors q) \<le> MAX_ERRORS"
  shows "let q' = fold (apply_report c now) rs q in
    nq_errors q' = last_n MAX_ERRORS (nq_errors q @ new_errors now rs) \<and> length (nq_errors q') \<le> 100
    \<and> nq_in_progress q' = nq_in_progress q - int (settled rs)
    \<and> nq_processed q' + nq_error_count q' = nq_processed q + nq_error_count q + int (settled rs)"
  using assms
proof (induction rs arbitrary: q)
  case Nil
  then show ?case by (simp add: new_errors_def List.map_filter_simps settled_def last_n_def MAX_ERRORS_def)
next
  case (Cons r rs)
  let ?q = "apply_report c now r q"
  have e: "nq_errors ?q = last_n MAX_ERRORS (nq_errors q @ new_errors now [r])" by (rule apply_report_errors [OF Cons.prems])
  have "settled (r # rs) = settled [r] + settled rs" by (simp add: settled_def)
  with Cons.IH [of ?q] last_n_length [of MAX_ERRORS "nq_errors q @ new_errors now [r]"] apply_report_counts [of c now r q]
  show ?case by (auto simp: e Let_def last_n_append new_errors_Cons [of now r rs])
qed

definition idle_cfg :: "(work_index, nat) queue_cfg" where
  "idle_cfg = \<lparr>qc_name = ''q'', qc_mount_point = ''/queue'', qc_fs = \<lparr>qf_mkdir = (\<lambda>g p. (g, Inr ())),
     qf_read = (\<lambda>g p. (g, Inr CNone)), qf_write = (\<lambda>g p s. if p = ''/queue/q/ack'' then (g, Inl (QExc IOError)) else (g + 1, Inr (PInt 7)))\<rparr>,
     qc_host = Some plain_host, qc_cancelled = (\<lambda>w i. i = ''t9''), qc_hook = None, qc_handler = None,
     qc_loads = (\<lambda>s. None), qc_dumps = (\<lambda>d. ''{}'')\<rparr>"

theorem queue_status_after_reports_witness:
  "nq_errors (fold (apply_report idle_cfg 5) [RSuccess, RError ''x'' None] (NamedQueue empty_index 0))
     = [\<lparr>qe_timestamp = 5, qe_message = ''x'', qe_data = None\<rparr>]"
  using queue_status_after_reports [of "NamedQueue empty_index 0" idle_cfg 5 "[RSuccess, RError ''x'' None]"]
  by (simp add: NamedQueue_def Let_def new_errors_def List.map_filter_simps last_n_def MAX_ERRORS_def)

section \<open>Messages and the index\<close>

text \<open>The finaliser does not touch the work of tasks.\<close>

definition finalizer_keeps_work :: "'w index_host \<Rightarrow> bool" where
  "finalizer_keeps_work h \<longleftrightarrow> (\<forall>fin w md tid. ih_finalize h = Some fin \<longrightarrow>
     set_of (wi_work (ih_get h (fst (fin w md)))) tid = set_of (wi_work (ih_get h w)) tid)"

definition work_of :: "('w, 'g) queue_cfg \<Rightarrow> 'w \<Rightarrow> string \<Rightarrow> (string \<times> string) set" where
  "work_of c w tid = (case qc_host c of None \<Rightarrow> {} | Some h \<Rightarrow> set_of (wi_work (ih_get h w)) tid)"

lemma discard_work:
  assumes "host_ok h" "finalizer_keeps_work h" "metadata_of loads msg = Some md"
  shows "set_of (wi_work (ih_get h (fst (discard loads h w q msg)))) tid =
    (if tid = qm_task_id md then set_of (wi_work (ih_get h w)) tid - {(q, qm_work_id md)} else set_of (wi_work (ih_get h w)) tid)"
proof -
  obtain wi removed idle where rm: "remove_work (ih_get h w) q md = (wi, removed, idle)" by (metis prod_cases3)
  have g: "ih_get h (ih_put h wi w) = wi" using assms(1) by (simp add: host_ok_def)
  have f: "set_of (wi_work (ih_get h (fst (fin (ih_put h wi w) md)))) tid = set_of (wi_work wi) tid" if "ih_finalize h = Some fin" for fin
    using assms(2) that g by (simp add: finalizer_keeps_work_def)
  show ?thesis using remove_work_set(1) [OF rm, of tid] f assms(3)
    by (auto simp: discard_def rm g Let_def split: option.splits)
qed

text \<open>Property C38. Enqueueing work of a task leaves no orphan: a task being cancelled gets its work
  rejected before anything is written; otherwise the work is in the index exactly when
  the message was written, and a failed write leaves the index as it was.\<close>

theorem enqueue_leaves_no_orphan_work:
  assumes "qc_host c = Some h" "host_ok h" "finalizer_keeps_work h" "qc_hook c = None" "nq_initialized q"
    and "prepare_task_payload ctx uuid d = (p, Some md)"
    and "(qc_name c, qm_work_id md) \<notin> work_of c (nq_world q) (qm_task_id md)"
  shows "case enqueue c ctx uuid q (PDict d) of (q', r) \<Rightarrow>
    if qc_cancelled c (nq_world q) (qm_task_id md)
    then r = Inl TaskWorkRejected \<and> nq_fs q' = nq_fs q \<and> work_of c (nq_world q') = work_of c (nq_world q)
    else (case qf_write (qc_fs c) (nq_fs q) (qc_path c @ ''/enqueue'') (qc_dumps c p) of
        (g, Inr v) \<Rightarrow> r = Inr (py_str v) \<and> nq_fs q' = g
          \<and> (qc_name c, qm_work_id md) \<in> work_of c (nq_world q') (qm_task_id md)
      | (g, Inl e) \<Rightarrow> (\<exists>e'. r = Inl e') \<and> nq_fs q' = g \<and> work_of c (nq_world q') = work_of c (nq_world q))"
proof -
  let ?w = "nq_world q"
  have g: "ih_get h (ih_put h wi w) = wi" for wi w using assms(2) by (simp add: host_ok_def)
  have init: "ensure_initialized c q = (q, Inr ())" using assms(5) by (simp add: ensure_initialized_def)
  show ?thesis
  proof (cases "qc_cancelled c ?w (qm_task_id md)")
    case True
    then have "register_enqueued c (Some md) ?w = (ih_put h (ih_get h ?w) ?w, False)"
      using assms(1) by (simp add: register_enqueued_def register_def)
    with True assms(1,4,6) show ?thesis by (auto simp: enqueue_def init work_of_def g fun_eq_iff)
  next
    case False
    let ?w2 = "ih_put h ((ih_get h ?w)\<lparr>wi_work := add_work (wi_work (ih_get h ?w)) (qc_name c) md\<rparr>) ?w"
    have "register_enqueued c (Some md) ?w = (?w2, True)"
      using assms(1) False by (simp add: register_enqueued_def register_def)
    then have e: "enqueue c ctx uuid q (PDict d) = write_message c (Some md) (PDict p) (q\<lparr>nq_world := ?w2\<rparr>)"
      using assms(4,6) by (simp add: enqueue_def init)
    have undone: "set_of (wi_work (ih_get h (fst (discard (qc_loads c) h ?w2 (qc_name c) (MetaMsg md))))) tid = set_of (wi_work (ih_get h ?w)) tid" for tid
      using discard_work [OF assms(2,3), of "qc_loads c" "MetaMsg md" md ?w2 "qc_name c" tid] assms(1,7)
      by (auto simp: metadata_of_def g set_of_add_work work_of_def)
    obtain fs r where wr: "qf_write (qc_fs c) (nq_fs q) (qc_path c @ ''/enqueue'') (qc_dumps c p) = (fs, r)" by force
    obtain w3 r3 where dc: "discard (qc_loads c) h ?w2 (qc_name c) (MetaMsg md) = (w3, r3)" by force
    show ?thesis
    proof (cases r)
      case (Inl x)
      then show ?thesis using False wr assms(1) dc undone
        by (cases r3) (auto simp: e write_message_def work_of_def fun_eq_iff)
    next
      case (Inr v)
      then show ?thesis using False wr assms(1)
        by (simp add: e write_message_def work_of_def message_id_def g set_of_add_work)
    qed
  qed
qed

definition failing_write :: "(work_index, nat) queue_cfg" where
  "failing_write = idle_cfg\<lparr>qc_fs := (qc_fs idle_cfg)\<lparr>qf_write := (\<lambda>g p s. (g, Inl (QExc IOError)))\<rparr>\<rparr>"

lemma plain_host_ok: "host_ok plain_host" "finalizer_keeps_work plain_host"
  by (simp_all add: host_ok_def finalizer_keeps_work_def plain_host_def)

theorem enqueue_leaves_no_orphan_work_witness:
  "let q = (NamedQueue empty_index 0)\<lparr>nq_initialized := True\<rparr>;
       d = [(''task_id'', PStr ''t1'')]
   in work_of failing_write (nq_world (fst (enqueue failing_write None ''u1'' q (PDict d)))) = work_of failing_write empty_index
    \<and> (\<exists>e. snd (enqueue failing_write None ''u1'' q (PDict d)) = Inl e)"
proof -
  let ?q = "(NamedQueue empty_index 0)\<lparr>nq_initialized := True\<rparr> :: (work_index, nat) named_queue"
  let ?d = "[(''task_id'', PStr ''t1'')]"
  have "snd (prepare_task_payload None ''u1'' ?d) = Some \<lparr>qm_task_id = ''t1'', qm_work_id = ''u1'', qm_account_id = [], qm_user_id = []\<rparr>"
    by code_simp
  then obtain p md where p: "prepare_task_payload None ''u1'' ?d = (p, Some md)" "qm_task_id md = ''t1''"
    by (cases "prepare_task_payload None ''u1'' ?d") auto
  have 1: "qc_host failing_write = Some plain_host" "qc_hook failing_write = None" "nq_initialized ?q"
    by (simp_all add: failing_write_def idle_cfg_def)
  have 2: "(qc_name failing_write, qm_work_id md) \<notin> work_of failing_write (nq_world ?q) (qm_task_id md)"
    by (simp add: work_of_def 1 plain_host_def NamedQueue_def empty_index_def set_of_def)
  from enqueue_leaves_no_orphan_work [OF 1(1) plain_host_ok 1(2,3) p(1) 2] p(2) show ?thesis
    by (auto simp: Let_def failing_write_def idle_cfg_def NamedQueue_def split: prod.splits)
qed

text \<open>What \<open>prepare_ack\<close> leaves in the index: the item of the message is taken out exactly when its
  metadata is returned.\<close>

definition without :: "('t \<Rightarrow> 'e set) \<Rightarrow> 't \<Rightarrow> 'e \<Rightarrow> 't \<Rightarrow> 'e set" where
  "without f tid e = f(tid := f tid - {e})"

lemma prepare_ack_work:
  assumes "host_ok h" "finalizer_keeps_work h" "prepare_ack loads h w q msg = (w', r)"
  shows "case r of
      Inr (Some md) \<Rightarrow> metadata_of loads msg = Some md
        \<and> (q, qm_work_id md) \<in> set_of (wi_work (ih_get h w)) (qm_task_id md)
        \<and> set_of (wi_work (ih_get h w')) = without (set_of (wi_work (ih_get h w))) (qm_task_id md) (q, qm_work_id md)
    | Inr None \<Rightarrow> set_of (wi_work (ih_get h w')) = set_of (wi_work (ih_get h w))
        \<and> (\<forall>md. metadata_of loads msg = Some md \<longrightarrow> (q, qm_work_id md) \<notin> set_of (wi_work (ih_get h w)) (qm_task_id md))
    | Inl e \<Rightarrow> set_of (wi_work (ih_get h w')) = set_of (wi_work (ih_get h w))"
proof (cases "metadata_of loads msg")
  case None
  with assms(3) show ?thesis by (auto simp: prepare_ack_def)
next
  case (Some md)
  obtain wi removed idle where rm: "remove_work (ih_get h w) q md = (wi, removed, idle)" by (metis prod_cases3)
  note s = remove_work_set [OF rm]
  have g: "ih_get h (ih_put h wi w) = wi" for wi w using assms(1) by (simp add: host_ok_def)
  have s1: "set_of (wi_work wi) = without (set_of (wi_work (ih_get h w))) (qm_task_id md) (q, qm_work_id md)"
    using s(1) by (auto simp: without_def fun_eq_iff)
  have f: "set_of (wi_work (ih_get h (fst (fin (ih_put h wi w) md)))) = set_of (wi_work wi)" if "ih_finalize h = Some fin" for fin
    using assms(2) that g by (simp add: finalizer_keeps_work_def fun_eq_iff)
  show ?thesis
  proof (cases "removed \<and> idle \<and> ih_finalize h \<noteq> None")
    case False
    moreover have "set_of (wi_work wi) = set_of (wi_work (ih_get h w))" if "\<not> removed"
      using that s(4) by (auto simp: s1 without_def fun_eq_iff)
    ultimately show ?thesis using assms(3) Some rm s1 s(4)
      by (auto simp: prepare_ack_def Let_def g split: option.splits if_splits)
  next
    case True
    then obtain fin where fin: "ih_finalize h = Some fin" by blast
    obtain w2 r2 where w2: "fin (ih_put h wi w) md = (w2, r2)" by force
    have f2: "set_of (wi_work (ih_get h w2)) = set_of (wi_work wi)" using f [OF fin] w2 by simp
    have undone: "set_of (wi_work (rollback_ack (ih_get h w2) q md)) = set_of (wi_work (ih_get h w))"
      using s(4) True by (auto simp: rollback_ack_def set_of_add_work f2 s1 without_def fun_eq_iff)
    show ?thesis using assms(3) Some rm True fin w2 f2 s1 s(4) undone
      by (cases r2) (auto simp: prepare_ack_def Let_def g)
  qed
qed

lemma rollback_prepared_work:
  assumes "qc_host c = Some h" "host_ok h"
  shows "set_of (wi_work (ih_get h (rollback_prepared c (Some md) w))) =
    (let f = set_of (wi_work (ih_get h w)) in f(qm_task_id md := insert (qc_name c, qm_work_id md) (f (qm_task_id md))))"
  using assms by (auto simp: rollback_prepared_def host_ok_def rollback_ack_def set_of_add_work fun_eq_iff Let_def)

text \<open>Property C6. Delivery at least once: a work item leaves the index only together with its message. If
  the acknowledgement was not written, because the finaliser or the backend failed, the
  index holds the same work as before; if it was written, exactly that item is gone.\<close>

theorem unacked_work_stays_indexed:
  assumes "qc_host c = Some h" "host_ok h" "finalizer_keeps_work h"
    and "extract_task_metadata (qc_loads c) m = Some md"
    and "(qc_name c, qm_work_id md) \<in> work_of c (nq_world q) (qm_task_id md)"
    and "ack c (PStr i) (Some m) q = (q', r)" "i \<noteq> []"
  shows "work_of c (nq_world q') = work_of c (nq_world q) \<and> (r = Inr () \<or> r = Inl CancelledError)
    \<or> (\<exists>v. qf_write (qc_fs c) (nq_fs q) (qc_path c @ ''/ack'') i = (nq_fs q', Inr v)) \<and> r = Inr ()
      \<and> work_of c (nq_world q') = without (work_of c (nq_world q)) (qm_task_id md) (qc_name c, qm_work_id md)"
proof -
  obtain w pr where pa: "prepare_ack (qc_loads c) h (nq_world q) (qc_name c) (RawMsg m) = (w, pr)" by force
  obtain g wr where w: "qf_write (qc_fs c) (nq_fs q) (qc_path c @ ''/ack'') i = (g, wr)" by force
  have md: "metadata_of (qc_loads c) (RawMsg m) = Some md" using assms(4) by (simp add: metadata_of_def)
  have mem: "(qc_name c, qm_work_id md) \<in> set_of (wi_work (ih_get h (nq_world q))) (qm_task_id md)"
    using assms(1,5) by (simp add: work_of_def)
  have W: "work_of c x = set_of (wi_work (ih_get h x))" for x using assms(1) by (simp add: work_of_def fun_eq_iff)
  note eff = prepare_ack_work [OF assms(2,3) pa]
  show ?thesis
  proof (cases pr)
    case (Inl e)
    with assms(1,6,7) pa eff show ?thesis by (auto simp: ack_def W swallow_def split: if_splits)
  next
    case (Inr mo)
    with eff md mem have pr: "pr = Inr (Some md)"
      and s: "set_of (wi_work (ih_get h w)) = without (set_of (wi_work (ih_get h (nq_world q)))) (qm_task_id md) (qc_name c, qm_work_id md)"
      by (auto split: option.splits)
    show ?thesis
    proof (cases wr)
      case (Inl e)
      have "set_of (wi_work (ih_get h (rollback_prepared c (Some md) w))) = set_of (wi_work (ih_get h (nq_world q)))"
        using mem by (auto simp: rollback_prepared_work [OF assms(1,2)] s without_def fun_eq_iff Let_def)
      with Inl pr assms(1,6,7) pa w show ?thesis by (auto simp: ack_def W swallow_def split: if_splits)
    next
      case (Inr v)
      with pr s assms(1,6,7) pa w show ?thesis by (auto simp: ack_def W)
    qed
  qed
qed

theorem unacked_work_stays_indexed_witness:
  "let m = PDict [(''task_id'', PStr ''t1''), (''_task_work_id'', PStr ''w1'')];
       q = NamedQueue (rollback_ack empty_index ''q'' sample_md) 0
   in work_of idle_cfg (nq_world (fst (ack idle_cfg (PStr ''7'') (Some m) q))) = work_of idle_cfg (nq_world q)"
proof -
  let ?m = "PDict [(''task_id'', PStr ''t1''), (''_task_work_id'', PStr ''w1'')]"
  let ?q = "NamedQueue (rollback_ack empty_index ''q'' sample_md) 0 :: (work_index, nat) named_queue"
  let ?md = "\<lparr>qm_task_id = ''t1'', qm_work_id = ''w1'', qm_account_id = [], qm_user_id = []\<rparr>"
  have 1: "qc_host idle_cfg = Some plain_host" by (simp add: idle_cfg_def)
  have "extract_task_metadata (\<lambda>s. None) ?m = Some ?md" by code_simp
  then have 2: "extract_task_metadata (qc_loads idle_cfg) ?m = Some ?md" by (simp add: idle_cfg_def)
  have 3: "(qc_name idle_cfg, qm_work_id ?md) \<in> work_of idle_cfg (nq_world ?q) (qm_task_id ?md)"
    by (simp add: work_of_def 1 plain_host_def NamedQueue_def rollback_ack_def set_of_add_work sample_md_def)
       (simp add: idle_cfg_def)
  obtain q' r where a: "ack idle_cfg (PStr ''7'') (Some ?m) ?q = (q', r)" by force
  have "qf_write (qc_fs idle_cfg) (nq_fs ?q) (qc_path idle_cfg @ ''/ack'') ''7'' \<noteq> (nq_fs q', Inr v)" for v
    by (simp add: idle_cfg_def qc_path_def)
  with unacked_work_stays_indexed [OF 1 plain_host_ok 2 3 a] show ?thesis by (simp add: a)
qed

section \<open>Clearing a queue\<close>

lemma prepare_all_work:
  assumes "host_ok h" "finalizer_keeps_work h"
    and "prepare_all c h w ms ps = (w', ps', r)"
  shows "\<exists>taken. ps' = ps @ taken
    \<and> (\<forall>tid. set_of (wi_work (ih_get h w)) tid = set_of (wi_work (ih_get h w')) tid
          \<union> {(qc_name c, qm_work_id md) | md. md \<in> set taken \<and> qm_task_id md = tid})"
  using assms(3)
proof (induction ms arbitrary: w ps)
  case Nil
  then show ?case by simp
next
  case (Cons m ms)
  obtain w1 r1 where pa: "prepare_ack (qc_loads c) h w (qc_name c) (RawMsg m) = (w1, r1)" by force
  note eff = prepare_ack_work [OF assms(1,2) pa]
  show ?case
  proof (cases r1)
    case (Inl e)
    with Cons.prems pa eff show ?thesis by auto
  next
    case (Inr mo)
    show ?thesis
    proof (cases mo)
      case None
      with Inr Cons.prems pa have "prepare_all c h w1 ms ps = (w', ps', r)" by simp
      from Cons.IH [OF this] Inr None eff show ?thesis by simp
    next
      case (Some md)
      with Inr Cons.prems pa have "prepare_all c h w1 ms (ps @ [md]) = (w', ps', r)" by simp
      from Cons.IH [OF this] obtain taken where t: "ps' = ps @ md # taken"
        "\<forall>tid. set_of (wi_work (ih_get h w1)) tid = set_of (wi_work (ih_get h w')) tid
          \<union> {(qc_name c, qm_work_id md) | md. md \<in> set taken \<and> qm_task_id md = tid}" by auto
      have e: "(qc_name c, qm_work_id md) \<in> set_of (wi_work (ih_get h w)) (qm_task_id md)"
        "set_of (wi_work (ih_get h w1)) = without (set_of (wi_work (ih_get h w))) (qm_task_id md) (qc_name c, qm_work_id md)"
        using eff Inr Some by auto
      have "set_of (wi_work (ih_get h w)) tid = set_of (wi_work (ih_get h w1)) tid
          \<union> (if tid = qm_task_id md then {(qc_name c, qm_work_id md)} else {})" for tid
        using e by (auto simp: without_def)
      with t show ?thesis by (intro exI [of _ "md # taken"]) auto
    qed
  qed
qed

lemma rollback_all_work:
  assumes "qc_host c = Some h" "host_ok h"
  shows "set_of (wi_work (ih_get h (rollback_all c mds w))) tid = set_of (wi_work (ih_get h w)) tid
    \<union> {(qc_name c, qm_work_id md) | md. md \<in> set mds \<and> qm_task_id md = tid}"
proof (induction mds arbitrary: w)
  case (Cons md mds)
  from Cons.IH [of "rollback_prepared c (Some md) w"] show ?case
    by (auto simp: rollback_all_def rollback_prepared_work [OF assms] Let_def)
qed (simp add: rollback_all_def)

lemma frame_ensure_initialized: "nq_world (fst (ensure_initialized c q)) = nq_world q"
  by (auto simp: ensure_initialized_def split: prod.splits sum.splits qfs_exc.splits)

lemma frame_snapshot: "nq_world (fst (snapshot c q)) = nq_world q"
  using frame_ensure_initialized [of c q]
  by (auto simp: snapshot_def split: prod.splits sum.splits qfs_exc.splits)

text \<open>Property. Clearing a queue is all or nothing for the index: unless the backend confirmed the
  clear, every task has the work it had before, whatever number of messages had already
  been prepared when the failure came, and when it did confirm, no work was added.\<close>

theorem clear_is_all_or_nothing:
  assumes "qc_host c = Some h" "host_ok h" "finalizer_keeps_work h" "queue_clear c q = (q', r)"
  shows "if r = Inr True then \<forall>tid. work_of c (nq_world q') tid \<subseteq> work_of c (nq_world q) tid
    else work_of c (nq_world q') = work_of c (nq_world q)"
proof -
  have W: "work_of c x = set_of (wi_work (ih_get h x))" for x using assms(1) by (simp add: work_of_def fun_eq_iff)
  obtain q1 r1 where i: "ensure_initialized c q = (q1, r1)" by force
  obtain q2 r2 where sn: "snapshot c q1 = (q2, r2)" by force
  have w1: "nq_world q1 = nq_world q" "nq_world q2 = nq_world q"
    using frame_ensure_initialized [of c q] frame_snapshot [of c q1] i sn by simp_all
  show ?thesis
  proof (cases "\<exists>ms. r1 = Inr () \<and> r2 = Inr ms")
    case False
    with assms(1,4) i sn w1 show ?thesis by (cases r1; cases r2) (auto simp: queue_clear_def)
  next
    case True
    then obtain ms where r: "r1 = Inr ()" "r2 = Inr ms" by blast
    obtain w ps pr where pa: "prepare_all c h (nq_world q2) ms [] = (w, ps, pr)" by (metis prod_cases3)
    have u: "work_of c (nq_world q) tid = work_of c w tid \<union> {(qc_name c, qm_work_id md) | md. md \<in> set ps \<and> qm_task_id md = tid}" for tid
      using prepare_all_work [OF assms(2,3) pa] w1 by (auto simp: W)
    then have b: "work_of c (rollback_all c ps w) = work_of c (nq_world q)"
      by (auto simp: W rollback_all_work [OF assms(1,2)] fun_eq_iff)
    obtain g wr where wr: "qf_write (qc_fs c) (nq_fs q2) (qc_path c @ ''/clear'') [] = (g, wr)" by force
    from assms(1,4) i sn r pa wr b u show ?thesis
      by (cases pr; cases wr) (auto simp: queue_clear_def swallow_def)
  qed
qed

definition clear_cfg :: "(work_index, nat) queue_cfg" where
  "clear_cfg = failing_write\<lparr>qc_fs := (qc_fs failing_write)\<lparr>qf_read := (\<lambda>g p. (g, Inr (CStr ''m'')))\<rparr>,
     qc_loads := (\<lambda>s. if s = ''m'' then Some (PList [PDict [(''task_id'', PStr ''t1''), (''_task_work_id'', PStr ''w1'')]]) else None)\<rparr>"

theorem clear_is_all_or_nothing_witness:
  "let q = NamedQueue (rollback_ack empty_index ''q'' sample_md) 0
   in snd (queue_clear clear_cfg q) = Inr False \<and> work_of clear_cfg (nq_world (fst (queue_clear clear_cfg q))) = work_of clear_cfg (nq_world q)"
proof -
  let ?q = "NamedQueue (rollback_ack empty_index ''q'' sample_md) 0 :: (work_index, nat) named_queue"
  have 1: "qc_host clear_cfg = Some plain_host" by (simp add: clear_cfg_def failing_write_def idle_cfg_def)
  obtain q' r where c: "queue_clear clear_cfg ?q = (q', r)" by force
  have "snd (queue_clear clear_cfg ?q) = Inr False" by code_simp
  then have "r = Inr False" using c by simp
  with clear_is_all_or_nothing [OF 1 plain_host_ok c] show ?thesis by (simp add: c Let_def)
qed

end
