(* ===== verification/Oauth_Store.thy ===== *)
theory Oauth_Store
  imports Identity
begin

text \<open>
  \<open>OAuthStore\<close> (\<open>openviking/server/oauth/storage.py\<close>): the tables of the OAuth server.

  A table is an association list from the primary key to a row, in the order of
  insertion; an \<open>INSERT\<close> with a key that is present raises \<open>IntegrityError\<close>. Every call runs one
  critical section under the store lock, so a call is one function from the tables to the
  tables. \<open>now\<close> is the value of \<open>int(time.time())\<close> in the call, \<open>sha\<close> the hexadecimal SHA-256 digest, and
  random tokens are arguments. Lists of strings kept as JSON text are represented by the
  lists. The calls are made between \<open>initialize\<close> and \<open>close\<close>.
\<close>

section \<open>Rows\<close>

record client_row =
  cl_client_id :: string
  cl_client_secret_hash :: "string option"
  cl_redirect_uris :: "string list"
  cl_token_endpoint_auth_method :: string
  cl_grant_types :: "string list"
  cl_response_types :: "string list"
  cl_client_name :: "string option"
  cl_scope :: "string option"
  cl_created_at :: int

text \<open>The columns a lookup of a code returns, and the whole row.\<close>

record code_claims =
  cc_client_id :: "string option"
  cc_redirect_uri :: "string option"
  cc_code_challenge :: "string option"
  cc_code_challenge_method :: "string option"
  cc_scope :: "string option"
  cc_resource :: "string option"
  cc_account_id :: string
  cc_user_id :: string
  cc_role :: string
  cc_authorizing_key_fp :: "string option"
  cc_expires_at :: int
  cc_created_at :: int

record code_row =
  cd_claims :: code_claims
  cd_kind :: string
  cd_used :: bool

text \<open>Refresh and access tokens return the same columns.\<close>

record token_claims =
  tc_client_id :: string
  tc_account_id :: string
  tc_user_id :: string
  tc_role :: string
  tc_scope :: "string option"
  tc_resource :: "string option"
  tc_authorizing_key_fp :: "string option"
  tc_expires_at :: int
  tc_created_at :: int

record refresh_row =
  rf_claims :: token_claims
  rf_consumed :: bool
  rf_replaced_by :: "string option"

record access_row =
  ac_claims :: token_claims
  ac_revoked :: bool

record pending_row =
  pn_pending_id :: string
  pn_client_id :: string
  pn_redirect_uri :: string
  pn_redirect_uri_provided_explicitly :: bool
  pn_code_challenge :: string
  pn_scopes :: "string list option"
  pn_resource :: "string option"
  pn_state :: "string option"
  pn_display_code :: string
  pn_verified :: bool
  pn_verified_account_id :: "string option"
  pn_verified_user_id :: "string option"
  pn_verified_role :: "string option"
  pn_verified_key_fp :: "string option"
  pn_expires_at :: int
  pn_created_at :: int

record oauth_store =
  oa_clients :: "(string \<times> client_row) list"
  oa_codes :: "(string \<times> code_row) list"
  oa_refresh :: "(string \<times> refresh_row) list"
  oa_pending :: "(string \<times> pending_row) list"
  oa_access :: "(string \<times> access_row) list"

definition empty_store :: oauth_store where
  "empty_store = \<lparr>oa_clients = [], oa_codes = [], oa_refresh = [], oa_pending = [], oa_access = []\<rparr>"

section \<open>Statements on a table\<close>

definition sql_insert :: "(string \<times> 'v) list \<Rightarrow> string \<Rightarrow> 'v \<Rightarrow> py_exc + (string \<times> 'v) list" where
  "sql_insert tbl k v = (if dget tbl k = None then Inr (tbl @ [(k, v)]) else Inl (OtherError ''IntegrityError''))"

definition sql_update :: "('v \<Rightarrow> bool) \<Rightarrow> ('v \<Rightarrow> 'v) \<Rightarrow> (string \<times> 'v) list \<Rightarrow> (string \<times> 'v) list" where
  "sql_update P f tbl = map (\<lambda>(k, v). (k, if P v then f v else v)) tbl"

definition sql_delete :: "('v \<Rightarrow> bool) \<Rightarrow> (string \<times> 'v) list \<Rightarrow> (string \<times> 'v) list" where
  "sql_delete P tbl = filter (\<lambda>(k, v). \<not> P v) tbl"

definition sql_count :: "('v \<Rightarrow> bool) \<Rightarrow> (string \<times> 'v) list \<Rightarrow> nat" where
  "sql_count P tbl = length (filter (\<lambda>(k, v). P v) tbl)"

section \<open>Clients\<close>

definition register_client ::
  "(string \<Rightarrow> string) \<Rightarrow> int \<Rightarrow> string \<Rightarrow> oauth_store \<Rightarrow> string option \<Rightarrow> string list \<Rightarrow> string option \<Rightarrow> string
    \<Rightarrow> string list option \<Rightarrow> string list option \<Rightarrow> string option \<Rightarrow> string option \<Rightarrow> oauth_store \<times> (py_exc + client_row)" where
  "register_client sha now random_id s client_id redirect_uris client_name auth_method grant_types response_types client_secret scope =
     (if redirect_uris = [] then (s, Inl ValueError)
      else
        let cid = (case client_id of None \<Rightarrow> random_id | Some i \<Rightarrow> i);
            secret_hash = (case client_secret of None \<Rightarrow> None | Some x \<Rightarrow> if x = [] then None else Some (sha x));
            rec = \<lparr>cl_client_id = cid, cl_client_secret_hash = secret_hash, cl_redirect_uris = redirect_uris,
              cl_token_endpoint_auth_method = auth_method,
              cl_grant_types = (if grant_types \<in> {None, Some []} then [''authorization_code'', ''refresh_token''] else the grant_types),
              cl_response_types = (if response_types \<in> {None, Some []} then [''code''] else the response_types),
              cl_client_name = client_name, cl_scope = scope, cl_created_at = now\<rparr>
        in case sql_insert (oa_clients s) cid rec of
             Inl e \<Rightarrow> (s, Inl e)
           | Inr t \<Rightarrow> (s\<lparr>oa_clients := t\<rparr>, Inr rec))"

definition store_get_client :: "oauth_store \<Rightarrow> string \<Rightarrow> client_row option" where
  "store_get_client s client_id = dget (oa_clients s) client_id"

section \<open>Authorization codes\<close>

definition insert_auth_code ::
  "(string \<Rightarrow> string) \<Rightarrow> int \<Rightarrow> oauth_store \<Rightarrow> string \<Rightarrow> string \<Rightarrow> string \<Rightarrow> string \<Rightarrow> string \<Rightarrow> string option \<Rightarrow> string option
    \<Rightarrow> string \<Rightarrow> string \<Rightarrow> string \<Rightarrow> string \<Rightarrow> int \<Rightarrow> oauth_store \<times> (py_exc + int)" where
  "insert_auth_code sha now s code_plain client_id redirect_uri code_challenge code_challenge_method scope resource
     account_id user_id role authorizing_key_fp ttl_seconds =
     (let expires_at = now + ttl_seconds;
          row = \<lparr>cd_claims = \<lparr>cc_client_id = Some client_id, cc_redirect_uri = Some redirect_uri,
              cc_code_challenge = Some code_challenge, cc_code_challenge_method = Some code_challenge_method,
              cc_scope = scope, cc_resource = resource, cc_account_id = account_id, cc_user_id = user_id, cc_role = role,
              cc_authorizing_key_fp = Some authorizing_key_fp, cc_expires_at = expires_at, cc_created_at = now\<rparr>,
            cd_kind = ''code'', cd_used = False\<rparr>
      in case sql_insert (oa_codes s) (sha code_plain) row of
           Inl e \<Rightarrow> (s, Inl e)
         | Inr t \<Rightarrow> (s\<lparr>oa_codes := t\<rparr>, Inr expires_at))"

definition code_live :: "int \<Rightarrow> string \<Rightarrow> code_row \<Rightarrow> bool" where
  "code_live now kind r \<longleftrightarrow> cd_kind r = kind \<and> \<not> cd_used r \<and> cc_expires_at (cd_claims r) > now"

definition peek_code :: "(string \<Rightarrow> string) \<Rightarrow> int \<Rightarrow> oauth_store \<Rightarrow> string \<Rightarrow> string \<Rightarrow> code_claims option" where
  "peek_code sha now s plain expected_kind =
     (case dget (oa_codes s) (sha plain) of
        None \<Rightarrow> None
      | Some r \<Rightarrow> if code_live now expected_kind r then Some (cd_claims r) else None)"

definition atomic_consume_code ::
  "(string \<Rightarrow> string) \<Rightarrow> int \<Rightarrow> oauth_store \<Rightarrow> string \<Rightarrow> string \<Rightarrow> oauth_store \<times> code_claims option" where
  "atomic_consume_code sha now s plain expected_kind =
     (case dget (oa_codes s) (sha plain) of
        None \<Rightarrow> (s, None)
      | Some r \<Rightarrow> if code_live now expected_kind r
                  then (s\<lparr>oa_codes := dset (oa_codes s) (sha plain) (r\<lparr>cd_used := True\<rparr>)\<rparr>, Some (cd_claims r))
                  else (s, None))"

definition peek_auth_code :: "(string \<Rightarrow> string) \<Rightarrow> int \<Rightarrow> oauth_store \<Rightarrow> string \<Rightarrow> code_claims option" where
  "peek_auth_code sha now s code_plain = peek_code sha now s code_plain ''code''"

definition consume_auth_code :: "(string \<Rightarrow> string) \<Rightarrow> int \<Rightarrow> oauth_store \<Rightarrow> string \<Rightarrow> oauth_store \<times> code_claims option" where
  "consume_auth_code sha now s code_plain = atomic_consume_code sha now s code_plain ''code''"

section \<open>Refresh tokens\<close>

definition new_claims ::
  "int \<Rightarrow> string \<Rightarrow> string \<Rightarrow> string \<Rightarrow> string \<Rightarrow> string option \<Rightarrow> string option \<Rightarrow> string \<Rightarrow> int \<Rightarrow> token_claims" where
  "new_claims now client_id account_id user_id role scope resource authorizing_key_fp ttl_seconds =
     \<lparr>tc_client_id = client_id, tc_account_id = account_id, tc_user_id = user_id, tc_role = role, tc_scope = scope,
      tc_resource = resource, tc_authorizing_key_fp = Some authorizing_key_fp, tc_expires_at = now + ttl_seconds,
      tc_created_at = now\<rparr>"

definition insert_refresh ::
  "(string \<Rightarrow> string) \<Rightarrow> int \<Rightarrow> oauth_store \<Rightarrow> string \<Rightarrow> string \<Rightarrow> string \<Rightarrow> string \<Rightarrow> string \<Rightarrow> string option
    \<Rightarrow> string option \<Rightarrow> string \<Rightarrow> int \<Rightarrow> oauth_store \<times> (py_exc + int)" where
  "insert_refresh sha now s token_plain client_id account_id user_id role scope resource authorizing_key_fp ttl_seconds =
     (let claims = new_claims now client_id account_id user_id role scope resource authorizing_key_fp ttl_seconds in
      case sql_insert (oa_refresh s) (sha token_plain) \<lparr>rf_claims = claims, rf_consumed = False, rf_replaced_by = None\<rparr> of
        Inl e \<Rightarrow> (s, Inl e)
      | Inr t \<Rightarrow> (s\<lparr>oa_refresh := t\<rparr>, Inr (tc_expires_at claims)))"

definition refresh_live :: "int \<Rightarrow> refresh_row \<Rightarrow> bool" where
  "refresh_live now r \<longleftrightarrow> \<not> rf_consumed r \<and> tc_expires_at (rf_claims r) > now"

definition peek_refresh :: "(string \<Rightarrow> string) \<Rightarrow> int \<Rightarrow> oauth_store \<Rightarrow> string \<Rightarrow> token_claims option" where
  "peek_refresh sha now s token_plain =
     (case dget (oa_refresh s) (sha token_plain) of
        None \<Rightarrow> None
      | Some r \<Rightarrow> if refresh_live now r then Some (rf_claims r) else None)"

definition consume_refresh ::
  "(string \<Rightarrow> string) \<Rightarrow> int \<Rightarrow> oauth_store \<Rightarrow> string \<Rightarrow> string option \<Rightarrow> oauth_store \<times> token_claims option" where
  "consume_refresh sha now s token_plain replaced_by_plain =
     (let replaced_hash = (case replaced_by_plain of None \<Rightarrow> None | Some p \<Rightarrow> if p = [] then None else Some (sha p)) in
      case dget (oa_refresh s) (sha token_plain) of
        None \<Rightarrow> (s, None)
      | Some r \<Rightarrow> if refresh_live now r
                  then (s\<lparr>oa_refresh := dset (oa_refresh s) (sha token_plain) (r\<lparr>rf_consumed := True, rf_replaced_by := replaced_hash\<rparr>)\<rparr>,
                        Some (rf_claims r))
                  else (s, None))"

definition is_refresh_known_but_consumed :: "(string \<Rightarrow> string) \<Rightarrow> oauth_store \<Rightarrow> string \<Rightarrow> bool" where
  "is_refresh_known_but_consumed sha s token_plain =
     (case dget (oa_refresh s) (sha token_plain) of None \<Rightarrow> False | Some r \<Rightarrow> rf_consumed r)"

section \<open>Access tokens\<close>

definition insert_access ::
  "(string \<Rightarrow> string) \<Rightarrow> int \<Rightarrow> oauth_store \<Rightarrow> string \<Rightarrow> string \<Rightarrow> string \<Rightarrow> string \<Rightarrow> string \<Rightarrow> string option
    \<Rightarrow> string option \<Rightarrow> string \<Rightarrow> int \<Rightarrow> oauth_store \<times> (py_exc + int)" where
  "insert_access sha now s token_plain client_id account_id user_id role scope resource authorizing_key_fp ttl_seconds =
     (let claims = new_claims now client_id account_id user_id role scope resource authorizing_key_fp ttl_seconds in
      case sql_insert (oa_access s) (sha token_plain) \<lparr>ac_claims = claims, ac_revoked = False\<rparr> of
        Inl e \<Rightarrow> (s, Inl e)
      | Inr t \<Rightarrow> (s\<lparr>oa_access := t\<rparr>, Inr (tc_expires_at claims)))"

definition load_access :: "(string \<Rightarrow> string) \<Rightarrow> int \<Rightarrow> oauth_store \<Rightarrow> string \<Rightarrow> token_claims option" where
  "load_access sha now s token_plain =
     (case dget (oa_access s) (sha token_plain) of
        None \<Rightarrow> None
      | Some r \<Rightarrow> if \<not> ac_revoked r \<and> tc_expires_at (ac_claims r) > now then Some (ac_claims r) else None)"

definition revoke_access :: "(string \<Rightarrow> string) \<Rightarrow> oauth_store \<Rightarrow> string \<Rightarrow> oauth_store \<times> bool" where
  "revoke_access sha s token_plain =
     (case dget (oa_access s) (sha token_plain) of
        None \<Rightarrow> (s, False)
      | Some r \<Rightarrow> if \<not> ac_revoked r
                  then (s\<lparr>oa_access := dset (oa_access s) (sha token_plain) (r\<lparr>ac_revoked := True\<rparr>)\<rparr>, True)
                  else (s, False))"

section \<open>Revocation of a user\<close>

definition token_of_user :: "string \<Rightarrow> string \<Rightarrow> token_claims \<Rightarrow> bool" where
  "token_of_user account_id user_id c \<longleftrightarrow> tc_account_id c = account_id \<and> tc_user_id c = user_id"

definition code_of_user :: "string \<Rightarrow> string \<Rightarrow> code_claims \<Rightarrow> bool" where
  "code_of_user account_id user_id c \<longleftrightarrow> cc_account_id c = account_id \<and> cc_user_id c = user_id"

definition pending_of_user :: "string \<Rightarrow> string \<Rightarrow> pending_row \<Rightarrow> bool" where
  "pending_of_user account_id user_id p \<longleftrightarrow>
     pn_verified_account_id p = Some account_id \<and> pn_verified_user_id p = Some user_id"

record revoke_counts =
  access_tokens_revoked :: nat
  refresh_tokens_revoked :: nat
  codes_revoked :: nat
  pending_authorizations_revoked :: nat

definition revoke_user_tokens :: "oauth_store \<Rightarrow> string \<Rightarrow> string \<Rightarrow> oauth_store \<times> revoke_counts" where
  "revoke_user_tokens s account_id user_id =
     (let A = (\<lambda>r. token_of_user account_id user_id (ac_claims r) \<and> \<not> ac_revoked r);
          R = (\<lambda>r. token_of_user account_id user_id (rf_claims r) \<and> \<not> rf_consumed r);
          C = (\<lambda>r. code_of_user account_id user_id (cd_claims r) \<and> \<not> cd_used r);
          P = pending_of_user account_id user_id
      in (s\<lparr>oa_access := sql_update A (\<lambda>r. r\<lparr>ac_revoked := True\<rparr>) (oa_access s),
            oa_refresh := sql_update R (\<lambda>r. r\<lparr>rf_consumed := True\<rparr>) (oa_refresh s),
            oa_codes := sql_update C (\<lambda>r. r\<lparr>cd_used := True\<rparr>) (oa_codes s),
            oa_pending := sql_delete P (oa_pending s)\<rparr>,
          \<lparr>access_tokens_revoked = sql_count A (oa_access s), refresh_tokens_revoked = sql_count R (oa_refresh s),
           codes_revoked = sql_count C (oa_codes s), pending_authorizations_revoked = sql_count P (oa_pending s)\<rparr>))"

section \<open>Pending authorizations\<close>

definition create_pending_authorization ::
  "int \<Rightarrow> string \<Rightarrow> oauth_store \<Rightarrow> string \<Rightarrow> string \<Rightarrow> bool \<Rightarrow> string \<Rightarrow> string list option \<Rightarrow> string option \<Rightarrow> string option
    \<Rightarrow> string \<Rightarrow> int \<Rightarrow> oauth_store \<times> (py_exc + string)" where
  "create_pending_authorization now pending_id s client_id redirect_uri explicitly code_challenge scopes resource state
     display_code ttl_seconds =
     (case sql_insert (oa_pending s) pending_id
        \<lparr>pn_pending_id = pending_id, pn_client_id = client_id, pn_redirect_uri = redirect_uri,
         pn_redirect_uri_provided_explicitly = explicitly, pn_code_challenge = code_challenge,
         pn_scopes = (if scopes = Some [] then None else scopes), pn_resource = resource, pn_state = state,
         pn_display_code = display_code, pn_verified = False, pn_verified_account_id = None, pn_verified_user_id = None,
         pn_verified_role = None, pn_verified_key_fp = None, pn_expires_at = now + ttl_seconds, pn_created_at = now\<rparr> of
        Inl e \<Rightarrow> (s, Inl e)
      | Inr t \<Rightarrow> (s\<lparr>oa_pending := t\<rparr>, Inr pending_id))"

definition load_pending_authorization :: "int \<Rightarrow> oauth_store \<Rightarrow> string \<Rightarrow> pending_row option" where
  "load_pending_authorization now s pending_id =
     (case dget (oa_pending s) pending_id of
        None \<Rightarrow> None
      | Some p \<Rightarrow> if pn_expires_at p > now then Some p else None)"

text \<open>\<open>str.upper\<close> on code points below 256; the micro sign and the y with diaeresis, whose upper
  case has a larger code point, are kept.\<close>

definition upper_str :: "char \<Rightarrow> string" where
  "upper_str c =
     (let n = of_char c :: nat in
      if n = 223 then ''SS''
      else if 224 \<le> n \<and> n \<le> 254 \<and> n \<noteq> 247 then [char_of (n - 32)]
      else [upper_char c])"

definition find_pending_by_display_code :: "int \<Rightarrow> oauth_store \<Rightarrow> string \<Rightarrow> pending_row option" where
  "find_pending_by_display_code now s display_code =
     (if display_code = [] then None
      else let normalized = concat (map upper_str (strip is_space display_code)) in
        List.find (\<lambda>p. pn_display_code p = normalized \<and> pn_expires_at p > now \<and> \<not> pn_verified p) (map snd (oa_pending s)))"

definition mark_pending_verified ::
  "int \<Rightarrow> oauth_store \<Rightarrow> string \<Rightarrow> string \<Rightarrow> string \<Rightarrow> string \<Rightarrow> string \<Rightarrow> oauth_store \<times> bool" where
  "mark_pending_verified now s pending_id account_id user_id role verified_key_fp =
     (case dget (oa_pending s) pending_id of
        None \<Rightarrow> (s, False)
      | Some p \<Rightarrow> if \<not> pn_verified p \<and> pn_expires_at p > now
                  then (s\<lparr>oa_pending := dset (oa_pending s) pending_id
                          (p\<lparr>pn_verified := True, pn_verified_account_id := Some account_id, pn_verified_user_id := Some user_id,
                             pn_verified_role := Some role, pn_verified_key_fp := Some verified_key_fp\<rparr>)\<rparr>, True)
                  else (s, False))"

definition delete_pending_authorization :: "oauth_store \<Rightarrow> string \<Rightarrow> oauth_store" where
  "delete_pending_authorization s pending_id = s\<lparr>oa_pending := dpop (oa_pending s) pending_id\<rparr>"

section \<open>Maintenance\<close>

record gc_counts =
  codes_deleted :: nat
  refresh_tokens_deleted :: nat
  access_tokens_deleted :: nat
  pending_authorizations_deleted :: nat

definition gc_expired :: "int \<Rightarrow> oauth_store \<Rightarrow> oauth_store \<times> gc_counts" where
  "gc_expired now s =
     (let C = (\<lambda>r. cc_expires_at (cd_claims r) < now \<or> cd_used r);
          R = (\<lambda>r. tc_expires_at (rf_claims r) < now);
          A = (\<lambda>r. tc_expires_at (ac_claims r) < now \<or> ac_revoked r);
          P = (\<lambda>p. pn_expires_at p < now)
      in (s\<lparr>oa_codes := sql_delete C (oa_codes s), oa_refresh := sql_delete R (oa_refresh s),
            oa_access := sql_delete A (oa_access s), oa_pending := sql_delete P (oa_pending s)\<rparr>,
          \<lparr>codes_deleted = sql_count C (oa_codes s), refresh_tokens_deleted = sql_count R (oa_refresh s),
           access_tokens_deleted = sql_count A (oa_access s), pending_authorizations_deleted = sql_count P (oa_pending s)\<rparr>))"

section \<open>What the statements do to lookups\<close>

lemma dget_append: "dget (a @ b) k = (case dget a k of None \<Rightarrow> dget b k | Some v \<Rightarrow> Some v)"
  by (induction a k rule: dget.induct) auto

lemma sql_insert_Inr:
  "sql_insert tbl k v = Inr t \<longleftrightarrow> dget tbl k = None \<and> t = tbl @ [(k, v)]"
  by (auto simp: sql_insert_def)

lemma dget_sql_update: "dget (sql_update P f tbl) k = map_option (\<lambda>v. if P v then f v else v) (dget tbl k)"
  by (induction tbl k rule: dget.induct) (auto simp: sql_update_def)

lemma dget_sql_delete:
  "distinct (dkeys tbl) \<Longrightarrow> dget (sql_delete P tbl) k = (case dget tbl k of None \<Rightarrow> None | Some v \<Rightarrow> if P v then None else Some v)"
proof (induction tbl k rule: dget.induct)
  case (2 k' v d k)
  have "dget (filter Q d) k' = None" if "k' \<notin> set (dkeys d)" for Q
    using that by (induction d) (auto simp: dkeys_def)
  with 2 show ?case by (auto simp: sql_delete_def dkeys_def)
qed (simp add: sql_delete_def)

lemma dkeys_sql_update: "dkeys (sql_update P f tbl) = dkeys tbl"
  by (auto simp: sql_update_def dkeys_def)

lemma distinct_sql_delete: "distinct (dkeys tbl) \<Longrightarrow> distinct (dkeys (sql_delete P tbl))"
  by (induction tbl) (auto simp: sql_delete_def dkeys_def)

lemma set_sql_delete: "set (sql_delete P tbl) \<subseteq> set tbl"
  by (auto simp: sql_delete_def)

lemma distinct_sql_insert: "sql_insert tbl k v = Inr t \<Longrightarrow> distinct (dkeys tbl) \<Longrightarrow> distinct (dkeys t)"
  by (auto simp: sql_insert_Inr dget_None_iff dkeys_def)

lemmas sql_lookup = dget_append dget_sql_update dget_sql_delete

text \<open>The primary keys are unique, and a pending row is stored under its own identifier.\<close>

definition store_ok :: "oauth_store \<Rightarrow> bool" where
  "store_ok s \<longleftrightarrow> distinct (dkeys (oa_clients s)) \<and> distinct (dkeys (oa_codes s)) \<and> distinct (dkeys (oa_refresh s))
     \<and> distinct (dkeys (oa_pending s)) \<and> distinct (dkeys (oa_access s))
     \<and> (\<forall>k p. dget (oa_pending s) k = Some p \<longrightarrow> pn_pending_id p = k)"

section \<open>Secrets that work once\<close>

text \<open>Attempts to redeem secrets at given times, and the ones that succeeded.\<close>

fun redeem_all :: "(int \<Rightarrow> 's \<Rightarrow> 'k \<Rightarrow> 's \<times> 'c option) \<Rightarrow> (int \<times> 'k) list \<Rightarrow> 's \<Rightarrow> 's \<times> 'k list" where
  "redeem_all consume [] s = (s, [])"
| "redeem_all consume ((t, k) # rest) s =
     (case consume t s k of (s', r) \<Rightarrow>
        (case redeem_all consume rest s' of (s'', hits) \<Rightarrow> (s'', if r = None then hits else k # hits)))"

text \<open>The contract of a table of one-shot secrets: a lookup that does not change the table, and a
  redemption that returns what the lookup would have and ends the secret for ever. Two
  secrets with the same key are the same entry.\<close>

locale one_shot =
  fixes live :: "int \<Rightarrow> 's \<Rightarrow> 'k \<Rightarrow> 'c option"
    and consume :: "int \<Rightarrow> 's \<Rightarrow> 'k \<Rightarrow> 's \<times> 'c option"
    and key :: "'k \<Rightarrow> 'h"
  assumes consume_result: "snd (consume t s k) = live t s k"
    and same_key: "key k = key k' \<Longrightarrow> live t s k = live t s k'"
    and consumed_dead: "live t s k \<noteq> None \<Longrightarrow> live t' (fst (consume t s k)) k = None"
    and consume_other: "key k' \<noteq> key k \<Longrightarrow> live t' (fst (consume t s k)) k' = live t' s k'"
    and failed_consume: "live t s k = None \<Longrightarrow> fst (consume t s k) = s"
    and expired: "t \<le> t' \<Longrightarrow> live t s k = None \<Longrightarrow> live t' s k = None"
begin

lemma dead_stays:
  assumes "\<And>t. live t s k = None"
  shows "live t' (fst (consume t s k')) k = None"
proof (cases "key k = key k'")
  case True
  then have "live t s k' = None" using assms same_key by metis
  then show ?thesis using failed_consume assms by simp
next
  case False
  then show ?thesis using consume_other [of k k'] assms by simp
qed

lemma dead_never_redeemed:
  assumes "\<And>t. live t s k = None"
  shows "filter (\<lambda>k'. key k' = key k) (snd (redeem_all consume ats s)) = []"
  using assms
proof (induction ats arbitrary: s)
  case (Cons a ats)
  obtain t k' where a: "a = (t, k')" by force
  have "live u (fst (consume t s k')) k = None" for u using dead_stays Cons.prems by blast
  then have "filter (\<lambda>k'. key k' = key k) (snd (redeem_all consume ats (fst (consume t s k')))) = []"
    by (rule Cons.IH)
  moreover have "snd (consume t s k') = None" if "key k' = key k"
    using that Cons.prems [of t] same_key [OF that] by (simp add: consume_result)
  ultimately show ?case by (auto simp: a split: prod.splits)
qed simp

lemma at_most_once: "length (filter (\<lambda>k'. key k' = h) (snd (redeem_all consume ats s))) \<le> 1"
proof (induction ats arbitrary: s)
  case (Cons a ats)
  obtain t k where a: "a = (t, k)" by force
  show ?case
  proof (cases "key k = h \<and> snd (consume t s k) \<noteq> None")
    case True
    then have "live u (fst (consume t s k)) k = None" for u using consumed_dead consume_result by metis
    from dead_never_redeemed [OF this, of ats] True show ?thesis by (auto simp: a split: prod.splits)
  next
    case False
    with Cons.IH [of "fst (consume t s k)"] show ?thesis by (auto simp: a split: prod.splits)
  qed
qed simp

end

interpretation auth_code: one_shot "\<lambda>t s k. peek_auth_code sha t s k" "\<lambda>t s k. consume_auth_code sha t s k" sha for sha
  by unfold_locales
     (auto simp: peek_auth_code_def consume_auth_code_def peek_code_def atomic_consume_code_def code_live_def
       split: option.splits if_splits)

interpretation refresh_token: one_shot "\<lambda>t s k. peek_refresh sha t s (fst k)"
  "\<lambda>t s k. consume_refresh sha t s (fst k) (snd k)" "\<lambda>k. sha (fst k)" for sha
  by unfold_locales
     (auto simp: peek_refresh_def consume_refresh_def refresh_live_def Let_def split: option.splits if_splits)

text \<open>Property. Authorization codes and refresh tokens work once: however often and in whatever order they
  are presented, at most one attempt on the same secret succeeds, and a successful attempt
  returns what the lookup showed.\<close>

theorem secrets_redeemed_at_most_once:
  "length (filter (\<lambda>k. sha k = h) (snd (redeem_all (consume_auth_code sha) ats s))) \<le> 1
   \<and> length (filter (\<lambda>k. sha (fst k) = h) (snd (redeem_all (\<lambda>t s k. consume_refresh sha t s (fst k) (snd k)) bts s))) \<le> 1
   \<and> snd (consume_auth_code sha t s code) = peek_auth_code sha t s code
   \<and> snd (consume_refresh sha t s tok repl) = peek_refresh sha t s tok"
  using auth_code.at_most_once [of sha h ats s] refresh_token.at_most_once [of sha h bts s]
    auth_code.consume_result [of sha t s code] refresh_token.consume_result [of sha t s "(tok, repl)"]
  by simp

section \<open>Revocation and garbage collection\<close>

definition spare :: "('c \<Rightarrow> bool) \<Rightarrow> 'c option \<Rightarrow> 'c option" where
  "spare P x = (case x of None \<Rightarrow> None | Some c \<Rightarrow> if P c then None else Some c)"

lemma revoked_lookups:
  assumes "store_ok s"
  shows "load_access sha t (fst (revoke_user_tokens s a u)) x = spare (token_of_user a u) (load_access sha t s x)"
    and "peek_refresh sha t (fst (revoke_user_tokens s a u)) x = spare (token_of_user a u) (peek_refresh sha t s x)"
    and "peek_code sha t (fst (revoke_user_tokens s a u)) x k = spare (code_of_user a u) (peek_code sha t s x k)"
    and "load_pending_authorization t (fst (revoke_user_tokens s a u)) i =
      spare (pending_of_user a u) (load_pending_authorization t s i)"
proof -
  note defs = revoke_user_tokens_def Let_def spare_def dget_sql_update
  show "load_access sha t (fst (revoke_user_tokens s a u)) x = spare (token_of_user a u) (load_access sha t s x)"
    by (cases "dget (oa_access s) (sha x)") (simp_all add: defs load_access_def)
  show "peek_refresh sha t (fst (revoke_user_tokens s a u)) x = spare (token_of_user a u) (peek_refresh sha t s x)"
    by (cases "dget (oa_refresh s) (sha x)") (simp_all add: defs peek_refresh_def refresh_live_def)
  show "peek_code sha t (fst (revoke_user_tokens s a u)) x k = spare (code_of_user a u) (peek_code sha t s x k)"
    by (cases "dget (oa_codes s) (sha x)") (simp_all add: defs peek_code_def code_live_def)
  have "distinct (dkeys (oa_pending s))" using assms by (simp add: store_ok_def)
  then show "load_pending_authorization t (fst (revoke_user_tokens s a u)) i =
      spare (pending_of_user a u) (load_pending_authorization t s i)"
    by (cases "dget (oa_pending s) i") (simp_all add: defs load_pending_authorization_def dget_sql_delete)
qed

text \<open>Property C40. Revoking a user ends everything the user holds, at every time of the clock, and
  nothing else: access tokens, refresh tokens, codes and approved pending authorizations of
  the pair are no longer found, those of other users are found as before.\<close>

theorem revocation_is_complete:
  assumes "store_ok s"
  shows "let s' = fst (revoke_user_tokens s a u) in
    load_access sha t s' x = spare (token_of_user a u) (load_access sha t s x)
    \<and> peek_refresh sha t s' x = spare (token_of_user a u) (peek_refresh sha t s x)
    \<and> peek_auth_code sha t s' x = spare (code_of_user a u) (peek_auth_code sha t s x)
    \<and> load_pending_authorization t s' i = spare (pending_of_user a u) (load_pending_authorization t s i)"
  using revoked_lookups [OF assms] by (simp add: Let_def peek_auth_code_def)

lemma find_filter: "(\<And>x. Q x \<Longrightarrow> P x) \<Longrightarrow> List.find Q (filter P xs) = List.find Q xs"
  by (induction xs) auto

lemma gc_lookups:
  assumes "store_ok s" "now \<le> t"
  shows "load_access sha t (fst (gc_expired now s)) x = load_access sha t s x"
    and "peek_refresh sha t (fst (gc_expired now s)) x = peek_refresh sha t s x"
    and "peek_code sha t (fst (gc_expired now s)) x k = peek_code sha t s x k"
    and "load_pending_authorization t (fst (gc_expired now s)) i = load_pending_authorization t s i"
    and "find_pending_by_display_code t (fst (gc_expired now s)) d = find_pending_by_display_code t s d"
    and "dget (oa_refresh s) (sha x) = Some r \<Longrightarrow> now \<le> tc_expires_at (rf_claims r) \<Longrightarrow>
      is_refresh_known_but_consumed sha (fst (gc_expired now s)) x = is_refresh_known_but_consumed sha s x"
proof -
  have d: "distinct (dkeys (oa_access s))" "distinct (dkeys (oa_refresh s))" "distinct (dkeys (oa_codes s))"
    "distinct (dkeys (oa_pending s))" using assms(1) by (simp_all add: store_ok_def)
  note defs = gc_expired_def Let_def
  show "load_access sha t (fst (gc_expired now s)) x = load_access sha t s x"
    using assms(2) by (cases "dget (oa_access s) (sha x)") (auto simp add: defs load_access_def dget_sql_delete d)
  show "peek_refresh sha t (fst (gc_expired now s)) x = peek_refresh sha t s x"
    using assms(2) by (cases "dget (oa_refresh s) (sha x)") (auto simp add: defs peek_refresh_def dget_sql_delete d refresh_live_def)
  show "peek_code sha t (fst (gc_expired now s)) x k = peek_code sha t s x k"
    using assms(2) by (cases "dget (oa_codes s) (sha x)") (auto simp add: defs peek_code_def dget_sql_delete d code_live_def)
  show "load_pending_authorization t (fst (gc_expired now s)) i = load_pending_authorization t s i"
    using assms(2) by (cases "dget (oa_pending s) i") (auto simp add: defs load_pending_authorization_def dget_sql_delete d)
  show "is_refresh_known_but_consumed sha (fst (gc_expired now s)) x = is_refresh_known_but_consumed sha s x"
    if "dget (oa_refresh s) (sha x) = Some r" "now \<le> tc_expires_at (rf_claims r)"
    using that by (simp add: defs is_refresh_known_but_consumed_def dget_sql_delete d)
  have "map snd (sql_delete P tbl) = filter (\<lambda>v. \<not> P v) (map snd tbl)" for P and tbl :: "(string \<times> pending_row) list"
    by (induction tbl) (auto simp: sql_delete_def)
  then show "find_pending_by_display_code t (fst (gc_expired now s)) d = find_pending_by_display_code t s d"
    using assms(2) by (auto simp add: defs find_pending_by_display_code_def intro!: find_filter)
qed

text \<open>Property. Garbage collection is invisible: from the time of the collection on every lookup answers
  as if it had not happened, and a refresh token that was used is still recognised as used
  until it expires.\<close>

theorem gc_is_invisible:
  assumes "store_ok s" "now \<le> t"
  shows "let s' = fst (gc_expired now s) in
    load_access sha t s' x = load_access sha t s x \<and> peek_refresh sha t s' x = peek_refresh sha t s x
    \<and> peek_auth_code sha t s' x = peek_auth_code sha t s x
    \<and> load_pending_authorization t s' i = load_pending_authorization t s i
    \<and> find_pending_by_display_code t s' d = find_pending_by_display_code t s d
    \<and> (\<forall>r. dget (oa_refresh s) (sha x) = Some r \<longrightarrow> now \<le> tc_expires_at (rf_claims r) \<longrightarrow>
        is_refresh_known_but_consumed sha s' x = is_refresh_known_but_consumed sha s x)"
  using gc_lookups [OF assms] by (simp add: Let_def peek_auth_code_def)

section \<open>Every call keeps the keys unique\<close>

lemma store_ok_pending:
  "store_ok s \<Longrightarrow> distinct (dkeys t) \<Longrightarrow> (\<forall>k p. dget t k = Some p \<longrightarrow> pn_pending_id p = k) \<Longrightarrow> store_ok (s\<lparr>oa_pending := t\<rparr>)"
  by (simp add: store_ok_def)

lemma store_ok_ops:
  assumes "store_ok s"
  shows "store_ok (fst (register_client sha now ri s ci us nm am gt rt sec sc))"
    and "store_ok (fst (insert_auth_code sha now s code cid uri cch ccm sc res a u r fp ttl))"
    and "store_ok (fst (consume_auth_code sha now s code))"
    and "store_ok (fst (insert_refresh sha now s tok cid a u r sc res fp ttl))"
    and "store_ok (fst (consume_refresh sha now s tok repl))"
    and "store_ok (fst (insert_access sha now s tok cid a u r sc res fp ttl))"
    and "store_ok (fst (revoke_access sha s tok))"
    and "store_ok (fst (revoke_user_tokens s a u))"
    and "store_ok (fst (create_pending_authorization now pid s cid uri ex cch scs res st dc ttl))"
    and "store_ok (fst (mark_pending_verified now s pid a u r fp))"
    and "store_ok (delete_pending_authorization s pid)"
    and "store_ok (fst (gc_expired now s))"
proof -
  show "store_ok (fst (register_client sha now ri s ci us nm am gt rt sec sc))"
    using assms by (auto simp: register_client_def store_ok_def Let_def dest: distinct_sql_insert split: sum.splits)
  show "store_ok (fst (insert_auth_code sha now s code cid uri cch ccm sc res a u r fp ttl))"
    using assms by (auto simp: insert_auth_code_def store_ok_def Let_def dest: distinct_sql_insert split: sum.splits)
  show "store_ok (fst (consume_auth_code sha now s code))"
    using assms by (auto simp: consume_auth_code_def atomic_consume_code_def store_ok_def split: option.splits)
  show "store_ok (fst (insert_refresh sha now s tok cid a u r sc res fp ttl))"
    using assms by (auto simp: insert_refresh_def store_ok_def Let_def dest: distinct_sql_insert split: sum.splits)
  show "store_ok (fst (consume_refresh sha now s tok repl))"
    using assms by (auto simp: consume_refresh_def store_ok_def Let_def split: option.splits)
  show "store_ok (fst (insert_access sha now s tok cid a u r sc res fp ttl))"
    using assms by (auto simp: insert_access_def store_ok_def Let_def dest: distinct_sql_insert split: sum.splits)
  show "store_ok (fst (revoke_access sha s tok))"
    using assms by (auto simp: revoke_access_def store_ok_def split: option.splits)
  show "store_ok (fst (revoke_user_tokens s a u))"
    using assms by (auto simp: revoke_user_tokens_def store_ok_def Let_def dkeys_sql_update distinct_sql_delete dget_sql_delete
        split: option.splits if_splits)
  show "store_ok (fst (create_pending_authorization now pid s cid uri ex cch scs res st dc ttl))"
    using assms by (auto simp: create_pending_authorization_def store_ok_def sql_insert_Inr dget_append dget_None_iff dkeys_def
        split: sum.splits option.splits if_splits)
  show "store_ok (fst (mark_pending_verified now s pid a u r fp))"
    using assms by (auto simp: mark_pending_verified_def store_ok_def split: option.splits if_splits)
  show "store_ok (delete_pending_authorization s pid)"
    using assms by (auto simp: delete_pending_authorization_def store_ok_def split: if_splits)
  show "store_ok (fst (gc_expired now s))"
    using assms by (auto simp: gc_expired_def store_ok_def Let_def distinct_sql_delete dget_sql_delete split: option.splits if_splits)
qed

lemma store_ok_empty: "store_ok empty_store"
  by (simp add: store_ok_def empty_store_def dkeys_def)

section \<open>A small store\<close>

definition sample_store :: oauth_store where
  "sample_store = fst (insert_access (\<lambda>s. s) 100 (fst (insert_access (\<lambda>s. s) 100 empty_store
      ''t1'' ''c'' ''acme'' ''alice'' ''user'' None None ''f'' 50)) ''t2'' ''c'' ''acme'' ''bob'' ''user'' None None ''f'' 500)"

lemma sample_store_ok: "store_ok sample_store"
  unfolding sample_store_def by (intro store_ok_ops store_ok_empty)

theorem revocation_is_complete_witness:
  "load_access (\<lambda>s. s) 120 (fst (revoke_user_tokens sample_store ''acme'' ''alice'')) ''t1'' = None
   \<and> load_access (\<lambda>s. s) 120 (fst (revoke_user_tokens sample_store ''acme'' ''alice'')) ''t2'' \<noteq> None"
proof
  have 1: "load_access (\<lambda>s. s) 120 sample_store ''t1'' \<noteq> None
      \<and> tc_user_id (the (load_access (\<lambda>s. s) 120 sample_store ''t1'')) = ''alice''
      \<and> tc_account_id (the (load_access (\<lambda>s. s) 120 sample_store ''t1'')) = ''acme''" by code_simp
  have 2: "load_access (\<lambda>s. s) 120 sample_store ''t2'' \<noteq> None
      \<and> tc_user_id (the (load_access (\<lambda>s. s) 120 sample_store ''t2'')) = ''bob''" by code_simp
  note r = revocation_is_complete [OF sample_store_ok, of "''acme''" "''alice''" "\<lambda>s. s" 120, unfolded Let_def]
  show "load_access (\<lambda>s. s) 120 (fst (revoke_user_tokens sample_store ''acme'' ''alice'')) ''t1'' = None"
    using r [of "''t1''"] 1 by (auto simp: spare_def token_of_user_def split: option.splits)
  show "load_access (\<lambda>s. s) 120 (fst (revoke_user_tokens sample_store ''acme'' ''alice'')) ''t2'' \<noteq> None"
    using r [of "''t2''"] 2 by (auto simp: spare_def token_of_user_def split: option.splits)
qed

theorem gc_is_invisible_witness:
  "load_access (\<lambda>s. s) 300 (fst (gc_expired 200 sample_store)) ''t2'' = load_access (\<lambda>s. s) 300 sample_store ''t2''
   \<and> load_access (\<lambda>s. s) 300 sample_store ''t2'' \<noteq> None \<and> access_tokens_deleted (snd (gc_expired 200 sample_store)) = 1"
proof -
  have 1: "load_access (\<lambda>s. s) 300 sample_store ''t2'' \<noteq> None \<and> access_tokens_deleted (snd (gc_expired 200 sample_store)) = 1" by code_simp
  have 2: "(200 :: int) \<le> 300" by simp
  from gc_is_invisible [OF sample_store_ok 2, of "\<lambda>s. s" "''t2''"] 1 show ?thesis by (simp add: Let_def)
qed

end
