(* ===== verification/Oauth_Provider.thy ===== *)
theory Oauth_Provider
  imports Oauth_Store
begin

text \<open>
  The OAuth server on top of the store: \<open>OpenVikingOAuthProvider\<close>
  (\<open>openviking/server/oauth/provider.py\<close>), the two routes that carry an authorization from the
  consent of a user to a code (\<open>openviking/server/oauth/router.py\<close>), and the bearer check of
  the API-key plug-in (\<open>openviking/server/auth/plugins/api_key.py\<close>).

  A method that makes several store calls takes the time of each call. The URL type of the
  MCP library is the parameter \<open>op_any_url\<close>, which returns the normal form of a URL or raises.
\<close>

section \<open>Values\<close>

record oauth_provider =
  op_sha :: "string \<Rightarrow> string"
  op_any_url :: "string \<Rightarrow> py_exc + string"
  op_ranks :: "(string \<times> int) list"
  op_issuer :: string
  op_access_ttl :: int
  op_refresh_ttl :: int
  op_code_ttl :: int
  op_authorize_page :: string
  op_role_resolver :: "(string \<Rightarrow> string \<Rightarrow> py_exc + string) option"

definition ACCESS_TOKEN_PREFIX :: string where "ACCESS_TOKEN_PREFIX = ''ovat_''"
definition REFRESH_TOKEN_PREFIX :: string where "REFRESH_TOKEN_PREFIX = ''ovrt_''"
definition AUTH_CODE_PREFIX :: string where "AUTH_CODE_PREFIX = ''ovac_''"
definition MCP_SCOPE :: string where "MCP_SCOPE = ''mcp''"

definition TokenError :: py_exc where "TokenError = OtherError ''TokenError''"
definition RegistrationError :: py_exc where "RegistrationError = OtherError ''RegistrationError''"
definition UnauthenticatedError :: py_exc where "UnauthenticatedError = OtherError ''UnauthenticatedError''"
definition ValidationError :: py_exc where "ValidationError = OtherError ''ValidationError''"

record client_info =
  ci_client_id :: "string option"
  ci_redirect_uris :: "string list option"
  ci_token_endpoint_auth_method :: "string option"
  ci_grant_types :: "string list"
  ci_response_types :: "string list"
  ci_scope :: "string option"
  ci_client_name :: "string option"
  ci_client_id_issued_at :: "int option"

record authorization_code =
  ao_code :: string
  ao_scopes :: "string list"
  ao_expires_at :: int
  ao_client_id :: string
  ao_code_challenge :: string
  ao_redirect_uri :: string
  ao_resource :: "string option"
  ao_account_id :: string
  ao_user_id :: string
  ao_role :: string
  ao_authorizing_key_fp :: "string option"

text \<open>Refresh and access tokens have the same attributes.\<close>

record token_object =
  to_token :: string
  to_client_id :: string
  to_scopes :: "string list"
  to_expires_at :: int
  to_account_id :: string
  to_user_id :: string
  to_role :: string
  to_resource :: "string option"
  to_authorizing_key_fp :: "string option"

datatype presented_token = PresentedAccess token_object | PresentedRefresh token_object

record oauth_token =
  ot_access_token :: string
  ot_token_type :: string
  ot_expires_in :: int
  ot_scope :: "string option"
  ot_refresh_token :: string

text \<open>\<open>str.split()\<close>: the maximal runs of characters that are not white space.\<close>

definition py_split :: "string \<Rightarrow> string list" where
  "py_split s = filter (\<lambda>w. w \<noteq> []) (split_on CHR '' '' (map (\<lambda>c. if is_space c then CHR '' '' else c) s))"

definition scope_list :: "string option \<Rightarrow> string list" where
  "scope_list scope = (case scope of None \<Rightarrow> [] | Some x \<Rightarrow> if x = [] then [] else py_split x)"

definition scope_text :: "string list \<Rightarrow> string option" where
  "scope_text scopes = (if scopes = [] then None else Some (join '' '' scopes))"

text \<open>\<open>urllib.parse.urlencode\<close> of a list of pairs: \<open>quote_plus\<close> of the UTF-8 bytes.\<close>

definition upper_hex :: "nat \<Rightarrow> char" where
  "upper_hex n = (if n < 10 then char_of (48 + n) else char_of (55 + n))"

definition percent_byte :: "nat \<Rightarrow> string" where
  "percent_byte n = [CHR ''%'', upper_hex (n div 16), upper_hex (n mod 16)]"

definition quote_char :: "char \<Rightarrow> string" where
  "quote_char c =
     (let n = of_char c :: nat in
      if is_ascii_alnum c \<or> c \<in> set ''_.-~'' then [c]
      else if c = CHR '' '' then ''+''
      else if n < 128 then percent_byte n
      else percent_byte (192 + n div 64) @ percent_byte (128 + n mod 64))"

definition urlencode :: "(string \<times> string) list \<Rightarrow> string" where
  "urlencode params = join ''&'' (map (\<lambda>(k, v). concat (map quote_char k) @ ''='' @ concat (map quote_char v)) params)"

section \<open>Clients\<close>

definition get_client :: "oauth_provider \<Rightarrow> oauth_store \<Rightarrow> string \<Rightarrow> py_exc + client_info option" where
  "get_client p s client_id =
     (case store_get_client s client_id of
        None \<Rightarrow> Inr None
      | Some r \<Rightarrow> ebind (emap (op_any_url p) (cl_redirect_uris r)) (\<lambda>uris.
          Inr (Some \<lparr>ci_client_id = Some (cl_client_id r), ci_redirect_uris = Some uris,
            ci_token_endpoint_auth_method = Some (cl_token_endpoint_auth_method r), ci_grant_types = cl_grant_types r,
            ci_response_types = cl_response_types r,
            ci_scope = Some (if cl_scope r \<in> {None, Some []} then MCP_SCOPE else the (cl_scope r)),
            ci_client_name = cl_client_name r, ci_client_id_issued_at = Some (cl_created_at r)\<rparr>)))"

definition provider_register_client ::
  "oauth_provider \<Rightarrow> int \<Rightarrow> oauth_store \<Rightarrow> client_info \<Rightarrow> oauth_store \<times> (py_exc + unit)" where
  "provider_register_client p now s info =
     (case ci_client_id info of
        None \<Rightarrow> (s, Inl RegistrationError)
      | Some cid \<Rightarrow>
          (case register_client (op_sha p) now [] s (Some cid)
              (case ci_redirect_uris info of None \<Rightarrow> [] | Some us \<Rightarrow> us) (ci_client_name info) ''none''
              (if ci_grant_types info = [] then None else Some (ci_grant_types info))
              (if ci_response_types info = [] then None else Some (ci_response_types info)) None (ci_scope info) of
             (s', Inl e) \<Rightarrow> (s', Inl (if e = ValueError then RegistrationError else e))
           | (s', Inr _) \<Rightarrow> (s', Inr ())))"

section \<open>Authorize\<close>

record authorization_params =
  ap_redirect_uri :: string
  ap_redirect_uri_provided_explicitly :: bool
  ap_code_challenge :: string
  ap_scopes :: "string list option"
  ap_resource :: "string option"
  ap_state :: "string option"

definition authorize ::
  "oauth_provider \<Rightarrow> int \<Rightarrow> string \<Rightarrow> string \<Rightarrow> oauth_store \<Rightarrow> string \<Rightarrow> authorization_params
    \<Rightarrow> oauth_store \<times> (py_exc + string)" where
  "authorize p now pending_id display_code s client_id params =
     (case create_pending_authorization now pending_id s client_id (ap_redirect_uri params)
         (ap_redirect_uri_provided_explicitly params) (ap_code_challenge params) (ap_scopes params) (ap_resource params)
         (ap_state params) display_code 600 of
        (s', Inl e) \<Rightarrow> (s', Inl e)
      | (s', Inr pid) \<Rightarrow> (s', Inr (op_issuer p @ op_authorize_page p @ ''?'' @ urlencode [(''pending'', pid)])))"

section \<open>Codes and tokens\<close>

definition load_authorization_code ::
  "oauth_provider \<Rightarrow> int \<Rightarrow> oauth_store \<Rightarrow> string option \<Rightarrow> string \<Rightarrow> py_exc + authorization_code option" where
  "load_authorization_code p now s client_id code =
     (case peek_auth_code (op_sha p) now s code of
        None \<Rightarrow> Inr None
      | Some c \<Rightarrow>
          if cc_client_id c \<noteq> client_id then Inr None
          else (case (cc_client_id c, cc_code_challenge c, cc_redirect_uri c) of
              (Some cid, Some challenge, Some uri) \<Rightarrow> ebind (op_any_url p uri) (\<lambda>url.
                Inr (Some \<lparr>ao_code = code, ao_scopes = scope_list (cc_scope c), ao_expires_at = cc_expires_at c,
                  ao_client_id = cid, ao_code_challenge = challenge, ao_redirect_uri = url, ao_resource = cc_resource c,
                  ao_account_id = cc_account_id c, ao_user_id = cc_user_id c, ao_role = cc_role c,
                  ao_authorizing_key_fp = cc_authorizing_key_fp c\<rparr>))
            | _ \<Rightarrow> Inl ValidationError))"

definition mint_access :: "string \<Rightarrow> string" where
  "mint_access r = ACCESS_TOKEN_PREFIX @ r"

definition mint_refresh :: "string \<Rightarrow> string" where
  "mint_refresh r = REFRESH_TOKEN_PREFIX @ r"

definition mint_authorization_code :: "string \<Rightarrow> string" where
  "mint_authorization_code r = AUTH_CODE_PREFIX @ r"

text \<open>\<open>now_a\<close> and \<open>now_r\<close> are the times of the two inserts, \<open>ra\<close> and \<open>rr\<close> the random parts of the
  tokens.\<close>

definition issue_token_pair ::
  "oauth_provider \<Rightarrow> int \<Rightarrow> int \<Rightarrow> string \<Rightarrow> string \<Rightarrow> oauth_store \<Rightarrow> string \<Rightarrow> string \<Rightarrow> string \<Rightarrow> string \<Rightarrow> string option
    \<Rightarrow> string option \<Rightarrow> string option \<Rightarrow> string option \<Rightarrow> oauth_store \<times> (py_exc + oauth_token)" where
  "issue_token_pair p now_a now_r ra rr s client_id account_id user_id role scope resource authorizing_key_fp new_refresh_override =
     (let access = mint_access ra;
          refresh = (case new_refresh_override of None \<Rightarrow> mint_refresh rr | Some x \<Rightarrow> if x = [] then mint_refresh rr else x);
          fp = (case authorizing_key_fp of None \<Rightarrow> [] | Some x \<Rightarrow> x)
      in case insert_access (op_sha p) now_a s access client_id account_id user_id role scope resource fp (op_access_ttl p) of
           (s1, Inl e) \<Rightarrow> (s1, Inl e)
         | (s1, Inr _) \<Rightarrow>
             (case insert_refresh (op_sha p) now_r s1 refresh client_id account_id user_id role scope resource fp (op_refresh_ttl p) of
                (s2, Inl e) \<Rightarrow> (s2, Inl e)
              | (s2, Inr _) \<Rightarrow> (s2, Inr \<lparr>ot_access_token = access, ot_token_type = ''Bearer'', ot_expires_in = op_access_ttl p,
                   ot_scope = scope, ot_refresh_token = refresh\<rparr>)))"

definition exchange_authorization_code ::
  "oauth_provider \<Rightarrow> int \<Rightarrow> int \<Rightarrow> int \<Rightarrow> string \<Rightarrow> string \<Rightarrow> oauth_store \<Rightarrow> authorization_code
    \<Rightarrow> oauth_store \<times> (py_exc + oauth_token)" where
  "exchange_authorization_code p now now_a now_r ra rr s code =
     (case consume_auth_code (op_sha p) now s (ao_code code) of
        (s1, None) \<Rightarrow> (s1, Inl TokenError)
      | (s1, Some _) \<Rightarrow> issue_token_pair p now_a now_r ra rr s1 (ao_client_id code) (ao_account_id code) (ao_user_id code)
          (ao_role code) (scope_text (ao_scopes code)) (ao_resource code) (ao_authorizing_key_fp code) None)"

definition token_object_of :: "string \<Rightarrow> token_claims \<Rightarrow> token_object" where
  "token_object_of token c = \<lparr>to_token = token, to_client_id = tc_client_id c, to_scopes = scope_list (tc_scope c),
     to_expires_at = tc_expires_at c, to_account_id = tc_account_id c, to_user_id = tc_user_id c, to_role = tc_role c,
     to_resource = tc_resource c, to_authorizing_key_fp = tc_authorizing_key_fp c\<rparr>"

definition load_refresh_token ::
  "oauth_provider \<Rightarrow> int \<Rightarrow> oauth_store \<Rightarrow> string option \<Rightarrow> string \<Rightarrow> token_object option" where
  "load_refresh_token p now s client_id refresh_token =
     (case peek_refresh (op_sha p) now s refresh_token of
        None \<Rightarrow> None
      | Some c \<Rightarrow> if Some (tc_client_id c) \<noteq> client_id then None else Some (token_object_of refresh_token c))"

text \<open>The role of the token exceeds the current role of its user. When the resolver fails, the
  comparison is skipped.\<close>

definition role_downgraded :: "oauth_provider \<Rightarrow> token_object \<Rightarrow> bool" where
  "role_downgraded p t =
     (case op_role_resolver p of
        None \<Rightarrow> False
      | Some resolver \<Rightarrow> (case resolver (to_account_id t) (to_user_id t) of
          Inl _ \<Rightarrow> False
        | Inr current \<Rightarrow> Role_rank (op_ranks p) (to_role t) > Role_rank (op_ranks p) current))"

definition exchange_refresh_token ::
  "oauth_provider \<Rightarrow> int \<Rightarrow> int \<Rightarrow> int \<Rightarrow> string \<Rightarrow> string \<Rightarrow> oauth_store \<Rightarrow> token_object \<Rightarrow> string list
    \<Rightarrow> oauth_store \<times> (py_exc + oauth_token)" where
  "exchange_refresh_token p now now_a now_r ra rr s t scopes =
     (if role_downgraded p t then (s, Inl TokenError)
      else
        let new_refresh = mint_refresh rr in
        case consume_refresh (op_sha p) now s (to_token t) (Some new_refresh) of
          (s1, None) \<Rightarrow>
            if is_refresh_known_but_consumed (op_sha p) s1 (to_token t)
            then (fst (revoke_user_tokens s1 (to_account_id t) (to_user_id t)), Inl TokenError)
            else (s1, Inl TokenError)
        | (s1, Some _) \<Rightarrow>
            let scope = (case scope_text scopes of
                  Some (x # xs) \<Rightarrow> Some (x # xs)
                | _ \<Rightarrow> (case scope_text (to_scopes t) of Some (x # xs) \<Rightarrow> Some (x # xs) | _ \<Rightarrow> None))
            in issue_token_pair p now_a now_r ra rr s1 (to_client_id t) (to_account_id t) (to_user_id t) (to_role t) scope
                 (to_resource t) (to_authorizing_key_fp t) (Some new_refresh))"

definition load_access_token :: "oauth_provider \<Rightarrow> int \<Rightarrow> oauth_store \<Rightarrow> string \<Rightarrow> token_object option" where
  "load_access_token p now s token =
     (if \<not> startswith token ACCESS_TOKEN_PREFIX then None
      else map_option (token_object_of token) (load_access (op_sha p) now s token))"

definition revoke_token :: "oauth_provider \<Rightarrow> int \<Rightarrow> oauth_store \<Rightarrow> presented_token \<Rightarrow> oauth_store" where
  "revoke_token p now s t =
     (case t of
        PresentedAccess a \<Rightarrow> fst (revoke_access (op_sha p) s (to_token a))
      | PresentedRefresh r \<Rightarrow> fst (consume_refresh (op_sha p) now s (to_token r) None))"

section \<open>From consent to code\<close>

datatype status_response = StatusExpired | StatusPending | StatusApproved string

definition approved_redirect :: "pending_row \<Rightarrow> string \<Rightarrow> string" where
  "approved_redirect r auth_code =
     pn_redirect_uri r @ (if CHR ''?'' \<in> set (pn_redirect_uri r) then ''&'' else ''?'')
       @ urlencode ((''code'', auth_code) # (case pn_state r of None \<Rightarrow> [] | Some st \<Rightarrow> if st = [] then [] else [(''state'', st)]))"

text \<open>The identity columns of a verified row are set together; a row without them would violate
  the \<open>NOT NULL\<close> constraints of the code table.\<close>

definition mint_from_pending ::
  "oauth_provider \<Rightarrow> int \<Rightarrow> string \<Rightarrow> oauth_store \<Rightarrow> pending_row \<Rightarrow> oauth_store \<times> (py_exc + int)" where
  "mint_from_pending p now auth_code s r =
     (case (pn_verified_account_id r, pn_verified_user_id r, pn_verified_role r) of
        (Some account_id, Some user_id, Some role) \<Rightarrow>
          insert_auth_code (op_sha p) now s auth_code (pn_client_id r) (pn_redirect_uri r) (pn_code_challenge r) ''S256''
            (case pn_scopes r of None \<Rightarrow> None | Some ss \<Rightarrow> scope_text ss) (pn_resource r) account_id user_id role
            (case pn_verified_key_fp r of None \<Rightarrow> [] | Some fp \<Rightarrow> fp) (op_code_ttl p)
      | _ \<Rightarrow> (s, Inl (OtherError ''IntegrityError'')))"

definition authorize_page_status ::
  "oauth_provider \<Rightarrow> int \<Rightarrow> int \<Rightarrow> string \<Rightarrow> oauth_store \<Rightarrow> string \<Rightarrow> oauth_store \<times> (py_exc + status_response)" where
  "authorize_page_status p now now_c rc s pending =
     (if pending = [] then (s, Inr StatusExpired)
      else case load_pending_authorization now s pending of
          None \<Rightarrow> (s, Inr StatusExpired)
        | Some r \<Rightarrow>
            if \<not> pn_verified r then (s, Inr StatusPending)
            else
              let auth_code = mint_authorization_code rc in
              case mint_from_pending p now_c auth_code s r of
                (s1, Inl e) \<Rightarrow> (s1, Inl e)
              | (s1, Inr _) \<Rightarrow> (delete_pending_authorization s1 pending, Inr (StatusApproved (approved_redirect r auth_code))))"

record verify_request =
  vr_code :: "string option"
  vr_pending_id :: "string option"
  vr_decision :: string

datatype verify_response = VerifyDenied | VerifyApproved string "string option"

text \<open>What the handlers ask the key manager of the server; \<open>None\<close> for a manager without the method.\<close>

record resolved_identity =
  ri_role :: string
  ri_account_id :: "string option"
  ri_user_id :: "string option"
  ri_from_oauth :: bool

record key_manager =
  km_resolve :: "string \<Rightarrow> py_exc + resolved_identity"
  km_fingerprint :: "(string \<Rightarrow> string \<Rightarrow> string option) option"
  km_role :: "(string \<Rightarrow> string \<Rightarrow> py_exc + string) option"

definition fingerprint_of :: "key_manager option \<Rightarrow> string \<Rightarrow> string \<Rightarrow> string option" where
  "fingerprint_of km account_id user_id =
     (case km of None \<Rightarrow> None | Some m \<Rightarrow> (case km_fingerprint m of None \<Rightarrow> None | Some f \<Rightarrow> f account_id user_id))"

definition nonempty :: "string option \<Rightarrow> string option" where
  "nonempty x = (if x = Some [] then None else x)"

definition find_pending :: "int \<Rightarrow> oauth_store \<Rightarrow> verify_request \<Rightarrow> py_exc + pending_row" where
  "find_pending now s body =
     (case nonempty (vr_pending_id body) of
        Some pid \<Rightarrow> (case load_pending_authorization now s pid of
            None \<Rightarrow> Inl InvalidArgumentError
          | Some r \<Rightarrow> if pn_verified r then Inl InvalidArgumentError else Inr r)
      | None \<Rightarrow> (case nonempty (vr_code body) of
            Some code \<Rightarrow> (case find_pending_by_display_code now s code of
                None \<Rightarrow> Inl InvalidArgumentError
              | Some r \<Rightarrow> Inr r)
          | None \<Rightarrow> Inl InvalidArgumentError))"

definition oauth_verify ::
  "oauth_provider \<Rightarrow> key_manager option \<Rightarrow> int \<Rightarrow> int \<Rightarrow> oauth_store \<Rightarrow> verify_request \<Rightarrow> request_context
    \<Rightarrow> oauth_store \<times> (py_exc + verify_response)" where
  "oauth_verify p km now now_m s body ctx =
     (if rc_from_oauth ctx then (s, Inl PermissionDeniedError)
      else
        let decision = strip is_space (map lower_char (vr_decision body)) in
        if decision \<notin> {''approve'', ''deny''} then (s, Inl InvalidArgumentError)
        else case find_pending now s body of
            Inl e \<Rightarrow> (s, Inl e)
          | Inr r \<Rightarrow>
              if decision = ''deny'' then (delete_pending_authorization s (pn_pending_id r), Inr VerifyDenied)
              else (case nonempty (fingerprint_of km (rc_account_id ctx) (rc_user_id ctx)) of
                  None \<Rightarrow> (s, Inl InvalidArgumentError)
                | Some fp \<Rightarrow>
                    (case mark_pending_verified now_m s (pn_pending_id r) (rc_account_id ctx) (rc_user_id ctx) (rc_role ctx) fp of
                       (s1, False) \<Rightarrow> (s1, Inl InvalidArgumentError)
                     | (s1, True) \<Rightarrow> (s1, map_sum id (\<lambda>ci. VerifyApproved (pn_client_id r)
                           (case ci of None \<Rightarrow> None | Some i \<Rightarrow> ci_client_name i)) (get_client p s1 (pn_client_id r))))))"

section \<open>Bearer tokens\<close>

text \<open>\<open>hmac.compare_digest\<close> of two strings raises unless both are ASCII.\<close>

definition compare_digest :: "string \<Rightarrow> string \<Rightarrow> py_exc + bool" where
  "compare_digest a b = (if \<forall>c \<in> set (a @ b). of_char c < (128 :: nat) then Inr (a = b) else Inl TypeError)"

type_synonym headers = "(string \<times> string) list"

definition remove_header :: "headers \<Rightarrow> string \<Rightarrow> headers" where
  "remove_header hs name = filter (\<lambda>(k, v). map lower_char k \<noteq> map lower_char name) hs"

definition drop_assertions :: "string option \<Rightarrow> string option \<Rightarrow> headers \<Rightarrow> headers" where
  "drop_assertions x_account x_user hs =
     (let hs1 = (if nonempty x_account \<noteq> None then remove_header hs ''x-openviking-account'' else hs)
      in if nonempty x_user \<noteq> None then remove_header hs1 ''x-openviking-user'' else hs1)"

definition check_token :: "oauth_provider \<Rightarrow> key_manager option \<Rightarrow> token_object \<Rightarrow> py_exc + resolved_identity" where
  "check_token p km t =
     (case (nonempty (to_authorizing_key_fp t), nonempty (fingerprint_of km (to_account_id t) (to_user_id t))) of
        (Some recorded, Some current) \<Rightarrow> ebind (compare_digest recorded current) (\<lambda>same.
          if \<not> same then Inl UnauthenticatedError
          else
            let identity = \<lparr>ri_role = to_role t, ri_account_id = Some (to_account_id t), ri_user_id = Some (to_user_id t),
                            ri_from_oauth = True\<rparr>
            in case km of
                 None \<Rightarrow> Inr identity
               | Some m \<Rightarrow> (case km_role m of
                   None \<Rightarrow> Inr identity
                 | Some f \<Rightarrow> (case f (to_account_id t) (to_user_id t) of
                     Inl _ \<Rightarrow> Inl UnauthenticatedError
                   | Inr current_role \<Rightarrow>
                       if Role_rank (op_ranks p) (to_role t) > Role_rank (op_ranks p) current_role then Inl UnauthenticatedError
                       else Inr identity)))
      | _ \<Rightarrow> Inl UnauthenticatedError)"

definition try_resolve_oauth_token ::
  "oauth_provider option \<Rightarrow> key_manager option \<Rightarrow> int \<Rightarrow> oauth_store \<Rightarrow> string \<Rightarrow> py_exc + resolved_identity option" where
  "try_resolve_oauth_token provider km now s api_key =
     (if \<not> startswith api_key ACCESS_TOKEN_PREFIX then Inr None
      else case provider of
          None \<Rightarrow> Inr None
        | Some p \<Rightarrow> (case load_access_token p now s api_key of
            None \<Rightarrow> Inl UnauthenticatedError
          | Some t \<Rightarrow> map_sum id Some (check_token p km t)))"

definition default_identity :: "resolved_identity \<Rightarrow> resolved_identity" where
  "default_identity i = i\<lparr>ri_account_id := Some (case nonempty (ri_account_id i) of None \<Rightarrow> ''default'' | Some a \<Rightarrow> a),
     ri_user_id := Some (case nonempty (ri_user_id i) of None \<Rightarrow> ''default'' | Some u \<Rightarrow> u)\<rparr>"

definition resolve_identity ::
  "oauth_provider option \<Rightarrow> key_manager option \<Rightarrow> int \<Rightarrow> oauth_store \<Rightarrow> headers \<Rightarrow> string option \<Rightarrow> string option \<Rightarrow> string option
    \<Rightarrow> headers \<times> (py_exc + resolved_identity)" where
  "resolve_identity provider km now s hs api_key x_account x_user =
     (case km of
        None \<Rightarrow> (hs, Inl RuntimeError)
      | Some m \<Rightarrow> (case nonempty api_key of
          None \<Rightarrow> (hs, Inl UnauthenticatedError)
        | Some key \<Rightarrow> (case try_resolve_oauth_token provider km now s key of
            Inl e \<Rightarrow> (hs, Inl e)
          | Inr (Some i) \<Rightarrow> (drop_assertions x_account x_user hs, Inr i)
          | Inr None \<Rightarrow> (case km_resolve m key of
              Inl e \<Rightarrow> (hs, Inl e)
            | Inr i \<Rightarrow> (drop_assertions x_account x_user hs, Inr (default_identity i))))))"

definition ROOT_ALLOWED_PATHS :: "string list" where
  "ROOT_ALLOWED_PATHS = [''/api/v1/system/status'', ''/api/v1/system/wait'', ''/api/v1/debug/health'']"

definition ROOT_ALLOWED_PREFIXES :: "string list" where
  "ROOT_ALLOWED_PREFIXES = [''/api/v1/admin'', ''/api/v1/observer'', ''/api/v1/console'', ''/api/v1/tasks'',
     ''/api/v1/system/backend'', ''/api/v1/system/sync'']"

definition api_key_root_can_access_path :: "string \<Rightarrow> bool" where
  "api_key_root_can_access_path path \<longleftrightarrow>
     path \<in> set ROOT_ALLOWED_PATHS \<or> list_ex (\<lambda>pre. startswith path pre) ROOT_ALLOWED_PREFIXES"

definition get_request_context_checks :: "string \<Rightarrow> resolved_identity \<Rightarrow> py_exc + unit" where
  "get_request_context_checks path i =
     (if ri_role i = Role_ROOT \<and> \<not> ri_from_oauth i \<and> \<not> api_key_root_can_access_path path
      then Inl PermissionDeniedError else Inr ())"

end
