(* ===== verification/Oauth_Runs.thy ===== *)
theory Oauth_Runs
  imports Oauth_Provider
begin

text \<open>
  Runs of the OAuth server. The store lock is held for one call only, so the methods of
  \<open>Oauth_Provider\<close> interleave between their store calls. A run moves by single store calls; next to
  the tables its state keeps what the methods in progress hold (rows read by a poll, codes and
  tokens loaded for an exchange, grants redeemed but not yet stored) and, for the
  statements, the approvals given, the digests issued and the secrets redeemed so far.
\<close>

section \<open>The transition system\<close>

type_synonym grant = "string \<times> string \<times> string \<times> string \<times> string"

definition fp_text :: "string option \<Rightarrow> string" where
  "fp_text x = (case x of None \<Rightarrow> [] | Some f \<Rightarrow> f)"

text \<open>Client, account, user, role and key fingerprint of a row or an object.\<close>

definition code_grant :: "authorization_code \<Rightarrow> grant" where
  "code_grant c = (ao_client_id c, ao_account_id c, ao_user_id c, ao_role c, fp_text (ao_authorizing_key_fp c))"

definition token_grant :: "token_object \<Rightarrow> grant" where
  "token_grant t = (to_client_id t, to_account_id t, to_user_id t, to_role t, fp_text (to_authorizing_key_fp t))"

definition claims_grant :: "token_claims \<Rightarrow> grant" where
  "claims_grant c = (tc_client_id c, tc_account_id c, tc_user_id c, tc_role c, fp_text (tc_authorizing_key_fp c))"

definition code_row_grant :: "string \<Rightarrow> code_claims \<Rightarrow> grant" where
  "code_row_grant cid c = (cid, cc_account_id c, cc_user_id c, cc_role c, fp_text (cc_authorizing_key_fp c))"

record oauth_run =
  ox_store :: oauth_store
  ox_approved :: "grant set"
  ox_polled :: "pending_row set"
  ox_codes :: "authorization_code set"
  ox_tokens :: "token_object set"
  ox_grants :: "grant set"
  ox_issued :: "string set"
  ox_redeemed :: "string list"
  ox_rotated :: "string list"

definition ox_init :: "oauth_run \<Rightarrow> bool" where
  "ox_init x \<longleftrightarrow> x = \<lparr>ox_store = empty_store, ox_approved = {}, ox_polled = {}, ox_codes = {}, ox_tokens = {}, ox_grants = {},
     ox_issued = {}, ox_redeemed = [], ox_rotated = []\<rparr>"

inductive ox_step :: "oauth_provider \<Rightarrow> oauth_run \<Rightarrow> oauth_run \<Rightarrow> bool" for p :: oauth_provider where
  ox_register: "ox_step p x (x\<lparr>ox_store := fst (provider_register_client p now (ox_store x) info)\<rparr>)"
| ox_authorize: "ox_step p x (x\<lparr>ox_store := fst (authorize p now pid dc (ox_store x) cid params)\<rparr>)"
| ox_verify: "mark_pending_verified now (ox_store x) pid a u r fp = (s, True) \<Longrightarrow> fp \<noteq> []
    \<Longrightarrow> dget (oa_pending (ox_store x)) pid = Some row
    \<Longrightarrow> ox_step p x (x\<lparr>ox_store := s, ox_approved := insert (pn_client_id row, a, u, r, fp) (ox_approved x)\<rparr>)"
| ox_delete: "ox_step p x (x\<lparr>ox_store := delete_pending_authorization (ox_store x) pid\<rparr>)"
| ox_poll: "load_pending_authorization now (ox_store x) pid = Some row \<Longrightarrow> pn_verified row
    \<Longrightarrow> ox_step p x (x\<lparr>ox_polled := insert row (ox_polled x)\<rparr>)"
| ox_mint: "row \<in> ox_polled x \<Longrightarrow> op_sha p code \<notin> ox_issued x \<Longrightarrow> mint_from_pending p now code (ox_store x) row = (s, Inr e)
    \<Longrightarrow> ox_step p x (x\<lparr>ox_store := s, ox_issued := insert (op_sha p code) (ox_issued x)\<rparr>)"
| ox_load_code: "load_authorization_code p now (ox_store x) cid code = Inr (Some c)
    \<Longrightarrow> ox_step p x (x\<lparr>ox_codes := insert c (ox_codes x)\<rparr>)"
| ox_redeem: "c \<in> ox_codes x \<Longrightarrow> consume_auth_code (op_sha p) now (ox_store x) (ao_code c) = (s, Some claims)
    \<Longrightarrow> ox_step p x (x\<lparr>ox_store := s, ox_grants := insert (code_grant c) (ox_grants x),
          ox_redeemed := ox_redeemed x @ [op_sha p (ao_code c)]\<rparr>)"
| ox_load_refresh: "load_refresh_token p now (ox_store x) cid tok = Some t
    \<Longrightarrow> ox_step p x (x\<lparr>ox_tokens := insert t (ox_tokens x)\<rparr>)"
| ox_rotate: "t \<in> ox_tokens x \<Longrightarrow> consume_refresh (op_sha p) now (ox_store x) (to_token t) repl = (s, Some claims)
    \<Longrightarrow> ox_step p x (x\<lparr>ox_store := s, ox_grants := insert (token_grant t) (ox_grants x),
          ox_rotated := ox_rotated x @ [op_sha p (to_token t)]\<rparr>)"
| ox_issue_access: "(cid, a, u, r, fp) \<in> ox_grants x \<Longrightarrow> op_sha p tok \<notin> ox_issued x
    \<Longrightarrow> insert_access (op_sha p) now (ox_store x) tok cid a u r scope res fp ttl = (s, Inr e)
    \<Longrightarrow> ox_step p x (x\<lparr>ox_store := s, ox_issued := insert (op_sha p tok) (ox_issued x)\<rparr>)"
| ox_issue_refresh: "(cid, a, u, r, fp) \<in> ox_grants x \<Longrightarrow> op_sha p tok \<notin> ox_issued x
    \<Longrightarrow> insert_refresh (op_sha p) now (ox_store x) tok cid a u r scope res fp ttl = (s, Inr e)
    \<Longrightarrow> ox_step p x (x\<lparr>ox_store := s, ox_issued := insert (op_sha p tok) (ox_issued x)\<rparr>)"
| ox_revoke_user: "ox_step p x (x\<lparr>ox_store := fst (revoke_user_tokens (ox_store x) a u)\<rparr>)"
| ox_revoke: "ox_step p x (x\<lparr>ox_store := revoke_token p now (ox_store x) t\<rparr>)"
| ox_gc: "ox_step p x (x\<lparr>ox_store := fst (gc_expired now (ox_store x))\<rparr>)"

inductive_cases ox_stepE: "ox_step p x y"

section \<open>Invariant\<close>

text \<open>Rows of a table that satisfy a predicate, by key.\<close>

definition rows_all :: "(string \<Rightarrow> 'v \<Rightarrow> bool) \<Rightarrow> (string \<times> 'v) list \<Rightarrow> bool" where
  "rows_all P tbl \<longleftrightarrow> (\<forall>k v. dget tbl k = Some v \<longrightarrow> P k v)"

lemma rows_allD: "rows_all P tbl \<Longrightarrow> dget tbl k = Some v \<Longrightarrow> P k v"
  by (simp add: rows_all_def)

lemma rows_all_dset: "rows_all P tbl \<Longrightarrow> P k v \<Longrightarrow> rows_all P (dset tbl k v)"
  by (simp add: rows_all_def)

lemma rows_all_insert: "sql_insert tbl k v = Inr t \<Longrightarrow> rows_all P tbl \<Longrightarrow> P k v \<Longrightarrow> rows_all P t"
  by (auto simp: rows_all_def sql_insert_Inr dget_append split: option.splits if_splits)

lemma rows_all_update: "rows_all P tbl \<Longrightarrow> (\<And>k v. P k v \<Longrightarrow> P k (f v)) \<Longrightarrow> rows_all P (sql_update Q f tbl)"
  by (auto simp: rows_all_def dget_sql_update)

lemma rows_all_delete: "rows_all P tbl \<Longrightarrow> distinct (dkeys tbl) \<Longrightarrow> rows_all P (sql_delete Q tbl)"
  by (auto simp: rows_all_def dget_sql_delete split: option.splits if_splits)

lemma rows_all_dpop: "rows_all P tbl \<Longrightarrow> rows_all P (dpop tbl k)"
  by (simp add: rows_all_def)

lemmas rows_all_intros = rows_all_dset rows_all_insert rows_all_update rows_all_delete rows_all_dpop

definition pending_good :: "grant set \<Rightarrow> pending_row \<Rightarrow> bool" where
  "pending_good G row \<longleftrightarrow> (pn_verified row \<longrightarrow> (\<exists>a u r fp. pn_verified_account_id row = Some a \<and> pn_verified_user_id row = Some u
     \<and> pn_verified_role row = Some r \<and> pn_verified_key_fp row = Some fp \<and> (pn_client_id row, a, u, r, fp) \<in> G))"

definition code_good :: "grant set \<Rightarrow> string set \<Rightarrow> string set \<Rightarrow> string \<Rightarrow> code_row \<Rightarrow> bool" where
  "code_good G issued redeemed k r \<longleftrightarrow> k \<in> issued \<and> (k \<in> redeemed \<longrightarrow> cd_used r)
     \<and> (\<exists>cid. cc_client_id (cd_claims r) = Some cid \<and> code_row_grant cid (cd_claims r) \<in> G)"

definition refresh_good :: "grant set \<Rightarrow> string set \<Rightarrow> string set \<Rightarrow> string \<Rightarrow> refresh_row \<Rightarrow> bool" where
  "refresh_good G issued rotated k r \<longleftrightarrow> k \<in> issued \<and> (k \<in> rotated \<longrightarrow> rf_consumed r) \<and> claims_grant (rf_claims r) \<in> G"

definition access_good :: "grant set \<Rightarrow> string \<Rightarrow> access_row \<Rightarrow> bool" where
  "access_good G k r \<longleftrightarrow> claims_grant (ac_claims r) \<in> G"

lemmas row_goods = pending_good_def code_good_def refresh_good_def access_good_def

definition ox_inv :: "oauth_run \<Rightarrow> bool" where
  "ox_inv x \<longleftrightarrow> store_ok (ox_store x)
     \<and> (\<forall>(c, a, u, r, fp) \<in> ox_approved x. fp \<noteq> [])
     \<and> rows_all (\<lambda>k. pending_good (ox_approved x)) (oa_pending (ox_store x))
     \<and> rows_all (code_good (ox_approved x) (ox_issued x) (set (ox_redeemed x))) (oa_codes (ox_store x))
     \<and> rows_all (refresh_good (ox_approved x) (ox_issued x) (set (ox_rotated x))) (oa_refresh (ox_store x))
     \<and> rows_all (access_good (ox_approved x)) (oa_access (ox_store x))
     \<and> Ball (ox_polled x) (\<lambda>row. pn_verified row \<and> pending_good (ox_approved x) row)
     \<and> code_grant ` ox_codes x \<subseteq> ox_approved x \<and> token_grant ` ox_tokens x \<subseteq> ox_approved x \<and> ox_grants x \<subseteq> ox_approved x
     \<and> set (ox_redeemed x) \<subseteq> ox_issued x \<and> set (ox_rotated x) \<subseteq> ox_issued x
     \<and> distinct (ox_redeemed x) \<and> distinct (ox_rotated x)"

lemma ox_inv_init: "ox_init x \<Longrightarrow> ox_inv x"
  by (simp add: ox_init_def ox_inv_def store_ok_empty rows_all_def) (simp add: empty_store_def)

lemma pending_good_mono: "G \<subseteq> G' \<Longrightarrow> pending_good G row \<Longrightarrow> pending_good G' row"
  by (auto simp: pending_good_def)

lemma rows_all_mono: "rows_all P tbl \<Longrightarrow> (\<And>k v. P k v \<Longrightarrow> Q k v) \<Longrightarrow> rows_all Q tbl"
  by (simp add: rows_all_def)

lemma ox_invD:
  assumes "ox_inv x"
  shows "store_ok (ox_store x)" "(c, a, u, r, fp) \<in> ox_approved x \<Longrightarrow> fp \<noteq> []"
    and "rows_all (\<lambda>k. pending_good (ox_approved x)) (oa_pending (ox_store x))"
    and "rows_all (code_good (ox_approved x) (ox_issued x) (set (ox_redeemed x))) (oa_codes (ox_store x))"
    and "rows_all (refresh_good (ox_approved x) (ox_issued x) (set (ox_rotated x))) (oa_refresh (ox_store x))"
    and "rows_all (access_good (ox_approved x)) (oa_access (ox_store x))"
    and "row \<in> ox_polled x \<Longrightarrow> pn_verified row \<and> pending_good (ox_approved x) row"
    and "co \<in> ox_codes x \<Longrightarrow> code_grant co \<in> ox_approved x"
    and "t \<in> ox_tokens x \<Longrightarrow> token_grant t \<in> ox_approved x"
    and "g \<in> ox_grants x \<Longrightarrow> g \<in> ox_approved x"
    and "set (ox_redeemed x) \<subseteq> ox_issued x" "set (ox_rotated x) \<subseteq> ox_issued x"
    and "distinct (ox_redeemed x)" "distinct (ox_rotated x)"
  using assms by (auto simp: ox_inv_def)

text \<open>A step that only replaces the tables.\<close>

lemma ox_inv_store:
  assumes "ox_inv x" "store_ok s"
    and "rows_all (\<lambda>k. pending_good (ox_approved x)) (oa_pending s)"
    and "rows_all (code_good (ox_approved x) (ox_issued x) (set (ox_redeemed x))) (oa_codes s)"
    and "rows_all (refresh_good (ox_approved x) (ox_issued x) (set (ox_rotated x))) (oa_refresh s)"
    and "rows_all (access_good (ox_approved x)) (oa_access s)"
  shows "ox_inv (x\<lparr>ox_store := s\<rparr>)"
  using assms by (auto simp: ox_inv_def)

lemma register_client_frame: "\<exists>t. fst (register_client sha now ri s ci us nm am gt rt sec sc) = s\<lparr>oa_clients := t\<rparr>"
proof (cases "fst (register_client sha now ri s ci us nm am gt rt sec sc) = s")
  case True
  then show ?thesis by (intro exI [of _ "oa_clients s"]) simp
next
  case False
  then show ?thesis by (auto simp: register_client_def Let_def split: sum.splits)
qed

lemma inv_register:
  assumes "ox_inv x"
  shows "ox_inv (x\<lparr>ox_store := fst (provider_register_client p now (ox_store x) info)\<rparr>)"
proof (cases "ci_client_id info")
  case None
  then show ?thesis using assms by (simp add: provider_register_client_def)
next
  case (Some cid)
  define us gt rt where "us = (case ci_redirect_uris info of None \<Rightarrow> [] | Some us \<Rightarrow> us)"
    and "gt = (if ci_grant_types info = [] then None else Some (ci_grant_types info))"
    and "rt = (if ci_response_types info = [] then None else Some (ci_response_types info))"
  let ?r = "register_client (op_sha p) now [] (ox_store x) (Some cid) us (ci_client_name info) ''none'' gt rt None (ci_scope info)"
  have e: "fst (provider_register_client p now (ox_store x) info) = fst ?r"
    by (cases ?r; cases "snd ?r") (simp_all add: provider_register_client_def Some us_def [symmetric] gt_def [symmetric] rt_def [symmetric])
  obtain t where t: "fst ?r = (ox_store x)\<lparr>oa_clients := t\<rparr>" using register_client_frame by blast
  have ok: "store_ok (fst ?r)" by (rule store_ok_ops(1) [OF ox_invD(1) [OF assms]])
  show ?thesis using ox_inv_store [OF assms ok] ox_invD(3-6) [OF assms] by (simp add: e t)
qed

text \<open>A step that only changes pending rows.\<close>

lemma inv_pending:
  assumes "ox_inv x" "store_ok s" "s = (ox_store x)\<lparr>oa_pending := t\<rparr>" "rows_all (\<lambda>k. pending_good (ox_approved x)) t"
  shows "ox_inv (x\<lparr>ox_store := s\<rparr>)"
  using ox_inv_store [OF assms(1,2)] ox_invD(4-6) [OF assms(1)] assms(3,4) by simp

lemma inv_authorize:
  assumes "ox_inv x"
  shows "ox_inv (x\<lparr>ox_store := fst (authorize p now pid dc (ox_store x) cid params)\<rparr>)"
proof -
  let ?c = "create_pending_authorization now pid (ox_store x) cid (ap_redirect_uri params)
         (ap_redirect_uri_provided_explicitly params) (ap_code_challenge params) (ap_scopes params) (ap_resource params)
         (ap_state params) dc 600"
  have e: "fst (authorize p now pid dc (ox_store x) cid params) = fst ?c"
    by (auto simp: authorize_def split: prod.splits sum.splits)
  show ?thesis
  proof (cases "fst ?c = ox_store x")
    case True
    then show ?thesis using assms e by simp
  next
    case False
    then obtain t row where t: "sql_insert (oa_pending (ox_store x)) pid row = Inr t" "\<not> pn_verified row"
      "fst ?c = (ox_store x)\<lparr>oa_pending := t\<rparr>"
      by (auto simp: create_pending_authorization_def split: sum.splits)
    have "rows_all (\<lambda>k. pending_good (ox_approved x)) t"
      using rows_all_insert [OF t(1) ox_invD(3) [OF assms]] t(2) by (simp add: pending_good_def)
    with inv_pending [OF assms _ t(3)] show ?thesis using store_ok_ops(9) [OF ox_invD(1) [OF assms]] e by simp
  qed
qed

lemma inv_verify:
  assumes "ox_inv x" "mark_pending_verified now (ox_store x) pid a u r fp = (s, True)" "fp \<noteq> []"
    "dget (oa_pending (ox_store x)) pid = Some row"
  shows "ox_inv (x\<lparr>ox_store := s, ox_approved := insert (pn_client_id row, a, u, r, fp) (ox_approved x)\<rparr>)"
proof -
  let ?G = "insert (pn_client_id row, a, u, r, fp) (ox_approved x)"
  have s: "s = (ox_store x)\<lparr>oa_pending := dset (oa_pending (ox_store x)) pid
      (row\<lparr>pn_verified := True, pn_verified_account_id := Some a, pn_verified_user_id := Some u,
         pn_verified_role := Some r, pn_verified_key_fp := Some fp\<rparr>)\<rparr>"
    using assms(2,4) by (auto simp: mark_pending_verified_def split: if_splits)
  have "store_ok s" using store_ok_ops(10) [OF ox_invD(1) [OF assms(1)]] assms(2) by (metis fst_conv)
  moreover have "rows_all (\<lambda>k. pending_good ?G) (oa_pending s)"
    unfolding s using ox_invD(3) [OF assms(1)]
    by (auto intro!: rows_all_dset elim!: rows_all_mono pending_good_mono [rotated] simp: pending_good_def [of ?G "_\<lparr>pn_verified := _\<rparr>"])
       (auto simp: pending_good_def)
  moreover have "rows_all (code_good ?G (ox_issued x) (set (ox_redeemed x))) (oa_codes s)"
    unfolding s using ox_invD(4) [OF assms(1)] by (auto elim!: rows_all_mono simp: code_good_def)
  moreover have "rows_all (refresh_good ?G (ox_issued x) (set (ox_rotated x))) (oa_refresh s)"
    unfolding s using ox_invD(5) [OF assms(1)] by (auto elim!: rows_all_mono simp: refresh_good_def)
  moreover have "rows_all (access_good ?G) (oa_access s)"
    unfolding s using ox_invD(6) [OF assms(1)] by (auto elim!: rows_all_mono simp: access_good_def)
  moreover have "pending_good ?G row" if "row \<in> ox_polled x" for row
    using ox_invD(7) [OF assms(1) that] by (auto intro: pending_good_mono [of "ox_approved x"])
  ultimately show ?thesis using assms(1,3) by (auto simp: ox_inv_def)
qed

lemma inv_mint:
  assumes "ox_inv x" "row \<in> ox_polled x" "op_sha p code \<notin> ox_issued x" "mint_from_pending p now code (ox_store x) row = (s, Inr e)"
  shows "ox_inv (x\<lparr>ox_store := s, ox_issued := insert (op_sha p code) (ox_issued x)\<rparr>)"
proof -
  obtain a u r fp where v: "pn_verified_account_id row = Some a" "pn_verified_user_id row = Some u"
     "pn_verified_role row = Some r" "pn_verified_key_fp row = Some fp" "(pn_client_id row, a, u, r, fp) \<in> ox_approved x"
    using ox_invD(7) [OF assms(1,2)] by (auto simp: pending_good_def)
  have "store_ok s" using store_ok_ops(2) [OF ox_invD(1) [OF assms(1)]] assms(4)
    by (auto simp: mint_from_pending_def v) (metis fst_conv)
  obtain t claims where t: "sql_insert (oa_codes (ox_store x)) (op_sha p code) \<lparr>cd_claims = claims, cd_kind = ''code'', cd_used = False\<rparr> = Inr t"
    "s = (ox_store x)\<lparr>oa_codes := t\<rparr>" "cc_client_id claims = Some (pn_client_id row)"
    "code_row_grant (pn_client_id row) claims = (pn_client_id row, a, u, r, fp)"
    using assms(4) by (auto simp: mint_from_pending_def v insert_auth_code_def Let_def code_row_grant_def fp_text_def split: sum.splits)
  have ni: "op_sha p code \<notin> set (ox_redeemed x)" using ox_invD(11) [OF assms(1)] assms(3) by blast
  have "rows_all (code_good (ox_approved x) (insert (op_sha p code) (ox_issued x)) (set (ox_redeemed x))) t"
    using rows_all_insert [OF t(1) rows_all_mono [OF ox_invD(4) [OF assms(1)]]] t(3,4) v(5) ni by (simp add: code_good_def)
  moreover have "rows_all (refresh_good (ox_approved x) (insert (op_sha p code) (ox_issued x)) (set (ox_rotated x))) (oa_refresh (ox_store x))"
    using ox_invD(5) [OF assms(1)] by (auto elim!: rows_all_mono simp: refresh_good_def)
  ultimately show ?thesis using assms(1) \<open>store_ok s\<close> by (auto simp: ox_inv_def t(2))
qed

lemma inv_redeem:
  assumes "ox_inv x" "c \<in> ox_codes x" "consume_auth_code (op_sha p) now (ox_store x) (ao_code c) = (s, Some claims)"
  shows "ox_inv (x\<lparr>ox_store := s, ox_grants := insert (code_grant c) (ox_grants x),
          ox_redeemed := ox_redeemed x @ [op_sha p (ao_code c)]\<rparr>)"
proof -
  let ?h = "op_sha p (ao_code c)"
  obtain r where r: "dget (oa_codes (ox_store x)) ?h = Some r" "\<not> cd_used r"
    and s: "s = (ox_store x)\<lparr>oa_codes := dset (oa_codes (ox_store x)) ?h (r\<lparr>cd_used := True\<rparr>)\<rparr>"
    using assms(3) by (auto simp: consume_auth_code_def atomic_consume_code_def code_live_def split: option.splits if_splits)
  note g = rows_allD [OF ox_invD(4) [OF assms(1)] r(1)]
  have "store_ok s" using store_ok_ops(3) [OF ox_invD(1) [OF assms(1)]] assms(3) by (metis fst_conv)
  moreover have "rows_all (code_good (ox_approved x) (ox_issued x) (set (ox_redeemed x @ [?h]))) (oa_codes s)"
    using ox_invD(4) [OF assms(1)] g by (auto simp: s rows_all_def code_good_def)
  moreover have "?h \<in> ox_issued x" "?h \<notin> set (ox_redeemed x)" using g r(2) by (auto simp: code_good_def)
  ultimately show ?thesis using assms(1) ox_invD(8) [OF assms(1,2)] by (auto simp: ox_inv_def s)
qed

lemma inv_rotate:
  assumes "ox_inv x" "t \<in> ox_tokens x" "consume_refresh (op_sha p) now (ox_store x) (to_token t) repl = (s, Some claims)"
  shows "ox_inv (x\<lparr>ox_store := s, ox_grants := insert (token_grant t) (ox_grants x),
          ox_rotated := ox_rotated x @ [op_sha p (to_token t)]\<rparr>)"
proof -
  let ?h = "op_sha p (to_token t)"
  obtain r rep where r: "dget (oa_refresh (ox_store x)) ?h = Some r" "\<not> rf_consumed r"
    and s: "s = (ox_store x)\<lparr>oa_refresh := dset (oa_refresh (ox_store x)) ?h (r\<lparr>rf_consumed := True, rf_replaced_by := rep\<rparr>)\<rparr>"
    using assms(3) by (auto simp: consume_refresh_def refresh_live_def Let_def split: option.splits if_splits)
  note g = rows_allD [OF ox_invD(5) [OF assms(1)] r(1)]
  have "store_ok s" using store_ok_ops(5) [OF ox_invD(1) [OF assms(1)]] assms(3) by (metis fst_conv)
  moreover have "rows_all (refresh_good (ox_approved x) (ox_issued x) (set (ox_rotated x @ [?h]))) (oa_refresh s)"
    using ox_invD(5) [OF assms(1)] g by (auto simp: s rows_all_def refresh_good_def)
  moreover have "?h \<in> ox_issued x" "?h \<notin> set (ox_rotated x)" using g r(2) by (auto simp: refresh_good_def)
  ultimately show ?thesis using assms(1) ox_invD(9) [OF assms(1,2)] by (auto simp: ox_inv_def s)
qed

lemma claims_grant_new [simp]: "claims_grant (new_claims now cid a u r scope res fp ttl) = (cid, a, u, r, fp)"
  by (simp add: claims_grant_def new_claims_def fp_text_def)

lemma inv_issue_access:
  assumes "ox_inv x" "(cid, a, u, r, fp) \<in> ox_grants x"
    and "insert_access (op_sha p) now (ox_store x) tok cid a u r scope res fp ttl = (s, Inr e)"
  shows "ox_inv (x\<lparr>ox_store := s, ox_issued := insert (op_sha p tok) (ox_issued x)\<rparr>)"
proof -
  obtain t where t: "sql_insert (oa_access (ox_store x)) (op_sha p tok)
      \<lparr>ac_claims = new_claims now cid a u r scope res fp ttl, ac_revoked = False\<rparr> = Inr t" "s = (ox_store x)\<lparr>oa_access := t\<rparr>"
    using assms(3) by (auto simp: insert_access_def Let_def split: sum.splits)
  have "store_ok s" using store_ok_ops(6) [OF ox_invD(1) [OF assms(1)]] assms(3) by (metis fst_conv)
  moreover have "rows_all (access_good (ox_approved x)) t"
    using rows_all_insert [OF t(1) ox_invD(6) [OF assms(1)]] ox_invD(10) [OF assms(1,2)] by (simp add: access_good_def)
  moreover have "rows_all (code_good (ox_approved x) (insert (op_sha p tok) (ox_issued x)) (set (ox_redeemed x))) (oa_codes (ox_store x))"
    using ox_invD(4) [OF assms(1)] by (auto elim!: rows_all_mono simp: code_good_def)
  moreover have "rows_all (refresh_good (ox_approved x) (insert (op_sha p tok) (ox_issued x)) (set (ox_rotated x))) (oa_refresh (ox_store x))"
    using ox_invD(5) [OF assms(1)] by (auto elim!: rows_all_mono simp: refresh_good_def)
  ultimately show ?thesis using assms(1) by (auto simp: ox_inv_def t(2))
qed

lemma inv_issue_refresh:
  assumes "ox_inv x" "(cid, a, u, r, fp) \<in> ox_grants x" "op_sha p tok \<notin> ox_issued x"
    and "insert_refresh (op_sha p) now (ox_store x) tok cid a u r scope res fp ttl = (s, Inr e)"
  shows "ox_inv (x\<lparr>ox_store := s, ox_issued := insert (op_sha p tok) (ox_issued x)\<rparr>)"
proof -
  obtain t where t: "sql_insert (oa_refresh (ox_store x)) (op_sha p tok)
      \<lparr>rf_claims = new_claims now cid a u r scope res fp ttl, rf_consumed = False, rf_replaced_by = None\<rparr> = Inr t"
      "s = (ox_store x)\<lparr>oa_refresh := t\<rparr>"
    using assms(4) by (auto simp: insert_refresh_def Let_def split: sum.splits)
  have "store_ok s" using store_ok_ops(4) [OF ox_invD(1) [OF assms(1)]] assms(4) by (metis fst_conv)
  moreover have "op_sha p tok \<notin> set (ox_rotated x)" using ox_invD(12) [OF assms(1)] assms(3) by blast
  then have "rows_all (refresh_good (ox_approved x) (insert (op_sha p tok) (ox_issued x)) (set (ox_rotated x))) t"
    using rows_all_insert [OF t(1) rows_all_mono [OF ox_invD(5) [OF assms(1)]]] ox_invD(10) [OF assms(1,2)]
    by (simp add: refresh_good_def)
  moreover have "rows_all (code_good (ox_approved x) (insert (op_sha p tok) (ox_issued x)) (set (ox_redeemed x))) (oa_codes (ox_store x))"
    using ox_invD(4) [OF assms(1)] by (auto elim!: rows_all_mono simp: code_good_def)
  ultimately show ?thesis using assms(1) by (auto simp: ox_inv_def t(2))
qed

lemma store_ok_distinct:
  "store_ok s \<Longrightarrow> distinct (dkeys (oa_codes s))" "store_ok s \<Longrightarrow> distinct (dkeys (oa_refresh s))"
  "store_ok s \<Longrightarrow> distinct (dkeys (oa_pending s))" "store_ok s \<Longrightarrow> distinct (dkeys (oa_access s))"
  by (simp_all add: store_ok_def)

lemma inv_revoke_user:
  assumes "ox_inv x"
  shows "ox_inv (x\<lparr>ox_store := fst (revoke_user_tokens (ox_store x) a u)\<rparr>)"
  by (rule ox_inv_store [OF assms store_ok_ops(8) [OF ox_invD(1) [OF assms]]])
     (use ox_invD(3-6) [OF assms] store_ok_distinct [OF ox_invD(1) [OF assms]] in
      \<open>auto simp: revoke_user_tokens_def Let_def code_good_def refresh_good_def access_good_def intro!: rows_all_update rows_all_delete\<close>)

lemma inv_gc:
  assumes "ox_inv x"
  shows "ox_inv (x\<lparr>ox_store := fst (gc_expired now (ox_store x))\<rparr>)"
  by (rule ox_inv_store [OF assms store_ok_ops(12) [OF ox_invD(1) [OF assms]]])
     (use ox_invD(3-6) [OF assms] store_ok_distinct [OF ox_invD(1) [OF assms]] in
      \<open>auto simp: gc_expired_def Let_def intro!: rows_all_delete\<close>)

lemma inv_revoke:
  assumes "ox_inv x"
  shows "ox_inv (x\<lparr>ox_store := revoke_token p now (ox_store x) t\<rparr>)"
proof (cases t)
  case (PresentedAccess a)
  have "rows_all (access_good (ox_approved x)) (oa_access (fst (revoke_access (op_sha p) (ox_store x) (to_token a))))"
    using ox_invD(6) [OF assms] by (auto simp: revoke_access_def access_good_def rows_all_def split: option.splits)
  with ox_inv_store [OF assms store_ok_ops(7) [OF ox_invD(1) [OF assms], of "op_sha p" "to_token a"]] ox_invD(3-6) [OF assms]
  show ?thesis by (auto simp: PresentedAccess revoke_token_def revoke_access_def split: option.splits if_splits)
next
  case (PresentedRefresh r)
  have "rows_all (refresh_good (ox_approved x) (ox_issued x) (set (ox_rotated x)))
      (oa_refresh (fst (consume_refresh (op_sha p) now (ox_store x) (to_token r) None)))"
    using ox_invD(5) [OF assms] by (auto simp: consume_refresh_def refresh_good_def rows_all_def split: option.splits)
  with ox_inv_store [OF assms store_ok_ops(5) [OF ox_invD(1) [OF assms], of "op_sha p" now "to_token r" None]] ox_invD(3-6) [OF assms]
  show ?thesis by (auto simp: PresentedRefresh revoke_token_def consume_refresh_def Let_def split: option.splits if_splits)
qed

lemma inv_delete:
  assumes "ox_inv x"
  shows "ox_inv (x\<lparr>ox_store := delete_pending_authorization (ox_store x) pid\<rparr>)"
proof (rule inv_pending [OF assms store_ok_ops(11) [OF ox_invD(1) [OF assms]]])
  show "delete_pending_authorization (ox_store x) pid = (ox_store x)\<lparr>oa_pending := dpop (oa_pending (ox_store x)) pid\<rparr>"
    by (simp add: delete_pending_authorization_def)
  show "rows_all (\<lambda>k. pending_good (ox_approved x)) (dpop (oa_pending (ox_store x)) pid)"
    by (rule rows_all_dpop [OF ox_invD(3) [OF assms]])
qed

lemma inv_poll:
  assumes "ox_inv x" "load_pending_authorization now (ox_store x) pid = Some row" "pn_verified row"
  shows "ox_inv (x\<lparr>ox_polled := insert row (ox_polled x)\<rparr>)"
proof -
  have "dget (oa_pending (ox_store x)) pid = Some row"
    using assms(2) by (auto simp: load_pending_authorization_def split: option.splits if_splits)
  with rows_allD [OF ox_invD(3) [OF assms(1)]] assms(1,3) show ?thesis by (auto simp: ox_inv_def)
qed

lemma inv_load_code:
  assumes "ox_inv x" "load_authorization_code p now (ox_store x) cid code = Inr (Some c)"
  shows "ox_inv (x\<lparr>ox_codes := insert c (ox_codes x)\<rparr>)"
proof -
  obtain r where r: "dget (oa_codes (ox_store x)) (op_sha p code) = Some r"
    "code_grant c = code_row_grant (the (cc_client_id (cd_claims r))) (cd_claims r)"
    using assms(2) by (auto simp: load_authorization_code_def peek_auth_code_def peek_code_def ebind_Inr code_grant_def code_row_grant_def
        split: option.splits if_splits)
  have "code_grant c \<in> ox_approved x" using rows_allD [OF ox_invD(4) [OF assms(1)] r(1)] r(2) by (auto simp: code_good_def)
  with assms(1) show ?thesis by (simp add: ox_inv_def)
qed

lemma inv_load_refresh:
  assumes "ox_inv x" "load_refresh_token p now (ox_store x) cid tok = Some t"
  shows "ox_inv (x\<lparr>ox_tokens := insert t (ox_tokens x)\<rparr>)"
proof -
  obtain r where "dget (oa_refresh (ox_store x)) (op_sha p tok) = Some r" "token_grant t = claims_grant (rf_claims r)"
    using assms(2) by (auto simp: load_refresh_token_def peek_refresh_def token_object_of_def token_grant_def claims_grant_def
        split: option.splits if_splits)
  with rows_allD [OF ox_invD(5) [OF assms(1)]] assms(1) show ?thesis by (auto simp: ox_inv_def refresh_good_def)
qed

lemmas ox_inv_moves = inv_register inv_authorize inv_verify inv_delete inv_poll inv_mint inv_load_code inv_redeem inv_load_refresh
  inv_rotate inv_issue_access inv_issue_refresh inv_revoke_user inv_revoke inv_gc

interpretation ox: step_system ox_init "ox_step p" ox_inv for p
proof unfold_locales
  fix s assume "ox_init s" then show "ox_inv s" by (rule ox_inv_init)
next
  fix s t assume inv: "ox_inv s" and step: "ox_step p s t"
  from step show "ox_inv t" by cases (auto intro: ox_inv_moves [OF inv])
qed


section \<open>The methods are runs\<close>

lemma ox_refl: "(ox_step p)\<^sup>*\<^sup>* x x"
  by simp

lemma verify_is_run:
  assumes "oauth_verify p km now now_m (ox_store x) body ctx = (s, r)" "store_ok (ox_store x)"
  shows "\<exists>G. (ox_step p)\<^sup>*\<^sup>* x (x\<lparr>ox_store := s, ox_approved := G\<rparr>)
    \<and> (\<forall>g \<in> G - ox_approved x. \<exists>cid fp. g = (cid, rc_account_id ctx, rc_user_id ctx, rc_role ctx, fp)
         \<and> \<not> rc_from_oauth ctx \<and> fingerprint_of km (rc_account_id ctx) (rc_user_id ctx) = Some fp)"
proof (cases "s = ox_store x")
  case True
  then show ?thesis by (intro exI [of _ "ox_approved x"]) simp
next
  case False
  from False assms(1) obtain row where row: "\<not> rc_from_oauth ctx" "find_pending now (ox_store x) body = Inr row"
    and alt: "s = delete_pending_authorization (ox_store x) (pn_pending_id row)
      \<or> (\<exists>fp ok. fingerprint_of km (rc_account_id ctx) (rc_user_id ctx) = Some fp \<and> fp \<noteq> []
          \<and> mark_pending_verified now_m (ox_store x) (pn_pending_id row) (rc_account_id ctx) (rc_user_id ctx) (rc_role ctx) fp = (s, ok))"
    by (auto simp: oauth_verify_def Let_def nonempty_def split: if_splits sum.splits option.splits prod.splits bool.splits)
  from alt show ?thesis
  proof
    assume "s = delete_pending_authorization (ox_store x) (pn_pending_id row)"
    then have "ox_step p x (x\<lparr>ox_store := s\<rparr>)" using ox_delete by simp
    then show ?thesis by (intro exI [of _ "ox_approved x"]) auto
  next
    assume "\<exists>fp ok. fingerprint_of km (rc_account_id ctx) (rc_user_id ctx) = Some fp \<and> fp \<noteq> []
          \<and> mark_pending_verified now_m (ox_store x) (pn_pending_id row) (rc_account_id ctx) (rc_user_id ctx) (rc_role ctx) fp = (s, ok)"
    then obtain fp ok where fp: "fingerprint_of km (rc_account_id ctx) (rc_user_id ctx) = Some fp" "fp \<noteq> []"
      and mk: "mark_pending_verified now_m (ox_store x) (pn_pending_id row) (rc_account_id ctx) (rc_user_id ctx) (rc_role ctx) fp = (s, ok)"
      by blast
    from mk False obtain pr where pr: "dget (oa_pending (ox_store x)) (pn_pending_id row) = Some pr" "ok"
      by (auto simp: mark_pending_verified_def split: option.splits if_splits)
    let ?G = "insert (pn_client_id pr, rc_account_id ctx, rc_user_id ctx, rc_role ctx, fp) (ox_approved x)"
    have "ox_step p x (x\<lparr>ox_store := s, ox_approved := ?G\<rparr>)" using ox_verify mk pr fp by simp
    then show ?thesis using row(1) fp by (intro exI [of _ ?G]) auto
  qed
qed

lemma issue_is_run:
  assumes "(cid, a, u, r, fp_text fpo) \<in> ox_grants x"
    and "issue_token_pair p now_a now_r ra rr (ox_store x) cid a u r scope res fpo ov = (s, Inr tok)"
    and "op_sha p (ot_access_token tok) \<notin> ox_issued x" "op_sha p (ot_refresh_token tok) \<notin> ox_issued x"
    and "op_sha p (ot_access_token tok) \<noteq> op_sha p (ot_refresh_token tok)"
  shows "(ox_step p)\<^sup>*\<^sup>* x (x\<lparr>ox_store := s,
    ox_issued := insert (op_sha p (ot_refresh_token tok)) (insert (op_sha p (ot_access_token tok)) (ox_issued x))\<rparr>)"
proof -
  let ?a = "ot_access_token tok" and ?f = "ot_refresh_token tok"
  obtain s1 e1 e2 where s1: "insert_access (op_sha p) now_a (ox_store x) ?a cid a u r scope res (fp_text fpo) (op_access_ttl p) = (s1, Inr e1)"
    and s2: "insert_refresh (op_sha p) now_r s1 ?f cid a u r scope res (fp_text fpo) (op_refresh_ttl p) = (s, Inr e2)"
    using assms(2) by (auto simp: issue_token_pair_def Let_def fp_text_def split: prod.splits sum.splits)
  let ?y = "x\<lparr>ox_store := s1, ox_issued := insert (op_sha p ?a) (ox_issued x)\<rparr>"
  have "ox_step p x ?y" by (rule ox_issue_access [OF assms(1,3) s1])
  moreover have "ox_step p ?y (?y\<lparr>ox_store := s, ox_issued := insert (op_sha p ?f) (ox_issued ?y)\<rparr>)"
    by (rule ox_issue_refresh [OF _ _ , of cid a u r "fp_text fpo" ?y p ?f now_r scope res "op_refresh_ttl p" s e2])
       (use assms s2 in auto)
  ultimately show ?thesis by (simp add: r_into_rtranclp converse_rtranclp_into_rtranclp)
qed

definition fresh_token :: "oauth_provider \<Rightarrow> oauth_run \<Rightarrow> string \<Rightarrow> string \<Rightarrow> bool" where
  "fresh_token p x ra rr \<longleftrightarrow> op_sha p (mint_access ra) \<notin> ox_issued x \<and> op_sha p (mint_refresh rr) \<notin> ox_issued x
     \<and> op_sha p (mint_access ra) \<noteq> op_sha p (mint_refresh rr)"

lemma issued_tokens:
  assumes "issue_token_pair p now_a now_r ra rr s cid a u r scope res fpo ov = (s', Inr tok)" "ov = None \<or> ov = Some (mint_refresh rr)"
  shows "ot_access_token tok = mint_access ra" "ot_refresh_token tok = mint_refresh rr"
  using assms by (auto simp: issue_token_pair_def Let_def mint_refresh_def REFRESH_TOKEN_PREFIX_def split: prod.splits sum.splits)

lemma exchange_code_is_run:
  assumes "c \<in> ox_codes x" "fresh_token p x ra rr"
    and "exchange_authorization_code p now now_a now_r ra rr (ox_store x) c = (s, Inr tok)"
  shows "\<exists>I. (ox_step p)\<^sup>*\<^sup>* x (x\<lparr>ox_grants := insert (code_grant c) (ox_grants x),
      ox_redeemed := ox_redeemed x @ [op_sha p (ao_code c)], ox_store := s, ox_issued := I\<rparr>)"
proof -
  obtain s1 claims where s1: "consume_auth_code (op_sha p) now (ox_store x) (ao_code c) = (s1, Some claims)"
    and iss: "issue_token_pair p now_a now_r ra rr s1 (ao_client_id c) (ao_account_id c) (ao_user_id c)
          (ao_role c) (scope_text (ao_scopes c)) (ao_resource c) (ao_authorizing_key_fp c) None = (s, Inr tok)"
    using assms(3) by (auto simp: exchange_authorization_code_def split: prod.splits option.splits)
  let ?y = "x\<lparr>ox_store := s1, ox_grants := insert (code_grant c) (ox_grants x), ox_redeemed := ox_redeemed x @ [op_sha p (ao_code c)]\<rparr>"
  have 1: "ox_step p x ?y" by (rule ox_redeem [OF assms(1) s1])
  have 2: "(ox_step p)\<^sup>*\<^sup>* ?y (?y\<lparr>ox_store := s,
      ox_issued := insert (op_sha p (ot_refresh_token tok)) (insert (op_sha p (ot_access_token tok)) (ox_issued ?y))\<rparr>)"
    by (rule issue_is_run) (use iss assms(2) issued_tokens [OF iss] in \<open>auto simp: fresh_token_def code_grant_def\<close>)
  show ?thesis using converse_rtranclp_into_rtranclp [of "ox_step p", OF 1 2] by auto
qed

lemma exchange_refresh_is_run:
  assumes "t \<in> ox_tokens x" "fresh_token p x ra rr"
    and "exchange_refresh_token p now now_a now_r ra rr (ox_store x) t scopes = (s, Inr tok)"
  shows "\<exists>I. (ox_step p)\<^sup>*\<^sup>* x (x\<lparr>ox_grants := insert (token_grant t) (ox_grants x),
      ox_rotated := ox_rotated x @ [op_sha p (to_token t)], ox_store := s, ox_issued := I\<rparr>)"
proof -
  obtain s1 claims scope where s1: "consume_refresh (op_sha p) now (ox_store x) (to_token t) (Some (mint_refresh rr)) = (s1, Some claims)"
    and iss: "issue_token_pair p now_a now_r ra rr s1 (to_client_id t) (to_account_id t) (to_user_id t) (to_role t) scope
                 (to_resource t) (to_authorizing_key_fp t) (Some (mint_refresh rr)) = (s, Inr tok)"
    using assms(3) by (auto simp: exchange_refresh_token_def Let_def split: prod.splits option.splits if_splits)
  let ?y = "x\<lparr>ox_store := s1, ox_grants := insert (token_grant t) (ox_grants x), ox_rotated := ox_rotated x @ [op_sha p (to_token t)]\<rparr>"
  have 1: "ox_step p x ?y" by (rule ox_rotate [OF assms(1) s1])
  have 2: "(ox_step p)\<^sup>*\<^sup>* ?y (?y\<lparr>ox_store := s,
      ox_issued := insert (op_sha p (ot_refresh_token tok)) (insert (op_sha p (ot_access_token tok)) (ox_issued ?y))\<rparr>)"
    by (rule issue_is_run) (use iss assms(2) issued_tokens [OF iss] in \<open>auto simp: fresh_token_def token_grant_def\<close>)
  show ?thesis using converse_rtranclp_into_rtranclp [of "ox_step p", OF 1 2] by auto
qed

lemma status_is_run:
  assumes "authorize_page_status p now now_c rc (ox_store x) pending = (s, resp)"
    and "op_sha p (mint_authorization_code rc) \<notin> ox_issued x"
  shows "\<exists>P I. I \<subseteq> insert (op_sha p (mint_authorization_code rc)) (ox_issued x)
    \<and> (ox_step p)\<^sup>*\<^sup>* x (x\<lparr>ox_store := s, ox_polled := P, ox_issued := I\<rparr>)"
proof (cases "s = ox_store x")
  case True
  then show ?thesis by (intro exI [of _ "ox_polled x"] exI [of _ "ox_issued x"]) auto
next
  case False
  let ?code = "mint_authorization_code rc"
  have mint_fail: "s' = ox_store x" if "mint_from_pending p now_c ?code (ox_store x) row = (s', Inl e)" for s' e row
    using that by (auto simp: mint_from_pending_def insert_auth_code_def Let_def split: option.splits sum.splits)
  from False assms(1) mint_fail obtain row s1 e where row: "load_pending_authorization now (ox_store x) pending = Some row" "pn_verified row"
    and mint: "mint_from_pending p now_c ?code (ox_store x) row = (s1, Inr e)" and s: "s = delete_pending_authorization s1 pending"
    by (auto simp: authorize_page_status_def Let_def split: if_splits option.splits prod.splits sum.splits)
  let ?x1 = "x\<lparr>ox_polled := insert row (ox_polled x)\<rparr>"
  let ?x2 = "?x1\<lparr>ox_store := s1, ox_issued := insert (op_sha p ?code) (ox_issued ?x1)\<rparr>"
  have 1: "ox_step p x ?x1" by (rule ox_poll [OF row])
  have 2: "ox_step p ?x1 ?x2" by (rule ox_mint) (use mint assms(2) in auto)
  have 3: "ox_step p ?x2 (?x2\<lparr>ox_store := delete_pending_authorization (ox_store ?x2) pending\<rparr>)" by (rule ox_delete)
  have "(ox_step p)\<^sup>*\<^sup>* x (?x2\<lparr>ox_store := delete_pending_authorization (ox_store ?x2) pending\<rparr>)"
    using 1 2 3 by (meson converse_rtranclp_into_rtranclp r_into_rtranclp)
  moreover have "?x2\<lparr>ox_store := delete_pending_authorization (ox_store ?x2) pending\<rparr>
      = x\<lparr>ox_store := s, ox_polled := insert row (ox_polled x), ox_issued := insert (op_sha p ?code) (ox_issued x)\<rparr>"
    by (rule oauth_run.equality) (simp_all add: s)
  ultimately show ?thesis by (intro exI [of _ "insert row (ox_polled x)"] exI [of _ "insert (op_sha p ?code) (ox_issued x)"]) auto
qed

section \<open>Results\<close>

text \<open>Property C1. Every access token that is accepted can be traced to a consent: in every reachable
  state, however the methods interleave, a bearer token that resolves to an identity belongs to
  a client that this very user approved with the same role, while holding an API key whose
  fingerprint is still the user's current one; the role is not above the user's current role.\<close>

theorem bearer_identity_was_approved:
  assumes "reach ox_init (ox_step p) x"
    and "try_resolve_oauth_token (Some p) (Some m) now (ox_store x) key = Inr (Some i)"
  shows "ri_from_oauth i \<and> (\<exists>cid a u fp. ri_account_id i = Some a \<and> ri_user_id i = Some u
    \<and> (cid, a, u, ri_role i, fp) \<in> ox_approved x \<and> fp \<noteq> [] \<and> fingerprint_of (Some m) a u = Some fp
    \<and> (\<forall>f. km_role m = Some f \<longrightarrow> (\<exists>current. f a u = Inr current \<and> Role_rank (op_ranks p) (ri_role i) \<le> Role_rank (op_ranks p) current)))"
proof -
  from assms(2) obtain t where t: "load_access_token p now (ox_store x) key = Some t" and c: "check_token p (Some m) t = Inr i"
    by (auto simp: try_resolve_oauth_token_def split: if_splits option.splits)
  obtain r where r: "dget (oa_access (ox_store x)) (op_sha p key) = Some r" "token_grant t = claims_grant (ac_claims r)"
    using t by (auto simp: load_access_token_def load_access_def token_object_of_def token_grant_def claims_grant_def
        split: if_splits option.splits)
  have inv: "ox_inv x" by (rule ox.reach_inv [OF assms(1)])
  have g: "token_grant t \<in> ox_approved x" using rows_allD [OF ox_invD(6) [OF inv] r(1)] r(2) by (simp add: access_good_def)
  from c obtain fp where fp: "to_authorizing_key_fp t = Some fp" "fp \<noteq> []"
    "fingerprint_of (Some m) (to_account_id t) (to_user_id t) = Some fp"
    and i: "ri_from_oauth i" "ri_account_id i = Some (to_account_id t)" "ri_user_id i = Some (to_user_id t)" "ri_role i = to_role t"
    and role: "\<forall>f. km_role m = Some f \<longrightarrow> (\<exists>current. f (to_account_id t) (to_user_id t) = Inr current
      \<and> Role_rank (op_ranks p) (to_role t) \<le> Role_rank (op_ranks p) current)"
    by (auto simp: check_token_def nonempty_def compare_digest_def ebind_Inr Let_def not_less
        split: option.splits if_splits sum.splits)
  from g fp(1) have "(to_client_id t, to_account_id t, to_user_id t, to_role t, fp) \<in> ox_approved x"
    by (simp add: token_grant_def fp_text_def)
  with fp i role show ?thesis by metis
qed

text \<open>Property C7. In every run each authorization code and each refresh token is redeemed at most
  once, also across garbage collection, revocation and concurrent exchanges.\<close>

theorem no_secret_redeemed_twice:
  assumes "reach ox_init (ox_step p) x"
  shows "distinct (ox_redeemed x) \<and> distinct (ox_rotated x)"
  using ox_invD(13,14) [OF ox.reach_inv [OF assms]] by simp


section \<open>Limits of revocation\<close>

lemma issue_succeeds:
  assumes "dget (oa_access s) (op_sha p (mint_access ra)) = None" "dget (oa_refresh s) (op_sha p (mint_refresh rr)) = None"
  shows "\<exists>tok. issue_token_pair p now_a now_r ra rr s cid a u r scope res fpo None =
      (s\<lparr>oa_access := oa_access s @ [(op_sha p (mint_access ra),
            \<lparr>ac_claims = new_claims now_a cid a u r scope res (fp_text fpo) (op_access_ttl p), ac_revoked = False\<rparr>)],
         oa_refresh := oa_refresh s @ [(op_sha p (mint_refresh rr),
            \<lparr>rf_claims = new_claims now_r cid a u r scope res (fp_text fpo) (op_refresh_ttl p), rf_consumed = False, rf_replaced_by = None\<rparr>)]\<rparr>,
       Inr tok) \<and> ot_access_token tok = mint_access ra \<and> ot_refresh_token tok = mint_refresh rr"
  using assms by (simp add: issue_token_pair_def insert_access_def insert_refresh_def sql_insert_def fp_text_def Let_def)

text \<open>Property. An exchange in progress survives the revocation of its user: when a code was consumed, then
  every token of the user was revoked, and only then the exchange stores its new pair, the
  new tokens are live although they stem from a grant made before the revocation.\<close>

theorem late_issue_survives_revocation:
  assumes "consume_auth_code (op_sha p) now s (ao_code c) = (s1, Some claims)"
    and "dget (oa_access s) (op_sha p (mint_access ra)) = None" "dget (oa_refresh s) (op_sha p (mint_refresh rr)) = None"
    and "op_access_ttl p > 0" "op_refresh_ttl p > 0"
  shows "let s2 = fst (revoke_user_tokens s1 (ao_account_id c) (ao_user_id c));
             s3 = fst (issue_token_pair p now now ra rr s2 (ao_client_id c) (ao_account_id c) (ao_user_id c) (ao_role c)
                    (scope_text (ao_scopes c)) (ao_resource c) (ao_authorizing_key_fp c) None)
         in \<exists>t. load_access_token p now s3 (mint_access ra) = Some t \<and> to_account_id t = ao_account_id c \<and> to_user_id t = ao_user_id c
            \<and> load_refresh_token p now s3 (Some (ao_client_id c)) (mint_refresh rr) \<noteq> None"
proof -
  let ?s2 = "fst (revoke_user_tokens s1 (ao_account_id c) (ao_user_id c))"
  have s1: "oa_access s1 = oa_access s" "oa_refresh s1 = oa_refresh s"
    using assms(1) by (auto simp: consume_auth_code_def atomic_consume_code_def split: option.splits if_splits)
  have 2: "dget (oa_access ?s2) (op_sha p (mint_access ra)) = None" "dget (oa_refresh ?s2) (op_sha p (mint_refresh rr)) = None"
    using assms(2,3) by (simp_all add: revoke_user_tokens_def Let_def dget_sql_update s1)
  from issue_succeeds [OF 2, of now now "ao_client_id c" "ao_account_id c" "ao_user_id c" "ao_role c"
      "scope_text (ao_scopes c)" "ao_resource c" "ao_authorizing_key_fp c"] assms(4,5) 2
  show ?thesis
    by (auto simp: Let_def load_access_token_def load_access_def load_refresh_token_def peek_refresh_def refresh_live_def dget_append
        mint_access_def startswith_def token_object_of_def new_claims_def)
qed

text \<open>Property. A used refresh token is not recognised when it is presented again later: after a
  successful rotation \<open>load_refresh_token\<close> finds nothing, for any client and at any time, so the
  exchange that would revoke the token family is never started, and the new tokens stay live.\<close>

theorem later_replay_is_not_detected:
  assumes "exchange_refresh_token p now now_a now_r ra rr s t scopes = (s', Inr tok)"
    and "op_sha p (mint_refresh rr) \<noteq> op_sha p (to_token t)"
  shows "load_refresh_token p later s' cid (to_token t) = None \<and> is_refresh_known_but_consumed (op_sha p) s' (to_token t)"
proof -
  obtain s1 claims scope where s1: "consume_refresh (op_sha p) now s (to_token t) (Some (mint_refresh rr)) = (s1, Some claims)"
    and iss: "issue_token_pair p now_a now_r ra rr s1 (to_client_id t) (to_account_id t) (to_user_id t) (to_role t) scope
                 (to_resource t) (to_authorizing_key_fp t) (Some (mint_refresh rr)) = (s', Inr tok)"
    using assms(1) by (auto simp: exchange_refresh_token_def Let_def split: prod.splits option.splits if_splits)
  have "\<exists>r. dget (oa_refresh s1) (op_sha p (to_token t)) = Some r \<and> rf_consumed r"
    using s1 by (auto simp: consume_refresh_def Let_def split: option.splits if_splits)
  moreover have "dget (oa_refresh s') (op_sha p (to_token t)) = dget (oa_refresh s1) (op_sha p (to_token t))"
    using iss assms(2)
    by (auto simp: issue_token_pair_def Let_def insert_access_def insert_refresh_def sql_insert_def dget_append mint_refresh_def
        REFRESH_TOKEN_PREFIX_def split: prod.splits sum.splits if_splits option.splits)
  ultimately show ?thesis
    by (auto simp: load_refresh_token_def peek_refresh_def refresh_live_def is_refresh_known_but_consumed_def)
qed

section \<open>A complete authorization\<close>

definition demo_p :: oauth_provider where
  "demo_p = \<lparr>op_sha = (\<lambda>s. s), op_any_url = Inr, op_ranks = [], op_issuer = ''https://ov'', op_access_ttl = 3600,
     op_refresh_ttl = 7200, op_code_ttl = 300, op_authorize_page = ''/studio/oauth/consent'', op_role_resolver = None\<rparr>"

definition demo_km :: key_manager where
  "demo_km = \<lparr>km_resolve = (\<lambda>k. Inl UnauthenticatedError),
     km_fingerprint = Some (\<lambda>a u. if a = ''acme'' \<and> u = ''alice'' then Some ''f1'' else None),
     km_role = Some (\<lambda>a u. Inr ''user'')\<rparr>"

definition demo_ctx :: request_context where
  "demo_ctx = \<lparr>rc_user = \<lparr>ui_account_id = ''acme'', ui_user_id = ''alice''\<rparr>, rc_role = ''user'', rc_group_ids = [],
     rc_actor_peer_id = None, rc_from_oauth = False, rc_api_key = None, rc_bypass_acl = False\<rparr>"

definition demo_params :: authorization_params where
  "demo_params = \<lparr>ap_redirect_uri = ''https://app/cb'', ap_redirect_uri_provided_explicitly = True, ap_code_challenge = ''ch'',
     ap_scopes = Some [''mcp''], ap_resource = None, ap_state = None\<rparr>"

definition demo_body :: verify_request where
  "demo_body = \<lparr>vr_code = None, vr_pending_id = Some ''p1'', vr_decision = ''approve''\<rparr>"

definition demo1 :: oauth_store where
  "demo1 = fst (authorize demo_p 100 ''p1'' ''AB2CD3'' empty_store ''c1'' demo_params)"

definition demo2 :: oauth_store where
  "demo2 = fst (oauth_verify demo_p (Some demo_km) 110 110 demo1 demo_body demo_ctx)"

definition demo3 :: oauth_store where
  "demo3 = fst (authorize_page_status demo_p 120 120 ''x'' demo2 ''p1'')"

definition demo_code :: authorization_code where
  "demo_code = \<lparr>ao_code = ''ovac_x'', ao_scopes = [''mcp''], ao_expires_at = 420, ao_client_id = ''c1'', ao_code_challenge = ''ch'',
     ao_redirect_uri = ''https://app/cb'', ao_resource = None, ao_account_id = ''acme'', ao_user_id = ''alice'', ao_role = ''user'',
     ao_authorizing_key_fp = Some ''f1''\<rparr>"

definition demo4 :: oauth_store where
  "demo4 = fst (exchange_authorization_code demo_p 130 130 130 ''y'' ''z'' demo3 demo_code)"

lemma demo_evaluates:
  "load_authorization_code demo_p 130 demo3 (Some ''c1'') ''ovac_x'' = Inr (Some demo_code)"
  "\<exists>tok. exchange_authorization_code demo_p 130 130 130 ''y'' ''z'' demo3 demo_code = (demo4, Inr tok)"
  "\<exists>i. try_resolve_oauth_token (Some demo_p) (Some demo_km) 200 demo4 ''ovat_y'' = Inr (Some i)"
proof -
  show "load_authorization_code demo_p 130 demo3 (Some ''c1'') ''ovac_x'' = Inr (Some demo_code)" by code_simp
  have "snd (exchange_authorization_code demo_p 130 130 130 ''y'' ''z'' demo3 demo_code) =
    Inr \<lparr>ot_access_token = ''ovat_y'', ot_token_type = ''Bearer'', ot_expires_in = 3600, ot_scope = Some ''mcp'', ot_refresh_token = ''ovrt_z''\<rparr>"
    by code_simp
  then show "\<exists>tok. exchange_authorization_code demo_p 130 130 130 ''y'' ''z'' demo3 demo_code = (demo4, Inr tok)"
    by (metis demo4_def prod.collapse)
  have "try_resolve_oauth_token (Some demo_p) (Some demo_km) 200 demo4 ''ovat_y'' =
    Inr (Some \<lparr>ri_role = ''user'', ri_account_id = Some ''acme'', ri_user_id = Some ''alice'', ri_from_oauth = True\<rparr>)" by code_simp
  then show "\<exists>i. try_resolve_oauth_token (Some demo_p) (Some demo_km) 200 demo4 ''ovat_y'' = Inr (Some i)" by blast
qed

lemma demo_reach3:
  "\<exists>x. reach ox_init (ox_step demo_p) x \<and> ox_store x = demo3 \<and> ox_issued x \<subseteq> {''ovac_x''} \<and> demo_code \<in> ox_codes x"
proof -
  define x0 :: oauth_run where "x0 = \<lparr>ox_store = empty_store, ox_approved = {}, ox_polled = {}, ox_codes = {}, ox_tokens = {},
    ox_grants = {}, ox_issued = {}, ox_redeemed = [], ox_rotated = []\<rparr>"
  let ?x1 = "x0\<lparr>ox_store := demo1\<rparr>"
  have "reach ox_init (ox_step demo_p) x0" by (rule reach_init) (simp add: ox_init_def x0_def)
  moreover have "ox_step demo_p x0 ?x1"
    unfolding demo1_def using ox_authorize [of demo_p x0 100 "''p1''" "''AB2CD3''" "''c1''" demo_params] by (simp add: x0_def)
  ultimately have 1: "reach ox_init (ox_step demo_p) ?x1" by (rule reach_step)
  have "oauth_verify demo_p (Some demo_km) 110 110 (ox_store ?x1) demo_body demo_ctx
      = (demo2, snd (oauth_verify demo_p (Some demo_km) 110 110 demo1 demo_body demo_ctx))"
    by (simp add: demo2_def)
  from verify_is_run [OF this] obtain G where 2: "(ox_step demo_p)\<^sup>*\<^sup>* ?x1 (?x1\<lparr>ox_store := demo2, ox_approved := G\<rparr>)"
    using ox_invD(1) [OF ox.reach_inv [OF 1]] by blast
  let ?x2 = "?x1\<lparr>ox_store := demo2, ox_approved := G\<rparr>"
  have "authorize_page_status demo_p 120 120 ''x'' (ox_store ?x2) ''p1''
      = (demo3, snd (authorize_page_status demo_p 120 120 ''x'' demo2 ''p1''))"
    by (simp add: demo3_def)
  from status_is_run [OF this] obtain P I where 3: "I \<subseteq> {''ovac_x''}"
    "(ox_step demo_p)\<^sup>*\<^sup>* ?x2 (?x2\<lparr>ox_store := demo3, ox_polled := P, ox_issued := I\<rparr>)"
    by (auto simp: x0_def demo_p_def mint_authorization_code_def AUTH_CODE_PREFIX_def)
  let ?x3 = "?x2\<lparr>ox_store := demo3, ox_polled := P, ox_issued := I\<rparr>"
  have r3: "reach ox_init (ox_step demo_p) ?x3"
    by (rule ox.reach_steps [OF ox.reach_steps [OF 1 2] 3(2)])
  have "ox_step demo_p ?x3 (?x3\<lparr>ox_codes := insert demo_code (ox_codes ?x3)\<rparr>)"
    by (rule ox_load_code [of demo_p 130 ?x3 "Some ''c1''" "''ovac_x''"]) (simp add: demo_evaluates(1))
  from reach_step [OF r3 this] show ?thesis using 3(1) by fastforce
qed

lemma demo_reach4:
  "\<exists>x. reach ox_init (ox_step demo_p) x \<and> ox_store x = demo4 \<and> ox_redeemed x \<noteq> []"
proof -
  obtain x where x: "reach ox_init (ox_step demo_p) x" "ox_store x = demo3" "ox_issued x \<subseteq> {''ovac_x''}" "demo_code \<in> ox_codes x"
    using demo_reach3 by blast
  obtain tok where tok: "exchange_authorization_code demo_p 130 130 130 ''y'' ''z'' (ox_store x) demo_code = (demo4, Inr tok)"
    using demo_evaluates(2) x(2) by auto
  have "fresh_token demo_p x ''y'' ''z''"
    using x(3) by (auto simp: fresh_token_def demo_p_def mint_access_def mint_refresh_def ACCESS_TOKEN_PREFIX_def REFRESH_TOKEN_PREFIX_def)
  from exchange_code_is_run [OF x(4) this tok] obtain I where
    "(ox_step demo_p)\<^sup>*\<^sup>* x (x\<lparr>ox_grants := insert (code_grant demo_code) (ox_grants x),
       ox_redeemed := ox_redeemed x @ [op_sha demo_p (ao_code demo_code)], ox_store := demo4, ox_issued := I\<rparr>)" by blast
  from ox.reach_steps [OF x(1) this] show ?thesis by fastforce
qed

theorem bearer_identity_was_approved_witness:
  "\<exists>x i cid. reach ox_init (ox_step demo_p) x
     \<and> try_resolve_oauth_token (Some demo_p) (Some demo_km) 200 (ox_store x) ''ovat_y'' = Inr (Some i)
     \<and> (cid, ''acme'', ''alice'', ri_role i, ''f1'') \<in> ox_approved x"
proof -
  obtain x where x: "reach ox_init (ox_step demo_p) x" "ox_store x = demo4" using demo_reach4 by blast
  obtain i where i: "try_resolve_oauth_token (Some demo_p) (Some demo_km) 200 (ox_store x) ''ovat_y'' = Inr (Some i)"
    using demo_evaluates(3) x(2) by auto
  from bearer_identity_was_approved [OF x(1) i] obtain cid a u fp where
    "(cid, a, u, ri_role i, fp) \<in> ox_approved x" "fingerprint_of (Some demo_km) a u = Some fp" by blast
  moreover from this(2) have "a = ''acme'' \<and> u = ''alice'' \<and> fp = ''f1''" by (simp add: fingerprint_of_def demo_km_def split: if_splits)
  ultimately show ?thesis using x(1) i by blast
qed

theorem no_secret_redeemed_twice_witness:
  "\<exists>x. reach ox_init (ox_step demo_p) x \<and> ox_redeemed x \<noteq> [] \<and> distinct (ox_redeemed x)"
  using demo_reach4 no_secret_redeemed_twice [of demo_p] by blast

definition demo_refresh :: token_object where
  "demo_refresh = \<lparr>to_token = ''ovrt_z'', to_client_id = ''c1'', to_scopes = [''mcp''], to_expires_at = 7330, to_account_id = ''acme'',
     to_user_id = ''alice'', to_role = ''user'', to_resource = None, to_authorizing_key_fp = Some ''f1''\<rparr>"


theorem late_issue_survives_revocation_witness:
  "let s1 = fst (consume_auth_code (op_sha demo_p) 130 demo3 ''ovac_x'');
       s2 = fst (revoke_user_tokens s1 ''acme'' ''alice'');
       s3 = fst (issue_token_pair demo_p 130 130 ''y'' ''z'' s2 ''c1'' ''acme'' ''alice'' ''user'' (Some ''mcp'') None (Some ''f1'') None)
   in peek_auth_code (op_sha demo_p) 130 demo3 ''ovac_x'' \<noteq> None \<and> load_access_token demo_p 130 s3 ''ovat_y'' \<noteq> None"
proof -
  have peek: "peek_auth_code (op_sha demo_p) 130 demo3 ''ovac_x'' \<noteq> None" by code_simp
  then obtain s1 claims where 1: "consume_auth_code (op_sha demo_p) 130 demo3 (ao_code demo_code) = (s1, Some claims)"
    using auth_code.consume_result [of "op_sha demo_p" 130 demo3 "''ovac_x''"]
    by (cases "consume_auth_code (op_sha demo_p) 130 demo3 ''ovac_x''") (auto simp: demo_code_def)
  have 2: "dget (oa_access demo3) (op_sha demo_p (mint_access ''y'')) = None"
    "dget (oa_refresh demo3) (op_sha demo_p (mint_refresh ''z'')) = None" by code_simp+
  have 3: "op_access_ttl demo_p > 0" "op_refresh_ttl demo_p > 0" by (simp_all add: demo_p_def)
  have st: "scope_text (ao_scopes demo_code) = Some ''mcp''" by code_simp
  from late_issue_survives_revocation [OF 1 2 3] 1 peek st show ?thesis
    by (auto simp: Let_def demo_code_def mint_access_def ACCESS_TOKEN_PREFIX_def)
qed

theorem later_replay_is_not_detected_witness:
  "let s = fst (exchange_refresh_token demo_p 140 140 140 ''y2'' ''z2'' demo4 demo_refresh [])
   in load_refresh_token demo_p 150 s (Some ''c1'') ''ovrt_z'' = None \<and> load_refresh_token demo_p 150 s (Some ''c1'') ''ovrt_z2'' \<noteq> None"
proof -
  obtain s r where e: "exchange_refresh_token demo_p 140 140 140 ''y2'' ''z2'' demo4 demo_refresh [] = (s, r)" by force
  have "snd (exchange_refresh_token demo_p 140 140 140 ''y2'' ''z2'' demo4 demo_refresh []) =
    Inr \<lparr>ot_access_token = ''ovat_y2'', ot_token_type = ''Bearer'', ot_expires_in = 3600, ot_scope = Some ''mcp'', ot_refresh_token = ''ovrt_z2''\<rparr>"
    by code_simp
  then obtain tok where tok: "r = Inr tok" using e by simp
  have new: "load_refresh_token demo_p 150 (fst (exchange_refresh_token demo_p 140 140 140 ''y2'' ''z2'' demo4 demo_refresh [])) (Some ''c1'') ''ovrt_z2'' \<noteq> None"
    by code_simp
  have "op_sha demo_p (mint_refresh ''z2'') \<noteq> op_sha demo_p (to_token demo_refresh)" by code_simp
  moreover have "to_token demo_refresh = ''ovrt_z''" by (simp add: demo_refresh_def)
  ultimately show ?thesis using later_replay_is_not_detected [OF e [unfolded tok], of 150 "Some ''c1''"] new by (simp add: Let_def e)
qed

end
