(* ===== verification/Api_Key_Format.thy ===== *)
theory Api_Key_Format
  imports Identity
begin

text \<open>
  The new format of API keys (\<open>openviking/server/api_keys/new.py\<close>): three segments in URL-safe
  base64 without padding, for account, user and secret, joined by dots.

  Bytes are natural numbers below 256. The decoder is that of \<open>binascii.a2b_base64\<close> in its default
  mode, which skips characters outside the alphabet; the UTF-8 decoder returns text of code
  points below 256 and fails on longer sequences.
\<close>

section \<open>Base64\<close>

definition b64_char :: "nat \<Rightarrow> char" where
  "b64_char n = (if n < 26 then char_of (65 + n) else if n < 52 then char_of (71 + n)
     else if n < 62 then char_of (n - 4) else if n = 62 then CHR ''-'' else CHR ''_'')"

text \<open>\<open>urlsafe_b64decode\<close> accepts both alphabets.\<close>

definition b64_val :: "char \<Rightarrow> nat option" where
  "b64_val c =
     (let n = of_char c :: nat in
      if is_ascii_upper c then Some (n - 65) else if is_ascii_lower c then Some (n - 71)
      else if is_ascii_digit c then Some (n + 4)
      else if c = CHR ''-'' \<or> c = CHR ''+'' then Some 62 else if c = CHR ''_'' \<or> c = CHR ''/'' then Some 63 else None)"

fun b64_encode :: "nat list \<Rightarrow> string" where
  "b64_encode [] = []"
| "b64_encode [a] = [b64_char (a div 4), b64_char (a mod 4 * 16), CHR ''='', CHR ''='']"
| "b64_encode [a, b] = [b64_char (a div 4), b64_char (a mod 4 * 16 + b div 16), b64_char (b mod 16 * 4), CHR ''='']"
| "b64_encode (a # b # c # rest) =
     [b64_char (a div 4), b64_char (a mod 4 * 16 + b div 16), b64_char (b mod 16 * 4 + c div 64), b64_char (c mod 64)] @ b64_encode rest"

text \<open>The state of the decoder: characters of the current group read so far, the bits left over from
  the last one, and the padding characters in a row.\<close>

fun a2b_loop :: "nat \<Rightarrow> nat \<Rightarrow> nat \<Rightarrow> string \<Rightarrow> nat list \<Rightarrow> py_exc + nat list" where
  "a2b_loop quad left pads [] out = (if quad = 0 then Inr out else Inl ValueError)"
| "a2b_loop quad left pads (c # cs) out =
     (if c = CHR ''='' then
        (if quad \<ge> 2 \<and> quad + pads + 1 \<ge> 4 then Inr out
         else a2b_loop quad left (if quad \<ge> 2 then pads + 1 else pads) cs out)
      else case b64_val c of
          None \<Rightarrow> a2b_loop quad left pads cs out
        | Some v \<Rightarrow>
            if quad = 0 then a2b_loop 1 v 0 cs out
            else if quad = 1 then a2b_loop 2 (v mod 16) 0 cs (out @ [left * 4 + v div 16])
            else if quad = 2 then a2b_loop 3 (v mod 4) 0 cs (out @ [left * 16 + v div 4])
            else a2b_loop 0 0 0 cs (out @ [left * 64 + v]))"

definition utf8_encode :: "string \<Rightarrow> nat list" where
  "utf8_encode s = concat (map (\<lambda>c. let n = of_char c in if n < 128 then [n] else [192 + n div 64, 128 + n mod 64]) s)"

fun utf8_decode :: "nat list \<Rightarrow> py_exc + string" where
  "utf8_decode [] = Inr []"
| "utf8_decode (a # rest) =
     (if a < 128 then map_sum id (\<lambda>s. char_of a # s) (utf8_decode rest)
      else case rest of
          b # rest' \<Rightarrow> if (a = 194 \<or> a = 195) \<and> 128 \<le> b \<and> b < 192
                      then map_sum id (\<lambda>s. char_of ((a - 192) * 64 + (b - 128)) # s) (utf8_decode rest') else Inl ValueError
        | [] \<Rightarrow> Inl ValueError)"

section \<open>Keys\<close>

definition encode_segment :: "string \<Rightarrow> string" where
  "encode_segment data = rstrip (\<lambda>c. c = CHR ''='') (b64_encode (utf8_encode data))"

definition decode_segment :: "string \<Rightarrow> py_exc + string" where
  "decode_segment encoded =
     (let padding_needed = 4 - length encoded mod 4;
          padded = (if padding_needed \<noteq> 4 then encoded @ replicate padding_needed CHR ''='' else encoded)
      in ebind (a2b_loop 0 0 0 padded []) utf8_decode)"

definition is_new_format_key :: "string \<Rightarrow> bool" where
  "is_new_format_key api_key \<longleftrightarrow> api_key \<noteq> [] \<and> length (split_on CHR ''.'' api_key) = 3"

definition parse_api_key :: "string \<Rightarrow> py_exc + string \<times> string \<times> string" where
  "parse_api_key api_key =
     (if \<not> is_new_format_key api_key then Inl ValueError
      else let parts = split_on CHR ''.'' api_key in
        ebind (decode_segment (parts ! 0)) (\<lambda>account_id.
        ebind (decode_segment (parts ! 1)) (\<lambda>user_id.
        ebind (decode_segment (parts ! 2)) (\<lambda>secret. Inr (account_id, user_id, secret)))))"

text \<open>\<open>sha\<close> is the hexadecimal SHA-256 digest, \<open>token\<close> the result of \<open>secrets.token_hex(32)\<close>.\<close>

definition derive_seeded_api_key_secret :: "(string \<Rightarrow> string) \<Rightarrow> string \<Rightarrow> string \<Rightarrow> py_exc + string" where
  "derive_seeded_api_key_secret sha user_id seed =
     (if seed = [] then Inl InvalidArgumentError else Inr (sha (user_id @ [CHR 0x00] @ seed)))"

definition new_secret :: "(string \<Rightarrow> string) \<Rightarrow> string \<Rightarrow> string option \<Rightarrow> string \<Rightarrow> py_exc + string" where
  "new_secret sha user_id seed token =
     (case seed of None \<Rightarrow> Inr token | Some x \<Rightarrow> derive_seeded_api_key_secret sha user_id x)"

definition generate_api_key ::
  "(string \<Rightarrow> string) \<Rightarrow> string \<Rightarrow> string \<Rightarrow> string option \<Rightarrow> string \<Rightarrow> py_exc + string" where
  "generate_api_key sha account_id user_id seed token =
     ebind (new_secret sha user_id seed token) (\<lambda>secret.
       Inr (encode_segment account_id @ ''.'' @ encode_segment user_id @ ''.'' @ encode_segment secret))"

section \<open>Segments survive the round trip\<close>

lemma ascii_classes:
  "is_ascii_upper c \<longleftrightarrow> 65 \<le> (of_char c :: nat) \<and> of_char c \<le> (90 :: nat)"
  "is_ascii_lower c \<longleftrightarrow> 97 \<le> (of_char c :: nat) \<and> of_char c \<le> (122 :: nat)"
  "is_ascii_digit c \<longleftrightarrow> 48 \<le> (of_char c :: nat) \<and> of_char c \<le> (57 :: nat)"
  by (simp_all add: is_ascii_upper_def is_ascii_lower_def is_ascii_digit_def less_eq_char_def)

lemma char_by_code: "c = d \<longleftrightarrow> (of_char c :: nat) = of_char d"
  by simp

lemma b64_char_code:
  assumes "n < 64"
  shows "(of_char (b64_char n) :: nat) =
    (if n < 26 then 65 + n else if n < 52 then 71 + n else if n < 62 then n - 4 else if n = 62 then 45 else 95)"
  using assms by (auto simp: b64_char_def)

lemma b64_val_char: "n < 64 \<Longrightarrow> b64_val (b64_char n) = Some n"
  using b64_char_code [of n] by (auto simp: b64_val_def Let_def ascii_classes char_by_code split: if_splits)

lemma b64_char_plain:
  assumes "n < 64"
  shows "b64_char n \<noteq> CHR ''=''" "b64_char n \<noteq> CHR ''.''"
  using b64_char_code [OF assms] by (auto simp: char_by_code split: if_splits)

lemma rstrip_keep:
  assumes "xs \<noteq> []" "\<not> P (last xs)"
  shows "rstrip P (xs @ ys) = xs @ rstrip P ys"
proof -
  obtain zs z where xs: "xs = zs @ [z]" using assms(1) by (metis rev_exhaust)
  have "dropWhile P (rev ys @ z # rev zs) = dropWhile P (rev ys) @ z # rev zs"
    using assms(2) xs by (simp add: dropWhile_append3)
  then show ?thesis by (simp add: rstrip_def xs)
qed

lemma a2b_value:
  assumes "v < 64"
  shows "a2b_loop quad left pads (b64_char v # cs) out =
    (if quad = 0 then a2b_loop 1 v 0 cs out
     else if quad = 1 then a2b_loop 2 (v mod 16) 0 cs (out @ [left * 4 + v div 16])
     else if quad = 2 then a2b_loop 3 (v mod 4) 0 cs (out @ [left * 16 + v div 4])
     else a2b_loop 0 0 0 cs (out @ [left * 64 + v]))"
  using b64_val_char [OF assms] b64_char_plain [OF assms] by simp

declare a2b_loop.simps(2) [simp del]

lemma a2b_pad: "a2b_loop quad left pads (CHR ''='' # cs) out =
    (if quad \<ge> 2 \<and> quad + pads + 1 \<ge> 4 then Inr out else a2b_loop quad left (if quad \<ge> 2 then pads + 1 else pads) cs out)"
  by (simp add: a2b_loop.simps(2))

lemma six_bits:
  assumes "a < 256" "b < 256" "c < (256 :: nat)"
  shows "a div 4 < 64" "a mod 4 * 16 < 64" "a mod 4 * 16 + b div 16 < 64" "b mod 16 * 4 < 64" "b mod 16 * 4 + c div 64 < 64" "c mod 64 < 64"
  using assms by (auto simp: div_less_iff_less_mult)

lemma regroup:
  assumes "a < 256" "b < 256" "c < (256 :: nat)"
  shows "a div 4 * 4 + (a mod 4 * 16 + b div 16) div 16 = a" "(a mod 4 * 16 + b div 16) mod 16 = b div 16"
    "b div 16 * 16 + (b mod 16 * 4 + c div 64) div 4 = b" "(b mod 16 * 4 + c div 64) mod 4 = c div 64" "c div 64 * 64 + c mod 64 = c"
proof -
  have 1: "b div 16 < 16" "c div 64 < 4" using assms by auto
  show "a div 4 * 4 + (a mod 4 * 16 + b div 16) div 16 = a" "(a mod 4 * 16 + b div 16) mod 16 = b div 16" using 1 by simp_all
  have "(b mod 16 * 4 + c div 64) div 4 = b mod 16" "(b mod 16 * 4 + c div 64) mod 4 = c div 64" using 1 by simp_all
  then show "b div 16 * 16 + (b mod 16 * 4 + c div 64) div 4 = b" "(b mod 16 * 4 + c div 64) mod 4 = c div 64" by simp_all
  show "c div 64 * 64 + c mod 64 = c" by simp
qed

lemma a2b_encode: "\<forall>b \<in> set bs. b < 256 \<Longrightarrow> a2b_loop 0 0 0 (b64_encode bs) out = Inr (out @ bs)"
proof (induction bs arbitrary: out rule: b64_encode.induct)
  case (2 a)
  then show ?case using six_bits [of a 0 0] regroup [of a 0 0] by (simp add: a2b_value a2b_pad)
next
  case (3 a b)
  then show ?case using six_bits [of a b 0] regroup [of a b 0] by (simp add: a2b_value a2b_pad)
next
  case (4 a b c rest)
  then have bnd: "a < 256" "b < 256" "c < 256" by simp_all
  have "a2b_loop 0 0 0 (b64_encode (a # b # c # rest)) out = a2b_loop 0 0 0 (b64_encode rest) (out @ [a, b, c])"
    using six_bits [OF bnd] regroup [OF bnd] by (simp add: a2b_value)
  also have "\<dots> = Inr (out @ a # b # c # rest)" using 4 by simp
  finally show ?case .
qed simp

definition repad :: "string \<Rightarrow> string" where
  "repad r = (let n = 4 - length r mod 4 in if n \<noteq> 4 then r @ replicate n CHR ''='' else r)"

lemma repad_append: "length xs = 4 \<Longrightarrow> repad (xs @ ys) = xs @ repad ys"
  by (simp add: repad_def Let_def)

lemma repad_encode: "\<forall>b \<in> set bs. b < 256 \<Longrightarrow> repad (rstrip (\<lambda>c. c = CHR ''='') (b64_encode bs)) = b64_encode bs"
proof (induction bs rule: b64_encode.induct)
  case 1
  then show ?case by (simp add: repad_def rstrip_def)
next
  case (2 a)
  then have n: "b64_char (a mod 4 * 16) \<noteq> CHR ''=''" using six_bits(2) [of a 0 0] b64_char_plain(1) by simp
  then show ?case by (simp add: rstrip_def repad_def numeral_2_eq_2)
next
  case (3 a b)
  then have n: "b64_char (b mod 16 * 4) \<noteq> CHR ''=''" using six_bits(4) [of a b 0] b64_char_plain(1) by simp
  then show ?case by (simp add: rstrip_def repad_def)
next
  case (4 a b c rest)
  let ?q = "[b64_char (a div 4), b64_char (a mod 4 * 16 + b div 16), b64_char (b mod 16 * 4 + c div 64), b64_char (c mod 64)]"
  have "b64_char (c mod 64) \<noteq> CHR ''=''" using b64_char_plain(1) [of "c mod 64"] by simp
  then have "rstrip (\<lambda>c. c = CHR ''='') (?q @ b64_encode rest) = ?q @ rstrip (\<lambda>c. c = CHR ''='') (b64_encode rest)"
    by (intro rstrip_keep) simp_all
  then show ?case using 4 repad_append [of ?q] by simp
qed

lemma utf8_encode_Cons:
  "utf8_encode (c # s) = (let n = of_char c in if n < 128 then [n] else [192 + n div 64, 128 + n mod 64]) @ utf8_encode s"
  by (simp add: utf8_encode_def)

lemma two_bytes: "128 \<le> n \<Longrightarrow> n < 256 \<Longrightarrow> (n div 64 = 2 \<or> n div 64 = 3) \<and> n mod 64 < 64" for n :: nat
  using div_le_mono [of 128 n 64] less_mult_imp_div_less [of n 4 64] by auto

lemma code_below_256: "(of_char c :: nat) < 256" for c :: char
  by simp

lemma utf8_encode_bytes: "b \<in> set (utf8_encode s) \<Longrightarrow> b < 256"
proof (induction s)
  case (Cons c s)
  then show ?case using two_bytes [OF _ code_below_256, of c]
    by (cases "(of_char c :: nat) < 128") (auto simp: utf8_encode_Cons Let_def)
qed (simp add: utf8_encode_def)

lemma utf8_roundtrip: "utf8_decode (utf8_encode s) = Inr s"
proof (induction s)
  case (Cons c s)
  define n where "n = (of_char c :: nat)"
  have c: "char_of n = c" by (simp add: n_def)
  show ?case
  proof (cases "n < 128")
    case True
    then show ?thesis using Cons c by (simp add: utf8_encode_Cons n_def [symmetric] Let_def)
  next
    case False
    with code_below_256 [of c] have d: "n div 64 = 2 \<or> n div 64 = 3" "n mod 64 < 64" using two_bytes [of n] by (auto simp: n_def)
    moreover have "n div 64 * 64 + n mod 64 = n" by simp
    ultimately have "char_of ((n div 64) * 64 + n mod 64) = c" using c by simp
    with False d Cons show ?thesis by (auto simp: utf8_encode_Cons n_def [symmetric] Let_def)
  qed
qed (simp add: utf8_encode_def)

lemma segment_roundtrip: "decode_segment (encode_segment s) = Inr s"
proof -
  have b: "\<forall>b \<in> set (utf8_encode s). b < 256" using utf8_encode_bytes by blast
  have "decode_segment (encode_segment s) = ebind (a2b_loop 0 0 0 (repad (encode_segment s)) []) utf8_decode"
    by (simp add: decode_segment_def repad_def Let_def)
  then show ?thesis by (simp add: encode_segment_def repad_encode [OF b] a2b_encode [OF b] utf8_roundtrip)
qed

lemma b64_charI: "n < 64 \<Longrightarrow> \<exists>m < 64. b64_char n = b64_char m"
  by blast

lemma b64_encode_chars:
  "\<forall>b \<in> set bs. b < 256 \<Longrightarrow> c \<in> set (b64_encode bs) \<Longrightarrow> (\<exists>n < 64. c = b64_char n) \<or> c = CHR ''=''"
proof (induction bs rule: b64_encode.induct)
  case (2 a)
  then have "a div 4 < 64" "a mod 4 * 16 < 64" using six_bits(1,2) [of a 0 0] by simp_all
  then show ?case using 2 by (auto intro: b64_charI)
next
  case (3 a b)
  then have "a div 4 < 64" "a mod 4 * 16 + b div 16 < 64" "b mod 16 * 4 < 64" using six_bits(1,3,4) [of a b 0] by simp_all
  then show ?case using 3 by (auto intro: b64_charI)
next
  case (4 a b d rest)
  then have "a div 4 < 64" "a mod 4 * 16 + b div 16 < 64" "b mod 16 * 4 + d div 64 < 64" "d mod 64 < 64"
    using six_bits(1,3,5,6) [of a b d] by simp_all
  then show ?case using 4 by (auto intro: b64_charI)
qed simp

lemma encode_segment_char:
  assumes "c \<in> set (encode_segment s)"
  shows "c \<noteq> CHR ''.''" "c \<noteq> CHR 0x24" "(of_char c :: nat) < 128"
proof -
  have sub: "set (rstrip P xs) \<subseteq> set xs" for P and xs :: string by (auto simp: rstrip_def dest: set_dropWhileD)
  have "c \<in> set (b64_encode (utf8_encode s))" using assms sub by (auto simp: encode_segment_def)
  then consider n where "n < 64" "c = b64_char n" | "c = CHR ''=''" using b64_encode_chars utf8_encode_bytes by blast
  then show "c \<noteq> CHR ''.''" "c \<noteq> CHR 0x24" "(of_char c :: nat) < 128"
    by (cases; use b64_char_code in \<open>force simp: char_by_code split: if_splits\<close>)+
qed

lemma segment_no_dot: "CHR ''.'' \<notin> set (encode_segment s)"
  using encode_segment_char(1) by blast

section \<open>Keys parse back to the identity they were made for\<close>

text \<open>A code for text segments that a separator can join.\<close>

locale segment_codec =
  fixes enc :: "string \<Rightarrow> string"
    and dec :: "string \<Rightarrow> py_exc + string"
    and sep :: char
  assumes dec_enc: "dec (enc s) = Inr s"
    and no_sep: "sep \<notin> set (enc s)"
begin

lemma enc_inj: "enc s = enc t \<longleftrightarrow> s = t"
  by (metis dec_enc sum.inject(2))

lemma split_joined: "ws \<noteq> [] \<Longrightarrow> split_on sep (join [sep] (map enc ws)) = map enc ws"
  by (rule split_on_join) (auto simp: no_sep)

lemma joined_inj: "ws \<noteq> [] \<Longrightarrow> vs \<noteq> [] \<Longrightarrow> join [sep] (map enc ws) = join [sep] (map enc vs) \<Longrightarrow> ws = vs"
  by (metis split_joined enc_inj injI inj_map_eq_map)

end

interpretation key_segments: segment_codec encode_segment decode_segment "CHR ''.''"
  by unfold_locales (simp_all add: segment_roundtrip segment_no_dot)

lemma generated_text:
  "generate_api_key sha a u seed token = Inr key \<longleftrightarrow>
    (\<exists>secret. new_secret sha u seed token = Inr secret \<and> key = join ''.'' (map encode_segment [a, u, secret]))"
  by (auto simp: generate_api_key_def ebind_Inr)

lemma generated_plain:
  assumes "generate_api_key sha a u seed token = Inr key"
  shows "key \<noteq> []" "hd key \<noteq> CHR 0x24" "\<forall>c \<in> set key. (of_char c :: nat) < 128"
proof -
  from assms obtain secret where k: "key = encode_segment a @ ''.'' @ encode_segment u @ ''.'' @ encode_segment secret"
    by (auto simp: generated_text)
  show "key \<noteq> []" by (simp add: k)
  show "hd key \<noteq> CHR 0x24" using encode_segment_char(2) [of "hd (encode_segment a)" a] by (cases "encode_segment a") (auto simp: k)
  show "\<forall>c \<in> set key. (of_char c :: nat) < 128" using encode_segment_char(3) by (auto simp: k)
qed

lemma generated_key_parses:
  assumes "generate_api_key sha a u seed token = Inr key"
  shows "is_new_format_key key \<and> (\<exists>secret. new_secret sha u seed token = Inr secret \<and> parse_api_key key = Inr (a, u, secret))"
proof -
  from assms obtain secret where k: "new_secret sha u seed token = Inr secret" "key = join ''.'' (map encode_segment [a, u, secret])"
    by (auto simp: generated_text)
  have s: "split_on CHR ''.'' key = map encode_segment [a, u, secret]"
    unfolding k(2) by (rule key_segments.split_joined) simp
  have "key \<noteq> []" by (simp add: k(2))
  then have "is_new_format_key key" by (simp add: is_new_format_key_def s)
  then show ?thesis using k(1) by (simp add: parse_api_key_def s segment_roundtrip)
qed

text \<open>Property. A generated key names its owner: it has the new format, parsing returns the account and the user
  it was generated for and the secret, and keys of different owners differ.\<close>

theorem generated_key_names_its_owner:
  assumes "generate_api_key sha a u seed token = Inr key"
  shows "is_new_format_key key \<and> (\<exists>secret. new_secret sha u seed token = Inr secret \<and> parse_api_key key = Inr (a, u, secret))
    \<and> (generate_api_key sha' a' u' seed' token' = Inr key \<longrightarrow> a' = a \<and> u' = u)"
proof -
  have "a' = a \<and> u' = u" if other: "generate_api_key sha' a' u' seed' token' = Inr key"
  proof -
    from assms obtain secret where "key = join ''.'' (map encode_segment [a, u, secret])" by (auto simp: generated_text)
    moreover from other obtain secret' where "key = join ''.'' (map encode_segment [a', u', secret'])" by (auto simp: generated_text)
    ultimately have "[a, u, secret] = [a', u', secret']" using key_segments.joined_inj [of "[a, u, secret]" "[a', u', secret']"] by simp
    then show ?thesis by simp
  qed
  then show ?thesis using generated_key_parses [OF assms] by blast
qed

theorem generated_key_names_its_owner_witness:
  "parse_api_key (encode_segment ''acme'' @ ''.'' @ encode_segment ''alice'' @ ''.'' @ encode_segment ''s1'') = Inr (''acme'', ''alice'', ''s1'')"
proof -
  have "generate_api_key (\<lambda>s. s) ''acme'' ''alice'' None ''s1'' =
      Inr (encode_segment ''acme'' @ ''.'' @ encode_segment ''alice'' @ ''.'' @ encode_segment ''s1'')"
    by (simp add: generate_api_key_def new_secret_def)
  from generated_key_names_its_owner [OF this, of "\<lambda>s. s" "''acme''" "''alice''" None "''s1''"] show ?thesis
    by (auto simp: new_secret_def)
qed

end
