(* ===== verification/Api_Keys.thy ===== *)
theory Api_Keys
  imports Api_Key_Format Oauth_Provider
begin

text \<open>
  The API-key managers: \<open>LegacyAPIKeyManager\<close> (\<open>openviking/server/api_keys/legacy.py\<close>), which keeps accounts,
  users and groups in memory in front of three kinds of JSON files, and \<open>NewAPIKeyManager\<close>
  (\<open>openviking/server/api_keys/new.py\<close>), which generates keys in the new format on top of it.

  A user record is the JSON object the code keeps, so fields the code does not know survive. Its
  known fields hold text, and a group record a list of names under \<open>members\<close>. The file client is the
  parameter \<open>key_fs\<close> at the level of JSON documents; Argon2 is the pair \<open>kc_hash\<close>, \<open>kc_verify\<close>. Random tokens and
  the time of creation are arguments.
\<close>

section \<open>State\<close>

record user_key_entry =
  ue_account_id :: string
  ue_user_id :: string
  ue_role :: string
  ue_key_or_hash :: string
  ue_is_hashed :: bool

record account_info =
  ai_created_at :: string
  ai_users :: "(string \<times> pydict) list"
  ai_groups :: "(string \<times> pydict) list"

record 's key_fs =
  kf_read :: "'s \<Rightarrow> string \<Rightarrow> py_exc + pyval option"
  kf_write :: "'s \<Rightarrow> string \<Rightarrow> pyval \<Rightarrow> 's \<times> (py_exc + unit)"
  kf_lock :: "'s \<Rightarrow> string \<Rightarrow> 's \<times> (py_exc + unit)"
  kf_unlock :: "'s \<Rightarrow> string \<Rightarrow> 's"

record key_cfg =
  kc_root_key :: string
  kc_hashing :: bool
  kc_hash :: "string \<Rightarrow> string"
  kc_verify :: "string \<Rightarrow> string \<Rightarrow> py_exc + bool"
  kc_sha :: "string \<Rightarrow> string"

type_synonym accounts = "(string \<times> account_info) list"
type_synonym key_index = "(string \<times> user_key_entry list) list"
type_synonym group_index = "((string \<times> string) \<times> string list) list"

record 's key_state =
  kt_accounts :: accounts
  kt_index :: key_index
  kt_groups :: group_index
  kt_disk :: 's

definition ACCOUNTS_PATH :: string where
  "ACCOUNTS_PATH = ''/local/_system/accounts.json''"

definition users_path :: "string \<Rightarrow> string" where
  "users_path account_id = ''/local/'' @ account_id @ ''/_system/users.json''"

definition groups_path :: "string \<Rightarrow> string" where
  "groups_path account_id = ''/local/'' @ account_id @ ''/_system/groups.json''"

definition AlreadyExistsError :: py_exc where "AlreadyExistsError = OtherError ''AlreadyExistsError''"
definition ResourceBusyError :: py_exc where "ResourceBusyError = OtherError ''ResourceBusyError''"
definition LockAcquisitionError :: py_exc where "LockAcquisitionError = OtherError ''LockAcquisitionError''"

text \<open>\<open>info.get(field, "")\<close> and \<open>info.get(field, {})\<close>.\<close>

definition get_str :: "pydict \<Rightarrow> string \<Rightarrow> string" where
  "get_str d k = (case dget d k of Some (PStr s) \<Rightarrow> s | _ \<Rightarrow> [])"

definition get_dict :: "pydict \<Rightarrow> string \<Rightarrow> pydict" where
  "get_dict d k = (case dget d k of Some (PDict x) \<Rightarrow> x | _ \<Rightarrow> [])"

definition objects :: "pydict \<Rightarrow> (string \<times> pydict) list" where
  "objects d = map (\<lambda>(k, v). (k, case v of PDict x \<Rightarrow> x | _ \<Rightarrow> [])) d"

definition members_of :: "pydict \<Rightarrow> string list" where
  "members_of g = (case dget g ''members'' of
     Some (PList xs) \<Rightarrow> List.map_filter (\<lambda>x. case x of PStr s \<Rightarrow> Some s | _ \<Rightarrow> None) xs | _ \<Rightarrow> [])"

definition user_role :: "pydict \<Rightarrow> string" where
  "user_role info = (case dget info ''role'' of Some (PStr r) \<Rightarrow> r | _ \<Rightarrow> ''user'')"

definition find_user :: "accounts \<Rightarrow> string \<Rightarrow> string \<Rightarrow> pydict option" where
  "find_user accs a u = (case dget accs a of None \<Rightarrow> None | Some acc \<Rightarrow> dget (ai_users acc) u)"

definition set_user :: "accounts \<Rightarrow> string \<Rightarrow> string \<Rightarrow> pydict \<Rightarrow> accounts" where
  "set_user accs a u info = (case dget accs a of
     None \<Rightarrow> accs | Some acc \<Rightarrow> dset accs a (acc\<lparr>ai_users := dset (ai_users acc) u info\<rparr>))"

section \<open>Files\<close>

definition accounts_doc :: "accounts \<Rightarrow> pyval" where
  "accounts_doc accs = PDict [(''accounts'', PDict (map (\<lambda>(a, i). (a, PDict [(''created_at'', PStr (ai_created_at i))])) accs))]"

definition users_doc :: "account_info \<Rightarrow> pyval" where
  "users_doc acc = PDict [(''users'', PDict (map (\<lambda>(u, i). (u, PDict i)) (ai_users acc)))]"

definition groups_doc :: "(string \<times> pydict) list \<Rightarrow> pyval" where
  "groups_doc gs = PDict [(''groups'', PDict (map (\<lambda>(g, i). (g, PDict i)) gs))]"

definition with_path_lock ::
  "'s key_fs \<Rightarrow> string \<Rightarrow> ('s \<Rightarrow> 's \<times> (py_exc + unit)) \<Rightarrow> 's \<Rightarrow> 's \<times> (py_exc + unit)" where
  "with_path_lock fs path body d =
     (case kf_lock fs d path of
        (d1, Inl e) \<Rightarrow> (d1, Inl (if e = LockAcquisitionError then ResourceBusyError else e))
      | (d1, Inr _) \<Rightarrow> (case body d1 of (d2, r) \<Rightarrow> (kf_unlock fs d2 path, r)))"

definition save_accounts_json :: "'s key_fs \<Rightarrow> 's key_state \<Rightarrow> 's key_state \<times> (py_exc + unit)" where
  "save_accounts_json fs st =
     (case with_path_lock fs ACCOUNTS_PATH (\<lambda>d. kf_write fs d ACCOUNTS_PATH (accounts_doc (kt_accounts st))) (kt_disk st) of
        (d, r) \<Rightarrow> (st\<lparr>kt_disk := d\<rparr>, r))"

definition save_users_json_for :: "'s key_fs \<Rightarrow> string \<Rightarrow> accounts \<Rightarrow> 's \<Rightarrow> 's \<times> (py_exc + unit)" where
  "save_users_json_for fs a accs d =
     with_path_lock fs (users_path a) (\<lambda>d1. case dget accs a of
         None \<Rightarrow> (d1, Inr ())
       | Some acc \<Rightarrow> kf_write fs d1 (users_path a) (users_doc acc)) d"

definition save_users_json :: "'s key_fs \<Rightarrow> string \<Rightarrow> 's key_state \<Rightarrow> 's key_state \<times> (py_exc + unit)" where
  "save_users_json fs a st = (case save_users_json_for fs a (kt_accounts st) (kt_disk st) of (d, r) \<Rightarrow> (st\<lparr>kt_disk := d\<rparr>, r))"

definition write_groups_json ::
  "'s key_fs \<Rightarrow> string \<Rightarrow> (string \<times> pydict) list \<Rightarrow> 's key_state \<Rightarrow> 's key_state \<times> (py_exc + unit)" where
  "write_groups_json fs a gs st = (case kf_write fs (kt_disk st) (groups_path a) (groups_doc gs) of (d, r) \<Rightarrow> (st\<lparr>kt_disk := d\<rparr>, r))"

section \<open>The key index\<close>

definition get_key_prefix :: "string \<Rightarrow> string" where
  "get_key_prefix api_key = take 8 api_key"

definition is_argon2 :: "string \<Rightarrow> bool" where
  "is_argon2 s = startswith s ''$argon2''"

definition index_add :: "key_index \<Rightarrow> string \<Rightarrow> user_key_entry \<Rightarrow> key_index" where
  "index_add idx prefix entry =
     (if prefix = [] then idx else dset idx prefix ((case dget idx prefix of None \<Rightarrow> [] | Some es \<Rightarrow> es) @ [entry]))"

definition index_drop :: "key_index \<Rightarrow> string \<Rightarrow> string \<Rightarrow> string \<Rightarrow> key_index" where
  "index_drop idx prefix a u =
     (case dget idx prefix of
        None \<Rightarrow> idx
      | Some es \<Rightarrow>
          let rest = filter (\<lambda>e. \<not> (ue_account_id e = a \<and> ue_user_id e = u)) es
          in if rest = [] then dpop idx prefix else dset idx prefix rest)"

text \<open>The prefix a user is indexed under, as the removal computes it.\<close>

definition info_prefix :: "pydict \<Rightarrow> string" where
  "info_prefix info = (if get_str info ''key_prefix'' = [] then get_key_prefix (get_str info ''key'') else get_str info ''key_prefix'')"

definition remove_key_index_entry :: "key_index \<Rightarrow> string \<Rightarrow> string \<Rightarrow> pydict \<Rightarrow> key_index" where
  "remove_key_index_entry idx a u info =
     (if get_str info ''key'' = [] then idx else index_drop idx (info_prefix info) a u)"

definition discard_account_group_index :: "group_index \<Rightarrow> string \<Rightarrow> group_index" where
  "discard_account_group_index gi a = filter (\<lambda>((a', u), gs). a' \<noteq> a) gi"

definition discard_account_state :: "string \<Rightarrow> 's key_state \<Rightarrow> 's key_state" where
  "discard_account_state a st =
     (let st1 = st\<lparr>kt_accounts := dpop (kt_accounts st) a, kt_groups := discard_account_group_index (kt_groups st) a\<rparr> in
      case dget (kt_accounts st) a of
        None \<Rightarrow> st1
      | Some acc \<Rightarrow> st1\<lparr>kt_index := fold (\<lambda>(u, info) idx. remove_key_index_entry idx a u info) (ai_users acc) (kt_index st)\<rparr>)"

definition rollback_create_account :: "'s key_fs \<Rightarrow> string \<Rightarrow> 's key_state \<Rightarrow> 's key_state" where
  "rollback_create_account fs a st = fst (save_accounts_json fs (discard_account_state a st))"

section \<open>Groups\<close>

definition add_membership :: "(string \<times> string list) list \<Rightarrow> string \<Rightarrow> string \<Rightarrow> (string \<times> string list) list" where
  "add_membership by_user g u = dset by_user u ((case dget by_user u of None \<Rightarrow> [] | Some gs \<Rightarrow> gs) @ [g])"

definition group_memberships ::
  "(string \<times> pydict) list \<Rightarrow> (string \<times> pydict) list \<Rightarrow> (string \<times> string list) list" where
  "group_memberships users groups =
     map (\<lambda>(u, gs). (u, sort (remdups gs)))
       (fold (\<lambda>(g, grp) acc. fold (\<lambda>u acc. if dget users u \<noteq> None then add_membership acc g u else acc) (members_of grp) acc)
         groups [])"

definition add_account_groups :: "group_index \<Rightarrow> string \<Rightarrow> account_info \<Rightarrow> group_index" where
  "add_account_groups gi a acc =
     dupdate gi (map (\<lambda>(u, gs). ((a, u), gs)) (group_memberships (ai_users acc) (ai_groups acc)))"

definition rebuild_account_group_index :: "string \<Rightarrow> 's key_state \<Rightarrow> 's key_state" where
  "rebuild_account_group_index a st =
     (let gi = discard_account_group_index (kt_groups st) a in
      st\<lparr>kt_groups := (case dget (kt_accounts st) a of None \<Rightarrow> gi | Some acc \<Rightarrow> add_account_groups gi a acc)\<rparr>)"

definition set_groups :: "string \<Rightarrow> (string \<times> pydict) list \<Rightarrow> 's key_state \<Rightarrow> 's key_state" where
  "set_groups a gs st = (case dget (kt_accounts st) a of
     None \<Rightarrow> st | Some acc \<Rightarrow> st\<lparr>kt_accounts := dset (kt_accounts st) a (acc\<lparr>ai_groups := gs\<rparr>)\<rparr>)"

definition replace_groups ::
  "'s key_fs \<Rightarrow> string \<Rightarrow> (string \<times> pydict) list \<Rightarrow> 's key_state \<Rightarrow> 's key_state \<times> (py_exc + unit)" where
  "replace_groups fs a gs st =
     (case write_groups_json fs a gs st of
        (st1, Inl e) \<Rightarrow> (st1, Inl e)
      | (st1, Inr _) \<Rightarrow> (rebuild_account_group_index a (set_groups a gs st1), Inr ()))"

definition group_result :: "string \<Rightarrow> pydict \<Rightarrow> string \<times> nat" where
  "group_result g grp = (g, length (remdups (members_of grp)))"

definition create_group ::
  "'s key_fs \<Rightarrow> string \<Rightarrow> string \<Rightarrow> 's key_state \<Rightarrow> 's key_state \<times> (py_exc + string \<times> nat)" where
  "create_group fs a g st =
     (if validate_identifier_part g ''group_id'' \<noteq> None then (st, Inl InvalidArgumentError)
      else case dget (kt_accounts st) a of
          None \<Rightarrow> (st, Inl NotFoundError)
        | Some acc \<Rightarrow>
            if dget (ai_groups acc) g \<noteq> None then (st, Inl AlreadyExistsError)
            else (case replace_groups fs a (dset (ai_groups acc) g [(''members'', PList [])]) st of
                (st1, Inl e) \<Rightarrow> (st1, Inl e)
              | (st1, Inr _) \<Rightarrow> (st1, Inr (group_result g [(''members'', PList [])]))))"

definition get_groups :: "string \<Rightarrow> 's key_state \<Rightarrow> py_exc + (string \<times> nat) list" where
  "get_groups a st =
     (case dget (kt_accounts st) a of
        None \<Rightarrow> Inl NotFoundError
      | Some acc \<Rightarrow> Inr (map (\<lambda>(g, grp). group_result g grp) (sort_key fst (ai_groups acc))))"

definition get_group_members :: "string \<Rightarrow> string \<Rightarrow> 's key_state \<Rightarrow> py_exc + string list" where
  "get_group_members a g st =
     (case dget (kt_accounts st) a of
        None \<Rightarrow> Inl NotFoundError
      | Some acc \<Rightarrow> (case dget (ai_groups acc) g of
          None \<Rightarrow> Inl NotFoundError
        | Some grp \<Rightarrow> Inr (sort (remdups (members_of grp)))))"

definition add_group_member ::
  "'s key_fs \<Rightarrow> string \<Rightarrow> string \<Rightarrow> string \<Rightarrow> 's key_state \<Rightarrow> 's key_state \<times> (py_exc + bool)" where
  "add_group_member fs a g u st =
     (case dget (kt_accounts st) a of
        None \<Rightarrow> (st, Inl NotFoundError)
      | Some acc \<Rightarrow>
          if dget (ai_users acc) u = None then (st, Inl NotFoundError)
          else (case dget (ai_groups acc) g of
              None \<Rightarrow> (st, Inl NotFoundError)
            | Some grp \<Rightarrow>
                if u \<in> set (members_of grp) then (st, Inr True)
                else (case replace_groups fs a (dset (ai_groups acc) g
                        (dset grp ''members'' (PList (map PStr (sort (members_of grp @ [u])))))) st of
                    (st1, Inl e) \<Rightarrow> (st1, Inl e)
                  | (st1, Inr _) \<Rightarrow> (st1, Inr True))))"

definition remove_group_member ::
  "'s key_fs \<Rightarrow> string \<Rightarrow> string \<Rightarrow> string \<Rightarrow> 's key_state \<Rightarrow> 's key_state \<times> (py_exc + bool)" where
  "remove_group_member fs a g u st =
     (case dget (kt_accounts st) a of
        None \<Rightarrow> (st, Inl NotFoundError)
      | Some acc \<Rightarrow> (case dget (ai_groups acc) g of
          None \<Rightarrow> (st, Inl NotFoundError)
        | Some grp \<Rightarrow>
            if u \<notin> set (members_of grp) then (st, Inr False)
            else (case replace_groups fs a (dset (ai_groups acc) g
                    (dset grp ''members'' (PList (map PStr (filter (\<lambda>m. m \<noteq> u) (members_of grp)))))) st of
                (st1, Inl e) \<Rightarrow> (st1, Inl e)
              | (st1, Inr _) \<Rightarrow> (st1, Inr True))))"

definition delete_group ::
  "'s key_fs \<Rightarrow> string \<Rightarrow> string \<Rightarrow> 's key_state \<Rightarrow> 's key_state \<times> (py_exc + unit)" where
  "delete_group fs a g st =
     (case dget (kt_accounts st) a of
        None \<Rightarrow> (st, Inl NotFoundError)
      | Some acc \<Rightarrow> (case dget (ai_groups acc) g of
          None \<Rightarrow> (st, Inl NotFoundError)
        | Some grp \<Rightarrow>
            if members_of grp \<noteq> [] then (st, Inl FailedPreconditionError)
            else replace_groups fs a (dpop (ai_groups acc) g) st))"

definition get_user_group_ids :: "'s key_state \<Rightarrow> string \<Rightarrow> string \<Rightarrow> string list" where
  "get_user_group_ids st a u = (case dget (kt_groups st) (a, u) of None \<Rightarrow> [] | Some gs \<Rightarrow> gs)"

section \<open>Accounts and users\<close>

text \<open>What is stored for a fresh key: the stored value, whether it is a hash, and the prefix.\<close>

definition stored_form :: "key_cfg \<Rightarrow> string \<Rightarrow> string" where
  "stored_form cfg key = (if kc_hashing cfg then kc_hash cfg key else key)"

definition fresh_info :: "key_cfg \<Rightarrow> string \<Rightarrow> string \<Rightarrow> pydict" where
  "fresh_info cfg role key = [(''role'', PStr role), (''key'', PStr (stored_form cfg key))]
     @ (if kc_hashing cfg then [(''key_prefix'', PStr (get_key_prefix key))] else [])"

definition fresh_entry :: "key_cfg \<Rightarrow> string \<Rightarrow> string \<Rightarrow> string \<Rightarrow> string \<Rightarrow> user_key_entry" where
  "fresh_entry cfg a u role key = \<lparr>ue_account_id = a, ue_user_id = u, ue_role = role, ue_key_or_hash = stored_form cfg key,
     ue_is_hashed = kc_hashing cfg\<rparr>"

definition install_account ::
  "key_cfg \<Rightarrow> 's key_fs \<Rightarrow> string \<Rightarrow> string \<Rightarrow> string \<Rightarrow> string \<Rightarrow> 's key_state \<Rightarrow> 's key_state \<times> (py_exc + string)" where
  "install_account cfg fs now a u key st =
     (let st1 = st\<lparr>kt_accounts := dset (kt_accounts st) a
                    \<lparr>ai_created_at = now, ai_users = [(u, fresh_info cfg ''admin'' key)], ai_groups = []\<rparr>,
                   kt_index := index_add (kt_index st) (get_key_prefix key) (fresh_entry cfg a u Role_ADMIN key)\<rparr> in
      case save_accounts_json fs st1 of
        (st2, Inl e) \<Rightarrow> (rollback_create_account fs a st2, Inl e)
      | (st2, Inr _) \<Rightarrow>
          (case save_users_json fs a st2 of
             (st3, Inl e) \<Rightarrow> (rollback_create_account fs a st3, Inl e)
           | (st3, Inr _) \<Rightarrow>
               (case write_groups_json fs a [] st3 of
                  (st4, Inl e) \<Rightarrow> (rollback_create_account fs a st4, Inl e)
                | (st4, Inr _) \<Rightarrow> (st4, Inr key))))"

definition legacy_create_account ::
  "key_cfg \<Rightarrow> 's key_fs \<Rightarrow> string \<Rightarrow> string \<Rightarrow> string \<Rightarrow> string \<Rightarrow> string option \<Rightarrow> 's key_state \<Rightarrow> 's key_state \<times> (py_exc + string)" where
  "legacy_create_account cfg fs now token a u seed st =
     (if validate_account_id a \<noteq> None then (st, Inl InvalidArgumentError)
      else if validate_user_id u \<noteq> None then (st, Inl InvalidArgumentError)
      else if dget (kt_accounts st) a \<noteq> None then (st, Inl AlreadyExistsError)
      else case new_secret (kc_sha cfg) u seed token of
          Inl e \<Rightarrow> (st, Inl e)
        | Inr key \<Rightarrow> install_account cfg fs now a u key st)"

definition create_account ::
  "key_cfg \<Rightarrow> 's key_fs \<Rightarrow> string \<Rightarrow> string \<Rightarrow> string \<Rightarrow> string \<Rightarrow> string option \<Rightarrow> 's key_state \<Rightarrow> 's key_state \<times> (py_exc + string)" where
  "create_account cfg fs now token a u seed st =
     (if validate_account_id a \<noteq> None then (st, Inl InvalidArgumentError)
      else if validate_user_id u \<noteq> None then (st, Inl InvalidArgumentError)
      else case generate_api_key (kc_sha cfg) a u seed token of
          Inl e \<Rightarrow> (st, Inl e)
        | Inr key \<Rightarrow> if dget (kt_accounts st) a \<noteq> None then (st, Inl AlreadyExistsError)
                     else install_account cfg fs now a u key st)"

definition delete_account :: "'s key_fs \<Rightarrow> string \<Rightarrow> 's key_state \<Rightarrow> 's key_state \<times> (py_exc + unit)" where
  "delete_account fs a st =
     (if dget (kt_accounts st) a = None then (st, Inl NotFoundError)
      else save_accounts_json fs (discard_account_state a st))"

definition validate_account_user_role :: "string \<Rightarrow> py_exc + string" where
  "validate_account_user_role role =
     (if role = Role_ROOT then Inl PermissionDeniedError
      else if role \<notin> {Role_USER, Role_ADMIN} then Inl InvalidArgumentError
      else Inr role)"

definition install_user ::
  "key_cfg \<Rightarrow> 's key_fs \<Rightarrow> string \<Rightarrow> string \<Rightarrow> string \<Rightarrow> string \<Rightarrow> 's key_state \<Rightarrow> 's key_state \<times> (py_exc + string)" where
  "install_user cfg fs a u role key st =
     (let st1 = st\<lparr>kt_accounts := set_user (kt_accounts st) a u (fresh_info cfg role key),
                   kt_index := index_add (kt_index st) (get_key_prefix key) (fresh_entry cfg a u role key)\<rparr> in
      case save_users_json fs a st1 of (st2, r) \<Rightarrow> (st2, map_sum id (\<lambda>_. key) r))"

definition register_with ::
  "key_cfg \<Rightarrow> 's key_fs \<Rightarrow> (py_exc + string) \<Rightarrow> string \<Rightarrow> string \<Rightarrow> string \<Rightarrow> 's key_state \<Rightarrow> 's key_state \<times> (py_exc + string)" where
  "register_with cfg fs new_key a u role st =
     (case validate_account_user_role role of
        Inl e \<Rightarrow> (st, Inl e)
      | Inr resolved_role \<Rightarrow>
          if validate_user_id u \<noteq> None then (st, Inl InvalidArgumentError)
          else case dget (kt_accounts st) a of
              None \<Rightarrow> (st, Inl NotFoundError)
            | Some acc \<Rightarrow>
                if dget (ai_users acc) u \<noteq> None then (st, Inl AlreadyExistsError)
                else (case new_key of
                    Inl e \<Rightarrow> (st, Inl e)
                  | Inr key \<Rightarrow> install_user cfg fs a u resolved_role key st))"

definition legacy_register_user ::
  "key_cfg \<Rightarrow> 's key_fs \<Rightarrow> string \<Rightarrow> string \<Rightarrow> string \<Rightarrow> string \<Rightarrow> string option \<Rightarrow> 's key_state \<Rightarrow> 's key_state \<times> (py_exc + string)" where
  "legacy_register_user cfg fs token a u role seed st = register_with cfg fs (new_secret (kc_sha cfg) u seed token) a u role st"

definition register_user ::
  "key_cfg \<Rightarrow> 's key_fs \<Rightarrow> string \<Rightarrow> string \<Rightarrow> string \<Rightarrow> string \<Rightarrow> string option \<Rightarrow> 's key_state \<Rightarrow> 's key_state \<times> (py_exc + string)" where
  "register_user cfg fs token a u role seed st = register_with cfg fs (generate_api_key (kc_sha cfg) a u seed token) a u role st"

definition deletion_of :: "pydict \<Rightarrow> pydict option" where
  "deletion_of info = (case dget info ''deletion'' of Some (PDict d) \<Rightarrow> Some d | _ \<Rightarrow> None)"

definition is_deleting :: "pydict \<Rightarrow> bool" where
  "is_deleting info \<longleftrightarrow> (case dget info ''deletion'' of None \<Rightarrow> False | Some v \<Rightarrow> truthy v)"

definition rotated_info :: "key_cfg \<Rightarrow> string \<Rightarrow> pydict \<Rightarrow> pydict" where
  "rotated_info cfg key info =
     (let info1 = dset info ''key'' (PStr (stored_form cfg key)) in
      if kc_hashing cfg then dset info1 ''key_prefix'' (PStr (get_key_prefix key)) else dpop info1 ''key_prefix'')"

text \<open>A record without a role raises after the old key is gone.\<close>

definition regenerate_with ::
  "key_cfg \<Rightarrow> 's key_fs \<Rightarrow> (py_exc + string) \<Rightarrow> string \<Rightarrow> string \<Rightarrow> 's key_state \<Rightarrow> 's key_state \<times> (py_exc + string)" where
  "regenerate_with cfg fs new_key a u st =
     (case dget (kt_accounts st) a of
        None \<Rightarrow> (st, Inl NotFoundError)
      | Some acc \<Rightarrow> (case dget (ai_users acc) u of
          None \<Rightarrow> (st, Inl NotFoundError)
        | Some info \<Rightarrow>
            if is_deleting info then (st, Inl FailedPreconditionError)
            else
              let old_prefix = (if get_str info ''key_prefix'' = [] \<and> get_str info ''key'' \<noteq> []
                                then get_key_prefix (get_str info ''key'') else get_str info ''key_prefix'');
                  st1 = st\<lparr>kt_index := index_drop (kt_index st) old_prefix a u\<rparr>
              in case new_key of
                   Inl e \<Rightarrow> (st1, Inl e)
                 | Inr key \<Rightarrow>
                     let st2 = st1\<lparr>kt_accounts := set_user (kt_accounts st1) a u (rotated_info cfg key info)\<rparr> in
                     (case dget info ''role'' of
                        Some (PStr role) \<Rightarrow>
                          let st3 = st2\<lparr>kt_index := index_add (kt_index st2) (get_key_prefix key) (fresh_entry cfg a u role key)\<rparr> in
                          (case save_users_json fs a st3 of (st4, r) \<Rightarrow> (st4, map_sum id (\<lambda>_. key) r))
                      | _ \<Rightarrow> (st2, Inl KeyError))))"

definition legacy_regenerate_key ::
  "key_cfg \<Rightarrow> 's key_fs \<Rightarrow> string \<Rightarrow> string \<Rightarrow> string \<Rightarrow> string option \<Rightarrow> 's key_state \<Rightarrow> 's key_state \<times> (py_exc + string)" where
  "legacy_regenerate_key cfg fs token a u seed st = regenerate_with cfg fs (new_secret (kc_sha cfg) u seed token) a u st"

definition regenerate_key ::
  "key_cfg \<Rightarrow> 's key_fs \<Rightarrow> string \<Rightarrow> string \<Rightarrow> string \<Rightarrow> string option \<Rightarrow> 's key_state \<Rightarrow> 's key_state \<times> (py_exc + string)" where
  "regenerate_key cfg fs token a u seed st = regenerate_with cfg fs (generate_api_key (kc_sha cfg) a u seed token) a u st"

text \<open>Only the first entry of the user under its prefix gets the new role.\<close>

fun update_first_role :: "string \<Rightarrow> string \<Rightarrow> string \<Rightarrow> user_key_entry list \<Rightarrow> user_key_entry list" where
  "update_first_role a u role [] = []"
| "update_first_role a u role (e # es) =
     (if ue_account_id e = a \<and> ue_user_id e = u then e\<lparr>ue_role := role\<rparr> # es else e # update_first_role a u role es)"

definition set_role ::
  "'s key_fs \<Rightarrow> string \<Rightarrow> string \<Rightarrow> string \<Rightarrow> 's key_state \<Rightarrow> 's key_state \<times> (py_exc + unit)" where
  "set_role fs a u role st =
     (case validate_account_user_role role of
        Inl e \<Rightarrow> (st, Inl e)
      | Inr resolved_role \<Rightarrow> (case dget (kt_accounts st) a of
          None \<Rightarrow> (st, Inl NotFoundError)
        | Some acc \<Rightarrow> (case dget (ai_users acc) u of
            None \<Rightarrow> (st, Inl NotFoundError)
          | Some info \<Rightarrow>
              if is_deleting info then (st, Inl FailedPreconditionError)
              else
                let info1 = dset info ''role'' (PStr resolved_role);
                    idx = kt_index st;
                    idx1 = (if get_str info1 ''key'' = [] then idx
                            else case dget idx (info_prefix info1) of
                                None \<Rightarrow> idx
                              | Some es \<Rightarrow> dset idx (info_prefix info1) (update_first_role a u resolved_role es))
                in save_users_json fs a (st\<lparr>kt_accounts := set_user (kt_accounts st) a u info1, kt_index := idx1\<rparr>))))"

section \<open>Deletion of users\<close>

definition deletion_record :: "string \<Rightarrow> string \<Rightarrow> string \<Rightarrow> pydict" where
  "deletion_record task_id owner_account owner_user =
     [(''task_id'', PStr task_id), (''owner_account_id'', PStr owner_account), (''owner_user_id'', PStr owner_user)]"

definition active_admin :: "pydict \<Rightarrow> bool" where
  "active_admin info \<longleftrightarrow> dget info ''role'' = Some (PStr Role_ADMIN) \<and> \<not> is_deleting info"

definition fenced_info :: "pydict \<Rightarrow> pydict \<Rightarrow> pydict" where
  "fenced_info deletion info = dpop (dset (dset info ''deletion'' (PDict deletion)) ''key'' (PStr [])) ''key_prefix''"

definition fence_user ::
  "'s key_fs \<Rightarrow> string \<Rightarrow> string \<Rightarrow> account_info \<Rightarrow> pydict \<Rightarrow> string \<Rightarrow> string \<Rightarrow> string \<Rightarrow> 's key_state
    \<Rightarrow> 's key_state \<times> (py_exc + pydict \<times> bool)" where
  "fence_user fs a u acc info task_id owner_account owner_user st =
     (if dget info ''role'' = Some (PStr Role_ADMIN) \<and> length (filter (\<lambda>(v, i). active_admin i) (ai_users acc)) \<le> 1
      then (st, Inl FailedPreconditionError)
      else
        let deletion = deletion_record task_id owner_account owner_user;
            st1 = st\<lparr>kt_accounts := set_user (kt_accounts st) a u (fenced_info deletion info)\<rparr>
        in case save_users_json fs a st1 of
             (st2, Inl e) \<Rightarrow> (st2\<lparr>kt_accounts := set_user (kt_accounts st2) a u info\<rparr>, Inl e)
           | (st2, Inr _) \<Rightarrow> (st2\<lparr>kt_index := remove_key_index_entry (kt_index st2) a u info\<rparr>, Inr (deletion, True)))"

definition begin_user_deletion ::
  "'s key_fs \<Rightarrow> string \<Rightarrow> string \<Rightarrow> string \<Rightarrow> string \<Rightarrow> string \<Rightarrow> 's key_state \<Rightarrow> 's key_state \<times> (py_exc + pydict \<times> bool)" where
  "begin_user_deletion fs a u task_id owner_account owner_user st =
     (case dget (kt_accounts st) a of
        None \<Rightarrow> (st, Inl NotFoundError)
      | Some acc \<Rightarrow> (case dget (ai_users acc) u of
          None \<Rightarrow> (st, Inl NotFoundError)
        | Some info \<Rightarrow>
            (case deletion_of info of
               Some existing \<Rightarrow>
                 if get_str existing ''task_id'' \<noteq> [] then (st, Inr (existing, False))
                 else fence_user fs a u acc info task_id owner_account owner_user st
             | None \<Rightarrow> fence_user fs a u acc info task_id owner_account owner_user st)))"

definition replace_user_deletion_task ::
  "'s key_fs \<Rightarrow> string \<Rightarrow> string \<Rightarrow> string \<Rightarrow> string \<Rightarrow> string \<Rightarrow> string \<Rightarrow> 's key_state \<Rightarrow> 's key_state \<times> (py_exc + pydict)" where
  "replace_user_deletion_task fs a u expected_task_id task_id owner_account owner_user st =
     (case dget (kt_accounts st) a of
        None \<Rightarrow> (st, Inl NotFoundError)
      | Some acc \<Rightarrow> (case dget (ai_users acc) u of
          None \<Rightarrow> (st, Inl NotFoundError)
        | Some info \<Rightarrow>
            (case deletion_of info of
               None \<Rightarrow> (st, Inr [])
             | Some current \<Rightarrow>
                 if dget current ''task_id'' \<noteq> Some (PStr expected_task_id) then (st, Inr current)
                 else
                   let replacement = deletion_record task_id owner_account owner_user;
                       st1 = st\<lparr>kt_accounts := set_user (kt_accounts st) a u (dset info ''deletion'' (PDict replacement))\<rparr>
                   in case save_users_json fs a st1 of
                        (st2, Inl e) \<Rightarrow> (st2\<lparr>kt_accounts := set_user (kt_accounts st2) a u
                            (dset (dset info ''deletion'' (PDict replacement)) ''deletion'' (PDict current))\<rparr>, Inl e)
                      | (st2, Inr _) \<Rightarrow> (st2, Inr replacement))))"

definition without_member :: "string \<Rightarrow> pydict \<Rightarrow> pydict" where
  "without_member u grp =
     (if u \<in> set (members_of grp)
      then dset grp ''members'' (PList (map PStr (filter (\<lambda>m. m \<noteq> u) (members_of grp)))) else grp)"

definition finish_user_deletion ::
  "'s key_fs \<Rightarrow> string \<Rightarrow> string \<Rightarrow> string \<Rightarrow> 's key_state \<Rightarrow> 's key_state \<times> (py_exc + bool)" where
  "finish_user_deletion fs a u task_id st =
     (case dget (kt_accounts st) a of
        None \<Rightarrow> (st, Inr False)
      | Some acc \<Rightarrow> (case dget (ai_users acc) u of
          None \<Rightarrow> (st, Inr False)
        | Some info \<Rightarrow>
            (case deletion_of info of
               None \<Rightarrow> (st, Inr False)
             | Some deletion \<Rightarrow>
                 if dget deletion ''task_id'' \<noteq> Some (PStr task_id) then (st, Inr False)
                 else
                   let groups = map (\<lambda>(g, grp). (g, without_member u grp)) (ai_groups acc);
                       changed = (groups \<noteq> ai_groups acc);
                       st1 = st\<lparr>kt_accounts := dset (kt_accounts st) a (acc\<lparr>ai_users := dpop (ai_users acc) u\<rparr>)\<rparr>;
                       (st2, r) = (case save_users_json fs a st1 of
                           (st2, Inl e) \<Rightarrow> (st2, Inl e)
                         | (st2, Inr _) \<Rightarrow> if changed then write_groups_json fs a groups st2 else (st2, Inr ()))
                   in case r of
                        Inl e \<Rightarrow> (rebuild_account_group_index a (st2\<lparr>kt_accounts :=
                            dset (kt_accounts st2) a (acc\<lparr>ai_users := dset (dpop (ai_users acc) u) u info\<rparr>)\<rparr>), Inl e)
                      | Inr _ \<Rightarrow> (if changed then rebuild_account_group_index a (set_groups a groups st2) else st2, Inr True))))"

definition get_user_deletion :: "'s key_state \<Rightarrow> string \<Rightarrow> string \<Rightarrow> pydict option" where
  "get_user_deletion st a u = (case find_user (kt_accounts st) a u of None \<Rightarrow> None | Some info \<Rightarrow> deletion_of info)"

definition iter_user_deletions :: "'s key_state \<Rightarrow> (string \<times> string \<times> pydict) list" where
  "iter_user_deletions st =
     concat (map (\<lambda>(a, acc). List.map_filter (\<lambda>(u, info). case deletion_of info of
         Some d \<Rightarrow> if get_str d ''task_id'' \<noteq> [] then Some (a, u, d) else None | None \<Rightarrow> None) (ai_users acc)) (kt_accounts st))"

definition is_user_deleting :: "'s key_state \<Rightarrow> string \<Rightarrow> string \<Rightarrow> bool" where
  "is_user_deleting st a u \<longleftrightarrow> get_user_deletion st a u \<noteq> None"

section \<open>Queries\<close>

definition has_user :: "'s key_state \<Rightarrow> string \<Rightarrow> string \<Rightarrow> bool" where
  "has_user st a u \<longleftrightarrow> find_user (kt_accounts st) a u \<noteq> None"

definition get_user_role :: "'s key_state \<Rightarrow> string \<Rightarrow> string \<Rightarrow> string" where
  "get_user_role st a u = (case find_user (kt_accounts st) a u of None \<Rightarrow> Role_USER | Some info \<Rightarrow> user_role info)"

definition get_user_key_fingerprint :: "key_cfg \<Rightarrow> 's key_state \<Rightarrow> string \<Rightarrow> string \<Rightarrow> string option" where
  "get_user_key_fingerprint cfg st a u =
     (case find_user (kt_accounts st) a u of
        None \<Rightarrow> None
      | Some info \<Rightarrow> if get_str info ''key'' = [] then None else Some (kc_sha cfg (get_str info ''key'')))"

definition identity_of :: "string \<Rightarrow> string \<Rightarrow> string \<Rightarrow> resolved_identity" where
  "identity_of role a u = \<lparr>ri_role = role, ri_account_id = Some a, ri_user_id = Some u, ri_from_oauth = False\<rparr>"

definition root_identity :: resolved_identity where
  "root_identity = \<lparr>ri_role = Role_ROOT, ri_account_id = None, ri_user_id = None, ri_from_oauth = False\<rparr>"

fun match_candidates :: "key_cfg \<Rightarrow> string \<Rightarrow> user_key_entry list \<Rightarrow> py_exc + resolved_identity" where
  "match_candidates cfg api_key [] = Inl UnauthenticatedError"
| "match_candidates cfg api_key (e # es) =
     ebind (if ue_is_hashed e then kc_verify cfg api_key (ue_key_or_hash e) else compare_digest api_key (ue_key_or_hash e)) (\<lambda>same.
       if same then Inr (identity_of (ue_role e) (ue_account_id e) (ue_user_id e)) else match_candidates cfg api_key es)"

definition legacy_resolve :: "key_cfg \<Rightarrow> 's key_state \<Rightarrow> string \<Rightarrow> py_exc + resolved_identity" where
  "legacy_resolve cfg st api_key =
     (if api_key = [] then Inl UnauthenticatedError
      else ebind (compare_digest api_key (kc_root_key cfg)) (\<lambda>root.
        if root then Inr root_identity
        else match_candidates cfg api_key (case dget (kt_index st) (get_key_prefix api_key) of None \<Rightarrow> [] | Some es \<Rightarrow> es)))"

text \<open>The fast path for keys that name their owner; \<open>None\<close> when it does not settle the question.\<close>

definition fast_path :: "key_cfg \<Rightarrow> 's key_state \<Rightarrow> string \<Rightarrow> resolved_identity option" where
  "fast_path cfg st api_key =
     (if \<not> is_new_format_key api_key then None
      else case parse_api_key api_key of
          Inl _ \<Rightarrow> None
        | Inr (a, u, _) \<Rightarrow> (case find_user (kt_accounts st) a u of
            None \<Rightarrow> None
          | Some info \<Rightarrow>
              let stored = get_str info ''key'' in
              if stored = [] then None
              else (case (if is_argon2 (get_str info ''key_prefix'') \<or> is_argon2 stored
                          then kc_verify cfg api_key stored else compare_digest api_key stored) of
                  Inr True \<Rightarrow> Some (identity_of (user_role info) a u)
                | _ \<Rightarrow> None)))"

definition key_resolve :: "key_cfg \<Rightarrow> 's key_state \<Rightarrow> string \<Rightarrow> py_exc + resolved_identity" where
  "key_resolve cfg st api_key =
     (if api_key = [] then Inl UnauthenticatedError
      else ebind (compare_digest api_key (kc_root_key cfg)) (\<lambda>root.
        if root then Inr root_identity
        else case fast_path cfg st api_key of
            Some i \<Rightarrow> Inr i
          | None \<Rightarrow> legacy_resolve cfg st api_key))"

section \<open>Loading\<close>

definition index_user ::
  "key_cfg \<Rightarrow> 's key_fs \<Rightarrow> bool \<Rightarrow> string \<Rightarrow> string \<Rightarrow> 's \<times> accounts \<times> key_index \<Rightarrow> 's \<times> (py_exc + accounts \<times> key_index)" where
  "index_user cfg fs allow_migration a u = (\<lambda>(d, accs, idx).
     let info = (case find_user accs a u of None \<Rightarrow> [] | Some i \<Rightarrow> i);
         key = get_str info ''key'';
         entry = (\<lambda>stored hashed. \<lparr>ue_account_id = a, ue_user_id = u, ue_role = user_role info, ue_key_or_hash = stored, ue_is_hashed = hashed\<rparr>)
     in if key = [] then (d, Inr (accs, idx))
        else if is_argon2 key then (d, Inr (accs, index_add idx (get_str info ''key_prefix'') (entry key True)))
        else if kc_hashing cfg \<and> allow_migration then
          let stored = kc_hash cfg key;
              prefix = get_key_prefix key;
              accs1 = set_user accs a u (dset (dset info ''key'' (PStr stored)) ''key_prefix'' (PStr prefix))
          in (case save_users_json_for fs a accs1 d of
                (d1, Inl e) \<Rightarrow> (d1, Inl e)
              | (d1, Inr _) \<Rightarrow> (d1, Inr (accs1, index_add idx prefix (entry stored True))))
        else (d, Inr (accs, index_add idx (get_key_prefix key) (entry key False))))"

fun index_users ::
  "key_cfg \<Rightarrow> 's key_fs \<Rightarrow> bool \<Rightarrow> string \<Rightarrow> string list \<Rightarrow> 's \<times> accounts \<times> key_index \<Rightarrow> 's \<times> (py_exc + accounts \<times> key_index)" where
  "index_users cfg fs mig a [] (d, accs, idx) = (d, Inr (accs, idx))"
| "index_users cfg fs mig a (u # us) (d, accs, idx) =
     (case index_user cfg fs mig a u (d, accs, idx) of
        (d1, Inl e) \<Rightarrow> (d1, Inl e)
      | (d1, Inr (accs1, idx1)) \<Rightarrow> index_users cfg fs mig a us (d1, accs1, idx1))"

definition read_section :: "'s key_fs \<Rightarrow> 's \<Rightarrow> string \<Rightarrow> string \<Rightarrow> py_exc + (string \<times> pydict) list" where
  "read_section fs d path field =
     ebind (kf_read fs d path) (\<lambda>doc. Inr (case doc of Some (PDict x) \<Rightarrow> objects (get_dict x field) | _ \<Rightarrow> []))"

fun build_accounts ::
  "key_cfg \<Rightarrow> 's key_fs \<Rightarrow> bool \<Rightarrow> (string \<times> pydict) list \<Rightarrow> 's \<times> accounts \<times> key_index \<times> group_index
    \<Rightarrow> 's \<times> (py_exc + accounts \<times> key_index \<times> group_index)" where
  "build_accounts cfg fs mig [] (d, accs, idx, gi) = (d, Inr (accs, idx, gi))"
| "build_accounts cfg fs mig ((a, info) # rest) (d, accs, idx, gi) =
     (case read_section fs d (users_path a) ''users'' of
        Inl e \<Rightarrow> (d, Inl e)
      | Inr users \<Rightarrow> (case read_section fs d (groups_path a) ''groups'' of
          Inl e \<Rightarrow> (d, Inl e)
        | Inr groups \<Rightarrow>
            let acc = \<lparr>ai_created_at = get_str info ''created_at'', ai_users = users, ai_groups = groups\<rparr> in
            (case index_users cfg fs mig a (dkeys users) (d, dset accs a acc, idx) of
               (d1, Inl e) \<Rightarrow> (d1, Inl e)
             | (d1, Inr (accs1, idx1)) \<Rightarrow> build_accounts cfg fs mig rest (d1, accs1, idx1, add_account_groups gi a acc))))"

definition build_state ::
  "key_cfg \<Rightarrow> 's key_fs \<Rightarrow> bool \<Rightarrow> pydict \<Rightarrow> 's \<Rightarrow> 's \<times> (py_exc + accounts \<times> key_index \<times> group_index)" where
  "build_state cfg fs mig accounts_data d = build_accounts cfg fs mig (objects (get_dict accounts_data ''accounts'')) (d, [], [], [])"

definition install_state ::
  "'s \<times> (py_exc + accounts \<times> key_index \<times> group_index) \<Rightarrow> 's key_state \<Rightarrow> 's key_state \<times> (py_exc + unit)" where
  "install_state built st =
     (case built of
        (d, Inl e) \<Rightarrow> (st\<lparr>kt_disk := d\<rparr>, Inl e)
      | (d, Inr (accs, idx, gi)) \<Rightarrow> (st\<lparr>kt_accounts := accs, kt_index := idx, kt_groups := gi, kt_disk := d\<rparr>, Inr ()))"

definition load :: "key_cfg \<Rightarrow> 's key_fs \<Rightarrow> string \<Rightarrow> 's key_state \<Rightarrow> 's key_state \<times> (py_exc + unit)" where
  "load cfg fs now st =
     (case kf_read fs (kt_disk st) ACCOUNTS_PATH of
        Inl e \<Rightarrow> (st, Inl e)
      | Inr (Some doc) \<Rightarrow> install_state (build_state cfg fs True (case doc of PDict x \<Rightarrow> x | _ \<Rightarrow> []) (kt_disk st)) st
      | Inr None \<Rightarrow>
          let data = [(''accounts'', PDict [(''default'', PDict [(''created_at'', PStr now)])])] in
          (case kf_write fs (kt_disk st) ACCOUNTS_PATH (PDict data) of
             (d, Inl e) \<Rightarrow> (st\<lparr>kt_disk := d\<rparr>, Inl e)
           | (d, Inr _) \<Rightarrow> install_state (build_state cfg fs True data d) (st\<lparr>kt_disk := d\<rparr>)))"

definition reload :: "key_cfg \<Rightarrow> 's key_fs \<Rightarrow> 's key_state \<Rightarrow> 's key_state \<times> (py_exc + unit)" where
  "reload cfg fs st =
     (case kf_read fs (kt_disk st) ACCOUNTS_PATH of
        Inl e \<Rightarrow> (st, Inl e)
      | Inr None \<Rightarrow> (st, Inr ())
      | Inr (Some doc) \<Rightarrow> install_state (build_state cfg fs False (case doc of PDict x \<Rightarrow> x | _ \<Rightarrow> []) (kt_disk st)) st)"

text \<open>What the OAuth handlers see of a manager.\<close>

definition manager_of :: "key_cfg \<Rightarrow> 's key_state \<Rightarrow> key_manager" where
  "manager_of cfg st = \<lparr>km_resolve = key_resolve cfg st, km_fingerprint = Some (get_user_key_fingerprint cfg st),
     km_role = Some (\<lambda>a u. Inr (get_user_role st a u))\<rparr>"

end
