(* ===== verification/Api_Key_Runs.thy ===== *)
theory Api_Key_Runs
  imports Api_Keys
begin

text \<open>
  Runs of the API-key manager of the server: every call that changes its state, loads and refreshes
  of the store included, in any order, with a file client that may fail at any call. The invariant
  \<open>key_inv\<close> ties the key index and the group index to the user records, and the user records
  on disk to what the code writes.
\<close>

section \<open>Invariant\<close>

text \<open>What the code writes about a user: a key prefix only beside an Argon2 hash, and no key for a user under deletion.\<close>

definition wf_info :: "pydict \<Rightarrow> bool" where
  "wf_info info \<longleftrightarrow> (is_argon2 (get_str info ''key'') \<or> get_str info ''key_prefix'' = []) \<and> (is_deleting info \<longrightarrow> get_str info ''key'' = [])"

definition wf_users :: "(string \<times> pydict) list \<Rightarrow> bool" where
  "wf_users us \<longleftrightarrow> distinct (dkeys us) \<and> list_all wf_info (map snd us)"

definition wf_account :: "account_info \<Rightarrow> bool" where
  "wf_account acc \<longleftrightarrow> wf_users (ai_users acc) \<and> distinct (dkeys (ai_groups acc))"

definition wf_accounts :: "accounts \<Rightarrow> bool" where
  "wf_accounts accs \<longleftrightarrow> distinct (dkeys accs) \<and> list_all wf_account (map snd accs)"

definition entry_owner :: "user_key_entry \<Rightarrow> string \<times> string" where
  "entry_owner e = (ue_account_id e, ue_user_id e)"

text \<open>An entry of the index describes the current record of its owner and is filed under the prefix by which it is removed.\<close>

definition entry_ok :: "accounts \<Rightarrow> string \<Rightarrow> user_key_entry \<Rightarrow> bool" where
  "entry_ok accs p e \<longleftrightarrow>
     (case find_user accs (ue_account_id e) (ue_user_id e) of
        None \<Rightarrow> False
      | Some info \<Rightarrow> get_str info ''key'' = ue_key_or_hash e \<and> ue_key_or_hash e \<noteq> [] \<and> info_prefix info = p
          \<and> ue_role e = user_role info \<and> ue_is_hashed e = is_argon2 (ue_key_or_hash e))"

definition bucket_ok :: "accounts \<Rightarrow> string \<Rightarrow> user_key_entry list \<Rightarrow> bool" where
  "bucket_ok accs p es \<longleftrightarrow> distinct (map entry_owner es) \<and> (\<forall>e \<in> set es. entry_ok accs p e)"

definition index_ok :: "accounts \<Rightarrow> key_index \<Rightarrow> bool" where
  "index_ok accs idx \<longleftrightarrow> (\<forall>p. case dget idx p of None \<Rightarrow> True | Some es \<Rightarrow> bucket_ok accs p es)"

text \<open>The groups the index gives a user are groups of the account that list the user, who is registered.\<close>

definition member_of_group :: "accounts \<Rightarrow> string \<Rightarrow> string \<Rightarrow> string \<Rightarrow> bool" where
  "member_of_group accs a u g \<longleftrightarrow>
     (case dget accs a of None \<Rightarrow> False
      | Some acc \<Rightarrow> dget (ai_users acc) u \<noteq> None \<and> (case dget (ai_groups acc) g of None \<Rightarrow> False | Some grp \<Rightarrow> u \<in> set (members_of grp)))"

definition groups_ok :: "accounts \<Rightarrow> group_index \<Rightarrow> bool" where
  "groups_ok accs gi \<longleftrightarrow> (\<forall>a u. case dget gi (a, u) of None \<Rightarrow> True | Some gs \<Rightarrow> \<forall>g \<in> set gs. member_of_group accs a u g)"

definition key_store_ok :: "'s key_fs \<Rightarrow> 's \<Rightarrow> bool" where
  "key_store_ok fs d \<longleftrightarrow>
     (\<forall>a us. read_section fs d (users_path a) ''users'' = Inr us \<longrightarrow> wf_users us)
   \<and> (\<forall>a gs. read_section fs d (groups_path a) ''groups'' = Inr gs \<longrightarrow> distinct (dkeys gs))
   \<and> (\<forall>accs. read_section fs d ACCOUNTS_PATH ''accounts'' = Inr accs \<longrightarrow> distinct (dkeys accs))"

definition key_inv :: "'s key_fs \<Rightarrow> 's key_state \<Rightarrow> bool" where
  "key_inv fs st \<longleftrightarrow> wf_accounts (kt_accounts st) \<and> index_ok (kt_accounts st) (kt_index st)
     \<and> groups_ok (kt_accounts st) (kt_groups st) \<and> key_store_ok fs (kt_disk st)"

text \<open>The file client: a write changes what is read at its path only, to the document written, or makes reading it fail; leases
  change nothing that is read.\<close>

definition fs_faithful :: "'s key_fs \<Rightarrow> bool" where
  "fs_faithful fs \<longleftrightarrow>
     (\<forall>d p v q. kf_read fs (fst (kf_write fs d p v)) q = kf_read fs d q
        \<or> q = p \<and> (kf_read fs (fst (kf_write fs d p v)) q = Inr (Some v) \<or> (\<exists>e. kf_read fs (fst (kf_write fs d p v)) q = Inl e)))
   \<and> (\<forall>d p q. kf_read fs (fst (kf_lock fs d p)) q = kf_read fs d q)
   \<and> (\<forall>d p q. kf_read fs (kf_unlock fs d p) q = kf_read fs d q)"

definition hashes_marked :: "key_cfg \<Rightarrow> bool" where
  "hashes_marked cfg \<longleftrightarrow> (\<forall>k. is_argon2 (kc_hash cfg k))"

inductive km_step :: "key_cfg \<Rightarrow> 's key_fs \<Rightarrow> 's key_state \<Rightarrow> 's key_state \<Rightarrow> bool" for cfg :: key_cfg and fs :: "'s key_fs" where
  km_create_account: "km_step cfg fs st (fst (create_account cfg fs now token a u seed st))"
| km_delete_account: "km_step cfg fs st (fst (delete_account fs a st))"
| km_register_user: "km_step cfg fs st (fst (register_user cfg fs token a u role seed st))"
| km_regenerate_key: "km_step cfg fs st (fst (regenerate_key cfg fs token a u seed st))"
| km_set_role: "km_step cfg fs st (fst (set_role fs a u role st))"
| km_begin_user_deletion: "km_step cfg fs st (fst (begin_user_deletion fs a u task_id owner_account owner_user st))"
| km_replace_user_deletion_task:
    "km_step cfg fs st (fst (replace_user_deletion_task fs a u expected task_id owner_account owner_user st))"
| km_finish_user_deletion: "km_step cfg fs st (fst (finish_user_deletion fs a u task_id st))"
| km_create_group: "km_step cfg fs st (fst (create_group fs a g st))"
| km_add_group_member: "km_step cfg fs st (fst (add_group_member fs a g u st))"
| km_remove_group_member: "km_step cfg fs st (fst (remove_group_member fs a g u st))"
| km_delete_group: "km_step cfg fs st (fst (delete_group fs a g st))"
| km_load: "km_step cfg fs st (fst (load cfg fs now st))"
| km_reload: "km_step cfg fs st (fst (reload cfg fs st))"

inductive_cases km_stepE: "km_step cfg fs st st'"

definition km_init :: "'s key_fs \<Rightarrow> 's key_state \<Rightarrow> bool" where
  "km_init fs st \<longleftrightarrow> kt_accounts st = [] \<and> kt_index st = [] \<and> kt_groups st = [] \<and> key_store_ok fs (kt_disk st)"

section \<open>Records\<close>

lemma get_str_dset [simp]: "get_str (dset d k v) k' = (if k' = k then (case v of PStr s \<Rightarrow> s | _ \<Rightarrow> []) else get_str d k')"
  by (simp add: get_str_def split: pyval.splits)

lemma get_str_dpop [simp]: "get_str (dpop d k) k' = (if k' = k then [] else get_str d k')"
  by (simp add: get_str_def)

lemma user_role_dset [simp]: "user_role (dset d k v) = (if k = ''role'' then (case v of PStr s \<Rightarrow> s | _ \<Rightarrow> ''user'') else user_role d)"
  by (auto simp: user_role_def split: pyval.splits)

lemma user_role_dpop [simp]: "k \<noteq> ''role'' \<Longrightarrow> user_role (dpop d k) = user_role d"
  by (simp add: user_role_def)

lemma is_deleting_dset [simp]: "is_deleting (dset d k v) = (if k = ''deletion'' then truthy v else is_deleting d)"
  by (simp add: is_deleting_def)

lemma is_deleting_dpop [simp]: "k \<noteq> ''deletion'' \<Longrightarrow> is_deleting (dpop d k) = is_deleting d"
  by (simp add: is_deleting_def)

lemma dset_same: "dget d k = Some v \<Longrightarrow> dset d k v = d"
  by (induction d k v rule: dset.induct) (auto split: if_splits)

lemma dset_dset: "dset (dset d k v) k w = dset d k w"
  by (induction d k v rule: dset.induct) auto

lemma find_set_user: "find_user (set_user accs a u info) a' u' =
    (if a' = a \<and> u' = u \<and> dget accs a \<noteq> None then Some info else find_user accs a' u')"
  by (auto simp: find_user_def set_user_def split: option.splits)

lemma find_user_Some: "find_user accs a u = Some info \<longleftrightarrow> (\<exists>acc. dget accs a = Some acc \<and> dget (ai_users acc) u = Some info)"
  by (auto simp: find_user_def split: option.splits)

lemma values_dget: "list_all P (map snd d) \<Longrightarrow> dget d k = Some v \<Longrightarrow> P v"
  by (induction d k rule: dget.induct) (auto split: if_splits)

lemma values_dset: "list_all P (map snd d) \<Longrightarrow> P v \<Longrightarrow> list_all P (map snd (dset d k v))"
  by (induction d k v rule: dset.induct) auto

lemma values_dpop: "list_all P (map snd d) \<Longrightarrow> list_all P (map snd (dpop d k))"
  by (induction d) (auto simp: dpop_def)

lemma wf_users_dset: "wf_users us \<Longrightarrow> wf_info i \<Longrightarrow> wf_users (dset us u i)"
  unfolding wf_users_def by (blast intro: distinct_dset values_dset)

lemma wf_users_dpop: "wf_users us \<Longrightarrow> wf_users (dpop us u)"
  unfolding wf_users_def by (blast intro: distinct_dpop values_dpop)

lemma wf_accounts_dset: "wf_accounts accs \<Longrightarrow> wf_account acc \<Longrightarrow> wf_accounts (dset accs a acc)"
  unfolding wf_accounts_def by (blast intro: distinct_dset values_dset)

lemma wf_accounts_dpop: "wf_accounts accs \<Longrightarrow> wf_accounts (dpop accs a)"
  unfolding wf_accounts_def by (blast intro: distinct_dpop values_dpop)

lemma wf_account_get: "wf_accounts accs \<Longrightarrow> dget accs a = Some acc \<Longrightarrow> wf_account acc"
  unfolding wf_accounts_def by (rule values_dget) blast

lemma wf_account_users: "wf_accounts accs \<Longrightarrow> dget accs a = Some acc \<Longrightarrow> wf_users (ai_users acc)"
  using wf_account_get by (auto simp: wf_account_def)

lemma wf_find_user: "wf_accounts accs \<Longrightarrow> find_user accs a u = Some info \<Longrightarrow> wf_info info"
  using wf_account_users values_dget by (fastforce simp: find_user_Some wf_users_def)

lemma wf_set_user: "wf_accounts accs \<Longrightarrow> wf_info info \<Longrightarrow> wf_accounts (set_user accs a u info)"
  by (auto simp: wf_account_def set_user_def split: option.split intro!: wf_accounts_dset wf_users_dset dest: wf_account_get)

lemma key_state_order [simp]: "st\<lparr>kt_index := i, kt_accounts := x\<rparr> = st\<lparr>kt_accounts := x, kt_index := i\<rparr>"
  by simp

section \<open>The store\<close>

lemma users_path_inj [simp]: "users_path a = users_path b \<longleftrightarrow> a = b"
  by (simp add: users_path_def)

lemma path_tails:
  "take 7 (rev (users_path a)) = ''nosj.sr''" "take 7 (rev (groups_path a)) = ''nosj.sp''" "take 7 (rev ACCOUNTS_PATH) = ''nosj.st''"
  by (simp_all add: users_path_def groups_path_def ACCOUNTS_PATH_def)

lemma paths_differ [simp]:
  "users_path a \<noteq> groups_path b" "groups_path b \<noteq> users_path a" "users_path a \<noteq> ACCOUNTS_PATH" "ACCOUNTS_PATH \<noteq> users_path a"
  "groups_path a \<noteq> ACCOUNTS_PATH" "ACCOUNTS_PATH \<noteq> groups_path a"
  using path_tails(1) [of a] path_tails(2) [of b] path_tails(2) [of a] path_tails(3) by fastforce+

lemma groups_path_inj [simp]: "groups_path a = groups_path b \<longleftrightarrow> a = b"
  by (simp add: groups_path_def)

lemma objects_PDict [simp]: "objects (map (\<lambda>(k, v). (k, PDict v)) d) = d"
  by (induction d) (auto simp: objects_def)

lemma dkeys_objects: "dkeys (objects d) = dkeys d"
  by (simp add: objects_def dkeys_def comp_def case_prod_beta)

lemma store_ok_write:
  assumes f: "fs_faithful fs" and ok: "key_store_ok fs d"
    and users: "\<And>a us. p = users_path a \<Longrightarrow> v = users_doc us \<Longrightarrow> wf_users (ai_users us)"
    and v: "(\<exists>a us. p = users_path a \<and> v = users_doc us) \<or> (\<exists>a gs. p = groups_path a \<and> v = groups_doc gs \<and> distinct (dkeys gs))
      \<or> p = ACCOUNTS_PATH \<and> (\<exists>accs. v = PDict [(''accounts'', PDict accs)] \<and> distinct (dkeys accs))"
  shows "key_store_ok fs (fst (kf_write fs d p v))"
proof -
  let ?d = "fst (kf_write fs d p v)"
  have r: "kf_read fs ?d q = kf_read fs d q \<or> q = p \<and> (kf_read fs ?d q = Inr (Some v) \<or> (\<exists>e. kf_read fs ?d q = Inl e))" for q
    using f by (auto simp: fs_faithful_def)
  have s: "read_section fs ?d q sec = Inr xs \<Longrightarrow> read_section fs d q sec = Inr xs
      \<or> q = p \<and> xs = (case v of PDict x \<Rightarrow> objects (get_dict x sec) | _ \<Rightarrow> [])" for q sec xs
    using r [of q] by (auto simp: read_section_def split: pyval.split)
  have 1: "wf_users us" if "read_section fs ?d (users_path a) ''users'' = Inr us" for a us
    using s [OF that] ok users v by (auto simp: key_store_ok_def users_doc_def get_dict_def)
  have 2: "distinct (dkeys gs)" if "read_section fs ?d (groups_path a) ''groups'' = Inr gs" for a gs
    using s [OF that] ok v by (auto simp: key_store_ok_def groups_doc_def get_dict_def)
  have 3: "distinct (dkeys xs)" if "read_section fs ?d ACCOUNTS_PATH ''accounts'' = Inr xs" for xs
    using s [OF that] ok v by (auto simp: key_store_ok_def get_dict_def dkeys_objects)
  show ?thesis using 1 2 3 by (auto simp: key_store_ok_def)
qed

lemma store_ok_same: "(\<And>q. kf_read fs d' q = kf_read fs d q) \<Longrightarrow> key_store_ok fs d \<Longrightarrow> key_store_ok fs d'"
  by (simp add: key_store_ok_def read_section_def)

lemma store_ok_locked:
  assumes "fs_faithful fs" "key_store_ok fs d" "\<And>d. key_store_ok fs d \<Longrightarrow> key_store_ok fs (fst (body d))"
  shows "key_store_ok fs (fst (with_path_lock fs p body d))"
proof -
  have "key_store_ok fs (fst (kf_lock fs d p))"
    by (rule store_ok_same [OF _ assms(2)]) (use assms(1) in \<open>simp add: fs_faithful_def\<close>)
  moreover have "key_store_ok fs (kf_unlock fs x p)" if "key_store_ok fs x" for x
    by (rule store_ok_same [OF _ that]) (use assms(1) in \<open>simp add: fs_faithful_def\<close>)
  ultimately show ?thesis using assms(3) [of "fst (kf_lock fs d p)"]
    by (auto simp: with_path_lock_def split: prod.splits sum.splits)
qed

lemma store_ok_save_users:
  assumes "fs_faithful fs" "wf_accounts accs" "key_store_ok fs d"
  shows "key_store_ok fs (fst (save_users_json_for fs a accs d))"
  unfolding save_users_json_for_def
proof (rule store_ok_locked [OF assms(1,3)])
  fix d assume "key_store_ok fs d"
  then show "key_store_ok fs (fst (case dget accs a of None \<Rightarrow> (d, Inr ()) | Some acc \<Rightarrow> kf_write fs d (users_path a) (users_doc acc)))"
    using assms(1) wf_account_users [OF assms(2)]
    by (auto split: option.split intro!: store_ok_write simp: users_doc_def)
       (metis account_info.surjective objects_PDict account_info.select_convs(2))
qed

lemma store_ok_save_accounts:
  assumes "fs_faithful fs" "wf_accounts accs" "key_store_ok fs d"
  shows "key_store_ok fs (fst (with_path_lock fs ACCOUNTS_PATH (\<lambda>d. kf_write fs d ACCOUNTS_PATH (accounts_doc accs)) d))"
proof (rule store_ok_locked [OF assms(1,3)])
  fix d assume ok: "key_store_ok fs d"
  have "distinct (dkeys (map (\<lambda>(a, i). (a, PDict [(''created_at'', PStr (ai_created_at i))])) accs))"
    using assms(2) by (simp add: wf_accounts_def dkeys_def comp_def case_prod_beta)
  then show "key_store_ok fs (fst (kf_write fs d ACCOUNTS_PATH (accounts_doc accs)))"
    by (intro store_ok_write [OF assms(1) ok]) (auto simp: accounts_doc_def)
qed

section \<open>The key index\<close>

definition indexed :: "key_index \<Rightarrow> string \<Rightarrow> user_key_entry \<Rightarrow> bool" where
  "indexed idx p e \<longleftrightarrow> (case dget idx p of None \<Rightarrow> False | Some es \<Rightarrow> e \<in> set es)"

definition unowned :: "key_index \<Rightarrow> string \<Rightarrow> string \<Rightarrow> bool" where
  "unowned idx a u \<longleftrightarrow> (\<forall>p e. indexed idx p e \<longrightarrow> entry_owner e \<noteq> (a, u))"

definition buckets_distinct :: "key_index \<Rightarrow> bool" where
  "buckets_distinct idx \<longleftrightarrow> (\<forall>p. case dget idx p of None \<Rightarrow> True | Some es \<Rightarrow> distinct (map entry_owner es))"

lemma index_ok_iff: "index_ok accs idx \<longleftrightarrow> buckets_distinct idx \<and> (\<forall>p e. indexed idx p e \<longrightarrow> entry_ok accs p e)"
  by (fastforce simp: index_ok_def bucket_ok_def buckets_distinct_def indexed_def split: option.splits)

lemma entry_ok_iff: "entry_ok accs p e \<longleftrightarrow> (\<exists>info. find_user accs (ue_account_id e) (ue_user_id e) = Some info
    \<and> get_str info ''key'' = ue_key_or_hash e \<and> ue_key_or_hash e \<noteq> [] \<and> info_prefix info = p
    \<and> ue_role e = user_role info \<and> ue_is_hashed e = is_argon2 (ue_key_or_hash e))"
  by (auto simp: entry_ok_def split: option.splits)

lemma indexed_drop: "indexed (index_drop idx p a u) q e \<longleftrightarrow> indexed idx q e \<and> \<not> (q = p \<and> entry_owner e = (a, u))"
  by (auto simp: indexed_def index_drop_def entry_owner_def Let_def filter_empty_conv split: option.splits)

lemma distinct_drop: "buckets_distinct idx \<Longrightarrow> buckets_distinct (index_drop idx p a u)"
  unfolding buckets_distinct_def
  by (auto simp: index_drop_def Let_def distinct_map_filter split: option.splits dest: spec [of _ p])

lemma indexed_add: "indexed (index_add idx p e') q e \<longleftrightarrow> indexed idx q e \<or> p \<noteq> [] \<and> q = p \<and> e = e'"
  by (auto simp: indexed_def index_add_def split: option.splits)

lemma index_ok_drop: "index_ok accs idx \<Longrightarrow> index_ok accs (index_drop idx p a u)"
  by (simp add: index_ok_iff indexed_drop distinct_drop)

lemma index_ok_add:
  assumes ok: "index_ok accs idx" and fresh: "unowned idx a u" and e: "entry_ok accs p e" "entry_owner e = (a, u)"
  shows "index_ok accs (index_add idx p e)"
proof -
  have "distinct (map entry_owner (es @ [e]))" if "dget idx p = Some es" for es
  proof -
    have "indexed idx p x" if "x \<in> set es" for x using that \<open>dget idx p = Some es\<close> by (simp add: indexed_def)
    then have "entry_owner e \<notin> set (map entry_owner es)" using fresh e(2) by (fastforce simp: unowned_def)
    moreover have "distinct (map entry_owner es)" using ok that by (auto simp: index_ok_def bucket_ok_def split: option.splits)
    ultimately show ?thesis by simp
  qed
  then have "buckets_distinct (index_add idx p e)"
    using ok by (auto simp: index_ok_iff buckets_distinct_def index_add_def split: option.splits)
  then show ?thesis using ok e by (auto simp: index_ok_iff indexed_add)
qed

lemma dropped_unowned:
  assumes "index_ok accs idx" "find_user accs a u = Some info"
  shows "unowned (index_drop idx (info_prefix info) a u) a u"
  using assms by (fastforce simp: unowned_def indexed_drop index_ok_iff entry_ok_iff entry_owner_def)

lemma removed_unowned:
  assumes "index_ok accs idx" "find_user accs a u = Some info"
  shows "unowned (remove_key_index_entry idx a u info) a u"
  using dropped_unowned [OF assms] assms
  by (fastforce simp: remove_key_index_entry_def unowned_def index_ok_iff entry_ok_iff entry_owner_def)

lemma absent_unowned: "index_ok accs idx \<Longrightarrow> find_user accs a u = None \<Longrightarrow> unowned idx a u"
  by (fastforce simp: unowned_def index_ok_iff entry_ok_iff entry_owner_def)

lemma index_ok_remove: "index_ok accs idx \<Longrightarrow> index_ok accs (remove_key_index_entry idx a u info)"
  by (simp add: remove_key_index_entry_def index_ok_drop)

lemma index_ok_change:
  assumes "index_ok accs idx" "unowned idx a u" "\<And>a' u'. (a', u') \<noteq> (a, u) \<Longrightarrow> find_user accs' a' u' = find_user accs a' u'"
  shows "index_ok accs' idx"
proof -
  have "entry_ok accs' p e" if "indexed idx p e" for p e
  proof -
    have "(ue_account_id e, ue_user_id e) \<noteq> (a, u)" using assms(2) that by (force simp: unowned_def entry_owner_def)
    then show ?thesis using assms(1,3) that by (simp add: index_ok_iff entry_ok_iff)
  qed
  then show ?thesis using assms(1) by (simp add: index_ok_iff)
qed

lemma index_ok_cong: "find_user accs' = find_user accs \<Longrightarrow> index_ok accs' idx \<longleftrightarrow> index_ok accs idx"
  by (simp add: index_ok_iff entry_ok_iff)

lemma index_ok_grow: "index_ok accs idx \<Longrightarrow> dget accs a = None \<Longrightarrow> index_ok (dset accs a acc) idx"
  by (fastforce simp: index_ok_iff entry_ok_iff find_user_def split: option.splits)

lemma indexed_discard:
  "indexed (fold (\<lambda>(u, info) idx. remove_key_index_entry idx a u info) us idx) q e \<longleftrightarrow>
    indexed idx q e \<and> \<not> (\<exists>(u, info) \<in> set us. get_str info ''key'' \<noteq> [] \<and> q = info_prefix info \<and> entry_owner e = (a, u))"
proof (induction us arbitrary: idx)
  case (Cons x us)
  obtain u info where x: "x = (u, info)" by (cases x)
  have "indexed (remove_key_index_entry idx a u info) q e \<longleftrightarrow>
      indexed idx q e \<and> \<not> (get_str info ''key'' \<noteq> [] \<and> q = info_prefix info \<and> entry_owner e = (a, u))"
    by (simp add: remove_key_index_entry_def indexed_drop)
  then show ?case using Cons [of "remove_key_index_entry idx a u info"] by (auto simp: x)
qed simp

lemma distinct_discard: "buckets_distinct idx \<Longrightarrow> buckets_distinct (fold (\<lambda>(u, info) idx. remove_key_index_entry idx a u info) us idx)"
  by (induction us arbitrary: idx) (auto simp: remove_key_index_entry_def distinct_drop)

lemma index_ok_discard:
  assumes ok: "index_ok accs idx" and acc: "dget accs a = Some acc"
  shows "index_ok (dpop accs a) (fold (\<lambda>(u, info) idx. remove_key_index_entry idx a u info) (ai_users acc) idx)"
    (is "index_ok _ ?idx")
proof -
  have "entry_ok (dpop accs a) p e" if i: "indexed ?idx p e" for p e
  proof -
    from i ok obtain info where info: "find_user accs (ue_account_id e) (ue_user_id e) = Some info" "get_str info ''key'' \<noteq> []"
        "info_prefix info = p" and e: "entry_ok accs p e"
      by (fastforce simp: indexed_discard index_ok_iff entry_ok_iff)
    have "ue_account_id e \<noteq> a"
    proof
      assume a: "ue_account_id e = a"
      then have "(ue_user_id e, info) \<in> set (ai_users acc)" using info(1) acc by (auto simp: find_user_Some dget_in_set)
      then show False using i info(2,3) a by (force simp: indexed_discard entry_owner_def)
    qed
    then show ?thesis using e by (simp add: entry_ok_iff find_user_def)
  qed
  then show ?thesis using ok by (simp add: index_ok_iff distinct_discard)
qed

lemma index_ok_absent: "index_ok accs idx \<Longrightarrow> dget accs a = None \<Longrightarrow> index_ok (dpop accs a) idx"
  by (fastforce simp: index_ok_iff entry_ok_iff find_user_Some)

section \<open>The group index\<close>

lemma dupdate_sound: "dget (dupdate d e) k = Some v \<Longrightarrow> dget d k = Some v \<or> (k, v) \<in> set e"
  by (induction d e rule: dupdate.induct) (auto split: if_splits)

definition memberships_sound :: "(string \<times> pydict) list \<Rightarrow> (string \<times> pydict) list \<Rightarrow> (string \<times> string list) list \<Rightarrow> bool" where
  "memberships_sound users groups acc \<longleftrightarrow>
     (\<forall>(u, gs) \<in> set acc. dget users u \<noteq> None \<and> (\<forall>g \<in> set gs. \<exists>grp. (g, grp) \<in> set groups \<and> u \<in> set (members_of grp)))"

lemma add_membership_sound:
  assumes "memberships_sound users groups acc" "dget users u \<noteq> None" "(g, grp) \<in> set groups" "u \<in> set (members_of grp)"
  shows "memberships_sound users groups (add_membership acc g u)"
proof -
  define old where "old = (case dget acc u of None \<Rightarrow> [] | Some gs \<Rightarrow> gs)"
  have old: "\<exists>grp. (h, grp) \<in> set groups \<and> u \<in> set (members_of grp)" if h: "h \<in> set old" for h
  proof -
    from h obtain gs where gs: "dget acc u = Some gs" "h \<in> set gs" by (cases "dget acc u") (auto simp: old_def)
    then show ?thesis using assms(1) dget_in_set [OF gs(1)] by (auto simp: memberships_sound_def)
  qed
  have sub: "set (add_membership acc g u) \<subseteq> insert (u, old @ [g]) (set acc)"
    unfolding add_membership_def old_def by (rule set_dset_subset)
  show ?thesis unfolding memberships_sound_def
  proof (rule ballI, clarify, rule conjI)
    fix v hs assume "(v, hs) \<in> set (add_membership acc g u)"
    with sub consider "v = u" "hs = old @ [g]" | "(v, hs) \<in> set acc" by blast
    then show "dget users v \<noteq> None" "\<forall>h \<in> set hs. \<exists>grp. (h, grp) \<in> set groups \<and> v \<in> set (members_of grp)"
      using assms old by (cases; auto simp: memberships_sound_def)+
  qed
qed

lemma members_fold_sound:
  assumes "memberships_sound users groups acc" "(g, grp) \<in> set groups" "set us \<subseteq> set (members_of grp)"
  shows "memberships_sound users groups (fold (\<lambda>u acc. if dget users u \<noteq> None then add_membership acc g u else acc) us acc)"
  using assms by (induction us arbitrary: acc) (auto simp: add_membership_sound)

lemma groups_fold_sound:
  assumes "memberships_sound users groups acc" "set gs \<subseteq> set groups"
  shows "memberships_sound users groups
    (fold (\<lambda>(g, grp) acc. fold (\<lambda>u acc. if dget users u \<noteq> None then add_membership acc g u else acc) (members_of grp) acc) gs acc)"
  using assms
proof (induction gs arbitrary: acc)
  case (Cons x gs)
  obtain g grp where x: "x = (g, grp)" by (cases x)
  have "memberships_sound users groups (fold (\<lambda>u acc. if dget users u \<noteq> None then add_membership acc g u else acc) (members_of grp) acc)"
    using Cons.prems by (intro members_fold_sound [of _ _ _ g grp]) (auto simp: x)
  from Cons.IH [OF this] show ?case using Cons.prems(2) by (simp add: x)
qed simp

lemma group_memberships_sound:
  assumes "(u, gs) \<in> set (group_memberships users groups)" "g \<in> set gs"
  shows "dget users u \<noteq> None \<and> (\<exists>grp. (g, grp) \<in> set groups \<and> u \<in> set (members_of grp))"
proof -
  let ?m = "fold (\<lambda>(g, grp) acc. fold (\<lambda>u acc. if dget users u \<noteq> None then add_membership acc g u else acc) (members_of grp) acc) groups []"
  have m: "memberships_sound users groups ?m"
    by (rule groups_fold_sound) (simp_all add: memberships_sound_def)
  from assms obtain gs' where "(u, gs') \<in> set ?m" "gs = sort (remdups gs')" by (auto simp: group_memberships_def)
  with m assms(2) show ?thesis by (auto simp: memberships_sound_def)
qed

lemma dget_discard_group: "dget (discard_account_group_index gi a) (a', u) = (if a' = a then None else dget gi (a', u))"
  by (induction gi) (auto simp: discard_account_group_index_def)

lemma groups_ok_get: "groups_ok accs gi \<Longrightarrow> dget gi (a, u) = Some gs \<Longrightarrow> g \<in> set gs \<Longrightarrow> member_of_group accs a u g"
  by (force simp: groups_ok_def split: option.splits)

lemma groups_okI: "(\<And>a u gs g. dget gi (a, u) = Some gs \<Longrightarrow> g \<in> set gs \<Longrightarrow> member_of_group accs a u g) \<Longrightarrow> groups_ok accs gi"
  by (simp add: groups_ok_def split: option.splits)

lemma groups_ok_mono:
  assumes "groups_ok accs gi" "\<And>a u g. member_of_group accs a u g \<Longrightarrow> member_of_group accs' a u g"
  shows "groups_ok accs' gi"
  by (rule groups_okI) (use assms groups_ok_get in blast)

lemma groups_ok_discard:
  assumes "groups_ok accs gi" "\<And>a'. a' \<noteq> a \<Longrightarrow> dget accs' a' = dget accs a'"
  shows "groups_ok accs' (discard_account_group_index gi a)"
  by (rule groups_okI) (use assms groups_ok_get in \<open>fastforce simp: dget_discard_group member_of_group_def split: if_splits\<close>)

lemma groups_ok_add:
  assumes "groups_ok accs gi" "dget accs a = Some acc" "distinct (dkeys (ai_groups acc))"
  shows "groups_ok accs (add_account_groups gi a acc)"
proof (rule groups_okI)
  fix a' u gs g assume g: "dget (add_account_groups gi a acc) (a', u) = Some gs" "g \<in> set gs"
  then consider "dget gi (a', u) = Some gs" | "a' = a" "(u, gs) \<in> set (group_memberships (ai_users acc) (ai_groups acc))"
    using dupdate_sound by (fastforce simp: add_account_groups_def)
  then show "member_of_group accs a' u g"
  proof cases
    case 2
    then show ?thesis using group_memberships_sound [OF 2(2) g(2)] in_set_dget [OF assms(3)] assms(2)
      by (fastforce simp: member_of_group_def)
  qed (use assms(1) g groups_ok_get in blast)
qed

lemma member_set_user: "dget accs a = Some acc \<Longrightarrow> member_of_group accs a' u' g \<Longrightarrow> member_of_group (set_user accs a u info) a' u' g"
  by (auto simp: member_of_group_def set_user_def split: option.splits if_splits)

section \<open>Every call keeps the invariant\<close>

definition mem_inv :: "'s key_state \<Rightarrow> bool" where
  "mem_inv st \<longleftrightarrow> wf_accounts (kt_accounts st) \<and> index_ok (kt_accounts st) (kt_index st) \<and> groups_ok (kt_accounts st) (kt_groups st)"

lemma key_inv_iff: "key_inv fs st \<longleftrightarrow> mem_inv st \<and> key_store_ok fs (kt_disk st)"
  by (auto simp: key_inv_def mem_inv_def)

text \<open>A save leaves memory alone and the store well-formed.\<close>

definition saved :: "'s key_fs \<Rightarrow> 's key_state \<Rightarrow> 's key_state \<Rightarrow> bool" where
  "saved fs st st' \<longleftrightarrow> kt_accounts st' = kt_accounts st \<and> kt_index st' = kt_index st \<and> kt_groups st' = kt_groups st \<and> key_store_ok fs (kt_disk st')"

lemma saved_inv: "saved fs st st' \<Longrightarrow> mem_inv st \<Longrightarrow> key_inv fs st'"
  by (auto simp: saved_def key_inv_iff mem_inv_def)

lemma save_users_saved:
  assumes "save_users_json fs a st = (st', r)" "fs_faithful fs" "wf_accounts (kt_accounts st)" "key_store_ok fs (kt_disk st)"
  shows "saved fs st st'"
  using assms(1) store_ok_save_users [OF assms(2-4), of a] by (auto simp: saved_def save_users_json_def split: prod.splits)

lemma save_accounts_saved:
  assumes "save_accounts_json fs st = (st', r)" "fs_faithful fs" "wf_accounts (kt_accounts st)" "key_store_ok fs (kt_disk st)"
  shows "saved fs st st'"
  using assms(1) store_ok_save_accounts [OF assms(2-4)] by (auto simp: saved_def save_accounts_json_def split: prod.splits)

lemma write_groups_saved:
  assumes "write_groups_json fs a gs st = (st', r)" "fs_faithful fs" "distinct (dkeys gs)" "key_store_ok fs (kt_disk st)"
  shows "saved fs st st'"
proof -
  have "key_store_ok fs (fst (kf_write fs (kt_disk st) (groups_path a) (groups_doc gs)))"
    by (rule store_ok_write [OF assms(2,4)]) (use assms(3) in auto)
  then show ?thesis using assms(1) by (auto simp: saved_def write_groups_json_def split: prod.splits)
qed

lemma dget_acc_set: "dget accs a = Some acc \<Longrightarrow> find_user (dset accs a acc') a' u' =
    (if a' = a then dget (ai_users acc') u' else find_user accs a' u')"
  by (simp add: find_user_def)

text \<open>Rebuilding the group index of the account whose entry changed.\<close>

lemma groups_ok_rebuild:
  assumes "groups_ok accs (kt_groups st)" "\<And>a'. a' \<noteq> a \<Longrightarrow> dget (kt_accounts st) a' = dget accs a'" "wf_accounts (kt_accounts st)"
  shows "groups_ok (kt_accounts st) (kt_groups (rebuild_account_group_index a st))"
proof -
  have d: "groups_ok (kt_accounts st) (discard_account_group_index (kt_groups st) a)" using assms(1,2) by (rule groups_ok_discard)
  show ?thesis
  proof (cases "dget (kt_accounts st) a")
    case None
    then show ?thesis using d by (simp add: rebuild_account_group_index_def Let_def)
  next
    case (Some acc)
    then show ?thesis using groups_ok_add [OF d Some] wf_account_get [OF assms(3) Some]
      by (simp add: rebuild_account_group_index_def Let_def wf_account_def)
  qed
qed

lemma rebuild_fields [simp]:
  "kt_accounts (rebuild_account_group_index a st) = kt_accounts st" "kt_index (rebuild_account_group_index a st) = kt_index st"
  "kt_disk (rebuild_account_group_index a st) = kt_disk st"
  by (simp_all add: rebuild_account_group_index_def Let_def)

lemma set_groups_fields [simp]: "kt_index (set_groups a gs st) = kt_index st" "kt_disk (set_groups a gs st) = kt_disk st"
  by (simp_all add: set_groups_def split: option.split)

lemma mem_inv_set_groups:
  assumes "mem_inv st" "distinct (dkeys gs)"
  shows "mem_inv (rebuild_account_group_index a (set_groups a gs st))"
proof -
  let ?st = "set_groups a gs st"
  have "wf_accounts (kt_accounts ?st)"
    using assms wf_account_get [of "kt_accounts st" a]
    by (auto simp: set_groups_def mem_inv_def wf_account_def split: option.split intro!: wf_accounts_dset)
  moreover have "find_user (kt_accounts ?st) = find_user (kt_accounts st)"
    by (intro ext) (simp add: set_groups_def find_user_def split: option.split)
  then have "index_ok (kt_accounts ?st) (kt_index st)" using assms(1) index_ok_cong by (metis mem_inv_def)
  moreover have "groups_ok (kt_accounts ?st) (kt_groups (rebuild_account_group_index a ?st))"
    by (rule groups_ok_rebuild [of "kt_accounts st"])
      (use assms(1) calculation(1) in \<open>auto simp: set_groups_def mem_inv_def split: option.split\<close>)
  ultimately show ?thesis by (simp add: mem_inv_def)
qed

lemma replace_groups_inv:
  assumes "fs_faithful fs" "key_inv fs st" "distinct (dkeys gs)"
  shows "key_inv fs (fst (replace_groups fs a gs st))"
proof -
  obtain st1 r where w: "write_groups_json fs a gs st = (st1, r)" by (cases "write_groups_json fs a gs st")
  have s: "saved fs st st1" using write_groups_saved [OF w assms(1,3)] assms(2) by (simp add: key_inv_iff)
  then have inv1: "key_inv fs st1" using assms(2) saved_inv by (auto simp: key_inv_iff)
  then have "mem_inv (rebuild_account_group_index a (set_groups a gs st1))"
    using assms(3) mem_inv_set_groups by (auto simp: key_inv_iff)
  moreover have "kt_disk (rebuild_account_group_index a (set_groups a gs st1)) = kt_disk st1"
    by (simp add: rebuild_account_group_index_def set_groups_def Let_def split: option.split)
  ultimately show ?thesis using inv1 w by (auto simp: replace_groups_def key_inv_iff split: sum.splits)
qed

lemma account_groups_distinct: "key_inv fs st \<Longrightarrow> dget (kt_accounts st) a = Some acc \<Longrightarrow> distinct (dkeys (ai_groups acc))"
  using wf_account_get by (auto simp: key_inv_def wf_account_def)

lemmas group_call_rules = replace_groups_inv account_groups_distinct distinct_dset distinct_dpop

lemma fst_case_sum [simp]: "fst (case p of (st1, Inl e) \<Rightarrow> (st1, Inl e) | (st1, Inr x) \<Rightarrow> (st1, Inr (f x))) = fst p"
  by (simp split: prod.splits sum.splits)

lemma create_group_inv: "fs_faithful fs \<Longrightarrow> key_inv fs st \<Longrightarrow> key_inv fs (fst (create_group fs a g st))"
  by (simp add: create_group_def split: option.splits) (auto intro!: group_call_rules)

lemma add_group_member_inv: "fs_faithful fs \<Longrightarrow> key_inv fs st \<Longrightarrow> key_inv fs (fst (add_group_member fs a g u st))"
  by (simp add: add_group_member_def split: option.splits) (auto intro!: group_call_rules)

lemma remove_group_member_inv: "fs_faithful fs \<Longrightarrow> key_inv fs st \<Longrightarrow> key_inv fs (fst (remove_group_member fs a g u st))"
  by (simp add: remove_group_member_def split: option.splits) (auto intro!: group_call_rules)

lemma delete_group_inv: "fs_faithful fs \<Longrightarrow> key_inv fs st \<Longrightarrow> key_inv fs (fst (delete_group fs a g st))"
  by (simp add: delete_group_def split: option.splits) (auto intro!: group_call_rules)

subsection \<open>Accounts and users\<close>

lemma generated_not_argon2: "generate_api_key sha a u seed token = Inr key \<Longrightarrow> key \<noteq> [] \<and> \<not> is_argon2 key"
  using generated_plain [of sha a u seed token key] by (cases key) (auto simp: is_argon2_def startswith_def)

text \<open>A record that holds a new key.\<close>

definition holds_key :: "key_cfg \<Rightarrow> string \<Rightarrow> pydict \<Rightarrow> bool" where
  "holds_key cfg key info \<longleftrightarrow> get_str info ''key'' = stored_form cfg key
     \<and> get_str info ''key_prefix'' = (if kc_hashing cfg then get_key_prefix key else []) \<and> \<not> is_deleting info"

lemma holds_fresh: "holds_key cfg key (fresh_info cfg role key)"
  by (simp add: holds_key_def fresh_info_def get_str_def is_deleting_def)

lemma holds_rotated: "\<not> is_deleting info \<Longrightarrow> holds_key cfg key (rotated_info cfg key info)"
  by (simp add: holds_key_def rotated_info_def Let_def)

lemma stored_marked:
  assumes "hashes_marked cfg" "key \<noteq> []" "\<not> is_argon2 key"
  shows "is_argon2 (stored_form cfg key) = kc_hashing cfg" "stored_form cfg key \<noteq> []"
proof -
  have "\<not> is_argon2 []" by (simp add: is_argon2_def startswith_def)
  then have "kc_hash cfg key \<noteq> []" using assms(1) by (metis hashes_marked_def)
  then show "is_argon2 (stored_form cfg key) = kc_hashing cfg" "stored_form cfg key \<noteq> []"
    using assms by (auto simp: stored_form_def hashes_marked_def)
qed

lemma holds_key_wf: "holds_key cfg key info \<Longrightarrow> hashes_marked cfg \<Longrightarrow> key \<noteq> [] \<Longrightarrow> \<not> is_argon2 key \<Longrightarrow> wf_info info"
  using stored_marked [of cfg key] by (auto simp: holds_key_def wf_info_def)

lemma holds_key_entry_ok:
  assumes "holds_key cfg key info" "hashes_marked cfg" "key \<noteq> []" "\<not> is_argon2 key"
    and "find_user accs a u = Some info" "user_role info = role"
  shows "entry_ok accs (get_key_prefix key) (fresh_entry cfg a u role key)"
proof -
  have "get_key_prefix key \<noteq> []" using assms(3) by (simp add: get_key_prefix_def)
  moreover have "stored_form cfg key = key" if "\<not> kc_hashing cfg" using that by (simp add: stored_form_def)
  ultimately have "info_prefix info = get_key_prefix key" using assms(1) by (auto simp: holds_key_def info_prefix_def)
  then show ?thesis using assms stored_marked [OF assms(2-4)] by (auto simp: entry_ok_iff fresh_entry_def holds_key_def)
qed

lemma fresh_entry_owner: "entry_owner (fresh_entry cfg a u role key) = (a, u)"
  by (simp add: entry_owner_def fresh_entry_def)

lemma user_role_fresh: "user_role (fresh_info cfg role key) = role"
  by (simp add: user_role_def fresh_info_def)

text \<open>Giving a user a record with a new key, when no entry of the index is left for the user.\<close>

lemma index_ok_new_key:
  assumes "index_ok accs idx" "unowned idx a u" "\<And>a' u'. (a', u') \<noteq> (a, u) \<Longrightarrow> find_user accs' a' u' = find_user accs a' u'"
    and "find_user accs' a u = Some info" "holds_key cfg key info" "user_role info = role"
    and "hashes_marked cfg" "key \<noteq> []" "\<not> is_argon2 key"
  shows "index_ok accs' (index_add idx (get_key_prefix key) (fresh_entry cfg a u role key))"
  using index_ok_change [OF assms(1-3)] holds_key_entry_ok [OF assms(5,7-9,4,6)] assms(2)
  by (intro index_ok_add) (simp_all add: fresh_entry_owner)

lemma mem_inv_discard:
  assumes "mem_inv st"
  shows "mem_inv (discard_account_state a st)"
proof -
  have "groups_ok (dpop (kt_accounts st) a) (discard_account_group_index (kt_groups st) a)"
    using assms by (intro groups_ok_discard [of "kt_accounts st"]) (simp_all add: mem_inv_def)
  then show ?thesis using assms index_ok_discard [of "kt_accounts st" "kt_index st" a] index_ok_absent [of "kt_accounts st" "kt_index st" a]
    by (auto simp: discard_account_state_def Let_def mem_inv_def wf_accounts_dpop split: option.split)
qed

lemma discard_disk [simp]: "kt_disk (discard_account_state a st) = kt_disk st"
  by (simp add: discard_account_state_def Let_def split: option.split)

lemma save_accounts_inv:
  assumes "fs_faithful fs" "key_inv fs st"
  shows "key_inv fs (fst (save_accounts_json fs st))"
  using save_accounts_saved [OF prod.collapse [symmetric] assms(1)] saved_inv assms(2) by (fastforce simp: key_inv_iff mem_inv_def)

lemma save_users_inv:
  assumes "fs_faithful fs" "key_inv fs st"
  shows "key_inv fs (fst (save_users_json fs a st))"
  using save_users_saved [OF prod.collapse [symmetric] assms(1)] saved_inv assms(2) by (fastforce simp: key_inv_iff mem_inv_def)

lemma write_groups_inv:
  assumes "fs_faithful fs" "key_inv fs st" "distinct (dkeys gs)"
  shows "key_inv fs (fst (write_groups_json fs a gs st))"
  using write_groups_saved [OF prod.collapse [symmetric] assms(1,3)] saved_inv assms(2) by (fastforce simp: key_inv_iff)

lemma discard_inv: "key_inv fs st \<Longrightarrow> key_inv fs (discard_account_state a st)"
  by (simp add: key_inv_iff mem_inv_discard)

lemma rollback_inv: "fs_faithful fs \<Longrightarrow> key_inv fs st \<Longrightarrow> key_inv fs (rollback_create_account fs a st)"
  by (simp add: rollback_create_account_def save_accounts_inv discard_inv)

lemma delete_account_inv: "fs_faithful fs \<Longrightarrow> key_inv fs st \<Longrightarrow> key_inv fs (fst (delete_account fs a st))"
  by (simp add: delete_account_def save_accounts_inv discard_inv)

lemma install_account_inv:
  assumes f: "fs_faithful fs" and m: "hashes_marked cfg" and inv: "key_inv fs st" and new: "dget (kt_accounts st) a = None"
    and key: "key \<noteq> []" "\<not> is_argon2 key"
  shows "key_inv fs (fst (install_account cfg fs now a u key st))"
proof -
  let ?acc = "\<lparr>ai_created_at = now, ai_users = [(u, fresh_info cfg ''admin'' key)], ai_groups = []\<rparr>"
  let ?accs = "dset (kt_accounts st) a ?acc"
  define st1 where "st1 = st\<lparr>kt_accounts := ?accs, kt_index := index_add (kt_index st) (get_key_prefix key) (fresh_entry cfg a u Role_ADMIN key)\<rparr>"
  have "wf_accounts ?accs"
    using inv holds_key_wf [OF holds_fresh m key] by (intro wf_accounts_dset) (simp_all add: key_inv_def wf_account_def wf_users_def dkeys_def)
  moreover have "index_ok ?accs (index_add (kt_index st) (get_key_prefix key) (fresh_entry cfg a u Role_ADMIN key))"
    using inv new by (intro index_ok_new_key [OF _ _ _ _ holds_fresh _ m key, of "kt_accounts st"] absent_unowned)
      (auto simp: key_inv_def find_user_def user_role_fresh Role_ADMIN_def)
  moreover have "groups_ok ?accs (kt_groups st)"
    using inv new by (auto simp: key_inv_def member_of_group_def split: option.splits if_splits elim!: groups_ok_mono)
  ultimately have 1: "key_inv fs st1" using inv by (simp add: key_inv_def st1_def)
  note keep = save_accounts_inv [OF f] save_users_inv [OF f] write_groups_inv [OF f]
  have 2: "key_inv fs (fst (save_accounts_json fs st1))"
    and 3: "key_inv fs (fst (save_users_json fs a (fst (save_accounts_json fs st1))))"
    and 4: "key_inv fs (fst (write_groups_json fs a [] (fst (save_users_json fs a (fst (save_accounts_json fs st1))))))"
    using 1 keep by (simp_all add: dkeys_def)
  show ?thesis using 2 3 4 rollback_inv [OF f]
    unfolding install_account_def st1_def [symmetric] Let_def by (auto split: prod.splits sum.splits)
qed

lemma create_account_inv:
  assumes "fs_faithful fs" "hashes_marked cfg" "key_inv fs st"
  shows "key_inv fs (fst (create_account cfg fs now token a u seed st))"
  using assms install_account_inv [OF assms] generated_not_argon2 by (auto simp: create_account_def split: sum.splits)

lemma groups_ok_set_user: "groups_ok accs gi \<Longrightarrow> dget accs a = Some acc \<Longrightarrow> groups_ok (set_user accs a u info) gi"
  by (erule groups_ok_mono) (rule member_set_user)

text \<open>A new record for a user without an entry of the index; with the entry of a new key; and with the key gone.\<close>

lemma key_inv_set_unowned:
  assumes "key_inv fs st" "dget (kt_accounts st) a = Some acc" "index_ok (kt_accounts st) idx" "unowned idx a u" "wf_info info"
  shows "key_inv fs (st\<lparr>kt_accounts := set_user (kt_accounts st) a u info, kt_index := idx\<rparr>)"
proof -
  have "index_ok (set_user (kt_accounts st) a u info) idx"
    by (rule index_ok_change [OF assms(3,4)]) (auto simp: find_set_user)
  then show ?thesis using assms by (simp add: key_inv_def wf_set_user groups_ok_set_user)
qed

lemma key_inv_new_key:
  assumes inv: "key_inv fs st" and acc: "dget (kt_accounts st) a = Some acc"
    and idx: "index_ok (kt_accounts st) idx" "unowned idx a u"
    and info: "holds_key cfg key info" "user_role info = role" and m: "hashes_marked cfg" and key: "key \<noteq> []" "\<not> is_argon2 key"
  shows "key_inv fs (st\<lparr>kt_accounts := set_user (kt_accounts st) a u info,
    kt_index := index_add idx (get_key_prefix key) (fresh_entry cfg a u role key)\<rparr>)"
proof -
  have "index_ok (set_user (kt_accounts st) a u info) (index_add idx (get_key_prefix key) (fresh_entry cfg a u role key))"
    using acc by (intro index_ok_new_key [OF idx _ _ info m key]) (auto simp: find_set_user)
  then show ?thesis using inv acc holds_key_wf [OF info(1) m key] by (simp add: key_inv_def wf_set_user groups_ok_set_user)
qed

lemma install_user_inv:
  assumes "fs_faithful fs" "hashes_marked cfg" "key_inv fs st" "dget (kt_accounts st) a = Some acc" "dget (ai_users acc) u = None"
    and "key \<noteq> []" "\<not> is_argon2 key"
  shows "key_inv fs (fst (install_user cfg fs a u role key st))"
proof -
  have "index_ok (kt_accounts st) (kt_index st)" using assms(3) by (simp add: key_inv_def)
  moreover from this have "unowned (kt_index st) a u" by (rule absent_unowned) (use assms(4,5) in \<open>simp add: find_user_def\<close>)
  ultimately show ?thesis
    using save_users_inv [OF assms(1) key_inv_new_key [OF assms(3,4) _ _ holds_fresh user_role_fresh assms(2,6,7)]]
    by (simp add: install_user_def Let_def case_prod_beta)
qed

lemma register_user_inv:
  assumes "fs_faithful fs" "hashes_marked cfg" "key_inv fs st"
  shows "key_inv fs (fst (register_user cfg fs token a u role seed st))"
  using assms install_user_inv [OF assms] generated_not_argon2
  by (auto simp: register_user_def register_with_def split: sum.splits option.splits)

lemma old_prefix_eq: "(if get_str info ''key_prefix'' = [] \<and> get_str info ''key'' \<noteq> []
    then get_key_prefix (get_str info ''key'') else get_str info ''key_prefix'') = info_prefix info"
  by (simp add: info_prefix_def get_key_prefix_def)

lemma user_role_rotated: "user_role (rotated_info cfg key info) = user_role info"
  by (simp add: rotated_info_def Let_def)

lemma user_role_get: "dget info ''role'' = Some (PStr role) \<Longrightarrow> user_role info = role"
  by (simp add: user_role_def)

lemma regenerate_key_inv:
  assumes f: "fs_faithful fs" and m: "hashes_marked cfg" and inv: "key_inv fs st"
  shows "key_inv fs (fst (regenerate_key cfg fs token a u seed st))"
proof (cases "\<exists>acc info. dget (kt_accounts st) a = Some acc \<and> dget (ai_users acc) u = Some info \<and> \<not> is_deleting info")
  case False
  then show ?thesis using inv by (auto simp: regenerate_key_def regenerate_with_def split: option.splits)
next
  case True
  then obtain acc info where acc: "dget (kt_accounts st) a = Some acc" and info: "dget (ai_users acc) u = Some info" and nd: "\<not> is_deleting info"
    by blast
  let ?idx = "index_drop (kt_index st) (info_prefix info) a u"
  have ok: "index_ok (kt_accounts st) (kt_index st)" and fu: "find_user (kt_accounts st) a u = Some info"
    using inv acc info by (auto simp: key_inv_def find_user_def)
  have idx: "index_ok (kt_accounts st) ?idx" "unowned ?idx a u"
    using index_ok_drop [OF ok] dropped_unowned [OF ok fu] by auto
  have dropped: "key_inv fs (st\<lparr>kt_index := ?idx\<rparr>)" using inv idx by (simp add: key_inv_def)
  show ?thesis
  proof (cases "generate_api_key (kc_sha cfg) a u seed token")
    case (Inl e)
    then show ?thesis using dropped acc info nd by (simp add: regenerate_key_def regenerate_with_def old_prefix_eq Let_def)
  next
    case (Inr key)
    then have key: "key \<noteq> []" "\<not> is_argon2 key" using generated_not_argon2 by auto
    note h = holds_rotated [OF nd, of cfg key]
    have new: "key_inv fs (st\<lparr>kt_accounts := set_user (kt_accounts st) a u (rotated_info cfg key info),
        kt_index := index_add ?idx (get_key_prefix key) (fresh_entry cfg a u (user_role info) key)\<rparr>)"
      by (rule key_inv_new_key [OF inv acc idx h user_role_rotated m key])
    have gone: "key_inv fs (st\<lparr>kt_accounts := set_user (kt_accounts st) a u (rotated_info cfg key info), kt_index := ?idx\<rparr>)"
      by (rule key_inv_set_unowned [OF inv acc idx holds_key_wf [OF h m key]])
    show ?thesis using save_users_inv [OF f new] gone acc info nd Inr
      by (auto simp: regenerate_key_def regenerate_with_def old_prefix_eq Let_def case_prod_beta
          dest!: user_role_get split: option.splits pyval.splits)
  qed
qed

lemma update_first_role_map:
  "distinct (map entry_owner es) \<Longrightarrow>
    update_first_role a u role es = map (\<lambda>e. if entry_owner e = (a, u) then e\<lparr>ue_role := role\<rparr> else e) es"
proof (induction es)
  case (Cons e es)
  show ?case
  proof (cases "entry_owner e = (a, u)")
    case True
    then have "map (\<lambda>e. if entry_owner e = (a, u) then e\<lparr>ue_role := role\<rparr> else e) es = es"
      using Cons.prems by (intro map_idI) (auto simp: image_iff)
    then show ?thesis using True by (simp add: entry_owner_def)
  qed (use Cons in \<open>auto simp: entry_owner_def\<close>)
qed simp

lemma owner_update: "entry_owner (e\<lparr>ue_role := role\<rparr>) = entry_owner e"
  by (simp add: entry_owner_def)

lemma index_ok_set_role:
  assumes ok: "index_ok accs idx" and fu: "find_user accs a u = Some info"
    and change: "\<And>a' u'. find_user accs' a' u' = (if (a', u') = (a, u) then Some (dset info ''role'' (PStr role)) else find_user accs a' u')"
  shows "index_ok accs' (if get_str info ''key'' = [] then idx else case dget idx (info_prefix info) of
      None \<Rightarrow> idx | Some es \<Rightarrow> dset idx (info_prefix info) (update_first_role a u role es))" (is "index_ok _ ?idx")
proof -
  let ?f = "\<lambda>e. if entry_owner e = (a, u) then e\<lparr>ue_role := role\<rparr> else e"
  have owner: "entry_owner e = (a, u) \<Longrightarrow> indexed idx p e \<Longrightarrow> p = info_prefix info \<and> get_str info ''key'' \<noteq> []" for p e
    using ok fu by (fastforce simp: index_ok_iff entry_ok_iff entry_owner_def)
  have keep: "entry_ok accs' p (?f e)" if "indexed idx p e" for p e
    using ok that fu change by (fastforce simp: index_ok_iff entry_ok_iff entry_owner_def info_prefix_def)
  have bucket: "bucket_ok accs' p (map ?f es)" if "dget idx p = Some es" for p es
  proof -
    have "entry_owner \<circ> ?f = entry_owner" by (auto simp: owner_update)
    moreover have "distinct (map entry_owner es)" using ok that by (auto simp: index_ok_def bucket_ok_def split: option.splits)
    moreover have "\<forall>e \<in> set es. entry_ok accs' p (?f e)" using keep that by (simp add: indexed_def)
    ultimately show ?thesis unfolding bucket_ok_def map_map set_map ball_simps by simp
  qed
  have same: "map ?f es = es" if "dget idx p = Some es" "p \<noteq> info_prefix info \<or> get_str info ''key'' = []" for p es
  proof (rule map_idI)
    fix e assume "e \<in> set es"
    then have "indexed idx p e" using that(1) by (simp add: indexed_def)
    then show "?f e = e" using owner that(2) by auto
  qed
  have "update_first_role a u role es = map ?f es" if "dget idx p = Some es" for p es
    using ok that by (intro update_first_role_map) (auto simp: index_ok_def bucket_ok_def split: option.splits)
  then show ?thesis using bucket same by (fastforce simp: index_ok_def split: option.splits)
qed

lemma set_role_inv:
  assumes f: "fs_faithful fs" and inv: "key_inv fs st"
  shows "key_inv fs (fst (set_role fs a u role st))"
proof (cases "\<exists>acc info r. validate_account_user_role role = Inr r \<and> dget (kt_accounts st) a = Some acc \<and> dget (ai_users acc) u = Some info \<and> \<not> is_deleting info")
  case False
  then show ?thesis using inv by (auto simp: set_role_def split: option.splits sum.splits)
next
  case True
  then obtain acc info r where v: "validate_account_user_role role = Inr r" and acc: "dget (kt_accounts st) a = Some acc"
      and info: "dget (ai_users acc) u = Some info" and nd: "\<not> is_deleting info" by blast
  let ?info = "dset info ''role'' (PStr r)"
  let ?idx = "if get_str info ''key'' = [] then kt_index st else case dget (kt_index st) (info_prefix info) of
      None \<Rightarrow> kt_index st | Some es \<Rightarrow> dset (kt_index st) (info_prefix info) (update_first_role a u r es)"
  have fu: "find_user (kt_accounts st) a u = Some info" using acc info by (simp add: find_user_def)
  have "wf_info ?info" using wf_find_user [OF _ fu] inv by (auto simp: key_inv_def wf_info_def)
  moreover have "index_ok (set_user (kt_accounts st) a u ?info) ?idx"
    using inv fu acc by (intro index_ok_set_role [of "kt_accounts st"]) (auto simp: key_inv_def find_set_user)
  ultimately have "key_inv fs (st\<lparr>kt_accounts := set_user (kt_accounts st) a u ?info, kt_index := ?idx\<rparr>)"
    using inv acc by (simp add: key_inv_def wf_set_user groups_ok_set_user)
  moreover have "info_prefix ?info = info_prefix info" by (simp add: info_prefix_def)
  then have "set_role fs a u role st = save_users_json fs a (st\<lparr>kt_accounts := set_user (kt_accounts st) a u ?info, kt_index := ?idx\<rparr>)"
    using v acc info nd by (auto simp: set_role_def Let_def split: option.split)
  ultimately show ?thesis using save_users_inv [OF f] by simp
qed

subsection \<open>Deletion of users\<close>

lemma save_users_frame:
  assumes "save_users_json fs a st = (st', r)"
  shows "kt_accounts st' = kt_accounts st" "kt_index st' = kt_index st" "kt_groups st' = kt_groups st"
  using assms by (auto simp: save_users_json_def split: prod.splits)

lemma write_groups_frame:
  assumes "write_groups_json fs a gs st = (st', r)"
  shows "kt_accounts st' = kt_accounts st" "kt_index st' = kt_index st" "kt_groups st' = kt_groups st"
  using assms by (auto simp: write_groups_json_def split: prod.splits)

lemma save_users_disk:
  assumes "save_users_json fs a st = (st', r)" "fs_faithful fs" "wf_accounts (kt_accounts st)" "key_store_ok fs (kt_disk st)"
  shows "key_store_ok fs (kt_disk st')"
  using save_users_saved [OF assms] by (simp add: saved_def)

lemma fenced_wf: "wf_info (fenced_info deletion info)"
  by (simp add: wf_info_def fenced_info_def)

text \<open>Putting the record back that was there gives the accounts back, up to lookups.\<close>

lemma key_inv_restored:
  assumes inv: "key_inv fs st" and acc: "dget (kt_accounts st) a = Some acc" and info: "dget (ai_users acc) u = Some info"
    and d: "key_store_ok fs d"
  shows "key_inv fs (st\<lparr>kt_accounts := set_user (set_user (kt_accounts st) a u info') a u info, kt_disk := d\<rparr>)"
proof -
  let ?accs = "set_user (set_user (kt_accounts st) a u info') a u info"
  have "?accs = kt_accounts st" using acc info by (simp add: set_user_def dset_dset dset_same)
  then show ?thesis using inv d by (simp add: key_inv_def)
qed

lemma fence_user_inv:
  assumes f: "fs_faithful fs" and inv: "key_inv fs st" and acc: "dget (kt_accounts st) a = Some acc" and info: "dget (ai_users acc) u = Some info"
  shows "key_inv fs (fst (fence_user fs a u acc info task_id owner_account owner_user st))"
proof -
  let ?info = "fenced_info (deletion_record task_id owner_account owner_user) info"
  let ?st1 = "st\<lparr>kt_accounts := set_user (kt_accounts st) a u ?info\<rparr>"
  obtain st2 r where s: "save_users_json fs a ?st1 = (st2, r)" by (cases "save_users_json fs a ?st1")
  note fr = save_users_frame [OF s]
  have fu: "find_user (kt_accounts st) a u = Some info" using acc info by (simp add: find_user_def)
  have ok: "index_ok (kt_accounts st) (kt_index st)" using inv by (simp add: key_inv_def)
  have d: "key_store_ok fs (kt_disk st2)"
    using inv fenced_wf by (intro save_users_disk [OF s f]) (simp_all add: key_inv_def wf_set_user)
  have "key_inv fs (st\<lparr>kt_accounts := set_user (kt_accounts st) a u ?info, kt_index := remove_key_index_entry (kt_index st) a u info\<rparr>)"
    by (rule key_inv_set_unowned [OF inv acc index_ok_remove [OF ok] removed_unowned [OF ok fu] fenced_wf])
  then have removed: "key_inv fs (st2\<lparr>kt_index := remove_key_index_entry (kt_index st2) a u info\<rparr>)"
    using fr d by (simp add: key_inv_def)
  have restored: "key_inv fs (st2\<lparr>kt_accounts := set_user (kt_accounts st2) a u info\<rparr>)"
    using key_inv_restored [OF inv acc info d, of ?info] fr by (simp add: key_inv_def)
  show ?thesis using inv removed restored s by (auto simp: fence_user_def Let_def split: sum.splits)
qed

lemma begin_user_deletion_inv:
  assumes "fs_faithful fs" "key_inv fs st"
  shows "key_inv fs (fst (begin_user_deletion fs a u task_id owner_account owner_user st))"
  using assms fence_user_inv [OF assms] by (auto simp: begin_user_deletion_def split: option.splits)

lemma deleting_no_key:
  assumes "key_inv fs st" "find_user (kt_accounts st) a u = Some info" "deletion_of info = Some current" "current \<noteq> []"
  shows "get_str info ''key'' = [] \<and> unowned (kt_index st) a u"
proof -
  have "is_deleting info" using assms(3,4) by (auto simp: deletion_of_def is_deleting_def split: option.splits pyval.splits)
  then have "get_str info ''key'' = []" using wf_find_user [OF _ assms(2)] assms(1) by (auto simp: key_inv_def wf_info_def)
  moreover from this have "unowned (kt_index st) a u"
    using removed_unowned [OF _ assms(2)] assms(1) by (fastforce simp: remove_key_index_entry_def key_inv_def)
  ultimately show ?thesis ..
qed

lemma replace_user_deletion_task_inv:
  assumes f: "fs_faithful fs" and inv: "key_inv fs st"
  shows "key_inv fs (fst (replace_user_deletion_task fs a u expected task_id owner_account owner_user st))"
proof (cases "\<exists>acc info current. dget (kt_accounts st) a = Some acc \<and> dget (ai_users acc) u = Some info \<and> deletion_of info = Some current
    \<and> dget current ''task_id'' = Some (PStr expected)")
  case False
  then show ?thesis using inv by (auto simp: replace_user_deletion_task_def split: option.splits)
next
  case True
  then obtain acc info current where acc: "dget (kt_accounts st) a = Some acc" and info: "dget (ai_users acc) u = Some info"
      and cur: "deletion_of info = Some current" "dget current ''task_id'' = Some (PStr expected)" by blast
  let ?info = "dset info ''deletion'' (PDict (deletion_record task_id owner_account owner_user))"
  let ?st1 = "st\<lparr>kt_accounts := set_user (kt_accounts st) a u ?info\<rparr>"
  have fu: "find_user (kt_accounts st) a u = Some info" using acc info by (simp add: find_user_def)
  have none: "get_str info ''key'' = []" "unowned (kt_index st) a u"
    using deleting_no_key [OF inv fu cur(1)] cur(2) by fastforce+
  have wf: "wf_info ?info" using none(1) wf_find_user [OF _ fu] inv by (auto simp: key_inv_def wf_info_def)
  have "key_inv fs (st\<lparr>kt_accounts := set_user (kt_accounts st) a u ?info, kt_index := kt_index st\<rparr>)"
    using inv by (intro key_inv_set_unowned [OF inv acc _ none(2) wf]) (simp add: key_inv_def)
  then have 1: "key_inv fs ?st1" by simp
  obtain st2 r where s: "save_users_json fs a ?st1 = (st2, r)" by (cases "save_users_json fs a ?st1")
  have 2: "key_inv fs st2" using save_users_inv [OF f 1, of a] s by simp
  have "dset ?info ''deletion'' (PDict current) = info"
    using cur(1) by (auto simp: dset_dset deletion_of_def intro!: dset_same split: option.splits pyval.splits)
  then have 3: "key_inv fs (st2\<lparr>kt_accounts := set_user (kt_accounts st2) a u (dset ?info ''deletion'' (PDict current))\<rparr>)"
    using key_inv_restored [OF inv acc info, of "kt_disk st2" ?info] 2 save_users_frame [OF s] by (simp add: key_inv_def)
  show ?thesis using acc info cur 2 3 s by (auto simp: replace_user_deletion_task_def Let_def split: sum.splits)
qed

lemma no_member_unchanged:
  assumes "map (\<lambda>(g, grp). (g, without_member u grp)) gs = gs" "dget gs g = Some grp"
  shows "u \<notin> set (members_of grp)"
proof
  assume u: "u \<in> set (members_of grp)"
  have "map (\<lambda>(g, grp). (g, without_member u grp)) gs = map (\<lambda>x. x) gs" using assms(1) by simp
  then have "(\<lambda>(g, grp). (g, without_member u grp)) (g, grp) = (g, grp)"
    using dget_in_set [OF assms(2)] unfolding map_eq_conv by blast
  then have "members_of (without_member u grp) = members_of grp" by simp
  moreover have "members_of (without_member u grp) = filter (\<lambda>m. m \<noteq> u) (members_of grp)"
    using u by (simp add: without_member_def members_of_def List.map_filter_def comp_def)
  ultimately have "u \<in> set (filter (\<lambda>m. m \<noteq> u) (members_of grp))" using u by simp
  then show False by simp
qed

lemma wf_account_dpop: "wf_accounts accs \<Longrightarrow> dget accs a = Some acc \<Longrightarrow> wf_account (acc\<lparr>ai_users := dpop (ai_users acc) u\<rparr>)"
  by (drule (1) wf_account_get) (simp add: wf_account_def wf_users_dpop)

lemma index_ok_without_user:
  assumes "index_ok accs idx" "dget accs a = Some acc" "unowned idx a u" "ai_users acc' = dpop (ai_users acc) u"
  shows "index_ok (dset accs a acc') idx"
  by (rule index_ok_change [OF assms(1,3)]) (use assms(2,4) in \<open>auto simp: find_user_def\<close>)

lemma groups_ok_without_user:
  assumes "groups_ok accs gi" "dget accs a = Some acc" "map (\<lambda>(g, grp). (g, without_member u grp)) (ai_groups acc) = ai_groups acc"
  shows "groups_ok (dset accs a (acc\<lparr>ai_users := dpop (ai_users acc) u\<rparr>)) gi"
proof (rule groups_ok_mono [OF assms(1)])
  fix a' u' g assume m: "member_of_group accs a' u' g"
  show "member_of_group (dset accs a (acc\<lparr>ai_users := dpop (ai_users acc) u\<rparr>)) a' u' g"
  proof (cases "a' = a")
    case True
    then obtain grp where "dget (ai_groups acc) g = Some grp" "u' \<in> set (members_of grp)"
      using m assms(2) by (auto simp: member_of_group_def split: option.splits)
    then show ?thesis using m True assms(2) no_member_unchanged [OF assms(3)] by (auto simp: member_of_group_def)
  qed (use m in \<open>simp add: member_of_group_def\<close>)
qed

lemma dkeys_map_snd: "dkeys (map (\<lambda>(g, grp). (g, f grp)) gs) = dkeys gs"
  by (simp add: dkeys_def comp_def case_prod_beta)

lemma finish_user_deletion_inv:
  assumes f: "fs_faithful fs" and inv: "key_inv fs st"
  shows "key_inv fs (fst (finish_user_deletion fs a u task_id st))"
proof (cases "\<exists>acc info d. dget (kt_accounts st) a = Some acc \<and> dget (ai_users acc) u = Some info \<and> deletion_of info = Some d
    \<and> dget d ''task_id'' = Some (PStr task_id)")
  case False
  then show ?thesis using inv by (auto simp: finish_user_deletion_def split: option.splits)
next
  case True
  then obtain acc info d where acc: "dget (kt_accounts st) a = Some acc" and info: "dget (ai_users acc) u = Some info"
      and del: "deletion_of info = Some d" "dget d ''task_id'' = Some (PStr task_id)" by blast
  have un: "unowned (kt_index st) a u"
    using deleting_no_key [OF inv _ del(1), of a u] acc info del(2) by (fastforce simp: find_user_def)
  have mem: "wf_accounts (kt_accounts st)" "index_ok (kt_accounts st) (kt_index st)" "groups_ok (kt_accounts st) (kt_groups st)"
    and disk: "key_store_ok fs (kt_disk st)" using inv by (auto simp: key_inv_def)
  let ?gs = "map (\<lambda>(g, grp). (g, without_member u grp)) (ai_groups acc)"
  let ?pop = "acc\<lparr>ai_users := dpop (ai_users acc) u\<rparr>"
  let ?st1 = "st\<lparr>kt_accounts := dset (kt_accounts st) a ?pop\<rparr>"
  have wf1: "wf_accounts (kt_accounts ?st1)" using wf_account_dpop [OF mem(1) acc] mem(1) by (simp add: wf_accounts_dset)
  obtain st2 r2 where s2: "save_users_json fs a ?st1 = (st2, r2)" by (cases "save_users_json fs a ?st1")
  have d2: "saved fs ?st1 st2" using save_users_saved [OF s2 f wf1] disk by simp
  have gsd: "distinct (dkeys ?gs)" using wf_account_get [OF mem(1) acc] by (simp add: dkeys_map_snd wf_account_def)
  obtain st3 r3 where s3: "write_groups_json fs a ?gs st2 = (st3, r3)" by (cases "write_groups_json fs a ?gs st2")
  have d3: "saved fs ?st1 st3" using write_groups_saved [OF s3 f gsd] d2 by (auto simp: saved_def)
  have index1: "index_ok (dset (kt_accounts st) a acc') (kt_index st)" if "ai_users acc' = dpop (ai_users acc) u" for acc'
    by (rule index_ok_without_user [OF mem(2) acc un that])
  have error: "key_inv fs (rebuild_account_group_index a (st'\<lparr>kt_accounts :=
      dset (kt_accounts st') a (acc\<lparr>ai_users := dset (dpop (ai_users acc) u) u info\<rparr>)\<rparr>))" (is "key_inv fs (rebuild_account_group_index a ?e)")
    if "saved fs ?st1 st'" for st'
  proof -
    let ?accs = "dset (kt_accounts st) a (acc\<lparr>ai_users := dset (dpop (ai_users acc) u) u info\<rparr>)"
    have e: "kt_accounts ?e = ?accs" "kt_index ?e = kt_index st" "kt_groups ?e = kt_groups st" "key_store_ok fs (kt_disk ?e)"
      using that by (simp_all add: saved_def dset_dset)
    have "wf_info info" using wf_find_user [OF mem(1), of a u] acc info by (simp add: find_user_def)
    then have "wf_accounts ?accs"
      using wf_account_get [OF mem(1) acc] mem(1) by (intro wf_accounts_dset) (simp_all add: wf_account_def wf_users_dset wf_users_dpop)
    moreover have "find_user ?accs = find_user (kt_accounts st)" using acc info by (intro ext) (simp add: find_user_def)
    then have "index_ok ?accs (kt_index st)" using mem(2) index_ok_cong by metis
    moreover have "groups_ok (kt_accounts ?e) (kt_groups (rebuild_account_group_index a ?e))"
      by (rule groups_ok_rebuild [of "kt_accounts st"]) (use mem(3) e calculation in auto)
    ultimately show ?thesis using e by (simp add: key_inv_def)
  qed
  have unchanged: "key_inv fs st2" if "?gs = ai_groups acc"
    using d2 wf1 index1 [of ?pop] groups_ok_without_user [OF mem(3) acc that] by (auto simp: saved_def key_inv_def)
  have changed: "key_inv fs (rebuild_account_group_index a (set_groups a ?gs st3))" (is "key_inv fs (rebuild_account_group_index a ?c)")
  proof -
    have c: "kt_accounts ?c = dset (kt_accounts st) a (?pop\<lparr>ai_groups := ?gs\<rparr>)" "kt_index ?c = kt_index st"
        "kt_groups ?c = kt_groups st" "key_store_ok fs (kt_disk ?c)"
      using d3 by (simp_all add: saved_def set_groups_def dset_dset)
    moreover have "wf_accounts (dset (kt_accounts st) a (?pop\<lparr>ai_groups := ?gs\<rparr>))"
      using wf_account_dpop [OF mem(1) acc, of u] gsd mem(1) by (intro wf_accounts_dset) (simp_all add: wf_account_def)
    moreover have "groups_ok (kt_accounts ?c) (kt_groups (rebuild_account_group_index a ?c))"
      by (rule groups_ok_rebuild [of "kt_accounts st"]) (use mem(3) calculation in auto)
    ultimately show ?thesis using index1 [of "?pop\<lparr>ai_groups := ?gs\<rparr>"] by (simp add: key_inv_def)
  qed
  show ?thesis using acc info del s2 s3 error [OF d2] error [OF d3] unchanged changed
    by (cases r2; cases r3) (simp_all add: finish_user_deletion_def Let_def)
qed

subsection \<open>Loading\<close>

text \<open>Users are indexed one at a time; those to come have no entry yet.\<close>

definition load_inv :: "'s key_fs \<Rightarrow> 's \<times> accounts \<times> key_index \<Rightarrow> bool" where
  "load_inv fs = (\<lambda>(d, accs, idx). wf_accounts accs \<and> index_ok accs idx \<and> key_store_ok fs d)"

lemma index_ok_add_if: "index_ok accs idx \<Longrightarrow> unowned idx a u \<Longrightarrow> (p \<noteq> [] \<Longrightarrow> entry_ok accs p e) \<Longrightarrow> entry_owner e = (a, u) \<Longrightarrow> index_ok accs (index_add idx p e)"
  by (cases "p = []") (simp_all add: index_add_def [of _ "[]"] index_ok_add)

lemma index_user_step:
  assumes f: "fs_faithful fs" and m: "hashes_marked cfg" and inv: "load_inv fs (d, accs, idx)"
    and fu: "find_user accs a u = Some info" and un: "unowned idx a u"
    and res: "index_user cfg fs mig a u (d, accs, idx) = (d', r)"
  shows "key_store_ok fs d' \<and> (\<forall>accs' idx'. r = Inr (accs', idx') \<longrightarrow> load_inv fs (d', accs', idx')
    \<and> (accs' = accs \<or> (\<exists>info'. accs' = set_user accs a u info'))
    \<and> (\<forall>a' u'. (a', u') \<noteq> (a, u) \<longrightarrow> unowned idx a' u' \<longrightarrow> unowned idx' a' u'))"
proof -
  let ?key = "get_str info ''key''"
  let ?e = "\<lambda>k h. \<lparr>ue_account_id = a, ue_user_id = u, ue_role = user_role info, ue_key_or_hash = k, ue_is_hashed = h\<rparr>"
  have ow: "entry_owner (?e k h) = (a, u)" for k h by (simp add: entry_owner_def)
  have keep: "unowned idx a' u' \<Longrightarrow> (a', u') \<noteq> (a, u) \<Longrightarrow> unowned (index_add idx p (?e k h)) a' u'" for a' u' p k h
    by (auto simp: unowned_def indexed_add entry_owner_def)
  have ok: "wf_accounts accs" "index_ok accs idx" "key_store_ok fs d" using inv by (auto simp: load_inv_def)
  have wfi: "wf_info info" by (rule wf_find_user [OF ok(1) fu])
  consider "?key = []" | "?key \<noteq> []" "is_argon2 ?key" | "?key \<noteq> []" "\<not> is_argon2 ?key" "kc_hashing cfg \<and> mig"
    | "?key \<noteq> []" "\<not> is_argon2 ?key" "\<not> (kc_hashing cfg \<and> mig)" by blast
  then show ?thesis
  proof cases
    case 1
    then show ?thesis using res fu inv ok by (auto simp: index_user_def Let_def)
  next
    case 2
    have "index_ok accs (index_add idx (get_str info ''key_prefix'') (?e ?key True))"
      using 2 fu by (intro index_ok_add_if [OF ok(2) un _ ow]) (auto simp: entry_ok_iff info_prefix_def)
    then show ?thesis using 2 res fu ok keep by (auto simp: index_user_def Let_def load_inv_def)
  next
    case 3
    let ?p = "get_key_prefix ?key" let ?h = "kc_hash cfg ?key"
    let ?info = "dset (dset info ''key'' (PStr ?h)) ''key_prefix'' (PStr ?p)" let ?accs = "set_user accs a u ?info"
    have h: "is_argon2 ?h" "?h \<noteq> []" using m stored_marked [OF m 3(1,2)] 3(3) by (auto simp: hashes_marked_def stored_form_def)
    have nd: "\<not> is_deleting info" using wfi 3(1) by (auto simp: wf_info_def)
    have wf: "wf_accounts ?accs" using ok(1) h nd by (intro wf_set_user) (simp_all add: wf_info_def)
    have acc: "\<exists>acc. dget accs a = Some acc" using fu by (auto simp: find_user_Some)
    have new: "index_ok ?accs idx" by (rule index_ok_change [OF ok(2) un]) (auto simp: find_set_user)
    have "get_key_prefix ?key \<noteq> []" using 3(1) by (simp add: get_key_prefix_def)
    then have "entry_ok ?accs ?p (?e ?h True)" using h acc by (auto simp: entry_ok_iff info_prefix_def find_set_user)
    then have idx: "index_ok ?accs (index_add idx ?p (?e ?h True))" by (rule index_ok_add [OF new un _ ow])
    obtain d1 r1 where s: "save_users_json_for fs a ?accs d = (d1, r1)" by (cases "save_users_json_for fs a ?accs d")
    have d1: "key_store_ok fs d1" using store_ok_save_users [OF f wf ok(3), of a] s by simp
    show ?thesis using 3 res fu s d1 wf idx keep
      by (auto simp: index_user_def Let_def load_inv_def find_set_user split: sum.splits)
  next
    case 4
    have "get_str info ''key_prefix'' = []" using wfi 4(2) by (simp add: wf_info_def)
    then have "index_ok accs (index_add idx (get_key_prefix ?key) (?e ?key False))"
      using 4 fu by (intro index_ok_add [OF ok(2) un _ ow]) (auto simp: entry_ok_iff info_prefix_def)
    then show ?thesis using 4 res fu ok keep by (auto simp: index_user_def Let_def load_inv_def)
  qed
qed

lemma index_users_steps:
  assumes f: "fs_faithful fs" and m: "hashes_marked cfg"
  shows "load_inv fs (d, accs, idx) \<Longrightarrow> distinct us \<Longrightarrow> (\<And>u. u \<in> set us \<Longrightarrow> find_user accs a u \<noteq> None \<and> unowned idx a u) \<Longrightarrow>
    index_users cfg fs mig a us (d, accs, idx) = (d', r) \<Longrightarrow>
    key_store_ok fs d' \<and> (\<forall>accs' idx'. r = Inr (accs', idx') \<longrightarrow> load_inv fs (d', accs', idx')
      \<and> (\<forall>a'. a' \<noteq> a \<longrightarrow> dget accs' a' = dget accs a')
      \<and> (\<forall>a' u' g. member_of_group accs a' u' g \<longrightarrow> member_of_group accs' a' u' g))"
proof (induction us arbitrary: d accs idx)
  case Nil
  then show ?case by (auto simp: load_inv_def)
next
  case (Cons u us)
  obtain d1 r1 where s: "index_user cfg fs mig a u (d, accs, idx) = (d1, r1)" by (cases "index_user cfg fs mig a u (d, accs, idx)")
  from Cons.prems(3) [of u] obtain info where u: "find_user accs a u = Some info" "unowned idx a u" by auto
  from u(1) obtain acc where acc: "dget accs a = Some acc" by (auto simp: find_user_Some)
  note step = index_user_step [OF f m Cons.prems(1) u s]
  show ?case
  proof (cases r1)
    case (Inl e)
    then show ?thesis using step s Cons.prems(4) by auto
  next
    case (Inr x)
    obtain accs1 idx1 where x: "x = (accs1, idx1)" by (cases x)
    have st: "load_inv fs (d1, accs1, idx1)" "accs1 = accs \<or> (\<exists>info'. accs1 = set_user accs a u info')"
        "\<And>a' u'. (a', u') \<noteq> (a, u) \<Longrightarrow> unowned idx a' u' \<Longrightarrow> unowned idx1 a' u'"
      using step Inr x by auto
    have other: "dget accs1 a' = dget accs a'" if "a' \<noteq> a" for a' using st(2) that by (auto simp: set_user_def split: option.splits)
    have member: "member_of_group accs a' u' g \<Longrightarrow> member_of_group accs1 a' u' g" for a' u' g using st(2) member_set_user [OF acc] by auto
    have "find_user accs1 a v \<noteq> None \<and> unowned idx1 a v" if v: "v \<in> set us" for v
    proof -
      have "v \<noteq> u" using Cons.prems(2) v by auto
      then show ?thesis using Cons.prems(3) [of v] st(2) st(3) [of a v] v by (auto simp: find_set_user)
    qed
    moreover have "index_users cfg fs mig a us (d1, accs1, idx1) = (d', r)" using Cons.prems(4) s Inr x by simp
    ultimately have IH: "key_store_ok fs d' \<and> (\<forall>accs' idx'. r = Inr (accs', idx') \<longrightarrow> load_inv fs (d', accs', idx')
      \<and> (\<forall>a'. a' \<noteq> a \<longrightarrow> dget accs' a' = dget accs1 a')
      \<and> (\<forall>a' u' g. member_of_group accs1 a' u' g \<longrightarrow> member_of_group accs' a' u' g))"
      using Cons.prems(2) by (intro Cons.IH [OF st(1)]) auto
    then show ?thesis using other member by auto
  qed
qed

lemma build_accounts_inv:
  assumes f: "fs_faithful fs" and m: "hashes_marked cfg"
  shows "load_inv fs (d, accs, idx) \<Longrightarrow> groups_ok accs gi \<Longrightarrow> distinct (dkeys data) \<Longrightarrow> (\<And>a. a \<in> set (dkeys data) \<Longrightarrow> dget accs a = None) \<Longrightarrow>
    build_accounts cfg fs mig data (d, accs, idx, gi) = (d', r) \<Longrightarrow>
    key_store_ok fs d' \<and> (\<forall>accs' idx' gi'. r = Inr (accs', idx', gi') \<longrightarrow> load_inv fs (d', accs', idx') \<and> groups_ok accs' gi')"
proof (induction data arbitrary: d accs idx gi)
  case Nil
  then show ?case by (auto simp: load_inv_def)
next
  case (Cons x data)
  obtain a info where x: "x = (a, info)" by (cases x)
  have disk: "key_store_ok fs d" using Cons.prems(1) by (simp add: load_inv_def)
  have new: "dget accs a = None" using Cons.prems(4) by (simp add: x dkeys_def)
  show ?case
  proof (cases "\<exists>users groups. read_section fs d (users_path a) ''users'' = Inr users \<and> read_section fs d (groups_path a) ''groups'' = Inr groups")
    case False
    then show ?thesis using Cons.prems(5) disk by (auto simp: x split: sum.splits)
  next
    case True
    then obtain users groups where us: "read_section fs d (users_path a) ''users'' = Inr users"
        and gs: "read_section fs d (groups_path a) ''groups'' = Inr groups" by blast
    let ?acc = "\<lparr>ai_created_at = get_str info ''created_at'', ai_users = users, ai_groups = groups\<rparr>"
    have wfu: "wf_users users" "distinct (dkeys groups)" using disk us gs unfolding key_store_ok_def by blast+
    obtain d1 r1 where s: "index_users cfg fs mig a (dkeys users) (d, dset accs a ?acc, idx) = (d1, r1)"
      by (cases "index_users cfg fs mig a (dkeys users) (d, dset accs a ?acc, idx)")
    have wf: "wf_accounts (dset accs a ?acc)" using Cons.prems(1) wfu by (auto simp: load_inv_def wf_account_def intro!: wf_accounts_dset)
    have "index_ok (dset accs a ?acc) idx"
      using Cons.prems(1) new by (simp add: load_inv_def index_ok_grow)
    then have li: "load_inv fs (d, dset accs a ?acc, idx)" using wf disk by (simp add: load_inv_def)
    have "find_user (dset accs a ?acc) a u \<noteq> None \<and> unowned idx a u" if "u \<in> set (dkeys users)" for u
      using that Cons.prems(1) absent_unowned [of accs idx a u] new dget_None_iff [of users u] by (auto simp: load_inv_def find_user_def)
    then have step: "key_store_ok fs d1 \<and> (\<forall>accs' idx'. r1 = Inr (accs', idx') \<longrightarrow> load_inv fs (d1, accs', idx')
      \<and> (\<forall>a'. a' \<noteq> a \<longrightarrow> dget accs' a' = dget (dset accs a ?acc) a')
      \<and> (\<forall>a' u' g. member_of_group (dset accs a ?acc) a' u' g \<longrightarrow> member_of_group accs' a' u' g))"
      using wfu(1) by (intro index_users_steps [OF f m li _ _ s]) (auto simp: wf_users_def)
    have g1: "groups_ok (dset accs a ?acc) gi"
      using Cons.prems(2) by (rule groups_ok_mono) (use new in \<open>auto simp: member_of_group_def split: option.splits\<close>)
    have g: "groups_ok (dset accs a ?acc) (add_account_groups gi a ?acc)" by (rule groups_ok_add [OF g1]) (use wfu(2) in simp_all)
    show ?thesis
    proof (cases r1)
      case (Inl e)
      then show ?thesis using step Cons.prems(5) us gs s by (auto simp: x)
    next
      case (Inr y)
      obtain accs1 idx1 where y: "y = (accs1, idx1)" by (cases y)
      have st: "load_inv fs (d1, accs1, idx1)" "\<And>a'. a' \<noteq> a \<Longrightarrow> dget accs1 a' = dget accs a'"
          "\<And>a' u' g. member_of_group (dset accs a ?acc) a' u' g \<Longrightarrow> member_of_group accs1 a' u' g"
        using step Inr y by auto
      have "build_accounts cfg fs mig data (d1, accs1, idx1, add_account_groups gi a ?acc) = (d', r)"
        using Cons.prems(5) us gs s Inr y by (simp add: x)
      moreover have "dget accs1 b = None" if b: "b \<in> set (dkeys data)" for b
      proof -
        have "b \<noteq> a" using Cons.prems(3) b by (auto simp: x dkeys_def)
        then show ?thesis using Cons.prems(4) [of b] st(2) b by (simp add: x dkeys_def)
      qed
      ultimately show ?thesis
        using Cons.prems(3) by (intro Cons.IH [OF st(1) groups_ok_mono [OF g st(3)]]) (simp_all add: x dkeys_def)
    qed
  qed
qed

lemma build_state_inv:
  assumes "fs_faithful fs" "hashes_marked cfg" "key_store_ok fs d" "distinct (dkeys (get_dict data ''accounts''))" "mem_inv st"
  shows "key_inv fs (fst (install_state (build_state cfg fs mig data d) st))"
proof -
  have empty: "load_inv fs (d, [], [])" "groups_ok [] []"
    using assms(3) by (auto simp: load_inv_def wf_accounts_def dkeys_def index_ok_def groups_ok_def)
  obtain d' r where b: "build_state cfg fs mig data d = (d', r)" by (cases "build_state cfg fs mig data d")
  have "key_store_ok fs d' \<and> (\<forall>accs' idx' gi'. r = Inr (accs', idx', gi') \<longrightarrow> load_inv fs (d', accs', idx') \<and> groups_ok accs' gi')"
    using b assms(4) by (intro build_accounts_inv [OF assms(1,2) empty]) (auto simp: build_state_def dkeys_objects)
  then show ?thesis using b assms(5)
    by (auto simp: install_state_def key_inv_def mem_inv_def load_inv_def split: sum.splits)
qed

lemma accounts_doc_distinct:
  assumes "key_store_ok fs d" "kf_read fs d ACCOUNTS_PATH = Inr (Some doc)"
  shows "distinct (dkeys (get_dict (case doc of PDict x \<Rightarrow> x | _ \<Rightarrow> []) ''accounts''))"
proof (cases doc)
  case (PDict x)
  have "read_section fs d ACCOUNTS_PATH ''accounts'' = Inr (objects (get_dict x ''accounts''))"
    using assms(2) PDict by (simp add: read_section_def)
  then show ?thesis using assms(1) PDict by (auto simp: key_store_ok_def dkeys_objects)
qed (simp_all add: get_dict_def dkeys_def)

lemma reload_inv:
  assumes "fs_faithful fs" "hashes_marked cfg" "key_inv fs st"
  shows "key_inv fs (fst (reload cfg fs st))"
proof -
  have "key_inv fs (fst (install_state (build_state cfg fs False (case doc of PDict x \<Rightarrow> x | _ \<Rightarrow> []) (kt_disk st)) st))"
    if "kf_read fs (kt_disk st) ACCOUNTS_PATH = Inr (Some doc)" for doc
    using that assms(3) by (intro build_state_inv [OF assms(1,2)] accounts_doc_distinct) (simp_all add: key_inv_iff)
  then show ?thesis using assms(3) by (auto simp: reload_def split: sum.splits option.splits)
qed

lemma load_inv_step:
  assumes "fs_faithful fs" "hashes_marked cfg" "key_inv fs st"
  shows "key_inv fs (fst (load cfg fs now st))"
proof -
  have inv: "mem_inv st" "key_store_ok fs (kt_disk st)" using assms(3) by (auto simp: key_inv_iff)
  let ?data = "[(''accounts'', PDict [(''default'', PDict [(''created_at'', PStr now)])])]"
  obtain d r where w: "kf_write fs (kt_disk st) ACCOUNTS_PATH (PDict ?data) = (d, r)" by (cases "kf_write fs (kt_disk st) ACCOUNTS_PATH (PDict ?data)")
  have "key_store_ok fs (fst (kf_write fs (kt_disk st) ACCOUNTS_PATH (PDict ?data)))"
    by (rule store_ok_write [OF assms(1) inv(2)]) (auto simp: dkeys_def)
  then have d: "key_store_ok fs d" using w by simp
  have fresh: "key_inv fs (fst (install_state (build_state cfg fs True ?data d) (st\<lparr>kt_disk := d\<rparr>)))"
    using inv(1) by (intro build_state_inv [OF assms(1,2) d]) (simp_all add: get_dict_def dkeys_def mem_inv_def)
  have failed: "key_inv fs (st\<lparr>kt_disk := d\<rparr>)" using inv(1) d by (simp add: key_inv_iff mem_inv_def)
  have old: "kf_read fs (kt_disk st) ACCOUNTS_PATH = Inr (Some doc) \<Longrightarrow>
      key_inv fs (fst (install_state (build_state cfg fs True (case doc of PDict x \<Rightarrow> x | _ \<Rightarrow> []) (kt_disk st)) st))" for doc
    using inv by (intro build_state_inv [OF assms(1,2)] accounts_doc_distinct) simp_all
  show ?thesis using assms(3) w fresh failed old by (auto simp: load_def Let_def split: sum.splits option.splits)
qed

section \<open>Runs\<close>

lemma km_init_inv: "km_init fs st \<Longrightarrow> key_inv fs st"
  by (auto simp: km_init_def key_inv_def wf_accounts_def dkeys_def index_ok_def groups_ok_def)

lemma km_step_inv: "fs_faithful fs \<Longrightarrow> hashes_marked cfg \<Longrightarrow> key_inv fs st \<Longrightarrow> km_step cfg fs st st' \<Longrightarrow> key_inv fs st'"
  by (erule km_stepE)
    (auto intro: create_account_inv delete_account_inv register_user_inv regenerate_key_inv set_role_inv begin_user_deletion_inv
      replace_user_deletion_task_inv finish_user_deletion_inv create_group_inv add_group_member_inv remove_group_member_inv
      delete_group_inv load_inv_step reload_inv)

interpretation km: step_system "km_init fs" "km_step cfg fs" "\<lambda>st. fs_faithful fs \<and> hashes_marked cfg \<longrightarrow> key_inv fs st" for fs cfg
  by unfold_locales (auto intro: km_init_inv km_step_inv)

lemma km_reach_inv: "reach (km_init fs) (km_step cfg fs) st \<Longrightarrow> fs_faithful fs \<Longrightarrow> hashes_marked cfg \<Longrightarrow> key_inv fs st"
  using km.reach_inv by blast

end
