(* ===== verification/Api_Key_Safety.thy ===== *)
theory Api_Key_Safety
  imports Api_Key_Runs
begin

text \<open>
  What the invariant of \<open>Api_Key_Runs\<close> gives the callers of the API-key manager: a key resolves only to the
  user whose current record it matches, rotation and deletion revoke keys and the OAuth tokens bound to them, the group
  index grants only groups that list the user, and a failed creation of an account leaves no trace.
\<close>

section \<open>Definitions\<close>

text \<open>A presented key that matches the record of a user.\<close>

definition key_matches :: "key_cfg \<Rightarrow> string \<Rightarrow> pydict \<Rightarrow> bool" where
  "key_matches cfg k info \<longleftrightarrow> get_str info ''key'' \<noteq> []
     \<and> (if is_argon2 (get_str info ''key'') then kc_verify cfg k (get_str info ''key'') = Inr True else k = get_str info ''key'')"

definition resolves_to :: "key_cfg \<Rightarrow> 's key_state \<Rightarrow> string \<Rightarrow> string \<Rightarrow> string \<Rightarrow> bool" where
  "resolves_to cfg st k a u \<longleftrightarrow>
     (case key_resolve cfg st k of Inl _ \<Rightarrow> False | Inr i \<Rightarrow> ri_account_id i = Some a \<and> ri_user_id i = Some u)"

definition bucket :: "key_index \<Rightarrow> string \<Rightarrow> user_key_entry list" where
  "bucket idx p = (case dget idx p of None \<Rightarrow> [] | Some es \<Rightarrow> es)"

text \<open>Concrete clients for the examples: files in a dictionary, and files that cannot be written; text as its own digest.\<close>

definition dict_fs :: "(string \<times> pyval) list key_fs" where
  "dict_fs = \<lparr>kf_read = (\<lambda>d p. Inr (dget d p)), kf_write = (\<lambda>d p v. (dset d p v, Inr ())), kf_lock = (\<lambda>d p. (d, Inr ())),
     kf_unlock = (\<lambda>d p. d)\<rparr>"

definition readonly_fs :: "(string \<times> pyval) list key_fs" where
  "readonly_fs = \<lparr>kf_read = (\<lambda>d p. Inr (dget d p)), kf_write = (\<lambda>d p v. (d, Inl IOError)), kf_lock = (\<lambda>d p. (d, Inr ())),
     kf_unlock = (\<lambda>d p. d)\<rparr>"

definition demo_cfg :: "bool \<Rightarrow> key_cfg" where
  "demo_cfg hashing = \<lparr>kc_root_key = ''root-key'', kc_hashing = hashing, kc_hash = (\<lambda>k. ''$argon2'' @ k),
     kc_verify = (\<lambda>k h. Inr (h = ''$argon2'' @ k)), kc_sha = (\<lambda>s. s)\<rparr>"

definition empty_keys :: "(string \<times> pyval) list key_state" where
  "empty_keys = \<lparr>kt_accounts = [], kt_index = [], kt_groups = [], kt_disk = []\<rparr>"

definition kd_alice :: "(string \<times> pyval) list key_state" where
  "kd_alice = fst (create_account (demo_cfg False) dict_fs ''now'' ''t1'' ''acme'' ''alice'' None empty_keys)"

definition kd_bob :: "(string \<times> pyval) list key_state" where
  "kd_bob = fst (register_user (demo_cfg False) dict_fs ''t2'' ''acme'' ''bob'' ''admin'' None kd_alice)"

definition kd_rotated :: "(string \<times> pyval) list key_state" where
  "kd_rotated = fst (regenerate_key (demo_cfg False) dict_fs ''t3'' ''acme'' ''bob'' None kd_bob)"

definition kd_deleting :: "(string \<times> pyval) list key_state" where
  "kd_deleting = fst (begin_user_deletion dict_fs ''acme'' ''bob'' ''task1'' ''acme'' ''alice'' kd_bob)"

definition kd_group :: "(string \<times> pyval) list key_state" where
  "kd_group = fst (add_group_member dict_fs ''acme'' ''staff'' ''bob'' (fst (create_group dict_fs ''acme'' ''staff'' kd_bob)))"

definition kd_provider :: oauth_provider where
  "kd_provider = \<lparr>op_sha = (\<lambda>s. s), op_any_url = Inr, op_ranks = [], op_issuer = ''https://ov'', op_access_ttl = 3600,
     op_refresh_ttl = 7200, op_code_ttl = 300, op_authorize_page = ''/page'', op_role_resolver = None\<rparr>"

definition kd_claims :: token_claims where
  "kd_claims = \<lparr>tc_client_id = ''c1'', tc_account_id = ''acme'', tc_user_id = ''bob'', tc_role = ''admin'', tc_scope = None, tc_resource = None,
     tc_authorizing_key_fp = Some ''YWNtZQ.Ym9i.dDI'', tc_expires_at = 1000, tc_created_at = 0\<rparr>"

definition kd_tokens :: oauth_store where
  "kd_tokens = empty_store\<lparr>oa_access := [(''ovat_1'', \<lparr>ac_claims = kd_claims, ac_revoked = False\<rparr>)]\<rparr>"

text \<open>A store written before the new key format: the key of the user is not of that format.\<close>

definition kd_old_users :: account_info where
  "kd_old_users = \<lparr>ai_created_at = [], ai_users = [(''alice'', [(''role'', PStr ''user''), (''key'', PStr ''0123456789'')])], ai_groups = []\<rparr>"

definition kd_old :: "(string \<times> pyval) list key_state" where
  "kd_old = empty_keys\<lparr>kt_disk := [(ACCOUNTS_PATH, PDict [(''accounts'', PDict [(''acme'', PDict [])])]), (users_path ''acme'', users_doc kd_old_users)]\<rparr>"

definition kd_old_loaded :: "(string \<times> pyval) list key_state" where
  "kd_old_loaded = fst (load (demo_cfg False) dict_fs ''now'' kd_old)"

section \<open>A run to evaluate\<close>

lemma dict_fs_faithful: "fs_faithful dict_fs" and readonly_fs_faithful: "fs_faithful readonly_fs"
  by (auto simp: fs_faithful_def dict_fs_def readonly_fs_def)

lemma demo_marked: "hashes_marked (demo_cfg h)"
  by (simp add: hashes_marked_def demo_cfg_def is_argon2_def startswith_def)

lemma kd_init: "km_init dict_fs empty_keys" "km_init readonly_fs empty_keys"
  by (auto simp: km_init_def empty_keys_def key_store_ok_def read_section_def dict_fs_def readonly_fs_def wf_users_def dkeys_def)

lemma kd_reach:
  "reach (km_init dict_fs) (km_step (demo_cfg False) dict_fs) kd_bob"
  "reach (km_init dict_fs) (km_step (demo_cfg False) dict_fs) kd_deleting"
  "reach (km_init dict_fs) (km_step (demo_cfg False) dict_fs) kd_group"
proof -
  have "reach (km_init dict_fs) (km_step (demo_cfg False) dict_fs) empty_keys" by (rule reach_init) (rule kd_init)
  then have "reach (km_init dict_fs) (km_step (demo_cfg False) dict_fs) kd_alice"
    unfolding kd_alice_def by (rule reach_step) (rule km_create_account)
  then show bob: "reach (km_init dict_fs) (km_step (demo_cfg False) dict_fs) kd_bob"
    unfolding kd_bob_def by (rule reach_step) (rule km_register_user)
  show "reach (km_init dict_fs) (km_step (demo_cfg False) dict_fs) kd_deleting"
    unfolding kd_deleting_def by (rule reach_step [OF bob]) (rule km_begin_user_deletion)
  have "reach (km_init dict_fs) (km_step (demo_cfg False) dict_fs) (fst (create_group dict_fs ''acme'' ''staff'' kd_bob))"
    by (rule reach_step [OF bob]) (rule km_create_group)
  then show "reach (km_init dict_fs) (km_step (demo_cfg False) dict_fs) kd_group"
    unfolding kd_group_def by (rule reach_step) (rule km_add_group_member)
qed

section \<open>Resolution\<close>

lemma compare_digest_True: "compare_digest k s = Inr True \<Longrightarrow> k = s"
  by (simp add: compare_digest_def split: if_splits)

lemma match_candidates_sound:
  "match_candidates cfg k es = Inr i \<Longrightarrow> \<exists>e \<in> set es. i = identity_of (ue_role e) (ue_account_id e) (ue_user_id e)
    \<and> (if ue_is_hashed e then kc_verify cfg k (ue_key_or_hash e) = Inr True else k = ue_key_or_hash e)"
proof (induction es)
  case (Cons e es)
  let ?check = "if ue_is_hashed e then kc_verify cfg k (ue_key_or_hash e) else compare_digest k (ue_key_or_hash e)"
  from Cons.prems obtain same where s: "?check = Inr same"
      "(if same then Inr (identity_of (ue_role e) (ue_account_id e) (ue_user_id e)) else match_candidates cfg k es) = Inr i"
    by (auto simp only: match_candidates.simps ebind_Inr)
  show ?case
  proof (cases same)
    case True
    then show ?thesis using s compare_digest_True by (auto split: if_splits)
  next
    case False
    then show ?thesis using s(2) Cons.IH by auto
  qed
qed simp

lemma in_bucket: "e \<in> set (bucket idx p) \<longleftrightarrow> indexed idx p e"
  by (simp add: bucket_def indexed_def split: option.split)

lemma fast_path_sound:
  assumes "key_inv fs st" "fast_path cfg st k = Some i"
  shows "\<exists>a u info. i = identity_of (user_role info) a u \<and> find_user (kt_accounts st) a u = Some info \<and> key_matches cfg k info"
proof -
  from assms(2) obtain a u s info where p: "parse_api_key k = Inr (a, u, s)" "find_user (kt_accounts st) a u = Some info"
      "get_str info ''key'' \<noteq> []" "i = identity_of (user_role info) a u"
      "(if is_argon2 (get_str info ''key_prefix'') \<or> is_argon2 (get_str info ''key'')
        then kc_verify cfg k (get_str info ''key'') else compare_digest k (get_str info ''key'')) = Inr True"
    by (auto simp: fast_path_def Let_def split: if_splits sum.splits option.splits bool.splits)
  have "wf_info info" using wf_find_user [OF _ p(2)] assms(1) by (simp add: key_inv_def)
  moreover have "\<not> is_argon2 []" by (simp add: is_argon2_def startswith_def)
  ultimately have "key_matches cfg k info"
    using p(3,5) by (auto simp: key_matches_def wf_info_def dest: compare_digest_True split: if_splits)
  then show ?thesis using p by blast
qed

lemma key_resolve_sound:
  assumes inv: "key_inv fs st" and res: "key_resolve cfg st k = Inr i"
  shows "i = root_identity \<and> k = kc_root_key cfg \<or> (\<exists>a u info. i = identity_of (user_role info) a u
    \<and> find_user (kt_accounts st) a u = Some info \<and> key_matches cfg k info)"
proof (cases "compare_digest k (kc_root_key cfg)")
  case (Inl e)
  then show ?thesis using res by (simp add: key_resolve_def split: if_splits)
next
  case (Inr root)
  show ?thesis
  proof (cases "root \<or> fast_path cfg st k \<noteq> None")
    case True
    then show ?thesis using res Inr fast_path_sound [OF inv] compare_digest_True by (auto simp: key_resolve_def split: if_splits)
  next
    case False
    then have "match_candidates cfg k (bucket (kt_index st) (get_key_prefix k)) = Inr i"
      using res Inr by (auto simp: key_resolve_def legacy_resolve_def bucket_def split: if_splits)
    from match_candidates_sound [OF this] obtain e where e: "indexed (kt_index st) (get_key_prefix k) e"
        "i = identity_of (ue_role e) (ue_account_id e) (ue_user_id e)"
        "if ue_is_hashed e then kc_verify cfg k (ue_key_or_hash e) = Inr True else k = ue_key_or_hash e"
      by (auto simp only: in_bucket)
    then have "entry_ok (kt_accounts st) (get_key_prefix k) e" using inv by (simp add: key_inv_def index_ok_iff)
    then obtain info where info: "find_user (kt_accounts st) (ue_account_id e) (ue_user_id e) = Some info" "get_str info ''key'' = ue_key_or_hash e"
        "ue_key_or_hash e \<noteq> []" "ue_role e = user_role info" "ue_is_hashed e = is_argon2 (ue_key_or_hash e)"
      by (auto simp: entry_ok_iff)
    then have "key_matches cfg k info" using e(3) by (simp add: key_matches_def)
    then show ?thesis using e(2) info(1,4) by auto
  qed
qed

lemma resolves_to_sound:
  assumes "key_inv fs st" "resolves_to cfg st k a u"
  shows "\<exists>info. find_user (kt_accounts st) a u = Some info \<and> key_matches cfg k info"
  using assms(2) key_resolve_sound [OF assms(1), of cfg k] by (auto simp: resolves_to_def root_identity_def identity_of_def split: sum.splits)

text \<open>Property C2. In every state of a run of the key manager, a presented key resolves only to the root identity, when it is
  the root key, or to a registered user with the role of the current record, when it matches the key stored there (equal
  to it, or verified against its hash), and no deletion of the user is in progress.\<close>

theorem resolved_key_is_current:
  assumes "fs_faithful fs" "hashes_marked cfg" "reach (km_init fs) (km_step cfg fs) st" "key_resolve cfg st k = Inr i"
  shows "i = root_identity \<and> k = kc_root_key cfg \<or> (\<exists>a u info. i = identity_of (user_role info) a u
    \<and> find_user (kt_accounts st) a u = Some info \<and> key_matches cfg k info \<and> \<not> is_deleting info)"
proof -
  have inv: "key_inv fs st" using km_reach_inv assms by blast
  have "\<not> is_deleting info" if "find_user (kt_accounts st) a u = Some info" "key_matches cfg k info" for a u info
    using wf_find_user [OF _ that(1)] inv that(2) by (auto simp: key_inv_def wf_info_def key_matches_def)
  then show ?thesis using key_resolve_sound [OF inv assms(4)] by blast
qed

theorem resolved_key_is_current_witness:
  "\<exists>a u info. identity_of ''admin'' ''acme'' ''bob'' = identity_of (user_role info) a u \<and> find_user (kt_accounts kd_bob) a u = Some info
    \<and> key_matches (demo_cfg False) ''YWNtZQ.Ym9i.dDI'' info \<and> \<not> is_deleting info"
proof -
  have "key_resolve (demo_cfg False) kd_bob ''YWNtZQ.Ym9i.dDI'' = Inr (identity_of ''admin'' ''acme'' ''bob'')" by code_simp
  from resolved_key_is_current [OF dict_fs_faithful demo_marked kd_reach(1) this] show ?thesis
    by (auto simp: root_identity_def identity_of_def)
qed

section \<open>Rotation\<close>

lemma regenerate_success:
  assumes "regenerate_key cfg fs token a u seed st = (st', Inr key)"
  shows "\<exists>old. find_user (kt_accounts st) a u = Some old \<and> \<not> is_deleting old \<and> generate_api_key (kc_sha cfg) a u seed token = Inr key
    \<and> find_user (kt_accounts st') a u = Some (rotated_info cfg key old)"
proof -
  from assms obtain acc old where acc: "dget (kt_accounts st) a = Some acc" and old: "dget (ai_users acc) u = Some old" and nd: "\<not> is_deleting old"
    by (auto simp: regenerate_key_def regenerate_with_def split: option.splits if_splits)
  from assms acc old nd have gen: "generate_api_key (kc_sha cfg) a u seed token = Inr key"
    by (auto simp: regenerate_key_def regenerate_with_def Let_def split: sum.splits option.splits pyval.splits prod.splits)
  with assms acc old nd have "kt_accounts st' = set_user (kt_accounts st) a u (rotated_info cfg key old)"
    by (auto simp: regenerate_key_def regenerate_with_def Let_def save_users_frame split: option.splits pyval.splits prod.splits sum.splits)
  then show ?thesis using acc old nd gen by (auto simp: find_user_def set_user_def)
qed

lemma rotated_key: "get_str (rotated_info cfg key old) ''key'' = stored_form cfg key"
  by (simp add: rotated_info_def Let_def)

text \<open>The hypotheses on the configured keys: the root key is ASCII text other than \<open>key\<close>, and a hash verifies its key.\<close>

definition usable_key :: "key_cfg \<Rightarrow> string \<Rightarrow> bool" where
  "usable_key cfg key \<longleftrightarrow> (\<forall>c \<in> set (kc_root_key cfg). of_char c < (128 :: nat)) \<and> key \<noteq> kc_root_key cfg
     \<and> (kc_hashing cfg \<longrightarrow> kc_verify cfg key (kc_hash cfg key) = Inr True)"

lemma fresh_key_accepted:
  assumes gen: "generate_api_key (kc_sha cfg) a u seed token = Inr key" and fu: "find_user (kt_accounts st) a u = Some info"
    and stored: "get_str info ''key'' = stored_form cfg key" and m: "hashes_marked cfg" and inv: "key_inv fs st" and ok: "usable_key cfg key"
  shows "key_resolve cfg st key = Inr (identity_of (user_role info) a u)"
proof -
  have parse: "is_new_format_key key" "\<exists>s. parse_api_key key = Inr (a, u, s)" using generated_key_parses [OF gen] by auto
  note plain = generated_plain [OF gen] generated_not_argon2 [OF gen]
  have self: "compare_digest key key = Inr True" and root: "compare_digest key (kc_root_key cfg) = Inr False"
    using plain(3) ok by (auto simp: compare_digest_def usable_key_def)
  have st: "is_argon2 (stored_form cfg key) = kc_hashing cfg" "stored_form cfg key \<noteq> []" using stored_marked [OF m] plain(4) by auto
  have "wf_info info" using wf_find_user [OF _ fu] inv by (simp add: key_inv_def)
  then have pre: "is_argon2 (get_str info ''key_prefix'') \<Longrightarrow> kc_hashing cfg"
    using st stored by (auto simp: wf_info_def is_argon2_def startswith_def)
  have "fast_path cfg st key = Some (identity_of (user_role info) a u)"
    using parse fu stored st pre self ok by (auto simp: fast_path_def Let_def usable_key_def stored_form_def)
  then show ?thesis using plain(1) root by (simp add: key_resolve_def)
qed

text \<open>Property C10. Regenerating a key revokes the old one at once: whatever key resolves to the user afterwards matches the new
  one, and the new key itself resolves to the user with the role of the record.\<close>

theorem rotation_replaces_key:
  assumes "fs_faithful fs" "hashes_marked cfg" "reach (km_init fs) (km_step cfg fs) st"
    and "regenerate_key cfg fs token a u seed st = (st', Inr key)"
  shows "(\<forall>k. resolves_to cfg st' k a u \<longrightarrow> (if kc_hashing cfg then kc_verify cfg k (kc_hash cfg key) = Inr True else k = key))
    \<and> (usable_key cfg key \<longrightarrow> key_resolve cfg st' key = Inr (identity_of (get_user_role st a u) a u))"
proof -
  have "km_step cfg fs st st'" using km_regenerate_key [of cfg fs st token a u seed] assms(4) by simp
  then have inv: "key_inv fs st'" using assms(1-3) km_reach_inv reach_step by metis
  from regenerate_success [OF assms(4)] obtain old where old: "find_user (kt_accounts st) a u = Some old"
      and gen: "generate_api_key (kc_sha cfg) a u seed token = Inr key" and new: "find_user (kt_accounts st') a u = Some (rotated_info cfg key old)"
    by blast
  have marked: "is_argon2 (stored_form cfg key) = kc_hashing cfg" using stored_marked [OF assms(2)] generated_not_argon2 [OF gen] by blast
  have "if kc_hashing cfg then kc_verify cfg k (kc_hash cfg key) = Inr True else k = key" if "resolves_to cfg st' k a u" for k
    using resolves_to_sound [OF inv that] new marked by (auto simp: key_matches_def rotated_key stored_form_def split: if_splits)
  moreover have "key_resolve cfg st' key = Inr (identity_of (get_user_role st a u) a u)" if "usable_key cfg key"
    using fresh_key_accepted [OF gen new rotated_key assms(2) inv that] old by (simp add: user_role_rotated get_user_role_def)
  ultimately show ?thesis by blast
qed

theorem rotation_replaces_key_witness:
  "\<not> resolves_to (demo_cfg False) kd_rotated ''YWNtZQ.Ym9i.dDI'' ''acme'' ''bob''
    \<and> key_resolve (demo_cfg False) kd_rotated ''YWNtZQ.Ym9i.dDM'' = Inr (identity_of ''admin'' ''acme'' ''bob'')"
proof -
  have "snd (regenerate_key (demo_cfg False) dict_fs ''t3'' ''acme'' ''bob'' None kd_bob) = Inr ''YWNtZQ.Ym9i.dDM''" by code_simp
  then have r: "regenerate_key (demo_cfg False) dict_fs ''t3'' ''acme'' ''bob'' None kd_bob = (kd_rotated, Inr ''YWNtZQ.Ym9i.dDM'')"
    by (simp add: kd_rotated_def prod_eq_iff)
  have u: "usable_key (demo_cfg False) ''YWNtZQ.Ym9i.dDM''" "get_user_role kd_bob ''acme'' ''bob'' = ''admin''" by code_simp+
  have "\<not> kc_hashing (demo_cfg False)" by (simp add: demo_cfg_def)
  with rotation_replaces_key [OF dict_fs_faithful demo_marked kd_reach(1) r] u show ?thesis by auto
qed

lemma fingerprint_manager [simp]: "fingerprint_of (Some (manager_of cfg st)) a u = get_user_key_fingerprint cfg st a u"
  by (simp add: fingerprint_of_def manager_of_def)

text \<open>A token whose recorded fingerprint is not the current one is refused.\<close>

lemma stale_token_refused:
  assumes "to_authorizing_key_fp t = Some fp" "get_user_key_fingerprint cfg st (to_account_id t) (to_user_id t) \<noteq> Some fp"
  shows "\<exists>e. check_token p (Some (manager_of cfg st)) t = Inl e"
  using assms
  by (auto simp: check_token_def nonempty_def ebind_def compare_digest_def Let_def split: option.splits sum.splits if_splits)

text \<open>Property C27. Regenerating the key of a user refuses the OAuth access tokens that the old key authorized: a token of the
  user whose recorded fingerprint is that of the old stored key fails the bearer check, unless the digests of the
  old and the new stored key collide.\<close>

theorem rotation_refuses_bearer_tokens:
  assumes "regenerate_key cfg fs token a u seed st = (st', Inr key)"
    and "load_access_token p now s bearer = Some t" "startswith bearer ACCESS_TOKEN_PREFIX"
    and "to_account_id t = a" "to_user_id t = u" "to_authorizing_key_fp t = get_user_key_fingerprint cfg st a u"
    and "get_user_key_fingerprint cfg st a u \<noteq> Some (kc_sha cfg (stored_form cfg key))"
  shows "\<exists>e. try_resolve_oauth_token (Some p) (Some (manager_of cfg st')) now s bearer = Inl e"
proof -
  from regenerate_success [OF assms(1)] obtain old where
    new: "find_user (kt_accounts st') a u = Some (rotated_info cfg key old)" by blast
  have fp: "get_user_key_fingerprint cfg st' a u \<in> {None, Some (kc_sha cfg (stored_form cfg key))}"
    using new by (simp add: get_user_key_fingerprint_def rotated_key)
  have "\<exists>e. check_token p (Some (manager_of cfg st')) t = Inl e"
  proof (cases "to_authorizing_key_fp t")
    case None
    then show ?thesis by (simp add: check_token_def nonempty_def)
  next
    case (Some x)
    then show ?thesis using assms(4-7) fp by (intro stale_token_refused) auto
  qed
  then show ?thesis using assms(2,3) by (auto simp: try_resolve_oauth_token_def)
qed

theorem rotation_refuses_bearer_tokens_witness:
  "\<exists>e. try_resolve_oauth_token (Some kd_provider) (Some (manager_of (demo_cfg False) kd_rotated)) 10 kd_tokens ''ovat_1'' = Inl e"
proof -
  have "snd (regenerate_key (demo_cfg False) dict_fs ''t3'' ''acme'' ''bob'' None kd_bob) = Inr ''YWNtZQ.Ym9i.dDM''" by code_simp
  then have r: "regenerate_key (demo_cfg False) dict_fs ''t3'' ''acme'' ''bob'' None kd_bob = (kd_rotated, Inr ''YWNtZQ.Ym9i.dDM'')"
    by (simp add: kd_rotated_def prod_eq_iff)
  have t: "load_access_token kd_provider 10 kd_tokens ''ovat_1'' = Some (token_object_of ''ovat_1'' kd_claims)" by code_simp
  have s: "startswith ''ovat_1'' ACCESS_TOKEN_PREFIX" by code_simp
  have c: "to_account_id (token_object_of ''ovat_1'' kd_claims) = ''acme''" "to_user_id (token_object_of ''ovat_1'' kd_claims) = ''bob''"
    "to_authorizing_key_fp (token_object_of ''ovat_1'' kd_claims) = get_user_key_fingerprint (demo_cfg False) kd_bob ''acme'' ''bob''"
    "get_user_key_fingerprint (demo_cfg False) kd_bob ''acme'' ''bob'' \<noteq> Some (kc_sha (demo_cfg False) (stored_form (demo_cfg False) ''YWNtZQ.Ym9i.dDM''))"
    by code_simp+
  show ?thesis by (rule rotation_refuses_bearer_tokens [OF r t s c])
qed

section \<open>Deletion\<close>

text \<open>Property. In every state of a run, a user whose deletion is in progress is locked out: no key resolves to the user,
  the user has no key fingerprint, and the bearer check refuses every token of the user.\<close>

theorem deleting_user_locked_out:
  assumes "fs_faithful fs" "hashes_marked cfg" "reach (km_init fs) (km_step cfg fs) st"
    and "find_user (kt_accounts st) a u = Some info" "is_deleting info"
  shows "(\<nexists>k. resolves_to cfg st k a u) \<and> get_user_key_fingerprint cfg st a u = None
    \<and> (\<forall>p t. to_account_id t = a \<and> to_user_id t = u \<longrightarrow> check_token p (Some (manager_of cfg st)) t = Inl UnauthenticatedError)"
proof -
  have inv: "key_inv fs st" using km_reach_inv assms(1-3) by blast
  then have "get_str info ''key'' = []" using wf_find_user [OF _ assms(4)] assms(5) by (auto simp: key_inv_def wf_info_def)
  then have "\<not> key_matches cfg k info" for k by (simp add: key_matches_def)
  then have "\<nexists>k. resolves_to cfg st k a u" using resolves_to_sound [OF inv] assms(4) by fastforce
  moreover have fp: "get_user_key_fingerprint cfg st a u = None"
    using assms(4) \<open>get_str info ''key'' = []\<close> by (simp add: get_user_key_fingerprint_def)
  moreover have "check_token p (Some (manager_of cfg st)) t = Inl UnauthenticatedError" if "to_account_id t = a" "to_user_id t = u" for p t
    using that fp by (simp add: check_token_def nonempty_def split: option.split)
  ultimately show ?thesis by blast
qed

theorem deleting_user_locked_out_witness:
  "(\<nexists>k. resolves_to (demo_cfg False) kd_deleting k ''acme'' ''bob'') \<and> (\<exists>k. resolves_to (demo_cfg False) kd_bob k ''acme'' ''bob'')"
proof -
  obtain info where i: "find_user (kt_accounts kd_deleting) ''acme'' ''bob'' = Some info" "is_deleting info"
  proof
    show "find_user (kt_accounts kd_deleting) ''acme'' ''bob'' = Some [(''role'', PStr ''admin''), (''key'', PStr []),
        (''deletion'', PDict (deletion_record ''task1'' ''acme'' ''alice''))]" by code_simp
    show "is_deleting [(''role'', PStr ''admin''), (''key'', PStr []), (''deletion'', PDict (deletion_record ''task1'' ''acme'' ''alice''))]" by code_simp
  qed
  have "resolves_to (demo_cfg False) kd_bob ''YWNtZQ.Ym9i.dDI'' ''acme'' ''bob''" by code_simp
  then show ?thesis using deleting_user_locked_out [OF dict_fs_faithful demo_marked kd_reach(2) i] by blast
qed

lemma two_admins:
  assumes "1 < length (filter (\<lambda>(v, i). active_admin i) us)" "distinct (dkeys us)"
  shows "\<exists>v i. v \<noteq> u \<and> dget us v = Some i \<and> active_admin i"
proof -
  let ?fs = "filter (\<lambda>(v, i). active_admin i) us"
  obtain x y zs where f: "?fs = x # y # zs" using assms(1) by (cases ?fs; cases "tl ?fs") auto
  have "distinct (map fst ?fs)" using assms(2) by (simp add: dkeys_def distinct_map_filter)
  then have ne: "fst x \<noteq> fst y" by (simp add: f)
  have "x \<in> set ?fs" "y \<in> set ?fs" by (simp_all add: f)
  then have "dget us (fst x) = Some (snd x)" "dget us (fst y) = Some (snd y)" "active_admin (snd x)" "active_admin (snd y)"
    using in_set_dget [OF assms(2)] by auto
  then show ?thesis using ne by metis
qed

text \<open>Property C28. Beginning the deletion of an administrator succeeds only when the account keeps another administrator
  that is not being deleted, and the user is fenced off.\<close>

theorem begin_deletion_keeps_an_admin:
  assumes "fs_faithful fs" "hashes_marked cfg" "reach (km_init fs) (km_step cfg fs) st"
    and "begin_user_deletion fs a u task_id owner_account owner_user st = (st', Inr (deletion, True))"
  shows "is_user_deleting st' a u \<and> (get_user_role st a u = Role_ADMIN \<longrightarrow>
    (\<exists>v info. v \<noteq> u \<and> find_user (kt_accounts st') a v = Some info \<and> active_admin info))"
proof -
  from assms(4) obtain acc info where acc: "dget (kt_accounts st) a = Some acc" and info: "dget (ai_users acc) u = Some info"
      and fence: "fence_user fs a u acc info task_id owner_account owner_user st = (st', Inr (deletion, True))"
    by (auto simp: begin_user_deletion_def split: option.splits if_splits)
  have dist: "distinct (dkeys (ai_users acc))"
    using km_reach_inv [OF assms(3,1,2)] wf_account_users [OF _ acc] by (auto simp: key_inv_def wf_users_def)
  let ?info = "fenced_info (deletion_record task_id owner_account owner_user) info"
  let ?adm = "length (filter (\<lambda>(v, i). active_admin i) (ai_users acc))"
  have guard: "\<not> (dget info ''role'' = Some (PStr Role_ADMIN) \<and> ?adm \<le> 1)" using fence by (auto simp: fence_user_def)
  then have accs: "kt_accounts st' = set_user (kt_accounts st) a u ?info"
    using fence by (auto simp: fence_user_def Let_def save_users_frame split: prod.splits sum.splits)
  have "is_user_deleting st' a u" using acc accs
    by (simp add: is_user_deleting_def get_user_deletion_def find_set_user deletion_of_def fenced_info_def)
  moreover have "\<exists>v i. v \<noteq> u \<and> find_user (kt_accounts st') a v = Some i \<and> active_admin i" if "get_user_role st a u = Role_ADMIN"
  proof -
    have "user_role info = ''admin''" using that acc info by (simp add: get_user_role_def find_user_def Role_ADMIN_def)
    then have "dget info ''role'' = Some (PStr Role_ADMIN)"
      unfolding user_role_def Role_ADMIN_def by (auto split: option.splits pyval.splits)
    then have "1 < ?adm" using guard by auto
    from two_admins [OF this dist, of u] obtain v i where v: "v \<noteq> u" "dget (ai_users acc) v = Some i" "active_admin i" by blast
    then have "find_user (kt_accounts st') a v = Some i" using acc by (simp add: accs find_set_user) (simp add: find_user_def)
    then show ?thesis using v by blast
  qed
  ultimately show ?thesis by blast
qed

theorem begin_deletion_keeps_an_admin_witness:
  "is_user_deleting kd_deleting ''acme'' ''bob''
    \<and> (\<exists>v info. v \<noteq> ''bob'' \<and> find_user (kt_accounts kd_deleting) ''acme'' v = Some info \<and> active_admin info)"
proof -
  have "snd (begin_user_deletion dict_fs ''acme'' ''bob'' ''task1'' ''acme'' ''alice'' kd_bob) = Inr (deletion_record ''task1'' ''acme'' ''alice'', True)"
    by code_simp
  then have b: "begin_user_deletion dict_fs ''acme'' ''bob'' ''task1'' ''acme'' ''alice'' kd_bob
      = (kd_deleting, Inr (deletion_record ''task1'' ''acme'' ''alice'', True))"
    by (simp add: kd_deleting_def prod_eq_iff)
  have "get_user_role kd_bob ''acme'' ''bob'' = Role_ADMIN" by code_simp
  with begin_deletion_keeps_an_admin [OF dict_fs_faithful demo_marked kd_reach(1) b] show ?thesis by blast
qed

section \<open>Groups\<close>

lemma reported_group:
  "g \<in> set (get_user_group_ids st a u) \<Longrightarrow> groups_ok (kt_accounts st) (kt_groups st) \<Longrightarrow> member_of_group (kt_accounts st) a u g"
  by (cases "dget (kt_groups st) (a, u)") (auto simp: get_user_group_ids_def groups_ok_get)

text \<open>Property. In every state of a run, the groups the manager reports for a user are groups of the user's account whose
  member lists name the user, and the user is registered.\<close>

theorem reported_groups_list_user:
  assumes "fs_faithful fs" "hashes_marked cfg" "reach (km_init fs) (km_step cfg fs) st" "g \<in> set (get_user_group_ids st a u)"
  shows "has_user st a u \<and> (\<exists>members. get_group_members a g st = Inr members \<and> u \<in> set members)"
proof -
  have "member_of_group (kt_accounts st) a u g"
    using reported_group [OF assms(4)] km_reach_inv [OF assms(3,1,2)] by (simp add: key_inv_def)
  then show ?thesis by (auto simp: member_of_group_def has_user_def find_user_def get_group_members_def split: option.splits)
qed

theorem reported_groups_list_user_witness:
  "has_user kd_group ''acme'' ''bob'' \<and> (\<exists>members. get_group_members ''acme'' ''staff'' kd_group = Inr members \<and> ''bob'' \<in> set members)"
proof -
  have "''staff'' \<in> set (get_user_group_ids kd_group ''acme'' ''bob'')" by code_simp
  then show ?thesis by (rule reported_groups_list_user [OF dict_fs_faithful demo_marked kd_reach(3)])
qed

section \<open>Failed calls\<close>

lemma dpop_dset_absent: "dget d k = None \<Longrightarrow> dpop (dset d k v) k = d"
  by (induction d k v rule: dset.induct) (auto simp: dpop_def filter_id_conv dest: dget_None_iff [THEN iffD1] split: if_splits)

lemma bucket_drop: "bucket (index_drop idx p a u) q = (if q = p then filter (\<lambda>e. entry_owner e \<noteq> (a, u)) (bucket idx q) else bucket idx q)"
  by (auto simp: bucket_def index_drop_def Let_def entry_owner_def filter_empty_conv split: option.split)

lemma bucket_add: "p \<noteq> [] \<Longrightarrow> bucket (index_add idx p e) q = (if q = p then bucket idx q @ [e] else bucket idx q)"
  by (auto simp: bucket_def index_add_def split: option.split)

lemma bucket_unowned: "unowned idx a u \<Longrightarrow> filter (\<lambda>e. entry_owner e \<noteq> (a, u)) (bucket idx q) = bucket idx q"
  by (auto simp: unowned_def in_bucket filter_id_conv)

lemma key_resolve_cong:
  assumes "kt_accounts st' = kt_accounts st" "\<And>p. bucket (kt_index st') p = bucket (kt_index st) p"
  shows "key_resolve cfg st' k = key_resolve cfg st k"
proof -
  have fp: "fast_path cfg st' k = fast_path cfg st k" unfolding fast_path_def assms(1) ..
  have lr: "legacy_resolve cfg st' k = legacy_resolve cfg st k" unfolding legacy_resolve_def assms(2) [unfolded bucket_def] ..
  show ?thesis unfolding key_resolve_def fp lr ..
qed

lemma rollback_frame:
  assumes "rollback_create_account fs a st = st'"
  shows "kt_accounts st' = kt_accounts (discard_account_state a st)" "kt_index st' = kt_index (discard_account_state a st)"
    "kt_groups st' = kt_groups (discard_account_state a st)"
  using assms by (auto simp: rollback_create_account_def save_accounts_json_def split: prod.splits)

lemma save_accounts_frame:
  assumes "save_accounts_json fs st = (st', r)"
  shows "kt_accounts st' = kt_accounts st" "kt_index st' = kt_index st" "kt_groups st' = kt_groups st"
  using assms by (auto simp: save_accounts_json_def split: prod.splits)

text \<open>Where creation fails, some state with the memory of the new account is rolled back.\<close>

lemma install_account_failure:
  assumes "install_account cfg fs now a u key st = (st', Inl e)"
  shows "\<exists>st2. st' = rollback_create_account fs a st2
    \<and> kt_accounts st2 = dset (kt_accounts st) a \<lparr>ai_created_at = now, ai_users = [(u, fresh_info cfg ''admin'' key)], ai_groups = []\<rparr>
    \<and> kt_index st2 = index_add (kt_index st) (get_key_prefix key) (fresh_entry cfg a u Role_ADMIN key) \<and> kt_groups st2 = kt_groups st"
  using assms
  by (auto simp: install_account_def Let_def save_accounts_frame save_users_frame write_groups_frame split: prod.splits sum.splits)

text \<open>Property C29. An account creation that fails, at whatever write, leaves the manager as it was: the accounts are the same,
  every key resolves as before, and every user has the groups it had.\<close>

theorem failed_account_creation_rolls_back:
  assumes "fs_faithful fs" "hashes_marked cfg" "reach (km_init fs) (km_step cfg fs) st"
    and "create_account cfg fs now token a u seed st = (st', Inl e)"
  shows "kt_accounts st' = kt_accounts st \<and> (\<forall>k. key_resolve cfg st' k = key_resolve cfg st k)
    \<and> (\<forall>a u. get_user_group_ids st' a u = get_user_group_ids st a u)"
proof (cases "st' = st")
  case False
  with assms(4) obtain key where gen: "generate_api_key (kc_sha cfg) a u seed token = Inr key" and new: "dget (kt_accounts st) a = None"
      and inst: "install_account cfg fs now a u key st = (st', Inl e)"
    by (auto simp: create_account_def split: if_splits sum.splits)
  have inv: "key_inv fs st" by (rule km_reach_inv [OF assms(3,1,2)])
  let ?info = "fresh_info cfg ''admin'' key" let ?p = "get_key_prefix key"
  from install_account_failure [OF inst] obtain st2 where roll: "rollback_create_account fs a st2 = st'"
      and accs: "kt_accounts st2 = dset (kt_accounts st) a \<lparr>ai_created_at = now, ai_users = [(u, ?info)], ai_groups = []\<rparr>"
      and idx: "kt_index st2 = index_add (kt_index st) ?p (fresh_entry cfg a u Role_ADMIN key)" and gi: "kt_groups st2 = kt_groups st" by blast
  note key = generated_not_argon2 [OF gen]
  have p: "?p \<noteq> []" using key by (simp add: get_key_prefix_def)
  have info: "get_str ?info ''key'' \<noteq> []" "info_prefix ?info = ?p"
    using holds_fresh [of cfg key "''admin''"] stored_marked [OF assms(2), of key] key p by (auto simp: holds_key_def info_prefix_def stored_form_def)
  have un: "unowned (kt_index st) a u" using inv new by (intro absent_unowned [of "kt_accounts st"]) (simp_all add: key_inv_def find_user_def)
  have "kt_accounts st' = kt_accounts st" using rollback_frame(1) [OF roll] accs new
    by (simp add: discard_account_state_def Let_def dpop_dset_absent)
  moreover have "bucket (kt_index st') q = bucket (kt_index st) q" for q
    using rollback_frame(2) [OF roll] accs idx info p bucket_unowned [OF un]
    by (simp add: discard_account_state_def Let_def remove_key_index_entry_def bucket_drop bucket_add fresh_entry_owner)
  moreover have "get_user_group_ids st' b v = get_user_group_ids st b v" for b v
  proof (cases "b = a")
    case True
    have "\<not> member_of_group (kt_accounts st) a v g" for g using new by (simp add: member_of_group_def)
    then have "g \<notin> set (get_user_group_ids st a v)" for g using inv reported_group [of g st a v] by (auto simp: key_inv_def)
    then have "get_user_group_ids st a v = []" using last_in_set by blast
    then show ?thesis using True rollback_frame(3) [OF roll]
      by (simp add: discard_account_state_def Let_def dget_discard_group get_user_group_ids_def split: option.splits)
  next
    case False
    then show ?thesis using rollback_frame(3) [OF roll] gi
      by (simp add: discard_account_state_def Let_def dget_discard_group get_user_group_ids_def split: option.splits)
  qed
  ultimately show ?thesis using key_resolve_cong by metis
qed simp

theorem failed_account_creation_rolls_back_witness:
  "\<exists>st'. create_account (demo_cfg False) readonly_fs ''now'' ''t1'' ''acme'' ''alice'' None empty_keys = (st', Inl IOError)
    \<and> kt_accounts st' = [] \<and> key_resolve (demo_cfg False) st' ''YWNtZQ.YWxpY2U.dDE'' = Inl UnauthenticatedError"
proof -
  let ?c = "create_account (demo_cfg False) readonly_fs ''now'' ''t1'' ''acme'' ''alice'' None empty_keys"
  have "snd ?c = Inl IOError" by code_simp
  then have c: "?c = (fst ?c, Inl IOError)" by (simp add: prod_eq_iff)
  have "kt_accounts empty_keys = []" "key_resolve (demo_cfg False) empty_keys ''YWNtZQ.YWxpY2U.dDE'' = Inl UnauthenticatedError" by code_simp+
  moreover have "reach (km_init readonly_fs) (km_step (demo_cfg False) readonly_fs) empty_keys" by (rule reach_init) (rule kd_init)
  ultimately show ?thesis using failed_account_creation_rolls_back [OF readonly_fs_faithful demo_marked _ c] c by metis
qed

text \<open>Property. A registration whose save fails is not undone: the error is returned without the key, the user stays registered in
  memory, and registering the user again is refused.\<close>

theorem failed_registration_is_kept:
  assumes "register_user cfg fs token a u role seed st = (st', Inl e)" "kt_accounts st' \<noteq> kt_accounts st"
  shows "has_user st' a u \<and> \<not> has_user st a u \<and> snd (register_user cfg fs token' a u role seed' st') = Inl AlreadyExistsError"
proof -
  from assms obtain acc r key where v: "validate_account_user_role role = Inr r" "validate_user_id u = None"
      and acc: "dget (kt_accounts st) a = Some acc" "dget (ai_users acc) u = None" and inst: "install_user cfg fs a u r key st = (st', Inl e)"
    by (auto simp: register_user_def register_with_def split: sum.splits option.splits if_splits)
  have accs: "kt_accounts st' = set_user (kt_accounts st) a u (fresh_info cfg r key)"
    using inst by (auto simp: install_user_def Let_def save_users_frame split: prod.splits)
  have "has_user st' a u" using acc accs by (simp add: has_user_def find_set_user)
  moreover have "\<not> has_user st a u" using acc by (simp add: has_user_def find_user_def)
  moreover have "\<exists>acc'. dget (kt_accounts st') a = Some acc' \<and> dget (ai_users acc') u \<noteq> None" using acc accs by (simp add: set_user_def)
  ultimately show ?thesis using v by (auto simp: register_user_def register_with_def)
qed

theorem failed_registration_is_kept_witness:
  "snd (register_user (demo_cfg False) readonly_fs ''t2'' ''acme'' ''bob'' ''user'' None
     (fst (register_user (demo_cfg False) readonly_fs ''t2'' ''acme'' ''bob'' ''user'' None kd_alice))) = Inl AlreadyExistsError"
proof -
  let ?c = "register_user (demo_cfg False) readonly_fs ''t2'' ''acme'' ''bob'' ''user'' None kd_alice"
  have "snd ?c = Inl IOError" "dkeys (ai_users (snd (hd (kt_accounts (fst ?c))))) \<noteq> dkeys (ai_users (snd (hd (kt_accounts kd_alice))))" by code_simp+
  then have "?c = (fst ?c, Inl IOError)" "kt_accounts (fst ?c) \<noteq> kt_accounts kd_alice" by (auto simp: prod_eq_iff)
  from failed_registration_is_kept [OF this] show ?thesis by blast
qed

text \<open>Property. Asking for a new key with an empty seed takes the old key away: the call is refused as an invalid argument and
  the record is unchanged, but a key of the old format that resolved to the user no longer does.\<close>

theorem empty_seed_drops_old_key:
  assumes "fs_faithful fs" "hashes_marked cfg" "reach (km_init fs) (km_step cfg fs) st"
    and "resolves_to cfg st k a u" "\<not> is_new_format_key k" "regenerate_key cfg fs token a u (Some []) st = (st', r)"
  shows "r = Inl InvalidArgumentError \<and> kt_accounts st' = kt_accounts st \<and> \<not> resolves_to cfg st' k a u"
proof -
  have inv: "key_inv fs st" by (rule km_reach_inv [OF assms(3,1,2)])
  from resolves_to_sound [OF inv assms(4)] obtain info where info: "find_user (kt_accounts st) a u = Some info" "key_matches cfg k info" by blast
  then obtain acc where acc: "dget (kt_accounts st) a = Some acc" "dget (ai_users acc) u = Some info" by (auto simp: find_user_Some)
  have nd: "\<not> is_deleting info" using wf_find_user [OF _ info(1)] inv info(2) by (auto simp: key_inv_def wf_info_def key_matches_def)
  have gen: "generate_api_key (kc_sha cfg) a u (Some []) token = Inl InvalidArgumentError"
    by (simp add: generate_api_key_def new_secret_def derive_seeded_api_key_secret_def ebind_def)
  have st': "st' = st\<lparr>kt_index := index_drop (kt_index st) (info_prefix info) a u\<rparr>" and r: "r = Inl InvalidArgumentError"
    using assms(6) acc nd gen by (auto simp: regenerate_key_def regenerate_with_def old_prefix_eq Let_def)
  have un: "unowned (kt_index st') a u" using dropped_unowned [OF _ info(1)] inv by (simp add: st' key_inv_def)
  have "\<not> resolves_to cfg st' k a u"
  proof
    assume "resolves_to cfg st' k a u"
    then obtain i where i: "key_resolve cfg st' k = Inr i" "ri_account_id i = Some a" "ri_user_id i = Some u"
      by (auto simp: resolves_to_def split: sum.splits)
    have "fast_path cfg st' k = None" using assms(5) by (simp add: fast_path_def)
    with i have "match_candidates cfg k (bucket (kt_index st') (get_key_prefix k)) = Inr i"
      by (auto simp: key_resolve_def legacy_resolve_def bucket_def root_identity_def ebind_Inr split: if_splits)
    from match_candidates_sound [OF this] obtain e where "indexed (kt_index st') (get_key_prefix k) e"
        "i = identity_of (ue_role e) (ue_account_id e) (ue_user_id e)" by (auto simp only: in_bucket)
    then show False using un i(2,3) by (auto simp: unowned_def entry_owner_def identity_of_def)
  qed
  then show ?thesis using r st' by simp
qed

lemma kd_old_store_ok: "key_store_ok dict_fs (kt_disk kd_old)"
  by (auto simp: key_store_ok_def kd_old_def read_section_def dict_fs_def users_doc_def kd_old_users_def get_dict_def objects_def
      wf_users_def wf_info_def get_str_def is_deleting_def dkeys_def split: if_splits)

theorem empty_seed_drops_old_key_witness:
  "resolves_to (demo_cfg False) kd_old_loaded ''0123456789'' ''acme'' ''alice''
    \<and> \<not> resolves_to (demo_cfg False) (fst (regenerate_key (demo_cfg False) dict_fs ''t'' ''acme'' ''alice'' (Some []) kd_old_loaded))
        ''0123456789'' ''acme'' ''alice''"
proof -
  have "km_init dict_fs kd_old" using kd_old_store_ok by (simp add: km_init_def kd_old_def empty_keys_def)
  then have "reach (km_init dict_fs) (km_step (demo_cfg False) dict_fs) kd_old" by (rule reach_init)
  then have l: "reach (km_init dict_fs) (km_step (demo_cfg False) dict_fs) kd_old_loaded"
    unfolding kd_old_loaded_def by (rule reach_step) (rule km_load)
  have k: "resolves_to (demo_cfg False) kd_old_loaded ''0123456789'' ''acme'' ''alice''" "\<not> is_new_format_key ''0123456789''" by code_simp+
  from empty_seed_drops_old_key [OF dict_fs_faithful demo_marked l k prod.collapse [symmetric], of "''t''"] k(1) show ?thesis by blast
qed

end
