(* ===== verification/Uri_Coordinator.thy ===== *)
theory Uri_Coordinator
  imports Py_Prelude
begin

text \<open>
  \<open>openviking/resource/uri_mutation_coordinator.py\<close>: leases on URI scopes. An access lease asks that its scopes stay
  where they are, a mutation lease moves or deletes them. A lease waits while an overlapping lease blocks it, so
  the model has one step for the section that appends a lease and one for the section that removes it.

  A lease object is compared by identity in the code; the field \<open>ul_id\<close> is that identity.
\<close>

section \<open>Definitions\<close>

definition normalize_uri :: "string \<Rightarrow> string" where
  "normalize_uri uri = rstrip (\<lambda>c. c = CHR ''/'') uri"

definition normalize_uris :: "string option list \<Rightarrow> string list" where
  "normalize_uris uris = sort (remdups (map normalize_uri (List.map_filter (\<lambda>u. if u = Some [] then None else u) uris)))"

definition uri_matches_prefix :: "string option \<Rightarrow> string \<Rightarrow> bool" where
  "uri_matches_prefix uri p =
     (case uri of
        None \<Rightarrow> False
      | Some u \<Rightarrow> u \<noteq> [] \<and> (normalize_uri u = normalize_uri p \<or> startswith (normalize_uri u) (normalize_uri p @ ''/'')))"

definition uris_overlap :: "string list \<Rightarrow> string list \<Rightarrow> bool" where
  "uris_overlap ls rs \<longleftrightarrow> (\<exists>l \<in> set ls. \<exists>r \<in> set rs. uri_matches_prefix (Some l) r \<or> uri_matches_prefix (Some r) l)"

record uri_lease =
  ul_id :: nat
  ul_account_id :: string
  ul_uris :: "string list"

definition overlaps :: "uri_lease \<Rightarrow> uri_lease \<Rightarrow> bool" where
  "overlaps a b \<longleftrightarrow> ul_account_id a = ul_account_id b \<and> uris_overlap (ul_uris a) (ul_uris b)"

record coordinator =
  co_accesses :: "uri_lease list"
  co_mutations :: "uri_lease list"

definition new_lease :: "nat \<Rightarrow> string \<Rightarrow> string option list \<Rightarrow> uri_lease" where
  "new_lease i account_id uris = \<lparr>ul_id = i, ul_account_id = account_id, ul_uris = normalize_uris uris\<rparr>"

definition has_blocker :: "coordinator \<Rightarrow> uri_lease \<Rightarrow> bool \<Rightarrow> bool" where
  "has_blocker c l mutation \<longleftrightarrow> (\<exists>a \<in> set (co_mutations c). overlaps l a) \<or> (mutation \<and> (\<exists>a \<in> set (co_accesses c). overlaps l a))"

text \<open>One turn of the waiting loop: \<open>None\<close> when the caller goes on waiting.\<close>

definition try_acquire :: "coordinator \<Rightarrow> uri_lease \<Rightarrow> bool \<Rightarrow> coordinator option" where
  "try_acquire c l mutation =
     (if has_blocker c l mutation then None
      else Some (if mutation then c\<lparr>co_mutations := co_mutations c @ [l]\<rparr> else c\<lparr>co_accesses := co_accesses c @ [l]\<rparr>))"

fun drop_lease :: "nat \<Rightarrow> uri_lease list \<Rightarrow> uri_lease list" where
  "drop_lease i [] = []"
| "drop_lease i (l # ls) = (if ul_id l = i then ls else l # drop_lease i ls)"

definition release :: "coordinator \<Rightarrow> uri_lease \<Rightarrow> bool \<Rightarrow> coordinator" where
  "release c l mutation =
     (if mutation then c\<lparr>co_mutations := drop_lease (ul_id l) (co_mutations c)\<rparr>
      else c\<lparr>co_accesses := drop_lease (ul_id l) (co_accesses c)\<rparr>)"

definition no_leases :: coordinator where
  "no_leases = \<lparr>co_accesses = [], co_mutations = []\<rparr>"

text \<open>Runs: a new object gets an identity no active lease has; the holder of a lease releases it.\<close>

definition lease_ids :: "coordinator \<Rightarrow> nat list" where
  "lease_ids c = map ul_id (co_accesses c @ co_mutations c)"

inductive co_step :: "coordinator \<Rightarrow> coordinator \<Rightarrow> bool" where
  co_acquire: "i \<notin> set (lease_ids c) \<Longrightarrow> try_acquire c (new_lease i a uris) mutation = Some c' \<Longrightarrow> co_step c c'"
| co_release: "l \<in> set (if mutation then co_mutations c else co_accesses c) \<Longrightarrow> co_step c (release c l mutation)"

inductive_cases co_stepE: "co_step c c'"

definition co_inv :: "coordinator \<Rightarrow> bool" where
  "co_inv c \<longleftrightarrow> distinct (lease_ids c)
     \<and> (\<forall>m \<in> set (co_mutations c). \<forall>l \<in> set (co_mutations c @ co_accesses c). ul_id l \<noteq> ul_id m \<longrightarrow> \<not> overlaps l m)"

section \<open>Scopes\<close>

lemma normalize_idem [simp]: "normalize_uri (normalize_uri u) = normalize_uri u"
  by (simp add: normalize_uri_def)

lemma matches_iff: "uri_matches_prefix (Some u) p \<longleftrightarrow>
    u \<noteq> [] \<and> (\<exists>r. normalize_uri u = normalize_uri p @ r \<and> (r = [] \<or> hd r = CHR ''/''))"
proof -
  have "(\<exists>r. normalize_uri u = normalize_uri p @ ''/'' @ r) \<longleftrightarrow> (\<exists>r. normalize_uri u = normalize_uri p @ r \<and> r \<noteq> [] \<and> hd r = CHR ''/'')"
    by (metis append_Cons append_Nil list.collapse list.sel(1) list.distinct(1))
  then show ?thesis by (auto simp: uri_matches_prefix_def startswith_iff)
qed

lemma matches_refl: "u \<noteq> [] \<Longrightarrow> uri_matches_prefix (Some u) u"
  by (simp add: uri_matches_prefix_def)

lemma matches_trans:
  assumes "uri_matches_prefix (Some u) p" "uri_matches_prefix (Some p) q"
  shows "uri_matches_prefix (Some u) q"
proof -
  from assms obtain r s where "u \<noteq> []" "normalize_uri u = normalize_uri p @ r" "r = [] \<or> hd r = CHR ''/''"
      "normalize_uri p = normalize_uri q @ s" "s = [] \<or> hd s = CHR ''/''"
    by (auto simp: matches_iff)
  then show ?thesis unfolding matches_iff by (intro conjI exI [of _ "s @ r"]) (auto simp: hd_append)
qed

lemma overlap_sym: "uris_overlap ls rs \<longleftrightarrow> uris_overlap rs ls"
  unfolding uris_overlap_def by blast

lemma overlaps_sym: "overlaps a b \<longleftrightarrow> overlaps b a"
  unfolding overlaps_def using overlap_sym by metis

text \<open>Two scopes that have a URI below both overlap.\<close>

lemma shared_descendant_overlaps:
  assumes "uri_matches_prefix (Some u) p" "uri_matches_prefix (Some u) q" "p \<noteq> []" "q \<noteq> []"
  shows "uri_matches_prefix (Some p) q \<or> uri_matches_prefix (Some q) p"
proof -
  from assms(1) obtain r where r: "normalize_uri u = normalize_uri p @ r" "r = [] \<or> hd r = CHR ''/''" unfolding matches_iff by blast
  from assms(2) obtain s where s: "normalize_uri u = normalize_uri q @ s" "s = [] \<or> hd s = CHR ''/''" unfolding matches_iff by blast
  have rs: "normalize_uri p @ r = normalize_uri q @ s" "r = [] \<or> hd r = CHR ''/''" "s = [] \<or> hd s = CHR ''/''" using r s by auto
  from rs(1) obtain t where "normalize_uri p = normalize_uri q @ t \<and> t @ r = s \<or> normalize_uri p @ t = normalize_uri q \<and> r = t @ s"
    unfolding append_eq_append_conv2 by blast
  then show ?thesis
  proof
    assume "normalize_uri p = normalize_uri q @ t \<and> t @ r = s"
    then show ?thesis using rs(3) assms(3) unfolding matches_iff by (cases t) auto
  next
    assume "normalize_uri p @ t = normalize_uri q \<and> r = t @ s"
    then have "normalize_uri q = normalize_uri p @ t \<and> (t = [] \<or> hd t = CHR ''/'')" using rs(2) by (cases t) auto
    then show ?thesis using assms(4) unfolding matches_iff by blast
  qed
qed

section \<open>Exclusion\<close>

lemma set_drop_lease: "set (drop_lease i ls) \<subseteq> set ls"
  by (induction ls) auto

lemma distinct_drop_lease: "distinct (map ul_id ls) \<Longrightarrow> distinct (map ul_id (drop_lease i ls))"
proof (induction ls)
  case (Cons l ls)
  then show ?case using set_drop_lease [of i ls] by auto
qed simp

lemma drop_lease_ids: "distinct (map ul_id ls) \<Longrightarrow> set (drop_lease i ls) = {l \<in> set ls. ul_id l \<noteq> i}"
  by (induction ls) (auto simp: image_iff)

lemma release_inv: "co_inv c \<Longrightarrow> co_inv (release c l mutation)"
  using set_drop_lease [of "ul_id l" "co_mutations c"] set_drop_lease [of "ul_id l" "co_accesses c"]
    distinct_drop_lease [of "co_mutations c" "ul_id l"] distinct_drop_lease [of "co_accesses c" "ul_id l"]
  unfolding co_inv_def lease_ids_def release_def by (auto simp: subset_iff image_iff)

lemma acquire_inv:
  assumes "co_inv c" "ul_id l \<notin> set (lease_ids c)" "try_acquire c l mutation = Some c'"
  shows "co_inv c'"
proof -
  have nb: "\<not> has_blocker c l mutation" and c': "c' = (if mutation then c\<lparr>co_mutations := co_mutations c @ [l]\<rparr> else c\<lparr>co_accesses := co_accesses c @ [l]\<rparr>)"
    using assms(3) by (auto simp: try_acquire_def split: if_splits)
  show ?thesis using assms(1,2) nb overlaps_sym unfolding co_inv_def lease_ids_def c' has_blocker_def by (auto; blast)
qed

interpretation co: step_system "\<lambda>c. c = no_leases" co_step co_inv
proof unfold_locales
  fix c assume "c = no_leases"
  then show "co_inv c" by (simp add: co_inv_def lease_ids_def no_leases_def)
next
  fix c c' assume "co_inv c" "co_step c c'"
  from this(2) show "co_inv c'"
  proof cases
    case (co_acquire i a uris mutation)
    then show ?thesis using acquire_inv [OF \<open>co_inv c\<close>, of "new_lease i a uris" mutation c'] by (simp add: new_lease_def)
  next
    case (co_release l mutation)
    then show ?thesis using release_inv [OF \<open>co_inv c\<close>] by simp
  qed
qed

text \<open>A run with one access and one mutation lease.\<close>

definition demo_access :: uri_lease where "demo_access = new_lease 1 ''acme'' [Some ''viking://resources/a/'']"
definition demo_mutation :: uri_lease where "demo_mutation = new_lease 2 ''acme'' [Some ''viking://user/b'']"
definition demo_leases :: coordinator where "demo_leases = \<lparr>co_accesses = [demo_access], co_mutations = [demo_mutation]\<rparr>"

lemma demo_leases_reach: "reach (\<lambda>c. c = no_leases) co_step demo_leases"
proof (rule reach_step)
  show "reach (\<lambda>c. c = no_leases) co_step \<lparr>co_accesses = [demo_access], co_mutations = []\<rparr>"
  proof (rule reach_step)
    show "reach (\<lambda>c. c = no_leases) co_step no_leases" by (rule reach_init) simp
    show "co_step no_leases \<lparr>co_accesses = [demo_access], co_mutations = []\<rparr>"
      by (rule co_acquire [of 1 no_leases "''acme''" "[Some ''viking://resources/a/'']" False]) code_simp+
  qed
  show "co_step \<lparr>co_accesses = [demo_access], co_mutations = []\<rparr> demo_leases"
    by (rule co_acquire [of 2 _ "''acme''" "[Some ''viking://user/b'']" True]) code_simp+
qed

text \<open>Property C37. In every state of a run of the coordinator, a mutation lease is alone on its scopes: no other lease of the
  account, access or mutation, names a URI that lies below a URI of it or above one.\<close>

theorem mutation_is_exclusive:
  assumes "reach (\<lambda>c. c = no_leases) co_step c" "m \<in> set (co_mutations c)" "l \<in> set (co_accesses c @ co_mutations c)" "ul_id l \<noteq> ul_id m"
    and "ul_account_id l = ul_account_id m" "p \<in> set (ul_uris m)" "q \<in> set (ul_uris l)" "p \<noteq> []" "q \<noteq> []"
  shows "\<not> (\<exists>u. uri_matches_prefix (Some u) p \<and> uri_matches_prefix (Some u) q)"
proof
  assume "\<exists>u. uri_matches_prefix (Some u) p \<and> uri_matches_prefix (Some u) q"
  then have "uri_matches_prefix (Some p) q \<or> uri_matches_prefix (Some q) p" using shared_descendant_overlaps assms(8,9) by blast
  then have "overlaps l m" using assms(5-7) by (auto simp: overlaps_def uris_overlap_def)
  moreover have "co_inv c" using co.reach_inv assms(1) by blast
  ultimately show False using assms(2-4) by (auto simp: co_inv_def)
qed

theorem mutation_is_exclusive_witness:
  "\<not> (\<exists>u. uri_matches_prefix (Some u) ''viking://user/b'' \<and> uri_matches_prefix (Some u) ''viking://resources/a'')"
proof (rule mutation_is_exclusive [OF demo_leases_reach, of demo_mutation demo_access])
  show "''viking://user/b'' \<in> set (ul_uris demo_mutation)" "''viking://resources/a'' \<in> set (ul_uris demo_access)" by code_simp+
qed (simp_all add: demo_leases_def demo_access_def demo_mutation_def new_lease_def)

text \<open>Property. Waiting ends: once the leases that overlap a request are released, in whatever order, the request is granted.\<close>

theorem released_scopes_are_granted:
  assumes "reach (\<lambda>c. c = no_leases) co_step c"
  shows "try_acquire (fold (\<lambda>b c. release c b True) (filter (overlaps l) (co_mutations c))
      (fold (\<lambda>b c. release c b False) (filter (overlaps l) (co_accesses c)) c)) l mutation \<noteq> None"
proof -
  have inv: "co_inv c" using co.reach_inv assms by blast
  have acc: "set (co_accesses (fold (\<lambda>b c. release c b False) bs c)) = {x \<in> set (co_accesses c). ul_id x \<notin> ul_id ` set bs}
      \<and> co_mutations (fold (\<lambda>b c. release c b False) bs c) = co_mutations c \<and> co_inv (fold (\<lambda>b c. release c b False) bs c)"
    if "co_inv c" for bs and c
    using that
  proof (induction bs arbitrary: c)
    case (Cons b bs)
    have "distinct (map ul_id (co_accesses c))" using Cons.prems by (simp add: co_inv_def lease_ids_def)
    then show ?case using Cons.IH [OF release_inv [OF Cons.prems], of b False] drop_lease_ids [of "co_accesses c" "ul_id b"]
      by (auto simp: release_def)
  qed auto
  have mut: "set (co_mutations (fold (\<lambda>b c. release c b True) bs c)) = {x \<in> set (co_mutations c). ul_id x \<notin> ul_id ` set bs}
      \<and> co_accesses (fold (\<lambda>b c. release c b True) bs c) = co_accesses c"
    if "co_inv c" for bs and c
    using that
  proof (induction bs arbitrary: c)
    case (Cons b bs)
    have "distinct (map ul_id (co_mutations c))" using Cons.prems by (simp add: co_inv_def lease_ids_def)
    then show ?case using Cons.IH [OF release_inv [OF Cons.prems], of b True] drop_lease_ids [of "co_mutations c" "ul_id b"]
      by (auto simp: release_def)
  qed auto
  let ?c1 = "fold (\<lambda>b c. release c b False) (filter (overlaps l) (co_accesses c)) c"
  have "\<not> has_blocker (fold (\<lambda>b c. release c b True) (filter (overlaps l) (co_mutations c)) ?c1) l mutation"
    using acc [OF inv, of "filter (overlaps l) (co_accesses c)"] mut [of ?c1 "filter (overlaps l) (co_mutations c)"]
    unfolding has_blocker_def by auto
  then show ?thesis by (simp add: try_acquire_def)
qed

theorem released_scopes_are_granted_witness:
  "try_acquire (release demo_leases demo_mutation True) (new_lease 3 ''acme'' [Some ''viking://user/b/c'']) True \<noteq> None"
proof -
  let ?l = "new_lease 3 ''acme'' [Some ''viking://user/b/c'']"
  have "filter (overlaps ?l) (co_mutations demo_leases) = [demo_mutation]" "filter (overlaps ?l) (co_accesses demo_leases) = []" by code_simp+
  with released_scopes_are_granted [OF demo_leases_reach, of ?l True] show ?thesis by simp
qed

end
