(* ===== verification/Watch_Task.thy ===== *)
theory Watch_Task
  imports Complex_Main Uri_Coordinator
begin

text \<open>
  The task of \<open>openviking/resource/watch_manager.py\<close>: a resource that is imported again at intervals, its stored form, and the
  two functions on target URIs. Times are whole microseconds, the resolution of \<open>datetime\<close>;
  intervals are real numbers of minutes. Dates stay in the range of \<open>datetime\<close>.
\<close>

section \<open>Tasks\<close>

datatype wval = WPy pyval | WNum real

type_synonym wdict = "(string \<times> wval) list"

record watch_task =
  wt_task_id :: string
  wt_path :: string
  wt_source_type :: "string option"
  wt_to_uri :: "string option"
  wt_to_is_directory :: "bool option"
  wt_parent_uri :: "string option"
  wt_reason :: string
  wt_instruction :: string
  wt_watch_interval :: real
  wt_build_index :: bool
  wt_summarize :: bool
  wt_processing_mode :: string
  wt_processor_kwargs :: pydict
  wt_auth_state :: "pydict option"
  wt_created_at :: int
  wt_last_execution_time :: "int option"
  wt_next_execution_time :: "int option"
  wt_is_active :: bool
  wt_account_id :: string
  wt_user_id :: string
  wt_original_role :: string

definition SUPPORTED_PROCESSING_MODES :: "string list" where
  "SUPPORTED_PROCESSING_MODES = [''semantic_and_vectors'', ''vectors_only'']"

definition DEFAULT_PROCESSING_MODE :: string where
  "DEFAULT_PROCESSING_MODE = ''semantic_and_vectors''"

definition ConflictError :: py_exc where "ConflictError = OtherError ''ConflictError''"

text \<open>\<open>datetime.isoformat\<close> and \<open>datetime.fromisoformat\<close>, and what the model class makes of a value that does not have the declared
  type of its field.\<close>

record iso_codec =
  iso_format :: "int \<Rightarrow> string"
  iso_parse :: "string \<Rightarrow> py_exc + int"
  lax_str :: "wval \<Rightarrow> py_exc + string"
  lax_bool :: "wval \<Rightarrow> py_exc + bool"
  lax_num :: "wval \<Rightarrow> py_exc + real"
  lax_time :: "wval \<Rightarrow> py_exc + int"
  lax_dict :: "wval \<Rightarrow> py_exc + pydict"

definition wopt_str :: "string option \<Rightarrow> wval" where
  "wopt_str x = WPy (case x of None \<Rightarrow> PNone | Some s \<Rightarrow> PStr s)"

definition wopt_time :: "iso_codec \<Rightarrow> int option \<Rightarrow> wval" where
  "wopt_time c x = WPy (case x of None \<Rightarrow> PNone | Some t \<Rightarrow> PStr (iso_format c t))"

definition watch_to_dict :: "iso_codec \<Rightarrow> watch_task \<Rightarrow> wdict" where
  "watch_to_dict c t =
     [(''task_id'', WPy (PStr (wt_task_id t))), (''path'', WPy (PStr (wt_path t))), (''source_type'', wopt_str (wt_source_type t)),
      (''to_uri'', wopt_str (wt_to_uri t)), (''parent_uri'', wopt_str (wt_parent_uri t)), (''reason'', WPy (PStr (wt_reason t))),
      (''instruction'', WPy (PStr (wt_instruction t))), (''watch_interval'', WNum (wt_watch_interval t)),
      (''build_index'', WPy (PBool (wt_build_index t))), (''summarize'', WPy (PBool (wt_summarize t))),
      (''processing_mode'', WPy (PStr (wt_processing_mode t))), (''processor_kwargs'', WPy (PDict (wt_processor_kwargs t))),
      (''created_at'', WPy (PStr (iso_format c (wt_created_at t)))), (''last_execution_time'', wopt_time c (wt_last_execution_time t)),
      (''next_execution_time'', wopt_time c (wt_next_execution_time t)), (''is_active'', WPy (PBool (wt_is_active t))),
      (''account_id'', WPy (PStr (wt_account_id t))), (''user_id'', WPy (PStr (wt_user_id t))),
      (''original_role'', WPy (PStr (wt_original_role t)))]"

definition to_storage_dict :: "iso_codec \<Rightarrow> watch_task \<Rightarrow> wdict" where
  "to_storage_dict c t =
     (let d = dset (watch_to_dict c t) ''to_is_directory'' (WPy (case wt_to_is_directory t of None \<Rightarrow> PNone | Some b \<Rightarrow> PBool b))
      in case wt_auth_state t of None \<Rightarrow> d | Some a \<Rightarrow> dset d ''auth_state'' (WPy (PDict a)))"

text \<open>The fields of the model class.\<close>

definition wfield_str :: "iso_codec \<Rightarrow> wdict \<Rightarrow> string \<Rightarrow> string option \<Rightarrow> py_exc + string" where
  "wfield_str c d k dflt = (case dget d k of
     None \<Rightarrow> (case dflt of None \<Rightarrow> Inl ValueError | Some s \<Rightarrow> Inr s) | Some (WPy (PStr s)) \<Rightarrow> Inr s | Some v \<Rightarrow> lax_str c v)"

definition wfield_opt_str :: "iso_codec \<Rightarrow> wdict \<Rightarrow> string \<Rightarrow> py_exc + string option" where
  "wfield_opt_str c d k = (case dget d k of
     None \<Rightarrow> Inr None | Some (WPy PNone) \<Rightarrow> Inr None | Some (WPy (PStr s)) \<Rightarrow> Inr (Some s) | Some v \<Rightarrow> map_sum id Some (lax_str c v))"

definition wfield_bool :: "iso_codec \<Rightarrow> wdict \<Rightarrow> string \<Rightarrow> bool \<Rightarrow> py_exc + bool" where
  "wfield_bool c d k dflt = (case dget d k of None \<Rightarrow> Inr dflt | Some (WPy (PBool b)) \<Rightarrow> Inr b | Some v \<Rightarrow> lax_bool c v)"

definition wfield_opt_bool :: "iso_codec \<Rightarrow> wdict \<Rightarrow> string \<Rightarrow> py_exc + bool option" where
  "wfield_opt_bool c d k = (case dget d k of
     None \<Rightarrow> Inr None | Some (WPy PNone) \<Rightarrow> Inr None | Some (WPy (PBool b)) \<Rightarrow> Inr (Some b) | Some v \<Rightarrow> map_sum id Some (lax_bool c v))"

definition wfield_num :: "iso_codec \<Rightarrow> wdict \<Rightarrow> string \<Rightarrow> real \<Rightarrow> py_exc + real" where
  "wfield_num c d k dflt = (case dget d k of
     None \<Rightarrow> Inr dflt | Some (WNum x) \<Rightarrow> Inr x | Some (WPy (PInt n)) \<Rightarrow> Inr (of_int n) | Some v \<Rightarrow> lax_num c v)"

definition wfield_time :: "iso_codec \<Rightarrow> wdict \<Rightarrow> string \<Rightarrow> py_exc + int option" where
  "wfield_time c d k = (case dget d k of
     None \<Rightarrow> Inr None | Some (WPy PNone) \<Rightarrow> Inr None | Some (WPy (PStr s)) \<Rightarrow> map_sum id Some (iso_parse c s)
   | Some v \<Rightarrow> map_sum id Some (lax_time c v))"

definition wfield_dict :: "iso_codec \<Rightarrow> wdict \<Rightarrow> string \<Rightarrow> py_exc + pydict" where
  "wfield_dict c d k = (case dget d k of
     None \<Rightarrow> Inr [] | Some (WPy PNone) \<Rightarrow> Inr [] | Some (WPy (PDict x)) \<Rightarrow> Inr x | Some v \<Rightarrow> lax_dict c v)"

definition wfield_mode :: "wdict \<Rightarrow> py_exc + string" where
  "wfield_mode d = (case dget d ''processing_mode'' of
     None \<Rightarrow> Inr DEFAULT_PROCESSING_MODE
   | Some (WPy (PStr m)) \<Rightarrow> if m \<in> set SUPPORTED_PROCESSING_MODES then Inr m else Inl ValueError
   | Some _ \<Rightarrow> Inl ValueError)"

text \<open>\<open>now\<close> and \<open>fresh\<close> are the defaults of \<open>created_at\<close>, which may not be null, and \<open>task_id\<close>.\<close>

definition watch_from_dict :: "iso_codec \<Rightarrow> int \<Rightarrow> string \<Rightarrow> wdict \<Rightarrow> py_exc + watch_task" where
  "watch_from_dict c now fresh d =
     ebind (wfield_str c d ''task_id'' (Some fresh)) (\<lambda>task_id.
     ebind (wfield_str c d ''path'' None) (\<lambda>path.
     ebind (wfield_opt_str c d ''source_type'') (\<lambda>source_type.
     ebind (wfield_opt_str c d ''to_uri'') (\<lambda>to_uri.
     ebind (wfield_opt_bool c d ''to_is_directory'') (\<lambda>to_is_directory.
     ebind (wfield_opt_str c d ''parent_uri'') (\<lambda>parent_uri.
     ebind (wfield_str c d ''reason'' (Some [])) (\<lambda>reason.
     ebind (wfield_str c d ''instruction'' (Some [])) (\<lambda>instruction.
     ebind (wfield_num c d ''watch_interval'' 60) (\<lambda>interval.
     ebind (wfield_bool c d ''build_index'' True) (\<lambda>build_index.
     ebind (wfield_bool c d ''summarize'' False) (\<lambda>summarize.
     ebind (wfield_mode d) (\<lambda>mode.
     ebind (wfield_dict c d ''processor_kwargs'') (\<lambda>kwargs.
     ebind (if dget d ''created_at'' = None then Inr (Some now) else wfield_time c d ''created_at'') (\<lambda>created.
     ebind (wfield_time c d ''last_execution_time'') (\<lambda>last_time.
     ebind (wfield_time c d ''next_execution_time'') (\<lambda>next_time.
     ebind (wfield_bool c d ''is_active'' True) (\<lambda>is_active.
     ebind (wfield_str c d ''account_id'' (Some ''default'')) (\<lambda>account_id.
     ebind (wfield_str c d ''user_id'' (Some ''default'')) (\<lambda>user_id.
     ebind (wfield_str c d ''original_role'' (Some ''user'')) (\<lambda>role.
       case created of
         None \<Rightarrow> Inl ValueError
       | Some created_at \<Rightarrow> Inr
          \<lparr>wt_task_id = task_id, wt_path = path, wt_source_type = source_type, wt_to_uri = to_uri, wt_to_is_directory = to_is_directory,
           wt_parent_uri = parent_uri, wt_reason = reason, wt_instruction = instruction, wt_watch_interval = interval,
           wt_build_index = build_index, wt_summarize = summarize, wt_processing_mode = mode, wt_processor_kwargs = kwargs,
           wt_auth_state = (case dget d ''auth_state'' of Some (WPy (PDict a)) \<Rightarrow> Some a | _ \<Rightarrow> None),
           wt_created_at = created_at, wt_last_execution_time = last_time, wt_next_execution_time = next_time, wt_is_active = is_active,
           wt_account_id = account_id, wt_user_id = user_id, wt_original_role = role\<rparr>))))))))))))))))))))"

text \<open>\<open>timedelta(minutes=x)\<close>: the nearest microsecond, the even one of two.\<close>

definition timedelta_minutes :: "real \<Rightarrow> int" where
  "timedelta_minutes x =
     (let y = 60000000 * x; n = \<lfloor>y\<rfloor>; r = y - of_int n
      in if r < 1 / 2 then n else if r > 1 / 2 then n + 1 else if even n then n else n + 1)"

definition calculate_next_execution_time :: "watch_task \<Rightarrow> int" where
  "calculate_next_execution_time t =
     (case wt_last_execution_time t of None \<Rightarrow> wt_created_at t | Some l \<Rightarrow> l) + timedelta_minutes (wt_watch_interval t)"

definition rewrite_uri_prefix :: "string \<Rightarrow> string \<Rightarrow> string \<Rightarrow> string" where
  "rewrite_uri_prefix uri old_prefix new_prefix =
     (let old_normalized = normalize_uri old_prefix; new_normalized = normalize_uri new_prefix
      in if uri = old_normalized then new_normalized else new_normalized @ drop (length old_normalized) uri)"

definition watch_parent_uri :: "string \<Rightarrow> string option" where
  "watch_parent_uri uri =
     (let normalized = normalize_uri uri in
      if CHR ''/'' \<notin> set normalized then None
      else let parent = join ''/'' (butlast (split_on CHR ''/'' normalized))
           in if parent \<in> {''viking:/'', ''viking://''} then None else Some parent)"

section \<open>Stored form\<close>

definition iso_ok :: "iso_codec \<Rightarrow> bool" where
  "iso_ok c \<longleftrightarrow> (\<forall>x. iso_parse c (iso_format c x) = Inr x)"

lemma no_private_keys: "dget (watch_to_dict c t) ''auth_state'' = None \<and> dget (watch_to_dict c t) ''to_is_directory'' = None"
  by (simp add: watch_to_dict_def)

lemma dget_storage_dict:
  "dget (to_storage_dict c t) k =
     (if k = ''auth_state'' then map_option (WPy \<circ> PDict) (wt_auth_state t)
      else if k = ''to_is_directory'' then Some (WPy (case wt_to_is_directory t of None \<Rightarrow> PNone | Some b \<Rightarrow> PBool b))
      else dget (watch_to_dict c t) k)"
  using no_private_keys [of c t] unfolding to_storage_dict_def Let_def by (auto split: option.split)

lemma wfield_opt_str_opt [simp]: "dget d k = Some (wopt_str x) \<Longrightarrow> wfield_opt_str c d k = Inr x"
  by (simp add: wfield_opt_str_def wopt_str_def split: option.split)

lemma wfield_time_opt [simp]: "iso_ok c \<Longrightarrow> dget d k = Some (wopt_time c x) \<Longrightarrow> wfield_time c d k = Inr x"
  by (simp add: wfield_time_def wopt_time_def iso_ok_def split: option.split)

lemma wfield_time_str [simp]: "iso_ok c \<Longrightarrow> dget d k = Some (WPy (PStr (iso_format c x))) \<Longrightarrow> wfield_time c d k = Inr (Some x)"
  by (simp add: wfield_time_def iso_ok_def)

lemma wfield_opt_bool_opt [simp]:
  "dget d k = Some (WPy (case x of None \<Rightarrow> PNone | Some b \<Rightarrow> PBool b)) \<Longrightarrow> wfield_opt_bool c d k = Inr x"
  by (simp add: wfield_opt_bool_def split: option.split)

lemmas wfield_defs = wfield_str_def wfield_bool_def wfield_num_def wfield_dict_def wfield_mode_def

lemma storage_roundtrip:
  assumes "iso_ok c" "wt_processing_mode t \<in> set SUPPORTED_PROCESSING_MODES"
  shows "watch_from_dict c now fresh (to_storage_dict c t) = Inr t"
  using assms unfolding watch_from_dict_def
  by (cases t) (simp add: dget_storage_dict watch_to_dict_def wfield_defs split: option.split)

section \<open>Rewriting targets\<close>

lemma matches_decomp:
  assumes "uri_matches_prefix (Some u) p"
  obtains r where "u = normalize_uri p @ r" "r = [] \<or> hd r = CHR ''/''"
proof -
  from assms obtain r where r: "normalize_uri u = normalize_uri p @ r" "r = [] \<or> hd r = CHR ''/''" unfolding matches_iff by blast
  obtain s where s: "u = normalize_uri u @ s" "list_all (\<lambda>c. c = CHR ''/'') s"
    using rstrip_decomp [of u "\<lambda>c. c = CHR ''/''"] unfolding normalize_uri_def by blast
  have "u = normalize_uri p @ (r @ s)" using r(1) s(1) by simp
  moreover have "r @ s = [] \<or> hd (r @ s) = CHR ''/''" using r(2) s(2) by (cases r; cases s) auto
  ultimately show ?thesis using that by blast
qed

lemma rewrite_append [simp]: "rewrite_uri_prefix (normalize_uri p @ r) p q = normalize_uri q @ r"
  by (simp add: rewrite_uri_prefix_def Let_def)

lemma rewrite_matches:
  assumes "uri_matches_prefix (Some u) p" "normalize_uri q \<noteq> []"
  shows "uri_matches_prefix (Some (rewrite_uri_prefix u p q)) q"
proof -
  obtain r where r: "u = normalize_uri p @ r" "r = [] \<or> hd r = CHR ''/''" using matches_decomp assms(1) by blast
  have "normalize_uri (normalize_uri q @ r) = (if list_all (\<lambda>c. c = CHR ''/'') r then normalize_uri q else normalize_uri q @ normalize_uri r)"
    unfolding normalize_uri_def by (simp add: rstrip_append)
  moreover have "hd (normalize_uri r) = CHR ''/''" if "\<not> list_all (\<lambda>c. c = CHR ''/'') r"
    using that r(2) by (cases r) (auto simp: normalize_uri_def rstrip_Cons)
  ultimately show ?thesis using assms(2) r(1) unfolding matches_iff by (auto split: if_splits)
qed

lemma rewrite_back: "uri_matches_prefix (Some u) p \<Longrightarrow> rewrite_uri_prefix (rewrite_uri_prefix u p q) q p = u"
  by (metis matches_decomp rewrite_append)

lemma rewrite_inj:
  "uri_matches_prefix (Some u) p \<Longrightarrow> uri_matches_prefix (Some v) p \<Longrightarrow> rewrite_uri_prefix u p q = rewrite_uri_prefix v p q \<Longrightarrow> u = v"
  by (metis rewrite_back)

end
