(* ===== verification/Watch_Store.thy ===== *)
theory Watch_Store
  imports Watch_Task
begin

text \<open>
  Loading and saving of \<open>openviking/resource/watch_manager.py\<close>: one JSON file with a backup and a temporary file beside it.

  The file system is the parameter \<open>watch_fs\<close>; what it stores is a parsed document: blank text, text that is not JSON, JSON that is
  null or not an object, or the list under \<open>tasks\<close>.
\<close>

section \<open>The store\<close>

datatype wfile = WBlank | WMalformed | WNull | WOther | WTasks "wdict list"

record 's watch_fs =
  wf_atomic :: bool
  wf_read :: "'s \<Rightarrow> string \<Rightarrow> py_exc + wfile"
  wf_write :: "'s \<Rightarrow> string \<Rightarrow> wfile \<Rightarrow> 's \<times> (py_exc + unit)"
  wf_exists :: "'s \<Rightarrow> string \<Rightarrow> py_exc + bool"
  wf_rm :: "'s \<Rightarrow> string \<Rightarrow> 's \<times> (py_exc + unit)"
  wf_mv :: "'s \<Rightarrow> string \<Rightarrow> string \<Rightarrow> 's \<times> (py_exc + unit)"

definition WATCH_TASK_STORAGE_URI :: string where
  "WATCH_TASK_STORAGE_URI = ''viking://resources/.watch_tasks.json''"

definition WATCH_TASK_STORAGE_BAK_URI :: string where
  "WATCH_TASK_STORAGE_BAK_URI = ''viking://resources/.watch_tasks.json.bak''"

definition WATCH_TASK_STORAGE_TMP_URI :: string where
  "WATCH_TASK_STORAGE_TMP_URI = ''viking://resources/.watch_tasks.json.tmp''"

type_synonym watch_tasks = "(string \<times> watch_task) list"
type_synonym uri_index = "((string \<times> string) \<times> string) list"

record 's watch_state =
  ws_tasks :: watch_tasks
  ws_index :: uri_index
  ws_initialized :: bool
  ws_disk :: 's

text \<open>\<open>wf_atomic\<close> says that the file system has \<open>mv\<close>, \<open>rm\<close> and \<open>exists\<close>. The file calls of \<open>_save_tasks\<close>, one definition per call, so that a stop between two of them can be stated.\<close>

definition save_rm_backup :: "'s watch_fs \<Rightarrow> 's \<Rightarrow> 's" where
  "save_rm_backup fs d =
     (case wf_exists fs d WATCH_TASK_STORAGE_BAK_URI of
        Inr True \<Rightarrow> fst (wf_rm fs d WATCH_TASK_STORAGE_BAK_URI) | _ \<Rightarrow> d)"

definition save_rotate :: "'s watch_fs \<Rightarrow> 's \<Rightarrow> 's" where
  "save_rotate fs d =
     (case wf_exists fs d WATCH_TASK_STORAGE_URI of
        Inr True \<Rightarrow> fst (wf_mv fs d WATCH_TASK_STORAGE_URI WATCH_TASK_STORAGE_BAK_URI) | _ \<Rightarrow> d)"

definition storage_doc :: "iso_codec \<Rightarrow> watch_tasks \<Rightarrow> wfile" where
  "storage_doc c ts = WTasks (map (\<lambda>(i, t). to_storage_dict c t) ts)"

definition save_tasks :: "iso_codec \<Rightarrow> 's watch_fs option \<Rightarrow> 's watch_state \<Rightarrow> 's watch_state \<times> (py_exc + unit)" where
  "save_tasks c fso st =
     (case fso of
        None \<Rightarrow> (st, Inr ())
      | Some fs \<Rightarrow>
          if \<not> wf_atomic fs then
            (case wf_write fs (ws_disk st) WATCH_TASK_STORAGE_URI (storage_doc c (ws_tasks st)) of (d, r) \<Rightarrow> (st\<lparr>ws_disk := d\<rparr>, r))
          else
          (case wf_write fs (ws_disk st) WATCH_TASK_STORAGE_TMP_URI (storage_doc c (ws_tasks st)) of
             (d, Inl e) \<Rightarrow> (st\<lparr>ws_disk := d\<rparr>, Inl e)
           | (d, Inr _) \<Rightarrow>
               (case wf_mv fs (save_rotate fs (save_rm_backup fs d)) WATCH_TASK_STORAGE_TMP_URI WATCH_TASK_STORAGE_URI of
                  (d', r) \<Rightarrow> (st\<lparr>ws_disk := d'\<rparr>, r))))"

text \<open>Reading one file: a document, or \<open>None\<close> when there is none, it is blank or not JSON, or reading fails.\<close>

definition read_tasks_file :: "'s watch_fs \<Rightarrow> 's \<Rightarrow> string \<Rightarrow> wfile option" where
  "read_tasks_file fs d uri = (case wf_read fs d uri of
     Inr WBlank \<Rightarrow> None | Inr WMalformed \<Rightarrow> None | Inr f \<Rightarrow> Some f | Inl _ \<Rightarrow> None)"

definition is_data :: "wfile option \<Rightarrow> bool" where
  "is_data f \<longleftrightarrow> f \<noteq> None \<and> f \<noteq> Some WNull"

text \<open>The stored entries and whether they come from the backup.\<close>

definition stored_entries :: "'s watch_fs \<Rightarrow> 's \<Rightarrow> wdict list \<times> bool" where
  "stored_entries fs d =
     (let entries = (\<lambda>f. case f of Some (WTasks ds) \<Rightarrow> ds | _ \<Rightarrow> []);
          main = read_tasks_file fs d WATCH_TASK_STORAGE_URI
      in if is_data main then (entries main, False)
         else let bak = read_tasks_file fs d WATCH_TASK_STORAGE_BAK_URI in (entries bak, bak \<noteq> None))"

definition normalize_loaded :: "watch_task \<Rightarrow> watch_task \<times> bool" where
  "normalize_loaded t =
     (if \<not> wt_is_active t then
        (if wt_next_execution_time t \<noteq> None then (t\<lparr>wt_next_execution_time := None\<rparr>, True) else (t, False))
      else if wt_watch_interval t \<le> 0 then (t\<lparr>wt_next_execution_time := None, wt_is_active := False\<rparr>, True)
      else if wt_next_execution_time t = None then (t\<lparr>wt_next_execution_time := Some (calculate_next_execution_time t)\<rparr>, True)
      else (t, False))"

definition has_target :: "watch_task \<Rightarrow> bool" where
  "has_target t \<longleftrightarrow> wt_to_uri t \<noteq> None \<and> wt_to_uri t \<noteq> Some []"

definition target_key :: "watch_task \<Rightarrow> string \<times> string" where
  "target_key t = (wt_account_id t, case wt_to_uri t of None \<Rightarrow> [] | Some u \<Rightarrow> u)"

definition install_task :: "watch_task \<Rightarrow> watch_tasks \<times> uri_index \<Rightarrow> watch_tasks \<times> uri_index" where
  "install_task t = (\<lambda>(ts, ix). (dset ts (wt_task_id t) t, if has_target t then dset ix (target_key t) (wt_task_id t) else ix))"

fun load_entries ::
  "iso_codec \<Rightarrow> int \<Rightarrow> string list \<Rightarrow> wdict list \<Rightarrow> watch_tasks \<times> uri_index \<times> bool \<Rightarrow> watch_tasks \<times> uri_index \<times> bool" where
  "load_entries c now fresh [] acc = acc"
| "load_entries c now fresh (d # ds) (ts, ix, changed) =
     (case watch_from_dict c now (case fresh of [] \<Rightarrow> [] | i # _ \<Rightarrow> i) d of
        Inl _ \<Rightarrow> load_entries c now (tl fresh) ds (ts, ix, changed)
      | Inr t \<Rightarrow>
          let (t', n) = normalize_loaded t; (ts', ix') = install_task t' (ts, ix)
          in load_entries c now (tl fresh) ds (ts', ix', changed \<or> n))"

definition load_tasks :: "iso_codec \<Rightarrow> 's watch_fs option \<Rightarrow> int \<Rightarrow> string list \<Rightarrow> 's watch_state \<Rightarrow> 's watch_state" where
  "load_tasks c fso now fresh st =
     (case fso of
        None \<Rightarrow> st
      | Some fs \<Rightarrow>
          let (ds, recovered) = stored_entries fs (ws_disk st);
              (ts, ix, changed) = load_entries c now fresh ds (ws_tasks st, ws_index st, False);
              st1 = st\<lparr>ws_tasks := ts, ws_index := ix\<rparr>
          in if recovered \<or> changed then fst (save_tasks c fso st1) else st1)"

definition wm_initialize :: "iso_codec \<Rightarrow> 's watch_fs option \<Rightarrow> int \<Rightarrow> string list \<Rightarrow> 's watch_state \<Rightarrow> 's watch_state" where
  "wm_initialize c fso now fresh st =
     (if ws_initialized st then st else (load_tasks c fso now fresh st)\<lparr>ws_initialized := True\<rparr>)"

section \<open>Stops between file calls\<close>

text \<open>The disk before a save and after each of its file calls.\<close>

definition save_stops :: "'s watch_fs \<Rightarrow> 's \<Rightarrow> wfile \<Rightarrow> 's list" where
  "save_stops fs d0 doc =
     (case wf_write fs d0 WATCH_TASK_STORAGE_TMP_URI doc of
        (d1, Inl e) \<Rightarrow> [d0, d1]
      | (d1, Inr _) \<Rightarrow> [d0, d1, save_rm_backup fs d1, save_rotate fs (save_rm_backup fs d1),
          fst (wf_mv fs (save_rotate fs (save_rm_backup fs d1)) WATCH_TASK_STORAGE_TMP_URI WATCH_TASK_STORAGE_URI)])"

text \<open>What is relied on of a file system: each of \<open>rm\<close> and \<open>mv\<close> happens or fails without effect, a failed write changes no other file,
  and files read back as written.\<close>

definition atomic_fs :: "'s watch_fs \<Rightarrow> ('s \<Rightarrow> string \<Rightarrow> wfile option) \<Rightarrow> bool" where
  "atomic_fs fs files \<longleftrightarrow> wf_atomic fs
     \<and> (\<forall>d u. wf_read fs d u = (case files d u of None \<Rightarrow> Inl NotFoundError | Some f \<Rightarrow> Inr f))
     \<and> (\<forall>d u b. wf_exists fs d u = Inr b \<longrightarrow> b = (files d u \<noteq> None))
     \<and> (\<forall>d u f d' r. wf_write fs d u f = (d', r) \<longrightarrow> (\<forall>v. v \<noteq> u \<longrightarrow> files d' v = files d v) \<and> (r = Inr () \<longrightarrow> files d' u = Some f))
     \<and> (\<forall>d u d' r. wf_rm fs d u = (d', r) \<longrightarrow> files d' = (files d)(u := None) \<or> files d' = files d \<and> r \<noteq> Inr ())
     \<and> (\<forall>d u v d' r. wf_mv fs d u v = (d', r) \<longrightarrow>
          files d u \<noteq> None \<and> files d' = (files d)(v := files d u, u := None) \<or> files d' = files d \<and> r \<noteq> Inr ())"

lemma atomic_read: "atomic_fs fs files \<Longrightarrow> wf_read fs d u = (case files d u of None \<Rightarrow> Inl NotFoundError | Some f \<Rightarrow> Inr f)"
  by (simp add: atomic_fs_def)

lemma atomic_exists: "atomic_fs fs files \<Longrightarrow> wf_exists fs d u = Inr b \<Longrightarrow> b = (files d u \<noteq> None)"
  by (simp add: atomic_fs_def)

lemma atomic_write: "atomic_fs fs files \<Longrightarrow> wf_write fs d u f = (d', r) \<Longrightarrow>
    (\<forall>v. v \<noteq> u \<longrightarrow> files d' v = files d v) \<and> (r = Inr () \<longrightarrow> files d' u = Some f)"
  unfolding atomic_fs_def by blast

lemma atomic_rm: "atomic_fs fs files \<Longrightarrow> wf_rm fs d u = (d', r) \<Longrightarrow> files d' = (files d)(u := None) \<or> files d' = files d \<and> r \<noteq> Inr ()"
  unfolding atomic_fs_def by blast

lemma atomic_mv: "atomic_fs fs files \<Longrightarrow> wf_mv fs d u v = (d', r) \<Longrightarrow>
    files d u \<noteq> None \<and> files d' = (files d)(v := files d u, u := None) \<or> files d' = files d \<and> r \<noteq> Inr ()"
  unfolding atomic_fs_def by blast

lemma storage_uris [simp]:
  "WATCH_TASK_STORAGE_URI \<noteq> WATCH_TASK_STORAGE_BAK_URI" "WATCH_TASK_STORAGE_BAK_URI \<noteq> WATCH_TASK_STORAGE_URI"
  "WATCH_TASK_STORAGE_URI \<noteq> WATCH_TASK_STORAGE_TMP_URI" "WATCH_TASK_STORAGE_TMP_URI \<noteq> WATCH_TASK_STORAGE_URI"
  "WATCH_TASK_STORAGE_BAK_URI \<noteq> WATCH_TASK_STORAGE_TMP_URI" "WATCH_TASK_STORAGE_TMP_URI \<noteq> WATCH_TASK_STORAGE_BAK_URI"
  by (simp_all add: WATCH_TASK_STORAGE_URI_def WATCH_TASK_STORAGE_BAK_URI_def WATCH_TASK_STORAGE_TMP_URI_def)

lemma stored_main:
  "atomic_fs fs files \<Longrightarrow> files d WATCH_TASK_STORAGE_URI = Some (WTasks ds) \<Longrightarrow> stored_entries fs d = (ds, False)"
  by (simp add: stored_entries_def read_tasks_file_def atomic_read is_data_def)

lemma stored_backup:
  "atomic_fs fs files \<Longrightarrow> files d WATCH_TASK_STORAGE_URI = None \<Longrightarrow> files d WATCH_TASK_STORAGE_BAK_URI = Some (WTasks ds)
    \<Longrightarrow> stored_entries fs d = (ds, True)"
  by (simp add: stored_entries_def read_tasks_file_def atomic_read is_data_def)

text \<open>The tasks are in the main file, or the main file is gone and they are in the backup.\<close>

definition holds_doc :: "(string \<Rightarrow> wfile option) \<Rightarrow> wdict list \<Rightarrow> bool" where
  "holds_doc f ds \<longleftrightarrow> f WATCH_TASK_STORAGE_URI = Some (WTasks ds)
     \<or> f WATCH_TASK_STORAGE_URI = None \<and> f WATCH_TASK_STORAGE_BAK_URI = Some (WTasks ds)"

lemma holds_stored: "atomic_fs fs files \<Longrightarrow> holds_doc (files d) ds \<Longrightarrow> fst (stored_entries fs d) = ds"
  by (auto simp: holds_doc_def stored_main stored_backup)

lemma rm_backup_files:
  assumes "atomic_fs fs files"
  shows "\<forall>u. u \<noteq> WATCH_TASK_STORAGE_BAK_URI \<longrightarrow> files (save_rm_backup fs d) u = files d u"
proof -
  obtain d' r where m: "wf_rm fs d WATCH_TASK_STORAGE_BAK_URI = (d', r)" by fastforce
  have "save_rm_backup fs d \<in> {d, d'}" using m by (auto simp: save_rm_backup_def split: sum.split bool.split)
  then show ?thesis using atomic_rm [OF assms m] by auto
qed

lemma rotate_files:
  assumes "atomic_fs fs files" "files d WATCH_TASK_STORAGE_URI = Some (WTasks ds)"
  shows "holds_doc (files (save_rotate fs d)) ds"
    "files (save_rotate fs d) WATCH_TASK_STORAGE_TMP_URI = files d WATCH_TASK_STORAGE_TMP_URI"
proof -
  obtain d' r where m: "wf_mv fs d WATCH_TASK_STORAGE_URI WATCH_TASK_STORAGE_BAK_URI = (d', r)" by fastforce
  have "save_rotate fs d \<in> {d, d'}" using m by (auto simp: save_rotate_def split: sum.split bool.split)
  then show "holds_doc (files (save_rotate fs d)) ds"
    "files (save_rotate fs d) WATCH_TASK_STORAGE_TMP_URI = files d WATCH_TASK_STORAGE_TMP_URI"
    using atomic_mv [OF assms(1) m] assms(2) by (auto simp: holds_doc_def)
qed

lemma install_files:
  assumes "atomic_fs fs files" "holds_doc (files d) old" "files d WATCH_TASK_STORAGE_TMP_URI = Some (WTasks new)"
    "wf_mv fs d WATCH_TASK_STORAGE_TMP_URI WATCH_TASK_STORAGE_URI = (d', r)"
  shows "files d' WATCH_TASK_STORAGE_URI = Some (WTasks new) \<or> holds_doc (files d') old \<and> r \<noteq> Inr ()"
  using atomic_mv [OF assms(1,4)] assms(2,3) by auto

lemma save_stops_cases:
  assumes "atomic_fs fs files" "files d WATCH_TASK_STORAGE_URI = Some (WTasks old)" "d' \<in> set (save_stops fs d (WTasks new))"
  shows "holds_doc (files d') old \<or> files d' WATCH_TASK_STORAGE_URI = Some (WTasks new)"
proof -
  obtain d1 r where w: "wf_write fs d WATCH_TASK_STORAGE_TMP_URI (WTasks new) = (d1, r)" by fastforce
  let ?d2 = "save_rm_backup fs d1" let ?d3 = "save_rotate fs ?d2"
  obtain d4 r4 where m: "wf_mv fs ?d3 WATCH_TASK_STORAGE_TMP_URI WATCH_TASK_STORAGE_URI = (d4, r4)" by fastforce
  have d1: "files d1 WATCH_TASK_STORAGE_URI = Some (WTasks old)" using atomic_write [OF assms(1) w] assms(2) by simp
  have d2: "files ?d2 WATCH_TASK_STORAGE_URI = Some (WTasks old)" using rm_backup_files [OF assms(1)] d1 by simp
  have d3: "holds_doc (files ?d3) old" using rotate_files [OF assms(1) d2] by simp
  have "d' \<in> {d, d1} \<or> r = Inr () \<and> d' \<in> {?d2, ?d3, d4}"
    using assms(3) w m by (cases r) (auto simp: save_stops_def)
  moreover have "files d4 WATCH_TASK_STORAGE_URI = Some (WTasks new) \<or> holds_doc (files d4) old" if "r = Inr ()"
    using install_files [OF assms(1) d3 _ m] rotate_files(2) [OF assms(1) d2] rm_backup_files [OF assms(1)] atomic_write [OF assms(1) w] that
    by auto
  ultimately show ?thesis using assms(2) d1 d2 d3 by (auto simp: holds_doc_def)
qed

lemma save_disk_in_stops:
  "wf_atomic fs \<Longrightarrow> save_tasks c (Some fs) st = (st', r) \<Longrightarrow> ws_disk st' \<in> set (save_stops fs (ws_disk st) (storage_doc c (ws_tasks st)))"
  by (auto simp: save_tasks_def save_stops_def split: prod.splits sum.splits)

lemma saved_main:
  assumes "atomic_fs fs files" "save_tasks c (Some fs) st = (st', Inr ())"
  shows "files (ws_disk st') WATCH_TASK_STORAGE_URI = Some (storage_doc c (ws_tasks st))"
proof -
  obtain d1 r where w: "wf_write fs (ws_disk st) WATCH_TASK_STORAGE_TMP_URI (storage_doc c (ws_tasks st)) = (d1, r)" by fastforce
  let ?d2 = "save_rm_backup fs d1" let ?d3 = "save_rotate fs ?d2"
  obtain d4 r4 where m: "wf_mv fs ?d3 WATCH_TASK_STORAGE_TMP_URI WATCH_TASK_STORAGE_URI = (d4, r4)" by fastforce
  have r: "r = Inr ()" "r4 = Inr ()" "ws_disk st' = d4" using assms w m by (auto simp: save_tasks_def atomic_fs_def split: sum.splits)
  obtain d5 r5 where m5: "wf_mv fs ?d2 WATCH_TASK_STORAGE_URI WATCH_TASK_STORAGE_BAK_URI = (d5, r5)" by fastforce
  have "?d3 \<in> {?d2, d5}" using m5 by (auto simp: save_rotate_def split: sum.split bool.split)
  then have "files ?d3 WATCH_TASK_STORAGE_TMP_URI = files ?d2 WATCH_TASK_STORAGE_TMP_URI" using atomic_mv [OF assms(1) m5] by auto
  then have "files ?d3 WATCH_TASK_STORAGE_TMP_URI = Some (storage_doc c (ws_tasks st))"
    using rm_backup_files [OF assms(1)] atomic_write [OF assms(1) w] r(1) by simp
  then show ?thesis using atomic_mv [OF assms(1) m] r by auto
qed

section \<open>Loading what was saved\<close>

text \<open>A task whose schedule agrees with its activity, and the state all operations keep: tasks under their ids, and an index that maps
  exactly the targets of the tasks.\<close>

definition schedule_ok :: "watch_task \<Rightarrow> bool" where
  "schedule_ok t \<longleftrightarrow> (if wt_is_active t then wt_watch_interval t > 0 \<and> wt_next_execution_time t \<noteq> None else wt_next_execution_time t = None)"

definition sane_task :: "watch_task \<Rightarrow> bool" where
  "sane_task t \<longleftrightarrow> schedule_ok t \<and> wt_processing_mode t \<in> set SUPPORTED_PROCESSING_MODES \<and> wt_task_id t \<noteq> []"

definition watch_ok :: "watch_tasks \<Rightarrow> uri_index \<Rightarrow> bool" where
  "watch_ok ts ix \<longleftrightarrow> distinct (dkeys ts)
     \<and> (\<forall>i t. dget ts i = Some t \<longrightarrow> wt_task_id t = i \<and> sane_task t)
     \<and> (\<forall>k i. dget ix k = Some i \<longleftrightarrow> (\<exists>t. dget ts i = Some t \<and> has_target t \<and> target_key t = k))"

lemma normalize_sane: "sane_task t \<Longrightarrow> normalize_loaded t = (t, False)"
  by (auto simp: sane_task_def schedule_ok_def normalize_loaded_def split: if_splits)

lemma load_saved:
  assumes "iso_ok c" "\<forall>(i, t) \<in> set ts. wt_task_id t = i \<and> sane_task t" "distinct (dkeys (ts0 @ ts))"
  shows "\<exists>ix. load_entries c now fresh (map (\<lambda>(i, t). to_storage_dict c t) ts) (ts0, ix0, b) = (ts0 @ ts, ix, b)
     \<and> (\<forall>k. (\<exists>i. dget ix k = Some i \<and> (\<exists>t. (i, t) \<in> set ts \<and> has_target t \<and> target_key t = k))
          \<or> (\<forall>(i, t) \<in> set ts. \<not> (has_target t \<and> target_key t = k)) \<and> dget ix k = dget ix0 k)"
  using assms(2,3)
proof (induction ts arbitrary: fresh ts0 ix0)
  case (Cons p ts)
  obtain i t where p: "p = (i, t)" by (cases p)
  let ?ix = "if has_target t then dset ix0 (target_key t) i else ix0"
  have t: "wt_task_id t = i" "sane_task t" using Cons.prems(1) p by auto
  have new: "dset ts0 i t = ts0 @ [(i, t)]" using Cons.prems(2) p by (intro dset_new) (auto simp: dkeys_def)
  have reads: "watch_from_dict c now f (to_storage_dict c t) = Inr t" for f
    using storage_roundtrip [OF assms(1)] t(2) by (simp add: sane_task_def)
  have "distinct (dkeys ((ts0 @ [(i, t)]) @ ts))" using Cons.prems(2) p by simp
  then obtain ix where ix: "load_entries c now (tl fresh) (map (\<lambda>(i, t). to_storage_dict c t) ts) (ts0 @ [(i, t)], ?ix, b) = ((ts0 @ [(i, t)]) @ ts, ix, b)"
    and sound: "\<forall>k. (\<exists>i. dget ix k = Some i \<and> (\<exists>t. (i, t) \<in> set ts \<and> has_target t \<and> target_key t = k))
          \<or> (\<forall>(i, t) \<in> set ts. \<not> (has_target t \<and> target_key t = k)) \<and> dget ix k = dget ?ix k"
    using Cons.IH [of "ts0 @ [(i, t)]" "tl fresh" ?ix] Cons.prems(1) by auto
  have "load_entries c now fresh (map (\<lambda>(i, t). to_storage_dict c t) (p # ts)) (ts0, ix0, b) = (ts0 @ p # ts, ix, b)"
    using ix p t new by (auto simp: reads normalize_sane install_task_def)
  moreover have "(\<exists>i. dget ix k = Some i \<and> (\<exists>t. (i, t) \<in> set (p # ts) \<and> has_target t \<and> target_key t = k))
      \<or> (\<forall>(i, t) \<in> set (p # ts). \<not> (has_target t \<and> target_key t = k)) \<and> dget ix k = dget ix0 k" for k
    using sound [rule_format, of k] p by (cases "has_target t \<and> target_key t = k") auto
  ultimately show ?case by blast
qed simp

lemma load_restores:
  assumes "iso_ok c" "watch_ok ts ix0"
  shows "\<exists>ix. load_entries c now fresh (map (\<lambda>(i, t). to_storage_dict c t) ts) ([], [], b) = (ts, ix, b) \<and> dget ix = dget ix0"
proof -
  have d: "distinct (dkeys ts)" and t: "\<forall>i t. dget ts i = Some t \<longrightarrow> wt_task_id t = i \<and> sane_task t"
    and i: "\<forall>k i. dget ix0 k = Some i \<longleftrightarrow> (\<exists>t. dget ts i = Some t \<and> has_target t \<and> target_key t = k)"
    using assms(2) by (auto simp: watch_ok_def)
  have g: "(i, t) \<in> set ts \<longleftrightarrow> dget ts i = Some t" for i t using d by (simp add: dget_eq_map_of dkeys_def)
  have all: "\<forall>(i, t) \<in> set ts. wt_task_id t = i \<and> sane_task t" using t g by blast
  have dd: "distinct (dkeys ([] @ ts))" using d by simp
  obtain ix where e: "load_entries c now fresh (map (\<lambda>(i, t). to_storage_dict c t) ts) ([], [], b) = ([] @ ts, ix, b)"
    and s: "\<forall>k. (\<exists>i. dget ix k = Some i \<and> (\<exists>t. (i, t) \<in> set ts \<and> has_target t \<and> target_key t = k))
          \<or> (\<forall>(i, t) \<in> set ts. \<not> (has_target t \<and> target_key t = k)) \<and> dget ix k = dget ([] :: uri_index) k"
    using load_saved [OF assms(1) all dd, of now fresh "[]" b] by blast
  have "dget ix k = dget ix0 k" for k
  proof (cases "dget ix0 k")
    case None
    then have "\<not> (has_target t \<and> target_key t = k)" if "(i, t) \<in> set ts" for i t using that i g by (metis option.distinct(1))
    then show ?thesis using s [rule_format, of k] None by auto
  next
    case (Some j)
    then have "\<exists>i. dget ix k = Some i \<and> (\<exists>t. (i, t) \<in> set ts \<and> has_target t \<and> target_key t = k)" using s [rule_format, of k] i g by fastforce
    then obtain i' t' where "dget ix k = Some i'" "dget ts i' = Some t'" "has_target t'" "target_key t' = k" using g by blast
    then show ?thesis using i Some by metis
  qed
  then show ?thesis using e by auto
qed

section \<open>Properties\<close>

text \<open>A file system that never fails.\<close>

definition map_fs :: "(string \<Rightarrow> wfile option) watch_fs" where
  "map_fs = \<lparr>wf_atomic = True, wf_read = (\<lambda>d u. case d u of None \<Rightarrow> Inl NotFoundError | Some f \<Rightarrow> Inr f),
     wf_write = (\<lambda>d u f. (d(u \<mapsto> f), Inr ())), wf_exists = (\<lambda>d u. Inr (d u \<noteq> None)), wf_rm = (\<lambda>d u. (d(u := None), Inr ())),
     wf_mv = (\<lambda>d u v. if d u = None then (d, Inl NotFoundError) else (d(v := d u, u := None), Inr ()))\<rparr>"

lemma map_fs_atomic: "atomic_fs map_fs id"
  by (auto simp: atomic_fs_def map_fs_def split: if_splits)

lemma map_fs_steps:
  "wf_atomic map_fs" "wf_mv map_fs d u v = (if d u = None then (d, Inl NotFoundError) else (d(v := d u, u := None), Inr ()))"
  "wf_read map_fs d u = (case d u of None \<Rightarrow> Inl NotFoundError | Some f \<Rightarrow> Inr f)" "wf_write map_fs d u f = (d(u \<mapsto> f), Inr ())"
  "save_rm_backup map_fs d = d(WATCH_TASK_STORAGE_BAK_URI := None)"
  "save_rotate map_fs d = (if d WATCH_TASK_STORAGE_URI = None then d
     else d(WATCH_TASK_STORAGE_BAK_URI := d WATCH_TASK_STORAGE_URI, WATCH_TASK_STORAGE_URI := None))"
  by (auto simp: map_fs_def save_rm_backup_def save_rotate_def split: bool.split)

lemma map_fs_save: "snd (save_tasks c (Some map_fs) st) = Inr ()"
  by (simp add: save_tasks_def map_fs_steps case_prod_unfold)



text \<open>Property. Two stops can lose every task. After a stop between the two moves of a save the tasks are in the backup only, and the
  load that recovers them saves at once; that save removes the backup before the main file is back. A stop there leaves nothing a
  load reads.\<close>

theorem two_stops_lose_the_tasks:
  "stored_entries map_fs (save_stops map_fs (d(WATCH_TASK_STORAGE_URI \<mapsto> WTasks old)) (WTasks new) ! 3) = (old, True)
   \<and> stored_entries map_fs (save_stops map_fs (save_stops map_fs (d(WATCH_TASK_STORAGE_URI \<mapsto> WTasks old)) (WTasks new) ! 3) doc ! 2) = ([], False)"
  by (simp add: save_stops_def map_fs_steps stored_entries_def read_tasks_file_def is_data_def numeral_eq_Suc)

end
