(* ===== verification/Watch_Manager.thy ===== *)
theory Watch_Manager
  imports Watch_Store
begin

text \<open>
  The operations of \<open>openviking/resource/watch_manager.py\<close>. A method that waits for a lease and re-checks its snapshot is
  modelled by the section it runs under the lease, with the snapshot as an argument; \<open>None\<close> sends it back to take a new one.
\<close>

section \<open>Operations\<close>

definition wm_check_permission :: "watch_task \<Rightarrow> string \<Rightarrow> string \<Rightarrow> string \<Rightarrow> bool" where
  "wm_check_permission t account_id user_id role =
     (let role_value = map lower_char role in
      if role_value = ''root'' then True
      else if wt_account_id t \<noteq> account_id then False
      else if role_value = ''admin'' then True
      else wt_user_id t = user_id)"

definition check_uri_conflict :: "uri_index \<Rightarrow> string option \<Rightarrow> string \<Rightarrow> string option \<Rightarrow> bool" where
  "check_uri_conflict ix to_uri account_id exclude =
     (case to_uri of
        None \<Rightarrow> False
      | Some u \<Rightarrow>
          if u = [] then False
          else case dget ix (account_id, u) of
              None \<Rightarrow> False
            | Some existing \<Rightarrow> existing \<noteq> [] \<and> \<not> (exclude \<noteq> None \<and> exclude \<noteq> Some [] \<and> exclude = Some existing))"

text \<open>The arguments of \<open>create_task\<close> are the fields of the new task; its id, times and activity come from the defaults.\<close>

definition new_watch_task :: "int \<Rightarrow> string \<Rightarrow> watch_task \<Rightarrow> watch_task" where
  "new_watch_task now fresh a =
     (let t = a\<lparr>wt_task_id := fresh, wt_created_at := now, wt_last_execution_time := None, wt_next_execution_time := None, wt_is_active := True\<rparr>
      in t\<lparr>wt_next_execution_time := Some (calculate_next_execution_time t)\<rparr>)"

definition put_task :: "watch_task \<Rightarrow> 's watch_state \<Rightarrow> 's watch_state" where
  "put_task t st = st\<lparr>ws_tasks := dset (ws_tasks st) (wt_task_id t) t\<rparr>"

definition wm_create_task ::
  "iso_codec \<Rightarrow> 's watch_fs option \<Rightarrow> int \<Rightarrow> string \<Rightarrow> watch_task \<Rightarrow> 's watch_state \<Rightarrow> 's watch_state \<times> (py_exc + watch_task)" where
  "wm_create_task c fso now fresh a st =
     (if wt_path a = [] then (st, Inl ValueError)
      else if wt_watch_interval a \<le> 0 then (st, Inl ValueError)
      else if check_uri_conflict (ws_index st) (wt_to_uri a) (wt_account_id a) None then (st, Inl ConflictError)
      else if wt_processing_mode a \<notin> set SUPPORTED_PROCESSING_MODES then (st, Inl ValueError)
      else
        let t = new_watch_task now fresh a;
            (ts, ix) = install_task t (ws_tasks st, ws_index st)
        in case save_tasks c fso (st\<lparr>ws_tasks := ts, ws_index := ix\<rparr>) of (st', r) \<Rightarrow> (st', map_sum id (\<lambda>_. t) r))"

record watch_update =
  wu_path :: "string option"
  wu_source_type :: "string option"
  wu_to_uri :: "string option"
  wu_to_is_directory :: "bool option"
  wu_parent_uri :: "string option"
  wu_reason :: "string option"
  wu_instruction :: "string option"
  wu_watch_interval :: "real option"
  wu_build_index :: "bool option"
  wu_summarize :: "bool option"
  wu_processing_mode :: "string option"
  wu_processor_kwargs :: "pydict option"
  wu_auth_state :: "pydict option option"
  wu_is_active :: "bool option"

definition pick :: "'a option \<Rightarrow> 'a \<Rightarrow> 'a" where
  "pick new old = (case new of None \<Rightarrow> old | Some x \<Rightarrow> x)"

definition some_or :: "'a option \<Rightarrow> 'a option \<Rightarrow> 'a option" where
  "some_or new old = (case new of None \<Rightarrow> old | Some x \<Rightarrow> Some x)"

text \<open>The assignments up to the check of the interval, and those after it.\<close>

definition update_head :: "watch_update \<Rightarrow> watch_task \<Rightarrow> watch_task" where
  "update_head u t =
     t\<lparr>wt_path := pick (wu_path u) (wt_path t), wt_source_type := some_or (wu_source_type u) (wt_source_type t),
       wt_to_uri := some_or (wu_to_uri u) (wt_to_uri t), wt_to_is_directory := some_or (wu_to_is_directory u) (wt_to_is_directory t),
       wt_parent_uri := some_or (wu_parent_uri u) (wt_parent_uri t), wt_reason := pick (wu_reason u) (wt_reason t),
       wt_instruction := pick (wu_instruction u) (wt_instruction t)\<rparr>"

definition update_interval :: "watch_update \<Rightarrow> watch_task \<Rightarrow> watch_task" where
  "update_interval u t =
     (case wu_watch_interval u of
        None \<Rightarrow> t
      | Some w \<Rightarrow> if w \<le> 0 then t\<lparr>wt_watch_interval := w, wt_next_execution_time := None, wt_is_active := False\<rparr>
                  else t\<lparr>wt_watch_interval := w\<rparr>)"

definition update_tail :: "watch_update \<Rightarrow> watch_task \<Rightarrow> watch_task" where
  "update_tail u t =
     t\<lparr>wt_build_index := pick (wu_build_index u) (wt_build_index t), wt_summarize := pick (wu_summarize u) (wt_summarize t),
       wt_processing_mode := pick (wu_processing_mode u) (wt_processing_mode t),
       wt_processor_kwargs := pick (wu_processor_kwargs u) (wt_processor_kwargs t), wt_auth_state := pick (wu_auth_state u) (wt_auth_state t),
       wt_is_active := pick (wu_is_active u) (wt_is_active t)\<rparr>"

definition update_schedule :: "watch_update \<Rightarrow> watch_task \<Rightarrow> watch_task" where
  "update_schedule u t =
     (if wu_watch_interval u \<noteq> None then
        t\<lparr>wt_next_execution_time := (if wt_is_active t \<and> wt_watch_interval t > 0 then Some (calculate_next_execution_time t) else None)\<rparr>
      else if wu_is_active u \<noteq> None then
        t\<lparr>wt_next_execution_time := (if wt_is_active t then (if wt_next_execution_time t = None then Some (calculate_next_execution_time t)
                                                                else wt_next_execution_time t) else None)\<rparr>
      else t)"

definition update_index :: "watch_update \<Rightarrow> watch_task \<Rightarrow> watch_task \<Rightarrow> uri_index \<Rightarrow> uri_index" where
  "update_index u old t ix =
     (case wu_to_uri u of
        None \<Rightarrow> ix
      | Some uri \<Rightarrow>
          let ix1 = (if has_target old \<and> wt_to_uri old \<noteq> Some uri then dpop ix (target_key old) else ix)
          in if uri \<noteq> [] then dset ix1 (wt_account_id t, uri) (wt_task_id t) else ix1)"

definition update_task_unlocked ::
  "iso_codec \<Rightarrow> 's watch_fs option \<Rightarrow> watch_update \<Rightarrow> watch_task \<Rightarrow> 's watch_state \<Rightarrow> 's watch_state \<times> (py_exc + watch_task)" where
  "update_task_unlocked c fso u t st =
     (if check_uri_conflict (ws_index st) (wu_to_uri u) (wt_account_id t) (Some (wt_task_id t)) then (st, Inl ConflictError)
      else
        let t1 = update_head u t in
        if (case wu_watch_interval u of None \<Rightarrow> False | Some w \<Rightarrow> w \<le> 0) \<and> wu_is_active u = Some True then (put_task t1 st, Inl ValueError)
        else
          let t2 = update_tail u (update_interval u t1) in
          if wu_is_active u \<noteq> None \<and> wu_watch_interval u = None \<and> wt_is_active t2 \<and> wt_watch_interval t2 \<le> 0
          then (put_task t2 st, Inl ValueError)
          else
            let t3 = update_schedule u t2;
                st1 = (put_task t3 st)\<lparr>ws_index := update_index u t t3 (ws_index st)\<rparr>
            in case save_tasks c fso st1 of (st', r) \<Rightarrow> (st', map_sum id (\<lambda>_. t3) r))"

text \<open>The section of \<open>update_task\<close> under the lease taken for \<open>snap\<close>.\<close>

definition same_target :: "string \<times> string option \<Rightarrow> watch_task \<Rightarrow> bool" where
  "same_target snap t \<longleftrightarrow> wt_account_id t = fst snap \<and> wt_to_uri t = snd snap"

definition wm_update_task ::
  "iso_codec \<Rightarrow> 's watch_fs option \<Rightarrow> string \<times> string option \<Rightarrow> string \<Rightarrow> string \<Rightarrow> string \<Rightarrow> string \<Rightarrow> watch_update \<Rightarrow> 's watch_state
    \<Rightarrow> 's watch_state \<times> (py_exc + watch_task) option" where
  "wm_update_task c fso snap task_id account_id user_id role u st =
     (case dget (ws_tasks st) task_id of
        None \<Rightarrow> (st, Some (Inl ValueError))
      | Some t \<Rightarrow>
          if \<not> same_target snap t then (st, None)
          else if \<not> wm_check_permission t account_id user_id role then (st, Some (Inl PermissionDeniedError))
          else map_prod id Some (update_task_unlocked c fso u t st))"

definition update_auth_state ::
  "iso_codec \<Rightarrow> 's watch_fs option \<Rightarrow> string \<Rightarrow> pydict option \<Rightarrow> 's watch_state \<Rightarrow> 's watch_state \<times> (py_exc + unit)" where
  "update_auth_state c fso task_id auth st =
     (case dget (ws_tasks st) task_id of
        None \<Rightarrow> (st, Inr ())
      | Some t \<Rightarrow> save_tasks c fso (st\<lparr>ws_tasks := dset (ws_tasks st) task_id (t\<lparr>wt_auth_state := auth\<rparr>)\<rparr>))"

text \<open>Moving targets. A plan lists the tasks to move with their new targets.\<close>

definition rewrite_plan :: "string \<Rightarrow> string \<Rightarrow> string \<Rightarrow> watch_tasks \<Rightarrow> (string \<times> string) list" where
  "rewrite_plan old_uri new_uri account_id ts =
     List.map_filter (\<lambda>(i, t). if wt_account_id t = account_id \<and> uri_matches_prefix (wt_to_uri t) (normalize_uri old_uri)
       then Some (i, rewrite_uri_prefix (pick (wt_to_uri t) []) (normalize_uri old_uri) (normalize_uri new_uri)) else None) ts"

definition plan_conflict :: "uri_index \<Rightarrow> string \<Rightarrow> (string \<times> string) list \<Rightarrow> bool" where
  "plan_conflict ix account_id plan \<longleftrightarrow> (\<exists>(i, target) \<in> set plan. case dget ix (account_id, target) of
     None \<Rightarrow> False | Some j \<Rightarrow> (j \<noteq> [] \<and> j \<notin> fst ` set plan) \<or> (j \<in> fst ` set plan \<and> j \<noteq> i))"

definition plan_target_prefix_rewrite :: "string \<Rightarrow> string \<Rightarrow> string \<Rightarrow> 's watch_state \<Rightarrow> py_exc + (string \<times> string) list" where
  "plan_target_prefix_rewrite old_uri new_uri account_id st =
     (let plan = rewrite_plan old_uri new_uri account_id (ws_tasks st)
      in if plan_conflict (ws_index st) account_id plan then Inl ConflictError else Inr plan)"

definition moved_task :: "string \<Rightarrow> watch_task \<Rightarrow> watch_task" where
  "moved_task target t =
     t\<lparr>wt_to_uri := Some target,
       wt_parent_uri := (if wt_parent_uri t \<noteq> None \<and> wt_parent_uri t = watch_parent_uri (pick (wt_to_uri t) [])
                         then watch_parent_uri target else wt_parent_uri t)\<rparr>"

definition clear_targets :: "string \<Rightarrow> watch_tasks \<Rightarrow> (string \<times> string) list \<Rightarrow> uri_index \<Rightarrow> uri_index" where
  "clear_targets account_id ts plan ix =
     fold (\<lambda>(i, _) ix. case dget ts i of
         Some t \<Rightarrow> if has_target t then dpop ix (account_id, pick (wt_to_uri t) []) else ix | None \<Rightarrow> ix) plan ix"

definition move_targets :: "string \<Rightarrow> (string \<times> string) list \<Rightarrow> watch_tasks \<times> uri_index \<Rightarrow> watch_tasks \<times> uri_index" where
  "move_targets account_id plan =
     fold (\<lambda>(i, target) (ts, ix). case dget ts i of
         Some t \<Rightarrow> (dset ts i (moved_task target t), dset ix (account_id, target) i) | None \<Rightarrow> (ts, ix)) plan"

definition restore_targets :: "(string \<times> string) list \<Rightarrow> watch_tasks \<Rightarrow> watch_tasks \<Rightarrow> watch_tasks" where
  "restore_targets plan old ts =
     map (\<lambda>(i, t). (i, if i \<in> fst ` set plan
       then (case dget old i of Some o' \<Rightarrow> t\<lparr>wt_to_uri := wt_to_uri o', wt_parent_uri := wt_parent_uri o'\<rparr> | None \<Rightarrow> t) else t)) ts"

definition rewrite_target_prefix_internal ::
  "iso_codec \<Rightarrow> 's watch_fs option \<Rightarrow> string \<Rightarrow> string \<Rightarrow> string \<Rightarrow> 's watch_state \<Rightarrow> 's watch_state \<times> (py_exc + string list)" where
  "rewrite_target_prefix_internal c fso old_uri new_uri account_id st =
     (case plan_target_prefix_rewrite old_uri new_uri account_id st of
        Inl e \<Rightarrow> (st, Inl e)
      | Inr plan \<Rightarrow>
          if plan = [] then (st, Inr [])
          else
            let (ts, ix) = move_targets account_id plan (ws_tasks st, clear_targets account_id (ws_tasks st) plan (ws_index st)) in
            (case save_tasks c fso (st\<lparr>ws_tasks := ts, ws_index := ix\<rparr>) of
               (st', Inl e) \<Rightarrow> (st'\<lparr>ws_tasks := restore_targets plan (ws_tasks st) (ws_tasks st'), ws_index := ws_index st\<rparr>, Inl e)
             | (st', Inr _) \<Rightarrow> (st', Inr (map fst plan))))"

definition deactivated :: "watch_task \<Rightarrow> watch_task" where
  "deactivated t = t\<lparr>wt_next_execution_time := None, wt_is_active := False\<rparr>"

definition watch_under :: "string \<Rightarrow> string \<Rightarrow> watch_task \<Rightarrow> bool" where
  "watch_under uri account_id t \<longleftrightarrow> wt_account_id t = account_id \<and> uri_matches_prefix (wt_to_uri t) uri"

definition deactivate_tasks_under_uri_internal ::
  "iso_codec \<Rightarrow> 's watch_fs option \<Rightarrow> string \<Rightarrow> string \<Rightarrow> 's watch_state \<Rightarrow> 's watch_state \<times> (py_exc + string list)" where
  "deactivate_tasks_under_uri_internal c fso uri account_id st =
     (let matched = filter (\<lambda>(i, t). watch_under uri account_id t) (ws_tasks st) in
      if matched = [] then (st, Inr [])
      else case save_tasks c fso (st\<lparr>ws_tasks := map (\<lambda>(i, t). (i, if watch_under uri account_id t then deactivated t else t)) (ws_tasks st)\<rparr>) of
             (st', r) \<Rightarrow> (st', map_sum id (\<lambda>_. map fst matched) r))"

definition wm_delete_task ::
  "iso_codec \<Rightarrow> 's watch_fs option \<Rightarrow> string \<times> string option \<Rightarrow> string \<Rightarrow> string \<Rightarrow> string \<Rightarrow> string \<Rightarrow> 's watch_state
    \<Rightarrow> 's watch_state \<times> (py_exc + bool) option" where
  "wm_delete_task c fso snap task_id account_id user_id role st =
     (case dget (ws_tasks st) task_id of
        None \<Rightarrow> (st, Some (Inr False))
      | Some t \<Rightarrow>
          if \<not> same_target snap t then (st, None)
          else if \<not> wm_check_permission t account_id user_id role then (st, Some (Inl PermissionDeniedError))
          else case save_tasks c fso (st\<lparr>ws_tasks := dpop (ws_tasks st) task_id,
                       ws_index := (if has_target t then dpop (ws_index st) (target_key t) else ws_index st)\<rparr>) of
                 (st', r) \<Rightarrow> (st', Some (map_sum id (\<lambda>_. True) r)))"

definition wm_get_task :: "string \<times> string option \<Rightarrow> string \<Rightarrow> string \<Rightarrow> string \<Rightarrow> string \<Rightarrow> 's watch_state \<Rightarrow> watch_task option option" where
  "wm_get_task snap task_id account_id user_id role st =
     (case dget (ws_tasks st) task_id of
        None \<Rightarrow> Some None
      | Some t \<Rightarrow> if \<not> same_target snap t then None
                  else if \<not> wm_check_permission t account_id user_id role then Some None else Some (Some t))"

definition get_all_tasks :: "string \<Rightarrow> string \<Rightarrow> string \<Rightarrow> bool \<Rightarrow> 's watch_state \<Rightarrow> watch_task list" where
  "get_all_tasks account_id user_id role active_only st =
     filter (\<lambda>t. wm_check_permission t account_id user_id role \<and> \<not> (active_only \<and> \<not> wt_is_active t)) (map snd (ws_tasks st))"

definition task_at :: "string \<Rightarrow> string \<Rightarrow> 's watch_state \<Rightarrow> string option" where
  "task_at account_id uri st = (case dget (ws_index st) (account_id, uri) of None \<Rightarrow> None | Some i \<Rightarrow> if i = [] then None else Some i)"

definition get_task_by_uri :: "string \<Rightarrow> string \<Rightarrow> string \<Rightarrow> string \<Rightarrow> 's watch_state \<Rightarrow> watch_task option" where
  "get_task_by_uri to_uri account_id user_id role st =
     (case task_at account_id to_uri st of
        None \<Rightarrow> None
      | Some i \<Rightarrow> (case dget (ws_tasks st) i of
          None \<Rightarrow> None | Some t \<Rightarrow> if wm_check_permission t account_id user_id role then Some t else None))"

definition get_upsertable_task_by_uri :: "string \<Rightarrow> string \<Rightarrow> string \<Rightarrow> string \<Rightarrow> string \<Rightarrow> 's watch_state \<Rightarrow> py_exc + watch_task option" where
  "get_upsertable_task_by_uri path to_uri account_id user_id role st =
     (case task_at account_id to_uri st of
        None \<Rightarrow> Inr None
      | Some i \<Rightarrow> (case dget (ws_tasks st) i of
          None \<Rightarrow> Inl ConflictError
        | Some t \<Rightarrow> if \<not> wm_check_permission t account_id user_id role then Inl ConflictError
                    else if wt_is_active t \<and> wt_path t \<noteq> path then Inl ConflictError else Inr (Some t)))"

definition update_execution_time ::
  "iso_codec \<Rightarrow> 's watch_fs option \<Rightarrow> int \<Rightarrow> string \<Rightarrow> 's watch_state \<Rightarrow> 's watch_state \<times> (py_exc + unit)" where
  "update_execution_time c fso now task_id st =
     (case dget (ws_tasks st) task_id of
        None \<Rightarrow> (st, Inr ())
      | Some t \<Rightarrow>
          let t' = (if \<not> wt_is_active t \<or> wt_watch_interval t \<le> 0 then deactivated t
                    else let t1 = t\<lparr>wt_last_execution_time := Some now\<rparr>
                         in t1\<lparr>wt_next_execution_time := Some (calculate_next_execution_time t1)\<rparr>)
          in save_tasks c fso (st\<lparr>ws_tasks := dset (ws_tasks st) task_id t'\<rparr>))"

definition due :: "int \<Rightarrow> string option \<Rightarrow> watch_task \<Rightarrow> bool" where
  "due now account_id t \<longleftrightarrow> wt_is_active t \<and> (account_id = None \<or> account_id = Some [] \<or> account_id = Some (wt_account_id t))
     \<and> (case wt_next_execution_time t of None \<Rightarrow> False | Some n \<Rightarrow> n \<le> now)"

definition get_due_tasks :: "int \<Rightarrow> string option \<Rightarrow> 's watch_state \<Rightarrow> watch_task list" where
  "get_due_tasks now account_id st = filter (due now account_id) (map snd (ws_tasks st))"

definition get_next_execution_time :: "string option \<Rightarrow> 's watch_state \<Rightarrow> int option" where
  "get_next_execution_time account_id st =
     (let times = List.map_filter (\<lambda>t. if wt_is_active t \<and> (account_id = None \<or> account_id = Some [] \<or> account_id = Some (wt_account_id t))
         then wt_next_execution_time t else None) (map snd (ws_tasks st))
      in case times of [] \<Rightarrow> None | x # xs \<Rightarrow> Some (fold min xs x))"

end
