(* ===== verification/Watch_Runs.thy ===== *)
theory Watch_Runs
  imports Watch_Manager
begin

text \<open>
  Runs of the watch manager: any sequence of its operations on any file system, with saves that may fail. What holds in
  every state of a run, who can reach a task, and moves of targets.
\<close>

section \<open>Runs\<close>

text \<open>An update that passes the checks on the interval.\<close>

definition update_valid :: "watch_update \<Rightarrow> watch_task \<Rightarrow> bool" where
  "update_valid u t \<longleftrightarrow>
     (case wu_watch_interval u of Some w \<Rightarrow> w > 0 \<or> wu_is_active u \<noteq> Some True | None \<Rightarrow> wu_is_active u = Some True \<longrightarrow> wt_watch_interval t > 0)
     \<and> (case wu_processing_mode u of Some m \<Rightarrow> m \<in> set SUPPORTED_PROCESSING_MODES | None \<Rightarrow> True)"

inductive watch_step :: "iso_codec \<Rightarrow> 's watch_fs option \<Rightarrow> 's watch_state \<Rightarrow> 's watch_state \<Rightarrow> bool" for c fso where
  watch_create: "fresh \<noteq> [] \<Longrightarrow> dget (ws_tasks st) fresh = None \<Longrightarrow> watch_step c fso st (fst (wm_create_task c fso now fresh a st))"
| watch_change: "\<forall>t. dget (ws_tasks st) i = Some t \<longrightarrow> update_valid u t
    \<Longrightarrow> watch_step c fso st (fst (wm_update_task c fso snap i account_id user_id role u st))"
| watch_auth: "watch_step c fso st (fst (update_auth_state c fso i auth st))"
| watch_move: "normalize_uri new_uri \<noteq> [] \<Longrightarrow> watch_step c fso st (fst (rewrite_target_prefix_internal c fso old_uri new_uri account_id st))"
| watch_deactivate: "watch_step c fso st (fst (deactivate_tasks_under_uri_internal c fso uri account_id st))"
| watch_delete: "watch_step c fso st (fst (wm_delete_task c fso snap i account_id user_id role st))"
| watch_executed: "watch_step c fso st (fst (update_execution_time c fso now i st))"

definition new_manager :: "'s watch_state \<Rightarrow> bool" where
  "new_manager st \<longleftrightarrow> ws_tasks st = [] \<and> ws_index st = []"

definition ws_ok :: "'s watch_state \<Rightarrow> bool" where
  "ws_ok st \<longleftrightarrow> watch_ok (ws_tasks st) (ws_index st)"

section \<open>Every operation keeps the state\<close>

lemma save_keeps [simp]:
  "ws_tasks (fst (save_tasks c fso st)) = ws_tasks st" "ws_index (fst (save_tasks c fso st)) = ws_index st"
  by (auto simp: save_tasks_def split: option.split prod.split sum.split)

lemma save_keepsD: "save_tasks c fso st = (st', r) \<Longrightarrow> ws_tasks st' = ws_tasks st \<and> ws_index st' = ws_index st"
  by (metis fst_conv save_keeps)

lemma watch_okD:
  assumes "watch_ok ts ix"
  shows "distinct (dkeys ts)" "dget ts i = Some t \<Longrightarrow> wt_task_id t = i \<and> sane_task t"
    "dget ix k = Some i \<longleftrightarrow> (\<exists>t. dget ts i = Some t \<and> has_target t \<and> target_key t = k)"
  using assms unfolding watch_ok_def by blast+

lemma watch_okI:
  assumes "distinct (dkeys ts)" "\<And>i t. dget ts i = Some t \<Longrightarrow> wt_task_id t = i \<and> sane_task t"
    "\<And>k i. dget ix k = Some i \<longleftrightarrow> (\<exists>t. dget ts i = Some t \<and> has_target t \<and> target_key t = k)"
  shows "watch_ok ts ix"
  using assms unfolding watch_ok_def by blast

lemma free_key: "watch_ok ts ix \<Longrightarrow> dget ix k = None \<longleftrightarrow> (\<forall>i t. dget ts i = Some t \<longrightarrow> \<not> (has_target t \<and> target_key t = k))"
  by (metis not_None_eq watch_okD(3))

text \<open>Tasks replaced one by one, with targets that stay.\<close>

lemma watch_ok_same_targets:
  assumes ok: "watch_ok ts ix" and keys: "dkeys ts' = dkeys ts"
    and upd: "\<And>i t'. dget ts' i = Some t' \<Longrightarrow> \<exists>t. dget ts i = Some t \<and> wt_task_id t' = wt_task_id t \<and> sane_task t'
       \<and> wt_to_uri t' = wt_to_uri t \<and> wt_account_id t' = wt_account_id t"
  shows "watch_ok ts' ix"
proof (rule watch_okI)
  show "distinct (dkeys ts')" using watch_okD(1) [OF ok] keys by simp
  show "wt_task_id t = i \<and> sane_task t" if "dget ts' i = Some t" for i t using upd [OF that] watch_okD(2) [OF ok] by metis
next
  fix k i
  have ex: "\<exists>t'. dget ts' i = Some t'" if "dget ts i = Some t" for t
    using that keys dget_None_iff [of ts' i] dget_None_iff [of ts i] by auto
  have same: "\<exists>t. dget ts i = Some t \<and> has_target t' = has_target t \<and> target_key t' = target_key t" if "dget ts' i = Some t'" for t'
    using upd [OF that] by (auto simp: has_target_def target_key_def)
  show "dget ix k = Some i \<longleftrightarrow> (\<exists>t. dget ts' i = Some t \<and> has_target t \<and> target_key t = k)"
    unfolding watch_okD(3) [OF ok] using ex same by (metis option.sel)
qed

lemma watch_ok_put:
  assumes "watch_ok ts ix" "dget ts i = Some t" "wt_task_id t' = i" "sane_task t'" "wt_to_uri t' = wt_to_uri t" "wt_account_id t' = wt_account_id t"
  shows "watch_ok (dset ts i t') ix"
proof (rule watch_ok_same_targets [OF assms(1)])
  have "i \<in> set (dkeys ts)" using assms(2) dget_None_iff [of ts i] by auto
  then show "dkeys (dset ts i t') = dkeys ts" by (simp add: dkeys_dset)
  show "\<exists>s. dget ts j = Some s \<and> wt_task_id s' = wt_task_id s \<and> sane_task s' \<and> wt_to_uri s' = wt_to_uri s \<and> wt_account_id s' = wt_account_id s"
    if "dget (dset ts i t') j = Some s'" for j s'
    using that assms(2-6) watch_okD(2) [OF assms(1)] by (cases "j = i") auto
qed

lemma watch_ok_pop:
  assumes ok: "watch_ok ts ix" and t: "dget ts i = Some t"
  shows "watch_ok (dpop ts i) (if has_target t then dpop ix (target_key t) else ix)"
proof (rule watch_okI)
  show "distinct (dkeys (dpop ts i))" by (rule distinct_dpop [OF watch_okD(1) [OF ok]])
  show "wt_task_id s = j \<and> sane_task s" if "dget (dpop ts i) j = Some s" for j s
    using that watch_okD(2) [OF ok] by (auto split: if_splits)
next
  fix k j
  have uniq: "j = i" if "dget ts j = Some s" "has_target s" "has_target t" "target_key s = target_key t" for s
    using that t watch_okD(3) [OF ok] by (metis option.inject)
  have "dget (if has_target t then dpop ix (target_key t) else ix) k = (if has_target t \<and> k = target_key t then None else dget ix k)" by simp
  moreover have "dget (dpop ts i) j = (if j = i then None else dget ts j)" by simp
  ultimately show "dget (if has_target t then dpop ix (target_key t) else ix) k = Some j \<longleftrightarrow>
      (\<exists>s. dget (dpop ts i) j = Some s \<and> has_target s \<and> target_key s = k)"
    using watch_okD(3) [OF ok, of k j] t uniq by (metis option.distinct(1) option.inject)
qed

lemma watch_ok_add:
  assumes ok: "watch_ok ts ix" and "dget ts i = None" "sane_task t" "has_target t \<Longrightarrow> dget ix (target_key t) = None" "wt_task_id t = i"
  shows "watch_ok (dset ts i t) (if has_target t then dset ix (target_key t) i else ix)"
  unfolding assms(5) [symmetric]
proof (rule watch_okI)
  show "distinct (dkeys (dset ts (wt_task_id t) t))" by (rule distinct_dset [OF watch_okD(1) [OF ok]])
  show "wt_task_id s = j \<and> sane_task s" if "dget (dset ts (wt_task_id t) t) j = Some s" for j s
    using that watch_okD(2) [OF ok] assms(3) by (auto split: if_splits)
next
  fix k j
  have free: "\<not> (dget ts j = Some s \<and> has_target s \<and> target_key s = target_key t)" if "has_target t" for s
    using assms(4) [OF that] free_key [OF ok] by blast
  have "dget (if has_target t then dset ix (target_key t) (wt_task_id t) else ix) k =
      (if has_target t \<and> k = target_key t then Some (wt_task_id t) else dget ix k)" by simp
  moreover have "dget (dset ts (wt_task_id t) t) j = (if j = wt_task_id t then Some t else dget ts j)" by simp
  ultimately show "dget (if has_target t then dset ix (target_key t) (wt_task_id t) else ix) k = Some j \<longleftrightarrow>
      (\<exists>s. dget (dset ts (wt_task_id t) t) j = Some s \<and> has_target s \<and> target_key s = k)"
    using watch_okD(3) [OF ok, of k j] assms(2,5) free by (metis option.distinct(1) option.inject)
qed

lemma no_conflict:
  assumes ok: "watch_ok ts ix" and "\<not> check_uri_conflict ix uri a ex" "uri = Some u" "u \<noteq> []" "dget ix (a, u) = Some i"
  shows "ex = Some i"
proof -
  have "i \<noteq> []" using assms(5) watch_okD(2,3) [OF ok] unfolding sane_task_def by metis
  then show ?thesis using assms(2-5) by (auto simp: check_uri_conflict_def split: if_splits)
qed

lemma create_ok:
  assumes "ws_ok st" "fresh \<noteq> []" "dget (ws_tasks st) fresh = None"
  shows "ws_ok (fst (wm_create_task c fso now fresh a st))"
proof (cases "wt_path a = [] \<or> wt_watch_interval a \<le> 0 \<or> check_uri_conflict (ws_index st) (wt_to_uri a) (wt_account_id a) None
    \<or> wt_processing_mode a \<notin> set SUPPORTED_PROCESSING_MODES")
  case True
  then show ?thesis using assms(1) by (auto simp: wm_create_task_def)
next
  case False
  let ?t = "new_watch_task now fresh a"
  have ok: "watch_ok (ws_tasks st) (ws_index st)" using assms(1) by (simp add: ws_ok_def)
  have t: "wt_task_id ?t = fresh" "sane_task ?t" "wt_to_uri ?t = wt_to_uri a" "wt_account_id ?t = wt_account_id a"
    using False assms(2) by (auto simp: new_watch_task_def sane_task_def schedule_ok_def Let_def)
  have "dget (ws_index st) (target_key ?t) = None" if "has_target ?t"
    using that t(3,4) no_conflict [OF ok, of "wt_to_uri a" "wt_account_id a" None] False
    by (auto simp: has_target_def target_key_def split: option.splits) (metis not_None_eq option.distinct(1))
  then have "watch_ok (dset (ws_tasks st) fresh ?t) (if has_target ?t then dset (ws_index st) (target_key ?t) fresh else ws_index st)"
    by (rule watch_ok_add [OF ok assms(3) t(2) _ t(1)])
  then show ?thesis using False t(1)
    by (auto simp: wm_create_task_def ws_ok_def install_task_def Let_def case_prod_unfold simp del: dget_dset)
qed

text \<open>The task an accepted update leaves.\<close>

definition updated_task :: "watch_update \<Rightarrow> watch_task \<Rightarrow> watch_task" where
  "updated_task u t = update_schedule u (update_tail u (update_interval u (update_head u t)))"

lemmas watch_update_defs = updated_task_def update_schedule_def update_tail_def update_interval_def update_head_def pick_def some_or_def

lemma updated_fields:
  "wt_task_id (updated_task u t) = wt_task_id t" "wt_account_id (updated_task u t) = wt_account_id t"
  "wt_to_uri (updated_task u t) = some_or (wu_to_uri u) (wt_to_uri t)"
  by (simp_all add: watch_update_defs split: option.split)

lemma updated_sane: "sane_task t \<Longrightarrow> update_valid u t \<Longrightarrow> sane_task (updated_task u t)"
  by (auto simp: watch_update_defs sane_task_def schedule_ok_def update_valid_def split: option.split)

lemma valid_update:
  "update_valid u t \<Longrightarrow> \<not> check_uri_conflict (ws_index st) (wu_to_uri u) (wt_account_id t) (Some (wt_task_id t))
    \<Longrightarrow> update_task_unlocked c fso u t st =
      (let st1 = (put_task (updated_task u t) st)\<lparr>ws_index := update_index u t (updated_task u t) (ws_index st)\<rparr>
       in case save_tasks c fso st1 of (st', r) \<Rightarrow> (st', map_sum id (\<lambda>_. updated_task u t) r))"
  unfolding update_task_unlocked_def Let_def
  by (auto simp: update_valid_def updated_task_def update_tail_def update_interval_def update_head_def pick_def split: option.split)

lemma update_index_ok:
  assumes ok: "watch_ok ts ix" and t: "dget ts i = Some t" and "sane_task t'" "wt_task_id t' = i" "wt_account_id t' = wt_account_id t"
    "wt_to_uri t' = some_or (wu_to_uri u) (wt_to_uri t)" "\<not> check_uri_conflict ix (wu_to_uri u) (wt_account_id t) (Some i)"
  shows "watch_ok (dset ts i t') (update_index u t t' ix)"
proof (cases "some_or (wu_to_uri u) (wt_to_uri t) = wt_to_uri t")
  case True
  have "dget (update_index u t t' ix) = dget ix"
  proof -
    have "dget ix (target_key t) = Some i" if "has_target t" using watch_okD(3) [OF ok] t that by blast
    then show ?thesis using True assms(4,5)
      by (auto simp: update_index_def some_or_def has_target_def target_key_def fun_eq_iff Let_def split: option.splits)
  qed
  then show ?thesis using watch_ok_put [OF ok t assms(4,3) _ assms(5)] True assms(6) unfolding watch_ok_def by simp
next
  case False
  then obtain uri where uri: "wu_to_uri u = Some uri" "wt_to_uri t \<noteq> Some uri" by (auto simp: some_or_def split: option.splits)
  let ?ix = "if has_target t then dpop ix (target_key t) else ix"
  have pop: "watch_ok (dpop ts i) ?ix" by (rule watch_ok_pop [OF ok t])
  have t': "has_target t' \<longleftrightarrow> uri \<noteq> []" "target_key t' = (wt_account_id t, uri)"
    using uri assms(5,6) by (simp_all add: has_target_def target_key_def some_or_def)
  have "dget ix (wt_account_id t, uri) = None" if "uri \<noteq> []"
  proof (rule ccontr)
    assume "dget ix (wt_account_id t, uri) \<noteq> None"
    then obtain j where j: "dget ix (wt_account_id t, uri) = Some j" by blast
    then have "j = i" using no_conflict [OF ok assms(7) uri(1) that j] by simp
    then show False using j watch_okD(3) [OF ok] t uri(2) by (auto simp: target_key_def has_target_def split: option.splits)
  qed
  then have "has_target t' \<Longrightarrow> dget ?ix (target_key t') = None" using t' by simp
  then have added: "watch_ok (dset (dpop ts i) i t') (if has_target t' then dset ?ix (target_key t') i else ?ix)"
    by (intro watch_ok_add [OF pop _ assms(3) _ assms(4)]) simp_all
  have "dget (dset (dpop ts i) i t') = dget (dset ts i t')" by (simp add: fun_eq_iff)
  moreover have "update_index u t t' ix = (if has_target t' then dset ?ix (target_key t') i else ?ix)"
    using uri t' assms(4,5) by (auto simp: update_index_def Let_def)
  moreover have "distinct (dkeys (dset ts i t'))" by (rule distinct_dset [OF watch_okD(1) [OF ok]])
  ultimately show ?thesis using added unfolding watch_ok_def by simp
qed

lemma update_ok:
  assumes "ws_ok st" "\<forall>t. dget (ws_tasks st) i = Some t \<longrightarrow> update_valid u t"
  shows "ws_ok (fst (wm_update_task c fso snap i account_id user_id role u st))"
proof (cases "dget (ws_tasks st) i")
  case (Some t)
  have ok: "watch_ok (ws_tasks st) (ws_index st)" using assms(1) by (simp add: ws_ok_def)
  have t: "wt_task_id t = i" "sane_task t" using watch_okD(2) [OF ok Some] by auto
  have "ws_ok (fst (update_task_unlocked c fso u t st))"
  proof (cases "check_uri_conflict (ws_index st) (wu_to_uri u) (wt_account_id t) (Some (wt_task_id t))")
    case False
    have "watch_ok (dset (ws_tasks st) i (updated_task u t)) (update_index u t (updated_task u t) (ws_index st))"
      using update_index_ok [OF ok Some, of "updated_task u t" u] updated_sane t assms(2) Some False by (simp add: updated_fields)
    then show ?thesis using False assms(2) Some t(1)
      by (simp add: valid_update Let_def case_prod_unfold ws_ok_def put_task_def updated_fields)
  qed (use assms(1) in \<open>simp add: update_task_unlocked_def\<close>)
  then show ?thesis using assms(1) Some by (simp add: wm_update_task_def)
qed (use assms(1) in \<open>simp add: wm_update_task_def\<close>)

end
