(* ===== verification/Watch_Moves.thy ===== *)
theory Watch_Moves
  imports Watch_Runs
begin

text \<open>
  Moving the targets of watches (\<open>rewrite_target_prefix_internal\<close>), the remaining operations of a run, and the properties of
  the manager.
\<close>

section \<open>Plans\<close>

lemma alist_eq: "distinct (dkeys a) \<Longrightarrow> dkeys a = dkeys b \<Longrightarrow> dget a = dget b \<Longrightarrow> a = b"
proof (induction a arbitrary: b)
  case (Cons p a)
  obtain k v where p: "p = (k, v)" by (cases p)
  then obtain w b' where b: "b = (k, w) # b'" using Cons.prems(2) by (cases b) (auto simp: dkeys_def)
  have "v = w" using fun_cong [OF Cons.prems(3), of k] p b by simp
  moreover have "k \<notin> set (dkeys a)" using Cons.prems(1) p by (simp add: dkeys_def)
  moreover have "dkeys a = dkeys b'" using Cons.prems(2) p b by (simp add: dkeys_def)
  ultimately have "v = w" "dget a k = None" "dget b' k = None" using dget_None_iff [of a k] dget_None_iff [of b' k] by simp_all
  then have "dget a x = dget b' x" for x using fun_cong [OF Cons.prems(3), of x] p b by (cases "x = k") auto
  then have "dget a = dget b'" ..
  with \<open>v = w\<close> show ?case using Cons.IH [of b'] Cons.prems(1,2) p b by (auto simp: dkeys_def)
qed (simp add: dkeys_def)

lemma dget_map_snd: "dget (map (\<lambda>(i, t). (i, f i t)) ts) i = map_option (f i) (dget ts i)"
  by (induction ts i rule: dget.induct) auto

lemma dkeys_map_tasks: "dkeys (map (\<lambda>(i, t). (i, f i t)) ts) = dkeys ts"
  by (induction ts) (auto simp: dkeys_def)

lemma matches_normalized [simp]: "uri_matches_prefix u (normalize_uri p) = uri_matches_prefix u p"
  by (simp add: uri_matches_prefix_def split: option.split)

lemma rewrite_normalized [simp]: "rewrite_uri_prefix u (normalize_uri p) (normalize_uri q) = rewrite_uri_prefix u p q"
  by (simp add: rewrite_uri_prefix_def)

definition moves :: "string \<Rightarrow> string \<Rightarrow> string \<Rightarrow> watch_task \<Rightarrow> string option" where
  "moves old_uri new_uri account_id t =
     (if wt_account_id t = account_id \<and> uri_matches_prefix (wt_to_uri t) old_uri
      then Some (rewrite_uri_prefix (pick (wt_to_uri t) []) old_uri new_uri) else None)"

lemma rewrite_plan_moves:
  "rewrite_plan old_uri new_uri a ts = List.map_filter (\<lambda>(i, t). map_option (Pair i) (moves old_uri new_uri a t)) ts"
  unfolding rewrite_plan_def by (rule arg_cong2 [of _ _ _ _ List.map_filter]) (auto simp: moves_def)

lemma plan_ids: "set (map fst (rewrite_plan old_uri new_uri a ts)) \<subseteq> set (dkeys ts)"
  unfolding rewrite_plan_moves by (induction ts) (auto simp: map_filter_simps dkeys_def split: option.splits)

lemma plan_distinct: "distinct (dkeys ts) \<Longrightarrow> distinct (map fst (rewrite_plan old_uri new_uri a ts))"
proof (induction ts)
  case (Cons p ts)
  then show ?case using plan_ids [of old_uri new_uri a ts]
    by (cases p) (auto simp: rewrite_plan_moves map_filter_simps dkeys_def split: option.splits)
qed (simp add: rewrite_plan_moves map_filter_simps)

lemma plan_get:
  "distinct (dkeys ts) \<Longrightarrow> dget (rewrite_plan old_uri new_uri a ts) i = Option.bind (dget ts i) (moves old_uri new_uri a)"
proof (induction ts)
  case (Cons p ts)
  have "dget (rewrite_plan old_uri new_uri a ts) j = None" if "j \<notin> set (dkeys ts)" for j
    using plan_ids [of old_uri new_uri a ts] that by (auto simp: dget_None_iff dkeys_def)
  then show ?case using Cons by (cases p) (auto simp: rewrite_plan_moves map_filter_simps dkeys_def split: option.splits)
qed (simp add: rewrite_plan_moves map_filter_simps)

lemma matches_None [simp]: "\<not> uri_matches_prefix None p"
  by (simp add: uri_matches_prefix_def)

lemma moves_Some:
  "moves old_uri new_uri a t = Some g \<longleftrightarrow> wt_account_id t = a
    \<and> (\<exists>u. wt_to_uri t = Some u \<and> uri_matches_prefix (Some u) old_uri \<and> g = rewrite_uri_prefix u old_uri new_uri)"
  by (cases "wt_to_uri t") (auto simp: moves_def pick_def)

lemma plan_iff:
  assumes "distinct (dkeys ts)"
  shows "(i, g) \<in> set (rewrite_plan old_uri new_uri a ts) \<longleftrightarrow> (\<exists>t. dget ts i = Some t \<and> moves old_uri new_uri a t = Some g)"
proof -
  have "(i, g) \<in> set (rewrite_plan old_uri new_uri a ts) \<longleftrightarrow> dget (rewrite_plan old_uri new_uri a ts) i = Some g"
    unfolding dget_eq_map_of using plan_distinct [OF assms] by simp
  then show ?thesis by (simp add: plan_get [OF assms] bind_eq_Some_conv)
qed

lemma moves_target: "moves old_uri new_uri a t = Some g \<Longrightarrow> has_target t \<and> wt_account_id t = a \<and> target_key t = (a, pick (wt_to_uri t) [])"
  by (auto simp: moves_def has_target_def target_key_def pick_def uri_matches_prefix_def split: if_splits option.splits)

lemma moves_nonempty: "moves old_uri new_uri a t = Some g \<Longrightarrow> normalize_uri new_uri \<noteq> [] \<Longrightarrow> g \<noteq> []"
  by (auto simp: moves_def rewrite_uri_prefix_def Let_def split: if_splits)

lemma moves_inj:
  assumes "moves old_uri new_uri a t = Some g" "moves old_uri new_uri a s = Some g"
  shows "target_key t = target_key s"
proof -
  obtain u where u: "wt_to_uri t = Some u" "uri_matches_prefix (Some u) old_uri" "g = rewrite_uri_prefix u old_uri new_uri" "wt_account_id t = a"
    using assms(1) by (auto simp: moves_Some)
  obtain v where v: "wt_to_uri s = Some v" "uri_matches_prefix (Some v) old_uri" "g = rewrite_uri_prefix v old_uri new_uri" "wt_account_id s = a"
    using assms(2) by (auto simp: moves_Some)
  have "u = v" using rewrite_inj [OF u(2) v(2), of new_uri] u(3) v(3) by simp
  then show ?thesis using u v by (simp add: target_key_def)
qed

section \<open>The move\<close>

lemma moved_task_sane [simp]: "sane_task (moved_task g t) = sane_task t" "wt_task_id (moved_task g t) = wt_task_id t"
  by (simp_all add: moved_task_def sane_task_def schedule_ok_def)

lemma dget_clear:
  "(\<And>i g. (i, g) \<in> set plan \<Longrightarrow> \<exists>t. dget ts i = Some t \<and> has_target t \<and> target_key t = (a, pick (wt_to_uri t) []))
    \<Longrightarrow> dget (clear_targets a ts plan ix) k =
      (if \<exists>i g t. (i, g) \<in> set plan \<and> dget ts i = Some t \<and> target_key t = k then None else dget ix k)"
proof (induction plan arbitrary: ix)
  case (Cons p plan)
  obtain i g where p: "p = (i, g)" by (cases p)
  obtain t where t: "dget ts i = Some t" "has_target t" "target_key t = (a, pick (wt_to_uri t) [])" using Cons.prems [of i g] p by auto
  have step: "clear_targets a ts (p # plan) ix = clear_targets a ts plan (dpop ix (target_key t))"
    using p t by (simp add: clear_targets_def)
  have "dget (clear_targets a ts plan (dpop ix (target_key t))) k =
      (if \<exists>i g t. (i, g) \<in> set plan \<and> dget ts i = Some t \<and> target_key t = k then None else dget (dpop ix (target_key t)) k)"
    using Cons.prems by (intro Cons.IH) auto
  then show ?case unfolding step using p t(1) by auto
qed (simp add: clear_targets_def)

lemma move_tasks:
  "distinct (map fst plan) \<Longrightarrow> dkeys (fst (move_targets a plan (ts, ix))) = dkeys ts
    \<and> dget (fst (move_targets a plan (ts, ix))) i =
       (case dget plan i of None \<Rightarrow> dget ts i | Some g \<Rightarrow> map_option (moved_task g) (dget ts i))"
proof (induction plan arbitrary: ts ix)
  case (Cons p plan)
  obtain j g where p: "p = (j, g)" by (cases p)
  have j: "dget plan j = None" using Cons.prems p by (simp add: dget_None_iff dkeys_def)
  show ?case
  proof (cases "dget ts j")
    case None
    then have "move_targets a (p # plan) (ts, ix) = move_targets a plan (ts, ix)" using p by (simp add: move_targets_def)
    then show ?thesis using Cons p None j by (auto split: option.splits)
  next
    case (Some t)
    then have step: "move_targets a (p # plan) (ts, ix) = move_targets a plan (dset ts j (moved_task g t), dset ix (a, g) j)"
      using p by (simp add: move_targets_def)
    have "j \<in> set (dkeys ts)" using Some dget_None_iff [of ts j] by auto
    then show ?thesis unfolding step using Cons p Some j by (auto simp: dkeys_dset split: option.splits)
  qed
qed (simp add: move_targets_def)

lemma move_index:
  "distinct (map fst plan) \<Longrightarrow> distinct (map snd plan) \<Longrightarrow> (\<And>i. i \<in> fst ` set plan \<Longrightarrow> dget ts i \<noteq> None) \<Longrightarrow>
    dget (snd (move_targets a plan (ts, ix))) k = Some j \<longleftrightarrow>
      (\<exists>g. (j, g) \<in> set plan \<and> k = (a, g)) \<or> (\<forall>(i, g) \<in> set plan. k \<noteq> (a, g)) \<and> dget ix k = Some j"
proof (induction plan arbitrary: ts ix)
  case (Cons p plan)
  obtain i g where p: "p = (i, g)" by (cases p)
  obtain t where t: "dget ts i = Some t" using Cons.prems(3) [of i] p by auto
  have step: "move_targets a ((i, g) # plan) (ts, ix) = move_targets a plan (dset ts i (moved_task g t), dset ix (a, g) i)"
    using t by (simp add: move_targets_def)
  have "\<And>i'. i' \<in> fst ` set plan \<Longrightarrow> dget (dset ts i (moved_task g t)) i' \<noteq> None" using Cons.prems(3) by auto
  then have IH: "dget (snd (move_targets a plan (dset ts i (moved_task g t), dset ix (a, g) i))) k = Some j \<longleftrightarrow>
      (\<exists>g'. (j, g') \<in> set plan \<and> k = (a, g')) \<or> (\<forall>(i', g') \<in> set plan. k \<noteq> (a, g')) \<and> dget (dset ix (a, g) i) k = Some j"
    using Cons.IH Cons.prems(1,2) by simp
  have g: "(i', g) \<notin> set plan" for i' using Cons.prems(2) p by (auto simp: image_iff)
  show ?case unfolding p step IH using g by (cases "k = (a, g)") auto
qed (simp add: move_targets_def)

lemma move_ok:
  assumes ok: "watch_ok ts ix" and conf: "\<not> plan_conflict ix a (rewrite_plan old_uri new_uri a ts)" and new: "normalize_uri new_uri \<noteq> []"
    and mv: "move_targets a (rewrite_plan old_uri new_uri a ts) (ts, clear_targets a ts (rewrite_plan old_uri new_uri a ts) ix) = (ts', ix')"
  shows "watch_ok ts' ix'"
proof (rule watch_okI)
  let ?plan = "rewrite_plan old_uri new_uri a ts"
  have d: "distinct (dkeys ts)" by (rule watch_okD(1) [OF ok])
  have plan: "(i, g) \<in> set ?plan \<longleftrightarrow> (\<exists>t. dget ts i = Some t \<and> moves old_uri new_uri a t = Some g)" for i g
    by (rule plan_iff [OF d])
  have tasks: "dget ts' i = (case dget ?plan i of None \<Rightarrow> dget ts i | Some g \<Rightarrow> map_option (moved_task g) (dget ts i))" for i
    using move_tasks [OF plan_distinct [OF d]] mv by (metis fst_conv)
  have keys: "dkeys ts' = dkeys ts" using move_tasks [OF plan_distinct [OF d]] mv by (metis fst_conv)
  show "distinct (dkeys ts')" using keys d by simp
  show "wt_task_id t = i \<and> sane_task t" if it: "dget ts' i = Some t" for i t
  proof -
    obtain s where s: "dget ts i = Some s" "t = s \<or> (\<exists>g. t = moved_task g s)" using it unfolding tasks by (auto split: option.splits)
    then show ?thesis using watch_okD(2) [OF ok s(1)] by (auto simp: moved_task_sane)
  qed
  fix k j
  have inj: "i = i'" if "(i, g) \<in> set ?plan" "(i', g) \<in> set ?plan" for i i' g
    using that moves_inj moves_target watch_okD(3) [OF ok] unfolding plan by (metis option.inject)
  have dp: "distinct (map fst ?plan)" by (rule plan_distinct [OF d])
  have "inj_on snd (set ?plan)" using inj by (auto simp: inj_on_def)
  then have ds: "distinct (map snd ?plan)" using dp by (simp add: distinct_map)
  have ids: "\<And>i. i \<in> fst ` set ?plan \<Longrightarrow> dget ts i \<noteq> None" using plan by auto
  have ix': "dget ix' k = Some j \<longleftrightarrow> (\<exists>g. (j, g) \<in> set ?plan \<and> k = (a, g)) \<or>
      (\<forall>(i, g) \<in> set ?plan. k \<noteq> (a, g)) \<and> dget (clear_targets a ts ?plan ix) k = Some j"
    using move_index [OF dp ds ids, of a "clear_targets a ts ?plan ix" k j] mv by simp
  define cleared where "cleared \<longleftrightarrow> (\<exists>i g t. (i, g) \<in> set ?plan \<and> dget ts i = Some t \<and> target_key t = k)"
  have clear: "dget (clear_targets a ts ?plan ix) k = (if cleared then None else dget ix k)"
    unfolding cleared_def using plan moves_target by (intro dget_clear) blast
  show "dget ix' k = Some j \<longleftrightarrow> (\<exists>t. dget ts' j = Some t \<and> has_target t \<and> target_key t = k)"
  proof (cases "\<exists>g. (j, g) \<in> set ?plan")
    case True
    then obtain g t where g: "(j, g) \<in> set ?plan" "dget ts j = Some t" "moves old_uri new_uri a t = Some g" using plan by blast
    have only: "g' = g" if "(j, g') \<in> set ?plan" for g' using that g plan by auto
    have "dget ts' j = Some (moved_task g t)" using g plan_get [OF d, of old_uri new_uri a j] by (simp add: tasks)
    moreover have "has_target (moved_task g t)" "target_key (moved_task g t) = (a, g)"
      using moves_nonempty [OF g(3) new] moves_target [OF g(3)] by (auto simp: moved_task_def has_target_def target_key_def)
    ultimately have rhs: "(\<exists>t. dget ts' j = Some t \<and> has_target t \<and> target_key t = k) \<longleftrightarrow> k = (a, g)" by auto
    have "dget (clear_targets a ts ?plan ix) k \<noteq> Some j"
    proof (cases cleared)
      case False
      have "dget ix k \<noteq> Some j" using False watch_okD(3) [OF ok, of k j] g(1) unfolding cleared_def by blast
      then show ?thesis using False clear by simp
    qed (simp add: clear)
    then show ?thesis unfolding ix' rhs using only g(1) by blast
  next
    case False
    have "dget ?plan j = None" using False by (metis dget_in_set not_None_eq)
    then have "dget ts' j = dget ts j" by (simp add: tasks)
    then have rhs: "(\<exists>t. dget ts' j = Some t \<and> has_target t \<and> target_key t = k) \<longleftrightarrow> dget ix k = Some j" using watch_okD(3) [OF ok] by simp
    have "k \<noteq> (a, g)" if j: "dget ix k = Some j" and ig: "(i, g) \<in> set ?plan" for i g
    proof
      assume k: "k = (a, g)"
      have "j \<noteq> []" using j watch_okD(2,3) [OF ok] unfolding sane_task_def by metis
      moreover have "j \<notin> fst ` set ?plan" using False by force
      ultimately show False using conf ig j k unfolding plan_conflict_def by fastforce
    qed
    moreover have "\<not> cleared" if "dget ix k = Some j"
      using that False plan moves_target watch_okD(3) [OF ok] unfolding cleared_def by (metis option.inject)
    ultimately show ?thesis unfolding rhs ix' clear using False by auto
  qed
qed

lemma restore_moved:
  assumes "watch_ok ts ix" "move_targets a (rewrite_plan old_uri new_uri a ts) (ts, ix1) = (ts', ix')"
  shows "restore_targets (rewrite_plan old_uri new_uri a ts) ts ts' = ts"
proof -
  let ?plan = "rewrite_plan old_uri new_uri a ts"
  have d: "distinct (dkeys ts)" by (rule watch_okD(1) [OF assms(1)])
  have tasks: "dget ts' i = (case dget ?plan i of None \<Rightarrow> dget ts i | Some g \<Rightarrow> map_option (moved_task g) (dget ts i))"
    and keys: "dkeys ts' = dkeys ts" for i
    using move_tasks [OF plan_distinct [OF d]] assms(2) by (metis fst_conv)+
  have in_plan: "i \<in> fst ` set ?plan \<longleftrightarrow> dget ?plan i \<noteq> None" for i using dget_None_iff [of ?plan i] by (simp add: dkeys_def)
  have "dget (restore_targets ?plan ts ts') i = dget ts i" for i
    unfolding restore_targets_def dget_map_snd in_plan tasks by (cases "dget ts i") (auto simp: moved_task_def split: option.splits)
  then show ?thesis using alist_eq [of "restore_targets ?plan ts ts'" ts] keys d
    by (simp add: restore_targets_def dkeys_map_tasks fun_eq_iff)
qed

lemma rewrite_failed:
  assumes "ws_ok st" "rewrite_target_prefix_internal c fso old_uri new_uri a st = (st', Inl e)"
  shows "ws_tasks st' = ws_tasks st \<and> ws_index st' = ws_index st"
proof (cases "plan_conflict (ws_index st) a (rewrite_plan old_uri new_uri a (ws_tasks st))")
  case False
  let ?plan = "rewrite_plan old_uri new_uri a (ws_tasks st)"
  obtain ts ix where m: "move_targets a ?plan (ws_tasks st, clear_targets a (ws_tasks st) ?plan (ws_index st)) = (ts, ix)" by fastforce
  obtain st1 r where s: "save_tasks c fso (st\<lparr>ws_tasks := ts, ws_index := ix\<rparr>) = (st1, r)" by fastforce
  have "ws_tasks st1 = ts" using save_keeps(1) [of c fso "st\<lparr>ws_tasks := ts, ws_index := ix\<rparr>"] s by simp
  then show ?thesis using assms(2) m s False restore_moved [of "ws_tasks st" "ws_index st"] assms(1)
    by (auto simp: rewrite_target_prefix_internal_def plan_target_prefix_rewrite_def ws_ok_def Let_def split: if_splits sum.splits)
qed (use assms(2) in \<open>simp add: rewrite_target_prefix_internal_def plan_target_prefix_rewrite_def Let_def\<close>)

lemma rewrite_done:
  assumes "rewrite_target_prefix_internal c fso old_uri new_uri a st = (st', Inr ids)"
  shows "\<not> plan_conflict (ws_index st) a (rewrite_plan old_uri new_uri a (ws_tasks st))
     \<and> ids = map fst (rewrite_plan old_uri new_uri a (ws_tasks st))
     \<and> move_targets a (rewrite_plan old_uri new_uri a (ws_tasks st))
        (ws_tasks st, clear_targets a (ws_tasks st) (rewrite_plan old_uri new_uri a (ws_tasks st)) (ws_index st)) = (ws_tasks st', ws_index st')"
proof -
  let ?plan = "rewrite_plan old_uri new_uri a (ws_tasks st)"
  obtain ts ix where m: "move_targets a ?plan (ws_tasks st, clear_targets a (ws_tasks st) ?plan (ws_index st)) = (ts, ix)" by fastforce
  obtain st1 r where s: "save_tasks c fso (st\<lparr>ws_tasks := ts, ws_index := ix\<rparr>) = (st1, r)" by fastforce
  have st1: "ws_tasks st1 = ts" "ws_index st1 = ix"
    using save_keeps [of c fso "st\<lparr>ws_tasks := ts, ws_index := ix\<rparr>"] s by simp_all
  show ?thesis
  proof (cases "?plan = []")
    case True
    then show ?thesis using assms
      by (simp add: rewrite_target_prefix_internal_def plan_target_prefix_rewrite_def Let_def move_targets_def clear_targets_def split: if_splits)
  next
    case False
    then show ?thesis using assms m s st1
      by (auto simp: rewrite_target_prefix_internal_def plan_target_prefix_rewrite_def Let_def split: if_splits sum.splits)
  qed
qed

lemma rewrite_ok:
  assumes "ws_ok st" "normalize_uri new_uri \<noteq> []"
  shows "ws_ok (fst (rewrite_target_prefix_internal c fso old_uri new_uri a st))"
proof -
  obtain st' r where r: "rewrite_target_prefix_internal c fso old_uri new_uri a st = (st', r)" by fastforce
  show ?thesis
  proof (cases r)
    case (Inl e)
    then show ?thesis using rewrite_failed [OF assms(1)] r assms(1) by (simp add: ws_ok_def)
  next
    case (Inr ids)
    then show ?thesis using move_ok [OF _ _ assms(2), of "ws_tasks st" "ws_index st" a old_uri] rewrite_done [of c fso] r assms(1)
      by (simp add: ws_ok_def)
  qed
qed

section \<open>The other operations\<close>

lemma deactivated_sane [simp]: "sane_task t \<Longrightarrow> sane_task (deactivated t)"
  by (simp add: deactivated_def sane_task_def schedule_ok_def)

lemma put_ok:
  assumes "ws_ok st" "dget (ws_tasks st) i = Some t" "sane_task t'" "wt_task_id t' = i" "wt_to_uri t' = wt_to_uri t" "wt_account_id t' = wt_account_id t"
  shows "ws_ok (fst (save_tasks c fso (st\<lparr>ws_tasks := dset (ws_tasks st) i t'\<rparr>)))"
  using watch_ok_put [of "ws_tasks st" "ws_index st" i t t'] assms by (simp add: ws_ok_def)

lemma known_task: "ws_ok st \<Longrightarrow> dget (ws_tasks st) i = Some t \<Longrightarrow> wt_task_id t = i \<and> sane_task t"
  unfolding ws_ok_def by (rule watch_okD(2))

lemma auth_ok:
  assumes "ws_ok st"
  shows "ws_ok (fst (update_auth_state c fso i auth st))"
proof (cases "dget (ws_tasks st) i")
  case (Some t)
  have "sane_task (t\<lparr>wt_auth_state := auth\<rparr>)" using known_task [OF assms Some] by (auto simp: sane_task_def schedule_ok_def)
  then have "ws_ok (fst (save_tasks c fso (st\<lparr>ws_tasks := dset (ws_tasks st) i (t\<lparr>wt_auth_state := auth\<rparr>)\<rparr>)))"
    using known_task [OF assms Some] by (intro put_ok [OF assms Some]) simp_all
  then show ?thesis using Some by (simp add: update_auth_state_def)
qed (simp add: update_auth_state_def assms)

definition executed :: "int \<Rightarrow> watch_task \<Rightarrow> watch_task" where
  "executed now t =
     (if \<not> wt_is_active t \<or> wt_watch_interval t \<le> 0 then deactivated t
      else t\<lparr>wt_last_execution_time := Some now, wt_next_execution_time := Some (now + timedelta_minutes (wt_watch_interval t))\<rparr>)"

lemma update_execution_time_eq:
  "dget (ws_tasks st) i = Some t \<Longrightarrow> update_execution_time c fso now i st = save_tasks c fso (st\<lparr>ws_tasks := dset (ws_tasks st) i (executed now t)\<rparr>)"
  by (simp add: update_execution_time_def executed_def calculate_next_execution_time_def Let_def)

lemma executed_ok:
  assumes "ws_ok st"
  shows "ws_ok (fst (update_execution_time c fso now i st))"
proof (cases "dget (ws_tasks st) i")
  case (Some t)
  have "sane_task (executed now t)" using known_task [OF assms Some] by (auto simp: executed_def sane_task_def schedule_ok_def deactivated_def)
  then have "ws_ok (fst (save_tasks c fso (st\<lparr>ws_tasks := dset (ws_tasks st) i (executed now t)\<rparr>)))"
    using known_task [OF assms Some] by (intro put_ok [OF assms Some]) (simp_all add: executed_def deactivated_def)
  then show ?thesis using Some by (simp add: update_execution_time_eq)
qed (simp add: update_execution_time_def assms)

lemma deactivate_ok:
  assumes "ws_ok st"
  shows "ws_ok (fst (deactivate_tasks_under_uri_internal c fso uri a st))"
proof -
  let ?ts = "map (\<lambda>(i, t). (i, if watch_under uri a t then deactivated t else t)) (ws_tasks st)"
  have "watch_ok ?ts (ws_index st)"
  proof (rule watch_ok_same_targets [of "ws_tasks st"])
    show "dkeys ?ts = dkeys (ws_tasks st)" by (rule dkeys_map_tasks)
    show "\<exists>t. dget (ws_tasks st) i = Some t \<and> wt_task_id t' = wt_task_id t \<and> sane_task t' \<and> wt_to_uri t' = wt_to_uri t \<and> wt_account_id t' = wt_account_id t"
      if it: "dget ?ts i = Some t'" for i t'
    proof -
      obtain t where t: "dget (ws_tasks st) i = Some t" "t' = t \<or> t' = deactivated t"
        using it unfolding dget_map_snd by (auto split: if_splits)
      show ?thesis using t known_task [OF assms t(1)] by (auto simp: deactivated_def sane_task_def schedule_ok_def)
    qed
  qed (use assms in \<open>simp add: ws_ok_def\<close>)
  then show ?thesis using assms by (simp add: deactivate_tasks_under_uri_internal_def Let_def ws_ok_def case_prod_unfold)
qed

lemma delete_ok:
  assumes "ws_ok st"
  shows "ws_ok (fst (wm_delete_task c fso snap i account_id user_id role st))"
proof (cases "dget (ws_tasks st) i")
  case (Some t)
  then show ?thesis using watch_ok_pop [of "ws_tasks st" "ws_index st", OF _ Some] assms
    by (simp add: wm_delete_task_def ws_ok_def case_prod_unfold)
qed (simp add: wm_delete_task_def assms)

interpretation wm: step_system new_manager "watch_step c fso" ws_ok for c :: iso_codec and fso :: "'s watch_fs option"
proof unfold_locales
  show "ws_ok st" if "new_manager st" for st :: "'s watch_state" using that by (simp add: new_manager_def ws_ok_def watch_ok_def dkeys_def)
  show "ws_ok st'" if "ws_ok st" "watch_step c fso st st'" for st st' :: "'s watch_state"
    using that(2,1) by cases (simp_all add: create_ok update_ok auth_ok rewrite_ok deactivate_ok delete_ok executed_ok)
qed

end
