(* ===== verification/Watch_Safety.thy ===== *)
theory Watch_Safety
  imports Watch_Moves
begin

text \<open>
  Properties of the watch manager over its runs: the target index, moves, schedules, access, restarts, and what failed requests leave.
\<close>

section \<open>A run\<close>

definition demo_codec :: iso_codec where
  "demo_codec = \<lparr>iso_format = (\<lambda>n. if n < 0 then CHR ''-'' # replicate (nat (- n)) CHR ''1'' else replicate (nat n) CHR ''1''),
     iso_parse = (\<lambda>s. case s of [] \<Rightarrow> Inr 0 | ch # r \<Rightarrow> if ch = CHR ''-'' then Inr (- int (length r)) else Inr (int (length s))),
     lax_str = (\<lambda>_. Inl ValueError), lax_bool = (\<lambda>_. Inl ValueError), lax_num = (\<lambda>_. Inl ValueError), lax_time = (\<lambda>_. Inl ValueError),
     lax_dict = (\<lambda>_. Inl ValueError)\<rparr>"

lemma demo_codec_ok: "iso_ok demo_codec"
proof -
  have "iso_parse demo_codec (iso_format demo_codec n) = Inr n" for n
  proof (cases "n < 0")
    case False
    then show ?thesis by (cases "nat n") (auto simp: demo_codec_def)
  qed (simp add: demo_codec_def)
  then show ?thesis by (simp add: iso_ok_def)
qed

definition demo_args :: "string \<Rightarrow> string \<Rightarrow> watch_task" where
  "demo_args user_id uri = \<lparr>wt_task_id = [], wt_path = ''https://a'', wt_source_type = None, wt_to_uri = Some uri, wt_to_is_directory = None,
     wt_parent_uri = Some ''viking://resources'', wt_reason = [], wt_instruction = [], wt_watch_interval = 1, wt_build_index = True,
     wt_summarize = False, wt_processing_mode = ''vectors_only'', wt_processor_kwargs = [], wt_auth_state = None, wt_created_at = 0,
     wt_last_execution_time = None, wt_next_execution_time = None, wt_is_active = True, wt_account_id = ''acme'', wt_user_id = user_id,
     wt_original_role = ''user''\<rparr>"

definition demo_task :: watch_task where
  "demo_task = new_watch_task 0 ''t1'' (demo_args ''bob'' ''viking://resources/a'')"

definition empty_manager :: "'s \<Rightarrow> 's watch_state" where
  "empty_manager d = \<lparr>ws_tasks = [], ws_index = [], ws_initialized = True, ws_disk = d\<rparr>"

definition demo_state :: "unit watch_state" where
  "demo_state = fst (wm_create_task demo_codec None 0 ''t1'' (demo_args ''bob'' ''viking://resources/a'') (empty_manager ()))"

lemma demo_task_simps:
  "wt_task_id demo_task = ''t1''" "wt_to_uri demo_task = Some ''viking://resources/a''" "wt_account_id demo_task = ''acme''"
  "wt_user_id demo_task = ''bob''" "wt_is_active demo_task" "wt_watch_interval demo_task = 1" "has_target demo_task"
  by (simp_all add: demo_task_def demo_args_def new_watch_task_def has_target_def Let_def)

lemma demo_state_eq:
  "demo_state = \<lparr>ws_tasks = [(''t1'', demo_task)], ws_index = [((''acme'', ''viking://resources/a''), ''t1'')], ws_initialized = True, ws_disk = ()\<rparr>"
  by (simp add: demo_state_def demo_task_def wm_create_task_def demo_args_def empty_manager_def check_uri_conflict_def save_tasks_def install_task_def
      new_watch_task_def has_target_def target_key_def SUPPORTED_PROCESSING_MODES_def Let_def)

lemma demo_reach: "reach new_manager (watch_step demo_codec None) demo_state"
  unfolding demo_state_def
proof (rule reach_step)
  show "reach new_manager (watch_step demo_codec None) (empty_manager ())" by (rule reach_init) (simp add: new_manager_def empty_manager_def)
qed (rule watch_create; simp add: empty_manager_def)

section \<open>The index\<close>

lemma reach_ok: "reach new_manager (watch_step c fso) st \<Longrightarrow> ws_ok st"
  by (rule wm.reach_inv)

lemma task_at_iff:
  assumes "ws_ok st"
  shows "task_at a u st = Some i \<longleftrightarrow> (\<exists>t. dget (ws_tasks st) i = Some t \<and> wt_account_id t = a \<and> wt_to_uri t = Some u \<and> u \<noteq> [])"
proof -
  have ok: "watch_ok (ws_tasks st) (ws_index st)" using assms by (simp add: ws_ok_def)
  have "task_at a u st = Some i \<longleftrightarrow> dget (ws_index st) (a, u) = Some i \<and> i \<noteq> []"
    by (auto simp: task_at_def split: option.split)
  also have "\<dots> \<longleftrightarrow> (\<exists>t. dget (ws_tasks st) i = Some t \<and> has_target t \<and> target_key t = (a, u))"
    using watch_okD(2,3) [OF ok] unfolding sane_task_def by metis
  also have "\<dots> \<longleftrightarrow> (\<exists>t. dget (ws_tasks st) i = Some t \<and> wt_account_id t = a \<and> wt_to_uri t = Some u \<and> u \<noteq> [])"
    by (auto simp: has_target_def target_key_def split: option.splits)
  finally show ?thesis .
qed



section \<open>Moves\<close>

lemma rewrite_moves:
  assumes "ws_ok st" "rewrite_target_prefix_internal c fso old_uri new_uri a st = (st', Inr ids)" "dget (ws_tasks st) i = Some t"
  shows "dget (ws_tasks st') i = Some (case moves old_uri new_uri a t of None \<Rightarrow> t | Some g \<Rightarrow> moved_task g t)"
    "i \<in> set ids \<longleftrightarrow> moves old_uri new_uri a t \<noteq> None"
proof -
  let ?plan = "rewrite_plan old_uri new_uri a (ws_tasks st)"
  have d: "distinct (dkeys (ws_tasks st))" using assms(1) by (simp add: ws_ok_def watch_ok_def)
  have g: "dget ?plan i = moves old_uri new_uri a t" using plan_get [OF d] assms(3) by simp
  have m: "move_targets a ?plan (ws_tasks st, clear_targets a (ws_tasks st) ?plan (ws_index st)) = (ws_tasks st', ws_index st')" "ids = map fst ?plan"
    using rewrite_done [OF assms(2)] by auto
  show "dget (ws_tasks st') i = Some (case moves old_uri new_uri a t of None \<Rightarrow> t | Some g \<Rightarrow> moved_task g t)"
    using move_tasks [OF plan_distinct [OF d, of old_uri new_uri a], where a = a and ts = "ws_tasks st"
        and ix = "clear_targets a (ws_tasks st) ?plan (ws_index st)" and i = i] m(1) g assms(3)
    by (auto split: option.split)
  show "i \<in> set ids \<longleftrightarrow> moves old_uri new_uri a t \<noteq> None"
    using dget_None_iff [of ?plan i] g m(2) by (simp add: dkeys_def)
qed

text \<open>Property. Moving the targets under a URI is all or nothing. If it fails, on a conflict or because the save fails, tasks and
  index are as before. If it succeeds, every task of the account at or below the old URI has its target at the same place below the
  new one, where the index finds it, moving that target back gives the old one, and all other tasks are unchanged.\<close>

theorem move_is_all_or_nothing:
  assumes "reach new_manager (watch_step c fso) st" "normalize_uri new_uri \<noteq> []"
    and "rewrite_target_prefix_internal c fso old_uri new_uri a st = (st', r)"
  shows "case r of
      Inl e \<Rightarrow> ws_tasks st' = ws_tasks st \<and> ws_index st' = ws_index st
    | Inr ids \<Rightarrow> \<forall>i t. dget (ws_tasks st) i = Some t \<longrightarrow>
        (if wt_account_id t = a \<and> uri_matches_prefix (wt_to_uri t) old_uri
         then i \<in> set ids \<and> (\<exists>u g t'. wt_to_uri t = Some u \<and> g = rewrite_uri_prefix u old_uri new_uri \<and> dget (ws_tasks st') i = Some t'
           \<and> wt_to_uri t' = Some g \<and> task_at a g st' = Some i \<and> uri_matches_prefix (Some g) new_uri \<and> rewrite_uri_prefix g new_uri old_uri = u)
         else i \<notin> set ids \<and> dget (ws_tasks st') i = Some t)"
proof (cases r)
  case (Inl e)
  then show ?thesis using rewrite_failed [OF reach_ok [OF assms(1)]] assms(3) by simp
next
  case (Inr ids)
  have ok: "ws_ok st" by (rule reach_ok [OF assms(1)])
  have ok': "ws_ok st'" using rewrite_ok [OF ok assms(2), of c fso old_uri a] assms(3) by simp
  have mv: "rewrite_target_prefix_internal c fso old_uri new_uri a st = (st', Inr ids)" using assms(3) Inr by simp
  have "if wt_account_id t = a \<and> uri_matches_prefix (wt_to_uri t) old_uri
      then i \<in> set ids \<and> (\<exists>u g t'. wt_to_uri t = Some u \<and> g = rewrite_uri_prefix u old_uri new_uri \<and> dget (ws_tasks st') i = Some t'
        \<and> wt_to_uri t' = Some g \<and> task_at a g st' = Some i \<and> uri_matches_prefix (Some g) new_uri \<and> rewrite_uri_prefix g new_uri old_uri = u)
      else i \<notin> set ids \<and> dget (ws_tasks st') i = Some t" if it: "dget (ws_tasks st) i = Some t" for i t
  proof (cases "moves old_uri new_uri a t")
    case None
    then have "\<not> (wt_account_id t = a \<and> uri_matches_prefix (wt_to_uri t) old_uri)" by (auto simp: moves_def)
    then show ?thesis using rewrite_moves [OF ok mv it] None by simp
  next
    case (Some g)
    then obtain u where u: "wt_account_id t = a" "wt_to_uri t = Some u" "uri_matches_prefix (Some u) old_uri" "g = rewrite_uri_prefix u old_uri new_uri"
      by (auto simp: moves_Some)
    have t': "dget (ws_tasks st') i = Some (moved_task g t)" "i \<in> set ids" using rewrite_moves [OF ok mv it] Some by simp_all
    have g: "uri_matches_prefix (Some g) new_uri" "g \<noteq> []" using rewrite_matches [OF u(3) assms(2)] moves_nonempty [OF Some assms(2)] u(4) by simp_all
    have "task_at a g st' = Some i" using task_at_iff [OF ok'] t'(1) g(2) u(1) by (auto simp: moved_task_def)
    then show ?thesis using u t' g rewrite_back [OF u(3), of new_uri] by (auto simp: moved_task_def)
  qed
  then show ?thesis unfolding Inr sum.case by blast
qed

theorem move_is_all_or_nothing_witness:
  "(\<exists>t'. dget (ws_tasks (fst (rewrite_target_prefix_internal demo_codec None ''viking://resources'' ''viking://user/bob'' ''acme'' demo_state))) ''t1''
      = Some t' \<and> wt_to_uri t' = Some ''viking://user/bob/a'')"
proof -
  have n: "normalize_uri ''viking://user/bob'' \<noteq> []" by (simp add: normalize_uri_def rstrip_def)
  have m: "uri_matches_prefix (Some ''viking://resources/a'') ''viking://resources''" "wt_account_id demo_task = ''acme''" 
    by (simp_all add: uri_matches_prefix_def normalize_uri_def rstrip_def startswith_def demo_task_simps)
  obtain st' r where mv: "rewrite_target_prefix_internal demo_codec None ''viking://resources'' ''viking://user/bob'' ''acme'' demo_state = (st', r)"
    by fastforce
  have "snd (rewrite_target_prefix_internal demo_codec None ''viking://resources'' ''viking://user/bob'' ''acme'' demo_state) = Inr [''t1'']"
    by code_simp
  then have r: "r = Inr [''t1'']" using mv by simp
  have get: "dget (ws_tasks demo_state) ''t1'' = Some demo_task" by (simp add: demo_state_eq)
  have "rewrite_uri_prefix ''viking://resources/a'' ''viking://resources'' ''viking://user/bob'' = ''viking://user/bob/a''" by code_simp
  with move_is_all_or_nothing [OF demo_reach n mv, unfolded r sum.case, THEN spec, THEN spec, THEN mp, OF get] show ?thesis
    using mv m by (auto simp: demo_task_simps)
qed

section \<open>Schedules\<close>

text \<open>Property. After an execution an active task waits for its interval: it is due from one interval after the execution on, and not
  before. An inactive task, also one that was deactivated because its target was deleted, is never due.\<close>

theorem executed_task_waits:
  assumes "dget (ws_tasks st) i = Some t" "update_execution_time c fso now i st = (st', r)" "distinct (dkeys (ws_tasks st))"
  shows "\<exists>t'. dget (ws_tasks st') i = Some t' \<and> (t' \<in> set (get_due_tasks later None st') \<longleftrightarrow>
      wt_is_active t \<and> 0 < wt_watch_interval t \<and> now + timedelta_minutes (wt_watch_interval t) \<le> later)"
proof -
  have st': "ws_tasks st' = dset (ws_tasks st) i (executed now t)"
    using assms(1,2) save_keeps(1) [of c fso "st\<lparr>ws_tasks := dset (ws_tasks st) i (executed now t)\<rparr>"] by (simp add: update_execution_time_eq)
  then have g: "dget (ws_tasks st') i = Some (executed now t)" by simp
  have "executed now t \<in> set (map snd (ws_tasks st'))" using dget_in_set [OF g] by force
  then have "executed now t \<in> set (get_due_tasks later None st') \<longleftrightarrow> due later None (executed now t)" by (simp add: get_due_tasks_def)
  also have "\<dots> \<longleftrightarrow> wt_is_active t \<and> 0 < wt_watch_interval t \<and> now + timedelta_minutes (wt_watch_interval t) \<le> later"
    by (auto simp: due_def executed_def deactivated_def)
  finally show ?thesis using g by blast
qed

theorem executed_task_waits_witness:
  "\<exists>t'. dget (ws_tasks (fst (update_execution_time demo_codec None 100 ''t1'' demo_state))) ''t1'' = Some t'
    \<and> t' \<notin> set (get_due_tasks 60000099 None (fst (update_execution_time demo_codec None 100 ''t1'' demo_state)))"
proof -
  have g: "dget (ws_tasks demo_state) ''t1'' = Some demo_task" and d: "distinct (dkeys (ws_tasks demo_state))"
    by (simp_all add: demo_state_eq dkeys_def)
  show ?thesis
    using executed_task_waits [OF g _ d, of demo_codec None 100 _ _ 60000099] by (auto simp: demo_task_simps timedelta_minutes_def prod_eq_iff)
qed

section \<open>Access\<close>



section \<open>Restarts\<close>



section \<open>Failed requests\<close>

text \<open>Property. A create whose save fails is answered with the error, but the task stays in memory: it is scheduled, and the same
  request again is refused as a conflict.\<close>

theorem failed_create_is_kept:
  assumes "wm_create_task c fso now fresh a st = (st', Inl e)" "e \<notin> {ValueError, ConflictError}" "fresh \<noteq> []" "wt_to_uri a = Some uri" "uri \<noteq> []"
  shows "dget (ws_tasks st') fresh = Some (new_watch_task now fresh a) \<and> wm_create_task c fso' now' fresh' a st' = (st', Inl ConflictError)"
proof -
  let ?t = "new_watch_task now fresh a"
  have t: "wt_task_id ?t = fresh" "has_target ?t" "target_key ?t = (wt_account_id a, uri)"
    using assms(4,5) by (simp_all add: new_watch_task_def has_target_def target_key_def Let_def)
  have ok: "wt_path a \<noteq> []" "\<not> wt_watch_interval a \<le> 0" using assms(1,2) by (auto simp: wm_create_task_def split: if_splits)
  obtain st1 r where s: "save_tasks c fso (st\<lparr>ws_tasks := dset (ws_tasks st) fresh ?t, ws_index := dset (ws_index st) (wt_account_id a, uri) fresh\<rparr>) = (st1, r)"
    by fastforce
  have "ws_tasks st1 = dset (ws_tasks st) fresh ?t" "ws_index st1 = dset (ws_index st) (wt_account_id a, uri) fresh"
    using save_keeps [of c fso "st\<lparr>ws_tasks := dset (ws_tasks st) fresh ?t, ws_index := dset (ws_index st) (wt_account_id a, uri) fresh\<rparr>"] s by simp_all
  moreover have "st' = st1" using assms(1,2) s t by (auto simp: wm_create_task_def install_task_def Let_def split: if_splits)
  ultimately show ?thesis using ok assms(3-5) by (simp add: wm_create_task_def check_uri_conflict_def)
qed

theorem failed_create_is_kept_witness:
  "wm_create_task demo_codec None 7 ''t2'' (demo_args ''bob'' ''viking://resources/a'')
     (fst (wm_create_task demo_codec (Some (map_fs\<lparr>wf_write := (\<lambda>d u f. (d, Inl IOError))\<rparr>)) 0 ''t1'' (demo_args ''bob'' ''viking://resources/a'')
       (empty_manager (\<lambda>_. None))))
   = (fst (wm_create_task demo_codec (Some (map_fs\<lparr>wf_write := (\<lambda>d u f. (d, Inl IOError))\<rparr>)) 0 ''t1'' (demo_args ''bob'' ''viking://resources/a'')
       (empty_manager (\<lambda>_. None))), Inl ConflictError)"
proof -
  let ?fs = "map_fs\<lparr>wf_write := (\<lambda>d u f. (d, Inl IOError))\<rparr>"
  have "snd (wm_create_task demo_codec (Some ?fs) 0 ''t1'' (demo_args ''bob'' ''viking://resources/a'') (empty_manager (\<lambda>_. None))) = Inl IOError"
    by (simp add: wm_create_task_def demo_args_def empty_manager_def check_uri_conflict_def save_tasks_def map_fs_steps SUPPORTED_PROCESSING_MODES_def
        case_prod_unfold Let_def)
  then have f: "wm_create_task demo_codec (Some ?fs) 0 ''t1'' (demo_args ''bob'' ''viking://resources/a'') (empty_manager (\<lambda>_. None))
      = (fst (wm_create_task demo_codec (Some ?fs) 0 ''t1'' (demo_args ''bob'' ''viking://resources/a'') (empty_manager (\<lambda>_. None))), Inl IOError)"
    by (simp add: prod_eq_iff)
  show ?thesis
    using failed_create_is_kept [OF f, of "''viking://resources/a''" None 7 "''t2''"] by (simp add: ConflictError_def demo_args_def)
qed

text \<open>Property. An update with an interval that does not allow the requested activity is refused, but what precedes the check is
  already assigned: the task has the new target while the index still has the old one, so a look-up of the new target does not find it.\<close>

theorem refused_update_is_kept:
  assumes "ws_ok st" "dget (ws_tasks st) i = Some t" "same_target snap t" "wm_check_permission t a u role"
    and "wu_to_uri upd = Some uri" "wt_to_uri t \<noteq> Some uri" "\<not> check_uri_conflict (ws_index st) (Some uri) (wt_account_id t) (Some i)"
    and "wu_watch_interval upd = Some w" "w \<le> 0" "wu_is_active upd = Some True"
  shows "\<exists>st' t'. wm_update_task c fso snap i a u role upd st = (st', Some (Inl ValueError)) \<and> dget (ws_tasks st') i = Some t'
     \<and> wt_to_uri t' = Some uri \<and> ws_index st' = ws_index st \<and> task_at (wt_account_id t) uri st' \<noteq> Some i"
proof -
  have id: "wt_task_id t = i" using known_task [OF assms(1,2)] by simp
  have "wm_update_task c fso snap i a u role upd st = (put_task (update_head upd t) st, Some (Inl ValueError))"
    using assms(2-10) id by (simp add: wm_update_task_def update_task_unlocked_def Let_def)
  moreover have "dget (ws_tasks (put_task (update_head upd t) st)) i = Some (update_head upd t)" "wt_to_uri (update_head upd t) = Some uri"
    using id assms(5) by (simp_all add: put_task_def update_head_def some_or_def)
  moreover have "task_at (wt_account_id t) uri st \<noteq> Some i" using task_at_iff [OF assms(1)] assms(2,6) by auto
  ultimately show ?thesis by (auto simp: put_task_def task_at_def)
qed

definition no_update :: watch_update where
  "no_update = \<lparr>wu_path = None, wu_source_type = None, wu_to_uri = None, wu_to_is_directory = None, wu_parent_uri = None, wu_reason = None,
     wu_instruction = None, wu_watch_interval = None, wu_build_index = None, wu_summarize = None, wu_processing_mode = None,
     wu_processor_kwargs = None, wu_auth_state = None, wu_is_active = None\<rparr>"

theorem refused_update_is_kept_witness:
  "\<exists>st' t'. wm_update_task demo_codec None (''acme'', Some ''viking://resources/a'') ''t1'' ''acme'' ''bob'' ''user''
       (no_update\<lparr>wu_to_uri := Some ''viking://resources/b'', wu_watch_interval := Some 0, wu_is_active := Some True\<rparr>) demo_state
     = (st', Some (Inl ValueError)) \<and> dget (ws_tasks st') ''t1'' = Some t' \<and> wt_to_uri t' = Some ''viking://resources/b''
     \<and> ws_index st' = ws_index demo_state \<and> task_at (wt_account_id demo_task) ''viking://resources/b'' st' \<noteq> Some ''t1''"
  by (rule refused_update_is_kept [OF reach_ok [OF demo_reach], where w = 0])
    (simp_all add: demo_state_eq same_target_def wm_check_permission_def demo_task_simps check_uri_conflict_def no_update_def)

end
