(* ===== verification/Watch_Service.thy ===== *)
theory Watch_Service
  imports Watch_Safety Uri_Validation
begin

text \<open>
  The callers of the watch manager: moving and deleting resources (\<open>openviking/service/fs_service.py\<close>) and creating or
  cancelling a watch when a resource is added (\<open>openviking/service/resource_service.py\<close>).

  Each caller is modelled without another request between its calls to the manager. The mutation lease of a move keeps
  other requests off the URIs it names.
\<close>

section \<open>Definitions\<close>

text \<open>A method of the manager whose snapshot is still current when its lease is granted.\<close>

definition update_task_now ::
  "iso_codec \<Rightarrow> 's watch_fs option \<Rightarrow> string \<Rightarrow> string \<Rightarrow> string \<Rightarrow> string \<Rightarrow> watch_update \<Rightarrow> 's watch_state \<Rightarrow> 's watch_state \<times> (py_exc + watch_task)" where
  "update_task_now c fso i a u role upd st =
     (case dget (ws_tasks st) i of
        None \<Rightarrow> (st, Inl ValueError)
      | Some t \<Rightarrow>
          if \<not> wm_check_permission t a u role then (st, Inl PermissionDeniedError) else update_task_unlocked c fso upd t st)"

definition delete_task_now ::
  "iso_codec \<Rightarrow> 's watch_fs option \<Rightarrow> string \<Rightarrow> string \<Rightarrow> string \<Rightarrow> string \<Rightarrow> 's watch_state \<Rightarrow> 's watch_state \<times> (py_exc + bool)" where
  "delete_task_now c fso i a u role st =
     (case dget (ws_tasks st) i of
        None \<Rightarrow> (st, Inr False)
      | Some t \<Rightarrow>
          (case wm_delete_task c fso (wt_account_id t, wt_to_uri t) i a u role st of (st', Some r) \<Rightarrow> (st', r) | (st', None) \<Rightarrow> (st', Inr False)))"

text \<open>\<open>FSService.mv\<close>. The parameter \<open>vmv\<close> is \<open>VikingFS.mv\<close>.\<close>

type_synonym 'f vfs_mv = "'f \<Rightarrow> string \<Rightarrow> string \<Rightarrow> 'f \<times> (py_exc + unit)"

definition move_resource_with_watch_transaction ::
  "iso_codec \<Rightarrow> 's watch_fs option \<Rightarrow> 'f vfs_mv \<Rightarrow> string \<Rightarrow> string \<Rightarrow> string \<Rightarrow> 'f \<times> 's watch_state \<Rightarrow> ('f \<times> 's watch_state) \<times> (py_exc + unit)" where
  "move_resource_with_watch_transaction c fso vmv from_uri to_uri account_id = (\<lambda>(f, st).
     case plan_target_prefix_rewrite from_uri to_uri account_id st of
       Inl e \<Rightarrow> ((f, st), Inl e)
     | Inr _ \<Rightarrow>
         (case vmv f from_uri to_uri of
            (f1, Inl e) \<Rightarrow> ((f1, st), Inl e)
          | (f1, Inr _) \<Rightarrow>
              (case rewrite_target_prefix_internal c fso from_uri to_uri account_id st of
                 (st1, Inr _) \<Rightarrow> ((f1, st1), Inr ())
               | (st1, Inl commit_error) \<Rightarrow>
                   (case vmv f1 to_uri from_uri of
                      (f2, Inl rollback_error) \<Rightarrow> ((f2, st1), Inl rollback_error)
                    | (f2, Inr _) \<Rightarrow> ((f2, st1), Inl commit_error)))))"

definition plain_mv :: "'f vfs_mv \<Rightarrow> string \<Rightarrow> string \<Rightarrow> 'f \<times> 's \<Rightarrow> ('f \<times> 's) \<times> (py_exc + unit)" where
  "plain_mv vmv from_uri to_uri = (\<lambda>(f, st). case vmv f from_uri to_uri of (f', r) \<Rightarrow> ((f', st), r))"

definition fs_mv ::
  "iso_codec \<Rightarrow> 's watch_fs option \<Rightarrow> bool \<Rightarrow> 'f vfs_mv \<Rightarrow> string \<Rightarrow> string \<Rightarrow> string \<Rightarrow> 'f \<times> 's watch_state \<Rightarrow> ('f \<times> 's watch_state) \<times> (py_exc + unit)" where
  "fs_mv c fso has_manager vmv from_uri to_uri account_id s =
     (if \<not> has_manager then plain_mv vmv from_uri to_uri s
      else case context_type_for_uri from_uri of
        Inl e \<Rightarrow> (s, Inl e)
      | Inr ft \<Rightarrow>
          if ft \<noteq> ''resource'' then plain_mv vmv from_uri to_uri s
          else case context_type_for_uri to_uri of
            Inl e \<Rightarrow> (s, Inl e)
          | Inr tt \<Rightarrow>
              if tt \<noteq> ''resource'' then plain_mv vmv from_uri to_uri s
              else case ebind (is_watch_task_control_uri from_uri) (\<lambda>b. if b then Inr True else is_watch_task_control_uri to_uri) of
                Inl e \<Rightarrow> (s, Inl e)
              | Inr True \<Rightarrow> plain_mv vmv from_uri to_uri s
              | Inr False \<Rightarrow> move_resource_with_watch_transaction c fso vmv from_uri to_uri account_id s)"

definition sync_watch_after_rm ::
  "iso_codec \<Rightarrow> 's watch_fs option \<Rightarrow> bool \<Rightarrow> string \<Rightarrow> string \<Rightarrow> string \<Rightarrow> 's watch_state \<Rightarrow> 's watch_state \<times> (py_exc + unit)" where
  "sync_watch_after_rm c fso has_manager uri account_id context_type st =
     (if context_type \<noteq> ''resource'' then (st, Inr ())
      else case is_watch_task_control_uri uri of
        Inl e \<Rightarrow> (st, Inl e)
      | Inr True \<Rightarrow> (st, Inr ())
      | Inr False \<Rightarrow>
          if \<not> has_manager then (st, Inr ())
          else map_prod id (map_sum id (\<lambda>_. ())) (deactivate_tasks_under_uri_internal c fso uri account_id st))"

text \<open>\<open>ResourceService\<close>. The record \<open>a\<close> holds the arguments, with the caller as account, user and role.\<close>

definition upsert_update :: "watch_task \<Rightarrow> watch_update" where
  "upsert_update a = \<lparr>wu_path = Some (wt_path a), wu_source_type = wt_source_type a, wu_to_uri = wt_to_uri a, wu_to_is_directory = wt_to_is_directory a,
     wu_parent_uri = wt_parent_uri a, wu_reason = Some (wt_reason a), wu_instruction = Some (wt_instruction a),
     wu_watch_interval = Some (wt_watch_interval a), wu_build_index = Some (wt_build_index a), wu_summarize = Some (wt_summarize a),
     wu_processing_mode = Some (wt_processing_mode a), wu_processor_kwargs = Some (wt_processor_kwargs a), wu_auth_state = Some (wt_auth_state a),
     wu_is_active = Some True\<rparr>"

definition handle_watch_task_creation ::
  "iso_codec \<Rightarrow> 's watch_fs option \<Rightarrow> int \<Rightarrow> string \<Rightarrow> watch_task \<Rightarrow> 's watch_state \<Rightarrow> 's watch_state \<times> (py_exc + unit)" where
  "handle_watch_task_creation c fso now fresh a st =
     (case get_upsertable_task_by_uri (wt_path a) (pick (wt_to_uri a) []) (wt_account_id a) (wt_user_id a) (wt_original_role a) st of
        Inl e \<Rightarrow> (st, Inl e)
      | Inr (Some t) \<Rightarrow> map_prod id (map_sum id (\<lambda>_. ()))
          (update_task_now c fso (wt_task_id t) (wt_account_id a) (wt_user_id a) (wt_original_role a) (upsert_update a) st)
      | Inr None \<Rightarrow> map_prod id (map_sum id (\<lambda>_. ())) (wm_create_task c fso now fresh a st))"

definition handle_watch_task_cancellation ::
  "iso_codec \<Rightarrow> 's watch_fs option \<Rightarrow> string \<Rightarrow> string \<Rightarrow> string \<Rightarrow> string \<Rightarrow> 's watch_state \<Rightarrow> 's watch_state \<times> (py_exc + unit)" where
  "handle_watch_task_cancellation c fso to_uri a u role st =
     (case get_task_by_uri to_uri a u role st of
        None \<Rightarrow> (st, Inr ())
      | Some t \<Rightarrow> map_prod id (map_sum id (\<lambda>_. ())) (update_task_now c fso (wt_task_id t) a u role (no_update\<lparr>wu_is_active := Some False\<rparr>) st))"

text \<open>\<open>_manage_watch_if_needed\<close>: other errors than a conflict are logged and dropped. \<open>a\<close> carries \<open>to\<close> and \<open>parent\<close>, empty when
  not given, and the sanitized arguments of the processor.\<close>

definition manage_watch_if_needed ::
  "iso_codec \<Rightarrow> 's watch_fs option \<Rightarrow> bool \<Rightarrow> bool \<Rightarrow> bool \<Rightarrow> int \<Rightarrow> string \<Rightarrow> string \<Rightarrow> watch_task \<Rightarrow> 's watch_state \<Rightarrow> 's watch_state \<times> (py_exc + unit)" where
  "manage_watch_if_needed c fso has_manager manage_watch uploaded now fresh root_uri a st =
     (if \<not> has_manager \<or> \<not> manage_watch then (st, Inr ())
      else let to = pick (wt_to_uri a) [] in
      if wt_watch_interval a > 0 then
        let watch_to = (if to = [] then root_uri else to);
            a' = a\<lparr>wt_to_uri := Some watch_to, wt_parent_uri := (if to = [] then None else wt_parent_uri a)\<rparr> in
        if watch_to = [] then (st, Inl InvalidArgumentError)
        else if uploaded then (st, Inl InvalidArgumentError)
        else (case handle_watch_task_creation c fso now fresh a' st of
                (st', Inl e) \<Rightarrow> (st', if e = ConflictError then Inl e else Inr ())
              | (st', Inr _) \<Rightarrow> (st', Inr ()))
      else if to \<noteq> [] then (fst (handle_watch_task_cancellation c fso to (wt_account_id a) (wt_user_id a) (wt_original_role a) st), Inr ())
      else (st, Inr ()))"

lemma update_task_now_eq:
  "dget (ws_tasks st) i = Some t \<Longrightarrow>
    wm_update_task c fso (wt_account_id t, wt_to_uri t) i a u role upd st = map_prod id Some (update_task_now c fso i a u role upd st)"
  by (simp add: wm_update_task_def update_task_now_def same_target_def)

section \<open>Moves\<close>

text \<open>What is relied on of \<open>VikingFS.mv\<close>: it happens or fails without effect, and a move back undoes a move.\<close>

definition mv_ok :: "'f vfs_mv \<Rightarrow> bool" where
  "mv_ok vmv \<longleftrightarrow> (\<forall>f p q f' e. vmv f p q = (f', Inl e) \<longrightarrow> f' = f)
     \<and> (\<forall>f p q f1 f2. vmv f p q = (f1, Inr ()) \<longrightarrow> vmv f1 q p = (f2, Inr ()) \<longrightarrow> f2 = f)"

lemma transaction_cases:
  assumes "mv_ok vmv" "ws_ok st" "move_resource_with_watch_transaction c fso vmv p q a (f, st) = ((f', st'), r)"
  shows "r = Inr () \<and> vmv f p q = (f', Inr ()) \<and> (\<exists>ids. rewrite_target_prefix_internal c fso p q a st = (st', Inr ids))
    \<or> (\<exists>e. r = Inl e) \<and> ws_tasks st' = ws_tasks st \<and> ws_index st' = ws_index st \<and> (f' = f \<or> vmv f p q = (f', Inr ()) \<and> vmv f' q p = (f', r))"
proof (cases "plan_target_prefix_rewrite p q a st")
  case (Inr plan)
  obtain f1 r1 where m: "vmv f p q = (f1, r1)" by fastforce
  show ?thesis
  proof (cases r1)
    case Inl: (Inl e)
    have "f1 = f" using assms(1) m Inl unfolding mv_ok_def by blast
    then show ?thesis using assms(3) Inr m Inl by (auto simp: move_resource_with_watch_transaction_def)
  next
    case r1: (Inr u)
    obtain st1 r2 where w: "rewrite_target_prefix_internal c fso p q a st = (st1, r2)" by fastforce
    obtain f2 r3 where b: "vmv f1 q p = (f2, r3)" by fastforce
    have undo: "r3 = Inr () \<longrightarrow> f2 = f" using assms(1) m r1 b unfolding mv_ok_def by auto
    have still: "(\<exists>e. r3 = Inl e) \<longrightarrow> f2 = f1" using assms(1) b unfolding mv_ok_def by blast
    have keep: "ws_tasks st1 = ws_tasks st \<and> ws_index st1 = ws_index st" if "r2 = Inl e" for e using rewrite_failed [OF assms(2)] w that by simp
    show ?thesis using assms(3) Inr m r1 w b undo still keep
      by (cases r2; cases r3) (auto simp: move_resource_with_watch_transaction_def)
  qed
qed (use assms(3) in \<open>auto simp: move_resource_with_watch_transaction_def\<close>)


definition set_mv :: "string set vfs_mv" where
  "set_mv f p q = (if p \<in> f \<and> q \<notin> f then (f - {p} \<union> {q}, Inr ()) else (f, Inl NotFoundError))"

lemma set_mv_ok: "mv_ok set_mv"
  by (auto simp: mv_ok_def set_mv_def split: if_splits)


section \<open>Watches of added resources\<close>

lemma update_now_valid:
  assumes "ws_ok st" "dget (ws_tasks st) i = Some t" "update_valid upd t" "update_task_now c fso i a u role upd st = (st', r)"
    "r \<noteq> Inl PermissionDeniedError" "r \<noteq> Inl ConflictError"
  shows "ws_ok st' \<and> dget (ws_tasks st') i = Some (updated_task upd t)"
proof -
  have id: "wt_task_id t = i" using known_task [OF assms(1,2)] by simp
  have "ws_ok st'" using update_ok [of st i upd c fso "(wt_account_id t, wt_to_uri t)" a u role] assms(1-4) by (simp add: update_task_now_eq)
  moreover have "dget (ws_tasks st') i = Some (updated_task upd t)"
  proof (cases "check_uri_conflict (ws_index st) (wu_to_uri upd) (wt_account_id t) (Some (wt_task_id t)) \<or> \<not> wm_check_permission t a u role")
    case True
    then show ?thesis using assms(2,4-6) by (auto simp: update_task_now_def update_task_unlocked_def split: if_splits)
  next
    case False
    obtain st1 r1 where s: "save_tasks c fso ((put_task (updated_task upd t) st)\<lparr>ws_index := update_index upd t (updated_task upd t) (ws_index st)\<rparr>) = (st1, r1)"
      by fastforce
    have "ws_tasks st1 = dset (ws_tasks st) i (updated_task upd t)"
      using save_keepsD [OF s] id by (simp add: put_task_def updated_fields)
    then show ?thesis using False assms(2-4) s by (auto simp: update_task_now_def valid_update)
  qed
  ultimately show ?thesis by simp
qed

text \<open>Property. Adding a watched resource leaves exactly one watch on its target: when the request is accepted, the task of the target,
  the one it had or a new one, is active, reads the requested source at the requested interval and is scheduled. When the
  target is watched from another source, or by a task the caller may not change, nothing changes.\<close>

theorem upsert_leaves_one_watch:
  assumes "reach new_manager (watch_step c fso) st" "fresh \<noteq> []" "dget (ws_tasks st) fresh = None"
    and "wt_to_uri a = Some uri" "uri \<noteq> []" "wt_watch_interval a > 0" "wt_processing_mode a \<in> set SUPPORTED_PROCESSING_MODES"
    and "handle_watch_task_creation c fso now fresh a st = (st', r)"
  shows "(r = Inr () \<longrightarrow> (\<exists>i t. task_at (wt_account_id a) uri st' = Some i \<and> i = pick (task_at (wt_account_id a) uri st) fresh
        \<and> dget (ws_tasks st') i = Some t \<and> wt_is_active t \<and> wt_path t = wt_path a \<and> wt_watch_interval t = wt_watch_interval a
        \<and> wt_next_execution_time t = Some (calculate_next_execution_time t)))
    \<and> (get_upsertable_task_by_uri (wt_path a) uri (wt_account_id a) (wt_user_id a) (wt_original_role a) st = Inl ConflictError \<longrightarrow> st' = st \<and> r = Inl ConflictError)"
proof (intro conjI impI)
  have ok: "ws_ok st" by (rule reach_ok [OF assms(1)])
  assume r: "r = Inr ()"
  show "\<exists>i t. task_at (wt_account_id a) uri st' = Some i \<and> i = pick (task_at (wt_account_id a) uri st) fresh
        \<and> dget (ws_tasks st') i = Some t \<and> wt_is_active t \<and> wt_path t = wt_path a \<and> wt_watch_interval t = wt_watch_interval a
        \<and> wt_next_execution_time t = Some (calculate_next_execution_time t)"
  proof (cases "task_at (wt_account_id a) uri st")
    case None
    then have "wm_create_task c fso now fresh a st = (st', Inr (new_watch_task now fresh a))"
      using assms(4,8) r by (auto simp: handle_watch_task_creation_def get_upsertable_task_by_uri_def pick_def wm_create_task_def Let_def
          split: prod.splits if_splits)
    moreover have "ws_ok st'" using create_ok [OF ok assms(2,3), of c fso now a] calculation by simp
    moreover have "dget (ws_tasks st') fresh = Some (new_watch_task now fresh a)"
      using calculation(1) save_keeps(1)
      by (auto simp: wm_create_task_def install_task_def new_watch_task_def Let_def split: prod.splits if_splits dest!: arg_cong [of _ _ fst])
    ultimately show ?thesis using None task_at_iff [of st'] assms(4,5)
      by (auto simp: new_watch_task_def calculate_next_execution_time_def Let_def pick_def)
  next
    case (Some i)
    then obtain t where t: "dget (ws_tasks st) i = Some t" "wt_account_id t = wt_account_id a" "wt_to_uri t = Some uri"
      using task_at_iff [OF ok] by auto
    have id: "wt_task_id t = i" using known_task [OF ok t(1)] by simp
    obtain st2 r2 where u2: "update_task_now c fso i (wt_account_id a) (wt_user_id a) (wt_original_role a) (upsert_update a) st = (st2, r2)" by fastforce
    then have "st2 = st' \<and> (\<exists>r'. r2 = Inr r')"
      using assms(4,8) r Some t(1) id by (cases r2) (auto simp: handle_watch_task_creation_def get_upsertable_task_by_uri_def pick_def split: if_splits)
    then obtain r' where u: "update_task_now c fso i (wt_account_id a) (wt_user_id a) (wt_original_role a) (upsert_update a) st = (st', Inr r')"
      using u2 by blast
    have "update_valid (upsert_update a) t" using assms(6,7) by (simp add: update_valid_def upsert_update_def)
    from update_now_valid [OF ok t(1) this u] have new: "ws_ok st'" "dget (ws_tasks st') i = Some (updated_task (upsert_update a) t)" by simp_all
    have f: "wt_is_active (updated_task (upsert_update a) t)" "wt_path (updated_task (upsert_update a) t) = wt_path a"
      "wt_watch_interval (updated_task (upsert_update a) t) = wt_watch_interval a"
      "wt_next_execution_time (updated_task (upsert_update a) t) = Some (calculate_next_execution_time (updated_task (upsert_update a) t))"
      using assms(6) by (simp_all add: watch_update_defs upsert_update_def calculate_next_execution_time_def split: option.split)
    have "task_at (wt_account_id a) uri st' = Some i"
      using task_at_iff [OF new(1)] new(2) t(2) assms(4,5) by (simp add: updated_fields some_or_def upsert_update_def)
    then show ?thesis using f new(2) Some by (simp add: pick_def)
  qed
next
  assume "get_upsertable_task_by_uri (wt_path a) uri (wt_account_id a) (wt_user_id a) (wt_original_role a) st = Inl ConflictError"
  then show "st' = st" "r = Inl ConflictError" using assms(4,8) by (simp_all add: handle_watch_task_creation_def pick_def)
qed

theorem upsert_leaves_one_watch_witness:
  "task_at ''acme'' ''viking://resources/a'' (fst (handle_watch_task_creation demo_codec None 9 ''t2'' (demo_args ''bob'' ''viking://resources/a'') demo_state)) = Some ''t1''"
proof -
  let ?a = "demo_args ''bob'' ''viking://resources/a''"
  let ?h = "handle_watch_task_creation demo_codec None 9 ''t2'' ?a demo_state"
  have a: "wt_to_uri ?a = Some ''viking://resources/a''" "wt_watch_interval ?a > 0" "wt_processing_mode ?a \<in> set SUPPORTED_PROCESSING_MODES"
    "wt_account_id ?a = ''acme''" by (simp_all add: demo_args_def SUPPORTED_PROCESSING_MODES_def)
  have n: "dget (ws_tasks demo_state) ''t2'' = None" by (simp add: demo_state_eq)
  have r: "snd ?h = Inr ()" by code_simp
  have "task_at ''acme'' ''viking://resources/a'' demo_state = Some ''t1''" by code_simp
  moreover have "?h = (fst ?h, Inr ())" using r by (simp add: prod_eq_iff)
  ultimately show ?thesis using upsert_leaves_one_watch [OF demo_reach _ n a(1) _ a(2,3), of 9 "fst ?h" "Inr ()"] a(4) by (simp add: pick_def)
qed

end
