(* ===== verification/Watch_Scheduler.thy ===== *)
theory Watch_Scheduler
  imports Watch_Service Identity
begin

text \<open>
  \<open>openviking/resource/watch_scheduler.py\<close> and the token state of \<open>openviking/resource/feishu_watch_auth.py\<close>: executing a due task, what
  its outcome does to the task, and the set of tasks in execution.

  The parameter \<open>exec_env\<close> stands for what an execution calls: the local file system, \<open>VikingFS.stat\<close>, the token service, the
  credentials of Git and of connectors, and the re-import of the resource. Its results are read once per execution.
\<close>

section \<open>Definitions\<close>

definition FEISHU_AUTH_PROVIDER :: string where "FEISHU_AUTH_PROVIDER = ''feishu''"
definition GIT_HTTP_AUTH_PROVIDER :: string where "GIT_HTTP_AUTH_PROVIDER = ''git_http_basic''"

text \<open>Five minutes in microseconds.\<close>

definition FEISHU_REFRESH_SKEW :: int where "FEISHU_REFRESH_SKEW = 300000000"

definition is_feishu_auth_state :: "pydict option \<Rightarrow> bool" where
  "is_feishu_auth_state s \<longleftrightarrow> (case s of None \<Rightarrow> False | Some d \<Rightarrow> dget d ''provider'' = Some (PStr FEISHU_AUTH_PROVIDER))"

definition is_git_http_auth_state :: "pydict option \<Rightarrow> bool" where
  "is_git_http_auth_state s \<longleftrightarrow> (case s of None \<Rightarrow> False | Some d \<Rightarrow> dget d ''provider'' = Some (PStr GIT_HTTP_AUTH_PROVIDER))"

definition git_binding_ok :: "pydict \<Rightarrow> string \<Rightarrow> bool" where
  "git_binding_ok d repo_url \<longleftrightarrow> (case dget d ''repo_url'' of Some (PStr b) \<Rightarrow> strip is_space b = strip is_space repo_url | _ \<Rightarrow> False)"

datatype refresh_error = Refresh_Permanent | Refresh_Transient py_exc

record refreshed_token =
  rt_access_token :: string
  rt_refresh_token :: string
  rt_expires_in :: int

record exec_env =
  ev_connector_watch :: "pydict option \<Rightarrow> bool"
  ev_path_exists :: "string \<Rightarrow> py_exc + bool"
  ev_stat :: "string \<Rightarrow> py_exc + unit"
  ev_is_not_found :: "py_exc \<Rightarrow> bool"
  ev_utc_format :: "int \<Rightarrow> string"
  ev_utc_parse :: "string \<Rightarrow> int option"
  ev_refresh_token :: "pydict \<Rightarrow> refresh_error + refreshed_token"
  ev_git_config :: "pydict \<Rightarrow> string \<Rightarrow> py_exc + pydict"
  ev_restore :: "pydict \<Rightarrow> watch_task \<Rightarrow> py_exc + pydict"
  ev_refresh_resource :: "watch_task \<Rightarrow> pydict \<Rightarrow> py_exc + unit"

text \<open>\<open>ev_utc_parse\<close> is \<open>fromisoformat\<close> after \<open>Z\<close> is written as an offset, read as UTC when it has none.\<close>

definition parse_expires_at :: "exec_env \<Rightarrow> pyval \<Rightarrow> int option" where
  "parse_expires_at env v = (case v of PStr s \<Rightarrow> if strip is_space s = [] then None else ev_utc_parse env s | _ \<Rightarrow> None)"

definition feishu_auth_state_needs_refresh :: "exec_env \<Rightarrow> int \<Rightarrow> pydict \<Rightarrow> bool" where
  "feishu_auth_state_needs_refresh env now d =
     (case dget d ''expires_at'' of
        None \<Rightarrow> True
      | Some v \<Rightarrow> if \<not> truthy v then True
                  else case parse_expires_at env v of None \<Rightarrow> True | Some t \<Rightarrow> t \<le> now + FEISHU_REFRESH_SKEW)"

definition apply_feishu_refreshed_token :: "exec_env \<Rightarrow> int \<Rightarrow> pydict \<Rightarrow> refreshed_token \<Rightarrow> pydict" where
  "apply_feishu_refreshed_token env now d tk =
     dset (dset (dset (dset d ''provider'' (PStr FEISHU_AUTH_PROVIDER)) ''access_token'' (PStr (rt_access_token tk)))
       ''refresh_token'' (PStr (rt_refresh_token tk))) ''expires_at'' (PStr (ev_utc_format env (now + 1000000 * max 0 (rt_expires_in tk))))"

definition URL_SCHEMES :: "string list" where
  "URL_SCHEMES = [''http://'', ''https://'', ''git@'', ''ssh://'', ''git://'']"

definition check_resource_exists :: "exec_env \<Rightarrow> string \<Rightarrow> bool" where
  "check_resource_exists env path = (if list_ex (startswith path) URL_SCHEMES then True else ev_path_exists env path = Inr True)"

definition check_target_uri_exists :: "exec_env \<Rightarrow> bool \<Rightarrow> string \<Rightarrow> bool option" where
  "check_target_uri_exists env has_fs uri =
     (if \<not> has_fs then Some True
      else case ev_stat env uri of
        Inr _ \<Rightarrow> Some True
      | Inl e \<Rightarrow> if e = NotFoundError then Some False else if ev_is_not_found env e then Some False else None)"

text \<open>\<open>_prepare_feishu_auth_state\<close>: \<open>Inl\<close> when the token cannot be refreshed.\<close>

definition prepare_feishu_auth_state ::
  "iso_codec \<Rightarrow> 's watch_fs option \<Rightarrow> exec_env \<Rightarrow> int \<Rightarrow> watch_task \<Rightarrow> pydict \<Rightarrow> 's watch_state \<Rightarrow> 's watch_state \<times> (refresh_error + pydict)" where
  "prepare_feishu_auth_state c fso env now t d st =
     (if \<not> feishu_auth_state_needs_refresh env now d then (st, Inr d)
      else case ev_refresh_token env d of
        Inl e \<Rightarrow> (st, Inl e)
      | Inr tk \<Rightarrow>
          let d' = apply_feishu_refreshed_token env now d tk in
          (case update_auth_state c fso (wt_task_id t) (Some d') st of
             (st', Inl e) \<Rightarrow> (st', Inl (Refresh_Transient e))
           | (st', Inr _) \<Rightarrow> (st', Inr d')))"

text \<open>The body of the \<open>try\<close> of \<open>_execute_stable_task\<close>: an exception, or whether the task is to be deactivated.\<close>

definition execution_kwargs :: "watch_task \<Rightarrow> pydict" where
  "execution_kwargs t = dpop (dpop (wt_processor_kwargs t) ''build_index'') ''summarize''"

definition execute_body ::
  "iso_codec \<Rightarrow> 's watch_fs option \<Rightarrow> exec_env \<Rightarrow> int \<Rightarrow> watch_task \<Rightarrow> 's watch_state \<Rightarrow> 's watch_state \<times> (py_exc + bool)" where
  "execute_body c fso env now t st =
     (let auth = wt_auth_state t; connector = ev_connector_watch env auth in
      if \<not> connector \<and> \<not> check_resource_exists env (wt_path t) then (st, Inr True)
      else case UserIdentifier (wt_account_id t) (wt_user_id t) of
        Inl e \<Rightarrow> (st, Inl e)
      | Inr _ \<Rightarrow>
          if has_target t \<and> check_target_uri_exists env (fso \<noteq> None) (pick (wt_to_uri t) []) = Some False then (st, Inr True)
          else
            let run = (\<lambda>st kwargs. (st, map_sum id (\<lambda>_. False) (ev_refresh_resource env t kwargs))); kwargs = execution_kwargs t in
            case auth of
              None \<Rightarrow> run st kwargs
            | Some d \<Rightarrow>
                if is_feishu_auth_state auth then
                  (case prepare_feishu_auth_state c fso env now t d st of
                     (st', Inl Refresh_Permanent) \<Rightarrow> (st', Inr True)
                   | (st', Inl (Refresh_Transient e)) \<Rightarrow> (st', Inl e)
                   | (st', Inr d') \<Rightarrow>
                       (case dget d' ''access_token'' of
                          None \<Rightarrow> (st', Inl KeyError) | Some tok \<Rightarrow> run st' (dset kwargs ''feishu_access_token'' tok)))
                else if is_git_http_auth_state auth then
                  (if \<not> git_binding_ok d (wt_path t) then (st, Inl InvalidArgumentError)
                   else case ev_git_config env d (wt_path t) of
                     Inl e \<Rightarrow> (st, Inl e) | Inr cfg \<Rightarrow> run st (dset kwargs ''auth_config'' (PDict cfg)))
                else if connector then
                  (case ev_restore env d t of Inl e \<Rightarrow> (st, Inl e) | Inr args \<Rightarrow> run st (dupdate kwargs args))
                else run st kwargs)"

definition FileNotFoundError :: py_exc where "FileNotFoundError = OtherError ''FileNotFoundError''"

text \<open>The whole execution: what follows the \<open>try\<close> runs at \<open>later\<close>; errors of these updates are logged and dropped.\<close>

definition execute_stable_task ::
  "iso_codec \<Rightarrow> 's watch_fs option \<Rightarrow> exec_env \<Rightarrow> int \<Rightarrow> int \<Rightarrow> watch_task \<Rightarrow> 's watch_state \<Rightarrow> 's watch_state \<times> (py_exc + unit)" where
  "execute_stable_task c fso env now later t st =
     (case execute_body c fso env now t st of (st1, r) \<Rightarrow>
        if r = Inl CancelledError then (st1, Inl CancelledError)
        else if r = Inr True \<or> r = Inl FileNotFoundError
        then (fst (update_task_now c fso (wt_task_id t) (wt_account_id t) (wt_user_id t)
               (if wt_original_role t = [] then ''user'' else wt_original_role t) (no_update\<lparr>wu_is_active := Some False\<rparr>) st1), Inr ())
        else (fst (update_execution_time c fso later (wt_task_id t) st1), Inr ()))"

text \<open>\<open>_execute_task\<close>: the current task, if its target is still the one the lease names; \<open>None\<close> for another turn.\<close>

definition execute_task ::
  "iso_codec \<Rightarrow> 's watch_fs option \<Rightarrow> exec_env \<Rightarrow> int \<Rightarrow> int \<Rightarrow> watch_task \<Rightarrow> 's watch_state \<Rightarrow> 's watch_state \<times> (py_exc + unit) option" where
  "execute_task c fso env now later candidate st =
     (case dget (ws_tasks st) (wt_task_id candidate) of
        None \<Rightarrow> (st, Some (Inr ()))
      | Some t \<Rightarrow>
          if \<not> wm_check_permission t (wt_account_id candidate) (wt_user_id candidate)
               (if wt_original_role candidate = [] then ''user'' else wt_original_role candidate) then (st, Some (Inr ()))
          else if wt_account_id t \<noteq> wt_account_id candidate \<or> wt_to_uri t \<noteq> wt_to_uri candidate then (st, None)
          else map_prod id Some (execute_stable_task c fso env now later t st))"

text \<open>Tasks in execution: those that wait for the semaphore and those that run.\<close>

record exec_state =
  ex_executing :: "string list"
  ex_waiting :: "string list"
  ex_running :: "string list"

definition try_mark_executing :: "string \<Rightarrow> exec_state \<Rightarrow> exec_state \<times> bool" where
  "try_mark_executing i s =
     (if i \<in> set (ex_executing s) then (s, False)
      else (s\<lparr>ex_executing := i # ex_executing s, ex_waiting := i # ex_waiting s\<rparr>, True))"

definition discard_executing :: "string \<Rightarrow> exec_state \<Rightarrow> exec_state" where
  "discard_executing i s = s\<lparr>ex_executing := remove1 i (ex_executing s)\<rparr>"

inductive exec_step :: "nat \<Rightarrow> exec_state \<Rightarrow> exec_state \<Rightarrow> bool" for max_concurrency where
  exec_mark: "exec_step max_concurrency s (fst (try_mark_executing i s))"
| exec_enter: "i \<in> set (ex_waiting s) \<Longrightarrow> length (ex_running s) < max_concurrency
    \<Longrightarrow> exec_step max_concurrency s (s\<lparr>ex_waiting := remove1 i (ex_waiting s), ex_running := i # ex_running s\<rparr>)"
| exec_leave: "i \<in> set (ex_running s)
    \<Longrightarrow> exec_step max_concurrency s (discard_executing i (s\<lparr>ex_running := remove1 i (ex_running s)\<rparr>))"
| exec_cancel: "i \<in> set (ex_waiting s)
    \<Longrightarrow> exec_step max_concurrency s (discard_executing i (s\<lparr>ex_waiting := remove1 i (ex_waiting s)\<rparr>))"

definition idle :: "exec_state \<Rightarrow> bool" where
  "idle s \<longleftrightarrow> s = \<lparr>ex_executing = [], ex_waiting = [], ex_running = []\<rparr>"

definition exec_inv :: "nat \<Rightarrow> exec_state \<Rightarrow> bool" where
  "exec_inv m s \<longleftrightarrow> distinct (ex_waiting s @ ex_running s) \<and> distinct (ex_executing s)
     \<and> set (ex_executing s) = set (ex_waiting s @ ex_running s) \<and> length (ex_running s) \<le> m"

section \<open>Executions\<close>

interpretation ex: step_system idle "exec_step m" "exec_inv m" for m
proof unfold_locales
  show "exec_inv m s" if "idle s" for s using that by (simp add: idle_def exec_inv_def)
  show "exec_inv m s'" if "exec_inv m s" "exec_step m s s'" for s s'
    using that(2,1) by cases (auto simp: exec_inv_def try_mark_executing_def discard_executing_def length_remove1)
qed



lemma body_state:
  "execute_body c fso env now t st = (st1, r) \<Longrightarrow> st1 = st \<or> (\<exists>d. st1 = fst (update_auth_state c fso (wt_task_id t) (Some d) st))"
  unfolding execute_body_def prepare_feishu_auth_state_def Let_def
  by (auto split: if_splits sum.splits option.splits refresh_error.splits prod.splits) (metis fst_conv)+

lemma body_task:
  assumes "ws_ok st" "dget (ws_tasks st) i = Some t" "execute_body c fso env now t st = (st1, r)"
  shows "ws_ok st1 \<and> (\<exists>auth. dget (ws_tasks st1) i = Some (t\<lparr>wt_auth_state := auth\<rparr>))"
proof -
  have id: "wt_task_id t = i" using known_task [OF assms(1,2)] by simp
  from body_state [OF assms(3)] show ?thesis
  proof
    assume "st1 = st"
    then show ?thesis using assms(1,2) by (intro conjI exI [of _ "wt_auth_state t"]) simp_all
  next
    assume "\<exists>d. st1 = fst (update_auth_state c fso (wt_task_id t) (Some d) st)"
    then obtain d where d: "st1 = fst (update_auth_state c fso i (Some d) st)" using id by blast
    have "dget (ws_tasks st1) i = Some (t\<lparr>wt_auth_state := Some d\<rparr>)" using d assms(2) by (simp add: update_auth_state_def)
    then show ?thesis using auth_ok [OF assms(1)] d by blast
  qed
qed

lemma own_task_permitted: "wm_check_permission t (wt_account_id t) (wt_user_id t) role"
  by (simp add: wm_check_permission_def Let_def)

lemma deactivate_now:
  assumes "ws_ok st" "dget (ws_tasks st) i = Some t"
  shows "\<exists>t'. dget (ws_tasks (fst (update_task_now c fso i (wt_account_id t) (wt_user_id t) role (no_update\<lparr>wu_is_active := Some False\<rparr>) st))) i = Some t'
     \<and> \<not> wt_is_active t' \<and> wt_next_execution_time t' = None \<and> wt_to_uri t' = wt_to_uri t"
proof -
  let ?u = "no_update\<lparr>wu_is_active := Some False\<rparr>"
  obtain st' r where u: "update_task_now c fso i (wt_account_id t) (wt_user_id t) role ?u st = (st', r)" by fastforce
  have v: "update_valid ?u t" by (simp add: update_valid_def no_update_def)
  have n: "\<not> check_uri_conflict (ws_index st) (wu_to_uri ?u) (wt_account_id t) (Some (wt_task_id t))"
    by (simp add: check_uri_conflict_def no_update_def)
  obtain st1 r1 where s: "save_tasks c fso ((put_task (updated_task ?u t) st)\<lparr>ws_index := update_index ?u t (updated_task ?u t) (ws_index st)\<rparr>) = (st1, r1)"
    by fastforce
  have "st' = st1" using u assms(2) s valid_update [OF v n, of c fso] own_task_permitted by (simp add: update_task_now_def)
  then have "dget (ws_tasks st') i = Some (updated_task ?u t)"
    using save_keepsD [OF s] known_task [OF assms] by (simp add: put_task_def updated_fields)
  then show ?thesis using u by (simp add: watch_update_defs no_update_def)
qed

text \<open>Why a task is deactivated: its source is missing, its target is missing, or its token is refused for good.\<close>

lemma deactivation_reason:
  assumes "execute_body c fso env now t st = (st1, Inr True)"
  shows "\<not> ev_connector_watch env (wt_auth_state t) \<and> \<not> check_resource_exists env (wt_path t)
    \<or> has_target t \<and> check_target_uri_exists env (fso \<noteq> None) (pick (wt_to_uri t) []) = Some False
    \<or> (\<exists>d. wt_auth_state t = Some d \<and> is_feishu_auth_state (Some d) \<and> ev_refresh_token env d = Inl Refresh_Permanent)"
  using assms unfolding execute_body_def prepare_feishu_auth_state_def Let_def
  by (auto split: if_splits sum.splits option.splits refresh_error.splits prod.splits)


definition demo_env :: exec_env where
  "demo_env = \<lparr>ev_connector_watch = (\<lambda>_. False), ev_path_exists = (\<lambda>_. Inr False), ev_stat = (\<lambda>_. Inr ()), ev_is_not_found = (\<lambda>_. False),
     ev_utc_format = (\<lambda>_. []), ev_utc_parse = (\<lambda>_. None), ev_refresh_token = (\<lambda>_. Inl Refresh_Permanent), ev_git_config = (\<lambda>_ _. Inl ValueError),
     ev_restore = (\<lambda>_ _. Inl ValueError), ev_refresh_resource = (\<lambda>_ _. Inl RuntimeError)\<rparr>"


end
