(* ===== verification/User_Deletion.thy ===== *)
theory User_Deletion
  imports Watch_Scheduler Api_Key_Safety Task_Tracker
begin

text \<open>
  \<open>openviking/service/user_deletion.py\<close>: the deletion of one user over the key manager, the task tracker, the watch manager, the OAuth store
  and the deletion queue.

  The state holds the states of these components; the parameter \<open>du_env\<close> holds their stores, the queue, the vector store, the
  file system and the usage log. The queue holds messages; one is enqueued and a snapshot lists those not yet acknowledged. Waiting
  for cancelled tasks is the parameter \<open>de_settle\<close>, in which their workers finish. All times read in one call are equal.
\<close>

section \<open>Definitions\<close>

type_synonym ('s, 'a) act = "'s \<Rightarrow> 's \<times> (py_exc + 'a)"

definition sbind :: "('s, 'a) act \<Rightarrow> ('a \<Rightarrow> ('s, 'b) act) \<Rightarrow> ('s, 'b) act" where
  "sbind m f s = (case m s of (s', Inl e) \<Rightarrow> (s', Inl e) | (s', Inr x) \<Rightarrow> f x s')"

definition ret :: "'a \<Rightarrow> ('s, 'a) act" where "ret x s = (s, Inr x)"
definition raise :: "py_exc \<Rightarrow> ('s, 'a) act" where "raise e s = (s, Inl e)"

text \<open>An \<open>except Exception\<close>: the exception as a value.\<close>

definition attempt :: "('s, 'a) act \<Rightarrow> ('s, py_exc + 'a) act" where
  "attempt m s = (case m s of (s', r) \<Rightarrow> (s', Inr r))"

record ('k, 't, 'w, 'q, 'x) du_state =
  du_keys :: "'k key_state"
  du_tasks :: "'t tracker"
  du_watch :: "'w watch_state"
  du_oauth :: oauth_store
  du_queue :: 'q
  du_files :: 'x

record ('k, 't, 'w, 'q, 'x) du_env =
  de_key_fs :: "'k key_fs"
  de_store :: "'t task_store"
  de_codec :: iso_codec
  de_watch_fs :: "'w watch_fs option"
  de_has_watch :: bool
  de_has_oauth :: bool
  de_json :: "string \<Rightarrow> pyval option"
  de_snapshot :: "'q \<Rightarrow> py_exc + pyval list"
  de_enqueue :: "'q \<Rightarrow> pydict \<Rightarrow> 'q \<times> (py_exc + unit)"
  de_settle :: "string list \<Rightarrow> 't tracker \<Rightarrow> 't tracker \<times> (py_exc + unit)"
  de_vector :: "('x \<Rightarrow> string \<Rightarrow> string \<Rightarrow> 'x \<times> (py_exc + unit)) option"
  de_usage :: "('x \<Rightarrow> string \<Rightarrow> string \<Rightarrow> 'x \<times> (py_exc + unit)) option"
  de_rm :: "'x \<Rightarrow> string \<Rightarrow> request_context \<Rightarrow> 'x \<times> (py_exc + unit)"
  de_ls :: "'x \<Rightarrow> string \<Rightarrow> request_context \<Rightarrow> py_exc + pydict list"
  de_meta :: "'x \<Rightarrow> string \<Rightarrow> request_context \<Rightarrow> py_exc + pydict"

definition on_tasks :: "('t tracker \<Rightarrow> 't tracker \<times> (py_exc + 'a)) \<Rightarrow> (('k, 't, 'w, 'q, 'x) du_state, 'a) act" where
  "on_tasks f s = (case f (du_tasks s) of (w, r) \<Rightarrow> (s\<lparr>du_tasks := w\<rparr>, r))"

definition on_keys :: "('k key_state \<Rightarrow> 'k key_state \<times> (py_exc + 'a)) \<Rightarrow> (('k, 't, 'w, 'q, 'x) du_state, 'a) act" where
  "on_keys f s = (case f (du_keys s) of (k, r) \<Rightarrow> (s\<lparr>du_keys := k\<rparr>, r))"

definition on_watch :: "('w watch_state \<Rightarrow> 'w watch_state \<times> (py_exc + 'a)) \<Rightarrow> (('k, 't, 'w, 'q, 'x) du_state, 'a) act" where
  "on_watch f s = (case f (du_watch s) of (w, r) \<Rightarrow> (s\<lparr>du_watch := w\<rparr>, r))"

definition on_files :: "('x \<Rightarrow> 'x \<times> (py_exc + 'a)) \<Rightarrow> (('k, 't, 'w, 'q, 'x) du_state, 'a) act" where
  "on_files f s = (case f (du_files s) of (x, r) \<Rightarrow> (s\<lparr>du_files := x\<rparr>, r))"

definition DELETE_TASK_TYPE :: string where "DELETE_TASK_TYPE = ''user_delete''"
definition SYSTEM_TASK_USER_ID :: string where "SYSTEM_TASK_USER_ID = ''root''"
definition SHARED_UPLOAD_ROOT :: string where "SHARED_UPLOAD_ROOT = ''viking://upload''"

definition deletion_message :: "string \<Rightarrow> string \<Rightarrow> string \<Rightarrow> string \<Rightarrow> string \<Rightarrow> pydict" where
  "deletion_message task_id owner_account owner_user a u =
     [(''task_id'', PStr task_id), (''account_id'', PStr owner_account), (''user_id'', PStr owner_user),
      (''target'', PDict [(''account_id'', PStr a), (''user_id'', PStr u)])]"

definition queued_task_ids :: "('k, 't, 'w, 'q, 'x) du_env \<Rightarrow> (('k, 't, 'w, 'q, 'x) du_state, string list) act" where
  "queued_task_ids env s =
     (s, map_sum id (\<lambda>ms. List.map_filter (\<lambda>m. map_option qm_task_id (extract_task_metadata (de_json env) m)) ms) (de_snapshot env (du_queue s)))"

definition enqueue_message :: "('k, 't, 'w, 'q, 'x) du_env \<Rightarrow> pydict \<Rightarrow> (('k, 't, 'w, 'q, 'x) du_state, unit) act" where
  "enqueue_message env m s = (case de_enqueue env (du_queue s) m of (q, r) \<Rightarrow> (s\<lparr>du_queue := q\<rparr>, r))"

definition enqueue_if_missing ::
  "('k, 't, 'w, 'q, 'x) du_env \<Rightarrow> string \<Rightarrow> string \<Rightarrow> string \<Rightarrow> string \<Rightarrow> string \<Rightarrow> (('k, 't, 'w, 'q, 'x) du_state, unit) act" where
  "enqueue_if_missing env task_id owner_account owner_user a u =
     sbind (queued_task_ids env) (\<lambda>ids.
       if task_id \<in> set ids then ret () else enqueue_message env (deletion_message task_id owner_account owner_user a u))"

definition create_deletion_task ::
  "('k, 't, 'w, 'q, 'x) du_env \<Rightarrow> int \<Rightarrow> string \<Rightarrow> string \<Rightarrow> string \<Rightarrow> string \<Rightarrow> string \<Rightarrow> (('k, 't, 'w, 'q, 'x) du_state, task_record) act" where
  "create_deletion_task env now task_id owner_account owner_user a u =
     on_tasks (\<lambda>w. create (de_store env) w now now task_id DELETE_TASK_TYPE (Some (a @ ''/'' @ u)) owner_account owner_user (Some task_id) [] [])"

text \<open>\<open>delete_user\<close>. \<open>id1\<close> and \<open>id2\<close> are the identifiers it generates.\<close>

definition request_owner :: "request_context \<Rightarrow> string \<Rightarrow> string \<Rightarrow> string \<times> string" where
  "request_owner actor a u =
     (if rc_role actor = Role_ROOT \<or> (rc_account_id actor = a \<and> rc_user_id actor = u) then (SYSTEM_TASK_ACCOUNT_ID, SYSTEM_TASK_USER_ID)
      else (rc_account_id actor, rc_user_id actor))"

definition ensure_deletion ::
  "('k, 't, 'w, 'q, 'x) du_env \<Rightarrow> int \<Rightarrow> string \<Rightarrow> string \<Rightarrow> string \<times> string \<Rightarrow> string \<Rightarrow> string \<Rightarrow> (('k, 't, 'w, 'q, 'x) du_state, pydict) act" where
  "ensure_deletion env now id1 id2 owner a u =
     sbind (on_keys (begin_user_deletion (de_key_fs env) a u id1 (fst owner) (snd owner))) (\<lambda>(deletion, created).
       if created then ret deletion
       else
         sbind (on_tasks (\<lambda>w. get_task (de_store env) w now (get_str deletion ''task_id'') (Some (get_str deletion ''owner_account_id''))
           (Some (get_str deletion ''owner_user_id'')))) (\<lambda>existing.
           case existing of
             None \<Rightarrow> ret deletion
           | Some t \<Rightarrow>
               if \<not> terminal_status (t_status t) then ret deletion
               else sbind (on_keys (replace_user_deletion_task (de_key_fs env) a u (get_str deletion ''task_id'') id2 (fst owner) (snd owner)))
                      (\<lambda>d. if d = [] then raise NotFoundError else ret d)))"

definition delete_user ::
  "('k, 't, 'w, 'q, 'x) du_env \<Rightarrow> int \<Rightarrow> string \<Rightarrow> string \<Rightarrow> request_context \<Rightarrow> string \<Rightarrow> string \<Rightarrow> (('k, 't, 'w, 'q, 'x) du_state, string) act" where
  "delete_user env now id1 id2 actor a u =
     sbind (ensure_deletion env now id1 id2 (request_owner actor a u) a u) (\<lambda>deletion.
       let task_id = get_str deletion ''task_id''; oa = get_str deletion ''owner_account_id''; ou = get_str deletion ''owner_user_id'' in
       sbind (create_deletion_task env now task_id oa ou a u) (\<lambda>_.
       sbind (enqueue_if_missing env task_id oa ou a u) (\<lambda>_. ret task_id)))"

text \<open>\<open>initialize\<close>: the deletions in progress are taken up again.\<close>

fun resume_deletions ::
  "('k, 't, 'w, 'q, 'x) du_env \<Rightarrow> int \<Rightarrow> (string \<times> string \<times> pydict) list \<Rightarrow> string list \<Rightarrow> (('k, 't, 'w, 'q, 'x) du_state, unit) act" where
  "resume_deletions env now [] queued = ret ()"
| "resume_deletions env now ((a, u, d) # ds) queued =
     (let task_id = get_str d ''task_id''; oa = get_str d ''owner_account_id''; ou = get_str d ''owner_user_id'' in
      if task_id = [] \<or> oa = [] \<or> ou = [] then resume_deletions env now ds queued
      else
        sbind (on_tasks (\<lambda>w. get_task (de_store env) w now task_id (Some oa) (Some ou))) (\<lambda>found.
        sbind (case found of Some t \<Rightarrow> ret t | None \<Rightarrow> create_deletion_task env now task_id oa ou a u) (\<lambda>t.
          if idle_running (t_status t) \<and> task_id \<notin> set queued
          then sbind (enqueue_message env (deletion_message task_id oa ou a u)) (\<lambda>_. resume_deletions env now ds (task_id # queued))
          else resume_deletions env now ds queued)))"

definition initialize_deletions :: "('k, 't, 'w, 'q, 'x) du_env \<Rightarrow> int \<Rightarrow> (('k, 't, 'w, 'q, 'x) du_state, unit) act" where
  "initialize_deletions env now =
     sbind (queued_task_ids env) (\<lambda>queued. \<lambda>s. resume_deletions env now (iter_user_deletions (du_keys s)) queued s)"

text \<open>The steps of \<open>_process\<close>.\<close>

fun delete_watches ::
  "('k, 't, 'w, 'q, 'x) du_env \<Rightarrow> string \<Rightarrow> string \<Rightarrow> string list \<Rightarrow> (('k, 't, 'w, 'q, 'x) du_state, unit) act" where
  "delete_watches env a u [] = ret ()"
| "delete_watches env a u (i # is) =
     sbind (on_watch (delete_task_now (de_codec env) (de_watch_fs env) i a u ''user'')) (\<lambda>_. delete_watches env a u is)"

definition stop_watches :: "('k, 't, 'w, 'q, 'x) du_env \<Rightarrow> string \<Rightarrow> string \<Rightarrow> (('k, 't, 'w, 'q, 'x) du_state, unit) act" where
  "stop_watches env a u s =
     (if \<not> de_has_watch env then (s, Inr ())
      else delete_watches env a u (map wt_task_id (get_all_tasks a u ''user'' False (du_watch s))) s)"

text \<open>Cancelling: the tasks to wait for and the tasks that cannot be cancelled.\<close>

fun cancel_all ::
  "('k, 't, 'w, 'q, 'x) du_env \<Rightarrow> int \<Rightarrow> string \<Rightarrow> string \<Rightarrow> string list \<Rightarrow> (('k, 't, 'w, 'q, 'x) du_state, string list \<times> string list) act" where
  "cancel_all env now a u [] = ret ([], [])"
| "cancel_all env now a u (i # is) =
     sbind (attempt (on_tasks (\<lambda>w. case cancel (de_store env) w now now i (Some a) (Some u) of (w', _, r) \<Rightarrow> (w', r)))) (\<lambda>r.
       case r of
         Inr _ \<Rightarrow> sbind (cancel_all env now a u is) (\<lambda>(waiting, blockers). ret (i # waiting, blockers))
       | Inl e \<Rightarrow>
           if \<not> is_ValueError e then raise e
           else sbind (on_tasks (\<lambda>w. get_task (de_store env) w now i (Some a) (Some u))) (\<lambda>current.
             sbind (cancel_all env now a u is) (\<lambda>(waiting, blockers).
               ret (waiting, (case current of Some t \<Rightarrow> if active_status (t_status t) then [t_task_id t] else [] | None \<Rightarrow> []) @ blockers))))"

definition cancel_user_tasks :: "('k, 't, 'w, 'q, 'x) du_env \<Rightarrow> int \<Rightarrow> string \<Rightarrow> string \<Rightarrow> (('k, 't, 'w, 'q, 'x) du_state, unit) act" where
  "cancel_user_tasks env now a u =
     sbind (on_tasks (\<lambda>w. list_tasks (de_store env) w now None None None 10000 (Some a) (Some u) False)) (\<lambda>tasks.
     sbind (cancel_all env now a u (map t_task_id (filter (\<lambda>t. active_status (t_status t)) tasks))) (\<lambda>(waiting, blockers).
       if blockers \<noteq> [] then raise RuntimeError else on_tasks (de_settle env waiting)))"

definition upload_of :: "pydict \<Rightarrow> string option" where
  "upload_of d =
     (let uri = rstrip is_slash (get_str d ''uri'') in
      if uri = [] \<or> uri = SHARED_UPLOAD_ROOT then None
      else let upload_id = (if startswith uri (SHARED_UPLOAD_ROOT @ ''/'') then drop (length SHARED_UPLOAD_ROOT + 1) uri else uri)
        in if \<not> truthy (case dget d ''isDir'' of None \<Rightarrow> PNone | Some v \<Rightarrow> v) \<or> \<not> startswith uri (SHARED_UPLOAD_ROOT @ ''/'')
             \<or> upload_id = [] \<or> CHR ''/'' \<in> set upload_id then None else Some uri)"

fun delete_uploads_of :: "('k, 't, 'w, 'q, 'x) du_env \<Rightarrow> request_context \<Rightarrow> pydict list \<Rightarrow> 'x \<Rightarrow> 'x \<times> (py_exc + unit)" where
  "delete_uploads_of env ctx [] x = (x, Inr ())"
| "delete_uploads_of env ctx (d # ds) x =
     (case upload_of d of
        None \<Rightarrow> delete_uploads_of env ctx ds x
      | Some uri \<Rightarrow>
          (case de_meta env x (uri @ ''/meta'') ctx of
             Inl _ \<Rightarrow> delete_uploads_of env ctx ds x
           | Inr meta \<Rightarrow>
               if dget meta ''account'' = Some (PStr (rc_account_id ctx)) \<and> dget meta ''user'' = Some (PStr (rc_user_id ctx))
               then (case de_rm env x uri ctx of (x', Inl e) \<Rightarrow> (x', Inl e) | (x', Inr _) \<Rightarrow> delete_uploads_of env ctx ds x')
               else delete_uploads_of env ctx ds x))"

definition delete_uploads :: "('k, 't, 'w, 'q, 'x) du_env \<Rightarrow> request_context \<Rightarrow> 'x \<Rightarrow> 'x \<times> (py_exc + unit)" where
  "delete_uploads env ctx x =
     (case de_ls env x SHARED_UPLOAD_ROOT ctx of
        Inl e \<Rightarrow> (x, if e = NotFoundError then Inr () else Inl e)
      | Inr uploads \<Rightarrow> delete_uploads_of env ctx uploads x)"

definition cleanup_ctx :: "string \<Rightarrow> string \<Rightarrow> py_exc + request_context" where
  "cleanup_ctx a u = map_sum id (\<lambda>user. \<lparr>rc_user = user, rc_role = Role_ROOT, rc_group_ids = [], rc_actor_peer_id = None, rc_from_oauth = False,
     rc_api_key = None, rc_bypass_acl = False\<rparr>) (UserIdentifier a u)"

definition cleanup_steps ::
  "('k, 't, 'w, 'q, 'x) du_env \<Rightarrow> int \<Rightarrow> request_context \<Rightarrow> string \<Rightarrow> string \<Rightarrow> (string \<times> (('k, 't, 'w, 'q, 'x) du_state, unit) act) list" where
  "cleanup_steps env now ctx a u =
     [(''task_records'', on_tasks (\<lambda>w. map_prod id (map_sum id (\<lambda>_. ())) (delete_user_tasks (de_store env) w now a u)))]
     @ (case de_vector env of None \<Rightarrow> [] | Some f \<Rightarrow> [(''vectordb'', on_files (\<lambda>x. f x a u))])
     @ [(''agfs'', on_files (\<lambda>x. de_rm env x (canonical_user_root ctx) ctx)), (''uploads'', on_files (delete_uploads env ctx))]
     @ (if de_has_oauth env then [(''oauth'', \<lambda>s. (s\<lparr>du_oauth := fst (revoke_user_tokens (du_oauth s) a u)\<rparr>, Inr ()))] else [])
     @ (case de_usage env of None \<Rightarrow> [] | Some f \<Rightarrow> [(''usage_audit'', on_files (\<lambda>x. f x a u))])"

fun run_steps ::
  "(string \<Rightarrow> ('s, unit) act) \<Rightarrow> (string \<times> ('s, unit) act) list \<Rightarrow> ('s, string list) act" where
  "run_steps stage [] = ret []"
| "run_steps stage ((name, step) # rest) =
     sbind (stage (''cleaning_'' @ name)) (\<lambda>_.
     sbind (attempt step) (\<lambda>r.
     sbind (run_steps stage rest) (\<lambda>failed. ret (if isl r then name # failed else failed))))"

text \<open>The result of \<open>_process\<close> is the stages that failed, empty when the message is done with. The last part removes the registry
  entry, the part before it cleans up, the first part decides whether the message is current.\<close>

definition set_stage :: "('k, 't, 'w, 'q, 'x) du_env \<Rightarrow> int \<Rightarrow> string \<Rightarrow> string \<Rightarrow> string \<Rightarrow> string \<Rightarrow> (('k, 't, 'w, 'q, 'x) du_state, unit) act" where
  "set_stage env now task_id oa ou name = on_tasks (\<lambda>w. update_stage (de_store env) w now task_id name (Some oa) (Some ou))"

definition finish_task :: "('k, 't, 'w, 'q, 'x) du_env \<Rightarrow> int \<Rightarrow> string \<Rightarrow> string \<Rightarrow> string \<Rightarrow> pydict \<Rightarrow> (('k, 't, 'w, 'q, 'x) du_state, string list) act" where
  "finish_task env now task_id oa ou result =
     sbind (on_tasks (\<lambda>w. complete (de_store env) w now now task_id result (Some oa) (Some ou) None)) (\<lambda>_. ret [])"

definition fail_task :: "('k, 't, 'w, 'q, 'x) du_env \<Rightarrow> int \<Rightarrow> string \<Rightarrow> string \<Rightarrow> string \<Rightarrow> string list \<Rightarrow> (('k, 't, 'w, 'q, 'x) du_state, string list) act" where
  "fail_task env now task_id oa ou stages =
     sbind (on_tasks (\<lambda>w. fail (de_store env) w now now task_id (''User cleanup failed at stages: '' @ join '', '' stages) (Some oa) (Some ou)))
       (\<lambda>_. ret stages)"

definition remove_entry ::
  "('k, 't, 'w, 'q, 'x) du_env \<Rightarrow> int \<Rightarrow> string \<Rightarrow> string \<Rightarrow> string \<Rightarrow> string \<Rightarrow> string \<Rightarrow> (('k, 't, 'w, 'q, 'x) du_state, string list) act" where
  "remove_entry env now task_id oa ou a u =
     sbind (set_stage env now task_id oa ou ''removing_user'') (\<lambda>_.
     sbind (attempt (on_keys (finish_user_deletion (de_key_fs env) a u task_id))) (\<lambda>r.
       case r of
         Inl _ \<Rightarrow> fail_task env now task_id oa ou [''registry'']
       | Inr removed \<Rightarrow> finish_task env now task_id oa ou [(''deleted'', PBool removed), (''stale'', PBool (\<not> removed))]))"

definition clean_user ::
  "('k, 't, 'w, 'q, 'x) du_env \<Rightarrow> int \<Rightarrow> string \<Rightarrow> string \<Rightarrow> string \<Rightarrow> string \<Rightarrow> string \<Rightarrow> (('k, 't, 'w, 'q, 'x) du_state, string list) act" where
  "clean_user env now task_id oa ou a u =
     sbind (attempt (sbind (on_tasks (\<lambda>w. start (de_store env) w now task_id (Some oa) (Some ou) (Some ''stopping_watches'')))
       (\<lambda>_. stop_watches env a u))) (\<lambda>r1.
     if isl r1 then fail_task env now task_id oa ou [''watches'']
     else sbind (attempt (sbind (set_stage env now task_id oa ou ''cancelling_tasks'') (\<lambda>_. cancel_user_tasks env now a u))) (\<lambda>r2.
     if isl r2 then fail_task env now task_id oa ou [''tasks'']
     else (case cleanup_ctx a u of
         Inl e \<Rightarrow> raise e
       | Inr ctx \<Rightarrow>
           sbind (run_steps (set_stage env now task_id oa ou) (cleanup_steps env now ctx a u)) (\<lambda>stages.
             if stages \<noteq> [] then fail_task env now task_id oa ou stages else remove_entry env now task_id oa ou a u))))"

definition deletion_current :: "'k key_state \<Rightarrow> string \<Rightarrow> string \<Rightarrow> string \<Rightarrow> bool" where
  "deletion_current k a u task_id \<longleftrightarrow> (case get_user_deletion k a u of None \<Rightarrow> False | Some d \<Rightarrow> dget d ''task_id'' = Some (PStr task_id))"

definition process_deletion ::
  "('k, 't, 'w, 'q, 'x) du_env \<Rightarrow> int \<Rightarrow> string \<Rightarrow> string \<Rightarrow> string \<Rightarrow> string \<Rightarrow> string \<Rightarrow> (('k, 't, 'w, 'q, 'x) du_state, string list) act" where
  "process_deletion env now task_id oa ou a u =
     sbind (create_deletion_task env now task_id oa ou a u) (\<lambda>task s.
       if terminal_status (t_status task) then (s, Inr [])
       else if \<not> deletion_current (du_keys s) a u task_id
       then finish_task env now task_id oa ou [(''deleted'', PBool (\<not> has_user (du_keys s) a u)), (''stale'', PBool True)] s
       else clean_user env now task_id oa ou a u s)"

text \<open>Messages of the queue.\<close>

definition parse_deletion_message :: "(string \<Rightarrow> pyval option) \<Rightarrow> pydict \<Rightarrow> py_exc + (string \<times> string \<times> string \<times> string \<times> string)" where
  "parse_deletion_message json data =
     (let payload = (case dget data ''data'' of None \<Rightarrow> PDict data | Some v \<Rightarrow> v) in
      ebind (case payload of PStr s \<Rightarrow> (case json s of None \<Rightarrow> Inl ValueError | Some v \<Rightarrow> Inr v) | _ \<Rightarrow> Inr payload) (\<lambda>payload.
      case payload of
        PDict p \<Rightarrow>
          (case dget p ''target'' of
             Some (PDict t) \<Rightarrow>
               if list_ex (\<lambda>k. \<not> truthy (dval p k)) [''task_id'', ''account_id'', ''user_id''] then Inl ValueError
               else if \<not> truthy (dval t ''account_id'') \<or> \<not> truthy (dval t ''user_id'') then Inl ValueError
               else Inr (py_str (dval p ''task_id''), py_str (dval p ''account_id''), py_str (dval p ''user_id''),
                         py_str (dval t ''account_id''), py_str (dval t ''user_id''))
           | _ \<Rightarrow> Inl ValueError)
      | _ \<Rightarrow> Inl ValueError))"

text \<open>\<open>on_dequeue\<close> of the queue's handler; the result says what it reports: nothing, an error or success.\<close>

datatype deletion_report = Unreported | ReportedError | ReportedSuccess

definition deletion_on_dequeue ::
  "('k, 't, 'w, 'q, 'x) du_env \<Rightarrow> int \<Rightarrow> pydict option \<Rightarrow> (('k, 't, 'w, 'q, 'x) du_state, deletion_report) act" where
  "deletion_on_dequeue env now data =
     (case data of
        None \<Rightarrow> ret Unreported
      | Some d \<Rightarrow>
          if d = [] then ret Unreported
          else (case parse_deletion_message (de_json env) d of
              Inl _ \<Rightarrow> ret ReportedError
            | Inr (task_id, oa, ou, a, u) \<Rightarrow>
                sbind (process_deletion env now task_id oa ou a u) (\<lambda>stages.
                  ret (if stages = [] then ReportedSuccess else ReportedError))))"

end
