(* ===== verification/User_Deletion_Safety.thy ===== *)
theory User_Deletion_Safety
  imports User_Deletion
begin

text \<open>
  Properties of user deletion: a request fences and queues, a registry entry is removed only after all data is, and a failed or stale run
  leaves the fence.
\<close>

section \<open>What an action leaves alone\<close>

text \<open>The interface of the proofs below: a part of the state that a kind of action does not change.\<close>

definition keeps :: "('s \<Rightarrow> 'p) \<Rightarrow> ('s, 'a) act \<Rightarrow> bool" where
  "keeps part m \<longleftrightarrow> (\<forall>s. part (fst (m s)) = part s)"

lemma keepsD: "keeps part m \<Longrightarrow> m s = (s', r) \<Longrightarrow> part s' = part s"
  unfolding keeps_def by (metis fst_conv)

lemma sbind_Inr: "sbind m f s = (s', Inr y) \<longleftrightarrow> (\<exists>s1 x. m s = (s1, Inr x) \<and> f x s1 = (s', Inr y))"
  by (auto simp: sbind_def split: prod.splits sum.splits)

lemma attempt_eq: "attempt m s = (s', r) \<longleftrightarrow> (\<exists>r'. m s = (s', r') \<and> r = Inr r')"
  by (auto simp: attempt_def split: prod.splits)

lemma ret_eq [simp]: "ret x s = (s', r) \<longleftrightarrow> s' = s \<and> r = Inr x"
  by (auto simp: ret_def)

lemma raise_eq [simp]: "raise e s = (s', r) \<longleftrightarrow> s' = s \<and> r = Inl e"
  by (auto simp: raise_def)

named_theorems keeps_rules

lemma keeps_sbind [keeps_rules]: "keeps part m \<Longrightarrow> (\<And>x. keeps part (f x)) \<Longrightarrow> keeps part (sbind m f)"
  by (auto simp: keeps_def sbind_def split: prod.split sum.split) (metis fst_conv)+

lemma keeps_ret [keeps_rules]: "keeps part (ret x)"
  by (simp add: keeps_def ret_def)

lemma keeps_raise [keeps_rules]: "keeps part (raise e)"
  by (simp add: keeps_def raise_def)

lemma keeps_attempt [keeps_rules]: "keeps part m \<Longrightarrow> keeps part (attempt m)"
  by (auto simp: keeps_def attempt_def split: prod.split) (metis fst_conv)

lemma keeps_on_tasks [keeps_rules]:
  "keeps du_keys (on_tasks f)" "keeps du_watch (on_tasks f)" "keeps du_oauth (on_tasks f)" "keeps du_files (on_tasks f)" "keeps du_queue (on_tasks f)"
  by (simp_all add: keeps_def on_tasks_def case_prod_unfold)

lemma keeps_on_watch [keeps_rules]: "keeps du_keys (on_watch f)" "keeps du_oauth (on_watch f)" "keeps du_files (on_watch f)"
  by (simp_all add: keeps_def on_watch_def case_prod_unfold)

lemma keeps_on_files [keeps_rules]: "keeps du_keys (on_files f)" "keeps du_watch (on_files f)" "keeps du_oauth (on_files f)"
  by (simp_all add: keeps_def on_files_def case_prod_unfold)

lemma keeps_on_keys [keeps_rules]: "keeps du_watch (on_keys f)" "keeps du_oauth (on_keys f)" "keeps du_files (on_keys f)" "keeps du_queue (on_keys f)"
  by (simp_all add: keeps_def on_keys_def case_prod_unfold)

lemma keeps_queue [keeps_rules]: "keeps du_keys (queued_task_ids env)" "keeps du_keys (enqueue_message env m)"
  by (simp_all add: keeps_def queued_task_ids_def enqueue_message_def case_prod_unfold)

lemma keeps_tasks [keeps_rules]:
  "keeps du_keys (create_deletion_task env now i oa ou a u)" "keeps du_watch (create_deletion_task env now i oa ou a u)"
  "keeps du_oauth (create_deletion_task env now i oa ou a u)" "keeps du_files (create_deletion_task env now i oa ou a u)"
  "keeps du_keys (set_stage env now i oa ou n)" "keeps du_watch (set_stage env now i oa ou n)" "keeps du_oauth (set_stage env now i oa ou n)"
  "keeps du_keys (finish_task env now i oa ou res)" "keeps du_watch (finish_task env now i oa ou res)"
  "keeps du_oauth (finish_task env now i oa ou res)" "keeps du_files (finish_task env now i oa ou res)"
  "keeps du_keys (fail_task env now i oa ou st)"
  by (simp_all add: create_deletion_task_def set_stage_def finish_task_def fail_task_def keeps_rules)

lemma keeps_cancel_all [keeps_rules]:
  "keeps du_keys (cancel_all env now a u is)" "keeps du_watch (cancel_all env now a u is)" "keeps du_oauth (cancel_all env now a u is)"
  by (induction "is") (auto intro!: keeps_rules split: sum.split)

lemma keeps_cancel [keeps_rules]:
  "keeps du_keys (cancel_user_tasks env now a u)" "keeps du_watch (cancel_user_tasks env now a u)" "keeps du_oauth (cancel_user_tasks env now a u)"
  unfolding cancel_user_tasks_def by (auto intro!: keeps_rules)

lemma keeps_delete_watches [keeps_rules]: "keeps du_keys (delete_watches env a u is)" "keeps du_oauth (delete_watches env a u is)"
  by (induction "is") (auto intro!: keeps_rules)

lemma keeps_stop_watches [keeps_rules]: "keeps du_keys (stop_watches env a u)" "keeps du_oauth (stop_watches env a u)"
  using keeps_delete_watches [of env a u] by (auto simp: keeps_def stop_watches_def)

lemma keeps_set_oauth [keeps_rules]: "keeps du_keys (\<lambda>s. (s\<lparr>du_oauth := f s\<rparr>, r))" "keeps du_watch (\<lambda>s. (s\<lparr>du_oauth := f s\<rparr>, r))"
  by (simp_all add: keeps_def)

lemma keeps_run_steps:
  assumes "\<And>n. keeps part (stage n)" "\<forall>(n, m) \<in> set steps. keeps part m"
  shows "keeps part (run_steps stage steps)"
  using assms(2)
proof (induction steps)
  case (Cons p steps)
  then show ?case using assms(1) by (cases p) (auto intro!: keeps_rules)
qed (simp add: keeps_rules)

lemma cleanup_keeps:
  "\<forall>(n, m) \<in> set (cleanup_steps env now ctx a u). keeps du_keys m" "\<forall>(n, m) \<in> set (cleanup_steps env now ctx a u). keeps du_watch m"
  unfolding cleanup_steps_def by (auto intro!: keeps_rules split: option.splits if_splits)

section \<open>Cleaning up\<close>

lemma run_steps_append:
  "run_steps stage (xs @ ys) s = (s', Inr []) \<Longrightarrow> \<exists>s1. run_steps stage xs s = (s1, Inr []) \<and> run_steps stage ys s1 = (s', Inr [])"
proof (induction xs arbitrary: s)
  case (Cons p xs)
  obtain n m where p: "p = (n, m)" by (cases p)
  obtain s1 s2 r where 1: "stage (''cleaning_'' @ n) s = (s1, Inr ())" "attempt m s1 = (s2, Inr r)" "run_steps stage (xs @ ys) s2 = (s', Inr [])" "\<not> isl r"
    using Cons.prems p by (auto simp: sbind_Inr split: if_splits)
  then obtain s3 where 2: "run_steps stage xs s2 = (s3, Inr [])" "run_steps stage ys s3 = (s', Inr [])" using Cons.IH by blast
  have "run_steps stage (p # xs) s = (s3, Inr [])" using 1 2 p by (auto simp: sbind_Inr)
  then show ?case using 2 by blast
qed simp

lemma run_steps_ok:
  "run_steps stage steps s = (s', Inr []) \<Longrightarrow> (n, m) \<in> set steps \<Longrightarrow> \<exists>s1 s2. m s1 = (s2, Inr ())"
proof (induction steps arbitrary: s)
  case (Cons p steps)
  obtain n' m' where p: "p = (n', m')" by (cases p)
  obtain s1 s2 r where 1: "attempt m' s1 = (s2, Inr r)" "run_steps stage steps s2 = (s', Inr [])" "\<not> isl r"
    using Cons.prems(1) p by (auto simp: sbind_Inr split: if_splits)
  have "\<exists>s1 s2. m' s1 = (s2, Inr ())" using 1(1,3) by (auto simp: attempt_eq isl_def) (metis (full_types) old.sum.exhaust old.unit.exhaust)
  then show ?case using Cons.IH 1(2) Cons.prems(2) p by auto
qed simp

lemma cleanup_oauth:
  fixes env :: "('k, 't, 'w, 'q, 'x) du_env"
  assumes "run_steps (set_stage env now i oa ou) (cleanup_steps env now ctx a u) s = (s', Inr [])" "de_has_oauth env"
  shows "du_oauth s' = fst (revoke_user_tokens (du_oauth s) a u)"
proof -
  let ?stage = "set_stage env now i oa ou"
  let ?oauth = "(''oauth'', \<lambda>s. (s\<lparr>du_oauth := fst (revoke_user_tokens (du_oauth s) a u)\<rparr>, Inr ()))"
  define xs :: "(string \<times> (('k, 't, 'w, 'q, 'x) du_state, unit) act) list" where "xs =
     [(''task_records'', on_tasks (\<lambda>w. map_prod id (map_sum id (\<lambda>_. ())) (delete_user_tasks (de_store env) w now a u)))]
     @ (case de_vector env of None \<Rightarrow> [] | Some f \<Rightarrow> [(''vectordb'', on_files (\<lambda>x. f x a u))])
     @ [(''agfs'', on_files (\<lambda>x. de_rm env x (canonical_user_root ctx) ctx)), (''uploads'', on_files (delete_uploads env ctx))]"
  define ys :: "(string \<times> (('k, 't, 'w, 'q, 'x) du_state, unit) act) list" where
    "ys = (case de_usage env of None \<Rightarrow> [] | Some f \<Rightarrow> [(''usage_audit'', on_files (\<lambda>x. f x a u))])"
  have c: "cleanup_steps env now ctx a u = xs @ [?oauth] @ ys" using assms(2) by (simp add: cleanup_steps_def xs_def ys_def)
  have k: "\<forall>(n, m) \<in> set xs. keeps du_oauth m" "\<forall>(n, m) \<in> set ys. keeps du_oauth m"
    unfolding xs_def ys_def by (auto intro!: keeps_rules split: option.splits)
  obtain s1 where 1: "run_steps ?stage xs s = (s1, Inr [])" "run_steps ?stage ([?oauth] @ ys) s1 = (s', Inr [])"
    using run_steps_append [OF assms(1) [unfolded c]] by blast
  obtain s2 where 2: "run_steps ?stage [?oauth] s1 = (s2, Inr [])" "run_steps ?stage ys s2 = (s', Inr [])" using run_steps_append [OF 1(2)] by blast
  obtain s3 where 3: "?stage ''cleaning_oauth'' s1 = (s3, Inr ())" "s2 = s3\<lparr>du_oauth := fst (revoke_user_tokens (du_oauth s3) a u)\<rparr>"
    using 2(1) by (auto simp: sbind_Inr attempt_eq)
  have "du_oauth s1 = du_oauth s" by (rule keepsD [OF keeps_run_steps [OF keeps_tasks(7) k(1)] 1(1)])
  moreover have "du_oauth s3 = du_oauth s1" by (rule keepsD [OF keeps_tasks(7) 3(1)])
  moreover have "du_oauth s' = du_oauth s2" by (rule keepsD [OF keeps_run_steps [OF keeps_tasks(7) k(2)] 2(2)])
  ultimately show ?thesis using 3(2) by simp
qed

lemma delete_now_removes:
  assumes "delete_task_now c fso i a u ''user'' st = (st', Inr b)" "ws_ok st"
  shows "ws_ok st' \<and> (\<forall>j. dget (ws_tasks st') j = (if j = i then None else dget (ws_tasks st) j))"
proof (cases "dget (ws_tasks st) i")
  case None
  then show ?thesis using assms by (auto simp: delete_task_now_def)
next
  case (Some t)
  obtain st1 r where d: "wm_delete_task c fso (wt_account_id t, wt_to_uri t) i a u ''user'' st = (st1, r)" by fastforce
  have ok: "ws_ok st1" using delete_ok [OF assms(2)] d by (metis fst_conv)
  have perm: "wm_check_permission t a u ''user''" using assms(1) Some d by (auto simp: delete_task_now_def wm_delete_task_def same_target_def split: if_splits)
  have "st' = st1" using assms(1) Some d by (auto simp: delete_task_now_def split: option.splits)
  moreover have "ws_tasks st1 = dpop (ws_tasks st) i" using d Some perm
    by (auto simp: wm_delete_task_def same_target_def split: prod.splits dest!: save_keepsD)
  ultimately show ?thesis using ok by simp
qed

lemma delete_watches_removes:
  "delete_watches env a u is s = (s', Inr ()) \<Longrightarrow> ws_ok (du_watch s) \<Longrightarrow>
    \<forall>j. dget (ws_tasks (du_watch s')) j = (if j \<in> set is then None else dget (ws_tasks (du_watch s)) j)"
proof (induction "is" arbitrary: s)
  case (Cons i "is")
  obtain s1 b where 1: "on_watch (delete_task_now (de_codec env) (de_watch_fs env) i a u ''user'') s = (s1, Inr b)" "delete_watches env a u is s1 = (s', Inr ())"
    using Cons.prems(1) by (auto simp: sbind_Inr)
  have "delete_task_now (de_codec env) (de_watch_fs env) i a u ''user'' (du_watch s) = (du_watch s1, Inr b)"
    using 1(1) by (auto simp: on_watch_def split: prod.splits)
  from delete_now_removes [OF this Cons.prems(2)] Cons.IH [OF 1(2)] show ?case by auto
qed simp

lemma stopped_watches:
  assumes "stop_watches env a u s = (s', Inr ())" "de_has_watch env" "ws_ok (du_watch s)" "dget (ws_tasks (du_watch s')) i = Some t"
  shows "\<not> (wt_account_id t = a \<and> wt_user_id t = u)"
proof
  assume own: "wt_account_id t = a \<and> wt_user_id t = u"
  let ?is = "map wt_task_id (get_all_tasks a u ''user'' False (du_watch s))"
  have d: "dget (ws_tasks (du_watch s')) i = (if i \<in> set ?is then None else dget (ws_tasks (du_watch s)) i)"
    using delete_watches_removes [of env a u ?is s s'] assms(1-3) by (simp add: stop_watches_def)
  then have t: "dget (ws_tasks (du_watch s)) i = Some t" and n: "i \<notin> set ?is" using assms(4) by (auto split: if_splits)
  have "t \<in> set (get_all_tasks a u ''user'' False (du_watch s))"
    using dget_in_set [OF t] own by (force simp: get_all_tasks_def wm_check_permission_def Let_def)
  moreover have "wt_task_id t = i" using known_task [OF assms(3) t] by simp
  ultimately show False using n by force
qed

section \<open>The run of a message\<close>

lemma keeps_remove_entry:
  "keeps du_watch (remove_entry env now i oa ou a u)" "keeps du_oauth (remove_entry env now i oa ou a u)"
proof -
  have "keeps part (remove_entry env now i oa ou a u)"
    if "\<And>f :: 'k key_state \<Rightarrow> 'k key_state \<times> (py_exc + bool). keeps part (on_keys f)"
      "\<And>f :: 't tracker \<Rightarrow> 't tracker \<times> (py_exc + unit). keeps part (on_tasks f)"
    for part :: "('k, 't, 'w, 'q, 'x) du_state \<Rightarrow> 'p" and env :: "('k, 't, 'w, 'q, 'x) du_env"
    unfolding remove_entry_def set_stage_def fail_task_def finish_task_def by (auto intro!: keeps_rules that split: sum.split)
  then show "keeps du_watch (remove_entry env now i oa ou a u)" "keeps du_oauth (remove_entry env now i oa ou a u)"
    using keeps_on_keys keeps_on_tasks by blast+
qed

lemma clean_user_cases:
  assumes "clean_user env now i oa ou a u s = (s', Inr st)"
  shows "du_keys s' = du_keys s \<and> st \<noteq> []
    \<or> (\<exists>s1 s2 s3 s4 ctx. du_keys s1 = du_keys s \<and> du_watch s1 = du_watch s \<and> du_oauth s1 = du_oauth s \<and> stop_watches env a u s1 = (s2, Inr ())
        \<and> du_keys s3 = du_keys s2 \<and> du_watch s3 = du_watch s2 \<and> du_oauth s3 = du_oauth s2 \<and> cleanup_ctx a u = Inr ctx
        \<and> run_steps (set_stage env now i oa ou) (cleanup_steps env now ctx a u) s3 = (s4, Inr []) \<and> remove_entry env now i oa ou a u s4 = (s', Inr st))"
proof -
  let ?start = "on_tasks (\<lambda>w. start (de_store env) w now i (Some oa) (Some ou) (Some ''stopping_watches''))"
  let ?cancel = "sbind (set_stage env now i oa ou ''cancelling_tasks'') (\<lambda>_. cancel_user_tasks env now a u)"
  have fk: "du_keys t' = du_keys t \<and> st \<noteq> []" if "fail_task env now i oa ou stages t = (t', Inr st)" "stages \<noteq> []" for stages t t'
    using keepsD [OF keeps_tasks(12) that(1)] that by (auto simp: fail_task_def sbind_Inr)
  obtain s2 r1 where 1: "sbind ?start (\<lambda>_. stop_watches env a u) s = (s2, r1)" by fastforce
  have "keeps du_keys (sbind ?start (\<lambda>_. stop_watches env a u))" by (intro keeps_rules)
  then have k1: "du_keys s2 = du_keys s" using 1 by (rule keepsD)
  show ?thesis
  proof (cases r1)
    case (Inl e)
    then have "fail_task env now i oa ou [''watches''] s2 = (s', Inr st)" using assms 1 by (auto simp: clean_user_def sbind_Inr attempt_eq)
    from fk [OF this] show ?thesis using k1 by simp
  next
    case (Inr x)
    obtain s3 r2 where 2: "?cancel s2 = (s3, r2)" by fastforce
    have c: "keeps du_keys ?cancel" "keeps du_watch ?cancel" "keeps du_oauth ?cancel" by (intro keeps_rules)+
    have k2: "du_keys s3 = du_keys s2" "du_watch s3 = du_watch s2" "du_oauth s3 = du_oauth s2"
      using keepsD [OF c(1) 2] keepsD [OF c(2) 2] keepsD [OF c(3) 2] by simp_all
    show ?thesis
    proof (cases r2)
      case (Inl e)
      then have "fail_task env now i oa ou [''tasks''] s3 = (s', Inr st)" using assms 1 2 Inr by (auto simp: clean_user_def sbind_Inr attempt_eq)
      from fk [OF this] show ?thesis using k1 k2 by simp
    next
      case r2: (Inr y)
      obtain s4 ctx stages where 3: "cleanup_ctx a u = Inr ctx"
          "run_steps (set_stage env now i oa ou) (cleanup_steps env now ctx a u) s3 = (s4, Inr stages)"
          "(if stages \<noteq> [] then fail_task env now i oa ou stages else remove_entry env now i oa ou a u) s4 = (s', Inr st)"
        using assms 1 2 Inr r2 by (auto simp: clean_user_def sbind_Inr attempt_eq split: sum.splits)
      have k3: "du_keys s4 = du_keys s3" by (rule keepsD [OF keeps_run_steps [OF keeps_tasks(5) cleanup_keeps(1)] 3(2)])
      obtain s1 where 4: "?start s = (s1, Inr ())" "stop_watches env a u s1 = (s2, Inr ())" using 1 Inr by (auto simp: sbind_Inr)
      have k4: "du_keys s1 = du_keys s" "du_watch s1 = du_watch s" "du_oauth s1 = du_oauth s"
        using keepsD [OF keeps_on_tasks(1) 4(1)] keepsD [OF keeps_on_tasks(2) 4(1)] keepsD [OF keeps_on_tasks(3) 4(1)] by simp_all
      show ?thesis
      proof (cases "stages = []")
        case True
        then have "remove_entry env now i oa ou a u s4 = (s', Inr st)" "run_steps (set_stage env now i oa ou) (cleanup_steps env now ctx a u) s3 = (s4, Inr [])"
          using 3(2,3) by simp_all
        then show ?thesis using 3(1) 4(2) k2 k4 by blast
      next
        case False
        then have "fail_task env now i oa ou stages s4 = (s', Inr st)" using 3(3) by simp
        from fk [OF this False] show ?thesis using k1 k2 k3 by simp
      qed
    qed
  qed
qed

lemma process_cases:
  assumes "process_deletion env now i oa ou a u s = (s', Inr st)"
  shows "\<exists>s0. du_keys s0 = du_keys s \<and> du_watch s0 = du_watch s \<and> du_oauth s0 = du_oauth s \<and> du_files s0 = du_files s
    \<and> (st = [] \<and> du_keys s' = du_keys s \<and> du_watch s' = du_watch s \<and> du_oauth s' = du_oauth s \<and> du_files s' = du_files s
       \<or> deletion_current (du_keys s) a u i \<and> clean_user env now i oa ou a u s0 = (s', Inr st))"
proof -
  obtain s0 t where 1: "create_deletion_task env now i oa ou a u s = (s0, Inr t)"
      "(if terminal_status (t_status t) then (s0, Inr [])
       else if \<not> deletion_current (du_keys s0) a u i
       then finish_task env now i oa ou [(''deleted'', PBool (\<not> has_user (du_keys s0) a u)), (''stale'', PBool True)] s0
       else clean_user env now i oa ou a u s0) = (s', Inr st)"
    using assms unfolding process_deletion_def sbind_Inr by blast
  have k: "du_keys s0 = du_keys s" "du_watch s0 = du_watch s" "du_oauth s0 = du_oauth s" "du_files s0 = du_files s"
    using keepsD [OF keeps_tasks(1) 1(1)] keepsD [OF keeps_tasks(2) 1(1)] keepsD [OF keeps_tasks(3) 1(1)] keepsD [OF keeps_tasks(4) 1(1)] by simp_all
  show ?thesis
  proof (cases "terminal_status (t_status t) \<or> deletion_current (du_keys s0) a u i")
    case True
    then show ?thesis using 1(2) k by (auto split: if_splits)
  next
    case False
    then have f: "finish_task env now i oa ou [(''deleted'', PBool (\<not> has_user (du_keys s0) a u)), (''stale'', PBool True)] s0 = (s', Inr st)"
      using 1(2) by simp
    have "st = []" using f by (auto simp: finish_task_def sbind_Inr)
    then show ?thesis
      using k keepsD [OF keeps_tasks(8) f] keepsD [OF keeps_tasks(9) f] keepsD [OF keeps_tasks(10) f] keepsD [OF keeps_tasks(11) f] by metis
  qed
qed

section \<open>The fence\<close>

lemma begin_deletion_record:
  assumes "begin_user_deletion fs a u i oa ou k = (k', Inr (d, created))" "i \<noteq> []"
  shows "get_user_deletion k' a u = Some d \<and> get_str d ''task_id'' \<noteq> []"
proof -
  obtain acc info where f: "dget (kt_accounts k) a = Some acc" "dget (ai_users acc) u = Some info"
    using assms(1) by (auto simp: begin_user_deletion_def split: option.splits)
  have fu: "find_user (kt_accounts k) a u = Some info" using f by (simp add: find_user_Some)
  show ?thesis
  proof (cases "deletion_of info \<noteq> None \<and> get_str (the (deletion_of info)) ''task_id'' \<noteq> []")
    case True
    then show ?thesis using assms(1) f fu by (auto simp: begin_user_deletion_def get_user_deletion_def split: option.splits)
  next
    case False
    then have fence: "fence_user fs a u acc info i oa ou k = (k', Inr (d, created))"
      using assms(1) f by (auto simp: begin_user_deletion_def split: option.splits)
    let ?k1 = "k\<lparr>kt_accounts := set_user (kt_accounts k) a u (fenced_info (deletion_record i oa ou) info)\<rparr>"
    obtain k2 r where s: "save_users_json fs a ?k1 = (k2, r)" by fastforce
    have d: "d = deletion_record i oa ou" and k': "kt_accounts k' = kt_accounts k2"
      using fence s by (auto simp: fence_user_def Let_def split: if_splits sum.splits)
    have "find_user (kt_accounts k') a u = Some (fenced_info (deletion_record i oa ou) info)"
      using k' save_users_frame(1) [OF s] f(1) by (simp add: find_set_user)
    then show ?thesis using d assms(2) by (simp add: get_user_deletion_def deletion_of_def fenced_info_def deletion_record_def get_str_def)
  qed
qed

lemma replace_deletion_record:
  assumes "replace_user_deletion_task fs a u e i oa ou k = (k', Inr d)" "i \<noteq> []" "get_user_deletion k a u = Some d0" "get_str d0 ''task_id'' = e" "e \<noteq> []"
  shows "get_user_deletion k' a u = Some d \<and> get_str d ''task_id'' \<noteq> []"
proof -
  obtain info where fu: "find_user (kt_accounts k) a u = Some info" "deletion_of info = Some d0"
    using assms(3) by (auto simp: get_user_deletion_def split: option.splits)
  obtain acc where f: "dget (kt_accounts k) a = Some acc" "dget (ai_users acc) u = Some info" using fu(1) by (auto simp: find_user_Some)
  have e: "dget d0 ''task_id'' = Some (PStr e)" using assms(4,5) by (auto simp: get_str_def split: option.splits pyval.splits)
  let ?k1 = "k\<lparr>kt_accounts := set_user (kt_accounts k) a u (dset info ''deletion'' (PDict (deletion_record i oa ou)))\<rparr>"
  obtain k2 r where s: "save_users_json fs a ?k1 = (k2, r)" by fastforce
  have "d = deletion_record i oa ou \<and> k' = k2"
    using assms(1) f fu(2) e s by (auto simp: replace_user_deletion_task_def Let_def split: sum.splits)
  moreover have "find_user (kt_accounts k2) a u = Some (dset info ''deletion'' (PDict (deletion_record i oa ou)))"
    using save_users_frame(1) [OF s] f(1) by (simp add: find_set_user)
  ultimately show ?thesis using assms(2) by (simp add: get_user_deletion_def deletion_of_def deletion_record_def get_str_def)
qed

lemma on_keys_eq: "on_keys f s = (s', r) \<Longrightarrow> f (du_keys s) = (du_keys s', r)"
  by (auto simp: on_keys_def split: prod.splits)

lemma ensure_deletion_fences:
  fixes env :: "('k, 't, 'w, 'q, 'x) du_env"
  assumes "ensure_deletion env now i1 i2 owner a u s = (s', Inr d)" "i1 \<noteq> []" "i2 \<noteq> []"
    and "reach (km_init (de_key_fs env)) (km_step cfg (de_key_fs env)) (du_keys s)"
  shows "get_user_deletion (du_keys s') a u = Some d \<and> get_str d ''task_id'' \<noteq> [] \<and> reach (km_init (de_key_fs env)) (km_step cfg (de_key_fs env)) (du_keys s')"
proof -
  let ?fs = "de_key_fs env"
  obtain s1 d1 created where 1: "on_keys (begin_user_deletion ?fs a u i1 (fst owner) (snd owner)) s = (s1, Inr (d1, created))"
    using assms(1) by (auto simp: ensure_deletion_def sbind_Inr)
  have b: "begin_user_deletion ?fs a u i1 (fst owner) (snd owner) (du_keys s) = (du_keys s1, Inr (d1, created))" by (rule on_keys_eq [OF 1])
  have d1: "get_user_deletion (du_keys s1) a u = Some d1" "get_str d1 ''task_id'' \<noteq> []" using begin_deletion_record [OF b assms(2)] by auto
  have "km_step cfg ?fs (du_keys s) (du_keys s1)" using km_begin_user_deletion [of cfg ?fs "du_keys s" a u i1 "fst owner" "snd owner"] b by simp
  with assms(4) have r1: "reach (km_init ?fs) (km_step cfg ?fs) (du_keys s1)" by (rule reach_step)
  show ?thesis
  proof (cases created)
    case True
    then show ?thesis using assms(1) 1 d1 r1 by (auto simp: ensure_deletion_def sbind_Inr)
  next
    case False
    let ?get = "on_tasks (\<lambda>w. get_task (de_store env) w now (get_str d1 ''task_id'') (Some (get_str d1 ''owner_account_id'')) (Some (get_str d1 ''owner_user_id'')))
      :: (('k, 't, 'w, 'q, 'x) du_state, task_record option) act"
    obtain s2 found where 2: "?get s1 = (s2, Inr found)"
        "(case found of None \<Rightarrow> ret d1 | Some t \<Rightarrow> if \<not> terminal_status (t_status t) then ret d1
          else sbind (on_keys (replace_user_deletion_task ?fs a u (get_str d1 ''task_id'') i2 (fst owner) (snd owner)))
            (\<lambda>d. if d = [] then raise NotFoundError else ret d)) s2 = (s', Inr d)"
      using assms(1) 1 False by (auto simp: ensure_deletion_def sbind_Inr)
    have k2: "du_keys s2 = du_keys s1" by (rule keepsD [OF keeps_on_tasks(1) 2(1)])
    show ?thesis
    proof (cases "s' = s2 \<and> d = d1")
      case True
      then show ?thesis using d1 r1 k2 by simp
    next
      case False
      then obtain s3 d3 where 3: "on_keys (replace_user_deletion_task ?fs a u (get_str d1 ''task_id'') i2 (fst owner) (snd owner)) s2 = (s3, Inr d3)"
          "(if d3 = [] then raise NotFoundError else ret d3) s3 = (s', Inr d)"
        using 2(2) by (cases found) (auto simp: sbind_Inr split: if_splits)
      then have r: "replace_user_deletion_task ?fs a u (get_str d1 ''task_id'') i2 (fst owner) (snd owner) (du_keys s1) = (du_keys s', Inr d)"
        using on_keys_eq [OF 3(1)] k2 by (auto split: if_splits)
      have "km_step cfg ?fs (du_keys s1) (du_keys s')"
        using km_replace_user_deletion_task [of cfg ?fs "du_keys s1" a u "get_str d1 ''task_id''" i2 "fst owner" "snd owner"] r by simp
      with r1 have "reach (km_init ?fs) (km_step cfg ?fs) (du_keys s')" by (rule reach_step)
      then show ?thesis using replace_deletion_record [OF r assms(3) d1(1) refl d1(2)] by simp
    qed
  qed
qed

text \<open>What is relied on of the queue: a message that was enqueued is in the next snapshot, with the task it names.\<close>

definition queue_ok :: "('k, 't, 'w, 'q, 'x) du_env \<Rightarrow> bool" where
  "queue_ok env \<longleftrightarrow> (\<forall>q m q'. de_enqueue env q m = (q', Inr ()) \<and> get_str m ''task_id'' \<noteq> [] \<longrightarrow>
     (\<exists>ms v md. de_snapshot env q' = Inr ms \<and> v \<in> set ms \<and> extract_task_metadata (de_json env) v = Some md \<and> qm_task_id md = get_str m ''task_id''))"

lemma enqueue_queues:
  assumes "queue_ok env" "enqueue_if_missing env i oa ou a u s = (s', Inr ())" "i \<noteq> []"
  shows "\<exists>ids. queued_task_ids env s' = (s', Inr ids) \<and> i \<in> set ids"
proof -
  obtain s1 ids where 1: "queued_task_ids env s = (s1, Inr ids)"
      "(if i \<in> set ids then ret () else enqueue_message env (deletion_message i oa ou a u)) s1 = (s', Inr ())"
    using assms(2) unfolding enqueue_if_missing_def sbind_Inr by blast
  have s1: "s1 = s" using 1(1) by (simp add: queued_task_ids_def)
  show ?thesis
  proof (cases "i \<in> set ids")
    case True
    then show ?thesis using 1 s1 by auto
  next
    case False
    then obtain q where q: "de_enqueue env (du_queue s) (deletion_message i oa ou a u) = (q, Inr ())" "s' = s\<lparr>du_queue := q\<rparr>"
      using 1(2) s1 by (auto simp: enqueue_message_def split: prod.splits)
    have "get_str (deletion_message i oa ou a u) ''task_id'' = i" by (simp add: deletion_message_def get_str_def)
    then obtain ms v md where "de_snapshot env q = Inr ms" "v \<in> set ms" "extract_task_metadata (de_json env) v = Some md" "qm_task_id md = i"
      using assms(1,3) q(1) unfolding queue_ok_def by metis
    then show ?thesis using q(2) by (force simp: queued_task_ids_def map_filter_def image_iff)
  qed
qed

lemma deletion_no_key:
  assumes "key_inv fs k" "get_user_deletion k a u = Some d" "d \<noteq> []"
  shows "\<nexists>x. resolves_to cfg k x a u"
proof -
  obtain info where i: "find_user (kt_accounts k) a u = Some info" "deletion_of info = Some d"
    using assms(2) by (auto simp: get_user_deletion_def split: option.splits)
  then have "is_deleting info" using assms(3) by (auto simp: deletion_of_def is_deleting_def split: option.splits pyval.splits)
  then have "get_str info ''key'' = []" using wf_find_user [OF _ i(1)] assms(1) by (auto simp: key_inv_def wf_info_def)
  then have "\<not> key_matches cfg x info" for x by (simp add: key_matches_def)
  then show ?thesis using resolves_to_sound [OF assms(1)] i(1) by fastforce
qed

lemma finish_failed:
  assumes "finish_user_deletion fs a u i k = (k', Inl e)"
  shows "find_user (kt_accounts k') a u = find_user (kt_accounts k) a u"
proof -
  obtain acc info d where f: "dget (kt_accounts k) a = Some acc" "dget (ai_users acc) u = Some info" "deletion_of info = Some d" "dget d ''task_id'' = Some (PStr i)"
    using assms by (auto simp: finish_user_deletion_def split: option.splits if_splits)
  let ?groups = "map (\<lambda>(g, grp). (g, without_member u grp)) (ai_groups acc)"
  let ?k1 = "k\<lparr>kt_accounts := dset (kt_accounts k) a (acc\<lparr>ai_users := dpop (ai_users acc) u\<rparr>)\<rparr>"
  define p where "p = (case save_users_json fs a ?k1 of (k2, Inl e) \<Rightarrow> (k2, Inl e)
      | (k2, Inr _) \<Rightarrow> if ?groups \<noteq> ai_groups acc then write_groups_json fs a ?groups k2 else (k2, Inr ()))"
  obtain k2 r where p: "p = (k2, r)" by fastforce
  have "finish_user_deletion fs a u i k = (case r of Inl e \<Rightarrow> (rebuild_account_group_index a (k2\<lparr>kt_accounts :=
        dset (kt_accounts k2) a (acc\<lparr>ai_users := dset (dpop (ai_users acc) u) u info\<rparr>)\<rparr>), Inl e)
      | Inr _ \<Rightarrow> (if ?groups \<noteq> ai_groups acc then rebuild_account_group_index a (set_groups a ?groups k2) else k2, Inr True))"
    using p f by (simp add: finish_user_deletion_def p_def Let_def)
  then have "kt_accounts k' = dset (kt_accounts k2) a (acc\<lparr>ai_users := dset (dpop (ai_users acc) u) u info\<rparr>)"
    using assms by (auto split: sum.splits)
  then show ?thesis using f by (simp add: find_user_def)
qed

lemma remove_entry_cases:
  assumes "remove_entry env now i oa ou a u s = (s', Inr st)"
  shows "st = [] \<or> find_user (kt_accounts (du_keys s')) a u = find_user (kt_accounts (du_keys s)) a u"
proof -
  let ?f = "finish_user_deletion (de_key_fs env) a u i"
  obtain s1 s2 r where 1: "set_stage env now i oa ou ''removing_user'' s = (s1, Inr ())" "on_keys ?f s1 = (s2, r)"
      "(case r of Inl _ \<Rightarrow> fail_task env now i oa ou [''registry''] | Inr removed \<Rightarrow> finish_task env now i oa ou [(''deleted'', PBool removed), (''stale'', PBool (\<not> removed))]) s2
        = (s', Inr st)"
    using assms unfolding remove_entry_def by (auto simp: sbind_Inr attempt_eq)
  have k1: "du_keys s1 = du_keys s" by (rule keepsD [OF keeps_tasks(5) 1(1)])
  show ?thesis
  proof (cases r)
    case (Inl e)
    then have "fail_task env now i oa ou [''registry''] s2 = (s', Inr st)" using 1(3) by simp
    from keepsD [OF keeps_tasks(12) this] have "du_keys s' = du_keys s2" .
    then show ?thesis using finish_failed on_keys_eq [OF 1(2)] Inl k1 by metis
  next
    case (Inr b)
    then show ?thesis using 1(3) by (auto simp: finish_task_def sbind_Inr)
  qed
qed

text \<open>A run that fails leaves the fence; a message whose task is no longer the one of the fence changes nothing but the record of its task.\<close>

lemma failed_deletion_keeps_fence:
  assumes "process_deletion env now i oa ou a u s = (s', Inr st)"
  shows "(st \<noteq> [] \<longrightarrow> deletion_current (du_keys s') a u i \<and> find_user (kt_accounts (du_keys s')) a u = find_user (kt_accounts (du_keys s)) a u)
    \<and> (\<not> deletion_current (du_keys s) a u i \<longrightarrow>
        du_keys s' = du_keys s \<and> du_watch s' = du_watch s \<and> du_oauth s' = du_oauth s \<and> du_files s' = du_files s)"
proof -
  obtain s0 where s0: "du_keys s0 = du_keys s"
      "st = [] \<and> du_keys s' = du_keys s \<and> du_watch s' = du_watch s \<and> du_oauth s' = du_oauth s \<and> du_files s' = du_files s
       \<or> deletion_current (du_keys s) a u i \<and> clean_user env now i oa ou a u s0 = (s', Inr st)"
    using process_cases [OF assms] by auto
  have "find_user (kt_accounts (du_keys s')) a u = find_user (kt_accounts (du_keys s)) a u" if cl: "clean_user env now i oa ou a u s0 = (s', Inr st)" and "st \<noteq> []"
    using clean_user_cases [OF cl]
  proof
    assume "du_keys s' = du_keys s0 \<and> st \<noteq> []"
    then show ?thesis using s0(1) by simp
  next
    assume "\<exists>s1 s2 s3 s4 ctx. du_keys s1 = du_keys s0 \<and> du_watch s1 = du_watch s0 \<and> du_oauth s1 = du_oauth s0 \<and> stop_watches env a u s1 = (s2, Inr ())
        \<and> du_keys s3 = du_keys s2 \<and> du_watch s3 = du_watch s2 \<and> du_oauth s3 = du_oauth s2 \<and> cleanup_ctx a u = Inr ctx
        \<and> run_steps (set_stage env now i oa ou) (cleanup_steps env now ctx a u) s3 = (s4, Inr []) \<and> remove_entry env now i oa ou a u s4 = (s', Inr st)"
    then obtain s1 s2 s3 s4 ctx where c: "du_keys s1 = du_keys s0" "stop_watches env a u s1 = (s2, Inr ())" "du_keys s3 = du_keys s2"
        "run_steps (set_stage env now i oa ou) (cleanup_steps env now ctx a u) s3 = (s4, Inr [])" "remove_entry env now i oa ou a u s4 = (s', Inr st)"
      by blast
    have "du_keys s4 = du_keys s"
      using keepsD [OF keeps_run_steps [OF keeps_tasks(5) cleanup_keeps(1)] c(4)] keepsD [OF keeps_stop_watches(1) c(2)] c(1,3) s0(1) by simp
    then show ?thesis using remove_entry_cases [OF c(5)] \<open>st \<noteq> []\<close> by simp
  qed
  then show ?thesis using s0(2) by (auto simp: deletion_current_def get_user_deletion_def)
qed

section \<open>Properties\<close>

text \<open>Property C8. An accepted deletion request takes effect at once and is durable: the user is fenced by the task that is returned, no
  key resolves to the user any more, and a message for that task is in the queue, also when the request repeats an earlier one or replaces
  one whose task has ended.\<close>

theorem deletion_request_is_durable:
  fixes env :: "('k, 't, 'w, 'q, 'x) du_env"
  assumes "fs_faithful (de_key_fs env)" "hashes_marked cfg" "queue_ok env" "id1 \<noteq> []" "id2 \<noteq> []"
    and "reach (km_init (de_key_fs env)) (km_step cfg (de_key_fs env)) (du_keys s)"
    and "delete_user env now id1 id2 actor a u s = (s', Inr i)"
  shows "deletion_current (du_keys s') a u i \<and> (\<nexists>k. resolves_to cfg (du_keys s') k a u) \<and> (\<exists>ids. queued_task_ids env s' = (s', Inr ids) \<and> i \<in> set ids)"
proof -
  obtain s1 d where 1: "ensure_deletion env now id1 id2 (request_owner actor a u) a u s = (s1, Inr d)"
    using assms(7) by (auto simp: delete_user_def sbind_Inr Let_def)
  have d: "get_user_deletion (du_keys s1) a u = Some d" "get_str d ''task_id'' \<noteq> []" "reach (km_init (de_key_fs env)) (km_step cfg (de_key_fs env)) (du_keys s1)"
    using ensure_deletion_fences [OF 1 assms(4,5,6)] by auto
  let ?oa = "get_str d ''owner_account_id''" let ?ou = "get_str d ''owner_user_id''"
  obtain s2 t where 2: "create_deletion_task env now (get_str d ''task_id'') ?oa ?ou a u s1 = (s2, Inr t)"
      "enqueue_if_missing env (get_str d ''task_id'') ?oa ?ou a u s2 = (s', Inr ())" "i = get_str d ''task_id''"
    using assms(7) 1 by (auto simp: delete_user_def sbind_Inr Let_def)
  have "keeps du_keys (enqueue_if_missing env (get_str d ''task_id'') ?oa ?ou a u)" unfolding enqueue_if_missing_def by (auto intro!: keeps_rules)
  from keepsD [OF this 2(2)] have k: "du_keys s' = du_keys s1" using keepsD [OF keeps_tasks(1) 2(1)] by simp
  have "dget d ''task_id'' = Some (PStr i)" using d(2) 2(3) by (auto simp: get_str_def split: option.splits pyval.splits)
  moreover from this have "d \<noteq> []" by auto
  moreover have "key_inv (de_key_fs env) (du_keys s1)" by (rule km_reach_inv [OF d(3) assms(1,2)])
  ultimately show ?thesis
    using enqueue_queues [OF assms(3) 2(2) d(2)] deletion_no_key [OF _ d(1)] d(1) k 2(3) by (simp add: deletion_current_def)
qed


section \<open>A deletion to evaluate\<close>

definition demo_du_env :: "((string \<times> pyval) list, nat, unit, pyval list, unit) du_env" where
  "demo_du_env = \<lparr>de_key_fs = dict_fs, de_store = always_ok, de_codec = demo_codec, de_watch_fs = None, de_has_watch = True, de_has_oauth = True,
     de_json = (\<lambda>_. None), de_snapshot = Inr, de_enqueue = (\<lambda>q m. (q @ [PDict [(''id'', PStr ''m''), (''data'', PDict m)]], Inr ())),
     de_settle = (\<lambda>_ w. (w, Inr ())), de_vector = None, de_usage = None, de_rm = (\<lambda>x _ _. (x, Inr ())), de_ls = (\<lambda>_ _ _. Inl NotFoundError),
     de_meta = (\<lambda>_ _ _. Inl NotFoundError)\<rparr>"

definition demo_du :: "((string \<times> pyval) list, nat, unit, pyval list, unit) du_state" where
  "demo_du = \<lparr>du_keys = kd_bob, du_tasks = \<lparr>tt_store = 0, tt_tasks = [], tt_index = empty_index\<rparr>, du_watch = demo_state, du_oauth = kd_tokens,
     du_queue = [], du_files = ()\<rparr>"

definition demo_actor :: request_context where
  "demo_actor = \<lparr>rc_user = \<lparr>ui_account_id = ''acme'', ui_user_id = ''alice''\<rparr>, rc_role = Role_ADMIN, rc_group_ids = [], rc_actor_peer_id = None,
     rc_from_oauth = False, rc_api_key = None, rc_bypass_acl = False\<rparr>"

definition demo_du_fenced :: "((string \<times> pyval) list, nat, unit, pyval list, unit) du_state" where
  "demo_du_fenced = demo_du\<lparr>
     du_keys := \<lparr>kt_accounts = [(''acme'', \<lparr>ai_created_at = ''now'', ai_users = [(''alice'', [(''role'', PStr ''admin''), (''key'',
     PStr ''YWNtZQ.YWxpY2U.dDE'')]), (''bob'', [(''role'', PStr ''admin''), (''key'', PStr []), (''deletion'', PDict [(''task_id'',
     PStr ''d1''), (''owner_account_id'', PStr ''acme''), (''owner_user_id'', PStr ''alice'')])])], ai_groups = []\<rparr>)],
     kt_index = [(''YWNtZQ.Y'', [\<lparr>ue_account_id = ''acme'', ue_user_id = ''alice'', ue_role = ''admin'',
     ue_key_or_hash = ''YWNtZQ.YWxpY2U.dDE'', ue_is_hashed = False\<rparr>])], kt_groups = [],
     kt_disk = [(''/local/_system/accounts.json'', PDict [(''accounts'', PDict [(''acme'', PDict [(''created_at'', PStr ''now'')])])]),
     (''/local/acme/_system/users.json'', PDict [(''users'', PDict [(''alice'', PDict [(''role'', PStr ''admin''), (''key'',
     PStr ''YWNtZQ.YWxpY2U.dDE'')]), (''bob'', PDict [(''role'', PStr ''admin''), (''key'', PStr []), (''deletion'', PDict [(''task_id'',
     PStr ''d1''), (''owner_account_id'', PStr ''acme''), (''owner_user_id'', PStr ''alice'')])])])]),
     (''/local/acme/_system/groups.json'', PDict [(''groups'', PDict [])])]\<rparr>,
     du_tasks := \<lparr>tt_store = 0, tt_tasks = [(''d1'', \<lparr>t_task_id = ''d1'', t_task_type = ''user_delete'', t_status = PENDING,
     t_created_at = 5, t_updated_at = 5, t_resource_id = Some ''acme/bob'', t_account_id = Some ''acme'', t_user_id = Some ''alice'',
     t_meta = [], t_stage = None, t_result = None, t_error = None, t_auth = []\<rparr>)], tt_index = \<lparr>wi_work = [], wi_active = [],
     wi_failures = []\<rparr>\<rparr>,
     du_queue := [PDict [(''id'', PStr ''m''), (''data'', PDict [(''task_id'', PStr ''d1''), (''account_id'', PStr ''acme''), (''user_id'',
     PStr ''alice''), (''target'', PDict [(''account_id'', PStr ''acme''), (''user_id'', PStr ''bob'')])])]]\<rparr>"

lemma demo_queue_ok: "queue_ok demo_du_env"
  unfolding queue_ok_def
proof (intro allI impI)
  fix q :: "pyval list" and m q'
  assume a: "de_enqueue demo_du_env q m = (q', Inr ()) \<and> get_str m ''task_id'' \<noteq> []"
  let ?v = "PDict [(''id'', PStr ''m''), (''data'', PDict m)]"
  have q: "q' = q @ [?v]" using a by (simp add: demo_du_env_def)
  have t: "dget m ''task_id'' = Some (PStr (get_str m ''task_id''))" using a by (auto simp: get_str_def split: option.splits pyval.splits)
  have "\<exists>md. extract_task_metadata (\<lambda>_. None) ?v = Some md \<and> qm_task_id md = get_str m ''task_id''"
    using a t by (cases "truthy (dval m TASK_WORK_ID_FIELD)") (auto simp: extract_task_metadata_def payload_dict_def dval_def Let_def case_prod_unfold)
  then show "\<exists>ms v md. de_snapshot demo_du_env q' = Inr ms \<and> v \<in> set ms \<and> extract_task_metadata (de_json demo_du_env) v = Some md \<and> qm_task_id md = get_str m ''task_id''"
    using q by (auto simp: demo_du_env_def)
qed

theorem deletion_request_is_durable_witness:
  "deletion_current (du_keys demo_du_fenced) ''acme'' ''bob'' ''d1'' \<and> (\<nexists>k. resolves_to (demo_cfg False) (du_keys demo_du_fenced) k ''acme'' ''bob'')"
proof -
  have r: "delete_user demo_du_env 5 ''d1'' ''d2'' demo_actor ''acme'' ''bob'' demo_du = (demo_du_fenced, Inr ''d1'')" by code_simp
  have e: "de_key_fs demo_du_env = dict_fs" "du_keys demo_du = kd_bob" by (simp_all add: demo_du_env_def demo_du_def)
  show ?thesis
    using deletion_request_is_durable [OF _ demo_marked demo_queue_ok _ _ _ r] dict_fs_faithful kd_reach(1) e by simp
qed

definition demo_du_done :: "((string \<times> pyval) list, nat, unit, pyval list, unit) du_state" where
  "demo_du_done = fst (process_deletion demo_du_env 9 ''d1'' ''acme'' ''alice'' ''acme'' ''bob'' demo_du_fenced)"


end
