(* ===== verification/User_Deletion_Queue.thy ===== *)
theory User_Deletion_Queue
  imports User_Deletion_Safety
begin

text \<open>
  User deletion and its queue: messages read back what was enqueued, a restart takes every fence up again, and the handler's report
  agrees with the fence.
\<close>

section \<open>Messages\<close>

lemma parse_message:
  assumes "i \<noteq> []" "oa \<noteq> []" "ou \<noteq> []" "a \<noteq> []" "u \<noteq> []"
    and "dget d ''data'' = Some (PDict (deletion_message i oa ou a u))
      \<or> (\<exists>js. dget d ''data'' = Some (PStr js) \<and> json js = Some (PDict (deletion_message i oa ou a u)))"
  shows "parse_deletion_message json d = Inr (i, oa, ou, a, u)"
  using assms by (auto simp: parse_deletion_message_def deletion_message_def dval_def ebind_def Let_def py_str_def)

section \<open>Restart\<close>

definition in_queue :: "('k, 't, 'w, 'q, 'x) du_env \<Rightarrow> string \<Rightarrow> 'q \<Rightarrow> bool" where
  "in_queue env i q \<longleftrightarrow> (\<exists>ms v md. de_snapshot env q = Inr ms \<and> v \<in> set ms \<and> extract_task_metadata (de_json env) v = Some md \<and> qm_task_id md = i)"

text \<open>What is relied on of the queue: an enqueued message joins those that are there.\<close>

definition queue_grows :: "('k, 't, 'w, 'q, 'x) du_env \<Rightarrow> bool" where
  "queue_grows env \<longleftrightarrow> (\<forall>q m q' i. de_enqueue env q m = (q', Inr ()) \<and> in_queue env i q \<longrightarrow> in_queue env i q')"

lemma queued_ids: "queued_task_ids env s = (s', Inr ids) \<Longrightarrow> s' = s \<and> (\<forall>i \<in> set ids. in_queue env i (du_queue s))"
  by (fastforce simp: queued_task_ids_def in_queue_def map_filter_def)

lemma enqueued_in_queue:
  assumes "queue_ok env" "queue_grows env" "enqueue_message env (deletion_message i oa ou a u) s = (s', Inr ())" "i \<noteq> []"
  shows "in_queue env i (du_queue s')" "in_queue env j (du_queue s) \<Longrightarrow> in_queue env j (du_queue s')"
proof -
  have q: "de_enqueue env (du_queue s) (deletion_message i oa ou a u) = (du_queue s', Inr ())"
    using assms(3) by (auto simp: enqueue_message_def split: prod.splits)
  have i: "get_str (deletion_message i oa ou a u) ''task_id'' = i" by (simp add: deletion_message_def get_str_def)
  show "in_queue env i (du_queue s')" using assms(1,4) q i unfolding queue_ok_def in_queue_def by metis
  show "in_queue env j (du_queue s')" if "in_queue env j (du_queue s)" using assms(2) q that unfolding queue_grows_def by blast
qed

text \<open>The tracker's record of a deletion that needs no message any more.\<close>

definition settled :: "('k, 't, 'w, 'q, 'x) du_env \<Rightarrow> int \<Rightarrow> string \<Rightarrow> string \<Rightarrow> string \<Rightarrow> string \<Rightarrow> string \<Rightarrow> bool" where
  "settled env now i oa ou a u \<longleftrightarrow> (\<exists>w w' t. \<not> idle_running (t_status t) \<and>
     (get_task (de_store env) w now i (Some oa) (Some ou) = (w', Inr (Some t))
      \<or> create (de_store env) w now now i DELETE_TASK_TYPE (Some (a @ ''/'' @ u)) oa ou (Some i) [] [] = (w', Inr t)))"

definition taken_up :: "('k, 't, 'w, 'q, 'x) du_env \<Rightarrow> int \<Rightarrow> 'q \<Rightarrow> string \<times> string \<times> pydict \<Rightarrow> bool" where
  "taken_up env now q = (\<lambda>(a, u, d).
     let i = get_str d ''task_id''; oa = get_str d ''owner_account_id''; ou = get_str d ''owner_user_id'' in
     i = [] \<or> oa = [] \<or> ou = [] \<or> in_queue env i q \<or> settled env now i oa ou a u)"

lemma get_or_create:
  assumes "sbind (on_tasks (\<lambda>w. get_task (de_store env) w now i (Some oa) (Some ou)))
      (\<lambda>found. case found of Some t \<Rightarrow> ret t | None \<Rightarrow> create_deletion_task env now i oa ou a u) s = (s', Inr t)"
  shows "du_queue s' = du_queue s \<and> du_keys s' = du_keys s \<and> (idle_running (t_status t) \<or> settled env now i oa ou a u)"
proof -
  obtain s1 found where 1: "on_tasks (\<lambda>w. get_task (de_store env) w now i (Some oa) (Some ou)) s = (s1, Inr found)"
      "(case found of Some t \<Rightarrow> ret t | None \<Rightarrow> create_deletion_task env now i oa ou a u) s1 = (s', Inr t)"
    using assms unfolding sbind_Inr by blast
  have k: "du_queue s1 = du_queue s" "du_keys s1 = du_keys s"
    using keepsD [OF keeps_on_tasks(5) 1(1)] keepsD [OF keeps_on_tasks(1) 1(1)] by simp_all
  show ?thesis
  proof (cases found)
    case None
    then have c: "create_deletion_task env now i oa ou a u s1 = (s', Inr t)" using 1(2) by simp
    have "du_queue s' = du_queue s1" by (rule keepsD [OF keeps_on_tasks(5) c [unfolded create_deletion_task_def]])
    moreover have "du_keys s' = du_keys s1" by (rule keepsD [OF keeps_tasks(1) c])
    moreover have "\<exists>w w'. create (de_store env) w now now i DELETE_TASK_TYPE (Some (a @ ''/'' @ u)) oa ou (Some i) [] [] = (w', Inr t)"
      using c by (auto simp: create_deletion_task_def on_tasks_def split: prod.splits)
    ultimately show ?thesis using k by (auto simp: settled_def)
  next
    case (Some t')
    then have "t' = t" "s' = s1" using 1(2) by simp_all
    moreover have "\<exists>w w'. get_task (de_store env) w now i (Some oa) (Some ou) = (w', Inr (Some t'))"
      using 1(1) Some by (auto simp: on_tasks_def split: prod.splits)
    ultimately show ?thesis using k by (auto simp: settled_def)
  qed
qed

lemma taken_up_mono: "taken_up env now q e \<Longrightarrow> (\<And>j. in_queue env j q \<Longrightarrow> in_queue env j q') \<Longrightarrow> taken_up env now q' e"
  by (auto simp: taken_up_def Let_def split: prod.splits)

lemma resume_takes_up:
  assumes "queue_ok env" "queue_grows env"
  shows "resume_deletions env now ds queued s = (s', Inr ()) \<Longrightarrow> \<forall>i \<in> set queued. in_queue env i (du_queue s) \<Longrightarrow>
    du_keys s' = du_keys s \<and> (\<forall>j. in_queue env j (du_queue s) \<longrightarrow> in_queue env j (du_queue s')) \<and> (\<forall>e \<in> set ds. taken_up env now (du_queue s') e)"
proof (induction ds arbitrary: queued s)
  case (Cons e ds)
  obtain a u d where e: "e = (a, u, d)" by (cases e) auto
  let ?i = "get_str d ''task_id''" let ?oa = "get_str d ''owner_account_id''" let ?ou = "get_str d ''owner_user_id''"
  have one: "du_keys s' = du_keys s \<and> (\<forall>j. in_queue env j (du_queue s) \<longrightarrow> in_queue env j (du_queue s')) \<and> (\<forall>e' \<in> set (e # ds). taken_up env now (du_queue s') e')"
    if r: "resume_deletions env now ds queued' s1 = (s', Inr ())" "\<forall>i \<in> set queued'. in_queue env i (du_queue s1)"
      and k: "du_keys s1 = du_keys s" "\<And>j. in_queue env j (du_queue s) \<Longrightarrow> in_queue env j (du_queue s1)" "taken_up env now (du_queue s1) e"
    for queued' s1
    using Cons.IH [OF r] k(1,2) taken_up_mono [OF k(3)] by auto
  show ?case
  proof (cases "?i = [] \<or> ?oa = [] \<or> ?ou = []")
    case True
    then show ?thesis using Cons.prems e by (intro one) (auto simp: taken_up_def Let_def)
  next
    case False
    let ?msg = "deletion_message ?i ?oa ?ou a u"
    obtain s1 t where 1: "sbind (on_tasks (\<lambda>w. get_task (de_store env) w now ?i (Some ?oa) (Some ?ou)))
          (\<lambda>found. case found of Some t \<Rightarrow> ret t | None \<Rightarrow> create_deletion_task env now ?i ?oa ?ou a u) s = (s1, Inr t)"
        "(if idle_running (t_status t) \<and> ?i \<notin> set queued then sbind (enqueue_message env ?msg) (\<lambda>_. resume_deletions env now ds (?i # queued))
          else resume_deletions env now ds queued) s1 = (s', Inr ())"
      using Cons.prems(1) False e by (simp add: Let_def sbind_Inr) blast
    note g = get_or_create [OF 1(1)]
    show ?thesis
    proof (cases "idle_running (t_status t) \<and> ?i \<notin> set queued")
      case True
      then obtain s2 where 2: "enqueue_message env ?msg s1 = (s2, Inr ())" "resume_deletions env now ds (?i # queued) s2 = (s', Inr ())"
        using 1(2) by (auto simp: sbind_Inr)
      note q = enqueued_in_queue [OF assms 2(1)]
      show ?thesis
        using q False Cons.prems(2) g keepsD [OF keeps_queue(2) 2(1)] by (intro one [OF 2(2)]) (auto simp: e taken_up_def Let_def)
    next
      case f: False
      then have r: "resume_deletions env now ds queued s1 = (s', Inr ())" using 1(2) by (simp only: if_not_P if_False)
      show ?thesis using Cons.prems(2) g f by (intro one [OF r]) (auto simp: e taken_up_def Let_def)
    qed
  qed
qed simp

section \<open>Properties\<close>


text \<open>Property C23. What the handler reports agrees with the fence: the message of an accepted request reads back as it was built, whether the
  queue hands out the payload or its JSON text; and unless success is reported, the deletion is still fenced by its task.\<close>

theorem deletion_report_agrees_with_fence:
  assumes "i \<noteq> []" "oa \<noteq> []" "ou \<noteq> []" "a \<noteq> []" "u \<noteq> []"
    and "dget d ''data'' = Some (PDict (deletion_message i oa ou a u))
      \<or> (\<exists>js. dget d ''data'' = Some (PStr js) \<and> de_json env js = Some (PDict (deletion_message i oa ou a u)))"
    and "deletion_on_dequeue env now (Some d) s = (s', Inr r)"
  shows "r \<noteq> Unreported \<and> (\<exists>st. process_deletion env now i oa ou a u s = (s', Inr st))
    \<and> (r = ReportedError \<longrightarrow> deletion_current (du_keys s') a u i \<and> find_user (kt_accounts (du_keys s')) a u = find_user (kt_accounts (du_keys s)) a u)"
proof -
  have "parse_deletion_message (de_json env) d = Inr (i, oa, ou, a, u)" by (rule parse_message [OF assms(1-6)])
  moreover have "d \<noteq> []" using assms(6) by auto
  ultimately obtain st where st: "process_deletion env now i oa ou a u s = (s', Inr st)" "r = (if st = [] then ReportedSuccess else ReportedError)"
    using assms(7) by (auto simp: deletion_on_dequeue_def sbind_Inr)
  then show ?thesis using failed_deletion_keeps_fence [OF st(1)] by auto
qed

section \<open>Runs to evaluate\<close>

definition demo_stopped :: "((string \<times> pyval) list, nat, unit, pyval list, unit) du_state" where
  "demo_stopped = demo_du_fenced\<lparr>du_queue := []\<rparr>"

lemma demo_queue_grows: "queue_grows demo_du_env"
  by (auto simp: queue_grows_def in_queue_def demo_du_env_def)


definition demo_broken :: "((string \<times> pyval) list, nat, unit, pyval list, unit) du_env" where
  "demo_broken = demo_du_env\<lparr>de_rm := (\<lambda>x _ _. (x, Inl IOError))\<rparr>"

theorem deletion_report_agrees_with_fence_witness:
  "\<exists>s. deletion_on_dequeue demo_broken 9 (Some [(''data'', PDict (deletion_message ''d1'' ''acme'' ''alice'' ''acme'' ''bob''))]) demo_du_fenced = (s, Inr ReportedError)
    \<and> deletion_current (du_keys s) ''acme'' ''bob'' ''d1''"
proof -
  let ?p = "deletion_on_dequeue demo_broken 9 (Some [(''data'', PDict (deletion_message ''d1'' ''acme'' ''alice'' ''acme'' ''bob''))]) demo_du_fenced"
  have "snd ?p = Inr ReportedError" by code_simp
  then have r: "?p = (fst ?p, Inr ReportedError)" by (simp add: prod_eq_iff)
  show ?thesis using deletion_report_agrees_with_fence [OF _ _ _ _ _ _ r] r by (intro exI [of _ "fst ?p"]) simp
qed

end
