(* ===== verification/Token_Estimation.thy ===== *)
theory Token_Estimation
  imports Complex_Main Py_Prelude
begin

text \<open>
  \<open>openviking/utils/token_estimation.py\<close>: the token estimate of a text and the truncation of a text to a token budget.

  A text is the list of its code points, since the estimate depends on the script. The budget is truncated with the default marker and
  head ratio, the only ones the session code uses; three quarters of an integer are exact in floating point.
\<close>

section \<open>Definitions\<close>

type_synonym ustring = "int list"

definition isascii :: "ustring \<Rightarrow> bool" where
  "isascii t \<longleftrightarrow> list_all (\<lambda>c. c < 128) t"

text \<open>Quarters of a token.\<close>

definition char_units :: "int \<Rightarrow> int" where
  "char_units c =
     (if 0x4E00 \<le> c \<and> c \<le> 0x9FFF then 6
      else if c < 0x1100 then 1
      else if c \<le> 0x11FF \<or> 0x3000 \<le> c \<and> c \<le> 0x30FF \<or> 0x3130 \<le> c \<and> c \<le> 0x318F \<or> 0x31F0 \<le> c \<and> c \<le> 0x31FF
        \<or> 0x3400 \<le> c \<and> c \<le> 0x4DBF \<or> 0xAC00 \<le> c \<and> c \<le> 0xD7AF \<or> 0xF900 \<le> c \<and> c \<le> 0xFAFF
        \<or> 0xFF00 \<le> c \<and> c \<le> 0xFFEF \<or> 0x20000 \<le> c \<and> c \<le> 0x2EBEF then 6
      else if c > 0xFFFF then 8
      else 1)"

definition estimate_text_tokens :: "ustring \<Rightarrow> int" where
  "estimate_text_tokens text =
     (if text = [] then 0
      else if isascii text then (int (length text) + 3) div 4
      else (sum_list (map char_units text) + 3) div 4)"

text \<open>The white space that \<open>str.strip\<close> removes.\<close>

definition uspace :: "int \<Rightarrow> bool" where
  "uspace c \<longleftrightarrow> 9 \<le> c \<and> c \<le> 13 \<or> 28 \<le> c \<and> c \<le> 32 \<or> c = 0x85 \<or> c = 0xA0 \<or> c = 0x1680 \<or> 0x2000 \<le> c \<and> c \<le> 0x200A
     \<or> c = 0x2028 \<or> c = 0x2029 \<or> c = 0x202F \<or> c = 0x205F \<or> c = 0x3000"

definition ulstrip :: "ustring \<Rightarrow> ustring" where
  "ulstrip t = dropWhile uspace t"

definition urstrip :: "ustring \<Rightarrow> ustring" where
  "urstrip t = rev (dropWhile uspace (rev t))"

text \<open>The binary search of \<open>_prefix_length\<close>.\<close>

function prefix_search :: "ustring \<Rightarrow> int \<Rightarrow> nat \<Rightarrow> nat \<Rightarrow> nat" where
  "prefix_search value budget low high =
     (if low < high then
        let mid = (low + high + 1) div 2 in
        if estimate_text_tokens (take mid value) \<le> budget then prefix_search value budget mid high
        else prefix_search value budget low (mid - 1)
      else low)"
  by pat_completeness auto
termination
  by (relation "measure (\<lambda>(_, _, low, high). high - low)") auto

declare prefix_search.simps [simp del]

definition prefix_length :: "ustring \<Rightarrow> int \<Rightarrow> nat" where
  "prefix_length value budget = prefix_search value budget 0 (length value)"

definition TRUNCATION_MARKER :: ustring where
  "TRUNCATION_MARKER = [10, 0x2026, 10]"

definition truncate_text_to_token_budget :: "ustring \<Rightarrow> int \<Rightarrow> ustring" where
  "truncate_text_to_token_budget text max_tokens =
     (if text = [] \<or> estimate_text_tokens text \<le> max_tokens then text
      else if max_tokens \<le> 0 then []
      else
        let marker = (if max_tokens \<le> estimate_text_tokens TRUNCATION_MARKER then [] else TRUNCATION_MARKER);
            content_tokens = max_tokens - estimate_text_tokens marker;
            head_tokens = content_tokens * 3 div 4;
            tail_tokens = content_tokens - head_tokens;
            head_end = prefix_length text head_tokens;
            remaining = drop head_end text;
            tail_length = prefix_length (rev remaining) tail_tokens;
            tail = drop (length remaining - tail_length) remaining
        in urstrip (take head_end text) @ marker @ ulstrip tail)"

section \<open>The estimate\<close>

definition text_units :: "ustring \<Rightarrow> int" where
  "text_units t = sum_list (map char_units t)"

lemma char_units_pos: "1 \<le> char_units c" "char_units c \<le> 8"
  by (simp_all add: char_units_def)

lemma text_units_simps [simp]: "text_units [] = 0" "text_units (c # t) = char_units c + text_units t" "text_units (s @ t) = text_units s + text_units t"
  by (simp_all add: text_units_def)

lemma text_units_nonneg [simp]: "0 \<le> text_units t"
  by (induction t) (use char_units_pos(1) in \<open>auto intro: add_nonneg_nonneg order_trans [OF zero_le_one]\<close>)

lemma text_units_rev [simp]: "text_units (rev t) = text_units t"
  by (induction t) auto

lemma text_units_ascii: "isascii t \<Longrightarrow> text_units t = int (length t)"
  by (induction t) (auto simp: isascii_def char_units_def)

lemma estimate_eq: "estimate_text_tokens t = (text_units t + 3) div 4"
  using text_units_ascii [of t] by (simp add: estimate_text_tokens_def text_units_def)

lemma estimate_nonneg [simp]: "0 \<le> estimate_text_tokens t"
  using text_units_nonneg [of t] by (simp add: estimate_eq pos_imp_zdiv_nonneg_iff)

lemma estimate_le_iff: "estimate_text_tokens t \<le> n \<longleftrightarrow> text_units t \<le> 4 * n"
  by (simp add: estimate_eq) linarith

lemma text_units_take_drop: "text_units (take n t) + text_units (drop n t) = text_units t"
  using text_units_simps(3) [of "take n t" "drop n t"] by simp

lemma text_units_take_mono: "m \<le> n \<Longrightarrow> text_units (take m t) \<le> text_units (take n t)"
  using text_units_take_drop [of m "take n t"] text_units_nonneg [of "drop m (take n t)"]
  by (simp add: min_absorb1 del: text_units_nonneg)

lemma text_units_strip: "text_units (ulstrip t) \<le> text_units t" "text_units (urstrip t) \<le> text_units t"
proof -
  have 1: "text_units (dropWhile uspace s) \<le> text_units s" for s
    using text_units_simps(3) [of "takeWhile uspace s" "dropWhile uspace s"] by simp
  show "text_units (ulstrip t) \<le> text_units t" unfolding ulstrip_def by (rule 1)
  show "text_units (urstrip t) \<le> text_units t" using 1 [of "rev t"] by (simp add: urstrip_def)
qed

lemma estimate_append: "estimate_text_tokens (s @ t) \<le> estimate_text_tokens s + estimate_text_tokens t"
  by (simp add: estimate_eq)

section \<open>The search\<close>

lemma prefix_search_inv:
  "low \<le> high \<Longrightarrow> high \<le> length v \<Longrightarrow> text_units (take low v) \<le> 4 * b \<Longrightarrow> (\<forall>k. high < k \<and> k \<le> length v \<longrightarrow> 4 * b < text_units (take k v)) \<Longrightarrow>
    (let n = prefix_search v b low high in n \<le> length v \<and> text_units (take n v) \<le> 4 * b \<and> (\<forall>k. n < k \<and> k \<le> length v \<longrightarrow> 4 * b < text_units (take k v)))"
proof (induction v b low high rule: prefix_search.induct)
  case (1 v b low high)
  show ?case
  proof (cases "low < high")
    case True
    let ?mid = "(low + high + 1) div 2"
    have m: "low < ?mid" "?mid \<le> high" using True by auto
    show ?thesis
    proof (cases "estimate_text_tokens (take ?mid v) \<le> b")
      case fits: True
      then show ?thesis using 1(1) [OF True refl fits] 1(3-) True m prefix_search.simps [of v b low high] by (simp add: estimate_le_iff Let_def)
    next
      case big: False
      have "\<forall>k. ?mid - 1 < k \<and> k \<le> length v \<longrightarrow> 4 * b < text_units (take k v)"
      proof (intro allI impI)
        fix k assume "?mid - 1 < k \<and> k \<le> length v"
        then have "?mid \<le> k" using m(1) by linarith
        from text_units_take_mono [OF this, of v] show "4 * b < text_units (take k v)" using big by (simp add: estimate_le_iff)
      qed
      then show ?thesis using 1(2) [OF True refl big] 1(3-) big True m prefix_search.simps [of v b low high] by (simp add: Let_def)
    qed
  next
    case False
    then show ?thesis using 1(3-) prefix_search.simps [of v b low high] by (simp add: Let_def)
  qed
qed

lemma prefix_length_maximal:
  assumes "0 \<le> b"
  shows "prefix_length v b \<le> length v" "text_units (take (prefix_length v b) v) \<le> 4 * b"
    and "prefix_length v b < k \<Longrightarrow> k \<le> length v \<Longrightarrow> 4 * b < text_units (take k v)"
  using prefix_search_inv [of 0 "length v" v b] assms by (auto simp: prefix_length_def Let_def)

lemma truncate_units:
  assumes "0 \<le> n"
  shows "text_units (truncate_text_to_token_budget t n) \<le> 4 * n"
proof (cases "t = [] \<or> estimate_text_tokens t \<le> n \<or> n \<le> 0")
  case True
  then show ?thesis using assms by (auto simp: truncate_text_to_token_budget_def estimate_le_iff)
next
  case False
  define marker where "marker = (if n \<le> estimate_text_tokens TRUNCATION_MARKER then [] else TRUNCATION_MARKER)"
  define c where "c = n - estimate_text_tokens marker"
  define e where "e = prefix_length t (c * 3 div 4)"
  define rest where "rest = drop e t"
  define l where "l = prefix_length (rev rest) (c - c * 3 div 4)"
  have q: "0 \<le> c * 3 div 4" "c * 3 div 4 \<le> c" if "0 \<le> c" using that by (simp_all add: pos_imp_zdiv_nonneg_iff)
  have c: "0 \<le> c" using False by (auto simp: c_def marker_def estimate_text_tokens_def)
  have head: "text_units (urstrip (take e t)) \<le> 4 * (c * 3 div 4)"
    using prefix_length_maximal(2) [of "c * 3 div 4" t] text_units_strip(2) [of "take e t"] q [OF c] by (simp add: e_def)
  have "rev (drop (length rest - l) rest) = take l (rev rest)"
    using prefix_length_maximal(1) [of "c - c * 3 div 4" "rev rest"] q [OF c] by (simp add: l_def rev_drop)
  then have "text_units (drop (length rest - l) rest) = text_units (take l (rev rest))" by (metis text_units_rev)
  then have tail: "text_units (ulstrip (drop (length rest - l) rest)) \<le> 4 * (c - c * 3 div 4)"
    using prefix_length_maximal(2) [of "c - c * 3 div 4" "rev rest"] text_units_strip(1) [of "drop (length rest - l) rest"] q [OF c] by (simp add: l_def)
  have "text_units marker \<le> 4 * (n - c)" using estimate_le_iff [of marker "n - c"] by (simp add: c_def)
  moreover have "truncate_text_to_token_budget t n = urstrip (take e t) @ marker @ ulstrip (drop (length rest - l) rest)"
    using False by (simp add: truncate_text_to_token_budget_def marker_def c_def e_def rest_def l_def Let_def)
  ultimately show ?thesis using head tail by simp
qed

section \<open>Properties\<close>

text \<open>Property. The estimate counts the quarter units of every character and rounds up, also where the code takes the length of an ASCII
  text instead; it is never less for a longer text, and putting texts together costs at most what they cost alone.\<close>

theorem estimate_counts_units:
  "estimate_text_tokens t = (sum_list (map char_units t) + 3) div 4
   \<and> estimate_text_tokens t \<le> estimate_text_tokens (t @ s) \<and> estimate_text_tokens (t @ s) \<le> estimate_text_tokens t + estimate_text_tokens s"
  using estimate_append [of t s] text_units_nonneg [of s] unfolding estimate_eq text_units_simps(3) by (simp add: text_units_def zdiv_mono1)

text \<open>Property. A truncated text fits its budget: for a budget that is not negative, the estimate of the result is at most the budget. A
  text that fits is unchanged, and the head and the tail that are kept are the longest ones within their shares.\<close>

theorem truncated_text_fits:
  assumes "0 \<le> n"
  shows "estimate_text_tokens (truncate_text_to_token_budget t n) \<le> n
    \<and> (estimate_text_tokens t \<le> n \<longrightarrow> truncate_text_to_token_budget t n = t)
    \<and> (0 \<le> b \<longrightarrow> estimate_text_tokens (take k t) \<le> b \<and> k \<le> length t \<longrightarrow> k \<le> prefix_length t b)"
proof -
  have "text_units (truncate_text_to_token_budget t n) \<le> 4 * n" by (rule truncate_units [OF assms])
  moreover have "k \<le> prefix_length t b" if "0 \<le> b" "estimate_text_tokens (take k t) \<le> b" "k \<le> length t"
    using prefix_length_maximal(3) [OF that(1), of t k] that(2,3) by (force simp: estimate_le_iff)
  ultimately show ?thesis by (auto simp: estimate_le_iff truncate_text_to_token_budget_def)
qed

theorem truncated_text_fits_witness:
  "estimate_text_tokens (truncate_text_to_token_budget (replicate 40 97) 4) \<le> 4 \<and> truncate_text_to_token_budget [0x4E2D, 0x6587] 3 = [0x4E2D, 0x6587]"
  using truncated_text_fits [of 4 "replicate 40 97" 0 0] truncated_text_fits [of 3 "[0x4E2D, 0x6587]" 0 0]
  by (simp add: estimate_text_tokens_def isascii_def char_units_def)

end
