(* ===== verification/Session_Messages.thy ===== *)
theory Session_Messages
  imports Token_Estimation
begin

text \<open>
  \<open>openviking/message/part.py\<close> and \<open>openviking/message/message.py\<close>: the parts of a message and its token estimate.

  The field \<open>m_ref\<close> stands for the identity of a message object. The parameter \<open>dumps\<close> is \<open>json.dumps\<close> with non-ASCII characters kept.
\<close>

section \<open>Definitions\<close>

record tool_part =
  tp_tool_id :: ustring
  tp_tool_name :: ustring
  tp_tool_uri :: ustring
  tp_skill_uri :: ustring
  tp_tool_input :: "pydict option"
  tp_tool_output :: ustring
  tp_tool_status :: ustring
  tp_duration_ms :: "real option"
  tp_prompt_tokens :: "int option"
  tp_completion_tokens :: "int option"
  tp_output_ref :: ustring
  tp_output_truncated :: bool
  tp_output_original_chars :: "int option"
  tp_output_preview_chars :: "int option"
  tp_output_sha256 :: ustring
  tp_output_storage_uri :: ustring
  tp_output_mime_type :: ustring
  tp_output_source_ref :: ustring
  tp_output_source_offset :: "int option"
  tp_output_source_limit :: "int option"
  tp_output_externalization_error :: ustring
  tp_output_group_id :: ustring
  tp_output_externalized_reason :: ustring
  tp_output_group_original_chars :: "int option"
  tp_output_group_budget_chars :: "int option"

text \<open>A context part has its URI, its type and its abstract; an image part its URL and its detail.\<close>

datatype part =
    TextPart ustring
  | ContextPart ustring ustring ustring
  | ImagePart ustring "ustring option"
  | ToolPart tool_part

record message =
  m_ref :: nat
  m_id :: string
  m_role :: string
  m_parts :: "part list"
  m_peer_id :: "string option"
  m_created_at :: "string option"
  m_turn_id :: "string option"
  m_message_kind :: "string option"
  m_source_message_ids :: "string list option"

definition input_text :: "(pydict \<Rightarrow> ustring) \<Rightarrow> tool_part \<Rightarrow> ustring" where
  "input_text dumps tp = (case tp_tool_input tp of None \<Rightarrow> [] | Some d \<Rightarrow> if d = [] then [] else dumps d)"

fun part_text :: "(pydict \<Rightarrow> ustring) \<Rightarrow> part \<Rightarrow> ustring" where
  "part_text dumps (TextPart t) = t"
| "part_text dumps (ContextPart uri ty abstract) = abstract"
| "part_text dumps (ImagePart url detail) = []"
| "part_text dumps (ToolPart tp) = tp_tool_id tp @ tp_tool_name tp @ input_text dumps tp @ tp_tool_output tp"

definition estimated_tokens :: "(pydict \<Rightarrow> ustring) \<Rightarrow> message \<Rightarrow> int" where
  "estimated_tokens dumps m = estimate_text_tokens (concat (map (part_text dumps) (m_parts m)))"

definition message_tokens :: "(pydict \<Rightarrow> ustring) \<Rightarrow> message list \<Rightarrow> int" where
  "message_tokens dumps ms = sum_list (map (estimated_tokens dumps) ms)"

section \<open>Tokens of messages\<close>

definition part_units :: "(pydict \<Rightarrow> ustring) \<Rightarrow> part \<Rightarrow> int" where
  "part_units dumps p = text_units (part_text dumps p)"

definition message_units :: "(pydict \<Rightarrow> ustring) \<Rightarrow> message \<Rightarrow> int" where
  "message_units dumps m = sum_list (map (part_units dumps) (m_parts m))"

lemma part_units_nonneg [simp]: "0 \<le> part_units dumps p"
  by (simp add: part_units_def)

lemma estimated_tokens_eq: "estimated_tokens dumps m = (message_units dumps m + 3) div 4"
proof -
  have "text_units (concat (map (part_text dumps) ps)) = sum_list (map (part_units dumps) ps)" for ps
    by (induction ps) (simp_all add: part_units_def)
  then show ?thesis by (simp add: estimated_tokens_def estimate_eq message_units_def)
qed

lemma estimated_tokens_nonneg [simp]: "0 \<le> estimated_tokens dumps m"
  by (simp add: estimated_tokens_def)

lemma message_tokens_simps [simp]:
  "message_tokens dumps [] = 0" "message_tokens dumps (m # ms) = estimated_tokens dumps m + message_tokens dumps ms"
  "message_tokens dumps (xs @ ys) = message_tokens dumps xs + message_tokens dumps ys"
  by (simp_all add: message_tokens_def)

lemma message_tokens_nonneg [simp]: "0 \<le> message_tokens dumps ms"
  by (induction ms) (simp_all add: add_nonneg_nonneg)

end
