(* ===== verification/Session_Retention.thy ===== *)
theory Session_Retention
  imports Session_Messages
begin

text \<open>
  The planner of \<open>openviking/session/retention.py\<close>: messages are grouped into turns and steps, and the boundary between archived and live
  messages is chosen under a number of turns and a token budget.
\<close>

section \<open>Definitions\<close>

definition CHECKPOINT_TOKEN_RESERVE :: int where
  "CHECKPOINT_TOKEN_RESERVE = 1024"

definition is_tool_part :: "part \<Rightarrow> bool" where
  "is_tool_part p = (case p of ToolPart _ \<Rightarrow> True | _ \<Rightarrow> False)"

definition is_tool_transport :: "message \<Rightarrow> bool" where
  "is_tool_transport m =
     (if m_message_kind m = Some ''tool_transport'' then True
      else if m_message_kind m = Some ''user_query'' then False
      else m_parts m \<noteq> [] \<and> m_role m = ''user'' \<and> list_all is_tool_part (m_parts m))"

definition is_user_query :: "message \<Rightarrow> bool" where
  "is_user_query m =
     (if m_message_kind m = Some ''user_query'' then True
      else if m_message_kind m = Some ''tool_transport'' then False
      else m_role m = ''user'' \<and> \<not> is_tool_transport m)"

record assistant_step =
  as_messages :: "message list"

definition step_tokens :: "(pydict \<Rightarrow> ustring) \<Rightarrow> assistant_step \<Rightarrow> int" where
  "step_tokens dumps st = message_tokens dumps (as_messages st)"

record user_turn =
  ut_anchor :: "message option"
  ut_steps :: "assistant_step list"

definition opt_list :: "'a option \<Rightarrow> 'a list" where
  "opt_list x = (case x of None \<Rightarrow> [] | Some y \<Rightarrow> [y])"

definition steps_messages :: "assistant_step list \<Rightarrow> message list" where
  "steps_messages ss = concat (map as_messages ss)"

definition turn_messages :: "user_turn \<Rightarrow> message list" where
  "turn_messages t = opt_list (ut_anchor t) @ steps_messages (ut_steps t)"

definition turn_tokens :: "(pydict \<Rightarrow> ustring) \<Rightarrow> user_turn \<Rightarrow> int" where
  "turn_tokens dumps t = message_tokens dumps (turn_messages t)"

record retention_plan =
  rp_archive_messages :: "message list"
  rp_retained_messages :: "message list"
  rp_turn_anchor :: "message option"
  rp_checkpoint_source_message_ids :: "string list"
  rp_raw_tail_start_message_id :: "string option"
  rp_estimated_active_tokens :: int
  rp_budget_exceeded :: bool
  rp_partial_turn :: bool

text \<open>The defaults of the other fields of a plan.\<close>

definition simple_plan :: "message list \<Rightarrow> message list \<Rightarrow> int \<Rightarrow> retention_plan" where
  "simple_plan archive retained tokens =
     \<lparr>rp_archive_messages = archive, rp_retained_messages = retained, rp_turn_anchor = None, rp_checkpoint_source_message_ids = [],
      rp_raw_tail_start_message_id = None, rp_estimated_active_tokens = tokens, rp_budget_exceeded = False, rp_partial_turn = False\<rparr>"

definition append_to_turn :: "user_turn \<Rightarrow> message \<Rightarrow> user_turn" where
  "append_to_turn t m =
     (if is_tool_transport m \<and> ut_steps t \<noteq> []
      then t\<lparr>ut_steps := butlast (ut_steps t) @ [(last (ut_steps t))\<lparr>as_messages := as_messages (last (ut_steps t)) @ [m]\<rparr>]\<rparr>
      else t\<lparr>ut_steps := ut_steps t @ [\<lparr>as_messages = [m]\<rparr>]\<rparr>)"

text \<open>One pass of the loop; the current turn is the last one.\<close>

definition add_message :: "user_turn list \<Rightarrow> message \<Rightarrow> user_turn list" where
  "add_message turns m =
     (if is_user_query m then turns @ [\<lparr>ut_anchor = Some m, ut_steps = []\<rparr>]
      else if turns = [] then [append_to_turn \<lparr>ut_anchor = None, ut_steps = []\<rparr> m]
      else butlast turns @ [append_to_turn (last turns) m])"

definition build_turns :: "message list \<Rightarrow> user_turn list" where
  "build_turns ms = foldl add_message [] ms"

definition flatten_turns :: "user_turn list \<Rightarrow> message list" where
  "flatten_turns ts = concat (map turn_messages ts)"

text \<open>The loop that takes earlier steps into the tail; the result is the first retained step.\<close>

primrec extend_tail :: "(pydict \<Rightarrow> ustring) \<Rightarrow> assistant_step list \<Rightarrow> int \<Rightarrow> nat \<Rightarrow> int \<Rightarrow> nat" where
  "extend_tail dumps steps raw_budget 0 tokens = 0"
| "extend_tail dumps steps raw_budget (Suc i) tokens =
     (if tokens + step_tokens dumps (steps ! i) > raw_budget then Suc i
      else extend_tail dumps steps raw_budget i (tokens + step_tokens dumps (steps ! i)))"

definition partial_latest_turn_plan :: "(pydict \<Rightarrow> ustring) \<Rightarrow> user_turn list \<Rightarrow> user_turn \<Rightarrow> int \<Rightarrow> int \<Rightarrow> retention_plan" where
  "partial_latest_turn_plan dumps older latest token_budget min_raw_tail_steps =
     (let anchor = ut_anchor latest;
          steps = ut_steps latest;
          min_tail = (if steps = [] then 0 else nat (max 1 min_raw_tail_steps));
          first = length steps - min_tail;
          tokens = message_tokens dumps (opt_list anchor) + message_tokens dumps (steps_messages (drop first steps));
          checkpoint_reserve = min CHECKPOINT_TOKEN_RESERVE (max 0 (token_budget div 4));
          raw_budget = max 0 (token_budget - checkpoint_reserve);
          first_retained = extend_tail dumps steps raw_budget first tokens;
          retained_steps = drop first_retained steps;
          archived_source = steps_messages (take first_retained steps);
          retained = opt_list anchor @ steps_messages retained_steps;
          archive = flatten_turns older @ (if archived_source = [] then [] else opt_list anchor @ archived_source);
          active_tokens = message_tokens dumps retained
      in \<lparr>rp_archive_messages = archive, rp_retained_messages = retained, rp_turn_anchor = anchor,
          rp_checkpoint_source_message_ids = map m_id archived_source,
          rp_raw_tail_start_message_id =
            (case retained_steps of [] \<Rightarrow> None | st # _ \<Rightarrow> (case as_messages st of [] \<Rightarrow> None | m # _ \<Rightarrow> Some (m_id m))),
          rp_estimated_active_tokens = active_tokens, rp_budget_exceeded = active_tokens > token_budget,
          rp_partial_turn = (archived_source \<noteq> [])\<rparr>)"

text \<open>The loop that evicts the oldest retained turn.\<close>

function evict_start :: "(pydict \<Rightarrow> ustring) \<Rightarrow> user_turn list \<Rightarrow> int \<Rightarrow> nat \<Rightarrow> nat" where
  "evict_start dumps turns token_budget start =
     (if length (drop start turns) > 1 \<and> sum_list (map (turn_tokens dumps) (drop start turns)) > token_budget
      then evict_start dumps turns token_budget (start + 1) else start)"
  by pat_completeness auto
termination
  by (relation "measure (\<lambda>(_, turns, _, start). length turns - start)") auto

declare evict_start.simps [simp del]

definition plan_retention :: "(pydict \<Rightarrow> ustring) \<Rightarrow> message list \<Rightarrow> int \<Rightarrow> int \<Rightarrow> int \<Rightarrow> retention_plan" where
  "plan_retention dumps messages keep_recent_turn_count token_budget min_raw_tail_steps =
     (let keep = max 0 keep_recent_turn_count; budget = max 0 token_budget; turns = build_turns messages in
      if turns = [] \<or> keep = 0 then simple_plan messages [] 0
      else
        let start = evict_start dumps turns budget (length turns - nat keep);
            retained_turns = drop start turns;
            older = take start turns;
            latest = last retained_turns
        in if turn_tokens dumps latest > budget
           then (if ut_anchor latest = None then simple_plan (flatten_turns (older @ [latest])) [] 0
                 else partial_latest_turn_plan dumps older latest budget min_raw_tail_steps)
           else simple_plan (flatten_turns older) (flatten_turns retained_turns) (message_tokens dumps (flatten_turns retained_turns)))"

section \<open>Turns\<close>

lemma steps_messages_simps [simp]: "steps_messages [] = []" "steps_messages (st # ss) = as_messages st @ steps_messages ss"
  "steps_messages (xs @ ys) = steps_messages xs @ steps_messages ys"
  by (simp_all add: steps_messages_def)

lemma flatten_simps [simp]: "flatten_turns [] = []" "flatten_turns (t # ts) = turn_messages t @ flatten_turns ts"
  "flatten_turns (xs @ ys) = flatten_turns xs @ flatten_turns ys"
  by (simp_all add: flatten_turns_def)

lemma opt_list_simps [simp]: "opt_list None = []" "opt_list (Some x) = [x]"
  by (simp_all add: opt_list_def)

lemma append_to_turn_messages: "turn_messages (append_to_turn t m) = turn_messages t @ [m]"
  by (cases "ut_steps t" rule: rev_cases) (simp_all add: append_to_turn_def turn_messages_def)

lemma add_message_flatten: "flatten_turns (add_message ts m) = flatten_turns ts @ [m]"
  by (cases ts rule: rev_cases) (simp_all add: add_message_def append_to_turn_messages, simp_all add: turn_messages_def)

lemma build_turns_flatten: "flatten_turns (build_turns ms) = ms"
proof -
  have "flatten_turns (foldl add_message ts ms) = flatten_turns ts @ ms" for ts
    by (induction ms arbitrary: ts) (simp_all add: add_message_flatten)
  then show ?thesis by (simp add: build_turns_def)
qed

text \<open>Shape of a turn: its anchor is a user query, nothing else in it is, no step is empty, and only the first step of a turn
  may begin with transported tool results, which then stand alone in front of an answer.\<close>

definition step_ok :: "assistant_step \<Rightarrow> bool" where
  "step_ok st \<longleftrightarrow> as_messages st \<noteq> [] \<and> list_all is_tool_transport (tl (as_messages st)) \<and> (\<forall>m \<in> set (as_messages st). \<not> is_user_query m)"

definition turn_ok :: "user_turn \<Rightarrow> bool" where
  "turn_ok t \<longleftrightarrow> (\<forall>m. ut_anchor t = Some m \<longrightarrow> is_user_query m) \<and> (\<forall>st \<in> set (ut_steps t). step_ok st)
     \<and> (\<forall>st \<in> set (tl (ut_steps t)). \<not> is_tool_transport (hd (as_messages st))) \<and> turn_messages t \<noteq> []"

definition turns_ok :: "user_turn list \<Rightarrow> bool" where
  "turns_ok ts \<longleftrightarrow> (\<forall>t \<in> set ts. turn_ok t) \<and> (\<forall>t \<in> set (tl ts). ut_anchor t \<noteq> None)"

lemma append_to_turn_ok:
  assumes "turn_ok t \<or> t = \<lparr>ut_anchor = None, ut_steps = []\<rparr>" "\<not> is_user_query m"
  shows "turn_ok (append_to_turn t m)" "ut_anchor (append_to_turn t m) = ut_anchor t"
proof -
  show "ut_anchor (append_to_turn t m) = ut_anchor t" by (simp add: append_to_turn_def)
  show "turn_ok (append_to_turn t m)"
  proof (cases "ut_steps t" rule: rev_cases)
    case Nil
    then show ?thesis using assms by (auto simp: turn_ok_def append_to_turn_def step_ok_def turn_messages_def)
  next
    case (snoc ss st)
    have ok: "turn_ok t" using assms(1) snoc by auto
    then have st: "step_ok st" "\<forall>s \<in> set ss. step_ok s" using snoc by (auto simp: turn_ok_def)
    have hd: "\<forall>s \<in> set (tl (ss @ [s'])). \<not> is_tool_transport (hd (as_messages s))"
      if "ss \<noteq> [] \<Longrightarrow> \<not> is_tool_transport (hd (as_messages s'))" for s'
      using ok snoc that by (cases ss) (auto simp: turn_ok_def)
    show ?thesis
    proof (cases "is_tool_transport m")
      case True
      let ?s = "st\<lparr>as_messages := as_messages st @ [m]\<rparr>"
      have "step_ok ?s" using st(1) True assms(2) by (auto simp: step_ok_def tl_append split: list.split)
      moreover have "ss \<noteq> [] \<Longrightarrow> \<not> is_tool_transport (hd (as_messages ?s))"
        using ok snoc st(1) by (cases ss) (auto simp: turn_ok_def step_ok_def)
      ultimately show ?thesis using ok snoc True st(2) hd [of ?s] by (auto simp: turn_ok_def append_to_turn_def turn_messages_def step_ok_def)
    next
      case False
      then show ?thesis using ok snoc st assms(2) by (auto simp: turn_ok_def append_to_turn_def turn_messages_def step_ok_def tl_append split: list.splits)
    qed
  qed
qed

lemma add_message_ok: "turns_ok ts \<Longrightarrow> turns_ok (add_message ts m)"
proof (cases ts rule: rev_cases)
  case Nil
  then show ?thesis using append_to_turn_ok(1) [of "\<lparr>ut_anchor = None, ut_steps = []\<rparr>" m]
    by (auto simp: turns_ok_def add_message_def) (simp add: turn_ok_def turn_messages_def)
next
  case (snoc xs t)
  assume ok: "turns_ok ts"
  have new: "turn_ok \<lparr>ut_anchor = Some m, ut_steps = []\<rparr>" if "is_user_query m" using that by (simp add: turn_ok_def turn_messages_def)
  have "turn_ok t" using ok snoc by (simp add: turns_ok_def)
  then show ?thesis using ok snoc new append_to_turn_ok [of t m]
    by (cases xs) (auto simp: turns_ok_def add_message_def)
qed

lemma build_turns_ok: "turns_ok (build_turns ms)"
proof -
  have "turns_ok ts \<Longrightarrow> turns_ok (foldl add_message ts ms)" for ts
    by (induction ms arbitrary: ts) (simp_all add: add_message_ok)
  from this [of "[]"] show ?thesis by (simp add: build_turns_def turns_ok_def)
qed

section \<open>The plan\<close>

lemma flatten_tokens: "message_tokens dumps (flatten_turns ts) = sum_list (map (turn_tokens dumps) ts)"
  by (induction ts) (simp_all add: turn_tokens_def)

lemma turn_tokens_nonneg [simp]: "0 \<le> turn_tokens dumps t"
  by (simp add: turn_tokens_def)

lemma last_turn_tokens: "ts \<noteq> [] \<Longrightarrow> turn_tokens dumps (last ts) \<le> sum_list (map (turn_tokens dumps) ts)"
proof -
  assume "ts \<noteq> []"
  then have "ts = butlast ts @ [last ts]" by simp
  moreover have "0 \<le> sum_list (map (turn_tokens dumps) (butlast ts))" by (rule sum_list_nonneg) auto
  ultimately show ?thesis by (metis (no_types, lifting) add_increasing list.simps(8,9) map_append order_refl sum_list.Cons sum_list.Nil sum_list_append add.right_neutral)
qed

lemma evict_start_spec:
  "start < length turns \<Longrightarrow> (let s = evict_start dumps turns budget start in start \<le> s \<and> s < length turns
    \<and> (s = length turns - 1 \<or> sum_list (map (turn_tokens dumps) (drop s turns)) \<le> budget))"
proof (induction dumps turns budget start rule: evict_start.induct)
  case (1 dumps turns budget start)
  show ?case
  proof (cases "length (drop start turns) > 1 \<and> sum_list (map (turn_tokens dumps) (drop start turns)) > budget")
    case True
    then have "evict_start dumps turns budget start = evict_start dumps turns budget (start + 1)" by (simp add: evict_start.simps [of _ _ _ start])
    moreover have "start + 1 < length turns" using True by auto
    ultimately show ?thesis using 1(1) [OF True] by (auto simp: Let_def)
  next
    case False
    then have "evict_start dumps turns budget start = start" by (subst evict_start.simps) (simp only: if_False)
    then show ?thesis using 1(2) False by (auto simp: Let_def)
  qed
qed

lemma split_last: "xs \<noteq> [] \<Longrightarrow> s = length xs - 1 \<Longrightarrow> take s xs = butlast xs \<and> drop s xs = [last xs]"
  by (cases xs rule: rev_cases) auto

lemma plan_cases:
  obtains (none) "plan_retention dumps ms keep budget mt = simple_plan ms [] 0"
  | (turns) s where "0 < keep" "s < length (build_turns ms)" "length (build_turns ms) - s \<le> nat keep"
      "message_tokens dumps (flatten_turns (drop s (build_turns ms))) \<le> max 0 budget"
      "plan_retention dumps ms keep budget mt = simple_plan (flatten_turns (take s (build_turns ms))) (flatten_turns (drop s (build_turns ms)))
         (message_tokens dumps (flatten_turns (drop s (build_turns ms))))"
  | (partial) older latest anchor where "0 < keep" "build_turns ms = older @ [latest]" "ut_anchor latest = Some anchor" "turn_tokens dumps latest > max 0 budget"
      "plan_retention dumps ms keep budget mt = partial_latest_turn_plan dumps older latest (max 0 budget) mt"
proof -
  let ?ts = "build_turns ms" and ?b = "max 0 budget" and ?p = "plan_retention dumps ms keep budget mt"
  show thesis
  proof (cases "?ts = [] \<or> keep \<le> 0")
    case True
    then have "?p = simple_plan ms [] 0" by (auto simp: plan_retention_def Let_def)
    then show ?thesis by (rule none)
  next
    case False
    define s where "s = evict_start dumps ?ts ?b (length ?ts - nat keep)"
    have lt: "length ?ts - nat keep < length ?ts" using False by simp
    have s: "length ?ts - nat keep \<le> s" "s < length ?ts" "s = length ?ts - 1 \<or> sum_list (map (turn_tokens dumps) (drop s ?ts)) \<le> ?b"
      using evict_start_spec [OF lt, of dumps ?b] by (auto simp: s_def Let_def)
    define latest where "latest = last (drop s ?ts)"
    have p: "?p = (if turn_tokens dumps latest > ?b
           then (if ut_anchor latest = None then simple_plan (flatten_turns (take s ?ts @ [latest])) [] 0
                 else partial_latest_turn_plan dumps (take s ?ts) latest ?b mt)
           else simple_plan (flatten_turns (take s ?ts)) (flatten_turns (drop s ?ts)) (message_tokens dumps (flatten_turns (drop s ?ts))))"
      using False by (simp add: plan_retention_def s_def latest_def Let_def)
    show ?thesis
    proof (cases "turn_tokens dumps latest > ?b")
      case True
      then have "s = length ?ts - 1" using s(2,3) last_turn_tokens [of "drop s ?ts" dumps] by (auto simp: latest_def)
      then have e: "take s ?ts = butlast ?ts" "drop s ?ts = [last ?ts]" using split_last [of ?ts s] False by blast+
      then have l: "latest = last ?ts" by (simp add: latest_def)
      have ts: "?ts = take s ?ts @ [latest]" unfolding e(1) l by (rule append_butlast_last_id [symmetric]) (use False in blast)
      then have fl: "flatten_turns (take s ?ts @ [latest]) = ms" using build_turns_flatten [of ms] by metis
      show ?thesis
      proof (cases "ut_anchor latest")
        case None
        then show ?thesis using p True fl by (intro none) simp
      next
        case (Some anchor)
        with p True False ts show ?thesis by (intro partial [of "take s ?ts" latest anchor]) simp_all
      qed
    next
      case small: False
      then have "sum_list (map (turn_tokens dumps) (drop s ?ts)) \<le> ?b"
      proof (cases "s = length ?ts - 1")
        case True
        then have "drop s ?ts = [last ?ts]" using split_last [of ?ts s] False by blast
        then have "drop s ?ts = [latest]" by (simp add: latest_def)
        then show ?thesis using small by (auto simp: le_max_iff_disj)
      qed (use s(3) in simp)
      then show ?thesis using p small s False by (intro turns [of s]) (auto simp: flatten_tokens)
    qed
  qed
qed

lemma extend_tail_spec:
  "first \<le> length steps \<Longrightarrow> tokens = base + message_tokens dumps (steps_messages (drop first steps)) \<Longrightarrow>
    (let f = extend_tail dumps steps raw first tokens in f \<le> first \<and> (f = first \<or> base + message_tokens dumps (steps_messages (drop f steps)) \<le> raw))"
proof (induction first arbitrary: tokens)
  case (Suc i)
  have d: "drop i steps = steps ! i # drop (Suc i) steps" using Suc.prems(1) by (simp add: Cons_nth_drop_Suc)
  show ?case
  proof (cases "tokens + step_tokens dumps (steps ! i) > raw")
    case False
    have "tokens + step_tokens dumps (steps ! i) = base + message_tokens dumps (steps_messages (drop i steps))"
      using Suc.prems(2) d by (simp add: step_tokens_def)
    with Suc.IH [OF _ this] Suc.prems(1) False show ?thesis by (auto simp: Let_def)
  qed (simp add: Let_def)
qed (simp add: Let_def)

text \<open>The split of a turn after its first \<open>f\<close> steps.\<close>

definition splits_turn :: "(pydict \<Rightarrow> ustring) \<Rightarrow> retention_plan \<Rightarrow> message list \<Rightarrow> message \<Rightarrow> assistant_step list \<Rightarrow> int \<Rightarrow> int \<Rightarrow> nat \<Rightarrow> bool" where
  "splits_turn dumps p older anchor ss budget mt f \<longleftrightarrow>
     f \<le> length ss \<and> (ss \<noteq> [] \<longrightarrow> f < length ss) \<and> rp_retained_messages p = anchor # steps_messages (drop f ss) \<and> (rp_partial_turn p \<longleftrightarrow> f \<noteq> 0)
     \<and> rp_archive_messages p = older @ (if f = 0 then [] else anchor # steps_messages (take f ss))
     \<and> rp_checkpoint_source_message_ids p = map m_id (steps_messages (take f ss))
     \<and> (f \<noteq> 0 \<longrightarrow> rp_raw_tail_start_message_id p = Some (m_id (hd (steps_messages (drop f ss)))))
     \<and> rp_turn_anchor p = Some anchor \<and> rp_estimated_active_tokens p = message_tokens dumps (rp_retained_messages p)
     \<and> (rp_budget_exceeded p \<longleftrightarrow> message_tokens dumps (rp_retained_messages p) > budget)
     \<and> (message_tokens dumps (rp_retained_messages p) \<le> max 0 budget \<or> f = length ss - nat (max 1 mt))"

lemma partial_plan_spec:
  fixes dumps older latest budget mt
  defines "p \<equiv> partial_latest_turn_plan dumps older latest budget mt"
  assumes "turn_ok latest" "ut_anchor latest = Some anchor"
  shows "\<exists>f. splits_turn dumps p (flatten_turns older) anchor (ut_steps latest) budget mt f"
proof -
  let ?ss = "ut_steps latest"
  define first where "first = length ?ss - (if ?ss = [] then 0 else nat (max 1 mt))"
  define raw where "raw = max 0 (budget - min CHECKPOINT_TOKEN_RESERVE (max 0 (budget div 4)))"
  define tokens where "tokens = message_tokens dumps [anchor] + message_tokens dumps (steps_messages (drop first ?ss))"
  define f where "f = extend_tail dumps ?ss raw first tokens"
  have f: "f \<le> first" "f = first \<or> message_tokens dumps [anchor] + message_tokens dumps (steps_messages (drop f ?ss)) \<le> raw"
    using extend_tail_spec [of first ?ss tokens "message_tokens dumps [anchor]" dumps raw] by (auto simp: first_def tokens_def f_def Let_def)
  have first: "first \<le> length ?ss" "?ss \<noteq> [] \<Longrightarrow> first < length ?ss" by (auto simp: first_def)
  have raw: "raw \<le> max 0 budget" by (auto simp: raw_def CHECKPOINT_TOKEN_RESERVE_def)
  have ne: "as_messages st \<noteq> []" if "st \<in> set ?ss" for st using assms(2) that by (simp add: turn_ok_def step_ok_def)
  have take: "steps_messages (take f ?ss) = [] \<longleftrightarrow> f = 0"
    using ne f(1) first by (cases ?ss; cases f) auto
  have p: "p = \<lparr>rp_archive_messages = flatten_turns older @ (if f = 0 then [] else anchor # steps_messages (take f ?ss)),
      rp_retained_messages = anchor # steps_messages (drop f ?ss), rp_turn_anchor = Some anchor,
      rp_checkpoint_source_message_ids = map m_id (steps_messages (take f ?ss)),
      rp_raw_tail_start_message_id = (case drop f ?ss of [] \<Rightarrow> None | st # _ \<Rightarrow> (case as_messages st of [] \<Rightarrow> None | m # _ \<Rightarrow> Some (m_id m))),
      rp_estimated_active_tokens = message_tokens dumps (anchor # steps_messages (drop f ?ss)),
      rp_budget_exceeded = message_tokens dumps (anchor # steps_messages (drop f ?ss)) > budget, rp_partial_turn = (f \<noteq> 0)\<rparr>"
    unfolding p_def partial_latest_turn_plan_def Let_def assms(3) opt_list_simps first_def [symmetric] raw_def [symmetric] tokens_def [symmetric] f_def [symmetric]
    by (simp add: take)
  have "f \<noteq> 0 \<Longrightarrow> rp_raw_tail_start_message_id p = Some (m_id (hd (steps_messages (drop f ?ss))))"
  proof -
    assume "f \<noteq> 0"
    then have "f < length ?ss" using f(1) first by (cases ?ss) auto
    then obtain st ss where d: "drop f ?ss = st # ss" by (metis Cons_nth_drop_Suc)
    then have "st \<in> set ?ss" by (metis in_set_dropD list.set_intros(1))
    from ne [OF this] show ?thesis using d p by (cases "as_messages st") simp_all
  qed
  moreover have "message_tokens dumps (rp_retained_messages p) \<le> max 0 budget \<or> f = length ?ss - nat (max 1 mt)"
    using f(2) raw p first_def f(1) by (cases ?ss) auto
  moreover have "f \<le> length ?ss" "?ss \<noteq> [] \<longrightarrow> f < length ?ss" using f(1) first by fastforce+
  ultimately have "splits_turn dumps p (flatten_turns older) anchor ?ss budget mt f" by (simp add: splits_turn_def p)
  then show ?thesis by blast
qed

lemma turn_queries: "turn_ok t \<Longrightarrow> filter is_user_query (steps_messages ss) = [] \<Longrightarrow> length (filter is_user_query (opt_list (ut_anchor t) @ steps_messages ss)) \<le> 1"
  by (cases "ut_anchor t") auto

lemma step_queries: "\<forall>st \<in> set ss. step_ok st \<Longrightarrow> filter is_user_query (steps_messages ss) = []"
  by (induction ss) (auto simp: step_ok_def)

lemma turns_queries: "\<forall>t \<in> set ts. turn_ok t \<Longrightarrow> length (filter is_user_query (flatten_turns ts)) \<le> length ts"
proof (induction ts)
  case (Cons t ts)
  have "filter is_user_query (steps_messages (ut_steps t)) = []" using Cons.prems by (intro step_queries) (simp add: turn_ok_def)
  from turn_queries [OF _ this] have "length (filter is_user_query (turn_messages t)) \<le> 1" using Cons.prems by (simp add: turn_messages_def)
  then show ?case using Cons by auto
qed simp

section \<open>Properties\<close>

text \<open>Property C21. Planning loses no message and cuts no exchange apart. Either the archived messages followed by the retained ones are all
  messages, and then a boundary between them is in front of a user query; or the last turn is split: the archive ends with its query
  and the part that is to be summarised, the query is retained with the rest of the turn, and the rest does not begin with
  transported tool results, so these stay with the answer that asked for them.\<close>

theorem retention_loses_nothing:
  fixes dumps ms keep budget mt
  defines "p \<equiv> plan_retention dumps ms keep budget mt"
  shows "if rp_partial_turn p
    then \<exists>older anchor mid rest. ms = older @ anchor # mid @ rest \<and> is_user_query anchor \<and> mid \<noteq> [] \<and> rest \<noteq> [] \<and> \<not> is_tool_transport (hd rest)
        \<and> rp_archive_messages p = older @ anchor # mid \<and> rp_retained_messages p = anchor # rest \<and> rp_turn_anchor p = Some anchor
        \<and> rp_checkpoint_source_message_ids p = map m_id mid \<and> rp_raw_tail_start_message_id p = Some (m_id (hd rest))
    else rp_archive_messages p @ rp_retained_messages p = ms \<and> rp_checkpoint_source_message_ids p = []
        \<and> (rp_archive_messages p \<noteq> [] \<and> rp_retained_messages p \<noteq> [] \<longrightarrow> is_user_query (hd (rp_retained_messages p)))"
proof (cases rule: plan_cases [of dumps ms keep budget mt])
  case none
  then show ?thesis by (simp add: p_def simple_plan_def)
next
  case (turns s)
  let ?ts = "build_turns ms"
  have "flatten_turns (take s ?ts) @ flatten_turns (drop s ?ts) = ms"
    using build_turns_flatten [of ms] flatten_simps(3) [of "take s ?ts" "drop s ?ts"] by simp
  moreover have "is_user_query (hd (flatten_turns (drop s ?ts)))" if "flatten_turns (take s ?ts) \<noteq> []"
  proof -
    have s: "0 < s" using that by (cases s) auto
    have d: "drop s ?ts = ?ts ! s # drop (Suc s) ?ts" using turns(2) by (simp add: Cons_nth_drop_Suc)
    have "?ts ! s \<in> set (tl ?ts)" using s turns(2) by (cases ?ts; cases s) auto
    then obtain m where m: "ut_anchor (?ts ! s) = Some m" using build_turns_ok [of ms] by (auto simp: turns_ok_def)
    moreover have "turn_ok (?ts ! s)" using build_turns_ok [of ms] turns(2) by (simp add: turns_ok_def)
    ultimately show ?thesis unfolding d by (simp add: turn_messages_def turn_ok_def)
  qed
  ultimately show ?thesis using turns(5) by (simp add: p_def simple_plan_def)
next
  case (partial older latest anchor)
  have ok: "turn_ok latest" using build_turns_ok [of ms] partial(2) by (simp add: turns_ok_def)
  have ms: "ms = flatten_turns older @ anchor # steps_messages (ut_steps latest)"
    using build_turns_flatten [of ms] partial(2,3) by (simp add: turn_messages_def)
  obtain f where sp: "splits_turn dumps p (flatten_turns older) anchor (ut_steps latest) (max 0 budget) mt f"
    using partial_plan_spec [OF ok partial(3)] unfolding p_def partial(5) by blast
  have f: "f \<le> length (ut_steps latest)" "ut_steps latest \<noteq> [] \<Longrightarrow> f < length (ut_steps latest)"
      "rp_retained_messages p = anchor # steps_messages (drop f (ut_steps latest))" "rp_partial_turn p \<longleftrightarrow> f \<noteq> 0"
      "rp_archive_messages p = flatten_turns older @ (if f = 0 then [] else anchor # steps_messages (take f (ut_steps latest)))"
      "rp_checkpoint_source_message_ids p = map m_id (steps_messages (take f (ut_steps latest)))"
      "f \<noteq> 0 \<Longrightarrow> rp_raw_tail_start_message_id p = Some (m_id (hd (steps_messages (drop f (ut_steps latest)))))" "rp_turn_anchor p = Some anchor"
    using sp unfolding splits_turn_def by blast+
  have q: "is_user_query anchor" using ok partial(3) by (simp add: turn_ok_def)
  show ?thesis
  proof (cases "f = 0")
    case True
    then show ?thesis using f ms q by (auto simp: hd_append)
  next
    case False
    let ?ss = "ut_steps latest" let ?mid = "steps_messages (take f ?ss)" let ?rest = "steps_messages (drop f ?ss)"
    have lt: "f < length ?ss" using f(1,2) False by (cases ?ss) auto
    have all: "steps_messages ?ss = ?mid @ ?rest" using steps_messages_simps(3) [of "take f ?ss" "drop f ?ss"] by simp
    have d: "drop f ?ss = ?ss ! f # drop (Suc f) ?ss" using lt by (simp add: Cons_nth_drop_Suc)
    have "?ss ! f \<in> set (tl ?ss)" using lt False by (cases ?ss; cases f) auto
    then have nt: "\<not> is_tool_transport (hd (as_messages (?ss ! f)))" and ne: "as_messages (?ss ! f) \<noteq> []"
      using ok lt by (auto simp: turn_ok_def step_ok_def)
    have "as_messages (hd ?ss) \<noteq> []" using ok lt by (cases ?ss) (auto simp: turn_ok_def step_ok_def)
    then have "?mid \<noteq> []" using False lt by (cases ?ss; cases f) auto
    moreover have "?rest \<noteq> []" "\<not> is_tool_transport (hd ?rest)" unfolding d using nt ne by (simp_all add: hd_append)
    moreover have "ms = flatten_turns older @ anchor # ?mid @ ?rest" using ms all by simp
    ultimately show ?thesis using f(3-8) False q by (simp only: if_True not_False_eq_True if_False simp_thms if_P) (intro exI conjI; assumption?; simp)
  qed
qed

text \<open>Property C35. The retained messages stay within the budget and the number of turns: there are at most as many user queries as turns are to
  be kept, the reported tokens are those of the retained messages, and when they exceed the budget the plan says so and
  nothing is retained but the last query and the steps that must be kept.\<close>

theorem retention_respects_budget:
  fixes dumps ms keep budget mt
  defines "p \<equiv> plan_retention dumps ms keep budget mt"
  shows "length (filter is_user_query (rp_retained_messages p)) \<le> nat keep
    \<and> rp_estimated_active_tokens p = message_tokens dumps (rp_retained_messages p)
    \<and> (rp_budget_exceeded p \<longleftrightarrow> message_tokens dumps (rp_retained_messages p) > max 0 budget)
    \<and> (rp_budget_exceeded p \<longrightarrow> (let t = last (build_turns ms) in
        rp_retained_messages p = opt_list (ut_anchor t) @ steps_messages (drop (length (ut_steps t) - nat (max 1 mt)) (ut_steps t))))"
proof (cases rule: plan_cases [of dumps ms keep budget mt])
  case none
  then show ?thesis by (simp add: p_def simple_plan_def)
next
  case (turns s)
  let ?ts = "build_turns ms"
  have "\<forall>t \<in> set (drop s ?ts). turn_ok t" using build_turns_ok [of ms] by (auto simp: turns_ok_def dest: in_set_dropD)
  from turns_queries [OF this] have "length (filter is_user_query (flatten_turns (drop s ?ts))) \<le> nat keep" using turns(3) by simp
  then show ?thesis using turns(4,5) by (auto simp: p_def simple_plan_def)
next
  case (partial older latest anchor)
  have ok: "turn_ok latest" and l: "last (build_turns ms) = latest" using build_turns_ok [of ms] partial(2) by (simp_all add: turns_ok_def)
  let ?ss = "ut_steps latest"
  obtain f where sp: "splits_turn dumps p (flatten_turns older) anchor ?ss (max 0 budget) mt f"
    using partial_plan_spec [OF ok partial(3)] unfolding p_def partial(5) by blast
  have f: "rp_retained_messages p = anchor # steps_messages (drop f ?ss)" "rp_estimated_active_tokens p = message_tokens dumps (rp_retained_messages p)"
      "rp_budget_exceeded p \<longleftrightarrow> message_tokens dumps (rp_retained_messages p) > max 0 budget"
      "message_tokens dumps (rp_retained_messages p) \<le> max 0 (max 0 budget) \<or> f = length ?ss - nat (max 1 mt)"
    using sp unfolding splits_turn_def by blast+
  have "filter is_user_query (steps_messages (drop f ?ss)) = []"
    by (rule step_queries) (use ok in \<open>auto simp: turn_ok_def dest: in_set_dropD\<close>)
  then have "length (filter is_user_query (rp_retained_messages p)) \<le> 1" by (simp add: f(1))
  then have "length (filter is_user_query (rp_retained_messages p)) \<le> nat keep" using partial(1) by linarith
  moreover have "rp_retained_messages p = opt_list (ut_anchor latest) @ steps_messages (drop (length ?ss - nat (max 1 mt)) ?ss)" if "rp_budget_exceeded p"
  proof -
    have "f = length ?ss - nat (max 1 mt)" using f(3,4) that by linarith
    then show ?thesis unfolding f(1) partial(3) by simp
  qed
  ultimately show ?thesis unfolding l Let_def using f(2,3) by blast
qed

section \<open>A session to evaluate\<close>

definition demo_tool :: tool_part where
  "demo_tool = \<lparr>tp_tool_id = [49], tp_tool_name = [103, 111], tp_tool_uri = [], tp_skill_uri = [], tp_tool_input = None, tp_tool_output = replicate 21 111,
     tp_tool_status = [], tp_duration_ms = None, tp_prompt_tokens = None, tp_completion_tokens = None, tp_output_ref = [], tp_output_truncated = False,
     tp_output_original_chars = None, tp_output_preview_chars = None, tp_output_sha256 = [], tp_output_storage_uri = [], tp_output_mime_type = [],
     tp_output_source_ref = [], tp_output_source_offset = None, tp_output_source_limit = None, tp_output_externalization_error = [],
     tp_output_group_id = [], tp_output_externalized_reason = [], tp_output_group_original_chars = None, tp_output_group_budget_chars = None\<rparr>"

definition demo_message :: "nat \<Rightarrow> string \<Rightarrow> string \<Rightarrow> part \<Rightarrow> message" where
  "demo_message n i role p = \<lparr>m_ref = n, m_id = i, m_role = role, m_parts = [p], m_peer_id = None, m_created_at = None, m_turn_id = None,
     m_message_kind = None, m_source_message_ids = None\<rparr>"

definition demo_session :: "message list" where
  "demo_session = [demo_message 0 ''q1'' ''user'' (TextPart (replicate 40 97)), demo_message 1 ''a1'' ''assistant'' (TextPart (replicate 40 98)),
     demo_message 2 ''q2'' ''user'' (TextPart (replicate 40 99)), demo_message 3 ''a2'' ''assistant'' (TextPart (replicate 80 100)),
     demo_message 4 ''t2'' ''user'' (ToolPart demo_tool), demo_message 5 ''a3'' ''assistant'' (TextPart (replicate 40 101))]"

definition demo_dumps :: "pydict \<Rightarrow> ustring" where
  "demo_dumps d = [123, 125]"

theorem retention_loses_nothing_witness:
  "\<exists>older anchor mid rest. demo_session = older @ anchor # mid @ rest \<and> mid \<noteq> [] \<and> \<not> is_tool_transport (hd rest)
     \<and> rp_retained_messages (plan_retention demo_dumps demo_session 2 25 1) = anchor # rest"
proof -
  have "rp_partial_turn (plan_retention demo_dumps demo_session 2 25 1)" by code_simp
  with retention_loses_nothing [of demo_dumps demo_session 2 25 1] show ?thesis by (simp only: if_True) blast
qed

theorem retention_respects_budget_witness:
  "rp_budget_exceeded (plan_retention demo_dumps demo_session 2 15 1)
   \<and> rp_retained_messages (plan_retention demo_dumps demo_session 2 15 1) = [demo_session ! 2, demo_session ! 5]
   \<and> 15 < message_tokens demo_dumps (rp_retained_messages (plan_retention demo_dumps demo_session 2 15 1))"
proof -
  have b: "rp_budget_exceeded (plan_retention demo_dumps demo_session 2 15 1)" by code_simp
  have "opt_list (ut_anchor (last (build_turns demo_session))) @ steps_messages (drop (length (ut_steps (last (build_turns demo_session))) - nat (max 1 1))
      (ut_steps (last (build_turns demo_session)))) = [demo_session ! 2, demo_session ! 5]" by code_simp
  with b retention_respects_budget [of demo_dumps demo_session 2 15 1] show ?thesis by (simp add: Let_def)
qed

end
