(* ===== verification/Active_Budget.thy ===== *)
theory Active_Budget
  imports Session_Retention
begin

text \<open>
  The budgeted view of \<open>openviking/session/retention.py\<close>: \<open>_truncate_message_group\<close> and \<open>fit_active_messages_to_budget\<close>.

  Cloned messages are changed in place in the code; here a change is made at a position, the number of the message in its group
  and the number of the part in the message.
\<close>

section \<open>Definitions\<close>

text \<open>The text of a part that may be shortened.\<close>

fun part_body :: "part \<Rightarrow> ustring option" where
  "part_body (TextPart t) = Some t"
| "part_body (ContextPart uri ty abstract) = Some abstract"
| "part_body (ImagePart url detail) = None"
| "part_body (ToolPart tp) = Some (tp_tool_output tp)"

fun set_body :: "ustring \<Rightarrow> part \<Rightarrow> part" where
  "set_body x (TextPart t) = TextPart x"
| "set_body x (ContextPart uri ty abstract) = ContextPart uri ty x"
| "set_body x (ImagePart url detail) = ImagePart url detail"
| "set_body x (ToolPart tp) = ToolPart (tp\<lparr>tp_tool_output := x\<rparr>)"

fun has_input :: "part \<Rightarrow> bool" where
  "has_input (ToolPart tp) \<longleftrightarrow> tp_tool_input tp \<noteq> None \<and> tp_tool_input tp \<noteq> Some []"
| "has_input _ \<longleftrightarrow> False"

fun clear_input :: "part \<Rightarrow> part" where
  "clear_input (ToolPart tp) = ToolPart (tp\<lparr>tp_tool_input := Some []\<rparr>)"
| "clear_input p = p"

fun mark_truncated :: "ustring \<Rightarrow> ustring \<Rightarrow> part \<Rightarrow> part" where
  "mark_truncated original fitted (ToolPart tp) = ToolPart (tp\<lparr>tp_output_truncated := True,
     tp_output_original_chars := (case tp_output_original_chars tp of None \<Rightarrow> Some (int (length original)) | Some n \<Rightarrow> Some n),
     tp_output_preview_chars := Some (int (length fitted))\<rparr>)"
| "mark_truncated original fitted p = p"

definition on_parts :: "(part list \<Rightarrow> part list) \<Rightarrow> message \<Rightarrow> message" where
  "on_parts f m = m\<lparr>m_parts := f (m_parts m)\<rparr>"

definition part_at :: "message list \<Rightarrow> nat \<Rightarrow> nat \<Rightarrow> part" where
  "part_at ms i j = m_parts (ms ! i) ! j"

definition on_part :: "nat \<Rightarrow> nat \<Rightarrow> (part \<Rightarrow> part) \<Rightarrow> message list \<Rightarrow> message list" where
  "on_part i j f ms = ms[i := on_parts (\<lambda>ps. ps[j := f (ps ! j)]) (ms ! i)]"

definition positions :: "message list \<Rightarrow> (nat \<times> nat) list" where
  "positions ms = concat (map (\<lambda>i. map (Pair i) [0..<length (m_parts (ms ! i))]) [0..<length ms])"

definition slots :: "message list \<Rightarrow> (nat \<times> nat \<times> ustring) list" where
  "slots ms = List.map_filter (\<lambda>(i, j). map_option (\<lambda>x. (i, j, x)) (part_body (part_at ms i j))) (rev (positions ms))"

fun drop_inputs :: "(pydict \<Rightarrow> ustring) \<Rightarrow> int \<Rightarrow> (nat \<times> nat) list \<Rightarrow> message list \<times> string list \<Rightarrow> message list \<times> string list" where
  "drop_inputs dumps budget [] (ms, ids) = (ms, ids)"
| "drop_inputs dumps budget ((i, j) # ps) (ms, ids) =
     (if \<not> has_input (part_at ms i j) then drop_inputs dumps budget ps (ms, ids)
      else let ms' = on_part i j clear_input ms; ids' = m_id (ms ! i) # ids in
        if message_tokens dumps ms' \<le> budget then (ms', ids') else drop_inputs dumps budget ps (ms', ids'))"

fun fill_slots :: "(pydict \<Rightarrow> ustring) \<Rightarrow> int \<Rightarrow> (nat \<times> nat \<times> ustring) list \<Rightarrow> message list \<Rightarrow> message list" where
  "fill_slots dumps budget [] ms = ms"
| "fill_slots dumps budget ((i, j, original) # ss) ms =
     (if original = [] then fill_slots dumps budget ss ms
      else let remaining = max 0 (budget - message_tokens dumps ms) in
        if remaining \<le> 0 then ms
        else fill_slots dumps budget ss (on_part i j (set_body (truncate_text_to_token_budget original remaining)) ms))"

fun mark_slots :: "(nat \<times> nat \<times> ustring) list \<Rightarrow> message list \<times> string list \<Rightarrow> message list \<times> string list" where
  "mark_slots [] (ms, ids) = (ms, ids)"
| "mark_slots ((i, j, original) # ss) (ms, ids) =
     (case part_body (part_at ms i j) of
        Some fitted \<Rightarrow>
          if fitted = original then mark_slots ss (ms, ids)
          else mark_slots ss (on_part i j (mark_truncated original fitted) ms, m_id (ms ! i) # ids)
      | None \<Rightarrow> mark_slots ss (ms, ids))"

definition cleared :: "message list \<Rightarrow> message list" where
  "cleared ms = map (on_parts (map (set_body []))) ms"

definition truncate_message_group :: "(pydict \<Rightarrow> ustring) \<Rightarrow> message list \<Rightarrow> int \<Rightarrow> message list \<times> string list" where
  "truncate_message_group dumps messages token_budget =
     (if token_budget \<le> 0 \<or> messages = [] then ([], [])
      else if message_tokens dumps messages \<le> token_budget then (messages, [])
      else
        let cloned = cleared messages;
            (cloned1, ids1) = (if message_tokens dumps cloned > token_budget then drop_inputs dumps token_budget (positions cloned) (cloned, []) else (cloned, []))
        in if message_tokens dumps cloned1 > token_budget then ([], [])
           else
             let cloned2 = fill_slots dumps token_budget (slots messages) cloned1;
                 (cloned3, ids3) = mark_slots (slots messages) (cloned2, ids1)
             in if message_tokens dumps cloned3 > token_budget then ([], []) else (cloned3, sort (remdups ids3)))"

text \<open>The binary search of \<open>_minimum_group_budget\<close>.\<close>

function minimum_search :: "(pydict \<Rightarrow> ustring) \<Rightarrow> message list \<Rightarrow> int \<Rightarrow> int \<Rightarrow> int option \<Rightarrow> int option" where
  "minimum_search dumps g low high minimum =
     (if low \<le> high then
        let candidate = (low + high) div 2 in
        if fst (truncate_message_group dumps g candidate) \<noteq> [] then minimum_search dumps g low (candidate - 1) (Some candidate)
        else minimum_search dumps g (candidate + 1) high minimum
      else minimum)"
  by pat_completeness auto
termination
  by (relation "measure (\<lambda>(_, _, low, high, _). nat (high - low + 1))") auto

declare minimum_search.simps [simp del]

definition minimum_group_budget :: "(pydict \<Rightarrow> ustring) \<Rightarrow> int \<Rightarrow> message list \<Rightarrow> int option" where
  "minimum_group_budget dumps token_budget ms =
     (if ms = [] \<or> message_tokens dumps ms = 0 then Some 0
      else minimum_search dumps ms 1 (min (message_tokens dumps ms) token_budget) None)"

text \<open>The state of the selection: the messages selected under their index, the identifiers of shortened messages and the tokens used.\<close>

record selection =
  sl_selected :: "(nat \<times> message) list"
  sl_truncated :: "string list"
  sl_used :: int

definition message_indexes :: "message list \<Rightarrow> (nat \<times> nat) list" where
  "message_indexes ms = foldl (\<lambda>d (i, m). dset d (m_ref m) i) [] (enumerate 0 ms)"

text \<open>Every group is made of the given messages and a shortened group has the length of the group, so the look-up and the strict \<open>zip\<close> of the
  code do not raise.\<close>

definition put_selected :: "(nat \<times> nat) list \<Rightarrow> (nat \<times> message) list \<Rightarrow> message \<times> message \<Rightarrow> (nat \<times> message) list" where
  "put_selected indexes sel = (\<lambda>(original, returned). case dget indexes (m_ref original) of None \<Rightarrow> sel | Some i \<Rightarrow> dset sel i returned)"

definition commit_group :: "(pydict \<Rightarrow> ustring) \<Rightarrow> (nat \<times> nat) list \<Rightarrow> message list \<Rightarrow> message list \<Rightarrow> string list \<Rightarrow> selection \<Rightarrow> selection" where
  "commit_group dumps indexes ms chosen ids st =
     st\<lparr>sl_selected := foldl (put_selected indexes) (sl_selected st) (zip ms chosen), sl_truncated := ids @ sl_truncated st,
        sl_used := sl_used st + message_tokens dumps chosen\<rparr>"

definition select_group ::
  "(pydict \<Rightarrow> ustring) \<Rightarrow> int \<Rightarrow> (nat \<times> nat) list \<Rightarrow> bool \<Rightarrow> int option \<Rightarrow> message list \<Rightarrow> selection \<Rightarrow> selection \<times> bool" where
  "select_group dumps token_budget indexes allow_truncate max_budget ms st =
     (if ms = [] then (st, True)
      else
        let remaining = (case max_budget of None \<Rightarrow> max 0 (token_budget - sl_used st)
              | Some b \<Rightarrow> min (max 0 (token_budget - sl_used st)) (max 0 b))
        in if message_tokens dumps ms > remaining then
             (if \<not> allow_truncate \<or> remaining \<le> 0 then (st, False)
              else case truncate_message_group dumps ms remaining of (chosen, ids) \<Rightarrow>
                if chosen = [] then (st, False) else (commit_group dumps indexes ms chosen ids st, True))
           else (commit_group dumps indexes ms ms [] st, True))"

text \<open>The loops that stop at the first group that is not selected.\<close>

fun select_until :: "(pydict \<Rightarrow> ustring) \<Rightarrow> int \<Rightarrow> (nat \<times> nat) list \<Rightarrow> bool \<Rightarrow> message list list \<Rightarrow> selection \<Rightarrow> selection" where
  "select_until dumps token_budget indexes allow [] st = st"
| "select_until dumps token_budget indexes allow (g # gs) st =
     (case select_group dumps token_budget indexes allow None g st of
        (st', True) \<Rightarrow> select_until dumps token_budget indexes allow gs st'
      | (st', False) \<Rightarrow> st')"

definition is_checkpoint_step :: "assistant_step \<Rightarrow> bool" where
  "is_checkpoint_step st \<longleftrightarrow> list_ex (\<lambda>m. m_message_kind m = Some ''checkpoint'') (as_messages st)"

definition final_reserve :: "(pydict \<Rightarrow> ustring) \<Rightarrow> int \<Rightarrow> message list \<Rightarrow> message list \<Rightarrow> int" where
  "final_reserve dumps token_budget anchor_group final_group =
     (if anchor_group \<noteq> [] \<and> final_group \<noteq> [] then
        (case (minimum_group_budget dumps token_budget anchor_group, minimum_group_budget dumps token_budget final_group) of
           (Some anchor_minimum, Some final_minimum) \<Rightarrow>
             if anchor_minimum + final_minimum \<le> token_budget
             then min (message_tokens dumps final_group) (min (max final_minimum (token_budget div 2)) (token_budget - anchor_minimum)) else 0
         | _ \<Rightarrow> 0)
      else 0)"

record active_plan =
  ap_messages :: "message list"
  ap_estimated_tokens :: int
  ap_dropped_message_ids :: "string list"
  ap_truncated_message_ids :: "string list"

definition final_group :: "user_turn \<Rightarrow> message list" where
  "final_group t = (if ut_steps t = [] then [] else as_messages (last (ut_steps t)))"

definition select_messages :: "(pydict \<Rightarrow> ustring) \<Rightarrow> message list \<Rightarrow> int \<Rightarrow> selection" where
  "select_messages dumps messages token_budget =
     (let turns = build_turns messages; indexes = message_indexes messages; latest = last turns;
          anchor = opt_list (ut_anchor latest); final = final_group latest;
          reserve = final_reserve dumps token_budget anchor final;
          st0 = \<lparr>sl_selected = [], sl_truncated = [], sl_used = 0\<rparr>;
          st1 = fst (select_group dumps token_budget indexes True (Some (token_budget - reserve)) anchor st0);
          st2 = fst (select_group dumps token_budget indexes True None final st1);
          st3 = select_until dumps token_budget indexes True (map as_messages (filter is_checkpoint_step (butlast (ut_steps latest)))) st2;
          st4 = select_until dumps token_budget indexes False (map as_messages (filter (\<lambda>s. \<not> is_checkpoint_step s) (rev (butlast (ut_steps latest))))) st3
      in select_until dumps token_budget indexes False (map turn_messages (rev (butlast turns))) st4)"

definition fit_active_messages_to_budget :: "(pydict \<Rightarrow> ustring) \<Rightarrow> message list \<Rightarrow> int \<Rightarrow> active_plan" where
  "fit_active_messages_to_budget dumps messages budget =
     (let token_budget = max 0 budget in
      if messages = [] \<or> token_budget = 0
      then \<lparr>ap_messages = [], ap_estimated_tokens = 0, ap_dropped_message_ids = map m_id messages, ap_truncated_message_ids = []\<rparr>
      else if message_tokens dumps messages \<le> token_budget
      then \<lparr>ap_messages = messages, ap_estimated_tokens = message_tokens dumps messages, ap_dropped_message_ids = [], ap_truncated_message_ids = []\<rparr>
      else
        let st = select_messages dumps messages token_budget;
            returned = map (\<lambda>i. the (dget (sl_selected st) i)) (sort (dkeys (sl_selected st)))
        in \<lparr>ap_messages = returned, ap_estimated_tokens = message_tokens dumps returned,
            ap_dropped_message_ids = map (\<lambda>i. m_id (messages ! i)) (filter (\<lambda>i. i \<notin> set (dkeys (sl_selected st))) [0..<length messages]),
            ap_truncated_message_ids = sort (remdups (sl_truncated st))\<rparr>)"

section \<open>Changing a part\<close>

lemma on_parts_simps [simp]: "m_parts (on_parts f m) = f (m_parts m)" "m_ref (on_parts f m) = m_ref m" "m_id (on_parts f m) = m_id m"
  by (simp_all add: on_parts_def)

text \<open>What no truncation changes: everything but the bodies, the inputs and the notes on truncation.\<close>

fun part_skeleton :: "part \<Rightarrow> part" where
  "part_skeleton (TextPart t) = TextPart []"
| "part_skeleton (ContextPart uri ty abstract) = ContextPart uri ty []"
| "part_skeleton (ImagePart url detail) = ImagePart url detail"
| "part_skeleton (ToolPart tp) = ToolPart (tp\<lparr>tp_tool_input := None, tp_tool_output := [], tp_output_truncated := False,
     tp_output_original_chars := None, tp_output_preview_chars := None\<rparr>)"

definition skeleton :: "message \<Rightarrow> message" where
  "skeleton = on_parts (map part_skeleton)"

lemma part_skeleton_simps [simp]: "part_skeleton (set_body x p) = part_skeleton p" "part_skeleton (clear_input p) = part_skeleton p"
  "part_skeleton (mark_truncated a b p) = part_skeleton p"
  by (cases p; simp)+

lemma skeleton_on_part:
  assumes "\<And>p. part_skeleton (f p) = part_skeleton p"
  shows "map skeleton (on_part i j f ms) = map skeleton ms"
proof (cases "i < length ms")
  case True
  have "map part_skeleton ((m_parts (ms ! i))[j := f (m_parts (ms ! i) ! j)]) = map part_skeleton (m_parts (ms ! i))"
    by (cases "j < length (m_parts (ms ! i))") (simp_all add: map_update assms list_update_same_conv not_less list_update_beyond)
  then have "skeleton (on_parts (\<lambda>ps. ps[j := f (ps ! j)]) (ms ! i)) = skeleton (ms ! i)" by (simp add: skeleton_def on_parts_def)
  then show ?thesis using True by (simp add: on_part_def map_update list_update_same_conv)
qed (simp add: on_part_def list_update_beyond)

lemma body_units:
  "part_units dumps (set_body [] p) \<le> part_units dumps p" "part_units dumps (set_body x p) \<le> part_units dumps p + text_units x"
  "part_units dumps (clear_input p) \<le> part_units dumps p" "part_units dumps (mark_truncated a b p) = part_units dumps p"
  "part_units dumps (clear_input (clear_input p)) = part_units dumps (clear_input p)" "\<not> has_input p \<Longrightarrow> part_units dumps (clear_input p) = part_units dumps p"
  by (cases p; auto simp: part_units_def input_text_def split: option.splits)+

lemma sum_list_update_int: "k < length xs \<Longrightarrow> sum_list (xs[k := x]) = sum_list xs + x - xs ! k" for xs :: "int list"
proof (induction xs arbitrary: k)
  case (Cons a xs)
  then show ?case by (cases k) auto
qed simp

lemma on_part_tokens:
  assumes "\<And>p. part_units dumps (f p) \<le> part_units dumps p + d" "0 \<le> d"
  shows "message_tokens dumps (on_part i j f ms) \<le> message_tokens dumps ms + (d + 3) div 4"
proof (cases "i < length ms")
  case True
  let ?m = "on_parts (\<lambda>ps. ps[j := f (ps ! j)]) (ms ! i)"
  have "message_units dumps ?m \<le> message_units dumps (ms ! i) + d"
  proof (cases "j < length (m_parts (ms ! i))")
    case True
    then show ?thesis using assms(1) [of "m_parts (ms ! i) ! j"] by (simp add: message_units_def map_update sum_list_update_int)
  qed (use assms(2) in \<open>simp add: message_units_def list_update_beyond\<close>)
  then have "estimated_tokens dumps ?m \<le> estimated_tokens dumps (ms ! i) + (d + 3) div 4" by (simp add: estimated_tokens_eq)
  then show ?thesis using True by (simp add: on_part_def message_tokens_def map_update sum_list_update_int)
next
  case False
  moreover have "0 \<le> (d + 3) div 4" using assms(2) by simp
  ultimately show ?thesis by (simp add: on_part_def list_update_beyond)
qed

lemma clear_input_tokens: "message_tokens dumps (on_part i j clear_input ms) \<le> message_tokens dumps ms"
  using on_part_tokens [of dumps clear_input 0 i j ms] body_units(3) by simp

lemma set_body_tokens: "message_tokens dumps (on_part i j (set_body x) ms) \<le> message_tokens dumps ms + estimate_text_tokens x"
  using on_part_tokens [of dumps "set_body x" "text_units x" i j ms] body_units(2) by (simp add: estimate_eq)

lemma tokens_map_le: "(\<And>p. part_units dumps (f p) \<le> part_units dumps p) \<Longrightarrow> message_tokens dumps (map (on_parts (map f)) ms) \<le> message_tokens dumps ms"
proof (induction ms)
  case (Cons m ms)
  have "message_units dumps (on_parts (map f) m) \<le> message_units dumps m"
    using Cons.prems by (auto simp: message_units_def o_def intro!: sum_list_mono)
  then have "estimated_tokens dumps (on_parts (map f) m) \<le> estimated_tokens dumps m" by (simp add: estimated_tokens_eq zdiv_mono1)
  then show ?case using Cons by (simp add: add_mono)
qed simp

lemma tokens_map_eq: "(\<And>m p. m \<in> set ms \<Longrightarrow> p \<in> set (m_parts m) \<Longrightarrow> part_units dumps (f p) = part_units dumps p) \<Longrightarrow>
    message_tokens dumps (map (on_parts (map f)) ms) = message_tokens dumps ms"
proof (induction ms)
  case (Cons m ms)
  have "message_units dumps (on_parts (map f) m) = message_units dumps m"
    using Cons.prems by (auto simp: message_units_def o_def intro!: arg_cong [where f = sum_list] map_cong)
  moreover have "message_tokens dumps (map (on_parts (map f)) ms) = message_tokens dumps ms" by (rule Cons.IH) (use Cons.prems in auto)
  ultimately show ?case by (simp add: estimated_tokens_eq)
qed simp

section \<open>Truncating a group\<close>

definition inputs_cleared :: "message list \<Rightarrow> message list" where
  "inputs_cleared ms = map (on_parts (map clear_input)) ms"

text \<open>The smallest cost of a group: no bodies and no inputs.\<close>

definition group_floor :: "(pydict \<Rightarrow> ustring) \<Rightarrow> message list \<Rightarrow> int" where
  "group_floor dumps ms = message_tokens dumps (inputs_cleared (cleared ms))"

lemma inputs_cleared_tokens: "message_tokens dumps (inputs_cleared ms) \<le> message_tokens dumps ms"
  unfolding inputs_cleared_def by (rule tokens_map_le) (rule body_units(3))

lemma cleared_tokens: "message_tokens dumps (cleared ms) \<le> message_tokens dumps ms"
  unfolding cleared_def by (rule tokens_map_le) (rule body_units(1))

lemma group_floor_le: "group_floor dumps ms \<le> message_tokens dumps (cleared ms)" "group_floor dumps ms \<le> message_tokens dumps ms"
  using inputs_cleared_tokens [of dumps "cleared ms"] cleared_tokens [of dumps ms] by (simp_all add: group_floor_def)

lemma clear_input_idem: "clear_input (clear_input p) = clear_input p"
  by (cases p) simp_all

lemma inputs_cleared_on_part: "inputs_cleared (on_part i j clear_input ms) = inputs_cleared ms"
proof (cases "i < length ms")
  case True
  have "map clear_input ((m_parts (ms ! i))[j := clear_input (m_parts (ms ! i) ! j)]) = map clear_input (m_parts (ms ! i))"
    by (cases "j < length (m_parts (ms ! i))") (simp_all add: map_update clear_input_idem list_update_same_conv not_less list_update_beyond)
  then show ?thesis using True by (simp add: inputs_cleared_def on_part_def map_update list_update_same_conv on_parts_def)
qed (simp add: on_part_def list_update_beyond)

definition valid_at :: "message list \<Rightarrow> nat \<Rightarrow> nat \<Rightarrow> bool" where
  "valid_at ms i j \<longleftrightarrow> i < length ms \<and> j < length (m_parts (ms ! i))"

lemma valid_on_part [simp]: "valid_at (on_part i j f ms) k l \<longleftrightarrow> valid_at ms k l"
  by (cases "i < length ms"; cases "i = k") (auto simp: valid_at_def on_part_def list_update_beyond)

lemma part_at_on_part: "valid_at ms i j \<Longrightarrow> valid_at ms k l \<Longrightarrow> part_at (on_part i j f ms) k l = (if (k, l) = (i, j) then f (part_at ms k l) else part_at ms k l)"
  by (auto simp: part_at_def on_part_def nth_list_update valid_at_def)

lemma positions_iff: "(i, j) \<in> set (positions ms) \<longleftrightarrow> valid_at ms i j"
  by (force simp: positions_def valid_at_def)

lemma drop_inputs_spec:
  assumes "\<forall>(i, j) \<in> set ps. valid_at ms i j" "drop_inputs dumps budget ps (ms, ids) = (ms', ids')"
  shows "inputs_cleared ms' = inputs_cleared ms \<and> map skeleton ms' = map skeleton ms \<and> (\<forall>i j. valid_at ms' i j \<longleftrightarrow> valid_at ms i j)
    \<and> (message_tokens dumps ms' \<le> budget \<or> (\<forall>i j. valid_at ms i j \<and> has_input (part_at ms' i j) \<longrightarrow> (i, j) \<notin> set ps \<and> has_input (part_at ms i j)))"
  using assms
proof (induction ps arbitrary: ms ids)
  case (Cons q ps)
  obtain i j where q: "q = (i, j)" by (cases q)
  have v: "valid_at ms i j" using Cons.prems(1) q by auto
  show ?case
  proof (cases "has_input (part_at ms i j)")
    case False
    then have r: "drop_inputs dumps budget ps (ms, ids) = (ms', ids')" using Cons.prems(2) q by simp
    have "\<forall>(i, j) \<in> set ps. valid_at ms i j" using Cons.prems(1) by auto
    from Cons.IH [OF this r] show ?thesis using q False by auto
  next
    case True
    let ?m = "on_part i j clear_input ms"
    have n: "\<not> has_input (part_at ?m i j)" using v by (cases "part_at ms i j") (auto simp: part_at_on_part)
    have keep: "has_input (part_at ?m k l) \<Longrightarrow> valid_at ms k l \<Longrightarrow> (k, l) \<noteq> (i, j) \<and> has_input (part_at ms k l)" for k l
      using n v by (auto simp: part_at_on_part split: if_splits)
    have sk: "map skeleton ?m = map skeleton ms" by (rule skeleton_on_part) simp
    show ?thesis
    proof (cases "message_tokens dumps ?m \<le> budget")
      case True
      then have "ms' = ?m" using Cons.prems(2) q \<open>has_input (part_at ms i j)\<close> by (simp add: Let_def)
      then show ?thesis using True sk by (simp add: inputs_cleared_on_part)
    next
      case False
      then have r: "drop_inputs dumps budget ps (?m, m_id (ms ! i) # ids) = (ms', ids')" using Cons.prems(2) q True by (simp add: Let_def)
      have "\<forall>(k, l) \<in> set ps. valid_at ?m k l" using Cons.prems(1) by auto
      from Cons.IH [OF this r] show ?thesis using q keep sk by (auto simp: inputs_cleared_on_part) blast+
    qed
  qed
qed simp

lemma drop_inputs_fits:
  assumes "drop_inputs dumps budget (positions ms) (ms, []) = (ms', ids)"
  shows "message_tokens dumps ms' \<le> budget \<longleftrightarrow> message_tokens dumps (inputs_cleared ms) \<le> budget" "map skeleton ms' = map skeleton ms"
proof -
  have "\<forall>(i, j) \<in> set (positions ms). valid_at ms i j" by (auto simp: positions_iff)
  note sp = drop_inputs_spec [OF this assms]
  then show "map skeleton ms' = map skeleton ms" by blast
  show "message_tokens dumps ms' \<le> budget \<longleftrightarrow> message_tokens dumps (inputs_cleared ms) \<le> budget"
  proof (cases "message_tokens dumps ms' \<le> budget")
    case True
    then show ?thesis using inputs_cleared_tokens [of dumps ms'] sp by auto
  next
    case False
    then have "\<forall>i j. valid_at ms' i j \<longrightarrow> \<not> has_input (part_at ms' i j)" using sp by (auto simp: positions_iff)
    then have "\<not> has_input p" if "m \<in> set ms'" "p \<in> set (m_parts m)" for m p
      using that by (force simp: in_set_conv_nth valid_at_def part_at_def)
    then have "message_tokens dumps (inputs_cleared ms') = message_tokens dumps ms'"
      unfolding inputs_cleared_def by (intro tokens_map_eq) (auto simp: body_units(6))
    then show ?thesis using sp by simp
  qed
qed

lemma fill_slots_spec: "message_tokens dumps ms \<le> budget \<Longrightarrow> message_tokens dumps (fill_slots dumps budget ss ms) \<le> budget
    \<and> map skeleton (fill_slots dumps budget ss ms) = map skeleton ms"
proof (induction ss arbitrary: ms)
  case (Cons s ss)
  obtain i j x where s: "s = (i, j, x)" by (cases s)
  let ?r = "max 0 (budget - message_tokens dumps ms)" let ?m = "on_part i j (set_body (truncate_text_to_token_budget x ?r)) ms"
  show ?case
  proof (cases "x = [] \<or> ?r \<le> 0")
    case True
    then show ?thesis using Cons s by (auto simp: Let_def)
  next
    case False
    have "estimate_text_tokens (truncate_text_to_token_budget x ?r) \<le> ?r" using truncate_units [of ?r x] by (simp add: estimate_le_iff)
    then have "message_tokens dumps ?m \<le> budget" using set_body_tokens [of dumps i j "truncate_text_to_token_budget x ?r" ms] False by linarith
    moreover have "map skeleton ?m = map skeleton ms" by (rule skeleton_on_part) simp
    ultimately show ?thesis using Cons.IH [of ?m] False s by (simp add: Let_def)
  qed
qed simp

lemma mark_tokens: "message_tokens dumps (on_part i j (mark_truncated a b) ms) = message_tokens dumps ms"
proof (rule antisym)
  show "message_tokens dumps (on_part i j (mark_truncated a b) ms) \<le> message_tokens dumps ms"
    using on_part_tokens [of dumps "mark_truncated a b" 0 i j ms] by (simp add: body_units(4))
  let ?m = "on_parts (\<lambda>ps. ps[j := mark_truncated a b (ps ! j)]) (ms ! i)"
  have "message_units dumps ?m = message_units dumps (ms ! i)"
    by (cases "j < length (m_parts (ms ! i))") (simp_all add: message_units_def map_update body_units(4) sum_list_update_int list_update_beyond)
  then show "message_tokens dumps ms \<le> message_tokens dumps (on_part i j (mark_truncated a b) ms)"
    by (cases "i < length ms") (simp_all add: on_part_def message_tokens_def map_update sum_list_update_int estimated_tokens_eq list_update_beyond)
qed

lemma mark_slots_spec: "mark_slots ss (ms, ids) = (ms', ids') \<Longrightarrow> message_tokens dumps ms' = message_tokens dumps ms \<and> map skeleton ms' = map skeleton ms"
proof (induction ss arbitrary: ms ids)
  case (Cons s ss)
  obtain i j x where s: "s = (i, j, x)" by (cases s)
  have sk: "map skeleton (on_part i j (mark_truncated x b) ms) = map skeleton ms" for b by (rule skeleton_on_part) simp
  show ?case using Cons.prems s sk by (auto simp: mark_tokens split: option.splits if_splits dest!: Cons.IH)
qed simp

lemma truncate_group_spec:
  "(fst (truncate_message_group dumps ms b) \<noteq> [] \<longleftrightarrow> 0 < b \<and> ms \<noteq> [] \<and> group_floor dumps ms \<le> b)
    \<and> message_tokens dumps (fst (truncate_message_group dumps ms b)) \<le> max 0 b
    \<and> (fst (truncate_message_group dumps ms b) \<noteq> [] \<longrightarrow> map skeleton (fst (truncate_message_group dumps ms b)) = map skeleton ms)"
proof (cases "b \<le> 0 \<or> ms = [] \<or> message_tokens dumps ms \<le> b")
  case True
  then show ?thesis using group_floor_le(2) [of dumps ms] by (auto simp: truncate_message_group_def)
next
  case False
  define c where "c = (if message_tokens dumps (cleared ms) > b then drop_inputs dumps b (positions (cleared ms)) (cleared ms, []) else (cleared ms, []))"
  obtain c1 ids1 where c1: "c = (c1, ids1)" by (cases c)
  obtain c3 ids3 where c3: "mark_slots (slots ms) (fill_slots dumps b (slots ms) c1, ids1) = (c3, ids3)" by (cases "mark_slots (slots ms) (fill_slots dumps b (slots ms) c1, ids1)")
  have t: "truncate_message_group dumps ms b =
      (if message_tokens dumps c1 > b then ([], []) else if message_tokens dumps c3 > b then ([], []) else (c3, sort (remdups ids3)))"
    using False c1 c3 unfolding truncate_message_group_def c_def by (simp add: Let_def)
  have sk0: "map skeleton (cleared ms) = map skeleton ms" by (simp add: cleared_def skeleton_def on_parts_def)
  have c1_spec: "(message_tokens dumps c1 \<le> b \<longleftrightarrow> group_floor dumps ms \<le> b) \<and> map skeleton c1 = map skeleton ms"
  proof (cases "message_tokens dumps (cleared ms) > b")
    case True
    then have d: "drop_inputs dumps b (positions (cleared ms)) (cleared ms, []) = (c1, ids1)" using c1 by (simp add: c_def)
    show ?thesis using drop_inputs_fits [OF d] sk0 by (simp add: group_floor_def)
  next
    case False
    then have "c1 = cleared ms" using c1 by (simp add: c_def)
    then show ?thesis using False group_floor_le(1) [of dumps ms] sk0 by auto
  qed
  then have fits: "message_tokens dumps c1 \<le> b \<longleftrightarrow> group_floor dumps ms \<le> b" and sk1: "map skeleton c1 = map skeleton ms" by blast+
  show ?thesis
  proof (cases "message_tokens dumps c1 \<le> b")
    case True
    note fill_slots_spec [OF this, of "slots ms"] and m = mark_slots_spec [OF c3, of dumps]
    then have "message_tokens dumps c3 \<le> b" "map skeleton c3 = map skeleton ms" using sk1 by simp_all
    moreover from this have "c3 \<noteq> []" using False by auto
    ultimately show ?thesis using t True fits False by auto
  next
    case big: False
    then show ?thesis using t fits False by auto
  qed
qed

end
