(* ===== verification/Active_View.thy ===== *)
theory Active_View
  imports Active_Budget "HOL-Library.Multiset"
begin

text \<open>
  What \<open>fit_active_messages_to_budget\<close> of \<open>openviking/session/retention.py\<close> guarantees: the view is within the budget, keeps order and exchanges,
  and has the newest query and the last answer whenever they can be had.
\<close>

section \<open>The smallest budget of a group\<close>

lemma minimum_search_spec:
  assumes "ms \<noteq> []" "m = max 1 (group_floor dumps ms)"
  shows "1 \<le> low \<Longrightarrow> low \<le> m \<Longrightarrow> low \<le> high + 1 \<Longrightarrow> minimum_search dumps ms low high mn = (if m \<le> high then Some m else mn)"
proof (induction "nat (high - low + 1)" arbitrary: low high mn rule: less_induct)
  case less
  show ?case
  proof (cases "low \<le> high")
    case True
    let ?c = "(low + high) div 2"
    have c: "low \<le> ?c" "?c \<le> high" using True by auto
    have sel: "fst (truncate_message_group dumps ms ?c) \<noteq> [] \<longleftrightarrow> m \<le> ?c"
      using truncate_group_spec [of dumps ms ?c] assms less.prems(1) c(1) by auto
    have s: "minimum_search dumps ms low high mn =
        (if m \<le> ?c then minimum_search dumps ms low (?c - 1) (Some ?c) else minimum_search dumps ms (?c + 1) high mn)"
      using True sel by (subst minimum_search.simps) (simp only: Let_def if_True simp_thms)
    show ?thesis
    proof (cases "m \<le> ?c")
      case True
      have "minimum_search dumps ms low (?c - 1) (Some ?c) = (if m \<le> ?c - 1 then Some m else Some ?c)"
        by (rule less.hyps) (use c less.prems in linarith)+
      then show ?thesis using s True c by auto
    next
      case False
      have "minimum_search dumps ms (?c + 1) high mn = (if m \<le> high then Some m else mn)"
        by (rule less.hyps) (use c False less.prems in linarith)+
      then show ?thesis using s False by simp
    qed
  next
    case False
    then show ?thesis using less.prems by (subst minimum_search.simps) auto
  qed
qed

lemma message_tokens_pos: "ms \<noteq> [] \<Longrightarrow> message_tokens dumps ms \<noteq> 0 \<Longrightarrow> 1 \<le> message_tokens dumps ms"
  using message_tokens_nonneg [of dumps ms] by linarith

lemma minimum_budget_eq:
  "minimum_group_budget dumps budget ms =
     (if ms = [] \<or> message_tokens dumps ms = 0 then Some 0
      else if max 1 (group_floor dumps ms) \<le> budget then Some (max 1 (group_floor dumps ms)) else None)"
proof (cases "ms = [] \<or> message_tokens dumps ms = 0")
  case False
  let ?m = "max 1 (group_floor dumps ms)"
  have le: "?m \<le> message_tokens dumps ms" using group_floor_le(2) [of dumps ms] message_tokens_pos [of ms dumps] False by auto
  show ?thesis
  proof (cases "1 \<le> budget")
    case True
    have "minimum_search dumps ms 1 (min (message_tokens dumps ms) budget) None = (if ?m \<le> min (message_tokens dumps ms) budget then Some ?m else None)"
      by (rule minimum_search_spec) (use True False message_tokens_pos [of ms dumps] in auto)
    then show ?thesis using False le by (auto simp: minimum_group_budget_def)
  next
    case b: False
    then show ?thesis using False by (auto simp: minimum_group_budget_def minimum_search.simps)
  qed
qed (simp add: minimum_group_budget_def)

lemma minimum_budget_selects:
  assumes "minimum_group_budget dumps budget ms = Some r"
  shows "0 \<le> r" "r \<le> message_tokens dumps ms" "r \<le> b \<Longrightarrow> message_tokens dumps ms \<le> b \<or> 0 < b \<and> fst (truncate_message_group dumps ms b) \<noteq> []"
  using assms group_floor_le(2) [of dumps ms] message_tokens_pos [of ms dumps] truncate_group_spec [of dumps ms b]
  by (auto simp: minimum_budget_eq split: if_splits)

section \<open>Selecting groups\<close>

lemma message_indexes_snoc: "message_indexes (ms @ [m]) = dset (message_indexes ms) (m_ref m) (length ms)"
  by (simp add: message_indexes_def enumerate_append_eq)

lemma message_indexes_nth: "distinct (map m_ref ms) \<Longrightarrow> i < length ms \<Longrightarrow> dget (message_indexes ms) (m_ref (ms ! i)) = Some i"
proof (induction ms rule: rev_induct)
  case (snoc m ms)
  show ?case
  proof (cases "i = length ms")
    case False
    then have i: "i < length ms" using snoc.prems(2) by simp
    then have "m_ref (ms ! i) \<noteq> m_ref m" using snoc.prems(1) nth_mem [OF i] by (auto simp: image_iff simp del: nth_mem)
    then show ?thesis using snoc i by (simp add: message_indexes_snoc nth_append)
  qed (simp add: message_indexes_snoc)
qed simp

text \<open>The invariant of the selection: \<open>seen\<close> holds the groups that were tried, as indices.\<close>

definition sel_inv :: "(pydict \<Rightarrow> ustring) \<Rightarrow> message list \<Rightarrow> int \<Rightarrow> nat list list \<Rightarrow> selection \<Rightarrow> bool" where
  "sel_inv dumps ms budget seen st \<longleftrightarrow> (let keys = dkeys (sl_selected st) in
     distinct keys \<and> set keys \<subseteq> set (concat seen) \<and> (\<forall>ks \<in> set seen. set ks \<subseteq> set keys \<or> set ks \<inter> set keys = {})
     \<and> (\<forall>(i, r) \<in> set (sl_selected st). skeleton r = skeleton (ms ! i)) \<and> sl_used st = message_tokens dumps (map snd (sl_selected st)) \<and> sl_used st \<le> budget)"

lemma put_all:
  assumes "distinct (map m_ref ms)"
  shows "distinct ks \<Longrightarrow> set ks \<inter> set (dkeys sel) = {} \<Longrightarrow> \<forall>k \<in> set ks. k < length ms \<Longrightarrow> length chosen = length ks \<Longrightarrow>
    foldl (put_selected (message_indexes ms)) sel (zip (map ((!) ms) ks) chosen) = sel @ zip ks chosen"
proof (induction ks arbitrary: sel chosen)
  case (Cons k ks)
  obtain c cs where c: "chosen = c # cs" using Cons.prems(4) by (cases chosen) auto
  have "put_selected (message_indexes ms) sel (ms ! k, c) = sel @ [(k, c)]"
    using message_indexes_nth [OF assms, of k] Cons.prems(2,3) by (simp add: put_selected_def dset_new)
  then show ?case using Cons.IH [of "sel @ [(k, c)]" cs] Cons.prems c by (auto simp: dkeys_def)
qed simp

lemma commit_inv:
  fixes ids :: "string list"
  assumes "distinct (map m_ref ms)" "sel_inv dumps ms budget seen st" "distinct ks" "set ks \<inter> set (concat seen) = {}" "\<forall>k \<in> set ks. k < length ms"
    and "map skeleton chosen = map skeleton (map ((!) ms) ks)" "sl_used st + message_tokens dumps chosen \<le> budget"
  defines "st' \<equiv> commit_group dumps (message_indexes ms) (map ((!) ms) ks) chosen ids st"
  shows "sel_inv dumps ms budget (ks # seen) st' \<and> set ks \<subseteq> set (dkeys (sl_selected st')) \<and> set (dkeys (sl_selected st)) \<subseteq> set (dkeys (sl_selected st'))"
proof -
  let ?sel = "sl_selected st"
  have len: "length chosen = length ks" using arg_cong [OF assms(6), of length] by simp
  have inv: "distinct (dkeys ?sel)" "set (dkeys ?sel) \<subseteq> set (concat seen)" "\<forall>ks \<in> set seen. set ks \<subseteq> set (dkeys ?sel) \<or> set ks \<inter> set (dkeys ?sel) = {}"
      "\<forall>(i, r) \<in> set ?sel. skeleton r = skeleton (ms ! i)" "sl_used st = message_tokens dumps (map snd ?sel)"
    using assms(2) unfolding sel_inv_def Let_def by blast+
  have dj: "set ks \<inter> set (dkeys ?sel) = {}" using inv(2) assms(4) by blast
  have sel': "sl_selected st' = ?sel @ zip ks chosen"
    using put_all [OF assms(1,3) dj assms(5) len] by (simp add: st'_def commit_group_def)
  have keys: "dkeys (sl_selected st') = dkeys ?sel @ ks" using len by (simp add: sel' dkeys_def)
  have sk: "skeleton r = skeleton (ms ! i)" if "(i, r) \<in> set (zip ks chosen)" for i r
  proof -
    obtain n where "n < length ks" "i = ks ! n" "r = chosen ! n" using \<open>(i, r) \<in> set (zip ks chosen)\<close> len by (auto simp: in_set_zip)
    then show ?thesis using arg_cong [OF assms(6), of "\<lambda>xs. xs ! n"] len by simp
  qed
  have "message_tokens dumps (map snd (sl_selected st')) = sl_used st'" using len inv(5) unfolding sel' by (simp add: st'_def commit_group_def)
  moreover have "\<forall>xs \<in> set (ks # seen). set xs \<subseteq> set (dkeys (sl_selected st')) \<or> set xs \<inter> set (dkeys (sl_selected st')) = {}"
    using inv(3) assms(4) unfolding keys by auto
  moreover have "\<forall>(i, r) \<in> set (sl_selected st'). skeleton r = skeleton (ms ! i)" using inv(4) sk by (auto simp: sel')
  moreover have "distinct (dkeys (sl_selected st'))" using inv(1) assms(3) dj by (auto simp: keys)
  moreover have "set (dkeys (sl_selected st')) \<subseteq> set (concat (ks # seen))" using inv(2) by (auto simp: keys)
  moreover have "sl_used st' \<le> budget" using assms(7) by (simp add: st'_def commit_group_def)
  ultimately show ?thesis unfolding sel_inv_def Let_def by (auto simp: keys)
qed

lemma skip_inv:
  assumes "sel_inv dumps ms budget seen st" "set ks \<inter> set (concat seen) = {}"
  shows "sel_inv dumps ms budget (ks # seen) st"
  using assms unfolding sel_inv_def Let_def by auto

lemma select_group_inv:
  assumes "distinct (map m_ref ms)" "sel_inv dumps ms budget seen st" "distinct ks" "set ks \<inter> set (concat seen) = {}" "\<forall>k \<in> set ks. k < length ms"
    and sel: "select_group dumps budget (message_indexes ms) allow mb (map ((!) ms) ks) st = (st', ok)"
  shows "sel_inv dumps ms budget (ks # seen) st' \<and> set (dkeys (sl_selected st)) \<subseteq> set (dkeys (sl_selected st')) \<and> (ok \<longrightarrow> set ks \<subseteq> set (dkeys (sl_selected st')))"
proof -
  let ?g = "map ((!) ms) ks"
  define r where "r = (case mb of None \<Rightarrow> max 0 (budget - sl_used st) | Some b \<Rightarrow> min (max 0 (budget - sl_used st)) (max 0 b))"
  have used: "sl_used st \<le> budget" using assms(2) by (simp add: sel_inv_def Let_def)
  have r: "0 \<le> r" "r \<le> budget - sl_used st" using used by (auto simp: r_def split: option.splits)
  note commit = commit_inv [OF assms(1-5)]
  consider (empty) "ks = []" "st' = st" | (raw) "message_tokens dumps ?g \<le> r" "st' = commit_group dumps (message_indexes ms) ?g ?g [] st"
    | (short) chosen ids where "truncate_message_group dumps ?g r = (chosen, ids)" "chosen \<noteq> []" "st' = commit_group dumps (message_indexes ms) ?g chosen ids st"
    | (refused) "st' = st" "\<not> ok"
    using sel unfolding select_group_def r_def [symmetric] Let_def by (auto split: if_splits prod.splits)
  then show ?thesis
  proof cases
    case empty
    then show ?thesis using skip_inv [OF assms(2,4)] by simp
  next
    case raw
    then show ?thesis using commit [of ?g "[]"] r by simp
  next
    case short
    have "map skeleton chosen = map skeleton ?g" "message_tokens dumps chosen \<le> r"
      using truncate_group_spec [of dumps ?g r] short(1,2) r(1) by auto
    then show ?thesis using commit [of chosen ids] short(3) r by simp
  next
    case refused
    then show ?thesis using skip_inv [OF assms(2,4)] by simp
  qed
qed

lemma select_until_inv:
  assumes "distinct (map m_ref ms)"
  shows "sel_inv dumps ms budget seen st \<Longrightarrow> distinct (concat kss @ concat seen) \<Longrightarrow> \<forall>k \<in> set (concat kss). k < length ms \<Longrightarrow>
    sel_inv dumps ms budget (rev kss @ seen) (select_until dumps budget (message_indexes ms) allow (map (map ((!) ms)) kss) st)
    \<and> set (dkeys (sl_selected st)) \<subseteq> set (dkeys (sl_selected (select_until dumps budget (message_indexes ms) allow (map (map ((!) ms)) kss) st)))"
proof (induction kss arbitrary: st seen)
  case (Cons ks kss)
  obtain st' ok where s: "select_group dumps budget (message_indexes ms) allow None (map ((!) ms) ks) st = (st', ok)" by fastforce
  have inv: "sel_inv dumps ms budget (ks # seen) st'" "set (dkeys (sl_selected st)) \<subseteq> set (dkeys (sl_selected st'))"
  proof -
    have "distinct ks" "set ks \<inter> set (concat seen) = {}" "\<forall>k \<in> set ks. k < length ms" using Cons.prems(2,3) by auto
    from select_group_inv [OF assms Cons.prems(1) this s] show "sel_inv dumps ms budget (ks # seen) st'" "set (dkeys (sl_selected st)) \<subseteq> set (dkeys (sl_selected st'))"
      by blast+
  qed
  have skip: "sel_inv dumps ms budget (rev xs @ seen') st'" if "sel_inv dumps ms budget seen' st'" "distinct (concat xs @ concat seen')" for xs seen'
    using that
  proof (induction xs arbitrary: seen')
    case (Cons x xs)
    then have "sel_inv dumps ms budget (x # seen') st'" by (intro skip_inv) auto
    moreover have "distinct (concat xs @ concat (x # seen'))" using Cons.prems(2) by auto
    ultimately show ?case using Cons.IH [of "x # seen'"] by simp
  qed simp
  show ?case
  proof (cases ok)
    case True
    have "distinct (concat kss @ concat (ks # seen))" using Cons.prems(2) by auto
    from Cons.IH [OF inv(1) this] show ?thesis using Cons.prems(3) s True inv(2) by auto
  next
    case False
    have "distinct (concat kss @ concat (ks # seen))" using Cons.prems(2) by auto
    from skip [OF inv(1) this] show ?thesis using s False inv(2) by simp
  qed
qed simp

section \<open>The groups of a session\<close>

definition index_of :: "message list \<Rightarrow> message \<Rightarrow> nat" where
  "index_of ms m = the (dget (message_indexes ms) (m_ref m))"

lemma index_of_position:
  assumes "distinct (map m_ref ms)" "m \<in> set ms"
  shows "index_of ms m < length ms" "ms ! index_of ms m = m"
proof -
  obtain i where "i < length ms" "ms ! i = m" using assms(2) by (auto simp: in_set_conv_nth)
  then show "index_of ms m < length ms" "ms ! index_of ms m = m" using message_indexes_nth [OF assms(1), of i] by (auto simp: index_of_def)
qed

lemma map_index_of: "distinct (map m_ref ms) \<Longrightarrow> set g \<subseteq> set ms \<Longrightarrow> map ((!) ms) (map (index_of ms) g) = g"
  by (induction g) (auto simp: index_of_position(2))

lemma inj_index_of: "distinct (map m_ref ms) \<Longrightarrow> inj_on (index_of ms) (set ms)"
  by (rule inj_onI) (metis index_of_position(2))

text \<open>All groups in the order in which they are tried, and the groups of the loops.\<close>

definition checkpoint_groups :: "user_turn \<Rightarrow> message list list" where
  "checkpoint_groups t = map as_messages (filter is_checkpoint_step (butlast (ut_steps t)))"

definition recent_groups :: "user_turn \<Rightarrow> message list list" where
  "recent_groups t = map as_messages (filter (\<lambda>s. \<not> is_checkpoint_step s) (rev (butlast (ut_steps t))))"

lemma mset_concat_rev: "mset (concat (rev xs)) = mset (concat xs)"
  by (induction xs) auto

lemma mset_concat_filter: "mset (concat (map f (filter P xs))) + mset (concat (map f (filter (\<lambda>x. \<not> P x) xs))) = mset (concat (map f xs))"
  by (induction xs) auto

lemma mset_turn: "mset (opt_list (ut_anchor t) @ final_group t @ concat (checkpoint_groups t) @ concat (recent_groups t)) = mset (turn_messages t)"
proof -
  have "mset (concat (recent_groups t)) = mset (concat (map as_messages (filter (\<lambda>s. \<not> is_checkpoint_step s) (butlast (ut_steps t)))))"
    unfolding recent_groups_def rev_filter [symmetric] rev_map [symmetric] by (rule mset_concat_rev)
  then have "mset (concat (checkpoint_groups t)) + mset (concat (recent_groups t)) = mset (steps_messages (butlast (ut_steps t)))"
    using mset_concat_filter [of as_messages is_checkpoint_step "butlast (ut_steps t)"] by (simp add: checkpoint_groups_def steps_messages_def)
  moreover have "steps_messages (ut_steps t) = steps_messages (butlast (ut_steps t)) @ final_group t"
    by (cases "ut_steps t" rule: rev_cases) (simp_all add: final_group_def)
  ultimately show ?thesis by (simp add: turn_messages_def)
qed

lemma mset_groups:
  assumes "build_turns ms = older @ [t]"
  shows "mset (opt_list (ut_anchor t) @ final_group t @ concat (checkpoint_groups t) @ concat (recent_groups t) @ concat (map turn_messages (rev older))) = mset ms"
proof -
  have "mset (concat (map turn_messages (rev older))) = mset (flatten_turns older)"
    unfolding rev_map [symmetric] flatten_turns_def by (rule mset_concat_rev)
  moreover have "ms = flatten_turns older @ turn_messages t" using build_turns_flatten [of ms] assms by simp
  ultimately show ?thesis using mset_turn [of t] by simp
qed

definition anchor_selection :: "(pydict \<Rightarrow> ustring) \<Rightarrow> message list \<Rightarrow> int \<Rightarrow> user_turn \<Rightarrow> selection \<times> bool" where
  "anchor_selection dumps ms budget t =
     select_group dumps budget (message_indexes ms) True (Some (budget - final_reserve dumps budget (opt_list (ut_anchor t)) (final_group t)))
       (opt_list (ut_anchor t)) \<lparr>sl_selected = [], sl_truncated = [], sl_used = 0\<rparr>"

definition final_selection :: "(pydict \<Rightarrow> ustring) \<Rightarrow> message list \<Rightarrow> int \<Rightarrow> user_turn \<Rightarrow> selection \<times> bool" where
  "final_selection dumps ms budget t = select_group dumps budget (message_indexes ms) True None (final_group t) (fst (anchor_selection dumps ms budget t))"

lemma select_messages_eq:
  "build_turns ms = older @ [t] \<Longrightarrow> select_messages dumps ms budget =
     select_until dumps budget (message_indexes ms) False (map turn_messages (rev older))
       (select_until dumps budget (message_indexes ms) False (recent_groups t)
         (select_until dumps budget (message_indexes ms) True (checkpoint_groups t) (fst (final_selection dumps ms budget t))))"
  by (simp add: select_messages_def final_selection_def anchor_selection_def checkpoint_groups_def recent_groups_def Let_def)

definition all_groups :: "user_turn list \<Rightarrow> user_turn \<Rightarrow> message list list" where
  "all_groups older t = [opt_list (ut_anchor t), final_group t] @ checkpoint_groups t @ recent_groups t @ map turn_messages (rev older)"

lemma all_groups_indices:
  assumes d: "distinct (map m_ref ms)" and ts: "build_turns ms = older @ [t]"
  shows "distinct (concat (map (map (index_of ms)) (all_groups older t)))"
    and "\<forall>k \<in> set (concat (map (map (index_of ms)) (all_groups older t))). k < length ms"
    and "set gs \<subseteq> set (all_groups older t) \<Longrightarrow> map (map ((!) ms)) (map (map (index_of ms)) gs) = gs"
proof -
  let ?G = "all_groups older t"
  have m: "mset (concat ?G) = mset ms" using mset_groups [OF ts] by (simp add: all_groups_def)
  then have set: "set (concat ?G) = set ms" by (rule mset_eq_setD)
  have "distinct (concat ?G)" using m d by (metis distinct_map mset_eq_imp_distinct_iff)
  then show "distinct (concat (map (map (index_of ms)) ?G))" using inj_index_of [OF d] set by (simp add: distinct_map flip: map_concat)
  show "\<forall>k \<in> set (concat (map (map (index_of ms)) ?G)). k < length ms"
    using set index_of_position(1) [OF d] by (auto simp flip: map_concat)
  show "map (map ((!) ms)) (map (map (index_of ms)) gs) = gs" if "set gs \<subseteq> set ?G"
  proof -
    have "map ((!) ms) (map (index_of ms) g) = g" if "g \<in> set gs" for g
      using that \<open>set gs \<subseteq> set ?G\<close> set by (intro map_index_of [OF d]) auto
    then show ?thesis by (induction gs) auto
  qed
qed

lemma distinct_concat_rev: "distinct (concat (rev xss)) \<longleftrightarrow> distinct (concat xss)"
  by (rule mset_eq_imp_distinct_iff) (rule mset_concat_rev)

lemma distinct_groups:
  assumes "distinct (a @ f @ concat cs @ concat rs @ concat old)"
  shows "distinct (concat cs @ concat [f, a])" "distinct (concat rs @ concat (rev cs @ [f, a]))" "distinct (concat old @ concat (rev rs @ rev cs @ [f, a]))"
proof -
  have s: "set (concat (rev xss)) = set (concat xss)" for xss :: "'a list list" by simp
  show "distinct (concat cs @ concat [f, a])" "distinct (concat rs @ concat (rev cs @ [f, a]))" "distinct (concat old @ concat (rev rs @ rev cs @ [f, a]))"
    using assms by (simp_all add: distinct_concat_rev s Int_commute Int_Un_distrib Int_Un_distrib2 del: set_concat set_rev)
qed

lemma select_messages_inv:
  fixes dumps :: "pydict \<Rightarrow> ustring"
  assumes d: "distinct (map m_ref ms)" and ts: "build_turns ms = older @ [t]" and b: "0 \<le> budget"
  defines "st \<equiv> select_messages dumps ms budget"
  shows "\<exists>seen. set seen = set (map (map (index_of ms)) (all_groups older t)) \<and> sel_inv dumps ms budget seen st"
    and "snd (anchor_selection dumps ms budget t) \<Longrightarrow> index_of ms ` set (opt_list (ut_anchor t)) \<subseteq> set (dkeys (sl_selected st))"
    and "snd (final_selection dumps ms budget t) \<Longrightarrow> index_of ms ` set (final_group t) \<subseteq> set (dkeys (sl_selected st))"
proof -
  let ?a = "opt_list (ut_anchor t)" and ?f = "final_group t" and ?old = "map turn_messages (rev older)" and ?G = "all_groups older t"
  let ?ix = "map (index_of ms)" and ?keys = "\<lambda>st. set (dkeys (sl_selected st))"
  note ix = all_groups_indices [OF d ts]
  have bk: "map ((!) ms) (?ix ?a) = ?a" "map ((!) ms) (?ix ?f) = ?f" "map (map ((!) ms)) (map ?ix (checkpoint_groups t)) = checkpoint_groups t"
      "map (map ((!) ms)) (map ?ix (recent_groups t)) = recent_groups t" "map (map ((!) ms)) (map ?ix ?old) = ?old"
    using ix(3) [of "[?a]"] ix(3) [of "[?f]"] by (auto intro!: ix(3) simp: all_groups_def simp del: map_map)
  have di: "distinct (?ix ?a @ ?ix ?f @ concat (map ?ix (checkpoint_groups t)) @ concat (map ?ix (recent_groups t)) @ concat (map ?ix ?old))"
    using ix(1) by (simp add: all_groups_def del: map_map)
  have lt: "\<forall>k \<in> set (?ix ?a) \<union> set (?ix ?f) \<union> set (concat (map ?ix (checkpoint_groups t))) \<union> set (concat (map ?ix (recent_groups t))) \<union> set (concat (map ?ix ?old)). k < length ms"
    using ix(2) by (simp add: all_groups_def del: map_map)
  obtain st1 ok1 where s1: "anchor_selection dumps ms budget t = (st1, ok1)" by fastforce
  obtain st2 ok2 where s2: "final_selection dumps ms budget t = (st2, ok2)" by fastforce
  have i0: "sel_inv dumps ms budget [] \<lparr>sl_selected = [], sl_truncated = [], sl_used = 0\<rparr>" using b by (simp add: sel_inv_def dkeys_def)
  have g1: "sel_inv dumps ms budget [?ix ?a] st1 \<and> (ok1 \<longrightarrow> set (?ix ?a) \<subseteq> ?keys st1)"
    using select_group_inv [OF d i0, of "?ix ?a"] s1 di lt unfolding bk anchor_selection_def by (auto simp del: map_map)
  have "distinct (?ix ?f)" "set (?ix ?f) \<inter> set (concat [?ix ?a]) = {}" "\<forall>k \<in> set (?ix ?f). k < length ms" using di lt by (auto simp del: map_map)
  from select_group_inv [OF d conjunct1 [OF g1] this, of True None st2 ok2] s1 s2
  have g2: "sel_inv dumps ms budget [?ix ?f, ?ix ?a] st2 \<and> ?keys st1 \<subseteq> ?keys st2 \<and> (ok2 \<longrightarrow> set (?ix ?f) \<subseteq> ?keys st2)"
    unfolding bk final_selection_def by simp
  define st3 where "st3 = select_until dumps budget (message_indexes ms) True (checkpoint_groups t) st2"
  define st4 where "st4 = select_until dumps budget (message_indexes ms) False (recent_groups t) st3"
  have st: "st = select_until dumps budget (message_indexes ms) False ?old st4"
    using select_messages_eq [OF ts, of dumps budget] s2 by (simp add: st_def st3_def st4_def)
  note dis = distinct_groups [OF di]
  have "\<forall>k \<in> set (concat (map ?ix (checkpoint_groups t))). k < length ms" using lt by blast
  from select_until_inv [OF d conjunct1 [OF g2] dis(1) this, of True]
  have g3: "sel_inv dumps ms budget (rev (map ?ix (checkpoint_groups t)) @ [?ix ?f, ?ix ?a]) st3 \<and> ?keys st2 \<subseteq> ?keys st3"
    unfolding bk st3_def .
  have "\<forall>k \<in> set (concat (map ?ix (recent_groups t))). k < length ms" using lt by blast
  from select_until_inv [OF d conjunct1 [OF g3] dis(2) this, of False]
  have g4: "sel_inv dumps ms budget (rev (map ?ix (recent_groups t)) @ rev (map ?ix (checkpoint_groups t)) @ [?ix ?f, ?ix ?a]) st4 \<and> ?keys st3 \<subseteq> ?keys st4"
    unfolding bk st4_def .
  have "\<forall>k \<in> set (concat (map ?ix ?old)). k < length ms" using lt by blast
  from select_until_inv [OF d conjunct1 [OF g4] dis(3) this, of False]
  have g5: "sel_inv dumps ms budget (rev (map ?ix ?old) @ rev (map ?ix (recent_groups t)) @ rev (map ?ix (checkpoint_groups t)) @ [?ix ?f, ?ix ?a]) st \<and> ?keys st4 \<subseteq> ?keys st"
    unfolding bk st .
  have "set (rev (map ?ix ?old) @ rev (map ?ix (recent_groups t)) @ rev (map ?ix (checkpoint_groups t)) @ [?ix ?f, ?ix ?a]) = set (map ?ix ?G)"
    by (auto simp: all_groups_def simp del: map_map)
  with g5 show "\<exists>seen. set seen = set (map ?ix ?G) \<and> sel_inv dumps ms budget seen st" by blast
  have mono: "?keys st2 \<subseteq> ?keys st" using g3 g4 g5 by (meson subset_trans)
  show "snd (anchor_selection dumps ms budget t) \<Longrightarrow> index_of ms ` set ?a \<subseteq> ?keys st"
  proof -
    assume "snd (anchor_selection dumps ms budget t)"
    then have "set (?ix ?a) \<subseteq> ?keys st2" using g1 g2 s1 by (metis snd_conv subset_trans)
    also have "\<dots> \<subseteq> ?keys st" using mono .
    finally show "index_of ms ` set ?a \<subseteq> ?keys st" by simp
  qed
  show "snd (final_selection dumps ms budget t) \<Longrightarrow> index_of ms ` set ?f \<subseteq> ?keys st"
  proof -
    assume "snd (final_selection dumps ms budget t)"
    then have "set (?ix ?f) \<subseteq> ?keys st2" using g2 s2 by (metis snd_conv)
    also have "\<dots> \<subseteq> ?keys st" using mono .
    finally show "index_of ms ` set ?f \<subseteq> ?keys st" by simp
  qed
qed

section \<open>Properties\<close>

lemma selected_values:
  assumes "distinct (dkeys sel)"
  shows "message_tokens dumps (map (\<lambda>i. the (dget sel i)) (sort (dkeys sel))) = message_tokens dumps (map snd sel)"
    and "\<forall>(i, r) \<in> set sel. skeleton r = skeleton (ms ! i) \<Longrightarrow> map skeleton (map (\<lambda>i. the (dget sel i)) (sort (dkeys sel))) = map (\<lambda>i. skeleton (ms ! i)) (sort (dkeys sel))"
proof -
  have "map (\<lambda>i. the (dget sel i)) (dkeys sel) = map snd sel"
    using in_set_dget [OF assms] by (auto simp: dkeys_def)
  then have "mset (map (\<lambda>i. the (dget sel i)) (sort (dkeys sel))) = mset (map snd sel)" by (metis mset_map mset_sort)
  then have "mset (map (estimated_tokens dumps) (map (\<lambda>i. the (dget sel i)) (sort (dkeys sel)))) = mset (map (estimated_tokens dumps) (map snd sel))"
    by (metis mset_map)
  then show "message_tokens dumps (map (\<lambda>i. the (dget sel i)) (sort (dkeys sel))) = message_tokens dumps (map snd sel)"
    unfolding message_tokens_def by (metis sum_mset_sum_list)
  assume sk: "\<forall>(i, r) \<in> set sel. skeleton r = skeleton (ms ! i)"
  have "skeleton (the (dget sel i)) = skeleton (ms ! i)" if i: "i \<in> set (dkeys sel)" for i
  proof -
    obtain r where "dget sel i = Some r" using i dget_None_iff [of sel i] by auto
    then show ?thesis using sk dget_in_set [of sel i r] by auto
  qed
  then show "map skeleton (map (\<lambda>i. the (dget sel i)) (sort (dkeys sel))) = map (\<lambda>i. skeleton (ms ! i)) (sort (dkeys sel))" by simp
qed

text \<open>The indices of the messages of a step.\<close>

definition step_indices :: "message list \<Rightarrow> assistant_step \<Rightarrow> nat set" where
  "step_indices ms s = index_of ms ` set (as_messages s)"

lemma step_in_group:
  assumes "build_turns ms = older @ [t]" "u \<in> set (build_turns ms)" "s \<in> set (ut_steps u)"
  shows "\<exists>g \<in> set (all_groups older t). set (as_messages s) \<subseteq> set g"
proof (cases "u = t")
  case True
  then have "s = last (ut_steps t) \<or> s \<in> set (butlast (ut_steps t))" using assms(3) by (cases "ut_steps t" rule: rev_cases) auto
  moreover have "ut_steps t \<noteq> []" using assms(3) True by auto
  ultimately consider "as_messages s = final_group t" | "as_messages s \<in> set (checkpoint_groups t)" | "as_messages s \<in> set (recent_groups t)"
    by (auto simp: final_group_def checkpoint_groups_def recent_groups_def)
  then show ?thesis by cases (auto simp: all_groups_def)
next
  case False
  then have "u \<in> set older" using assms(1,2) by auto
  moreover have "set (as_messages s) \<subseteq> set (turn_messages u)" using assms(3) by (auto simp: turn_messages_def steps_messages_def)
  ultimately show ?thesis by (auto simp: all_groups_def)
qed

lemma build_turns_last: "ms \<noteq> [] \<Longrightarrow> \<exists>older t. build_turns ms = older @ [t]"
  using build_turns_flatten [of ms] by (cases "build_turns ms" rule: rev_cases) auto

lemma step_indices_bound:
  assumes "distinct (map m_ref ms)" "t \<in> set (build_turns ms)" "s \<in> set (ut_steps t)"
  shows "step_indices ms s \<subseteq> {..<length ms}"
proof -
  have "set (as_messages s) \<subseteq> set (flatten_turns (build_turns ms))"
    using assms(2,3) by (fastforce simp: flatten_turns_def turn_messages_def steps_messages_def)
  then show ?thesis using index_of_position(1) [OF assms(1)] by (auto simp: step_indices_def build_turns_flatten)
qed

lemma skeleton_ref: "skeleton r = skeleton m \<Longrightarrow> m_ref r = m_ref m"
  by (metis on_parts_simps(2) skeleton_def)

text \<open>Property C19. The view of the active messages is within the budget and faithful: its tokens are the reported ones and at most the budget;
  it has the messages at some of the positions, in their order, and changes nothing of them but bodies and tool inputs and the notes
  on truncation; the other messages are reported as dropped; the messages of a step are all in the view or none is, so
  a tool call and its results are never parted; and messages that fit are all returned unchanged.\<close>

theorem active_view_is_faithful:
  fixes dumps ms budget
  assumes d: "distinct (map m_ref ms)"
  defines "p \<equiv> fit_active_messages_to_budget dumps ms budget"
  shows "ap_estimated_tokens p = message_tokens dumps (ap_messages p) \<and> ap_estimated_tokens p \<le> max 0 budget
    \<and> (\<exists>ks. sorted ks \<and> distinct ks \<and> set ks \<subseteq> {..<length ms} \<and> map skeleton (ap_messages p) = map (\<lambda>i. skeleton (ms ! i)) ks
        \<and> ap_dropped_message_ids p = map (\<lambda>i. m_id (ms ! i)) (filter (\<lambda>i. i \<notin> set ks) [0..<length ms])
        \<and> (\<forall>t \<in> set (build_turns ms). \<forall>s \<in> set (ut_steps t). step_indices ms s \<subseteq> set ks \<or> step_indices ms s \<inter> set ks = {}))
    \<and> (0 < budget \<and> message_tokens dumps ms \<le> budget \<longrightarrow> ap_messages p = ms)"
proof -
  let ?b = "max 0 budget"
  consider (none) "ms = [] \<or> ?b = 0" | (all) "ms \<noteq> []" "0 < budget" "message_tokens dumps ms \<le> ?b" | (some) "ms \<noteq> []" "0 < budget" "message_tokens dumps ms > ?b" by linarith
  then show ?thesis
  proof cases
    case none
    then have "p = \<lparr>ap_messages = [], ap_estimated_tokens = 0, ap_dropped_message_ids = map m_id ms, ap_truncated_message_ids = []\<rparr>"
      by (simp add: p_def fit_active_messages_to_budget_def Let_def)
    moreover have "map m_id ms = map (\<lambda>i. m_id (ms ! i)) [0..<length ms]" by (rule nth_equalityI) simp_all
    ultimately show ?thesis using none by (intro conjI exI [of _ "[]"]) auto
  next
    case all
    then have p: "p = \<lparr>ap_messages = ms, ap_estimated_tokens = message_tokens dumps ms, ap_dropped_message_ids = [], ap_truncated_message_ids = []\<rparr>"
      by (simp add: p_def fit_active_messages_to_budget_def Let_def)
    have "map skeleton ms = map (\<lambda>i. skeleton (ms ! i)) [0..<length ms]" by (rule nth_equalityI) simp_all
    then show ?thesis using all p step_indices_bound [OF d] by (intro conjI exI [of _ "[0..<length ms]"]) (auto simp: atLeast0LessThan)
  next
    case some
    obtain older t where ts: "build_turns ms = older @ [t]" using build_turns_last [OF some(1)] by blast
    define st where "st = select_messages dumps ms ?b"
    let ?keys = "dkeys (sl_selected st)"
    obtain seen where seen: "set seen = set (map (map (index_of ms)) (all_groups older t))" "sel_inv dumps ms ?b seen st"
      using select_messages_inv(1) [OF d ts, of ?b dumps] by (auto simp: st_def)
    have inv: "distinct ?keys" "set ?keys \<subseteq> set (concat seen)" "\<forall>ks \<in> set seen. set ks \<subseteq> set ?keys \<or> set ks \<inter> set ?keys = {}"
        "\<forall>(i, r) \<in> set (sl_selected st). skeleton r = skeleton (ms ! i)" "sl_used st = message_tokens dumps (map snd (sl_selected st))" "sl_used st \<le> ?b"
      using seen(2) unfolding sel_inv_def Let_def by blast+
    have p: "ap_messages p = map (\<lambda>i. the (dget (sl_selected st) i)) (sort ?keys)" "ap_estimated_tokens p = message_tokens dumps (ap_messages p)"
        "ap_dropped_message_ids p = map (\<lambda>i. m_id (ms ! i)) (filter (\<lambda>i. i \<notin> set ?keys) [0..<length ms])"
      using some by (simp_all add: p_def fit_active_messages_to_budget_def Let_def st_def)
    have "set (concat seen) = set (concat (map (map (index_of ms)) (all_groups older t)))" unfolding set_concat seen(1) ..
    then have bound: "set ?keys \<subseteq> {..<length ms}" using inv(2) all_groups_indices(2) [OF d ts] by blast
    have steps: "step_indices ms s \<subseteq> set ?keys \<or> step_indices ms s \<inter> set ?keys = {}" if us: "u \<in> set (build_turns ms)" "s \<in> set (ut_steps u)" for u s
    proof -
      obtain g where g: "g \<in> set (all_groups older t)" "set (as_messages s) \<subseteq> set g" using step_in_group [OF ts us] by blast
      then have "map (index_of ms) g \<in> set seen" using seen(1) by simp
      moreover have "step_indices ms s \<subseteq> set (map (index_of ms) g)" using g(2) by (auto simp: step_indices_def)
      ultimately show ?thesis using inv(3) by blast
    qed
    have tok: "message_tokens dumps (ap_messages p) = sl_used st" using selected_values(1) [OF inv(1)] p(1) inv(5) by simp
    have "sorted (sort ?keys) \<and> distinct (sort ?keys) \<and> set (sort ?keys) \<subseteq> {..<length ms}" using inv(1) bound by simp
    moreover have "map skeleton (ap_messages p) = map (\<lambda>i. skeleton (ms ! i)) (sort ?keys)" unfolding p(1) by (rule selected_values(2) [OF inv(1,4)])
    moreover have "\<forall>u \<in> set (build_turns ms). \<forall>s \<in> set (ut_steps u). step_indices ms s \<subseteq> set (sort ?keys) \<or> step_indices ms s \<inter> set (sort ?keys) = {}"
      unfolding set_sort using steps by blast
    moreover note p(3) [folded set_sort [of "\<lambda>x. x" ?keys]]
    moreover have "ap_estimated_tokens p \<le> ?b" "\<not> message_tokens dumps ms \<le> budget" using tok p(2) inv(6) some(2,3) by simp_all
    ultimately show ?thesis using p(2) by blast
  qed
qed

theorem active_view_is_faithful_witness:
  "ap_estimated_tokens (fit_active_messages_to_budget demo_dumps demo_session 30) \<le> 30
   \<and> (\<exists>ks. sorted ks \<and> distinct ks \<and> map skeleton (ap_messages (fit_active_messages_to_budget demo_dumps demo_session 30)) = map (\<lambda>i. skeleton (demo_session ! i)) ks
        \<and> ap_dropped_message_ids (fit_active_messages_to_budget demo_dumps demo_session 30) = map (\<lambda>i. m_id (demo_session ! i)) (filter (\<lambda>i. i \<notin> set ks) [0..<length demo_session]))
   \<and> ap_messages (fit_active_messages_to_budget demo_dumps demo_session 30) \<noteq> demo_session"
proof -
  have d: "distinct (map m_ref demo_session)" by code_simp
  have n: "ap_dropped_message_ids (fit_active_messages_to_budget demo_dumps demo_session 30) \<noteq> []" by code_simp
  have l: "length (ap_messages (fit_active_messages_to_budget demo_dumps demo_session 30)) \<noteq> length demo_session" by code_simp
  note t = active_view_is_faithful [OF d, of demo_dumps 30]
  show ?thesis using t l by (intro conjI) (simp, blast, metis)
qed

lemma select_within:
  assumes "ms \<noteq> []" "minimum_group_budget dumps budget ms = Some a" "a \<le> r"
    and "r = (case mb of None \<Rightarrow> max 0 (budget - sl_used st) | Some b \<Rightarrow> min (max 0 (budget - sl_used st)) (max 0 b))"
  shows "snd (select_group dumps budget ixs True mb ms st) \<and> sl_used (fst (select_group dumps budget ixs True mb ms st)) \<le> sl_used st + r"
proof -
  have "0 \<le> r" using minimum_budget_selects(1) [OF assms(2)] assms(3) by simp
  then show ?thesis
    using minimum_budget_selects(3) [OF assms(2,3)] truncate_group_spec [of dumps ms r] assms(1)
    unfolding select_group_def assms(4) [symmetric] Let_def
    by (cases "truncate_message_group dumps ms r") (auto simp: commit_group_def)
qed

lemma mandatory_selected:
  assumes "0 < budget" "minimum_group_budget dumps budget (opt_list (ut_anchor t)) = Some a" "minimum_group_budget dumps budget (final_group t) = Some f" "a + f \<le> budget"
  shows "snd (anchor_selection dumps ms budget t) \<and> snd (final_selection dumps ms budget t)"
proof -
  let ?a = "opt_list (ut_anchor t)" and ?f = "final_group t" let ?r = "final_reserve dumps budget ?a ?f"
  note a = minimum_budget_selects(1,2) [OF assms(2)] and f = minimum_budget_selects(1,2) [OF assms(3)]
  have r: "0 \<le> ?r" "?r \<le> budget - a" "?a \<noteq> [] \<Longrightarrow> ?f \<noteq> [] \<Longrightarrow> f \<le> ?r"
    using a f assms by (auto simp: final_reserve_def)
  let ?st0 = "\<lparr>sl_selected = [], sl_truncated = [], sl_used = 0\<rparr>"
  have 1: "snd (anchor_selection dumps ms budget t) \<and> sl_used (fst (anchor_selection dumps ms budget t)) \<le> (if ?a = [] then 0 else budget - ?r)"
  proof (cases "?a = []")
    case True
    then show ?thesis by (simp add: anchor_selection_def select_group_def)
  next
    case False
    have "a \<le> budget - ?r" using r(2) by simp
    moreover have "budget - ?r = (case Some (budget - ?r) of None \<Rightarrow> max 0 (budget - sl_used ?st0) | Some b \<Rightarrow> min (max 0 (budget - sl_used ?st0)) (max 0 b))"
      using r(1,2) a(1) by simp
    ultimately show ?thesis using select_within [OF False assms(2), where r = "budget - ?r" and mb = "Some (budget - ?r)" and st = ?st0 and ixs = "message_indexes ms"] False
      by (simp add: anchor_selection_def)
  qed
  let ?st1 = "fst (anchor_selection dumps ms budget t)"
  have "snd (final_selection dumps ms budget t)"
  proof (cases "?f = []")
    case True
    then show ?thesis by (simp add: final_selection_def select_group_def)
  next
    case False
    have "f \<le> max 0 (budget - sl_used ?st1)" using 1 r(3) False f(1) assms(4) a(1) by (auto split: if_splits)
    then show ?thesis using select_within [OF False assms(3), where mb = None and st = ?st1 and ixs = "message_indexes ms"] by (simp add: final_selection_def)
  qed
  with 1 show ?thesis by blast
qed

text \<open>Property C33. The newest query and the last answer are in the view whenever the budget allows it: the binary search finds the smallest budget
  for which a group can be shortened, and if the smallest budgets of the two together are within the budget, neither takes the place of the
  other.\<close>

theorem newest_exchange_is_kept:
  assumes "distinct (map m_ref ms)" "ms \<noteq> []" "0 < budget" "t = last (build_turns ms)"
    and "minimum_group_budget dumps budget (opt_list (ut_anchor t)) = Some a" "minimum_group_budget dumps budget (final_group t) = Some f" "a + f \<le> budget"
  shows "m_ref ` set (opt_list (ut_anchor t) @ final_group t) \<subseteq> m_ref ` set (ap_messages (fit_active_messages_to_budget dumps ms budget))"
proof -
  obtain older where ts: "build_turns ms = older @ [t]" using build_turns_last [OF assms(2)] assms(4) by auto
  let ?g = "opt_list (ut_anchor t) @ final_group t" and ?p = "fit_active_messages_to_budget dumps ms budget"
  have sub: "set ?g \<subseteq> set ms" using mset_groups [OF ts, THEN mset_eq_setD] by auto
  show ?thesis
  proof (cases "message_tokens dumps ms \<le> budget")
    case True
    then have "ap_messages ?p = ms" using assms(2,3) by (simp add: fit_active_messages_to_budget_def Let_def)
    then show ?thesis using sub by auto
  next
    case False
    define st where "st = select_messages dumps ms budget"
    have p: "ap_messages ?p = map (\<lambda>i. the (dget (sl_selected st) i)) (sort (dkeys (sl_selected st)))"
      using False assms(2,3) by (simp add: fit_active_messages_to_budget_def Let_def st_def)
    have b: "0 \<le> budget" using assms(3) by simp
    note inv = select_messages_inv [OF assms(1) ts b, of dumps]
    have keys: "index_of ms ` set ?g \<subseteq> set (dkeys (sl_selected st))"
      using inv(2,3) mandatory_selected [OF assms(3,5,6,7), of ms] by (auto simp: st_def)
    have sk: "distinct (dkeys (sl_selected st))" "\<forall>(i, r) \<in> set (sl_selected st). skeleton r = skeleton (ms ! i)"
      using inv(1) unfolding sel_inv_def Let_def st_def by blast+
    have "m_ref m \<in> m_ref ` set (ap_messages ?p)" if "m \<in> set ?g" for m
    proof -
      have k: "index_of ms m \<in> set (dkeys (sl_selected st))" using keys \<open>m \<in> set ?g\<close> by blast
      then obtain r where r: "dget (sl_selected st) (index_of ms m) = Some r" using dget_None_iff [of "sl_selected st" "index_of ms m"] by auto
      have "ms ! index_of ms m = m" using index_of_position(2) [OF assms(1)] sub \<open>m \<in> set ?g\<close> by blast
      moreover have "skeleton r = skeleton (ms ! index_of ms m)" using sk(2) dget_in_set [OF r] by auto
      ultimately have "m_ref r = m_ref m" using skeleton_ref by metis
      moreover have "r \<in> set (ap_messages ?p)" using k r unfolding p by force
      ultimately show ?thesis by (metis imageI)
    qed
    then show ?thesis by blast
  qed
qed

theorem newest_exchange_is_kept_witness:
  "m_ref ` set (opt_list (ut_anchor (last (build_turns demo_session))) @ final_group (last (build_turns demo_session)))
     \<subseteq> m_ref ` set (ap_messages (fit_active_messages_to_budget demo_dumps demo_session 30))"
proof -
  have d: "distinct (map m_ref demo_session)" by code_simp
  have n: "demo_session \<noteq> []" "(0::int) < 30" "(1::int) + 1 \<le> 30" by (simp_all add: demo_session_def)
  have a: "minimum_group_budget demo_dumps 30 (opt_list (ut_anchor (last (build_turns demo_session)))) = Some 1" by code_simp
  have f: "minimum_group_budget demo_dumps 30 (final_group (last (build_turns demo_session))) = Some 1" by code_simp
  show ?thesis by (rule newest_exchange_is_kept [OF d n(1,2) refl a f n(3)])
qed

end
